(* ===== verification/Prelude.thy ===== *)
theory Prelude imports "HOL-Library.Word" begin

text \<open>
  Shared vocabulary of the development: the machine types of the ESP32-S3 target (a byte is
  8 bits, \<open>size_t\<close> and \<open>uint32_t\<close> are 32 bits wide), wrap-around arithmetic on offsets and
  sizes kept as natural numbers, byte buffers with bounds-checked accesses, the little-endian
  image of integers, and the ESP-IDF status codes that the sources name.
\<close>

unbundle bit_operations_syntax

section \<open>Types and collections\<close>

type_synonym byte = "8 word"
type_synonym u16 = "16 word"
type_synonym u32 = "32 word"
type_synonym bytes = "byte list"

named_theorems wrap_simps \<open>32-bit arithmetic that does not wrap under a bound\<close>
named_theorems buf_simps \<open>bounds-checked buffer accesses that are in range\<close>

text \<open>
  The status codes of ESP-IDF that the sources name; every other code is
  \<open>ESP_ERR_OTHER\<close> with its number.
\<close>

datatype esp_err =
    ESP_OK
  | ESP_FAIL
  | ESP_ERR_NO_MEM
  | ESP_ERR_INVALID_ARG
  | ESP_ERR_INVALID_STATE
  | ESP_ERR_INVALID_SIZE
  | ESP_ERR_NOT_FOUND
  | ESP_ERR_TIMEOUT
  | ESP_ERR_INVALID_CRC
  | ESP_ERR_INVALID_VERSION
  | ESP_ERR_NVS_NO_FREE_PAGES
  | ESP_ERR_NVS_NEW_VERSION_FOUND
  | ESP_ERR_OTHER nat

section \<open>32-bit arithmetic on natural numbers\<close>

text \<open>
  Offsets, sizes and counters of type \<open>size_t\<close> or \<open>uint32_t\<close> are natural numbers below
  \<open>2 ^ 32\<close>; every addition, subtraction and multiplication of the code that could leave
  that range is written with one of these operations.
\<close>

definition u32_add :: "nat \<Rightarrow> nat \<Rightarrow> nat" where
  "u32_add a b = (a + b) mod 4294967296"

definition u32_sub :: "nat \<Rightarrow> nat \<Rightarrow> nat" where
  "u32_sub a b = (a + (4294967296 - b mod 4294967296)) mod 4294967296"

definition u32_mul :: "nat \<Rightarrow> nat \<Rightarrow> nat" where
  "u32_mul a b = (a * b) mod 4294967296"

lemma u32_add_small [wrap_simps]: "a + b < 4294967296 \<Longrightarrow> u32_add a b = a + b"
  by (simp add: u32_add_def)

lemma u32_mul_small [wrap_simps]: "a * b < 4294967296 \<Longrightarrow> u32_mul a b = a * b"
  by (simp add: u32_mul_def)

lemma u32_sub_small [wrap_simps]:
  assumes "b \<le> a" and "a < 4294967296"
  shows "u32_sub a b = a - b"
proof -
  have "a + (4294967296 - b mod 4294967296) = (a - b) + 1 * 4294967296"
    using assms by simp
  also have "\<dots> mod 4294967296 = a - b"
    using assms(2) by (subst mod_mult_self1) simp
  finally show ?thesis by (simp add: u32_sub_def)
qed

lemma u32_add_0 [simp]: "a < 4294967296 \<Longrightarrow> u32_add a 0 = a"
  by (simp add: u32_add_def)

lemma u32_bounds [simp, intro]:
  "u32_add a b < 4294967296" "u32_sub a b < 4294967296" "u32_mul a b < 4294967296"
  by (simp_all add: u32_add_def u32_sub_def u32_mul_def)

lemma xor_cancel_right [simp]: "a XOR c = b XOR c \<longleftrightarrow> a = (b :: 'a::len word)"
proof
  assume "a XOR c = b XOR c"
  then have "(a XOR c) XOR c = (b XOR c) XOR c" by simp
  then show "a = b" by (simp add: xor.assoc)
qed simp

lemma xor_cancel_left [simp]: "c XOR a = c XOR b \<longleftrightarrow> a = (b :: 'a::len word)"
  by (simp add: xor.commute [of c])

lemma xor_eq_0_iff [simp]: "a XOR b = 0 \<longleftrightarrow> a = (b :: 'a::len word)"
  using xor_cancel_right [of a b b] by simp

lemma unat_of_nat_u32: "m < 4294967296 \<Longrightarrow> unat (of_nat m :: u32) = m"
  by (simp add: unsigned_of_nat take_bit_nat_eq_self)

section \<open>Byte buffers\<close>

text \<open>
  \<open>buf_read b off n\<close> is the \<open>n\<close> bytes at \<open>off\<close>; \<open>buf_write b off bs\<close> is the
  buffer after a \<open>memcpy\<close> of \<open>bs\<close> to \<open>off\<close>. Both are \<open>None\<close> when the access
  leaves the object, which C leaves undefined.
\<close>

definition buf_read :: "bytes \<Rightarrow> nat \<Rightarrow> nat \<Rightarrow> bytes option" where
  "buf_read b off n = (if off + n \<le> length b then Some (take n (drop off b)) else None)"

definition buf_write :: "bytes \<Rightarrow> nat \<Rightarrow> bytes \<Rightarrow> bytes option" where
  "buf_write b off bs =
     (if off + length bs \<le> length b
      then Some (take off b @ bs @ drop (off + length bs) b) else None)"

lemma buf_read_ok [buf_simps]:
  "off + n \<le> length b \<Longrightarrow> buf_read b off n = Some (take n (drop off b))"
  by (simp add: buf_read_def)

lemma buf_write_ok [buf_simps]:
  "off + length bs \<le> length b \<Longrightarrow>
     buf_write b off bs = Some (take off b @ bs @ drop (off + length bs) b)"
  by (simp add: buf_write_def)

lemma buf_read_None [simp]: "buf_read b off n = None \<longleftrightarrow> length b < off + n"
  by (auto simp: buf_read_def)

lemma buf_write_None [simp]: "buf_write b off bs = None \<longleftrightarrow> length b < off + length bs"
  by (auto simp: buf_write_def)

lemma buf_read_length [dest]: "buf_read b off n = Some bs \<Longrightarrow> length bs = n"
  by (auto simp: buf_read_def split: if_splits)

lemma buf_write_length [dest]: "buf_write b off bs = Some b' \<Longrightarrow> length b' = length b"
  by (auto simp: buf_write_def split: if_splits)

lemma buf_read_sub:
  assumes "buf_read b off n = Some bs" and "j + k \<le> n"
  shows "buf_read b (off + j) k = Some (take k (drop j bs))"
proof -
  from assms(1) have "off + n \<le> length b" "bs = take n (drop off b)"
    by (auto simp: buf_read_def split: if_splits)
  with assms(2) show ?thesis by (simp add: buf_read_def drop_take min_def add.commute)
qed

lemma buf_read_write_same:
  "buf_write b off bs = Some b' \<Longrightarrow> buf_read b' off (length bs) = Some bs"
  by (auto simp: buf_write_def buf_read_def split: if_splits)

lemma buf_read_write_disjoint:
  assumes "buf_write b off bs = Some b'" and "i + n \<le> off \<or> off + length bs \<le> i"
  shows "buf_read b' i n = buf_read b i n"
proof -
  from assms(1) have len: "off + length bs \<le> length b"
    and b': "b' = take off b @ bs @ drop (off + length bs) b"
    by (auto simp: buf_write_def split: if_splits)
  show ?thesis
  proof (cases "i + n \<le> off")
    case True
    have "drop i b' = take (off - i) (drop i b) @ bs @ drop (off + length bs) b"
      using True len by (simp add: b' drop_take)
    moreover have "n \<le> length (take (off - i) (drop i b))" using True len by simp
    ultimately have "take n (drop i b') = take n (drop i b)"
      using True by (simp add: min_def)
    then show ?thesis using True len by (simp add: buf_read_def b')
  next
    case False
    with assms(2) have ge: "off + length bs \<le> i" by simp
    then show ?thesis using len by (simp add: buf_read_def b')
  qed
qed

section \<open>Little-endian images\<close>

definition le16 :: "u16 \<Rightarrow> bytes" where
  "le16 x = [ucast x, ucast (drop_bit 8 x)]"

definition le32 :: "u32 \<Rightarrow> bytes" where
  "le32 x = [ucast x, ucast (drop_bit 8 x), ucast (drop_bit 16 x), ucast (drop_bit 24 x)]"

definition of_le16 :: "bytes \<Rightarrow> u16" where
  "of_le16 bs = ucast (bs ! 0) OR push_bit 8 (ucast (bs ! 1))"

definition of_le32 :: "bytes \<Rightarrow> u32" where
  "of_le32 bs = ucast (bs ! 0) OR push_bit 8 (ucast (bs ! 1))
     OR push_bit 16 (ucast (bs ! 2)) OR push_bit 24 (ucast (bs ! 3))"

lemma length_le16 [simp]: "length (le16 x) = 2"
  by (simp add: le16_def)

lemma length_le32 [simp]: "length (le32 x) = 4"
  by (simp add: le32_def)

lemma of_le16_le16 [simp]: "of_le16 (le16 x) = x"
  unfolding of_le16_def le16_def
  by (rule bit_word_eqI) (auto simp: bit_simps)

lemma of_le32_le32 [simp]: "of_le32 (le32 x) = x"
  unfolding of_le32_def le32_def
proof (rule bit_word_eqI)
  fix n assume "n < LENGTH(32)"
  moreover have "\<not> n < 8 \<Longrightarrow> 8 + (n - 8) = n" "\<not> n < 16 \<Longrightarrow> 16 + (n - 16) = n"
    "\<not> n < 24 \<Longrightarrow> 24 + (n - 24) = n" by simp_all
  moreover have "n < 8 \<or> 8 \<le> n \<and> n < 16 \<or> 16 \<le> n \<and> n < 24 \<or> 24 \<le> n" by arith
  ultimately show "bit (ucast ([ucast x, ucast (drop_bit 8 x), ucast (drop_bit 16 x),
      ucast (drop_bit 24 x)] ! 0 :: byte) OR push_bit 8 (ucast ([ucast x, ucast (drop_bit 8 x),
      ucast (drop_bit 16 x), ucast (drop_bit 24 x)] ! 1 :: byte)) OR push_bit 16 (ucast ([ucast x,
      ucast (drop_bit 8 x), ucast (drop_bit 16 x), ucast (drop_bit 24 x)] ! 2 :: byte)) OR
      push_bit 24 (ucast ([ucast x, ucast (drop_bit 8 x), ucast (drop_bit 16 x),
      ucast (drop_bit 24 x)] ! 3 :: byte)) :: u32) n = bit x n"
    by (elim disjE) (auto simp: bit_simps)
qed

lemma int_div_bounds:
  fixes a b :: int
  assumes "0 < b"
  shows "a div b * b \<le> a \<and> a < (a div b + 1) * b"
proof -
  have "a div b * b + a mod b = a" by simp
  moreover have "0 \<le> a mod b" "a mod b < b" using assms by simp_all
  moreover have "(a div b + 1) * b = a div b * b + b" by (simp add: distrib_right)
  ultimately show ?thesis by linarith
qed

end
