(* ===== verification/Slab_Pool.thy ===== *)
theory Slab_Pool imports Prelude begin

text \<open>
  The slab pool of \<open>components/slab_pool/slab_pool.c\<close>: 32 slabs of 512 bytes on a singly
  linked free list. A slab pointer is the index of its node; \<open>None\<close> is the null pointer.
  The locale \<open>slab_allocator\<close> is the interface the other components rely on: every slab is
  either free or held, and allocation and release move it between the two.
\<close>

section \<open>State\<close>

definition SLAB_POOL_SIZE :: nat where "SLAB_POOL_SIZE = 32"
definition SLAB_POOL_MAX_DATA_SIZE :: nat where "SLAB_POOL_MAX_DATA_SIZE = 512"

type_synonym slab_ref = nat

record slab =
  slab_data :: bytes
  slab_length :: nat

record slab_node =
  node_slab :: slab
  next_node :: "slab_ref option"

record slab_pool =
  pool :: "slab_node list"
  free_list :: "slab_ref option"
  pool_lock :: bool
  is_slab_pool_initialized :: bool

text \<open>The zeroed static storage that the program starts with, and \<open>deinit\<close> restores.\<close>

definition zero_slab :: slab where
  "zero_slab = \<lparr>slab_data = replicate SLAB_POOL_MAX_DATA_SIZE 0, slab_length = 0\<rparr>"

definition zero_node :: slab_node where
  "zero_node = \<lparr>node_slab = zero_slab, next_node = None\<rparr>"

definition slab_pool_static :: slab_pool where
  "slab_pool_static = \<lparr>pool = replicate SLAB_POOL_SIZE zero_node, free_list = None,
     pool_lock = False, is_slab_pool_initialized = False\<rparr>"

abbreviation slab_at :: "slab_pool \<Rightarrow> slab_ref \<Rightarrow> slab" where
  "slab_at p i \<equiv> node_slab (pool p ! i)"

abbreviation set_node :: "slab_ref \<Rightarrow> (slab_node \<Rightarrow> slab_node) \<Rightarrow> slab_pool \<Rightarrow> slab_pool" where
  "set_node i f p \<equiv> p\<lparr>pool := (pool p)[i := f (pool p ! i)]\<rparr>"

text \<open>The content of a slab as its holder rewrites it.\<close>

definition put_slab :: "slab_ref \<Rightarrow> slab \<Rightarrow> slab_pool \<Rightarrow> slab_pool" where
  "put_slab i s p = set_node i (\<lambda>n. n\<lparr>node_slab := s\<rparr>) p"

section \<open>Operations\<close>

text \<open>
  \<open>xSemaphoreCreateMutex\<close> belongs to FreeRTOS: its outcome is the argument
  \<open>mutex_created\<close>. Taking the lock waits without a timeout, so each operation is atomic.
\<close>

definition slab_pool_init :: "bool \<Rightarrow> slab_pool \<Rightarrow> esp_err \<times> slab_pool" where
  "slab_pool_init mutex_created p =
     (if is_slab_pool_initialized p \<or> pool_lock p then (ESP_ERR_INVALID_STATE, p)
      else if \<not> mutex_created then (ESP_ERR_NO_MEM, p)
      else (ESP_OK,
        p\<lparr>pool_lock := True, free_list := Some 0,
          pool := map (\<lambda>i. (pool p ! i)\<lparr>next_node := (if i < SLAB_POOL_SIZE - 1 then Some (i + 1) else None)\<rparr>)
                    [0..<SLAB_POOL_SIZE],
          is_slab_pool_initialized := True\<rparr>))"

definition slab_pool_alloc :: "slab_pool \<Rightarrow> slab_ref option \<times> slab_pool" where
  "slab_pool_alloc p =
     (if \<not> pool_lock p then (None, p)
      else case free_list p of
        None \<Rightarrow> (None, p)
      | Some i \<Rightarrow>
          (Some i, set_node i (\<lambda>n. n\<lparr>node_slab := (node_slab n)\<lparr>slab_length := 0\<rparr>\<rparr>)
             (p\<lparr>free_list := next_node (pool p ! i)\<rparr>)))"

definition slab_pool_free :: "slab_ref option \<Rightarrow> slab_pool \<Rightarrow> slab_pool" where
  "slab_pool_free slab_ptr p =
     (case slab_ptr of
        None \<Rightarrow> p
      | Some i \<Rightarrow>
          if is_slab_pool_initialized p \<and> pool_lock p
          then (set_node i (\<lambda>n. n\<lparr>next_node := free_list p\<rparr>) p)\<lparr>free_list := Some i\<rparr>
          else p)"

definition slab_pool_deinit :: "slab_pool \<Rightarrow> slab_pool" where
  "slab_pool_deinit p =
     p\<lparr>pool_lock := False, free_list := None, pool := replicate SLAB_POOL_SIZE zero_node,
       is_slab_pool_initialized := False\<rparr>"

section \<open>The free list\<close>

fun chain :: "slab_node list \<Rightarrow> slab_ref option \<Rightarrow> slab_ref list \<Rightarrow> bool" where
  "chain ns p [] \<longleftrightarrow> p = None"
| "chain ns p (i # is) \<longleftrightarrow> p = Some i \<and> i < length ns \<and> chain ns (next_node (ns ! i)) is"

fun walk :: "nat \<Rightarrow> slab_node list \<Rightarrow> slab_ref option \<Rightarrow> slab_ref list" where
  "walk 0 ns p = []"
| "walk (Suc n) ns p = (case p of None \<Rightarrow> [] | Some i \<Rightarrow> i # walk n ns (next_node (ns ! i)))"

definition free_slabs :: "slab_pool \<Rightarrow> slab_ref list" where
  "free_slabs p = walk (SLAB_POOL_SIZE + 1) (pool p) (free_list p)"

abbreviation free_set :: "slab_pool \<Rightarrow> slab_ref set" where
  "free_set p \<equiv> set (free_slabs p)"

text \<open>The well-formed initialized pool: the free list is a chain of distinct nodes.\<close>

definition slab_pool_wf :: "slab_pool \<Rightarrow> bool" where
  "slab_pool_wf p \<longleftrightarrow> pool_lock p \<and> is_slab_pool_initialized p \<and> length (pool p) = SLAB_POOL_SIZE
     \<and> chain (pool p) (free_list p) (free_slabs p) \<and> distinct (free_slabs p)
     \<and> (\<forall>n \<in> set (pool p). length (slab_data (node_slab n)) = SLAB_POOL_MAX_DATA_SIZE)"

lemma chain_bound: "chain ns p is \<Longrightarrow> i \<in> set is \<Longrightarrow> i < length ns"
  by (induction ns p "is" rule: chain.induct) auto

lemma chain_walk: "chain ns p is \<Longrightarrow> length is < n \<Longrightarrow> walk n ns p = is"
proof (induction n arbitrary: p "is")
  case (Suc n)
  then show ?case by (cases "is") auto
qed simp

lemma chain_distinct_length: "chain ns p is \<Longrightarrow> distinct is \<Longrightarrow> length is \<le> length ns"
  using card_mono [of "{..<length ns}" "set is"] chain_bound [of ns p "is"]
  by (auto simp: distinct_card)

lemma chain_update: "j \<notin> set is \<Longrightarrow> chain (ns[j := n]) p is = chain ns p is"
  by (induction ns p "is" rule: chain.induct) auto

lemma next_node_update:
  "next_node n = next_node (ns ! j) \<Longrightarrow> next_node (ns[j := n] ! i) = next_node (ns ! i)"
  by (cases "j < length ns"; cases "i = j") (auto simp: not_less list_update_beyond)

lemma chain_update_slab:
  "next_node n = next_node (ns ! j) \<Longrightarrow> chain (ns[j := n]) p is = chain ns p is"
  by (induction ns p "is" rule: chain.induct) (auto simp: next_node_update)

lemma chain_Some: "chain ns (Some i) is \<Longrightarrow> \<exists>is'. is = i # is' \<and> i < length ns \<and> chain ns (next_node (ns ! i)) is'"
  by (cases "is") auto

lemma slab_pool_wfI:
  assumes "chain (pool p) (free_list p) is" "distinct is" "length (pool p) = SLAB_POOL_SIZE"
    and "pool_lock p" "is_slab_pool_initialized p"
    and "\<forall>n \<in> set (pool p). length (slab_data (node_slab n)) = SLAB_POOL_MAX_DATA_SIZE"
  shows "slab_pool_wf p \<and> free_slabs p = is"
proof -
  have "length is < SLAB_POOL_SIZE + 1"
    using chain_distinct_length [OF assms(1,2)] assms(3) by simp
  then have "free_slabs p = is"
    unfolding free_slabs_def by (rule chain_walk [OF assms(1)])
  then show ?thesis using assms by (simp add: slab_pool_wf_def)
qed

lemma free_slabs_bound: "slab_pool_wf p \<Longrightarrow> i \<in> free_set p \<Longrightarrow> i < SLAB_POOL_SIZE"
  using chain_bound [of "pool p" "free_list p" "free_slabs p"] by (auto simp: slab_pool_wf_def)

lemma free_list_None: "slab_pool_wf p \<Longrightarrow> free_list p = None \<longleftrightarrow> free_slabs p = []"
  by (cases "free_slabs p") (auto simp: slab_pool_wf_def)

lemma free_list_Some:
  assumes "slab_pool_wf p" and "free_list p = Some i"
  obtains is' where "free_slabs p = i # is'" "i < SLAB_POOL_SIZE"
    "chain (pool p) (next_node (pool p ! i)) is'" "distinct (i # is')"
proof -
  from assms have "chain (pool p) (Some i) (free_slabs p)" "distinct (free_slabs p)"
    "length (pool p) = SLAB_POOL_SIZE" by (auto simp: slab_pool_wf_def)
  with chain_Some [OF this(1)] that show ?thesis by auto
qed

lemma set_update_all: "(\<forall>x \<in> set xs. P x) \<Longrightarrow> P y \<Longrightarrow> \<forall>x \<in> set (xs[i := y]). P x"
  using set_update_subset_insert [of xs i y] by auto

text \<open>What an allocation does on a well-formed pool.\<close>

lemma slab_pool_alloc_None:
  "slab_pool_wf p \<Longrightarrow> free_slabs p = [] \<Longrightarrow> slab_pool_alloc p = (None, p)"
  by (simp add: slab_pool_alloc_def free_list_None slab_pool_wf_def split: option.splits)

lemma slab_pool_alloc_Cons:
  assumes wf: "slab_pool_wf p" and fs: "free_slabs p = i # is"
  shows "\<exists>p'. slab_pool_alloc p = (Some i, p') \<and> slab_pool_wf p' \<and> free_slabs p' = is
    \<and> slab_at p' i = (slab_at p i)\<lparr>slab_length := 0\<rparr> \<and> (\<forall>j. j \<noteq> i \<longrightarrow> slab_at p' j = slab_at p j)"
proof -
  from wf fs have fl: "free_list p = Some i" by (simp add: slab_pool_wf_def)
  obtain is' where is': "free_slabs p = i # is'" "i < SLAB_POOL_SIZE"
    "chain (pool p) (next_node (pool p ! i)) is'" "distinct (i # is')"
    by (rule free_list_Some [OF wf fl])
  let ?n = "(pool p ! i)\<lparr>node_slab := (slab_at p i)\<lparr>slab_length := 0\<rparr>\<rparr>"
  let ?p = "p\<lparr>free_list := next_node (pool p ! i), pool := (pool p)[i := ?n]\<rparr>"
  have al: "slab_pool_alloc p = (Some i, ?p)"
    using wf fl by (simp add: slab_pool_alloc_def slab_pool_wf_def)
  have "slab_pool_wf ?p \<and> free_slabs ?p = is'"
  proof (rule slab_pool_wfI)
    show "chain (pool ?p) (free_list ?p) is'" using is' by (simp add: chain_update_slab)
    show "\<forall>n \<in> set (pool ?p). length (slab_data (node_slab n)) = SLAB_POOL_MAX_DATA_SIZE"
      using wf is'(2) by (simp add: slab_pool_wf_def) (rule set_update_all, auto)
  qed (use wf is' in \<open>auto simp: slab_pool_wf_def\<close>)
  moreover have "slab_at ?p i = (slab_at p i)\<lparr>slab_length := 0\<rparr>"
    using wf is'(2) by (simp add: slab_pool_wf_def)
  moreover have "\<forall>j. j \<noteq> i \<longrightarrow> slab_at ?p j = slab_at p j" by simp
  moreover have "is' = is" using is'(1) fs by simp
  ultimately show ?thesis using al by (intro exI [of _ ?p]) simp
qed

lemma slab_pool_free_wf:
  assumes wf: "slab_pool_wf p" and i: "i < SLAB_POOL_SIZE" "i \<notin> free_set p"
  shows "slab_pool_wf (slab_pool_free (Some i) p)
    \<and> free_slabs (slab_pool_free (Some i) p) = i # free_slabs p
    \<and> (\<forall>j. slab_at (slab_pool_free (Some i) p) j = slab_at p j)"
proof -
  let ?n = "(pool p ! i)\<lparr>next_node := free_list p\<rparr>"
  let ?p = "p\<lparr>pool := (pool p)[i := ?n], free_list := Some i\<rparr>"
  have fr: "slab_pool_free (Some i) p = ?p"
    using wf by (simp add: slab_pool_free_def slab_pool_wf_def)
  have "slab_pool_wf ?p \<and> free_slabs ?p = i # free_slabs p"
  proof (rule slab_pool_wfI)
    show "chain (pool ?p) (free_list ?p) (i # free_slabs p)"
      using wf i by (simp add: slab_pool_wf_def chain_update)
    show "\<forall>n \<in> set (pool ?p). length (slab_data (node_slab n)) = SLAB_POOL_MAX_DATA_SIZE"
      using wf i(1) by (simp add: slab_pool_wf_def) (rule set_update_all, auto)
  qed (use wf i in \<open>auto simp: slab_pool_wf_def\<close>)
  moreover have "slab_at ?p j = slab_at p j" for j
    using wf i(1) by (cases "j = i") (auto simp: slab_pool_wf_def)
  ultimately show ?thesis using fr by simp
qed

lemma put_slab_wf:
  assumes wf: "slab_pool_wf p" and "length (slab_data s) = SLAB_POOL_MAX_DATA_SIZE"
  shows "slab_pool_wf (put_slab i s p) \<and> free_slabs (put_slab i s p) = free_slabs p"
proof (rule slab_pool_wfI)
  show "chain (pool (put_slab i s p)) (free_list (put_slab i s p)) (free_slabs p)"
    using wf by (simp add: slab_pool_wf_def put_slab_def chain_update_slab)
  show "\<forall>n \<in> set (pool (put_slab i s p)). length (slab_data (node_slab n)) = SLAB_POOL_MAX_DATA_SIZE"
    using wf assms(2) by (simp add: slab_pool_wf_def put_slab_def) (rule set_update_all, auto)
qed (use wf in \<open>auto simp: slab_pool_wf_def put_slab_def\<close>)

lemma slab_at_put_slab:
  "i < length (pool p) \<Longrightarrow> slab_at (put_slab i s p) j = (if j = i then s else slab_at p j)"
  by (simp add: put_slab_def)

lemma chain_upt_from:
  assumes "k \<le> N" and nx: "\<And>i. i < N \<Longrightarrow> next_node (f i) = (if i < N - 1 then Some (i + 1) else None)"
  shows "chain (map f [0..<N]) (if k < N then Some k else None) [k..<N]"
  using assms(1)
proof (induction rule: inc_induct)
  case (step n)
  then have "next_node (f n) = (if Suc n < N then Some (Suc n) else None)"
    using nx [of n] by auto
  moreover have "[n..<N] = n # [Suc n..<N]" using step by (simp add: upt_conv_Cons)
  ultimately show ?case using step by simp
qed simp

lemma chain_upt:
  assumes "0 < N" and "\<And>i. i < N \<Longrightarrow> next_node (f i) = (if i < N - 1 then Some (i + 1) else None)"
  shows "chain (map f [0..<N]) (Some 0) [0..<N]"
  using chain_upt_from [of 0 N f] assms by simp

lemma slab_pool_init_wf:
  assumes "\<not> is_slab_pool_initialized p" "\<not> pool_lock p" "length (pool p) = SLAB_POOL_SIZE"
    and "\<forall>n \<in> set (pool p). length (slab_data (node_slab n)) = SLAB_POOL_MAX_DATA_SIZE"
  shows "fst (slab_pool_init True p) = ESP_OK \<and> slab_pool_wf (snd (slab_pool_init True p))
    \<and> free_slabs (snd (slab_pool_init True p)) = [0..<SLAB_POOL_SIZE]"
proof -
  let ?f = "\<lambda>i. (pool p ! i)\<lparr>next_node := (if i < SLAB_POOL_SIZE - 1 then Some (i + 1) else None)\<rparr>"
  let ?p = "snd (slab_pool_init True p)"
  have p': "?p = p\<lparr>pool_lock := True, free_list := Some 0, pool := map ?f [0..<SLAB_POOL_SIZE],
      is_slab_pool_initialized := True\<rparr>" and ok: "fst (slab_pool_init True p) = ESP_OK"
    using assms(1,2) by (simp_all add: slab_pool_init_def)
  have "chain (map ?f [0..<SLAB_POOL_SIZE]) (Some 0) [0..<SLAB_POOL_SIZE]"
    by (rule chain_upt) (simp_all add: SLAB_POOL_SIZE_def)
  then have "chain (pool ?p) (free_list ?p) [0..<SLAB_POOL_SIZE]"
    by (simp add: p')
  then have "slab_pool_wf ?p \<and> free_slabs ?p = [0..<SLAB_POOL_SIZE]"
    by (rule slab_pool_wfI) (use assms(3,4) in \<open>auto simp: p'\<close>)
  with ok show ?thesis by simp
qed

section \<open>The allocator interface\<close>

locale slab_allocator =
  fixes alloc :: "'p \<Rightarrow> slab_ref option \<times> 'p"
    and release :: "slab_ref \<Rightarrow> 'p \<Rightarrow> 'p"
    and avail :: "'p \<Rightarrow> slab_ref set"
    and wf :: "'p \<Rightarrow> bool"
    and total :: nat
  assumes avail_bound: "wf p \<Longrightarrow> avail p \<subseteq> {..<total}"
    and alloc_empty: "wf p \<Longrightarrow> avail p = {} \<Longrightarrow> alloc p = (None, p)"
    and alloc_nonempty: "wf p \<Longrightarrow> avail p \<noteq> {} \<Longrightarrow>
      \<exists>i p'. alloc p = (Some i, p') \<and> i \<in> avail p \<and> wf p' \<and> avail p' = avail p - {i}"
    and release_wf: "wf p \<Longrightarrow> i < total \<Longrightarrow> i \<notin> avail p \<Longrightarrow>
      wf (release i p) \<and> avail (release i p) = insert i (avail p)"
begin

text \<open>The holders together have exactly the slabs of \<open>H\<close>; all others are free.\<close>

definition owns :: "'p \<Rightarrow> slab_ref set \<Rightarrow> bool" where
  "owns p H \<longleftrightarrow> wf p \<and> H \<inter> avail p = {} \<and> H \<union> avail p = {..<total}"

lemma owns_bound: "owns p H \<Longrightarrow> H \<subseteq> {..<total}"
  by (auto simp: owns_def)

lemma owns_alloc_Some:
  assumes "owns p H" and "alloc p = (Some i, p')"
  shows "i \<notin> H \<and> owns p' (insert i H)"
proof -
  from assms have "avail p \<noteq> {}" using alloc_empty [of p] by (auto simp: owns_def)
  with assms alloc_nonempty [of p] have "i \<in> avail p" "wf p'" "avail p' = avail p - {i}"
    by (auto simp: owns_def)
  moreover from assms(1) have H: "H \<inter> avail p = {}" "H \<union> avail p = {..<total}"
    by (simp_all add: owns_def)
  moreover have "insert i H \<union> (avail p - {i}) = H \<union> avail p" using \<open>i \<in> avail p\<close> by auto
  ultimately show ?thesis by (auto simp: owns_def)
qed

lemma owns_alloc_None:
  assumes "owns p H" and "alloc p = (None, p')"
  shows "p' = p \<and> H = {..<total}"
proof -
  have "avail p = {}"
  proof (rule ccontr)
    assume "avail p \<noteq> {}"
    with assms alloc_nonempty [of p] show False by (auto simp: owns_def)
  qed
  with assms alloc_empty [of p] have "p' = p" by (simp add: owns_def)
  moreover from assms(1) \<open>avail p = {}\<close> have "H = {..<total}" by (simp add: owns_def)
  ultimately show ?thesis by simp
qed

lemma owns_release:
  assumes "owns p H" and "i \<in> H"
  shows "owns (release i p) (H - {i})"
proof -
  from assms(1) have wf: "wf p" and dis: "H \<inter> avail p = {}" and un: "H \<union> avail p = {..<total}"
    by (simp_all add: owns_def)
  from dis assms(2) have "i \<notin> avail p" by blast
  moreover have "i \<in> {..<total}" using un assms(2) by blast
  ultimately have rel: "wf (release i p)" "avail (release i p) = insert i (avail p)"
    using release_wf [OF wf] by simp_all
  have "(H - {i}) \<inter> insert i (avail p) = {}" using dis by blast
  moreover have "(H - {i}) \<union> insert i (avail p) = H \<union> avail p" using assms(2) by blast
  ultimately show ?thesis by (simp add: owns_def rel un)
qed

lemma alloc_ne_None:
  assumes "owns p H" and "H \<noteq> {..<total}"
  shows "\<exists>i p'. alloc p = (Some i, p')"
proof (cases "alloc p")
  case (Pair r p')
  with assms owns_alloc_None [of p H p'] show ?thesis by (cases r) auto
qed

text \<open>An allocation that is released at once leaves the partition as it was.\<close>

lemma alloc_release: "owns p H \<Longrightarrow> alloc p = (Some i, p') \<Longrightarrow> owns (release i p') H"
  using owns_alloc_Some [of p H i p'] owns_release [of p' "insert i H" i] by auto

end

interpretation slab: slab_allocator slab_pool_alloc "\<lambda>i. slab_pool_free (Some i)" free_set
  slab_pool_wf SLAB_POOL_SIZE
proof
  fix p assume wf: "slab_pool_wf p"
  show "free_set p \<subseteq> {..<SLAB_POOL_SIZE}" using free_slabs_bound [OF wf] by auto
  show "free_set p = {} \<Longrightarrow> slab_pool_alloc p = (None, p)"
    using slab_pool_alloc_None [OF wf] by simp
  show "\<exists>i p'. slab_pool_alloc p = (Some i, p') \<and> i \<in> free_set p \<and> slab_pool_wf p'
    \<and> free_set p' = free_set p - {i}" if ne: "free_set p \<noteq> {}"
  proof -
    from ne obtain i "is" where fs: "free_slabs p = i # is" by (cases "free_slabs p") auto
    with wf have "i \<notin> set is" by (auto simp: slab_pool_wf_def)
    with slab_pool_alloc_Cons [OF wf fs] fs show ?thesis by fastforce
  qed
  show "slab_pool_wf (slab_pool_free (Some i) p)
    \<and> free_set (slab_pool_free (Some i) p) = insert i (free_set p)"
    if "i < SLAB_POOL_SIZE" "i \<notin> free_set p" for i
    using slab_pool_free_wf [OF wf that] by simp
qed

definition slab_owns :: "slab_pool \<Rightarrow> slab_ref set \<Rightarrow> bool" where
  "slab_owns p H \<longleftrightarrow> slab_pool_wf p \<and> H \<inter> free_set p = {} \<and> H \<union> free_set p = {..<SLAB_POOL_SIZE}"

lemma slab_owns_iff: "slab.owns p H = slab_owns p H"
  by (simp add: slab_owns_def slab.owns_def)

lemmas slab_owns_alloc_Some = slab.owns_alloc_Some [unfolded slab_owns_iff]
lemmas slab_owns_alloc_None = slab.owns_alloc_None [unfolded slab_owns_iff]
lemmas slab_owns_release = slab.owns_release [unfolded slab_owns_iff]
lemmas slab_owns_bound = slab.owns_bound [unfolded slab_owns_iff]
lemmas slab_alloc_ne_None = slab.alloc_ne_None [unfolded slab_owns_iff]
lemmas slab_alloc_release = slab.alloc_release [unfolded slab_owns_iff]

lemma slab_owns_put:
  "slab_owns p H \<Longrightarrow> length (slab_data s) = SLAB_POOL_MAX_DATA_SIZE \<Longrightarrow> slab_owns (put_slab i s p) H"
  using put_slab_wf [of p s i] by (auto simp: slab_owns_def)

lemma slab_owns_init:
  "slab_owns (snd (slab_pool_init True slab_pool_static)) {}"
  using slab_pool_init_wf [of slab_pool_static]
  by (auto simp: slab_owns_def slab_pool_static_def zero_node_def zero_slab_def)

section \<open>Reachable pools\<close>

text \<open>
  The pool with the set of slabs its clients hold, under any interleaving of the operations
  in which only held slabs are released or written.
\<close>

inductive slab_reach :: "slab_pool \<Rightarrow> slab_ref set \<Rightarrow> bool" where
  reach_init: "slab_reach (snd (slab_pool_init True slab_pool_static)) {}"
| reach_alloc: "slab_reach p H \<Longrightarrow> slab_pool_alloc p = (Some i, p') \<Longrightarrow> slab_reach p' (insert i H)"
| reach_exhausted: "slab_reach p H \<Longrightarrow> slab_pool_alloc p = (None, p') \<Longrightarrow> slab_reach p' H"
| reach_free: "slab_reach p H \<Longrightarrow> i \<in> H \<Longrightarrow> slab_reach (slab_pool_free (Some i) p) (H - {i})"
| reach_write: "slab_reach p H \<Longrightarrow> i \<in> H \<Longrightarrow> length (slab_data s) = SLAB_POOL_MAX_DATA_SIZE \<Longrightarrow>
    slab_reach (put_slab i s p) H"

lemma slab_reach_owns: "slab_reach p H \<Longrightarrow> slab_owns p H"
proof (induction rule: slab_reach.induct)
  case reach_init
  show ?case by (rule slab_owns_init)
next
  case (reach_alloc p H i p')
  then show ?case using slab_owns_alloc_Some by blast
next
  case (reach_exhausted p H p')
  then show ?case using slab_owns_alloc_None by blast
next
  case (reach_free p H i)
  show ?case by (rule slab_owns_release [OF reach_free.IH reach_free.hyps(2)])
next
  case (reach_write p H i s)
  then show ?case by (intro slab_owns_put)
qed

lemma slab_pool_alloc_length:
  "slab_owns p H \<Longrightarrow> slab_pool_alloc p = (Some i, p') \<Longrightarrow>
     slab_length (slab_at p' i) = 0 \<and> (\<forall>j. j \<noteq> i \<longrightarrow> slab_at p' j = slab_at p j)"
  using slab_pool_alloc_None [of p] slab_pool_alloc_Cons [of p]
  by (cases "free_slabs p") (auto simp: slab_owns_def)

section \<open>Properties\<close>

text \<open>
  C17. Whatever the order of allocations, releases and writes of held slabs, each of the 32
  slabs is either on the free list or held, never both, and the list has no cycle.
\<close>

theorem slab_pool_conservation:
  assumes "slab_reach p H"
  shows "slab_pool_wf p \<and> H \<inter> set (free_slabs p) = {} \<and> H \<union> set (free_slabs p) = {..<32}"
  using slab_reach_owns [OF assms] by (simp add: slab_owns_def SLAB_POOL_SIZE_def)

lemma slab_pool_conservation_witness:
  "slab_pool_wf (snd (slab_pool_init True slab_pool_static))
    \<and> {} \<inter> set (free_slabs (snd (slab_pool_init True slab_pool_static))) = {}
    \<and> {} \<union> set (free_slabs (snd (slab_pool_init True slab_pool_static))) = {..<32}"
  by (rule slab_pool_conservation [OF reach_init])

text \<open>
  An allocation fails only when all 32 slabs are held, and otherwise hands out a slab
  nobody holds, emptied, without touching any other slab.
\<close>

theorem slab_pool_alloc_fresh:
  assumes "slab_reach p H"
  shows "case slab_pool_alloc p of
      (None, p') \<Rightarrow> p' = p \<and> H = {..<32}
    | (Some i, p') \<Rightarrow> i < 32 \<and> i \<notin> H \<and> slab_length (slab_at p' i) = 0
        \<and> (\<forall>j. j = i \<or> slab_at p' j = slab_at p j)"
proof (cases "slab_pool_alloc p")
  case (Pair r p')
  note own = slab_reach_owns [OF assms]
  show ?thesis
  proof (cases r)
    case None
    with Pair slab_owns_alloc_None [OF own] show ?thesis by (simp add: SLAB_POOL_SIZE_def)
  next
    case (Some i)
    with Pair have al: "slab_pool_alloc p = (Some i, p')" by simp
    have "i < SLAB_POOL_SIZE" "i \<notin> H"
      using slab_owns_alloc_Some [OF own al] slab_owns_bound by blast+
    with al slab_pool_alloc_length [OF own al] show ?thesis by (auto simp: SLAB_POOL_SIZE_def)
  qed
qed

lemma slab_pool_alloc_fresh_witness:
  "case slab_pool_alloc (snd (slab_pool_init True slab_pool_static)) of
      (None, p') \<Rightarrow> p' = snd (slab_pool_init True slab_pool_static) \<and> ({} :: nat set) = {..<32}
    | (Some i, p') \<Rightarrow> i < 32 \<and> i \<notin> {} \<and> slab_length (slab_at p' i) = 0
        \<and> (\<forall>j. j = i \<or> slab_at p' j = slab_at (snd (slab_pool_init True slab_pool_static)) j)"
  by (rule slab_pool_alloc_fresh [OF reach_init])

text \<open>
  The release has no guard against a second release: after it, the next two
  allocations both return the same slab, so two holders share one buffer.
\<close>

theorem slab_pool_double_free:
  assumes "slab_reach p H" and "i \<in> H"
  defines "q \<equiv> slab_pool_free (Some i) (slab_pool_free (Some i) p)"
  shows "fst (slab_pool_alloc q) = Some i \<and> fst (slab_pool_alloc (snd (slab_pool_alloc q))) = Some i"
proof -
  have "slab_owns p H" by (rule slab_reach_owns [OF assms(1)])
  then have "i < length (pool p)" "pool_lock p" "is_slab_pool_initialized p"
    using assms(2) slab_owns_bound [of p H] by (auto simp: slab_owns_def slab_pool_wf_def)
  then show ?thesis by (simp add: q_def slab_pool_free_def slab_pool_alloc_def)
qed

lemma slab_pool_double_free_witness:
  "\<exists>p H. slab_reach p H \<and> 0 \<in> H
    \<and> fst (slab_pool_alloc (slab_pool_free (Some 0) (slab_pool_free (Some 0) p))) = Some 0"
proof -
  have al: "slab_pool_alloc (snd (slab_pool_init True slab_pool_static))
      = (Some 0, snd (slab_pool_alloc (snd (slab_pool_init True slab_pool_static))))"
    by (simp add: slab_pool_init_def slab_pool_static_def slab_pool_alloc_def)
  have r: "slab_reach (snd (slab_pool_alloc (snd (slab_pool_init True slab_pool_static)))) (insert 0 {})"
    by (rule reach_alloc [OF reach_init al])
  show ?thesis using r slab_pool_double_free [OF r, of 0] by blast
qed

end
