(* ===== verification/Modbus_Slicer.thy ===== *)
theory Modbus_Slicer imports Slab_Pool begin

text \<open>
  The slicer of \<open>components/modbus_analyzer/modbus_slicer.c\<close>: it collects the bytes of a
  frame in a slab and hands the slab to its callback when the line has been silent for 3.5
  characters. The operations return the frame they pass to \<open>on_frame_func\<close>, if any: the
  callback is the last effect that reads the slicer's state, so the caller runs it on the
  returned pool. The result \<open>None\<close> is undefined behaviour of the C code.
\<close>

section \<open>State\<close>

datatype modbus_slicer_error =
    MODBUS_SLICER_OK | MODBUS_SLICER_ERROR_CRC | MODBUS_SLICER_ERROR_OVERFLOW | MODBUS_SLICER_ERROR_NO_MEM

record modbus_slicer_frame =
  frame_slab_ptr :: "slab_ref option"
  frame_timestamp_us :: int
  frame_error :: modbus_slicer_error

text \<open>The two function pointers of the configuration are present or null.\<close>

record modbus_slicer_config =
  baudrate :: nat
  bit_length :: nat
  get_time_us_func :: bool
  on_frame_func :: bool

record modbus_slicer =
  slicer_config_ptr :: "modbus_slicer_config option"
  slab_ptr :: "slab_ref option"
  start_timestamp_us :: int
  last_byte_timestamp_us :: int
  t3_5_us :: int

section \<open>Operations\<close>

text \<open>
  \<open>bit_length * 1000000UL / baudrate\<close> is computed in 32 bits; a zero baud rate divides by
  zero.
\<close>

definition modbus_slicer_init :: "modbus_slicer_config \<Rightarrow> modbus_slicer \<Rightarrow> modbus_slicer option" where
  "modbus_slicer_init c sl =
     (if baudrate c = 0 then None
      else let t1 = int (u32_mul (bit_length c) 1000000 div baudrate c);
               t = (7 * t1) div 2
           in Some (sl\<lparr>slicer_config_ptr := Some c, t3_5_us := t + t div 5\<rparr>))"

definition slicer_report :: "modbus_slicer_error \<Rightarrow> modbus_slicer \<Rightarrow> modbus_slicer_frame option option" where
  "slicer_report err sl =
     (case slicer_config_ptr sl of
        None \<Rightarrow> None
      | Some c \<Rightarrow> Some (if on_frame_func c
          then Some \<lparr>frame_slab_ptr = None, frame_timestamp_us = start_timestamp_us sl, frame_error = err\<rparr>
          else None))"

text \<open>The start of a frame: acquire a slab unless one is kept from before.\<close>

definition slicer_acquire :: "int \<Rightarrow> modbus_slicer \<Rightarrow> slab_pool \<Rightarrow> modbus_slicer \<times> slab_pool" where
  "slicer_acquire timestamp_us sl p =
     (case slab_ptr sl of
        Some _ \<Rightarrow> (sl, p)
      | None \<Rightarrow>
          let (r, p') = slab_pool_alloc p;
              sl' = sl\<lparr>slab_ptr := r, start_timestamp_us := timestamp_us\<rparr>
          in (case r of
                None \<Rightarrow> (sl', p')
              | Some i \<Rightarrow> (sl', put_slab i ((slab_at p' i)\<lparr>slab_length := 0\<rparr>) p')))"

definition modbus_slicer_feed ::
    "bytes option \<Rightarrow> int \<Rightarrow> modbus_slicer \<Rightarrow> slab_pool
       \<Rightarrow> (modbus_slicer \<times> slab_pool \<times> modbus_slicer_frame option) option" where
  "modbus_slicer_feed data_ptr timestamp_us sl p =
     (case data_ptr of
        None \<Rightarrow> Some (sl, p, None)
      | Some data \<Rightarrow>
          if data = [] then Some (sl\<lparr>last_byte_timestamp_us := timestamp_us\<rparr>, p, None)
          else let (sl1, p1) = slicer_acquire timestamp_us sl p;
                   done = sl1\<lparr>last_byte_timestamp_us := timestamp_us\<rparr>
               in (case slab_ptr sl1 of
                     None \<Rightarrow> map_option (\<lambda>f. (done, p1, f)) (slicer_report MODBUS_SLICER_ERROR_NO_MEM sl1)
                   | Some i \<Rightarrow>
                       let s = slab_at p1 i in
                       if SLAB_POOL_MAX_DATA_SIZE < u32_add (slab_length s) (length data)
                       then map_option (\<lambda>f. (done, put_slab i (s\<lparr>slab_length := 0\<rparr>) p1, f))
                              (slicer_report MODBUS_SLICER_ERROR_OVERFLOW sl1)
                       else map_option (\<lambda>d. (done, put_slab i
                                (s\<lparr>slab_data := d, slab_length := (slab_length s + length data) mod 65536\<rparr>) p1,
                                None))
                              (buf_write (slab_data s) (slab_length s) data)))"

definition modbus_slicer_timeout ::
    "modbus_slicer \<Rightarrow> slab_pool \<Rightarrow> modbus_slicer \<times> slab_pool \<times> modbus_slicer_frame option" where
  "modbus_slicer_timeout sl p =
     (case slab_ptr sl of
        None \<Rightarrow> (sl, p, None)
      | Some i \<Rightarrow>
          if 0 < slab_length (slab_at p i) then
            (case slicer_config_ptr sl of
               Some c \<Rightarrow>
                 if on_frame_func c
                 then (sl\<lparr>slab_ptr := None\<rparr>, p,
                       Some \<lparr>frame_slab_ptr = Some i, frame_timestamp_us = start_timestamp_us sl,
                             frame_error = MODBUS_SLICER_OK\<rparr>)
                 else (sl, put_slab i ((slab_at p i)\<lparr>slab_length := 0\<rparr>) p, None)
             | None \<Rightarrow> (sl, put_slab i ((slab_at p i)\<lparr>slab_length := 0\<rparr>) p, None))
          else (sl, p, None))"

text \<open>\<open>now\<close> is what \<open>get_time_us_func\<close> returns.\<close>

definition modbus_slicer_check_timeout ::
    "int \<Rightarrow> modbus_slicer \<Rightarrow> slab_pool \<Rightarrow> modbus_slicer \<times> slab_pool \<times> modbus_slicer_frame option" where
  "modbus_slicer_check_timeout now sl p =
     (case slicer_config_ptr sl of
        None \<Rightarrow> (sl, p, None)
      | Some c \<Rightarrow>
          if get_time_us_func c then
            (let delta = now - last_byte_timestamp_us sl in
             case slab_ptr sl of
               None \<Rightarrow> (sl, p, None)
             | Some i \<Rightarrow>
                 if 0 < slab_length (slab_at p i) \<and> t3_5_us sl < delta
                 then modbus_slicer_timeout sl p else (sl, p, None))
          else (sl, p, None))"

section \<open>Ownership and content\<close>

definition slicer_bytes :: "modbus_slicer \<Rightarrow> slab_pool \<Rightarrow> bytes" where
  "slicer_bytes sl p = (case slab_ptr sl of None \<Rightarrow> []
     | Some i \<Rightarrow> take (slab_length (slab_at p i)) (slab_data (slab_at p i)))"

text \<open>
  The slicer holds at most one slab, apart from the slabs \<open>H\<close> of the others, and its fill
  level never passes the slab's size.
\<close>

definition slicer_inv :: "modbus_slicer \<Rightarrow> slab_pool \<Rightarrow> slab_ref set \<Rightarrow> bool" where
  "slicer_inv sl p H \<longleftrightarrow> slab_owns p (set_option (slab_ptr sl) \<union> H) \<and> set_option (slab_ptr sl) \<inter> H = {}
     \<and> (\<forall>i \<in> set_option (slab_ptr sl). slab_length (slab_at p i) \<le> SLAB_POOL_MAX_DATA_SIZE)"

lemma slab_owns_at:
  assumes "slab_owns p H" and "i \<in> H"
  shows "i < length (pool p) \<and> length (slab_data (slab_at p i)) = SLAB_POOL_MAX_DATA_SIZE"
proof -
  have "i < SLAB_POOL_SIZE" using slab_owns_bound [OF assms(1)] assms(2) by blast
  with assms(1) show ?thesis by (auto simp: slab_owns_def slab_pool_wf_def)
qed

lemma slicer_inv_cases:
  assumes "slicer_inv sl p H"
  obtains (idle) "slab_ptr sl = None" "slab_owns p H"
  | (busy) i where "slab_ptr sl = Some i" "slab_owns p (insert i H)" "i \<notin> H" "i < length (pool p)"
      "length (slab_data (slab_at p i)) = SLAB_POOL_MAX_DATA_SIZE"
      "slab_length (slab_at p i) \<le> SLAB_POOL_MAX_DATA_SIZE"
proof (cases "slab_ptr sl")
  case None
  with assms idle show ?thesis by (simp add: slicer_inv_def)
next
  case (Some i)
  with assms have "slab_owns p (insert i H)" "i \<notin> H" "slab_length (slab_at p i) \<le> SLAB_POOL_MAX_DATA_SIZE"
    by (auto simp: slicer_inv_def)
  with Some busy slab_owns_at [of p "insert i H" i] show ?thesis by simp
qed

lemma slicer_inv_busy:
  "slab_ptr sl = Some i \<Longrightarrow> slab_owns p (insert i H) \<Longrightarrow> i \<notin> H
     \<Longrightarrow> slab_length (slab_at p i) \<le> SLAB_POOL_MAX_DATA_SIZE \<Longrightarrow> slicer_inv sl p H"
  by (simp add: slicer_inv_def)

lemma slicer_bytes_length:
  assumes "slicer_inv sl p H" and "slab_ptr sl = Some i"
  shows "length (slicer_bytes sl p) = slab_length (slab_at p i)"
  using assms by (auto elim!: slicer_inv_cases simp: slicer_bytes_def)

text \<open>Acquiring: the slicer ends up with a slab unless the others hold them all.\<close>

lemma slicer_acquire_busy [simp]: "slab_ptr sl = Some i \<Longrightarrow> slicer_acquire ts sl p = (sl, p)"
  by (simp add: slicer_acquire_def)

lemma slicer_acquire_idle:
  assumes own: "slab_owns p H" and idle: "slab_ptr sl = None" and free: "H \<noteq> {..<SLAB_POOL_SIZE}"
  shows "\<exists>i p'. slicer_acquire ts sl p = (sl\<lparr>slab_ptr := Some i, start_timestamp_us := ts\<rparr>, p')
    \<and> slab_owns p' (insert i H) \<and> i \<notin> H \<and> slab_length (slab_at p' i) = 0
    \<and> (\<forall>j \<in> H. slab_at p' j = slab_at p j)"
proof -
  obtain i p' where al: "slab_pool_alloc p = (Some i, p')"
    using slab_alloc_ne_None [OF own free] by blast
  note new = slab_owns_alloc_Some [OF own al]
  have at: "i < length (pool p')" "length (slab_data (slab_at p' i)) = SLAB_POOL_MAX_DATA_SIZE"
    using slab_owns_at [of p' "insert i H" i] new by auto
  have keep: "\<forall>j. j \<noteq> i \<longrightarrow> slab_at p' j = slab_at p j"
    using slab_pool_alloc_length [OF own al] by blast
  let ?s = "(slab_at p' i)\<lparr>slab_length := 0\<rparr>"
  have "slicer_acquire ts sl p = (sl\<lparr>slab_ptr := Some i, start_timestamp_us := ts\<rparr>, put_slab i ?s p')"
    using al idle by (simp add: slicer_acquire_def)
  moreover have "slab_owns (put_slab i ?s p') (insert i H)"
    using new at by (intro slab_owns_put) auto
  ultimately show ?thesis using new at keep by (auto simp: slab_at_put_slab)
qed

lemma slicer_acquire_exhausted:
  assumes "slab_owns p {..<SLAB_POOL_SIZE}" and "slab_ptr sl = None"
  shows "slicer_acquire ts sl p = (sl\<lparr>slab_ptr := None, start_timestamp_us := ts\<rparr>, p)"
proof (cases "slab_pool_alloc p")
  case (Pair r p')
  show ?thesis
  proof (cases r)
    case None
    with Pair slab_owns_alloc_None [OF assms(1)] assms(2) show ?thesis by (simp add: slicer_acquire_def)
  next
    case (Some i)
    with Pair slab_owns_alloc_Some [OF assms(1)] slab_owns_bound show ?thesis by blast
  qed
qed

text \<open>Bytes that fit are appended to what the slicer has buffered.\<close>

lemma feed_busy_fits:
  assumes inv: "slicer_inv sl p H" and i: "slab_ptr sl = Some i" and ne: "data \<noteq> []"
    and fits: "length (slicer_bytes sl p) + length data \<le> SLAB_POOL_MAX_DATA_SIZE"
  shows "\<exists>p'. modbus_slicer_feed (Some data) ts sl p
      = Some (sl\<lparr>last_byte_timestamp_us := ts\<rparr>, p', None)
    \<and> slicer_inv (sl\<lparr>last_byte_timestamp_us := ts\<rparr>) p' H
    \<and> slicer_bytes (sl\<lparr>last_byte_timestamp_us := ts\<rparr>) p' = slicer_bytes sl p @ data
    \<and> (\<forall>j \<in> H. slab_at p' j = slab_at p j)"
proof -
  from inv i have own: "slab_owns p (insert i H)" "i \<notin> H" "i < length (pool p)"
    and dat: "length (slab_data (slab_at p i)) = SLAB_POOL_MAX_DATA_SIZE"
    and len: "slab_length (slab_at p i) \<le> SLAB_POOL_MAX_DATA_SIZE"
    by (auto elim!: slicer_inv_cases)
  let ?s = "slab_at p i" and ?n = "slab_length (slab_at p i)"
  have fits': "?n + length data \<le> SLAB_POOL_MAX_DATA_SIZE"
    using fits by (simp add: slicer_bytes_length [OF inv i])
  then have small: "?n + length data \<le> 512" by (simp add: SLAB_POOL_MAX_DATA_SIZE_def)
  let ?d = "take ?n (slab_data ?s) @ data @ drop (?n + length data) (slab_data ?s)"
  let ?s' = "?s\<lparr>slab_data := ?d, slab_length := ?n + length data\<rparr>"
  let ?p = "put_slab i ?s' p" and ?sl = "sl\<lparr>last_byte_timestamp_us := ts\<rparr>"
  have "modbus_slicer_feed (Some data) ts sl p = Some (?sl, ?p, None)"
    using ne i small fits' dat
    by (simp add: modbus_slicer_feed_def u32_add_small buf_write_ok Let_def not_less)
  moreover have "slab_owns ?p (insert i H)"
    using own dat fits' by (intro slab_owns_put) (auto simp: SLAB_POOL_MAX_DATA_SIZE_def)
  moreover have "slab_at ?p i = ?s'" "\<forall>j \<in> H. slab_at ?p j = slab_at p j"
    using own by (auto simp: slab_at_put_slab)
  moreover have "slicer_bytes ?sl ?p = slicer_bytes sl p @ data"
    using i own dat fits' by (simp add: slicer_bytes_def slab_at_put_slab)
  ultimately show ?thesis using i own fits' by (auto intro!: slicer_inv_busy)
qed

lemma feed_idle:
  assumes "slicer_acquire ts sl p = (sl', p')" and "slab_ptr sl' = Some i"
  shows "modbus_slicer_feed (Some data) ts sl p =
    (if data = [] then Some (sl\<lparr>last_byte_timestamp_us := ts\<rparr>, p, None)
     else modbus_slicer_feed (Some data) ts sl' p')"
  using assms by (simp add: modbus_slicer_feed_def)

lemma feed_appends:
  assumes inv: "slicer_inv sl p H" and ne: "data \<noteq> []"
    and room: "slab_ptr sl = None \<Longrightarrow> H \<noteq> {..<SLAB_POOL_SIZE}"
    and fits: "length (slicer_bytes sl p) + length data \<le> SLAB_POOL_MAX_DATA_SIZE"
  shows "\<exists>sl' p'. modbus_slicer_feed (Some data) ts sl p = Some (sl', p', None)
    \<and> slicer_inv sl' p' H \<and> slicer_bytes sl' p' = slicer_bytes sl p @ data
    \<and> slab_ptr sl' \<noteq> None \<and> slicer_config_ptr sl' = slicer_config_ptr sl
    \<and> start_timestamp_us sl' = (if slab_ptr sl = None then ts else start_timestamp_us sl)
    \<and> (\<forall>j \<in> H. slab_at p' j = slab_at p j)"
  using inv
proof (cases rule: slicer_inv_cases)
  case idle
  obtain i p1 where acq: "slicer_acquire ts sl p = (sl\<lparr>slab_ptr := Some i, start_timestamp_us := ts\<rparr>, p1)"
    and own: "slab_owns p1 (insert i H)" "i \<notin> H" "slab_length (slab_at p1 i) = 0"
    and keep: "\<forall>j \<in> H. slab_at p1 j = slab_at p j"
    using slicer_acquire_idle [OF idle(2,1) room [OF idle(1)]] by blast
  let ?sl = "sl\<lparr>slab_ptr := Some i, start_timestamp_us := ts\<rparr>"
  have inv1: "slicer_inv ?sl p1 H" using own by (intro slicer_inv_busy [of _ i]) auto
  have empty: "slicer_bytes ?sl p1 = []" "slicer_bytes sl p = []"
    using own idle by (simp_all add: slicer_bytes_def)
  have "\<exists>p'. modbus_slicer_feed (Some data) ts ?sl p1 = Some (?sl\<lparr>last_byte_timestamp_us := ts\<rparr>, p', None)
    \<and> slicer_inv (?sl\<lparr>last_byte_timestamp_us := ts\<rparr>) p' H
    \<and> slicer_bytes (?sl\<lparr>last_byte_timestamp_us := ts\<rparr>) p' = slicer_bytes ?sl p1 @ data
    \<and> (\<forall>j \<in> H. slab_at p' j = slab_at p1 j)"
    by (rule feed_busy_fits [OF inv1 _ ne]) (use fits empty in auto)
  then show ?thesis using acq ne idle keep empty by (auto simp: feed_idle [OF acq])
next
  case (busy i)
  from feed_busy_fits [OF inv busy(1) ne fits, of ts] busy(1) show ?thesis by auto
qed

text \<open>Any feed: no undefined behaviour, no slab lost, and an error report carries no slab.\<close>

lemma slicer_report_config:
  "slicer_config_ptr sl = Some c \<Longrightarrow> slicer_report e sl = Some (if on_frame_func c
     then Some \<lparr>frame_slab_ptr = None, frame_timestamp_us = start_timestamp_us sl, frame_error = e\<rparr> else None)"
  by (simp add: slicer_report_def)

lemma feed_overflows:
  assumes inv: "slicer_inv sl p H" and i: "slab_ptr sl = Some i" and cfg: "slicer_config_ptr sl = Some c"
    and big: "SLAB_POOL_MAX_DATA_SIZE < length (slicer_bytes sl p) + length data"
    and dl: "length data < 2 ^ 32 - 512"
  shows "\<exists>p'. modbus_slicer_feed (Some data) ts sl p = Some (sl\<lparr>last_byte_timestamp_us := ts\<rparr>, p',
      if on_frame_func c then Some \<lparr>frame_slab_ptr = None, frame_timestamp_us = start_timestamp_us sl,
        frame_error = MODBUS_SLICER_ERROR_OVERFLOW\<rparr> else None)
    \<and> slicer_inv (sl\<lparr>last_byte_timestamp_us := ts\<rparr>) p' H
    \<and> slicer_bytes (sl\<lparr>last_byte_timestamp_us := ts\<rparr>) p' = []
    \<and> (\<forall>j \<in> H. slab_at p' j = slab_at p j)"
proof -
  from inv i have own: "slab_owns p (insert i H)" "i \<notin> H" "i < length (pool p)"
    and dat: "length (slab_data (slab_at p i)) = SLAB_POOL_MAX_DATA_SIZE"
    and len: "slab_length (slab_at p i) \<le> SLAB_POOL_MAX_DATA_SIZE"
    by (auto elim!: slicer_inv_cases)
  let ?s = "(slab_at p i)\<lparr>slab_length := 0\<rparr>"
  let ?p = "put_slab i ?s p" and ?sl = "sl\<lparr>last_byte_timestamp_us := ts\<rparr>"
  have ne: "data \<noteq> []" using big len by (auto simp: slicer_bytes_length [OF inv i])
  have sm: "slab_length (slab_at p i) + length data < 2 ^ 32"
    using len dl by (simp add: SLAB_POOL_MAX_DATA_SIZE_def)
  have "modbus_slicer_feed (Some data) ts sl p = Some (?sl, ?p,
      if on_frame_func c then Some \<lparr>frame_slab_ptr = None, frame_timestamp_us = start_timestamp_us sl,
        frame_error = MODBUS_SLICER_ERROR_OVERFLOW\<rparr> else None)"
    using ne i big sm cfg
    by (simp add: modbus_slicer_feed_def u32_add_small slicer_bytes_length [OF inv i] slicer_report_config Let_def)
  moreover have "slab_owns ?p (insert i H)"
    using own dat by (intro slab_owns_put) auto
  moreover have "slab_at ?p i = ?s" "\<forall>j \<in> H. slab_at ?p j = slab_at p j"
    using own by (auto simp: slab_at_put_slab)
  moreover have "slicer_bytes ?sl ?p = []" using i own by (simp add: slicer_bytes_def slab_at_put_slab)
  ultimately show ?thesis using i own by (auto intro!: slicer_inv_busy)
qed

lemma feed_exhausted:
  assumes own: "slab_owns p {..<SLAB_POOL_SIZE}" and idle: "slab_ptr sl = None"
    and cfg: "slicer_config_ptr sl = Some c" and ne: "data \<noteq> []"
  shows "modbus_slicer_feed (Some data) ts sl p
    = Some (sl\<lparr>slab_ptr := None, start_timestamp_us := ts, last_byte_timestamp_us := ts\<rparr>, p,
      if on_frame_func c then Some \<lparr>frame_slab_ptr = None, frame_timestamp_us = ts,
        frame_error = MODBUS_SLICER_ERROR_NO_MEM\<rparr> else None)"
  using slicer_acquire_exhausted [OF own idle, of ts] cfg ne
  by (simp add: modbus_slicer_feed_def slicer_report_config)

text \<open>A frame ends: the slab passes to the consumer.\<close>

lemma timeout_emits:
  assumes inv: "slicer_inv sl p H" and cfg: "slicer_config_ptr sl = Some c" "on_frame_func c"
    and ne: "slicer_bytes sl p \<noteq> []"
  shows "\<exists>i. slab_ptr sl = Some i \<and> modbus_slicer_timeout sl p = (sl\<lparr>slab_ptr := None\<rparr>, p,
      Some \<lparr>frame_slab_ptr = Some i, frame_timestamp_us = start_timestamp_us sl, frame_error = MODBUS_SLICER_OK\<rparr>)
    \<and> i \<notin> H \<and> slab_owns p (insert i H)
    \<and> take (slab_length (slab_at p i)) (slab_data (slab_at p i)) = slicer_bytes sl p"
  using inv
proof (cases rule: slicer_inv_cases)
  case idle
  with ne show ?thesis by (simp add: slicer_bytes_def)
next
  case (busy i)
  then have "0 < slab_length (slab_at p i)"
    using ne slicer_bytes_length [OF inv busy(1)] by (cases "slicer_bytes sl p") auto
  with busy cfg show ?thesis by (simp add: modbus_slicer_timeout_def slicer_bytes_def)
qed

lemma timeout_empty: "slicer_inv sl p H \<Longrightarrow> slicer_bytes sl p = [] \<Longrightarrow> modbus_slicer_timeout sl p = (sl, p, None)"
  using slicer_bytes_length [of sl p H]
  by (auto simp: modbus_slicer_timeout_def split: option.splits)

text \<open>
  Any feed, in any state of the slicer. The bytes are appended to the buffered ones, or, when a
  slab or room is missing, the buffer is empty afterwards.
\<close>

definition feed_effect :: "bytes \<Rightarrow> int \<Rightarrow> modbus_slicer \<Rightarrow> slab_pool \<Rightarrow> modbus_slicer \<Rightarrow> slab_pool \<Rightarrow> bool" where
  "feed_effect data ts sl p sl' p' \<longleftrightarrow>
     (if data = [] then slicer_bytes sl' p' = slicer_bytes sl p \<and> slab_ptr sl' = slab_ptr sl
        \<and> start_timestamp_us sl' = start_timestamp_us sl
      else (slicer_bytes sl' p' = slicer_bytes sl p @ data \<or> slicer_bytes sl' p' = [])
        \<and> start_timestamp_us sl' = (if slab_ptr sl = None then ts else start_timestamp_us sl))"

lemma slicer_feed_any:
  assumes inv: "slicer_inv sl p H" and cfg: "slicer_config_ptr sl = Some c" and dl: "length data < 2 ^ 32 - 512"
  shows "\<exists>sl' p' f. modbus_slicer_feed (Some data) ts sl p = Some (sl', p', f) \<and> slicer_inv sl' p' H
    \<and> slicer_config_ptr sl' = Some c \<and> last_byte_timestamp_us sl' = ts \<and> feed_effect data ts sl p sl' p'
    \<and> (case f of None \<Rightarrow> True | Some g \<Rightarrow> frame_slab_ptr g = None
         \<and> frame_error g \<in> {MODBUS_SLICER_ERROR_OVERFLOW, MODBUS_SLICER_ERROR_NO_MEM})
    \<and> (\<forall>j \<in> H. slab_at p' j = slab_at p j)"
proof (cases "data = []")
  case True
  then show ?thesis using inv cfg by (simp add: modbus_slicer_feed_def slicer_inv_def feed_effect_def slicer_bytes_def)
next
  case ne: False
  have run: ?thesis
    if *: "modbus_slicer_feed (Some data) ts sl p = modbus_slicer_feed (Some data) ts sl' p'" "slicer_inv sl' p' H"
      "slab_ptr sl' = Some i" "slicer_config_ptr sl' = Some c" "\<forall>j \<in> H. slab_at p' j = slab_at p j"
      "slicer_bytes sl' p' = slicer_bytes sl p"
      "start_timestamp_us sl' = (if slab_ptr sl = None then ts else start_timestamp_us sl)" for sl' p' i
  proof (cases "length (slicer_bytes sl' p') + length data \<le> SLAB_POOL_MAX_DATA_SIZE")
    case True
    from feed_busy_fits [OF *(2,3) ne True, of ts] * ne show ?thesis by (auto simp: feed_effect_def)
  next
    case False
    from feed_overflows [OF *(2,3,4) _ dl, of ts] False * ne show ?thesis by (auto simp: feed_effect_def)
  qed
  from inv show ?thesis
  proof (cases rule: slicer_inv_cases)
    case idle
    show ?thesis
    proof (cases "H = {..<SLAB_POOL_SIZE}")
      case True
      with idle feed_exhausted [of p sl c data ts] cfg ne show ?thesis
        by (simp add: slicer_inv_def feed_effect_def slicer_bytes_def)
    next
      case False
      obtain i p1 where acq: "slicer_acquire ts sl p = (sl\<lparr>slab_ptr := Some i, start_timestamp_us := ts\<rparr>, p1)"
        and own: "slab_owns p1 (insert i H)" "i \<notin> H" "slab_length (slab_at p1 i) = 0" "\<forall>j \<in> H. slab_at p1 j = slab_at p j"
        using slicer_acquire_idle [OF idle(2,1) False] by blast
      show ?thesis
        by (rule run [of "sl\<lparr>slab_ptr := Some i, start_timestamp_us := ts\<rparr>" p1 i])
          (use own ne cfg idle(1) in \<open>auto simp: feed_idle [OF acq] slicer_bytes_def intro!: slicer_inv_busy\<close>)
    qed
  next
    case (busy i)
    then show ?thesis using run [OF refl inv _ cfg] by auto
  qed
qed

section \<open>A run of chunks\<close>

text \<open>The driver's events of one frame, fed one after the other; the reports in order.\<close>

fun slicer_feed_all :: "(int \<times> bytes) list \<Rightarrow> modbus_slicer \<Rightarrow> slab_pool
    \<Rightarrow> (modbus_slicer \<times> slab_pool \<times> modbus_slicer_frame list) option" where
  "slicer_feed_all [] sl p = Some (sl, p, [])"
| "slicer_feed_all ((ts, data) # cs) sl p =
     (case modbus_slicer_feed (Some data) ts sl p of
        None \<Rightarrow> None
      | Some (sl', p', f) \<Rightarrow>
          (case slicer_feed_all cs sl' p' of
             None \<Rightarrow> None
           | Some (sl'', p'', fs) \<Rightarrow> Some (sl'', p'', (case f of None \<Rightarrow> fs | Some g \<Rightarrow> g # fs))))"

lemma feed_all_appends:
  assumes "slicer_inv sl p H" and "\<forall>(ts, data) \<in> set cs. data \<noteq> []"
    and "slab_ptr sl = None \<Longrightarrow> H \<noteq> {..<SLAB_POOL_SIZE}"
    and "length (slicer_bytes sl p) + length (concat (map snd cs)) \<le> SLAB_POOL_MAX_DATA_SIZE"
  shows "\<exists>sl' p'. slicer_feed_all cs sl p = Some (sl', p', []) \<and> slicer_inv sl' p' H
    \<and> slicer_bytes sl' p' = slicer_bytes sl p @ concat (map snd cs)
    \<and> slicer_config_ptr sl' = slicer_config_ptr sl
    \<and> start_timestamp_us sl' = (if slab_ptr sl = None \<and> cs \<noteq> [] then fst (hd cs) else start_timestamp_us sl)
    \<and> (\<forall>j \<in> H. slab_at p' j = slab_at p j)"
  using assms
proof (induction cs arbitrary: sl p)
  case (Cons c cs)
  obtain ts data where c: "c = (ts, data)" by (cases c)
  from Cons.prems c have ne: "data \<noteq> []"
    and fits: "length (slicer_bytes sl p) + length data \<le> SLAB_POOL_MAX_DATA_SIZE" by auto
  obtain sl1 p1 where f: "modbus_slicer_feed (Some data) ts sl p = Some (sl1, p1, None)"
    and inv: "slicer_inv sl1 p1 H" and bs: "slicer_bytes sl1 p1 = slicer_bytes sl p @ data"
    and busy: "slab_ptr sl1 \<noteq> None" and cfg: "slicer_config_ptr sl1 = slicer_config_ptr sl"
    and st: "start_timestamp_us sl1 = (if slab_ptr sl = None then ts else start_timestamp_us sl)"
    and keep: "\<forall>j \<in> H. slab_at p1 j = slab_at p j"
    using feed_appends [OF Cons.prems(1) ne Cons.prems(3) fits] by blast
  have "\<exists>sl' p'. slicer_feed_all cs sl1 p1 = Some (sl', p', []) \<and> slicer_inv sl' p' H
    \<and> slicer_bytes sl' p' = slicer_bytes sl1 p1 @ concat (map snd cs)
    \<and> slicer_config_ptr sl' = slicer_config_ptr sl1
    \<and> start_timestamp_us sl' = (if slab_ptr sl1 = None \<and> cs \<noteq> [] then fst (hd cs) else start_timestamp_us sl1)
    \<and> (\<forall>j \<in> H. slab_at p' j = slab_at p1 j)"
    by (rule Cons.IH [OF inv]) (use Cons.prems busy bs c in auto)
  then show ?case using f busy st cfg keep bs c by auto
qed simp

section \<open>Properties\<close>

text \<open>
  C15. A frame that arrives in any number of non-empty chunks of at most 512 bytes in total is
  handed to the callback at the line timeout as one slab with exactly the chunks' bytes and the
  time of the first chunk; the slab passes from the slicer to the consumer, and no slab of
  another holder is touched.
\<close>

theorem modbus_slicer_reassembles:
  assumes "slab_owns p H" and "H \<noteq> {..<32}" and "slab_ptr sl = None"
    and "slicer_config_ptr sl = Some c" and "on_frame_func c"
    and "cs \<noteq> []" and "\<forall>(ts, data) \<in> set cs. data \<noteq> []" and "length (concat (map snd cs)) \<le> 512"
  shows "\<exists>sl' p' i. slicer_feed_all cs sl p = Some (sl', p', [])
    \<and> modbus_slicer_timeout sl' p' = (sl'\<lparr>slab_ptr := None\<rparr>, p', Some \<lparr>frame_slab_ptr = Some i,
        frame_timestamp_us = fst (hd cs), frame_error = MODBUS_SLICER_OK\<rparr>)
    \<and> take (slab_length (slab_at p' i)) (slab_data (slab_at p' i)) = concat (map snd cs)
    \<and> i \<notin> H \<and> slab_owns p' (insert i H) \<and> (\<forall>j \<in> H. slab_at p' j = slab_at p j)"
proof -
  have inv: "slicer_inv sl p H" using assms(1,3) by (simp add: slicer_inv_def)
  have e: "slicer_bytes sl p = []" using assms(3) by (simp add: slicer_bytes_def)
  obtain sl' p' where f: "slicer_feed_all cs sl p = Some (sl', p', [])" "slicer_inv sl' p' H"
    "slicer_bytes sl' p' = concat (map snd cs)" "slicer_config_ptr sl' = Some c"
    "start_timestamp_us sl' = fst (hd cs)" "\<forall>j \<in> H. slab_at p' j = slab_at p j"
    using feed_all_appends [OF inv assms(7)] assms e by (auto simp: SLAB_POOL_SIZE_def SLAB_POOL_MAX_DATA_SIZE_def)
  have "concat (map snd cs) \<noteq> []" using assms(6,7) by (cases cs) auto
  with timeout_emits [OF f(2,4) assms(5)] f show ?thesis by auto
qed

definition slicer_config_example :: modbus_slicer_config where
  "slicer_config_example = \<lparr>baudrate = 9600, bit_length = 11, get_time_us_func = True, on_frame_func = True\<rparr>"

definition slicer_example :: modbus_slicer where
  "slicer_example = \<lparr>slicer_config_ptr = Some slicer_config_example, slab_ptr = None, start_timestamp_us = 0,
     last_byte_timestamp_us = 0, t3_5_us = 0\<rparr>"

lemma modbus_slicer_reassembles_witness:
  "\<exists>sl' p' i. slicer_feed_all [(5, [1, 2]), (9, [3])] slicer_example (snd (slab_pool_init True slab_pool_static))
      = Some (sl', p', [])
    \<and> frame_timestamp_us (the (snd (snd (modbus_slicer_timeout sl' p')))) = 5
    \<and> take (slab_length (slab_at p' i)) (slab_data (slab_at p' i)) = [1, 2, 3]"
proof -
  have "slab_ptr slicer_example = None" "slicer_config_ptr slicer_example = Some slicer_config_example"
    "on_frame_func slicer_config_example" "({} :: slab_ref set) \<noteq> {..<32}"
    using lessThan_empty_iff [of "32 :: nat"]
    by (simp_all add: slicer_example_def slicer_config_example_def eq_commute [of "{}"])
  from modbus_slicer_reassembles [OF slab_owns_init this(4,1,2,3), of "[(5, [1, 2]), (9, [3])]"]
  obtain sl' p' i where
    "slicer_feed_all [(5, [1, 2]), (9, [3])] slicer_example (snd (slab_pool_init True slab_pool_static))
      = Some (sl', p', [])"
    "modbus_slicer_timeout sl' p' = (sl'\<lparr>slab_ptr := None\<rparr>, p', Some \<lparr>frame_slab_ptr = Some i,
        frame_timestamp_us = 5, frame_error = MODBUS_SLICER_OK\<rparr>)"
    "take (slab_length (slab_at p' i)) (slab_data (slab_at p' i)) = [1, 2, 3]"
    by auto
  then show ?thesis by (intro exI [of _ sl'] exI [of _ p'] exI [of _ i]) simp
qed

text \<open>
  C35. Whatever is fed in whatever state, the slicer neither writes outside its slab nor loses
  one: it keeps holding at most one slab besides those of the others, and a report that it
  makes carries an error and no slab.
\<close>

theorem modbus_slicer_feed_safe:
  assumes "slicer_inv sl p H" and "slicer_config_ptr sl = Some c" and "length data < 2 ^ 32 - 512"
  shows "\<exists>sl' p' f. modbus_slicer_feed (Some data) ts sl p = Some (sl', p', f) \<and> slicer_inv sl' p' H
    \<and> slicer_config_ptr sl' = Some c \<and> last_byte_timestamp_us sl' = ts
    \<and> (case f of None \<Rightarrow> True | Some g \<Rightarrow> frame_slab_ptr g = None
         \<and> frame_error g \<in> {MODBUS_SLICER_ERROR_OVERFLOW, MODBUS_SLICER_ERROR_NO_MEM})"
  using slicer_feed_any [OF assms] by blast

lemma slicer_inv_example: "slicer_inv slicer_example (snd (slab_pool_init True slab_pool_static)) {}"
  using slab_owns_init by (simp add: slicer_inv_def slicer_example_def)

lemma modbus_slicer_feed_safe_witness:
  "\<exists>sl' p' f. modbus_slicer_feed (Some (replicate 600 7)) 5 slicer_example
      (snd (slab_pool_init True slab_pool_static)) = Some (sl', p', f)
    \<and> slicer_inv sl' p' {} \<and> last_byte_timestamp_us sl' = 5"
proof -
  have "slicer_config_ptr slicer_example = Some slicer_config_example" "length (replicate 600 7 :: bytes) < 2 ^ 32 - 512"
    by (simp_all add: slicer_example_def)
  from modbus_slicer_feed_safe [OF slicer_inv_example this, of 5] show ?thesis by blast
qed

text \<open>
  A chunk that does not fit drops the frame: the error is reported without a slab, the slab
  is kept and emptied. The start time is only taken with a new slab, so the frame that follows
  is handed on with the start time of the dropped one, however much later it arrives.
\<close>

theorem modbus_slicer_overflow_stale_start:
  assumes inv: "slicer_inv sl p H" and i: "slab_ptr sl = Some i"
    and cfg: "slicer_config_ptr sl = Some c" "on_frame_func c"
    and big: "512 < length (slicer_bytes sl p) + length data" "length data < 2 ^ 32 - 512"
    and nxt: "data' \<noteq> []" "length data' \<le> 512"
  shows "\<exists>sl1 p1 sl2 p2. modbus_slicer_feed (Some data) ts sl p = Some (sl1, p1, Some \<lparr>frame_slab_ptr = None,
        frame_timestamp_us = start_timestamp_us sl, frame_error = MODBUS_SLICER_ERROR_OVERFLOW\<rparr>)
    \<and> slab_ptr sl1 = Some i \<and> slicer_bytes sl1 p1 = []
    \<and> modbus_slicer_feed (Some data') ts' sl1 p1 = Some (sl2, p2, None) \<and> slicer_bytes sl2 p2 = data'
    \<and> modbus_slicer_timeout sl2 p2 = (sl2\<lparr>slab_ptr := None\<rparr>, p2, Some \<lparr>frame_slab_ptr = Some i,
        frame_timestamp_us = start_timestamp_us sl, frame_error = MODBUS_SLICER_OK\<rparr>)"
proof -
  let ?sl1 = "sl\<lparr>last_byte_timestamp_us := ts\<rparr>" and ?sl2 = "sl\<lparr>last_byte_timestamp_us := ts'\<rparr>"
  obtain p1 where f1: "modbus_slicer_feed (Some data) ts sl p = Some (?sl1, p1, Some \<lparr>frame_slab_ptr = None,
        frame_timestamp_us = start_timestamp_us sl, frame_error = MODBUS_SLICER_ERROR_OVERFLOW\<rparr>)"
    and i1: "slicer_inv ?sl1 p1 H" and e1: "slicer_bytes ?sl1 p1 = []"
    using feed_overflows [OF inv i cfg(1) _ big(2), of ts] big(1) cfg(2)
    by (auto simp: SLAB_POOL_MAX_DATA_SIZE_def)
  have "length (slicer_bytes ?sl1 p1) + length data' \<le> SLAB_POOL_MAX_DATA_SIZE"
    using nxt(2) e1 by (simp add: SLAB_POOL_MAX_DATA_SIZE_def)
  from feed_busy_fits [OF i1 _ nxt(1) this, of i ts'] i e1
  obtain p2 where f2: "modbus_slicer_feed (Some data') ts' ?sl1 p1 = Some (?sl2, p2, None)"
    and i2: "slicer_inv ?sl2 p2 H" and e2: "slicer_bytes ?sl2 p2 = data'"
    by auto
  have "slicer_config_ptr ?sl2 = Some c" "slicer_bytes ?sl2 p2 \<noteq> []" using cfg(1) e2 nxt(1) by simp_all
  from timeout_emits [OF i2 this(1) cfg(2) this(2)] i
  have "modbus_slicer_timeout ?sl2 p2 = (?sl2\<lparr>slab_ptr := None\<rparr>, p2, Some \<lparr>frame_slab_ptr = Some i,
        frame_timestamp_us = start_timestamp_us sl, frame_error = MODBUS_SLICER_OK\<rparr>)"
    by simp
  with f1 e1 f2 e2 i show ?thesis
    by (intro exI [of _ ?sl1] exI [of _ p1] exI [of _ ?sl2] exI [of _ p2]) simp
qed

lemma modbus_slicer_overflow_stale_start_witness:
  "\<exists>sl p sl1 p1 sl2 p2 g. start_timestamp_us sl = 5
    \<and> modbus_slicer_feed (Some (replicate 300 7)) 6 sl p = Some (sl1, p1, Some g)
    \<and> modbus_slicer_feed (Some [1, 2]) 90000 sl1 p1 = Some (sl2, p2, None)
    \<and> frame_timestamp_us (the (snd (snd (modbus_slicer_timeout sl2 p2)))) = 5"
proof -
  have ex: "slab_ptr slicer_example = None" "slicer_config_ptr slicer_example = Some slicer_config_example"
    "on_frame_func slicer_config_example" "slicer_bytes slicer_example p = []" for p
    by (simp_all add: slicer_example_def slicer_config_example_def slicer_bytes_def)
  have ne: "replicate 300 7 \<noteq> ([] :: bytes)" "length (replicate 300 7 :: bytes) = 300"
    "({} :: slab_ref set) \<noteq> {..<SLAB_POOL_SIZE}"
    using lessThan_empty_iff [of "32 :: nat"] by (simp_all add: SLAB_POOL_SIZE_def eq_commute [of "{}"])
  from feed_appends [OF slicer_inv_example ne(1) ne(3), of 5] ex ne(2)
  obtain sl p where 1: "slicer_inv sl p {}" "slicer_bytes sl p = replicate 300 7" "slab_ptr sl \<noteq> None"
    "slicer_config_ptr sl = Some slicer_config_example" "start_timestamp_us sl = 5"
    by (auto simp: SLAB_POOL_MAX_DATA_SIZE_def)
  then obtain i where i: "slab_ptr sl = Some i" by blast
  have big: "512 < length (slicer_bytes sl p) + length (replicate 300 7 :: bytes)"
    "length (replicate 300 7 :: bytes) < 2 ^ 32 - 512" "[1, 2] \<noteq> ([] :: bytes)" "length ([1, 2] :: bytes) \<le> 512"
    using 1(2) by simp_all
  from modbus_slicer_overflow_stale_start [OF 1(1) i 1(4) ex(3) big, of 6 90000]
  obtain sl1 p1 sl2 p2 where
    "modbus_slicer_feed (Some (replicate 300 7)) 6 sl p = Some (sl1, p1, Some \<lparr>frame_slab_ptr = None,
        frame_timestamp_us = start_timestamp_us sl, frame_error = MODBUS_SLICER_ERROR_OVERFLOW\<rparr>)"
    "modbus_slicer_feed (Some [1, 2]) 90000 sl1 p1 = Some (sl2, p2, None)"
    "modbus_slicer_timeout sl2 p2 = (sl2\<lparr>slab_ptr := None\<rparr>, p2, Some \<lparr>frame_slab_ptr = Some i,
        frame_timestamp_us = start_timestamp_us sl, frame_error = MODBUS_SLICER_OK\<rparr>)"
    by blast
  with 1(5) show ?thesis by (intro exI [of _ sl] exI [of _ p] exI [of _ sl1] exI [of _ p1]
      exI [of _ sl2] exI [of _ p2] exI) simp
qed

lemma slicer_margin:
  fixes t :: int
  shows "10 * (7 * t div 2 + 7 * t div 2 div 5) \<le> 42 * t"
    and "8 \<le> t \<Longrightarrow> 7 * (t + 1) \<le> 2 * (7 * t div 2 + 7 * t div 2 div 5)"
proof -
  define u w where "u = 7 * t div 2" and "w = u div 5"
  have u: "u * 2 \<le> 7 * t" "7 * t < (u + 1) * 2" and w: "w * 5 \<le> u" "u < (w + 1) * 5"
    using int_div_bounds [of 2 "7 * t"] int_div_bounds [of 5 u] by (simp_all add: u_def w_def)
  have "10 * (u + w) \<le> 42 * t" using u w by simp
  then show "10 * (7 * t div 2 + 7 * t div 2 div 5) \<le> 42 * t" by (simp only: u_def w_def)
  assume "8 \<le> t"
  then have "7 * (t + 1) \<le> 2 * (u + w)" using u w by simp
  then show "7 * (t + 1) \<le> 2 * (7 * t div 2 + 7 * t div 2 div 5)" by (simp only: u_def w_def)
qed

text \<open>
  The silence threshold is between 3.5 and 4.2 character times (the 20 percent margin),
  with no overflow in the 32-bit product, for every frame length and every baud rate at which a
  character lasts at least 8 microseconds.
\<close>

theorem modbus_slicer_threshold:
  assumes "0 < baudrate c" and "bit_length c < 256" and "8 * baudrate c \<le> bit_length c * 1000000"
  shows "\<exists>sl'. modbus_slicer_init c sl = Some sl' \<and> slicer_config_ptr sl' = Some c
    \<and> 7 * int (bit_length c) * 1000000 \<le> 2 * t3_5_us sl' * int (baudrate c)
    \<and> 10 * t3_5_us sl' * int (baudrate c) \<le> 42 * int (bit_length c) * 1000000"
proof -
  let ?n = "int (bit_length c * 1000000)" and ?b = "int (baudrate c)"
  let ?t1 = "?n div ?b"
  let ?t = "(7 * ?t1) div 2"
  let ?v = "?t + ?t div 5"
  have b: "0 < ?b" using assms(1) by simp
  have "int (u32_mul (bit_length c) 1000000 div baudrate c) = ?t1"
    using assms(2) by (simp add: u32_mul_small zdiv_int)
  then have init: "modbus_slicer_init c sl = Some (sl\<lparr>slicer_config_ptr := Some c, t3_5_us := ?v\<rparr>)"
    using assms(1) by (simp add: modbus_slicer_init_def Let_def)
  have t1: "?t1 * ?b \<le> ?n" "?n < (?t1 + 1) * ?b"
    using int_div_bounds [OF b, of ?n] by simp_all
  have t1_8: "8 \<le> ?t1"
    using zdiv_mono1 [OF _ b, of "8 * ?b" ?n] assms(1,3) by simp
  have up: "10 * ?v \<le> 42 * ?t1" by (rule slicer_margin(1))
  have lo: "7 * (?t1 + 1) \<le> 2 * ?v" using t1_8 by (rule slicer_margin(2))
  have "7 * ?n \<le> 7 * ((?t1 + 1) * ?b)" using t1(2) by linarith
  also have "\<dots> \<le> 2 * ?v * ?b" using mult_right_mono [OF lo, of ?b] b by (simp add: mult.assoc)
  finally have 1: "7 * ?n \<le> 2 * ?v * ?b" .
  have "10 * ?v * ?b \<le> 42 * ?t1 * ?b" using mult_right_mono [OF up, of ?b] b by simp
  also have "\<dots> \<le> 42 * ?n" using t1(1) by linarith
  finally have 2: "10 * ?v * ?b \<le> 42 * ?n" .
  have n: "7 * int (bit_length c) * 1000000 = 7 * ?n" "42 * int (bit_length c) * 1000000 = 42 * ?n" by simp_all
  show ?thesis
    by (rule exI [of _ "sl\<lparr>slicer_config_ptr := Some c, t3_5_us := ?v\<rparr>"]) (use init 1 2 n in simp)
qed

lemma modbus_slicer_threshold_witness:
  "\<exists>sl'. modbus_slicer_init slicer_config_example slicer_example = Some sl'
    \<and> 10 * t3_5_us sl' * 9600 \<le> 42 * 11 * 1000000"
  using modbus_slicer_threshold [of slicer_config_example slicer_example]
  by (auto simp: slicer_config_example_def)

text \<open>
  The periodic check ends the frame exactly when bytes are buffered and the line has been
  silent for more than the threshold since the last feed; otherwise it changes nothing.
\<close>

theorem modbus_slicer_check_timeout_exact:
  assumes "slicer_inv sl p H" and "slicer_config_ptr sl = Some c" and "on_frame_func c" and "get_time_us_func c"
  shows "modbus_slicer_check_timeout now sl p =
    (if slicer_bytes sl p \<noteq> [] \<and> last_byte_timestamp_us sl + t3_5_us sl < now
     then (sl\<lparr>slab_ptr := None\<rparr>, p, Some \<lparr>frame_slab_ptr = slab_ptr sl,
        frame_timestamp_us = start_timestamp_us sl, frame_error = MODBUS_SLICER_OK\<rparr>)
     else (sl, p, None))"
proof (cases "slab_ptr sl")
  case None
  with assms show ?thesis by (simp add: modbus_slicer_check_timeout_def slicer_bytes_def)
next
  case (Some i)
  have *: "slicer_bytes sl p \<noteq> [] \<longleftrightarrow> 0 < slab_length (slab_at p i)"
    by (simp add: slicer_bytes_length [OF assms(1) Some, symmetric])
  have late: "t3_5_us sl < now - last_byte_timestamp_us sl \<longleftrightarrow> last_byte_timestamp_us sl + t3_5_us sl < now"
    by linarith
  show ?thesis
    by (simp add: modbus_slicer_check_timeout_def modbus_slicer_timeout_def assms(2-4) Some * late)
qed

lemma modbus_slicer_check_timeout_exact_witness:
  "modbus_slicer_check_timeout 9 slicer_example (snd (slab_pool_init True slab_pool_static))
    = (slicer_example, snd (slab_pool_init True slab_pool_static), None)"
  by (subst modbus_slicer_check_timeout_exact [OF slicer_inv_example, of slicer_config_example])
    (simp_all add: slicer_example_def slicer_config_example_def slicer_bytes_def)

end
