(* ===== verification/Utils_Crc.thy ===== *)
theory Utils_Crc imports Prelude begin

text \<open>
  The CRC of \<open>components/utils/utils.c\<close>: the bitwise variant, the table variant that the
  default configuration selects, their equivalence, and what the checksum guarantees: a
  corruption confined to one byte is always seen, and a message followed by its own checksum
  has the residue 0.
\<close>

section \<open>The two variants of \<open>calculate_modbus_crc16\<close>\<close>

text \<open>One round of the inner loop of the arithmetic variant, and the eight rounds of a byte.\<close>

definition crc_round :: "u16 \<Rightarrow> u16" where
  "crc_round crc = (if crc AND 0x0001 \<noteq> 0 then drop_bit 1 crc XOR 0xA001 else drop_bit 1 crc)"

definition crc_byte_arith :: "u16 \<Rightarrow> byte \<Rightarrow> u16" where
  "crc_byte_arith crc b = (crc_round ^^ 8) (crc XOR ucast b)"

definition calculate_modbus_crc16_arith :: "bytes \<Rightarrow> u16" where
  "calculate_modbus_crc16_arith data = foldl crc_byte_arith 0xFFFF data"

definition crc_lut :: "u16 list" where
  "crc_lut = [
    0x0000, 0xC0C1, 0xC181, 0x0140, 0xC301, 0x03C0, 0x0280, 0xC241, 0xC601, 0x06C0,
    0x0780, 0xC741, 0x0500, 0xC5C1, 0xC481, 0x0440, 0xCC01, 0x0CC0, 0x0D80, 0xCD41,
    0x0F00, 0xCFC1, 0xCE81, 0x0E40, 0x0A00, 0xCAC1, 0xCB81, 0x0B40, 0xC901, 0x09C0,
    0x0880, 0xC841, 0xD801, 0x18C0, 0x1980, 0xD941, 0x1B00, 0xDBC1, 0xDA81, 0x1A40,
    0x1E00, 0xDEC1, 0xDF81, 0x1F40, 0xDD01, 0x1DC0, 0x1C80, 0xDC41, 0x1400, 0xD4C1,
    0xD581, 0x1540, 0xD701, 0x17C0, 0x1680, 0xD641, 0xD201, 0x12C0, 0x1380, 0xD341,
    0x1100, 0xD1C1, 0xD081, 0x1040, 0xF001, 0x30C0, 0x3180, 0xF141, 0x3300, 0xF3C1,
    0xF281, 0x3240, 0x3600, 0xF6C1, 0xF781, 0x3740, 0xF501, 0x35C0, 0x3480, 0xF441,
    0x3C00, 0xFCC1, 0xFD81, 0x3D40, 0xFF01, 0x3FC0, 0x3E80, 0xFE41, 0xFA01, 0x3AC0,
    0x3B80, 0xFB41, 0x3900, 0xF9C1, 0xF881, 0x3840, 0x2800, 0xE8C1, 0xE981, 0x2940,
    0xEB01, 0x2BC0, 0x2A80, 0xEA41, 0xEE01, 0x2EC0, 0x2F80, 0xEF41, 0x2D00, 0xEDC1,
    0xEC81, 0x2C40, 0xE401, 0x24C0, 0x2580, 0xE541, 0x2700, 0xE7C1, 0xE681, 0x2640,
    0x2200, 0xE2C1, 0xE381, 0x2340, 0xE101, 0x21C0, 0x2080, 0xE041, 0xA001, 0x60C0,
    0x6180, 0xA141, 0x6300, 0xA3C1, 0xA281, 0x6240, 0x6600, 0xA6C1, 0xA781, 0x6740,
    0xA501, 0x65C0, 0x6480, 0xA441, 0x6C00, 0xACC1, 0xAD81, 0x6D40, 0xAF01, 0x6FC0,
    0x6E80, 0xAE41, 0xAA01, 0x6AC0, 0x6B80, 0xAB41, 0x6900, 0xA9C1, 0xA881, 0x6840,
    0x7800, 0xB8C1, 0xB981, 0x7940, 0xBB01, 0x7BC0, 0x7A80, 0xBA41, 0xBE01, 0x7EC0,
    0x7F80, 0xBF41, 0x7D00, 0xBDC1, 0xBC81, 0x7C40, 0xB401, 0x74C0, 0x7580, 0xB541,
    0x7700, 0xB7C1, 0xB681, 0x7640, 0x7200, 0xB2C1, 0xB381, 0x7340, 0xB101, 0x71C0,
    0x7080, 0xB041, 0x5000, 0x90C1, 0x9181, 0x5140, 0x9301, 0x53C0, 0x5280, 0x9241,
    0x9601, 0x56C0, 0x5780, 0x9741, 0x5500, 0x95C1, 0x9481, 0x5440, 0x9C01, 0x5CC0,
    0x5D80, 0x9D41, 0x5F00, 0x9FC1, 0x9E81, 0x5E40, 0x5A00, 0x9AC1, 0x9B81, 0x5B40,
    0x9901, 0x59C0, 0x5880, 0x9841, 0x8801, 0x48C0, 0x4980, 0x8941, 0x4B00, 0x8BC1,
    0x8A81, 0x4A40, 0x4E00, 0x8EC1, 0x8F81, 0x4F40, 0x8D01, 0x4DC0, 0x4C80, 0x8C41,
    0x4400, 0x84C1, 0x8581, 0x4540, 0x8701, 0x47C0, 0x4680, 0x8641, 0x8201, 0x42C0,
    0x4380, 0x8341, 0x4100, 0x81C1, 0x8081, 0x4040]"

text \<open>
  One iteration of the table variant: \<open>uint8_t lutIndex\<close> keeps the low byte of the sum
  of the data byte and the checksum.
\<close>

definition crc_byte_lut :: "u16 \<Rightarrow> byte \<Rightarrow> u16" where
  "crc_byte_lut crc b =
     (let lutIndex = (ucast (ucast b XOR crc) :: byte)
      in drop_bit 8 crc XOR crc_lut ! unat lutIndex)"

definition calculate_modbus_crc16_lut :: "bytes \<Rightarrow> u16" where
  "calculate_modbus_crc16_lut data = foldl crc_byte_lut 0xFFFF data"

text \<open>
  The function as its callers use it, on the memory from \<open>data_ptr\<close> on: \<open>None\<close> when
  \<open>length\<close> runs past the object. \<open>CONFIG_ENABLE_MODBUS_CRC16_LUT\<close> is on by default.
\<close>

definition calculate_modbus_crc16 :: "bytes \<Rightarrow> nat \<Rightarrow> u16 option" where
  "calculate_modbus_crc16 mem len = map_option calculate_modbus_crc16_lut (buf_read mem 0 len)"

section \<open>The round is linear and injective\<close>

lemma and_one_nonzero: "((x :: u16) AND 1 \<noteq> 0) = bit x 0"
  by (simp add: and_one_eq bit_0 odd_iff_mod_2_eq_one)

lemma crc_round_alt: "crc_round x = drop_bit 1 x XOR (if bit x 0 then 0xA001 else 0)"
  by (simp add: crc_round_def and_one_nonzero)

lemma crc_round_xor: "crc_round (x XOR y) = crc_round x XOR crc_round y"
  by (rule bit_word_eqI) (auto simp: crc_round_alt bit_simps)

lemma crc_rounds_xor: "(crc_round ^^ n) (x XOR y) = (crc_round ^^ n) x XOR (crc_round ^^ n) y"
  by (induction n) (simp_all add: crc_round_xor)

lemma bit_15_crc_round: "bit (crc_round x) 15 = bit x 0"
proof -
  have "\<not> bit x 16" using bit_imp_le_length [of x 16] by auto
  then show ?thesis by (simp add: crc_round_alt bit_simps)
qed

lemma crc_round_inj: "inj crc_round"
proof (rule injI)
  fix x y assume eq: "crc_round x = crc_round y"
  have b0: "bit x 0 = bit y 0"
    using arg_cong [where f = "\<lambda>w. bit w 15", OF eq] by (simp add: bit_15_crc_round)
  with eq have d: "drop_bit 1 x = drop_bit 1 y"
    by (simp add: crc_round_alt split: if_splits)
  show "x = y"
  proof (rule bit_word_eqI)
    fix n
    show "bit x n = bit y n"
    proof (cases n)
      case 0
      with b0 show ?thesis by simp
    next
      case (Suc m)
      have "bit (drop_bit 1 x) m = bit (drop_bit 1 y) m" by (simp only: d)
      with Suc show ?thesis unfolding bit_drop_bit_eq by simp
    qed
  qed
qed

lemma crc_byte_arith_inj: "crc_byte_arith c b = crc_byte_arith c' b' \<longleftrightarrow> c XOR ucast b = c' XOR ucast b'"
proof -
  have "inj (crc_round ^^ 8)" using crc_round_inj by (rule inj_fn)
  then show ?thesis by (simp add: crc_byte_arith_def inj_eq)
qed

section \<open>The table computes the rounds\<close>

lemma crc_round_even: "\<not> bit x 0 \<Longrightarrow> crc_round x = drop_bit 1 x"
  by (simp add: crc_round_alt)

lemma crc_rounds_shift:
  "(\<And>i. i < n \<Longrightarrow> \<not> bit x i) \<Longrightarrow> (crc_round ^^ n) x = drop_bit n x"
proof (induction n)
  case 0
  then show ?case by simp
next
  case (Suc n)
  then have "(crc_round ^^ n) x = drop_bit n x" by simp
  moreover have "\<not> bit (drop_bit n x) 0" using Suc.prems [of n] by (simp add: bit_drop_bit_eq)
  ultimately show ?case by (simp add: crc_round_even drop_bit_drop_bit)
qed

lemma eight_rounds: "(crc_round ^^ 8) x = crc_round (crc_round (crc_round (crc_round
    (crc_round (crc_round (crc_round (crc_round x)))))))"
  by (simp add: numeral_eq_Suc)

text \<open>
  The table is the XOR-span of the eight rounds of the powers of two, since a round is linear;
  that keeps the check of the 256 entries cheap.
\<close>

fun xor_span :: "u16 list \<Rightarrow> u16 list \<Rightarrow> u16 list" where
  "xor_span acc [] = acc"
| "xor_span acc (b # bs) = xor_span (acc @ map ((XOR) b) acc) bs"

lemma crc_rounds_0: "(crc_round ^^ n) 0 = 0"
  by (induction n) (simp_all add: crc_round_def)

lemma map_rounds_xor_span:
  "map (crc_round ^^ n) (xor_span acc bs) = xor_span (map (crc_round ^^ n) acc) (map (crc_round ^^ n) bs)"
proof (induction bs arbitrary: acc)
  case Nil
  then show ?case by simp
next
  case (Cons b bs)
  have "map (crc_round ^^ n) (map ((XOR) b) acc)
    = map ((XOR) ((crc_round ^^ n) b)) (map (crc_round ^^ n) acc)"
    by (simp add: crc_rounds_xor)
  with Cons show ?case by (simp only: xor_span.simps list.map map_append)
qed

definition byte_basis :: "u16 list" where
  "byte_basis = [1, 2, 4, 8, 16, 32, 64, 128]"

lemma xor_span_bytes: "xor_span [0] byte_basis = map word_of_nat [0..<256]"
  by (simp add: byte_basis_def upt_rec)

lemma rounds_of_basis: "map (crc_round ^^ 8) byte_basis
    = [0xC0C1, 0xC181, 0xC301, 0xC601, 0xCC01, 0xD801, 0xF001, 0xA001]"
  by (simp add: byte_basis_def eight_rounds crc_round_def)

lemma xor_span_table:
  "xor_span [0] [0xC0C1, 0xC181, 0xC301, 0xC601, 0xCC01, 0xD801, 0xF001, 0xA001] = crc_lut"
  by (simp add: crc_lut_def)

lemma crc_lut_table: "crc_lut = map (\<lambda>i. (crc_round ^^ 8) (word_of_nat i)) [0..<256]"
  using map_rounds_xor_span [of 8 "[0]" byte_basis]
  by (simp only: xor_span_bytes rounds_of_basis xor_span_table map_map comp_def list.map crc_rounds_0)

lemma length_crc_lut [simp]: "length crc_lut = 256"
  by (simp add: crc_lut_table)

lemma crc_lut_nth: "crc_lut ! unat (b :: byte) = (crc_round ^^ 8) (ucast b)"
proof -
  have "unat b < 2 ^ LENGTH(8)" by (rule unsigned_less)
  then have lt: "unat b < 256" by simp
  have "(word_of_nat (unat b) :: u16) = ucast b"
    by (simp add: unsigned_ucast_eq word_unat_eq_iff unsigned_of_nat take_bit_nat_eq_self_iff lt)
  with lt show ?thesis by (simp add: crc_lut_table)
qed

section \<open>One byte of the checksum\<close>

lemma split_low_byte: "(x :: u16) = push_bit 8 (drop_bit 8 x) XOR ucast (ucast x :: byte)"
  by (rule bit_word_eqI) (auto simp: bit_simps)

lemma crc_rounds_high: "(crc_round ^^ 8) (push_bit 8 (drop_bit 8 x)) = drop_bit 8 (x :: u16)"
proof -
  have "(crc_round ^^ 8) (push_bit 8 (drop_bit 8 x)) = drop_bit 8 (push_bit 8 (drop_bit 8 x))"
    by (rule crc_rounds_shift) (simp add: bit_simps)
  also have "\<dots> = drop_bit 8 x"
    by (rule bit_word_eqI) (auto simp: bit_simps dest: bit_imp_le_length)
  finally show ?thesis .
qed

lemma crc_rounds_split: "(crc_round ^^ 8) x = drop_bit 8 x XOR (crc_round ^^ 8) (ucast (ucast x :: byte))"
proof -
  have "(crc_round ^^ 8) x
    = (crc_round ^^ 8) (push_bit 8 (drop_bit 8 x) XOR ucast (ucast x :: byte))"
    using split_low_byte [of x] by simp
  then show ?thesis by (simp only: crc_rounds_xor crc_rounds_high)
qed

lemma crc_byte_lut_arith: "crc_byte_lut c b = crc_byte_arith c b"
proof -
  have d: "drop_bit 8 (c XOR ucast b) = drop_bit 8 c"
    by (rule bit_word_eqI) (auto simp: bit_simps dest: bit_imp_le_length)
  have "crc_byte_lut c b = drop_bit 8 c XOR (crc_round ^^ 8) (ucast (ucast (c XOR ucast b) :: byte))"
    by (simp add: crc_byte_lut_def crc_lut_nth xor.commute [of "ucast b"])
  then show ?thesis unfolding crc_byte_arith_def by (subst crc_rounds_split) (simp only: d)
qed

lemma calculate_modbus_crc16_lut_arith: "calculate_modbus_crc16_lut = calculate_modbus_crc16_arith"
  by (rule ext) (simp add: calculate_modbus_crc16_lut_def calculate_modbus_crc16_arith_def
      crc_byte_lut_arith [abs_def])

lemma foldl_crc_inj: "foldl crc_byte_arith c bs = foldl crc_byte_arith c' bs \<longleftrightarrow> c = c'"
  by (induction bs arbitrary: c c') (simp_all add: crc_byte_arith_inj)

lemma crc_byte_arith_eq_0: "crc_byte_arith c b = 0 \<longleftrightarrow> c = ucast b"
proof -
  have "crc_byte_arith c b = 0 \<longleftrightarrow> crc_byte_arith c b = crc_byte_arith 0 0"
    by (simp add: crc_byte_arith_def crc_rounds_0)
  then show ?thesis by (simp add: crc_byte_arith_inj)
qed

text \<open>Feeding the low byte of \<open>h l\<close> shifts the high byte down.\<close>

lemma crc_byte_arith_low: "crc_byte_arith (push_bit 8 (ucast h) XOR ucast l) l = ucast (h :: byte)"
proof -
  have "push_bit 8 (ucast h) = (push_bit 8 (drop_bit 8 (push_bit 8 (ucast h))) :: u16)"
    by (rule bit_word_eqI) (auto simp: bit_simps)
  moreover have "drop_bit 8 (push_bit 8 (ucast h)) = (ucast h :: u16)"
    by (rule bit_word_eqI) (auto simp: bit_simps dest: bit_imp_le_length)
  ultimately show ?thesis
    unfolding crc_byte_arith_def by (simp add: xor.assoc) (metis crc_rounds_high)
qed

lemma crc_two_bytes_eq_0:
  "crc_byte_arith (crc_byte_arith c l) h = 0 \<longleftrightarrow> c = push_bit 8 (ucast h) XOR ucast l"
  by (metis crc_byte_arith_eq_0 crc_byte_arith_inj crc_byte_arith_low xor_cancel_right)

lemma of_le16_xor: "of_le16 [l, h] = push_bit 8 (ucast h) XOR ucast l"
  unfolding of_le16_def by (rule bit_word_eqI) (auto simp: bit_simps dest: bit_imp_le_length)

lemma crc16_append2_eq_0:
  "calculate_modbus_crc16_lut (data @ [l, h]) = 0 \<longleftrightarrow> calculate_modbus_crc16_lut data = of_le16 [l, h]"
  by (simp add: calculate_modbus_crc16_lut_arith calculate_modbus_crc16_arith_def
      crc_two_bytes_eq_0 of_le16_xor)

lemma crc16_None [simp]: "calculate_modbus_crc16 mem n = None \<longleftrightarrow> length mem < n"
  by (simp add: calculate_modbus_crc16_def)

lemma crc16_in_range [buf_simps]:
  "n \<le> length mem \<Longrightarrow> calculate_modbus_crc16 mem n = Some (calculate_modbus_crc16_lut (take n mem))"
  by (simp add: calculate_modbus_crc16_def buf_read_def)

lemma crc_byte_arith_xor:
  "crc_byte_arith (c XOR d) (b XOR e) = crc_byte_arith c b XOR crc_byte_arith d e"
proof -
  have "(c XOR d) XOR ucast (b XOR e) = (c XOR ucast b) XOR (d XOR ucast e :: u16)"
    by (simp add: unsigned_xor_eq ac_simps)
  then show ?thesis by (simp only: crc_byte_arith_def crc_rounds_xor)
qed

text \<open>Two adjacent bytes that differ leave different checksums.\<close>

lemma crc_two_bytes_inj:
  assumes "crc_byte_arith (crc_byte_arith c a) b = crc_byte_arith (crc_byte_arith c a') b'"
  shows "a = a' \<and> b = b'"
proof -
  have "crc_byte_arith (crc_byte_arith (c XOR c) (a XOR a')) (b XOR b') = 0"
    unfolding crc_byte_arith_xor by (simp add: assms)
  then have eq: "ucast (a XOR a') = (push_bit 8 (ucast (b XOR b')) :: u16)"
    unfolding crc_two_bytes_eq_0 by (metis xor_eq_0_iff)
  have "bit (a XOR a') n = bit 0 n" if "n < 8" for n
    using arg_cong [where f = "\<lambda>w. bit w n", OF eq] that by (simp add: bit_simps)
  moreover have "bit (b XOR b') n = bit 0 n" if "n < 8" for n
    using arg_cong [where f = "\<lambda>w. bit w (8 + n)", OF eq] that
    by (auto simp: bit_simps dest: bit_imp_le_length)
  ultimately have "a XOR a' = 0 \<and> b XOR b' = 0"
    by (intro conjI bit_word_eqI) simp_all
  then show ?thesis by simp
qed

section \<open>Properties\<close>

text \<open>
  C29. The table variant and the arithmetic variant of the checksum, between which Kconfig
  chooses, compute the same value on every input.
\<close>

theorem crc16_variants_agree:
  "calculate_modbus_crc16_lut data = calculate_modbus_crc16_arith data"
  by (simp add: calculate_modbus_crc16_lut_arith)

text \<open>
  A message followed by two bytes has checksum 0 exactly when the two bytes are its own
  checksum, low byte first: what a Modbus receiver relies on.
\<close>

theorem crc16_residue:
  "calculate_modbus_crc16_lut (data @ [lo, hi]) = 0
     \<longleftrightarrow> of_le16 [lo, hi] = calculate_modbus_crc16_lut data"
  using crc16_append2_eq_0 [of data lo hi] by auto

lemma crc16_lut_burst:
  "(a, b) \<noteq> (a', b') \<Longrightarrow> calculate_modbus_crc16_lut (pre @ [a, b] @ post)
     \<noteq> calculate_modbus_crc16_lut (pre @ [a', b'] @ post)"
  using crc_two_bytes_inj
  by (auto simp: calculate_modbus_crc16_lut_arith calculate_modbus_crc16_arith_def foldl_crc_inj)

text \<open>
  C30. Every corruption confined to two adjacent bytes changes the checksum, wherever it
  happens in the message.
\<close>

theorem crc16_detects_two_byte_burst:
  assumes "(a, b) \<noteq> (a', b')"
  shows "calculate_modbus_crc16_lut (pre @ [a, b] @ post)
    \<noteq> calculate_modbus_crc16_lut (pre @ [a', b'] @ post)"
  by (rule crc16_lut_burst [OF assms])

lemma crc16_detects_two_byte_burst_witness:
  "calculate_modbus_crc16_lut ([1, 3] @ [0, 16] @ [0, 2])
    \<noteq> calculate_modbus_crc16_lut ([1, 3] @ [0, 17] @ [0, 2])"
  by (rule crc16_detects_two_byte_burst) simp

end
