(* ===== verification/Modbus_Parser.thy ===== *)
theory Modbus_Parser imports Utils_Crc begin

text \<open>
  The frame check of \<open>components/modbus_analyzer/modbus_parser.c\<close>, on the memory from
  \<open>data_ptr\<close> on. \<open>None\<close> means that the code would read outside that memory.
\<close>

definition MODBUS_PARSER_MINIMUM_FRAME_LENGTH :: nat where
  "MODBUS_PARSER_MINIMUM_FRAME_LENGTH = 4"

definition modbus_parser_check_crc :: "bytes option \<Rightarrow> nat \<Rightarrow> esp_err option" where
  "modbus_parser_check_crc data_ptr len =
     (case data_ptr of
        None \<Rightarrow> Some ESP_ERR_INVALID_ARG
      | Some data \<Rightarrow>
          if len < MODBUS_PARSER_MINIMUM_FRAME_LENGTH then Some ESP_ERR_INVALID_SIZE
          else if length data < len then None
          else case calculate_modbus_crc16 data (len - 2) of
              None \<Rightarrow> None
            | Some calc \<Rightarrow>
                let recv = push_bit 8 (ucast (data ! (len - 1))) OR ucast (data ! (len - 2))
                in Some (if calc = recv then ESP_OK else ESP_ERR_INVALID_CRC))"

lemma take_split_last2:
  assumes "2 \<le> n" and "n \<le> length xs"
  shows "take n xs = take (n - 2) xs @ [xs ! (n - 2), xs ! (n - 1)]"
proof -
  obtain m where n: "n = Suc (Suc m)" using assms(1) by (metis Suc_le_D numeral_2_eq_2 Suc_le_mono)
  then show ?thesis using assms by (simp add: take_Suc_conv_app_nth)
qed

lemma check_crc_in_range:
  assumes "4 \<le> n" and "n \<le> length data"
  shows "modbus_parser_check_crc (Some data) n =
    Some (if calculate_modbus_crc16_lut (take n data) = 0 then ESP_OK else ESP_ERR_INVALID_CRC)"
proof -
  have "(push_bit 8 (ucast (data ! (n - 1))) OR ucast (data ! (n - 2)) :: u16)
      = of_le16 [data ! (n - 2), data ! (n - 1)]"
    by (simp add: of_le16_def or.commute)
  moreover have "take n data = take (n - 2) data @ [data ! (n - 2), data ! (n - 1)]"
    using assms by (intro take_split_last2) auto
  ultimately show ?thesis using assms
    by (auto simp: modbus_parser_check_crc_def MODBUS_PARSER_MINIMUM_FRAME_LENGTH_def
        crc16_in_range crc16_append2_eq_0)
qed

section \<open>Properties\<close>

text \<open>
  A frame of at least four bytes is accepted exactly when the checksum over the whole
  frame, its two trailing bytes included, is 0; a shorter frame is refused by its size, a
  missing one as an invalid argument; no byte outside the frame is read.
\<close>

theorem modbus_parser_check_crc_spec:
  assumes "n \<le> length data"
  shows "modbus_parser_check_crc (Some data) n = Some
      (if n < 4 then ESP_ERR_INVALID_SIZE
       else if calculate_modbus_crc16_lut (take n data) = 0 then ESP_OK
       else ESP_ERR_INVALID_CRC)
    \<and> modbus_parser_check_crc None n = Some ESP_ERR_INVALID_ARG"
  using assms check_crc_in_range [of n data]
  by (auto simp: modbus_parser_check_crc_def MODBUS_PARSER_MINIMUM_FRAME_LENGTH_def)

lemma modbus_parser_check_crc_spec_witness:
  "modbus_parser_check_crc (Some [1, 3, 0, 16, 0, 2, 0xC5, 0xCE]) 8 = Some
      (if (8::nat) < 4 then ESP_ERR_INVALID_SIZE
       else if calculate_modbus_crc16_lut (take 8 [1, 3, 0, 16, 0, 2, 0xC5, 0xCE]) = 0 then ESP_OK
       else ESP_ERR_INVALID_CRC)
    \<and> modbus_parser_check_crc None 8 = Some ESP_ERR_INVALID_ARG"
  by (rule modbus_parser_check_crc_spec) simp

end
