(* ===== verification/Rtos.thy ===== *)
theory Rtos imports Prelude begin

text \<open>
  What the sources use of FreeRTOS. A queue is a parameter: a record of the three operations the
  code calls over a storage of any type, with its documented behaviour as the predicate
  \<open>queue_laws\<close>; \<open>list_queue\<close> is a storage that has it. Task notifications are the
  32-bit value that \<open>xTaskNotify\<close> and \<open>xTaskNotifyWait\<close> share.
\<close>

section \<open>Queues\<close>

record ('q, 'a) rtos_queue =
  q_send :: "'a \<Rightarrow> 'q \<Rightarrow> bool \<times> 'q"
  q_receive :: "'q \<Rightarrow> ('a \<times> 'q) option"
  q_waiting :: "'q \<Rightarrow> nat"

text \<open>
  A send with no wait appends when fewer than \<open>cap\<close> items wait and fails otherwise; a
  receive with no wait takes the oldest item, or reports that there is none.
\<close>

definition queue_laws :: "('q, 'a, 'z) rtos_queue_scheme \<Rightarrow> ('q \<Rightarrow> 'a list) \<Rightarrow> nat \<Rightarrow> bool" where
  "queue_laws Q items cap \<longleftrightarrow>
     (\<forall>q x. length (items q) < cap \<longrightarrow> fst (q_send Q x q) \<and> items (snd (q_send Q x q)) = items q @ [x])
   \<and> (\<forall>q x. cap \<le> length (items q) \<longrightarrow> \<not> fst (q_send Q x q) \<and> items (snd (q_send Q x q)) = items q)
   \<and> (\<forall>q. case q_receive Q q of None \<Rightarrow> items q = [] | Some (x, q') \<Rightarrow> items q = x # items q')
   \<and> (\<forall>q. q_waiting Q q = length (items q))"

lemma queue_send_room:
  assumes "queue_laws Q items cap" and "length (items q) < cap"
  shows "\<exists>q'. q_send Q x q = (True, q') \<and> items q' = items q @ [x]"
proof -
  have "fst (q_send Q x q) \<and> items (snd (q_send Q x q)) = items q @ [x]"
    using assms by (simp add: queue_laws_def)
  then show ?thesis by (cases "q_send Q x q") auto
qed

lemma queue_send_full:
  assumes "queue_laws Q items cap" and "cap \<le> length (items q)"
  shows "\<exists>q'. q_send Q x q = (False, q') \<and> items q' = items q"
proof -
  have "\<not> fst (q_send Q x q) \<and> items (snd (q_send Q x q)) = items q"
    using assms by (simp add: queue_laws_def)
  then show ?thesis by (cases "q_send Q x q") auto
qed

lemma queue_receive_Nil:
  assumes "queue_laws Q items cap" and "items q = []"
  shows "q_receive Q q = None"
proof -
  have "case q_receive Q q of None \<Rightarrow> items q = [] | Some (x, q') \<Rightarrow> items q = x # items q'"
    using assms(1) by (simp add: queue_laws_def)
  with assms(2) show ?thesis by (auto split: option.splits)
qed

lemma queue_receive_Cons:
  assumes "queue_laws Q items cap" and "items q = x # xs"
  shows "\<exists>q'. q_receive Q q = Some (x, q') \<and> items q' = xs"
proof -
  have "case q_receive Q q of None \<Rightarrow> items q = [] | Some (x, q') \<Rightarrow> items q = x # items q'"
    using assms(1) by (simp add: queue_laws_def)
  with assms(2) show ?thesis by (auto split: option.splits)
qed

lemma queue_waiting: "queue_laws Q items cap \<Longrightarrow> q_waiting Q q = length (items q)"
  by (simp add: queue_laws_def)

definition list_queue :: "nat \<Rightarrow> ('a list, 'a) rtos_queue" where
  "list_queue cap =
     \<lparr>q_send = (\<lambda>x q. if length q < cap then (True, q @ [x]) else (False, q)),
      q_receive = (\<lambda>q. case q of [] \<Rightarrow> None | x # xs \<Rightarrow> Some (x, xs)),
      q_waiting = length\<rparr>"

lemma list_queue_laws: "queue_laws (list_queue cap) (\<lambda>q. q) cap"
  by (simp add: queue_laws_def list_queue_def split: list.split)

lemma list_queue_simps [simp]:
  "q_send (list_queue cap) x q = (if length q < cap then (True, q @ [x]) else (False, q))"
  "q_receive (list_queue cap) [] = None"
  "q_receive (list_queue cap) (x # q) = Some (x, q)"
  "q_waiting (list_queue cap) q = length q"
  by (simp_all add: list_queue_def)

text \<open>
  The same calls at the level of memory: a send copies the queue's item size from the sender's
  object, a receive copies the item over the first bytes of the receiver's object.
\<close>

definition xQueueSend :: "('q, bytes, 'z) rtos_queue_scheme \<Rightarrow> nat \<Rightarrow> bytes \<Rightarrow> 'q \<Rightarrow> bool \<times> 'q" where
  "xQueueSend Q item_size obj q = q_send Q (take item_size obj) q"

definition xQueueReceive :: "('q, bytes, 'z) rtos_queue_scheme \<Rightarrow> bytes \<Rightarrow> 'q \<Rightarrow> (bytes \<times> 'q) option" where
  "xQueueReceive Q obj q =
     (case q_receive Q q of None \<Rightarrow> None | Some (x, q') \<Rightarrow> Some (x @ drop (length x) obj, q'))"

section \<open>Task notifications\<close>

text \<open>
  A task handle stands for a task with its pending notification value, or for no task: it is null,
  or it was left behind by a task that has ended, because the tasks end with \<open>vTaskDelete (NULL)\<close>
  and nothing clears their handles. Notifying a null handle fails an assertion of the kernel, which
  aborts, and notifying one that was left behind is undefined: the result is \<open>None\<close>. What the sources
  do on a comparison of such a handle with null is modelled for a null handle only.
\<close>

type_synonym task_handle = "u32 option"

definition xTaskNotify :: "u32 \<Rightarrow> task_handle \<Rightarrow> task_handle option" where
  "xTaskNotify bits h = (case h of None \<Rightarrow> None | Some v \<Rightarrow> Some (Some (v OR bits)))"

text \<open>The wait of every task clears all bits and hands out the value.\<close>

definition xTaskNotifyWait :: "u32 \<Rightarrow> u32 \<times> u32" where
  "xTaskNotifyWait v = (v, 0)"

lemma xTaskNotify_simps [simp]:
  "xTaskNotify bits None = None" "xTaskNotify bits (Some v) = Some (Some (v OR bits))"
  by (simp_all add: xTaskNotify_def)

end
