(* ===== verification/Event_Bus.thy ===== *)
theory Event_Bus imports Rtos begin

text \<open>
  The event bus of \<open>components/event_bus/event_bus.c\<close>: a queue of events, a table of eight
  subscribers, and the task that hands every event to the subscribers of its type. Events go
  through the queue as bytes, so an event is also modelled as its 24-byte object: the type, the
  payload, the size, four bytes of padding and the 64-bit time. A callback is a function on the
  state that the subscribers share.
\<close>

section \<open>Events and their objects\<close>

record event_bus_t =
  event_type :: u32
  payload_data :: u32
  event_size :: u32
  event_timestamp_us :: "64 word"

definition EVENT_BUS_EVENT_ERROR :: u32 where "EVENT_BUS_EVENT_ERROR = 0"

definition event_image :: "event_bus_t \<Rightarrow> bytes" where
  "event_image e = le32 (event_type e) @ le32 (payload_data e) @ le32 (event_size e) @ le32 0
     @ le32 (ucast (event_timestamp_us e)) @ le32 (ucast (drop_bit 32 (event_timestamp_us e)))"

definition event_of_image :: "bytes \<Rightarrow> event_bus_t" where
  "event_of_image b = \<lparr>event_type = of_le32 (take 4 b), payload_data = of_le32 (take 4 (drop 4 b)),
     event_size = of_le32 (take 4 (drop 8 b)),
     event_timestamp_us = ucast (of_le32 (take 4 (drop 16 b))) OR push_bit 32 (ucast (of_le32 (take 4 (drop 20 b))))\<rparr>"

definition SIZEOF_EVENT_BUS_T :: nat where "SIZEOF_EVENT_BUS_T = 24"
definition SIZEOF_EVENT_BUS_EVENT_T :: nat where "SIZEOF_EVENT_BUS_EVENT_T = 4"

lemma length_event_image [simp]: "length (event_image e) = SIZEOF_EVENT_BUS_T"
  by (simp add: event_image_def SIZEOF_EVENT_BUS_T_def)

lemma le64_halves:
  "ucast (ucast x :: u32) OR push_bit 32 (ucast (ucast (drop_bit 32 x) :: u32)) = (x :: 64 word)"
proof (rule bit_word_eqI)
  fix n assume "n < LENGTH(64)"
  then show "bit (ucast (ucast x :: u32) OR push_bit 32 (ucast (ucast (drop_bit 32 x) :: u32)) :: 64 word) n = bit x n"
    by (cases "n < 32") (auto simp: bit_simps)
qed

lemma event_of_image_event_image [simp]: "event_of_image (event_image e) = e"
  by (simp add: event_of_image_def event_image_def le64_halves)

section \<open>State\<close>

record 's subscriber =
  sub_type :: u32
  sub_cb :: "(event_bus_t \<Rightarrow> nat \<Rightarrow> 's \<Rightarrow> 's) option"
  sub_ctx :: nat

definition EVENT_BUS_MAX_SUBSCRIBERS :: nat where "EVENT_BUS_MAX_SUBSCRIBERS = 8"

definition zero_subscribers :: "'s subscriber list" where
  "zero_subscribers = replicate EVENT_BUS_MAX_SUBSCRIBERS \<lparr>sub_type = 0, sub_cb = None, sub_ctx = 0\<rparr>"

text \<open>The queue handle carries the item size the queue was created with.\<close>

record ('q, 's) event_bus =
  event_queue :: "('q \<times> nat) option"
  subscribers :: "'s subscriber list"
  event_bus_task_handle :: task_handle

definition EVENT_BUS_TASK_NOTIFY_STOP_BIT :: u32 where "EVENT_BUS_TASK_NOTIFY_STOP_BIT = 1"
definition EVENT_BUS_TASK_NOTIFY_event_available_BIT :: u32 where
  "EVENT_BUS_TASK_NOTIFY_event_available_BIT = 2"

section \<open>Operations\<close>

definition event_bus_deinit :: "('q, 's) event_bus \<Rightarrow> ('q, 's) event_bus" where
  "event_bus_deinit b = b\<lparr>event_queue := None, subscribers := zero_subscribers\<rparr>"

text \<open>\<open>create n sz\<close> is what \<open>xQueueCreate\<close> returns.\<close>

definition event_bus_init ::
    "(nat \<Rightarrow> nat \<Rightarrow> 'q option) \<Rightarrow> nat \<Rightarrow> ('q, 's) event_bus \<Rightarrow> esp_err \<times> ('q, 's) event_bus" where
  "event_bus_init create queue_size b =
     (if queue_size = 0 then (ESP_ERR_INVALID_ARG, event_bus_deinit b)
      else (case create queue_size SIZEOF_EVENT_BUS_EVENT_T of
              None \<Rightarrow> (ESP_ERR_NO_MEM, event_bus_deinit (b\<lparr>event_queue := None\<rparr>))
            | Some q \<Rightarrow> (ESP_OK, b\<lparr>event_queue := Some (q, SIZEOF_EVENT_BUS_EVENT_T),
                              subscribers := zero_subscribers\<rparr>)))"

definition event_bus_publish ::
    "('q, bytes) rtos_queue \<Rightarrow> event_bus_t option \<Rightarrow> ('q, 's) event_bus \<Rightarrow> (bool \<times> ('q, 's) event_bus) option" where
  "event_bus_publish Q event_ptr b =
     (case (event_ptr, event_queue b) of
        (Some e, Some (q, item_size)) \<Rightarrow>
          (case xQueueSend Q item_size (event_image e) q of
             (False, q') \<Rightarrow> Some (False, b\<lparr>event_queue := Some (q', item_size)\<rparr>)
           | (True, q') \<Rightarrow>
               (case xTaskNotify EVENT_BUS_TASK_NOTIFY_event_available_BIT (event_bus_task_handle b) of
                  None \<Rightarrow> None
                | Some h \<Rightarrow> Some (True, b\<lparr>event_queue := Some (q', item_size), event_bus_task_handle := h\<rparr>)))
      | _ \<Rightarrow> Some (False, b))"

fun first_free :: "nat \<Rightarrow> 's subscriber list \<Rightarrow> nat option" where
  "first_free idx [] = None"
| "first_free idx (s # ss) = (if sub_cb s = None then Some idx else first_free (idx + 1) ss)"

definition event_bus_subscribe ::
    "u32 \<Rightarrow> (event_bus_t \<Rightarrow> nat \<Rightarrow> 's \<Rightarrow> 's) option \<Rightarrow> nat \<Rightarrow> ('q, 's) event_bus \<Rightarrow> int \<times> ('q, 's) event_bus" where
  "event_bus_subscribe type cb ctx b =
     (case first_free 0 (subscribers b) of
        None \<Rightarrow> (-1, b)
      | Some idx \<Rightarrow> (int idx, b\<lparr>subscribers := (subscribers b)
                       [idx := \<lparr>sub_type = type, sub_cb = cb, sub_ctx = ctx\<rparr>]\<rparr>))"

definition event_bus_unsubscribe :: "int \<Rightarrow> ('q, 's) event_bus \<Rightarrow> bool \<times> ('q, 's) event_bus" where
  "event_bus_unsubscribe slot b =
     (if 0 \<le> slot \<and> slot < int EVENT_BUS_MAX_SUBSCRIBERS
      then (True, b\<lparr>subscribers := (subscribers b)
              [nat slot := (subscribers b ! nat slot)\<lparr>sub_cb := None, sub_ctx := 0\<rparr>]\<rparr>)
      else (False, b))"

text \<open>The inner loop of the task: one event to every subscriber of its type, in slot order.\<close>

fun event_bus_dispatch :: "'s subscriber list \<Rightarrow> event_bus_t \<Rightarrow> 's \<Rightarrow> 's" where
  "event_bus_dispatch [] e st = st"
| "event_bus_dispatch (s # ss) e st = event_bus_dispatch ss e
     (case sub_cb s of None \<Rightarrow> st | Some cb \<Rightarrow> if sub_type s = event_type e then cb e (sub_ctx s) st else st)"

text \<open>
  The outer loop of the task: receive into the task's event object until the queue is empty. The
  object \<open>obj\<close> is a local of the task, so it keeps the bytes a receive does not overwrite.
\<close>

partial_function (option) event_bus_drain ::
    "('q, bytes) rtos_queue \<Rightarrow> 's subscriber list \<Rightarrow> bytes \<Rightarrow> 'q \<Rightarrow> 's \<Rightarrow> (bytes \<times> 'q \<times> 's) option" where
  "event_bus_drain Q subs obj q st =
     (case xQueueReceive Q obj q of
        None \<Rightarrow> Some (obj, q, st)
      | Some (obj', q') \<Rightarrow> event_bus_drain Q subs obj' q' (event_bus_dispatch subs (event_of_image obj') st))"

datatype 'a task_outcome = Task_continues 'a | Task_deleted 'a

text \<open>
  One turn of the task after its wait returned; a turn that finds the stop bit deletes the
  task. A null queue handle is undefined.
\<close>

definition event_bus_task_turn ::
    "('q, bytes) rtos_queue \<Rightarrow> bytes \<Rightarrow> ('q, 's) event_bus \<Rightarrow> 's \<Rightarrow> (bytes \<times> ('q, 's) event_bus \<times> 's) task_outcome option" where
  "event_bus_task_turn Q obj b st =
     (case event_bus_task_handle b of
        None \<Rightarrow> None
      | Some pending \<Rightarrow>
          let (notified, rest) = xTaskNotifyWait pending in
          if notified AND EVENT_BUS_TASK_NOTIFY_STOP_BIT \<noteq> 0
          then Some (Task_deleted (obj, b\<lparr>event_bus_task_handle := None\<rparr>, st))
          else (case event_queue b of
                  None \<Rightarrow> None
                | Some (q, item_size) \<Rightarrow>
                    (case event_bus_drain Q (subscribers b) obj q st of
                       None \<Rightarrow> None
                     | Some (obj', q', st') \<Rightarrow> Some (Task_continues (obj',
                         b\<lparr>event_bus_task_handle := Some rest, event_queue := Some (q', item_size)\<rparr>, st')))))"

definition event_bus_stop_task :: "('q, 's) event_bus \<Rightarrow> ('q, 's) event_bus" where
  "event_bus_stop_task b =
     (case xTaskNotify EVENT_BUS_TASK_NOTIFY_STOP_BIT (event_bus_task_handle b) of
        None \<Rightarrow> b
      | Some h \<Rightarrow> b\<lparr>event_bus_task_handle := h\<rparr>)"

section \<open>The subscriber table\<close>

lemma length_zero_subscribers [simp]: "length zero_subscribers = EVENT_BUS_MAX_SUBSCRIBERS"
  by (simp add: zero_subscribers_def)

lemma zero_subscribers_Cons:
  "zero_subscribers = \<lparr>sub_type = 0, sub_cb = None, sub_ctx = 0\<rparr>
     # replicate 7 \<lparr>sub_type = 0, sub_cb = None, sub_ctx = 0\<rparr>"
  by (simp add: zero_subscribers_def EVENT_BUS_MAX_SUBSCRIBERS_def numeral_eq_Suc)

lemma event_bus_dispatch_none [simp]:
  "sub_cb s = None \<Longrightarrow> event_bus_dispatch (replicate n s) e st = st"
  by (induction n) auto

text \<open>The first subscription after the initialisation takes slot 0.\<close>

lemma event_bus_subscribe_first:
  "subscribers b = zero_subscribers \<Longrightarrow> event_bus_subscribe t cb c b
     = (0, b\<lparr>subscribers := zero_subscribers[0 := \<lparr>sub_type = t, sub_cb = cb, sub_ctx = c\<rparr>]\<rparr>)"
  by (simp add: event_bus_subscribe_def zero_subscribers_Cons)

lemma event_bus_dispatch_first:
  "event_bus_dispatch (zero_subscribers[0 := \<lparr>sub_type = t, sub_cb = Some cb, sub_ctx = c\<rparr>]) e st
     = (if event_type e = t then cb e c st else st)"
  by (simp add: zero_subscribers_Cons)

lemma first_free_None: "first_free k ss = None \<longleftrightarrow> (\<forall>s \<in> set ss. sub_cb s \<noteq> None)"
  by (induction ss arbitrary: k) auto

lemma first_free_Some:
  "first_free k ss = Some i \<Longrightarrow> k \<le> i \<and> i < k + length ss \<and> sub_cb (ss ! (i - k)) = None
     \<and> (\<forall>j < i - k. sub_cb (ss ! j) \<noteq> None)"
proof (induction ss arbitrary: k)
  case (Cons s ss)
  show ?case
  proof (cases "sub_cb s = None")
    case True
    with Cons.prems show ?thesis by simp
  next
    case False
    with Cons.prems have "first_free (k + 1) ss = Some i" by simp
    note IH = Cons.IH [OF this]
    then obtain m where m: "i - k = Suc m" "i - (k + 1) = m" by (cases "i - k") auto
    show ?thesis using IH False m by (auto simp: less_Suc_eq_0_disj)
  qed
qed simp

section \<open>Delivery\<close>

lemma event_bus_dispatch_append:
  "event_bus_dispatch (xs @ ys) e st = event_bus_dispatch ys e (event_bus_dispatch xs e st)"
  by (induction xs arbitrary: st) auto

text \<open>What a turn of the task hands out, from the items in the queue and the task's object.\<close>

fun event_bus_deliver :: "'s subscriber list \<Rightarrow> bytes list \<Rightarrow> bytes \<Rightarrow> 's \<Rightarrow> bytes \<times> 's" where
  "event_bus_deliver subs [] obj st = (obj, st)"
| "event_bus_deliver subs (x # xs) obj st =
     (let obj' = x @ drop (length x) obj
      in event_bus_deliver subs xs obj' (event_bus_dispatch subs (event_of_image obj') st))"

lemma event_bus_drain_items:
  assumes "queue_laws Q items cap"
  shows "\<exists>q'. event_bus_drain Q subs obj q st
      = Some (fst (event_bus_deliver subs (items q) obj st), q', snd (event_bus_deliver subs (items q) obj st))
    \<and> items q' = []"
proof (induction "items q" arbitrary: q obj st)
  case Nil
  then show ?case using queue_receive_Nil [OF assms, of q]
    by (subst event_bus_drain.simps) (simp add: xQueueReceive_def)
next
  case (Cons x xs)
  obtain q' where q': "q_receive Q q = Some (x, q')" "items q' = xs"
    using queue_receive_Cons [OF assms Cons.hyps(2) [symmetric]] by blast
  let ?o = "x @ drop (length x) obj"
  have "event_bus_drain Q subs obj q st
    = event_bus_drain Q subs ?o q' (event_bus_dispatch subs (event_of_image ?o) st)"
    using q' by (subst event_bus_drain.simps) (simp add: xQueueReceive_def)
  with Cons.hyps(1) [of q' ?o "event_bus_dispatch subs (event_of_image ?o) st"] q' Cons.hyps(2) [symmetric]
  show ?case by (simp add: Let_def)
qed

text \<open>An item of four bytes overwrites the type of the task's object and nothing else.\<close>

lemma take_event_image_4: "take 4 (event_image e) = le32 (event_type e)"
  by (simp add: event_image_def)

lemma event_of_image_type:
  "4 \<le> length obj \<Longrightarrow> event_of_image (le32 t @ drop 4 obj) = (event_of_image obj)\<lparr>event_type := t\<rparr>"
  by (simp add: event_of_image_def)

lemma event_bus_deliver_types:
  assumes "4 \<le> length obj"
  shows "snd (event_bus_deliver subs (map (\<lambda>e. take 4 (event_image e)) es) obj st)
    = fold (\<lambda>e. event_bus_dispatch subs ((event_of_image obj)\<lparr>event_type := event_type e\<rparr>)) es st"
  using assms
proof (induction es arbitrary: obj st)
  case (Cons e es)
  let ?o = "le32 (event_type e) @ drop 4 obj"
  have "4 \<le> length ?o" by simp
  from Cons.IH [OF this, of "event_bus_dispatch subs (event_of_image ?o) st"]
  show ?case using Cons.prems by (simp add: take_event_image_4 event_of_image_type Let_def)
qed simp

fun event_bus_publish_all ::
    "('q, bytes) rtos_queue \<Rightarrow> event_bus_t list \<Rightarrow> ('q, 's) event_bus \<Rightarrow> ('q, 's) event_bus option" where
  "event_bus_publish_all Q [] b = Some b"
| "event_bus_publish_all Q (e # es) b =
     (case event_bus_publish Q (Some e) b of
        Some (True, b') \<Rightarrow> event_bus_publish_all Q es b' | _ \<Rightarrow> None)"

lemma event_bus_publish_room:
  assumes "queue_laws Q items cap" and "event_queue b = Some (q, sz)" and "length (items q) < cap"
    and "event_bus_task_handle b = Some v"
  shows "\<exists>q'. event_bus_publish Q (Some e) b = Some (True, b\<lparr>event_queue := Some (q', sz),
      event_bus_task_handle := Some (v OR EVENT_BUS_TASK_NOTIFY_event_available_BIT)\<rparr>)
    \<and> items q' = items q @ [take sz (event_image e)]"
proof -
  obtain q' where "q_send Q (take sz (event_image e)) q = (True, q')"
    "items q' = items q @ [take sz (event_image e)]"
    using queue_send_room [OF assms(1,3)] by blast
  with assms show ?thesis by (intro exI [of _ q']) (simp add: event_bus_publish_def xQueueSend_def)
qed

lemma event_bus_publish_all_room:
  assumes "queue_laws Q items cap" and "event_queue b = Some (q, sz)" and "length (items q) + length es \<le> cap"
    and "event_bus_task_handle b = Some v" and "v AND EVENT_BUS_TASK_NOTIFY_STOP_BIT = 0"
  shows "\<exists>b' q' v'. event_bus_publish_all Q es b = Some b' \<and> event_queue b' = Some (q', sz)
    \<and> items q' = items q @ map (\<lambda>e. take sz (event_image e)) es \<and> subscribers b' = subscribers b
    \<and> event_bus_task_handle b' = Some v' \<and> v' AND EVENT_BUS_TASK_NOTIFY_STOP_BIT = 0"
  using assms(2-)
proof (induction es arbitrary: b q v)
  case (Cons e es)
  from Cons.prems have "length (items q) < cap" by simp
  from event_bus_publish_room [OF assms(1) Cons.prems(1) this Cons.prems(3), of e] obtain q1 where
    p: "event_bus_publish Q (Some e) b = Some (True, b\<lparr>event_queue := Some (q1, sz),
      event_bus_task_handle := Some (v OR EVENT_BUS_TASK_NOTIFY_event_available_BIT)\<rparr>)"
    and q1: "items q1 = items q @ [take sz (event_image e)]" by blast
  let ?v = "v OR EVENT_BUS_TASK_NOTIFY_event_available_BIT"
  have "?v AND EVENT_BUS_TASK_NOTIFY_STOP_BIT = 0"
    using Cons.prems(4) by (simp add: EVENT_BUS_TASK_NOTIFY_STOP_BIT_def
      EVENT_BUS_TASK_NOTIFY_event_available_BIT_def bit.conj_disj_distrib2)
  from Cons.IH [of "b\<lparr>event_queue := Some (q1, sz), event_bus_task_handle := Some ?v\<rparr>" q1 ?v] this
  show ?case using p q1 Cons.prems by simp
qed simp

section \<open>Properties\<close>

text \<open>
  Subscribing takes the lowest slot without a callback and leaves the other seven alone; it
  is refused, with nothing changed, only when all eight slots have one; unsubscribing the slot
  makes it free again.
\<close>

theorem event_bus_subscribe_spec:
  assumes "length (subscribers b) = 8"
  shows "case event_bus_subscribe type (Some cb) ctx b of (slot, b') \<Rightarrow>
    if \<exists>i < 8. sub_cb (subscribers b ! i) = None
    then \<exists>i < 8. slot = int i \<and> sub_cb (subscribers b ! i) = None
       \<and> (\<forall>j < i. sub_cb (subscribers b ! j) \<noteq> None)
       \<and> subscribers b' = (subscribers b)[i := \<lparr>sub_type = type, sub_cb = Some cb, sub_ctx = ctx\<rparr>]
       \<and> fst (event_bus_unsubscribe slot b')
       \<and> map sub_cb (subscribers (snd (event_bus_unsubscribe slot b'))) = map sub_cb (subscribers b)
    else slot = -1 \<and> b' = b"
proof (cases "first_free 0 (subscribers b)")
  case None
  then have "\<not> (\<exists>i < 8. sub_cb (subscribers b ! i) = None)"
    using assms by (auto simp: first_free_None)
  with None show ?thesis by (simp add: event_bus_subscribe_def)
next
  case (Some i)
  note ff = first_free_Some [OF Some]
  with assms have i: "i < 8" "sub_cb (subscribers b ! i) = None" by simp_all
  then have ex: "\<exists>i < 8. sub_cb (subscribers b ! i) = None" by blast
  let ?b = "b\<lparr>subscribers := (subscribers b)[i := \<lparr>sub_type = type, sub_cb = Some cb, sub_ctx = ctx\<rparr>]\<rparr>"
  have sub: "event_bus_subscribe type (Some cb) ctx b = (int i, ?b)"
    using Some by (simp add: event_bus_subscribe_def)
  have "map sub_cb (subscribers (snd (event_bus_unsubscribe (int i) ?b))) = map sub_cb (subscribers b)"
    using i assms by (intro nth_equalityI)
      (auto simp: event_bus_unsubscribe_def EVENT_BUS_MAX_SUBSCRIBERS_def nth_list_update)
  moreover have "fst (event_bus_unsubscribe (int i) ?b)"
    using i by (simp add: event_bus_unsubscribe_def EVENT_BUS_MAX_SUBSCRIBERS_def)
  ultimately show ?thesis unfolding sub prod.case if_P [OF ex]
    by (intro exI [of _ i]) (use ff i in simp)
qed

definition event_bus_example :: "(bytes list, u32 list) event_bus" where
  "event_bus_example = \<lparr>event_queue = None, subscribers = zero_subscribers, event_bus_task_handle = Some 0\<rparr>"

lemma event_bus_subscribe_spec_witness:
  "fst (event_bus_subscribe 0 (Some (\<lambda>_ _ st. st)) 0 event_bus_example) \<noteq> -1"
proof -
  have 8: "length (subscribers event_bus_example) = 8"
    by (simp add: event_bus_example_def EVENT_BUS_MAX_SUBSCRIBERS_def)
  have "sub_cb (subscribers event_bus_example ! 0) = None"
    by (simp add: event_bus_example_def zero_subscribers_def EVENT_BUS_MAX_SUBSCRIBERS_def)
  then have "\<exists>i < 8. sub_cb (subscribers event_bus_example ! i) = None" by (intro exI [of _ 0]) simp
  with event_bus_subscribe_spec [OF 8, of 0 "\<lambda>_ _ st. st" 0] show ?thesis
    by (auto split: prod.splits)
qed

text \<open>
  The queue that \<open>event_bus_init\<close> creates holds items of the size of the event's type, four
  bytes, while a publish hands over a 24-byte event. So every event that is published reaches the
  subscribers of its type once and in order, but with the payload, the size and the time that the
  task's own object happened to hold: what the publisher put there is lost.
\<close>

theorem event_bus_payload_lost:
  assumes Q: "queue_laws Q items n" and new: "\<forall>sz q. create n sz = Some q \<longrightarrow> items q = []"
    and init: "event_bus_init create n b0 = (ESP_OK, b)"
    and task: "event_bus_task_handle b0 = Some 0"
    and es: "length es \<le> n" and obj: "length obj = SIZEOF_EVENT_BUS_T"
  shows "\<exists>b1 b2 obj'. event_bus_publish_all Q es (b\<lparr>subscribers := subs\<rparr>) = Some b1
    \<and> event_bus_task_turn Q obj b1 st = Some (Task_continues (obj', b2,
        fold (\<lambda>e. event_bus_dispatch subs ((event_of_image obj)\<lparr>event_type := event_type e\<rparr>)) es st))"
proof -
  obtain q where q: "create n SIZEOF_EVENT_BUS_EVENT_T = Some q" and
    b: "b = b0\<lparr>event_queue := Some (q, SIZEOF_EVENT_BUS_EVENT_T), subscribers := zero_subscribers\<rparr>"
    using init by (auto simp: event_bus_init_def split: if_splits option.splits)
  have "items q = []" using new q by blast
  then have room: "length (items q) + length es \<le> n" using es by simp
  let ?b = "b\<lparr>subscribers := subs\<rparr>"
  obtain b' q' v' where pub: "event_bus_publish_all Q es ?b = Some b'"
      "event_queue b' = Some (q', 4)" "subscribers b' = subs" "event_bus_task_handle b' = Some v'"
      "v' AND EVENT_BUS_TASK_NOTIFY_STOP_BIT = 0"
    and items: "items q' = map (\<lambda>e. take 4 (event_image e)) es"
    using event_bus_publish_all_room [OF Q _ room, of ?b 4 0] task b \<open>items q = []\<close>
    by (auto simp: SIZEOF_EVENT_BUS_EVENT_T_def)
  obtain q2 where "event_bus_drain Q subs obj q' st = Some (fst (event_bus_deliver subs (items q') obj st),
      q2, fold (\<lambda>e. event_bus_dispatch subs ((event_of_image obj)\<lparr>event_type := event_type e\<rparr>)) es st)"
    using event_bus_drain_items [OF Q, of subs obj q' st] event_bus_deliver_types [of obj subs es st] obj items
    by (auto simp: SIZEOF_EVENT_BUS_T_def)
  with pub show ?thesis by (auto simp: event_bus_task_turn_def xTaskNotifyWait_def)
qed

lemma event_bus_payload_lost_witness:
  "\<exists>b1 b2 obj'. event_bus_publish_all (list_queue 4) [\<lparr>event_type = 0, payload_data = 2, event_size = 4,
        event_timestamp_us = 9\<rparr>] (snd (event_bus_init (\<lambda>_ _. Some []) 4 event_bus_example)) = Some b1
    \<and> event_bus_task_turn (list_queue 4) (replicate 24 0) b1 [] = Some (Task_continues (obj', b2, []))"
proof -
  have init: "event_bus_init (\<lambda>_ _. Some []) 4 event_bus_example
      = (ESP_OK, event_bus_example\<lparr>event_queue := Some ([], 4)\<rparr>)"
    by (simp add: event_bus_init_def event_bus_example_def SIZEOF_EVENT_BUS_EVENT_T_def)
  from event_bus_payload_lost [OF list_queue_laws _ init, where subs = zero_subscribers and obj = "replicate 24 0"
      and es = "[\<lparr>event_type = 0, payload_data = 2, event_size = 4, event_timestamp_us = 9\<rparr>]" and st = "[]"]
  show ?thesis unfolding init
    by (simp add: event_bus_example_def SIZEOF_EVENT_BUS_T_def zero_subscribers_Cons)
qed

end
