(* ===== verification/Metrics.thy ===== *)
theory Metrics imports Event_Bus begin

text \<open>
  The counters of \<open>components/metrics/metrics.c\<close>: seven 32-bit counters that the error events of
  the bus increment, the snapshot that the telemetry service publishes, and the names of the
  table \<open>METRICS_TABLE\<close>.
\<close>

section \<open>The table\<close>

datatype metrics_stat =
    METRICS_STAT_RS485_DRIVER_OVERFLOW_ERRORS
  | METRICS_STAT_RS485_DRIVER_PARITY_ERRORS
  | METRICS_STAT_MODBUS_CRC_ERRORS
  | METRICS_STAT_MODBUS_OVERFLOW_ERRORS
  | METRICS_STAT_MODBUS_NO_MEM_ERRORS
  | METRICS_STAT_TELEMETRY_PUBLISH_ERRORS
  | METRICS_STAT_LOGGER_WRITE_ERRORS

text \<open>The value of the enumerator.\<close>

fun metrics_stat_index :: "metrics_stat \<Rightarrow> nat" where
  "metrics_stat_index METRICS_STAT_RS485_DRIVER_OVERFLOW_ERRORS = 0"
| "metrics_stat_index METRICS_STAT_RS485_DRIVER_PARITY_ERRORS = 1"
| "metrics_stat_index METRICS_STAT_MODBUS_CRC_ERRORS = 2"
| "metrics_stat_index METRICS_STAT_MODBUS_OVERFLOW_ERRORS = 3"
| "metrics_stat_index METRICS_STAT_MODBUS_NO_MEM_ERRORS = 4"
| "metrics_stat_index METRICS_STAT_TELEMETRY_PUBLISH_ERRORS = 5"
| "metrics_stat_index METRICS_STAT_LOGGER_WRITE_ERRORS = 6"

definition METRICS_STAT_MAX :: nat where "METRICS_STAT_MAX = 7"

lemma metrics_stat_index_less: "metrics_stat_index s < METRICS_STAT_MAX"
  by (cases s) (simp_all add: METRICS_STAT_MAX_def)

lemma metrics_stat_index_inj [simp]: "metrics_stat_index s = metrics_stat_index t \<longleftrightarrow> s = t"
  by (cases s; cases t) simp_all

text \<open>The statistics are ordered as in the table, so a map keyed by them lists them in that order.\<close>

instantiation metrics_stat :: linorder
begin

definition less_eq_metrics_stat :: "metrics_stat \<Rightarrow> metrics_stat \<Rightarrow> bool" where
  "less_eq_metrics_stat s t = (metrics_stat_index s \<le> metrics_stat_index t)"

definition less_metrics_stat :: "metrics_stat \<Rightarrow> metrics_stat \<Rightarrow> bool" where
  "less_metrics_stat s t = (metrics_stat_index s < metrics_stat_index t)"

instance
  by standard (auto simp: less_eq_metrics_stat_def less_metrics_stat_def dest: le_antisym)

end

section \<open>Operations\<close>

definition metrics_reset_all :: "u32 list \<Rightarrow> u32 list" where
  "metrics_reset_all m = map (\<lambda>x. x AND 0) m"

text \<open>The argument is the enumerator's value: a cast does not check its range.\<close>

definition metrics_increment_stat_helper :: "nat \<Rightarrow> u32 list \<Rightarrow> u32 list" where
  "metrics_increment_stat_helper stat m =
     (if stat < METRICS_STAT_MAX then m[stat := m ! stat + 1] else m)"

definition on_error_callback :: "event_bus_t \<Rightarrow> nat \<Rightarrow> u32 list \<Rightarrow> u32 list" where
  "on_error_callback e ctx m = metrics_increment_stat_helper (unat (payload_data e)) m"

definition metrics_init :: "('q, u32 list) event_bus \<Rightarrow> u32 list \<Rightarrow> esp_err \<times> ('q, u32 list) event_bus \<times> u32 list" where
  "metrics_init b m =
     (let m' = metrics_reset_all m;
          (subscription, b') = event_bus_subscribe EVENT_BUS_EVENT_ERROR (Some on_error_callback) 0 b
      in (if subscription < 0 then ESP_ERR_NO_MEM else ESP_OK, b', m'))"

text \<open>
  The counters go to the caller's buffer as words in the target's byte order; \<open>buf_length\<close> is
  the length the caller claims, and a claim beyond the object is undefined (\<open>None\<close>).
\<close>

fun metrics_copy :: "nat \<Rightarrow> u32 list \<Rightarrow> bytes \<Rightarrow> bytes option" where
  "metrics_copy idx [] buf = Some buf"
| "metrics_copy idx (x # xs) buf =
     (case buf_write buf (4 * idx) (le32 x) of None \<Rightarrow> None | Some buf' \<Rightarrow> metrics_copy (idx + 1) xs buf')"

definition metrics_get_snapshot ::
    "bytes option \<Rightarrow> nat \<Rightarrow> bool \<Rightarrow> u32 list \<Rightarrow> (esp_err \<times> bytes option \<times> u16 option) option" where
  "metrics_get_snapshot buf_ptr buf_length copied_length_ptr m =
     (case buf_ptr of
        None \<Rightarrow> Some (ESP_ERR_INVALID_ARG, None, None)
      | Some buf \<Rightarrow>
          if \<not> copied_length_ptr \<or> buf_length < METRICS_STAT_MAX * 4
          then Some (ESP_ERR_INVALID_ARG, Some buf, None)
          else map_option (\<lambda>buf'. (ESP_OK, Some buf', Some (of_nat (METRICS_STAT_MAX * 4))))
                 (metrics_copy 0 (take METRICS_STAT_MAX m) buf))"

definition stat_names :: "string list" where
  "stat_names = [''RS485_DRIVER_OVERFLOW_ERRORS'', ''RS485_DRIVER_PARITY_ERRORS'', ''MODBUS_CRC_ERRORS'',
     ''MODBUS_OVERFLOW_ERRORS'', ''MODBUS_NO_MEM_ERRORS'', ''TELEMETRY_PUBLISH_ERRORS'', ''LOGGER_WRITE_ERRORS'']"

definition metrics_stat_to_string :: "nat \<Rightarrow> string" where
  "metrics_stat_to_string stat = (if stat < METRICS_STAT_MAX then stat_names ! stat else ''UNKNOWN'')"

text \<open>The lines that \<open>metrics_log_all\<close> prints.\<close>

definition metrics_log_all :: "u32 list \<Rightarrow> (string \<times> nat) list" where
  "metrics_log_all m = map (\<lambda>idx. (metrics_stat_to_string idx, unat (m ! idx))) [0..<METRICS_STAT_MAX]"

section \<open>Counting\<close>

lemma length_metrics_increment [simp]: "length (metrics_increment_stat_helper s m) = length m"
  by (simp add: metrics_increment_stat_helper_def)

lemma metrics_increment_nth:
  "length m = METRICS_STAT_MAX \<Longrightarrow> i < METRICS_STAT_MAX \<Longrightarrow>
     metrics_increment_stat_helper s m ! i = m ! i + (if s = i then 1 else 0)"
  by (auto simp: metrics_increment_stat_helper_def nth_list_update)

lemma length_fold_increment [simp]: "length (fold metrics_increment_stat_helper ss m) = length m"
  by (induction ss arbitrary: m) auto

lemma fold_increment_nth:
  "length m = METRICS_STAT_MAX \<Longrightarrow> i < METRICS_STAT_MAX \<Longrightarrow>
     fold metrics_increment_stat_helper ss m ! i = m ! i + of_nat (count_list ss i)"
proof (induction ss arbitrary: m)
  case (Cons s ss)
  then have "fold metrics_increment_stat_helper ss (metrics_increment_stat_helper s m) ! i
    = metrics_increment_stat_helper s m ! i + of_nat (count_list ss i)" by simp
  with Cons.prems show ?case by (simp add: metrics_increment_nth)
qed simp

lemma metrics_reset_all_eq: "metrics_reset_all m = replicate (length m) 0"
  by (simp add: metrics_reset_all_def map_replicate_const)

lemma count_list_replicate: "count_list (replicate n x) y = (if y = x then n else 0)"
  by (induction n) auto

text \<open>A copy at offset \<open>4 * idx\<close> overwrites that part of the buffer and nothing else.\<close>

lemma metrics_copy_image:
  assumes "4 * (idx + length xs) \<le> length buf"
  shows "metrics_copy idx xs buf
    = Some (take (4 * idx) buf @ concat (map le32 xs) @ drop (4 * (idx + length xs)) buf)"
  using assms
proof (induction xs arbitrary: idx buf)
  case (Cons x xs)
  let ?b = "take (4 * idx) buf @ le32 x @ drop (4 * idx + 4) buf"
  have w: "buf_write buf (4 * idx) (le32 x) = Some ?b"
    using Cons.prems by (simp add: buf_write_ok)
  have "4 * (idx + 1 + length xs) \<le> length ?b" using Cons.prems by simp
  from Cons.IH [OF this] w Cons.prems show ?case by (simp add: algebra_simps)
qed simp

lemma length_concat_le32 [simp]: "length (concat (map le32 xs)) = 4 * length xs"
  by (induction xs) auto

lemma le32_at_concat: "i < length xs \<Longrightarrow> take 4 (drop (4 * i) (concat (map le32 xs) @ r)) = le32 (xs ! i)"
proof (induction xs arbitrary: i)
  case (Cons x xs)
  then show ?case by (cases i) simp_all
qed simp

section \<open>Properties\<close>

text \<open>
  After any sequence of statistics, in or out of range, each counter has grown by the number
  of its own occurrences, modulo \<open>2 ^ 32\<close>, and there are still seven counters.
\<close>

theorem metrics_counts:
  assumes "length m = 7"
  shows "length (fold metrics_increment_stat_helper ss m) = 7
    \<and> (\<forall>s. fold metrics_increment_stat_helper ss m ! metrics_stat_index s
        = m ! metrics_stat_index s + of_nat (count_list ss (metrics_stat_index s)))"
  using assms fold_increment_nth [of m _ ss] metrics_stat_index_less
  by (simp add: METRICS_STAT_MAX_def)

lemma metrics_counts_witness:
  "fold metrics_increment_stat_helper [2, 9, 2] (replicate 7 (-1)) ! 2 = 1"
  using metrics_counts [of "replicate 7 (-1)" "[2, 9, 2]", THEN conjunct2, THEN spec, of METRICS_STAT_MODBUS_CRC_ERRORS]
  by simp

text \<open>
  A snapshot into a buffer with room for seven words succeeds with length 28, writes the
  seven counters at their statistic's index and nothing after them, and a smaller claimed length
  is refused with nothing written.
\<close>

theorem metrics_snapshot_layout:
  assumes "length m = 7" and "buf_length \<le> length buf"
  shows "if buf_length < 28
    then metrics_get_snapshot (Some buf) buf_length True m = Some (ESP_ERR_INVALID_ARG, Some buf, None)
    else \<exists>buf'. metrics_get_snapshot (Some buf) buf_length True m = Some (ESP_OK, Some buf', Some 28)
      \<and> length buf' = length buf \<and> drop 28 buf' = drop 28 buf
      \<and> (\<forall>s. of_le32 (take 4 (drop (4 * metrics_stat_index s) buf')) = m ! metrics_stat_index s)"
proof (cases "buf_length < 28")
  case True
  then show ?thesis by (simp add: metrics_get_snapshot_def METRICS_STAT_MAX_def)
next
  case False
  let ?b = "concat (map le32 m) @ drop 28 buf"
  have "metrics_copy 0 m buf = Some ?b"
    using metrics_copy_image [of 0 m buf] assms False by simp
  then have "metrics_get_snapshot (Some buf) buf_length True m = Some (ESP_OK, Some ?b, Some 28)"
    using False assms by (simp add: metrics_get_snapshot_def METRICS_STAT_MAX_def)
  moreover have "length ?b = length buf" "drop 28 ?b = drop 28 buf" using assms False by simp_all
  moreover have "of_le32 (take 4 (drop (4 * metrics_stat_index s) ?b)) = m ! metrics_stat_index s" for s
    using le32_at_concat [of "metrics_stat_index s" m "drop 28 buf"] metrics_stat_index_less [of s] assms(1)
    by (simp add: METRICS_STAT_MAX_def)
  ultimately show ?thesis using False by auto
qed

lemma metrics_snapshot_layout_witness:
  "\<exists>buf'. metrics_get_snapshot (Some (replicate 512 0)) 512 True [1, 2, 3, 4, 5, 6, 7] = Some (ESP_OK, Some buf', Some 28)"
  using metrics_snapshot_layout [of "[1, 2, 3, 4, 5, 6, 7]" 512 "replicate 512 0"] by auto

text \<open>
  C32. With the metrics as the only subscriber, errors of any kind that are published all count
  towards the one statistic that the bus task's object names by what it held before: a published
  CRC error never reaches the CRC counter unless that object happened to hold its number.
\<close>

theorem metrics_errors_miscounted:
  assumes Q: "queue_laws Q items n" and new: "\<forall>sz q. create n sz = Some q \<longrightarrow> items q = []"
    and init: "event_bus_init create n b0 = (ESP_OK, b)" and sub: "metrics_init b m = (ESP_OK, b', m')"
    and task: "event_bus_task_handle b0 = Some 0" and m: "length m = 7"
    and es: "length es \<le> n" "\<forall>e \<in> set es. event_type e = EVENT_BUS_EVENT_ERROR"
    and obj: "length obj = SIZEOF_EVENT_BUS_T"
  shows "\<exists>b1 b2 obj' m2. event_bus_publish_all Q es b' = Some b1
    \<and> event_bus_task_turn Q obj b1 m' = Some (Task_continues (obj', b2, m2))
    \<and> (\<forall>i < 7. m2 ! i = (if i = unat (payload_data (event_of_image obj)) then of_nat (length es) else 0))"
proof -
  define k where "k = unat (payload_data (event_of_image obj))"
  let ?s = "\<lparr>sub_type = EVENT_BUS_EVENT_ERROR, sub_cb = Some on_error_callback, sub_ctx = 0\<rparr> :: u32 list subscriber"
  let ?subs = "zero_subscribers[0 := ?s]"
  have "subscribers b = zero_subscribers"
    using init by (auto simp: event_bus_init_def split: if_splits option.splits)
  then have b': "b' = b\<lparr>subscribers := ?subs\<rparr>" and m': "m' = replicate 7 0"
    using sub m by (simp_all add: metrics_init_def event_bus_subscribe_first metrics_reset_all_eq)
  have disp: "event_bus_dispatch ?subs ((event_of_image obj)\<lparr>event_type := event_type e\<rparr>) st
      = metrics_increment_stat_helper k st" if "e \<in> set es" for e st
    using es(2) that by (simp add: event_bus_dispatch_first on_error_callback_def k_def)
  have run: "fold (\<lambda>e. event_bus_dispatch ?subs ((event_of_image obj)\<lparr>event_type := event_type e\<rparr>)) es m'
      = fold metrics_increment_stat_helper (replicate (length es) k) m'"
    using disp by (induction es arbitrary: m') simp_all
  have cnt: "\<forall>i < 7. fold metrics_increment_stat_helper (replicate (length es) k) m' ! i
      = (if i = k then of_nat (length es) else 0)"
    using fold_increment_nth [of m' _ "replicate (length es) k"] m'
    by (simp add: METRICS_STAT_MAX_def count_list_replicate)
  obtain b1 b2 obj' where "event_bus_publish_all Q es (b\<lparr>subscribers := ?subs\<rparr>) = Some b1"
    "event_bus_task_turn Q obj b1 m'
      = Some (Task_continues (obj', b2, fold metrics_increment_stat_helper (replicate (length es) k) m'))"
    using event_bus_payload_lost [OF Q new init task es(1) obj, where subs = ?subs and st = m'] run by auto
  with cnt b' show ?thesis
    by (intro exI [of _ b1] exI [of _ b2] exI [of _ obj'] exI conjI) (simp_all add: k_def)
qed

lemma metrics_errors_miscounted_witness:
  "\<exists>b1 b2 obj' m2. event_bus_publish_all (list_queue 4) [\<lparr>event_type = 0, payload_data = 2, event_size = 4,
        event_timestamp_us = 9\<rparr>] (fst (snd (metrics_init (event_bus_example\<lparr>event_queue := Some ([], 4)\<rparr>)
          (replicate 7 0)))) = Some b1
    \<and> event_bus_task_turn (list_queue 4) (replicate 24 0) b1 (replicate 7 0) = Some (Task_continues (obj', b2, m2))
    \<and> m2 ! 0 = 1 \<and> m2 ! 2 = 0"
proof -
  let ?b = "event_bus_example\<lparr>event_queue := Some ([], 4)\<rparr>"
  have init: "event_bus_init (\<lambda>_ _. Some []) 4 event_bus_example = (ESP_OK, ?b)"
    by (simp add: event_bus_init_def event_bus_example_def SIZEOF_EVENT_BUS_EVENT_T_def)
  obtain b' where sub: "metrics_init ?b (replicate 7 0) = (ESP_OK, b', replicate 7 0)"
    by (simp add: metrics_init_def event_bus_subscribe_first metrics_reset_all_eq event_bus_example_def)
  have z: "payload_data (event_of_image (replicate 24 0)) = 0"
    by (simp add: event_of_image_def of_le32_def nth_Cons')
  from metrics_errors_miscounted [OF list_queue_laws _ init sub,
      where obj = "replicate 24 0" and es = "[\<lparr>event_type = 0, payload_data = 2, event_size = 4, event_timestamp_us = 9\<rparr>]"] z
  show ?thesis unfolding sub
    by (fastforce simp: event_bus_example_def SIZEOF_EVENT_BUS_T_def EVENT_BUS_EVENT_ERROR_def)
qed

end
