(* ===== verification/Rs485_Driver.thy ===== *)
theory Rs485_Driver imports Rtos "HOL-Library.Monad_Syntax" begin

text \<open>
  The receive-only line driver of \<open>components/rs485_driver/rs485_driver.c\<close>. The UART driver of
  ESP-IDF is a parameter: the codes its calls return are arguments, and the calls made are part of
  the result, in order. One turn of the task turns a UART event into a driver event.
\<close>

section \<open>Types\<close>

definition RS485_DRIVER_TASK_BUFFER_SIZE :: nat where "RS485_DRIVER_TASK_BUFFER_SIZE = 256"
definition RS485_DRIVER_TASK_NOTIFY_STOP_BIT :: u32 where "RS485_DRIVER_TASK_NOTIFY_STOP_BIT = 1"

definition RS485_DRIVER_EVENT_FLAG_DATA :: byte where "RS485_DRIVER_EVENT_FLAG_DATA = 1"
definition RS485_DRIVER_EVENT_FLAG_RX_TIMEOUT :: byte where "RS485_DRIVER_EVENT_FLAG_RX_TIMEOUT = 2"
definition RS485_DRIVER_EVENT_FLAG_OVERFLOW :: byte where "RS485_DRIVER_EVENT_FLAG_OVERFLOW = 4"
definition RS485_DRIVER_EVENT_FLAG_PARITY :: byte where "RS485_DRIVER_EVENT_FLAG_PARITY = 8"

lemmas rs485_flag_defs = RS485_DRIVER_EVENT_FLAG_DATA_def RS485_DRIVER_EVENT_FLAG_RX_TIMEOUT_def
  RS485_DRIVER_EVENT_FLAG_OVERFLOW_def RS485_DRIVER_EVENT_FLAG_PARITY_def

record rs485_driver_event =
  ev_data :: bytes
  ev_length :: nat
  ev_timestamp_us :: int
  ev_flags :: byte

record rs485_driver_config =
  rs485_baudrate :: nat
  rs485_port :: nat
  rs485_data_bits :: nat
  rs485_parity :: nat
  rs485_stop_bits :: nat
  rs485_rx_pin :: nat
  rs485_rx_buffer_size :: nat
  rs485_queue_size :: nat
  rs485_on_event_cb :: bool

record 'q rs485_driver =
  rs485_config_ptr :: "rs485_driver_config option"
  rs485_event_queue :: "'q option"
  frame_bit_length :: nat
  rs485_driver_task_handle :: task_handle

text \<open>What the driver asks the UART for, and the events it gets from it.\<close>

record uart_config =
  uart_baud_rate :: nat
  uart_data_bits :: nat
  uart_parity :: nat
  uart_stop_bits :: nat

datatype uart_call =
    Uart_driver_install nat nat nat nat
  | Uart_param_config nat uart_config
  | Uart_set_pin nat nat
  | Uart_set_rx_full_threshold nat nat
  | Uart_set_rx_timeout nat nat
  | Uart_set_mode nat
  | Uart_driver_delete nat
  | Uart_flush_input nat
  | Queue_reset

datatype uart_event_type =
    UART_DATA | UART_FIFO_OVF | UART_BUFFER_FULL | UART_PARITY_ERR | UART_FRAME_ERR | UART_OTHER

section \<open>Initialisation\<close>

text \<open>
  The switch over the data bits. The second component is what the UART is configured with; every
  value outside 5 to 8 means 8.
\<close>

definition rs485_data_bits_switch :: "nat \<Rightarrow> nat" where
  "rs485_data_bits_switch n = (if n = 5 then 5 else if n = 6 then 6 else if n = 7 then 7 else 8)"

definition rs485_line_format :: "rs485_driver_config \<Rightarrow> nat \<times> uart_config" where
  "rs485_line_format c =
     (let n = 1 + rs485_data_bits_switch (rs485_data_bits c);
          n = (if rs485_parity c = 0 then n else n + 1);
          n = (if rs485_stop_bits c = 1 then n + 1 else n + 2)
      in (n, \<lparr>uart_baud_rate = rs485_baudrate c, uart_data_bits = rs485_data_bits_switch (rs485_data_bits c),
              uart_parity = rs485_parity c, uart_stop_bits = (if rs485_stop_bits c = 1 then 1 else 2)\<rparr>))"

definition rs485_driver_deinit :: "'q rs485_driver \<Rightarrow> 'q rs485_driver \<times> uart_call list" where
  "rs485_driver_deinit d =
     (d\<lparr>rs485_event_queue := None\<rparr>,
      case rs485_config_ptr d of None \<Rightarrow> [] | Some c \<Rightarrow> [Uart_driver_delete (rs485_port c)])"

text \<open>The steps after the installation: each one runs only when the one before succeeded.\<close>

fun uart_steps :: "(uart_call \<times> esp_err) list \<Rightarrow> esp_err \<times> uart_call list" where
  "uart_steps [] = (ESP_OK, [])"
| "uart_steps ((call, err) # rest) =
     (if err \<noteq> ESP_OK then (err, [call])
      else let (err', calls) = uart_steps rest in (err', call # calls))"

text \<open>
  \<open>installed\<close> is the code of \<open>uart_driver_install\<close> with the event queue it creates, \<open>errs\<close> the
  codes of the five calls that follow.
\<close>

definition rs485_driver_init ::
    "esp_err \<times> 'q option \<Rightarrow> esp_err \<times> esp_err \<times> esp_err \<times> esp_err \<times> esp_err \<Rightarrow> 'q rs485_driver
       \<Rightarrow> rs485_driver_config option \<Rightarrow> esp_err \<times> 'q rs485_driver \<times> uart_call list" where
  "rs485_driver_init installed errs d config =
     (case config of
        None \<Rightarrow> let (d', calls) = rs485_driver_deinit d in (ESP_ERR_INVALID_ARG, d', calls)
      | Some c \<Rightarrow>
          let (bits, uc) = rs485_line_format c;
              (install_err, q) = installed;
              (e1, e2, e3, e4, e5) = errs;
              port = rs485_port c;
              d = d\<lparr>frame_bit_length := bits, rs485_config_ptr := Some c,
                    rs485_event_queue := (if install_err = ESP_OK then q else rs485_event_queue d)\<rparr>;
              (err, calls) = uart_steps
                [(Uart_driver_install port (rs485_rx_buffer_size c) 0 (rs485_queue_size c), install_err),
                 (Uart_param_config port uc, e1), (Uart_set_pin port (rs485_rx_pin c), e2),
                 (Uart_set_rx_full_threshold port 128, e3), (Uart_set_rx_timeout port 4, e4),
                 (Uart_set_mode port, e5)]
          in if err = ESP_OK then (ESP_OK, d, calls)
             else let (d', undo) = rs485_driver_deinit d in (err, d', calls @ undo))"

definition rs485_driver_get_bits_count :: "'q rs485_driver \<Rightarrow> nat" where
  "rs485_driver_get_bits_count d = frame_bit_length d"

section \<open>The task\<close>

text \<open>
  The handling of one UART event: \<open>now\<close> is the time it was taken at, \<open>buffered\<close> the fill level
  that the UART reports and \<open>rd n\<close> what a read of at most \<open>n\<close> bytes returns. The
  packet is initialised, so its other bytes are zero. Both calls are taken to succeed, as they do
  on an installed port with these arguments: the code does not look at their errors, and a read
  that returned -1 would become the packet's length.
\<close>

definition rs485_driver_handle_event ::
    "nat \<Rightarrow> uart_event_type \<Rightarrow> bool \<Rightarrow> int \<Rightarrow> nat \<Rightarrow> (nat \<Rightarrow> bytes) \<Rightarrow> rs485_driver_event option \<times> uart_call list" where
  "rs485_driver_handle_event port type timeout_flag now buffered rd =
     (let packet = \<lparr>ev_data = replicate RS485_DRIVER_TASK_BUFFER_SIZE 0, ev_length = 0, ev_timestamp_us = now, ev_flags = 0\<rparr>
      in case type of
           UART_DATA \<Rightarrow>
             let bs = rd (if buffered < RS485_DRIVER_TASK_BUFFER_SIZE then buffered else RS485_DRIVER_TASK_BUFFER_SIZE);
                 flags = (if timeout_flag then RS485_DRIVER_EVENT_FLAG_RX_TIMEOUT else 0)
             in (Some (packet\<lparr>ev_data := bs @ drop (length bs) (ev_data packet), ev_length := length bs,
                             ev_flags := flags OR RS485_DRIVER_EVENT_FLAG_DATA\<rparr>), [])
         | UART_FIFO_OVF \<Rightarrow> (Some (packet\<lparr>ev_flags := RS485_DRIVER_EVENT_FLAG_OVERFLOW\<rparr>), [Uart_flush_input port, Queue_reset])
         | UART_BUFFER_FULL \<Rightarrow> (Some (packet\<lparr>ev_flags := RS485_DRIVER_EVENT_FLAG_OVERFLOW\<rparr>), [Uart_flush_input port, Queue_reset])
         | UART_PARITY_ERR \<Rightarrow> (Some (packet\<lparr>ev_flags := RS485_DRIVER_EVENT_FLAG_PARITY\<rparr>), [])
         | UART_FRAME_ERR \<Rightarrow> (Some (packet\<lparr>ev_flags := RS485_DRIVER_EVENT_FLAG_PARITY\<rparr>), [])
         | UART_OTHER \<Rightarrow> (None, []))"

text \<open>
  One turn: the stop bit ends the task, which leaves no task behind the handle, otherwise an event received within the wait is handled and
  the packet goes to the callback.
\<close>

definition rs485_driver_task_turn ::
    "(uart_event_type \<times> bool) option \<Rightarrow> int \<Rightarrow> nat \<Rightarrow> (nat \<Rightarrow> bytes) \<Rightarrow> 'q rs485_driver
       \<Rightarrow> (bool \<times> 'q rs485_driver \<times> rs485_driver_event option \<times> uart_call list) option" where
  "rs485_driver_task_turn received now buffered rd d =
     (case rs485_driver_task_handle d of
        None \<Rightarrow> None
      | Some pending \<Rightarrow>
          let (notified, rest) = xTaskNotifyWait pending in
          if notified AND RS485_DRIVER_TASK_NOTIFY_STOP_BIT \<noteq> 0
          then Some (False, d\<lparr>rs485_driver_task_handle := None\<rparr>, None, [])
          else (case received of
                  None \<Rightarrow> Some (True, d\<lparr>rs485_driver_task_handle := Some rest\<rparr>, None, [])
                | Some (type, timeout_flag) \<Rightarrow>
                    do {
                      c \<leftarrow> rs485_config_ptr d;
                      let (packet, calls) = rs485_driver_handle_event (rs485_port c) type timeout_flag now buffered rd;
                      Some (True, d\<lparr>rs485_driver_task_handle := Some rest\<rparr>,
                            if rs485_on_event_cb c then packet else None, calls)
                    }))"

definition rs485_driver_stop_task :: "'q rs485_driver \<Rightarrow> 'q rs485_driver" where
  "rs485_driver_stop_task d =
     (case xTaskNotify RS485_DRIVER_TASK_NOTIFY_STOP_BIT (rs485_driver_task_handle d) of
        None \<Rightarrow> d
      | Some h \<Rightarrow> d\<lparr>rs485_driver_task_handle := h\<rparr>)"

section \<open>Facts\<close>

text \<open>The frame's length in bits lies between 7 and 12, and it is what the UART is told.\<close>

lemma rs485_line_format_bits:
  "rs485_line_format c = (n, uc) \<Longrightarrow> n = 1 + uart_data_bits uc + (if uart_parity uc = 0 then 0 else 1) + uart_stop_bits uc
     \<and> 7 \<le> n \<and> n \<le> 12 \<and> uart_baud_rate uc = rs485_baudrate c"
  by (auto simp: rs485_line_format_def rs485_data_bits_switch_def Let_def split: if_splits)

lemma uart_steps_ok: "fst (uart_steps ss) = ESP_OK \<longleftrightarrow> (\<forall>s \<in> set ss. snd s = ESP_OK)"
  by (induction ss) (auto simp: Let_def case_prod_beta split: if_splits)

lemma uart_steps_calls: "fst (uart_steps ss) = ESP_OK \<Longrightarrow> snd (uart_steps ss) = map fst ss"
  by (induction ss) (auto simp: Let_def case_prod_beta split: if_splits)

text \<open>A packet never holds more than its buffer, and its flags say what it is.\<close>

lemma rs485_handle_event_bounds:
  assumes "rs485_driver_handle_event port type tf now buffered rd = (Some e, calls)"
    and "\<And>n. length (rd n) \<le> n"
  shows "ev_length e \<le> length (ev_data e) \<and> length (ev_data e) = 256"
proof -
  have "length (rd (if buffered < 256 then buffered else 256)) \<le> 256"
    using assms(2) [of "if buffered < 256 then buffered else 256"] by (auto split: if_splits)
  with assms(1) show ?thesis
    by (auto simp: rs485_driver_handle_event_def Let_def RS485_DRIVER_TASK_BUFFER_SIZE_def split: uart_event_type.splits if_splits)
qed

end
