(* ===== verification/Modbus_Analyzer.thy ===== *)
theory Modbus_Analyzer imports Modbus_Slicer Modbus_Parser Metrics Rs485_Driver begin

text \<open>
  The analyzer of \<open>components/modbus_analyzer/modbus_analyzer.c\<close>: its task takes the line
  driver's events from a queue, feeds the slicer, and checks every frame that the slicer hands
  out. Its calls to the outside - events published on the bus and frames passed to the frame
  callback - are part of the result, in order.
\<close>

section \<open>State\<close>

record modbus_analyzer_frame =
  mf_slab_ptr :: "slab_ref option"
  mf_timestamp_us :: int

record modbus_analyzer_config =
  rs485_driver_config_ptr :: "rs485_driver_config option"
  on_frame_cb :: bool

record ('q, 'e) modbus_analyzer =
  analyzer_config_ptr :: "modbus_analyzer_config option"
  rs485_drv :: "'e rs485_driver"
  analyzer_slicer :: modbus_slicer
  analyzer_slicer_config :: modbus_slicer_config
  raw_events_queue :: "'q option"
  modbus_analyzer_task_handle :: task_handle

definition MODBUS_ANALYZER_EVENTS_QUEUE_SIZE :: nat where "MODBUS_ANALYZER_EVENTS_QUEUE_SIZE = 20"
definition MODBUS_ANALYZER_TASK_NOTIFY_STOP_BIT :: u32 where "MODBUS_ANALYZER_TASK_NOTIFY_STOP_BIT = 1"

datatype analyzer_call = Publish event_bus_t | On_frame modbus_analyzer_frame

text \<open>The error event that counts for a statistic.\<close>

definition error_event :: "metrics_stat \<Rightarrow> int \<Rightarrow> event_bus_t" where
  "error_event stat now = \<lparr>event_type = EVENT_BUS_EVENT_ERROR, payload_data = of_nat (metrics_stat_index stat),
     event_size = 4, event_timestamp_us = of_int now\<rparr>"

section \<open>Operations\<close>

text \<open>The slicer's callback; the frame it gets is on its way out of the slicer, its slab still held.\<close>

definition emit_modbus_frame_callback ::
    "bool \<Rightarrow> modbus_slicer_frame option \<Rightarrow> slab_pool \<Rightarrow> analyzer_call list option" where
  "emit_modbus_frame_callback has_cb frame_ptr p =
     (case frame_ptr of
        None \<Rightarrow> Some []
      | Some fr \<Rightarrow>
          if frame_error fr \<noteq> MODBUS_SLICER_OK
          then Some ((if frame_error fr = MODBUS_SLICER_ERROR_OVERFLOW
                      then [Publish (error_event METRICS_STAT_MODBUS_OVERFLOW_ERRORS (frame_timestamp_us fr))] else [])
                   @ (if frame_error fr = MODBUS_SLICER_ERROR_NO_MEM
                      then [Publish (error_event METRICS_STAT_MODBUS_NO_MEM_ERRORS (frame_timestamp_us fr))] else []))
          else do {
            i \<leftarrow> frame_slab_ptr fr;
            crc_ok \<leftarrow> modbus_parser_check_crc (Some (slab_data (slab_at p i))) (slab_length (slab_at p i));
            Some (if crc_ok = ESP_OK
                  then (if has_cb then [On_frame \<lparr>mf_slab_ptr = Some i, mf_timestamp_us = frame_timestamp_us fr\<rparr>] else [])
                  else [Publish (error_event METRICS_STAT_MODBUS_CRC_ERRORS (frame_timestamp_us fr))])
          })"

text \<open>The driver's callback: a full queue drops the event without a trace.\<close>

definition on_rs485_driver_event_callback ::
    "('q, rs485_driver_event) rtos_queue \<Rightarrow> rs485_driver_event \<Rightarrow> ('q, 'e) modbus_analyzer
       \<Rightarrow> ('q, 'e) modbus_analyzer option" where
  "on_rs485_driver_event_callback Q e a =
     map_option (\<lambda>q. a\<lparr>raw_events_queue := Some (snd (q_send Q e q))\<rparr>) (raw_events_queue a)"

text \<open>One event of the driver: the bytes first, then the line's timeout, then the error counters.\<close>

definition analyzer_data_step ::
    "bool \<Rightarrow> rs485_driver_event \<Rightarrow> modbus_slicer \<Rightarrow> slab_pool \<Rightarrow> (modbus_slicer \<times> slab_pool \<times> analyzer_call list) option" where
  "analyzer_data_step has_cb e sl p =
     (if ev_flags e AND RS485_DRIVER_EVENT_FLAG_DATA \<noteq> 0 then do {
        data \<leftarrow> buf_read (ev_data e) 0 (ev_length e);
        (sl, p, fr) \<leftarrow> modbus_slicer_feed (Some data) (ev_timestamp_us e) sl p;
        calls \<leftarrow> emit_modbus_frame_callback has_cb fr p;
        Some (sl, p, calls)
      } else Some (sl, p, []))"

definition analyzer_timeout_step ::
    "bool \<Rightarrow> rs485_driver_event \<Rightarrow> modbus_slicer \<Rightarrow> slab_pool \<Rightarrow> (modbus_slicer \<times> slab_pool \<times> analyzer_call list) option" where
  "analyzer_timeout_step has_cb e sl p =
     (if ev_flags e AND RS485_DRIVER_EVENT_FLAG_RX_TIMEOUT \<noteq> 0 then do {
        let (sl, p, fr) = modbus_slicer_timeout sl p;
        calls \<leftarrow> emit_modbus_frame_callback has_cb fr p;
        Some (sl, p, calls)
      } else Some (sl, p, []))"

definition analyzer_error_calls :: "rs485_driver_event \<Rightarrow> analyzer_call list" where
  "analyzer_error_calls e =
     (if ev_flags e AND RS485_DRIVER_EVENT_FLAG_OVERFLOW \<noteq> 0
      then [Publish (error_event METRICS_STAT_RS485_DRIVER_OVERFLOW_ERRORS (ev_timestamp_us e))] else [])
     @ (if ev_flags e AND RS485_DRIVER_EVENT_FLAG_PARITY \<noteq> 0
        then [Publish (error_event METRICS_STAT_RS485_DRIVER_PARITY_ERRORS (ev_timestamp_us e))] else [])"

definition analyzer_handle_event ::
    "bool \<Rightarrow> rs485_driver_event \<Rightarrow> modbus_slicer \<Rightarrow> slab_pool \<Rightarrow> (modbus_slicer \<times> slab_pool \<times> analyzer_call list) option" where
  "analyzer_handle_event has_cb e sl p =
     do {
       (sl, p, c1) \<leftarrow> analyzer_data_step has_cb e sl p;
       (sl, p, c2) \<leftarrow> analyzer_timeout_step has_cb e sl p;
       Some (sl, p, c1 @ c2 @ analyzer_error_calls e)
     }"

lemmas analyzer_event_defs =
  analyzer_handle_event_def analyzer_data_step_def analyzer_timeout_step_def analyzer_error_calls_def

text \<open>
  One turn of the task. A receive that runs into its timeout is one that finds the queue empty;
  \<open>now\<close> is the time the slicer then reads.
\<close>

definition modbus_analyzer_task_turn ::
    "('q, rs485_driver_event) rtos_queue \<Rightarrow> int \<Rightarrow> ('q, 'e) modbus_analyzer \<Rightarrow> slab_pool
       \<Rightarrow> (bool \<times> ('q, 'e) modbus_analyzer \<times> slab_pool \<times> analyzer_call list) option" where
  "modbus_analyzer_task_turn Q now a p =
     do {
       pending \<leftarrow> modbus_analyzer_task_handle a;
       let (notified, rest) = xTaskNotifyWait pending;
       if notified AND MODBUS_ANALYZER_TASK_NOTIFY_STOP_BIT \<noteq> 0
       then Some (False, a\<lparr>modbus_analyzer_task_handle := None\<rparr>, p, [])
       else do {
         q \<leftarrow> raw_events_queue a;
         c \<leftarrow> analyzer_config_ptr a;
         let a = a\<lparr>modbus_analyzer_task_handle := Some rest\<rparr>;
         (case q_receive Q q of
            Some (e, q') \<Rightarrow> do {
              (sl, p, calls) \<leftarrow> analyzer_handle_event (on_frame_cb c) e (analyzer_slicer a) p;
              Some (True, a\<lparr>analyzer_slicer := sl, raw_events_queue := Some q'\<rparr>, p, calls)
            }
          | None \<Rightarrow> do {
              let (sl, p, fr) = modbus_slicer_check_timeout now (analyzer_slicer a) p;
              calls \<leftarrow> emit_modbus_frame_callback (on_frame_cb c) fr p;
              Some (True, a\<lparr>analyzer_slicer := sl\<rparr>, p, calls)
            })
       }
     }"

definition modbus_analyzer_stop_task :: "('q, 'e) modbus_analyzer \<Rightarrow> ('q, 'e) modbus_analyzer" where
  "modbus_analyzer_stop_task a =
     (case xTaskNotify MODBUS_ANALYZER_TASK_NOTIFY_STOP_BIT (modbus_analyzer_task_handle a) of
        None \<Rightarrow> a
      | Some h \<Rightarrow> a\<lparr>modbus_analyzer_task_handle := h\<rparr>)"

text \<open>
  The initialisation. \<open>installed\<close> and \<open>errs\<close> are the outcomes of the UART calls, \<open>create\<close> is what
  the creation of the event queue returns. The slicer keeps no slab of its own at the start.
\<close>

definition modbus_analyzer_init ::
    "esp_err \<times> 'e option \<Rightarrow> esp_err \<times> esp_err \<times> esp_err \<times> esp_err \<times> esp_err \<Rightarrow> (nat \<Rightarrow> 'q option)
       \<Rightarrow> ('q, 'e) modbus_analyzer \<Rightarrow> modbus_analyzer_config option
       \<Rightarrow> (esp_err \<times> ('q, 'e) modbus_analyzer \<times> uart_call list) option" where
  "modbus_analyzer_init installed errs create a config =
     (case config of
        None \<Rightarrow> Some (ESP_ERR_INVALID_ARG, a, [])
      | Some c \<Rightarrow>
          (case (on_frame_cb c, rs485_driver_config_ptr c) of
             (True, Some rc) \<Rightarrow>
               let rc = rc\<lparr>rs485_on_event_cb := True\<rparr>;
                   c = c\<lparr>rs485_driver_config_ptr := Some rc\<rparr>;
                   (err, drv, calls) = rs485_driver_init installed errs (rs485_drv a) (Some rc);
                   a = a\<lparr>analyzer_config_ptr := Some c, rs485_drv := drv\<rparr>
               in if err \<noteq> ESP_OK then Some (err, a, calls)
                  else do {
                    let sc = \<lparr>baudrate = rs485_baudrate rc, bit_length = rs485_driver_get_bits_count drv,
                              get_time_us_func = True, on_frame_func = True\<rparr>;
                    sl \<leftarrow> modbus_slicer_init sc (analyzer_slicer a);
                    let q = create MODBUS_ANALYZER_EVENTS_QUEUE_SIZE;
                    let a = a\<lparr>analyzer_slicer_config := sc, analyzer_slicer := sl, raw_events_queue := q\<rparr>;
                    Some (if q = None then ESP_ERR_NO_MEM else ESP_OK, a, calls)
                  }
           | _ \<Rightarrow> Some (ESP_ERR_INVALID_ARG, a, [])))"

definition modbus_analyzer_deinit :: "('q, 'e) modbus_analyzer \<Rightarrow> ('q, 'e) modbus_analyzer \<times> uart_call list" where
  "modbus_analyzer_deinit a =
     (let (drv, calls) = rs485_driver_deinit (rs485_drv a)
      in (a\<lparr>raw_events_queue := None, rs485_drv := drv\<rparr>, calls))"

section \<open>Whole frames\<close>

text \<open>A driver event that carries a whole frame: data, and the line timeout behind it.\<close>

definition line_frame :: "rs485_driver_event \<Rightarrow> bool" where
  "line_frame e \<longleftrightarrow> ev_flags e = 3 \<and> 0 < ev_length e \<and> ev_length e \<le> length (ev_data e) \<and> ev_length e \<le> 256"

definition frame_bytes :: "rs485_driver_event \<Rightarrow> bytes" where
  "frame_bytes e = take (ev_length e) (ev_data e)"

definition frame_ok :: "rs485_driver_event \<Rightarrow> bool" where
  "frame_ok e \<longleftrightarrow> 4 \<le> ev_length e \<and> calculate_modbus_crc16_lut (frame_bytes e) = 0"

lemma line_frame_flags:
  assumes "line_frame e"
  shows "ev_flags e AND RS485_DRIVER_EVENT_FLAG_DATA \<noteq> 0" "ev_flags e AND RS485_DRIVER_EVENT_FLAG_RX_TIMEOUT \<noteq> 0"
    "ev_flags e AND RS485_DRIVER_EVENT_FLAG_OVERFLOW = 0" "ev_flags e AND RS485_DRIVER_EVENT_FLAG_PARITY = 0"
  using assms by (simp_all add: line_frame_def rs485_flag_defs)

lemma check_crc_outcome:
  assumes "n \<le> length data"
  shows "\<exists>err. modbus_parser_check_crc (Some data) n = Some err
    \<and> (err = ESP_OK \<longleftrightarrow> 4 \<le> n \<and> calculate_modbus_crc16_lut (take n data) = 0)"
proof (cases "4 \<le> n")
  case True
  with check_crc_in_range [OF True assms] show ?thesis by simp
next
  case False
  then show ?thesis by (simp add: modbus_parser_check_crc_def MODBUS_PARSER_MINIMUM_FRAME_LENGTH_def)
qed

text \<open>
  A whole frame goes through the idle slicer in one event. It takes a slab of the pool in any
  case; only a frame with a correct checksum hands it on.
\<close>

lemma handle_line_frame:
  assumes e: "line_frame e" and own: "slab_owns p H" and room: "H \<noteq> {..<SLAB_POOL_SIZE}"
    and idle: "slab_ptr sl = None" and cfg: "slicer_config_ptr sl = Some c" "on_frame_func c"
  shows "\<exists>sl' p' i. analyzer_handle_event True e sl p = Some (sl', p',
      [if frame_ok e then On_frame \<lparr>mf_slab_ptr = Some i, mf_timestamp_us = ev_timestamp_us e\<rparr>
       else Publish (error_event METRICS_STAT_MODBUS_CRC_ERRORS (ev_timestamp_us e))])
    \<and> i \<notin> H \<and> slab_owns p' (insert i H) \<and> slab_ptr sl' = None \<and> slicer_config_ptr sl' = Some c
    \<and> slab_length (slab_at p' i) = ev_length e \<and> take (ev_length e) (slab_data (slab_at p' i)) = frame_bytes e
    \<and> (\<forall>j \<in> H. slab_at p' j = slab_at p j)"
proof -
  have len: "ev_length e \<le> length (ev_data e)" "frame_bytes e \<noteq> []" "length (frame_bytes e) = ev_length e" "ev_length e \<le> 256"
    using e by (auto simp: line_frame_def frame_bytes_def)
  have inv: "slicer_inv sl p H" "slicer_bytes sl p = []"
    using own idle by (simp_all add: slicer_inv_def slicer_bytes_def)
  obtain sl1 p1 where f: "modbus_slicer_feed (Some (frame_bytes e)) (ev_timestamp_us e) sl p = Some (sl1, p1, None)"
    "slicer_inv sl1 p1 H" "slicer_bytes sl1 p1 = frame_bytes e" "slicer_config_ptr sl1 = Some c"
    "start_timestamp_us sl1 = ev_timestamp_us e" "\<forall>j \<in> H. slab_at p1 j = slab_at p j"
    using feed_appends [OF inv(1) len(2) room, of "ev_timestamp_us e"] idle inv(2) len(3,4) cfg(1)
    by (auto simp: SLAB_POOL_MAX_DATA_SIZE_def)
  have ne: "slicer_bytes sl1 p1 \<noteq> []" using f(3) len(2) by simp
  obtain i where t: "slab_ptr sl1 = Some i" "modbus_slicer_timeout sl1 p1 = (sl1\<lparr>slab_ptr := None\<rparr>, p1,
      Some \<lparr>frame_slab_ptr = Some i, frame_timestamp_us = ev_timestamp_us e, frame_error = MODBUS_SLICER_OK\<rparr>)"
    "i \<notin> H" "slab_owns p1 (insert i H)"
    using timeout_emits [OF f(2,4) cfg(2) ne] f(5) by auto
  have n: "slab_length (slab_at p1 i) = ev_length e" using slicer_bytes_length [OF f(2) t(1)] f(3) len(3) by simp
  have bs: "take (ev_length e) (slab_data (slab_at p1 i)) = frame_bytes e"
    using f(3) t(1) n by (simp add: slicer_bytes_def)
  have "length (slab_data (slab_at p1 i)) = SLAB_POOL_MAX_DATA_SIZE" using slab_owns_at [OF t(4), of i] by simp
  then have "ev_length e \<le> length (slab_data (slab_at p1 i))" using len(4) by (simp add: SLAB_POOL_MAX_DATA_SIZE_def)
  then obtain err where crc: "modbus_parser_check_crc (Some (slab_data (slab_at p1 i))) (ev_length e) = Some err"
    "err = ESP_OK \<longleftrightarrow> frame_ok e"
    using check_crc_outcome [of "ev_length e" "slab_data (slab_at p1 i)"] bs by (auto simp: frame_ok_def)
  have "buf_read (ev_data e) 0 (ev_length e) = Some (frame_bytes e)"
    using len(1) by (simp add: buf_read_def frame_bytes_def)
  with line_frame_flags [OF e] f(1) t(2) n crc have "analyzer_handle_event True e sl p = Some (sl1\<lparr>slab_ptr := None\<rparr>, p1,
      [if frame_ok e then On_frame \<lparr>mf_slab_ptr = Some i, mf_timestamp_us = ev_timestamp_us e\<rparr>
       else Publish (error_event METRICS_STAT_MODBUS_CRC_ERRORS (ev_timestamp_us e))])"
    by (simp add: analyzer_event_defs emit_modbus_frame_callback_def)
  with t(3,4) f(4,6) n bs show ?thesis by (intro exI [of _ "sl1\<lparr>slab_ptr := None\<rparr>"] exI [of _ p1] exI [of _ i]) simp
qed

text \<open>With every slab held by others the frame is dropped.\<close>

lemma handle_line_frame_exhausted:
  assumes e: "line_frame e" and own: "slab_owns p {..<SLAB_POOL_SIZE}"
    and idle: "slab_ptr sl = None" and cfg: "slicer_config_ptr sl = Some c" "on_frame_func c"
  shows "\<exists>sl'. analyzer_handle_event True e sl p = Some (sl', p,
      [Publish (error_event METRICS_STAT_MODBUS_NO_MEM_ERRORS (ev_timestamp_us e))])
    \<and> slab_ptr sl' = None \<and> slicer_config_ptr sl' = Some c"
proof -
  have "frame_bytes e \<noteq> []" "buf_read (ev_data e) 0 (ev_length e) = Some (frame_bytes e)"
    using e by (auto simp: line_frame_def frame_bytes_def buf_read_def)
  with feed_exhausted [OF own idle cfg(1), of "frame_bytes e" "ev_timestamp_us e"] line_frame_flags [OF e] cfg show ?thesis
    by (simp add: analyzer_event_defs emit_modbus_frame_callback_def modbus_slicer_timeout_def)
qed

text \<open>A run of events.\<close>

fun analyzer_handle_all :: "bool \<Rightarrow> rs485_driver_event list \<Rightarrow> modbus_slicer \<Rightarrow> slab_pool
    \<Rightarrow> (modbus_slicer \<times> slab_pool \<times> analyzer_call list) option" where
  "analyzer_handle_all has_cb [] sl p = Some (sl, p, [])"
| "analyzer_handle_all has_cb (e # es) sl p =
     do {
       (sl, p, c1) \<leftarrow> analyzer_handle_event has_cb e sl p;
       (sl, p, c2) \<leftarrow> analyzer_handle_all has_cb es sl p;
       Some (sl, p, c1 @ c2)
     }"

lemma handle_bad_frames:
  assumes "\<forall>e \<in> set es. line_frame e \<and> \<not> frame_ok e" and "slab_owns p H" and "finite H"
    and "card H + length es \<le> SLAB_POOL_SIZE"
    and "slab_ptr sl = None" and "slicer_config_ptr sl = Some c" "on_frame_func c"
  shows "\<exists>sl' p' H'. analyzer_handle_all True es sl p = Some (sl', p',
      map (\<lambda>e. Publish (error_event METRICS_STAT_MODBUS_CRC_ERRORS (ev_timestamp_us e))) es)
    \<and> slab_owns p' H' \<and> card H' = card H + length es \<and> slab_ptr sl' = None \<and> slicer_config_ptr sl' = Some c"
  using assms
proof (induction es arbitrary: sl p H)
  case (Cons e es)
  have "H \<noteq> {..<SLAB_POOL_SIZE}" using Cons.prems(4) by auto
  then obtain sl1 p1 i where h: "analyzer_handle_event True e sl p
      = Some (sl1, p1, [Publish (error_event METRICS_STAT_MODBUS_CRC_ERRORS (ev_timestamp_us e))])"
    "i \<notin> H" "slab_owns p1 (insert i H)" "slab_ptr sl1 = None" "slicer_config_ptr sl1 = Some c"
    using handle_line_frame [of e p H sl c] Cons.prems by auto
  have "\<exists>sl' p' H'. analyzer_handle_all True es sl1 p1 = Some (sl', p',
      map (\<lambda>e. Publish (error_event METRICS_STAT_MODBUS_CRC_ERRORS (ev_timestamp_us e))) es)
    \<and> slab_owns p' H' \<and> card H' = card (insert i H) + length es \<and> slab_ptr sl' = None \<and> slicer_config_ptr sl' = Some c"
    by (rule Cons.IH) (use Cons.prems h in auto)
  with h show ?case using Cons.prems(3) by auto
qed auto

lemma handle_frames_exhausted:
  assumes "\<forall>e \<in> set es. line_frame e" and "slab_owns p {..<SLAB_POOL_SIZE}"
    and "slab_ptr sl = None" and "slicer_config_ptr sl = Some c" "on_frame_func c"
  shows "\<exists>sl'. analyzer_handle_all True es sl p = Some (sl', p,
      map (\<lambda>e. Publish (error_event METRICS_STAT_MODBUS_NO_MEM_ERRORS (ev_timestamp_us e))) es)"
  using assms
proof (induction es arbitrary: sl)
  case (Cons e es)
  obtain sl1 where h: "analyzer_handle_event True e sl p
      = Some (sl1, p, [Publish (error_event METRICS_STAT_MODBUS_NO_MEM_ERRORS (ev_timestamp_us e))])"
    "slab_ptr sl1 = None" "slicer_config_ptr sl1 = Some c"
    using handle_line_frame_exhausted [of e p sl c] Cons.prems by auto
  from Cons.IH [OF _ Cons.prems(2) h(2,3) Cons.prems(5)] Cons.prems(1) h(1) show ?case by auto
qed simp

lemma handle_all_append:
  "analyzer_handle_all has_cb es sl p = Some (sl1, p1, c1) \<Longrightarrow> analyzer_handle_all has_cb fs sl1 p1 = Some (sl2, p2, c2)
     \<Longrightarrow> analyzer_handle_all has_cb (es @ fs) sl p = Some (sl2, p2, c1 @ c2)"
proof (induction es arbitrary: sl p c1)
  case (Cons e es)
  from Cons.prems(1) obtain sla pa ca cb where "analyzer_handle_event has_cb e sl p = Some (sla, pa, ca)"
    "analyzer_handle_all has_cb es sla pa = Some (sl1, p1, cb)" "c1 = ca @ cb"
    by (auto simp: bind_eq_Some_conv)
  with Cons.IH [of sla pa cb] Cons.prems(2) show ?case by simp
qed simp

section \<open>Properties\<close>

text \<open>
  C22. A whole frame that ends in its checksum passes from the line to the frame callback: exactly
  one call, with a slab that nobody else holds, the frame's bytes and the time of the event; the
  slicer is idle again and no slab of another holder changes.
\<close>

theorem analyzer_delivers_frame:
  assumes "line_frame e" and "frame_ok e" and "slab_owns p H" and "H \<noteq> {..<32}"
    and "slab_ptr sl = None" and "slicer_config_ptr sl = Some c" and "on_frame_func c"
  shows "\<exists>sl' p' i. analyzer_handle_event True e sl p = Some (sl', p',
      [On_frame \<lparr>mf_slab_ptr = Some i, mf_timestamp_us = ev_timestamp_us e\<rparr>])
    \<and> i \<notin> H \<and> slab_owns p' (insert i H) \<and> slab_ptr sl' = None
    \<and> slab_length (slab_at p' i) = ev_length e
    \<and> take (ev_length e) (slab_data (slab_at p' i)) = take (ev_length e) (ev_data e)
    \<and> (\<forall>j \<in> H. slab_at p' j = slab_at p j)"
proof -
  have "H \<noteq> {..<SLAB_POOL_SIZE}" using assms(4) by (simp add: SLAB_POOL_SIZE_def)
  from handle_line_frame [OF assms(1,3) this assms(5-7)] assms(2) show ?thesis
    by (auto simp: frame_bytes_def)
qed

text \<open>The CRC of the request bytes 01 03 appended to them, and a slicer that waits for a frame.\<close>

definition frame_example :: "bytes \<Rightarrow> rs485_driver_event" where
  "frame_example bs = \<lparr>ev_data = bs, ev_length = length bs, ev_timestamp_us = 5, ev_flags = 3\<rparr>"

definition signed_example :: bytes where
  "signed_example = [1, 3] @ le16 (calculate_modbus_crc16_lut [1, 3])"

lemma signed_example: "line_frame (frame_example signed_example)" "frame_ok (frame_example signed_example)"
proof -
  let ?crc = "calculate_modbus_crc16_lut [1, 3]"
  have "le16 ?crc = [ucast ?crc, ucast (drop_bit 8 ?crc)]" by (simp add: le16_def)
  then have "calculate_modbus_crc16_lut signed_example = 0"
    unfolding signed_example_def using of_le16_le16 [of ?crc] by (simp only: crc16_append2_eq_0)
  then show "line_frame (frame_example signed_example)" "frame_ok (frame_example signed_example)"
    by (simp_all add: line_frame_def frame_ok_def frame_bytes_def frame_example_def) (simp_all add: signed_example_def)
qed

lemma analyzer_delivers_frame_witness:
  "\<exists>sl' p' i. analyzer_handle_event True (frame_example signed_example) slicer_example
      (snd (slab_pool_init True slab_pool_static))
      = Some (sl', p', [On_frame \<lparr>mf_slab_ptr = Some i, mf_timestamp_us = 5\<rparr>])
    \<and> take 4 (slab_data (slab_at p' i)) = signed_example"
proof -
  have s: "slab_ptr slicer_example = None" "slicer_config_ptr slicer_example = Some slicer_config_example"
    "on_frame_func slicer_config_example" "({} :: slab_ref set) \<noteq> {..<32}"
    using lessThan_empty_iff [of "32 :: nat"]
    by (simp_all add: slicer_example_def slicer_config_example_def eq_commute [of "{}"])
  have l: "ev_timestamp_us (frame_example signed_example) = 5" "ev_length (frame_example signed_example) = 4"
    "take 4 (ev_data (frame_example signed_example)) = signed_example"
    by (simp_all add: frame_example_def signed_example_def)
  show ?thesis
    using analyzer_delivers_frame [OF signed_example slab_owns_init s(4,1-3)] unfolding l by blast
qed

text \<open>
  C36. Frames with a bad checksum use up the pool. The analyzer counts the error but never frees
  the slab, although it is the last holder: after 32 such frames, ever, every slab is gone, and
  every frame after them - correct or not - is dropped as an out-of-memory error.
\<close>

theorem analyzer_bad_frames_exhaust_pool:
  assumes "slab_owns p {}" and "slab_ptr sl = None" and "slicer_config_ptr sl = Some c" and "on_frame_func c"
    and "length es = 32" and "\<forall>e \<in> set es. line_frame e \<and> \<not> frame_ok e" and "\<forall>e \<in> set fs. line_frame e"
  shows "\<exists>sl' p'. analyzer_handle_all True (es @ fs) sl p = Some (sl', p',
      map (\<lambda>e. Publish (error_event METRICS_STAT_MODBUS_CRC_ERRORS (ev_timestamp_us e))) es
      @ map (\<lambda>e. Publish (error_event METRICS_STAT_MODBUS_NO_MEM_ERRORS (ev_timestamp_us e))) fs)
    \<and> slab_owns p' {..<32}"
proof -
  obtain sl1 p1 H where h: "analyzer_handle_all True es sl p = Some (sl1, p1,
      map (\<lambda>e. Publish (error_event METRICS_STAT_MODBUS_CRC_ERRORS (ev_timestamp_us e))) es)"
    "slab_owns p1 H" "card H = 32" "slab_ptr sl1 = None" "slicer_config_ptr sl1 = Some c"
    using handle_bad_frames [OF assms(6,1) _ _ assms(2,3,4)] assms(5) by (auto simp: SLAB_POOL_SIZE_def)
  have "H \<subseteq> {..<32}" using slab_owns_bound [OF h(2)] by (simp add: SLAB_POOL_SIZE_def)
  with h(3) have "H = {..<32}" by (simp add: card_subset_eq)
  with h(2) have own: "slab_owns p1 {..<SLAB_POOL_SIZE}" "slab_owns p1 {..<32}" by (simp_all add: SLAB_POOL_SIZE_def)
  from handle_frames_exhausted [OF assms(7) own(1) h(4,5) assms(4)] handle_all_append [OF h(1)] own(2)
  show ?thesis by blast
qed

lemma analyzer_bad_frames_exhaust_pool_witness:
  "\<exists>sl' p'. analyzer_handle_all True (replicate 32 (frame_example [1]) @ [frame_example signed_example]) slicer_example
      (snd (slab_pool_init True slab_pool_static))
      = Some (sl', p', replicate 32 (Publish (error_event METRICS_STAT_MODBUS_CRC_ERRORS 5))
          @ [Publish (error_event METRICS_STAT_MODBUS_NO_MEM_ERRORS 5)])"
proof -
  have s: "slab_ptr slicer_example = None" "slicer_config_ptr slicer_example = Some slicer_config_example"
    "on_frame_func slicer_config_example" by (simp_all add: slicer_example_def slicer_config_example_def)
  have f: "length (replicate 32 (frame_example [1])) = 32" "\<forall>e \<in> set (replicate 32 (frame_example [1])). line_frame e \<and> \<not> frame_ok e"
    "\<forall>e \<in> set [frame_example signed_example]. line_frame e"
    using signed_example by (simp_all add: line_frame_def frame_ok_def frame_example_def)
  have t: "ev_timestamp_us (frame_example bs) = 5" for bs by (simp add: frame_example_def)
  show ?thesis
    using analyzer_bad_frames_exhaust_pool [OF slab_owns_init s f] by (auto simp: map_replicate_const t)
qed

end
