(* ===== verification/Serializer.thy ===== *)
theory Serializer imports Slab_Pool "HOL-Library.Monad_Syntax" begin

text \<open>
  The serializer of \<open>components/serializer/serializer.c\<close>. The message is the record of
  \<open>modbus.proto\<close>; the packed size and the packing come from code that protobuf-c generates, so
  they are parameters, documented to agree on the length.
\<close>

record modbus_frame_msg =
  msg_timestamp_us :: "64 word"
  msg_data :: bytes
  msg_slave_address :: u32
  msg_function_code :: u32

definition serializer_pack ::
    "(modbus_frame_msg \<Rightarrow> nat) \<Rightarrow> (modbus_frame_msg \<Rightarrow> bytes) \<Rightarrow> slab_ref option \<Rightarrow> int \<Rightarrow> slab_ref option \<Rightarrow> slab_pool
       \<Rightarrow> (esp_err \<times> slab_pool) option" where
  "serializer_pack packed_size pack src_ptr timestamp_us dst_ptr p =
     (case (src_ptr, dst_ptr) of
        (Some i, Some j) \<Rightarrow>
          do {
            let src = slab_at p i;
            data \<leftarrow> buf_read (slab_data src) 0 (slab_length src);
            let msg = \<lparr>msg_timestamp_us = of_int timestamp_us, msg_data = data,
                       msg_slave_address = (if 2 \<le> slab_length src then ucast (slab_data src ! 0) else 0),
                       msg_function_code = (if 2 \<le> slab_length src then ucast (slab_data src ! 1) else 0)\<rparr>;
            let needed = packed_size msg;
            if needed \<le> SLAB_POOL_MAX_DATA_SIZE then do {
              dst \<leftarrow> buf_write (slab_data (slab_at p j)) 0 (pack msg);
              Some (ESP_OK, put_slab j ((slab_at p j)\<lparr>slab_data := dst, slab_length := needed\<rparr>) p)
            }
            else Some (ESP_ERR_NO_MEM, p)
          }
      | _ \<Rightarrow> Some (ESP_ERR_INVALID_ARG, p))"

text \<open>The message of a frame's bytes.\<close>

definition frame_message :: "int \<Rightarrow> bytes \<Rightarrow> modbus_frame_msg" where
  "frame_message ts bs = \<lparr>msg_timestamp_us = of_int ts, msg_data = bs,
     msg_slave_address = (if 2 \<le> length bs then ucast (bs ! 0) else 0),
     msg_function_code = (if 2 \<le> length bs then ucast (bs ! 1) else 0)\<rparr>"

text \<open>Packing never leaves a slab, and it stores the packed message of the source's bytes.\<close>

lemma serializer_pack_outcome:
  assumes len: "\<forall>m. length (pack m) = packed_size m"
    and own: "slab_owns p H" "j \<in> H" and src: "slab_length (slab_at p i) \<le> length (slab_data (slab_at p i))"
    and bs: "bs = take (slab_length (slab_at p i)) (slab_data (slab_at p i))"
  shows "\<exists>err p'. serializer_pack packed_size pack (Some i) ts (Some j) p = Some (err, p') \<and> slab_owns p' H
    \<and> (\<forall>k. k \<noteq> j \<longrightarrow> slab_at p' k = slab_at p k)
    \<and> (if packed_size (frame_message ts bs) \<le> SLAB_POOL_MAX_DATA_SIZE
       then err = ESP_OK \<and> slab_length (slab_at p' j) = packed_size (frame_message ts bs)
         \<and> take (slab_length (slab_at p' j)) (slab_data (slab_at p' j)) = pack (frame_message ts bs)
       else err = ESP_ERR_NO_MEM \<and> p' = p)"
proof -
  let ?s = "slab_at p i" and ?m = "frame_message ts bs"
  have at: "j < length (pool p)" "length (slab_data (slab_at p j)) = SLAB_POOL_MAX_DATA_SIZE"
    using own slab_owns_bound [OF own(1)] by (auto simp: slab_owns_def slab_pool_wf_def)
  have rd: "buf_read (slab_data ?s) 0 (slab_length ?s) = Some bs" using src bs by (simp add: buf_read_def)
  have "length bs = slab_length ?s" using src bs by simp
  then have m: "\<lparr>msg_timestamp_us = of_int ts, msg_data = bs,
      msg_slave_address = (if 2 \<le> slab_length ?s then ucast (slab_data ?s ! 0) else 0),
      msg_function_code = (if 2 \<le> slab_length ?s then ucast (slab_data ?s ! 1) else 0)\<rparr> = ?m"
    using bs by (simp add: frame_message_def)
  show ?thesis
  proof (cases "packed_size ?m \<le> SLAB_POOL_MAX_DATA_SIZE")
    case False
    with rd m own show ?thesis by (simp add: serializer_pack_def Let_def)
  next
    case True
    let ?d = "pack ?m @ drop (packed_size ?m) (slab_data (slab_at p j))"
    let ?p = "put_slab j ((slab_at p j)\<lparr>slab_data := ?d, slab_length := packed_size ?m\<rparr>) p"
    have "buf_write (slab_data (slab_at p j)) 0 (pack ?m) = Some ?d" using True at len by (simp add: buf_write_ok)
    then have "serializer_pack packed_size pack (Some i) ts (Some j) p = Some (ESP_OK, ?p)"
      using True rd m by (simp add: serializer_pack_def Let_def)
    moreover have "slab_owns ?p H" using own True at len by (intro slab_owns_put) auto
    ultimately show ?thesis using True at len by (auto simp: slab_at_put_slab)
  qed
qed

end
