(* ===== verification/Telemetry_Pipeline.thy ===== *)
theory Telemetry_Pipeline imports Modbus_Analyzer Serializer begin

text \<open>
  The pipeline of \<open>components/telemetry_pipeline/telemetry_pipeline.c\<close>: a queue of captured frames
  and the task that serializes each into a second slab and hands that to the record callback.
\<close>

section \<open>State\<close>

record telemetry_pipeline_record =
  rec_slab_ptr :: "slab_ref option"
  rec_timestamp_us :: int

text \<open>\<open>pipeline_work_pending\<close> is the local of the task that lives from turn to turn.\<close>

record ('q, 'r, 'e) telemetry_pipeline =
  telemetry_pipeline_task_handle :: task_handle
  raw_frame_queue :: "'q option"
  record_ready_callback :: bool
  analyzer :: "('r, 'e) modbus_analyzer"
  pipeline_work_pending :: bool

definition TELEMETRY_PIPELINE_RAW_FRAME_QUEUE_LENGTH :: nat where "TELEMETRY_PIPELINE_RAW_FRAME_QUEUE_LENGTH = 32"
definition TELEMETRY_PIPELINE_TASK_NOTIFY_STOP_BIT :: u32 where "TELEMETRY_PIPELINE_TASK_NOTIFY_STOP_BIT = 1"
definition TELEMETRY_PIPELINE_TASK_NOTIFY_FRAME_BIT :: u32 where "TELEMETRY_PIPELINE_TASK_NOTIFY_FRAME_BIT = 2"

section \<open>Operations\<close>

text \<open>The frame callback of the analyzer; a full queue drops the frame and says nothing.\<close>

definition telemetry_pipeline_enqueue_raw_frame ::
    "('q, modbus_analyzer_frame) rtos_queue \<Rightarrow> modbus_analyzer_frame option \<Rightarrow> ('q, 'r, 'e) telemetry_pipeline
       \<Rightarrow> ('q, 'r, 'e) telemetry_pipeline option" where
  "telemetry_pipeline_enqueue_raw_frame Q raw_frame_ptr t =
     (case raw_frame_ptr of
        None \<Rightarrow> Some t
      | Some fr \<Rightarrow> do {
          q \<leftarrow> raw_frame_queue t;
          let (sent, q') = q_send Q fr q;
          if sent then do {
            h \<leftarrow> xTaskNotify TELEMETRY_PIPELINE_TASK_NOTIFY_FRAME_BIT (telemetry_pipeline_task_handle t);
            Some (t\<lparr>raw_frame_queue := Some q', telemetry_pipeline_task_handle := h\<rparr>)
          }
          else Some (t\<lparr>raw_frame_queue := Some q'\<rparr>)
        })"

text \<open>One frame: serialize it into a new slab, pass that on, and release the frame's slab.\<close>

definition pipeline_process ::
    "(modbus_frame_msg \<Rightarrow> nat) \<Rightarrow> (modbus_frame_msg \<Rightarrow> bytes) \<Rightarrow> bool \<Rightarrow> modbus_analyzer_frame \<Rightarrow> slab_pool
       \<Rightarrow> (slab_pool \<times> telemetry_pipeline_record option) option" where
  "pipeline_process packed_size pack has_cb raw p =
     do {
       let (slab, p) = slab_pool_alloc p;
       (p, out) \<leftarrow> (case slab of
           None \<Rightarrow> Some (p, None)
         | Some j \<Rightarrow> do {
             (err, p) \<leftarrow> serializer_pack packed_size pack (mf_slab_ptr raw) (mf_timestamp_us raw) (Some j) p;
             Some (if err = ESP_OK \<and> has_cb
                   then (p, Some \<lparr>rec_slab_ptr = Some j, rec_timestamp_us = mf_timestamp_us raw\<rparr>)
                   else (slab_pool_free (Some j) p, None))
           });
       Some (slab_pool_free (mf_slab_ptr raw) p, out)
     }"

definition telemetry_pipeline_task_turn ::
    "('q, modbus_analyzer_frame) rtos_queue \<Rightarrow> (modbus_frame_msg \<Rightarrow> nat) \<Rightarrow> (modbus_frame_msg \<Rightarrow> bytes)
       \<Rightarrow> ('q, 'r, 'e) telemetry_pipeline \<Rightarrow> slab_pool
       \<Rightarrow> (bool \<times> ('q, 'r, 'e) telemetry_pipeline \<times> slab_pool \<times> telemetry_pipeline_record option) option" where
  "telemetry_pipeline_task_turn Q packed_size pack t p =
     do {
       pending \<leftarrow> telemetry_pipeline_task_handle t;
       let (notified, rest) = xTaskNotifyWait pending;
       if notified AND TELEMETRY_PIPELINE_TASK_NOTIFY_STOP_BIT \<noteq> 0
       then Some (False, t\<lparr>telemetry_pipeline_task_handle := None\<rparr>, p, None)
       else do {
         q \<leftarrow> raw_frame_queue t;
         (q, p, out) \<leftarrow> (case q_receive Q q of
             None \<Rightarrow> Some (q, p, None)
           | Some (raw, q') \<Rightarrow> do {
               (p, out) \<leftarrow> pipeline_process packed_size pack (record_ready_callback t) raw p;
               Some (q', p, out)
             });
         Some (True, t\<lparr>telemetry_pipeline_task_handle := Some rest, raw_frame_queue := Some q,
                       pipeline_work_pending := 0 < q_waiting Q q\<rparr>, p, out)
       }
     }"

definition telemetry_pipeline_stop_task :: "('q, 'r, 'e) telemetry_pipeline \<Rightarrow> ('q, 'r, 'e) telemetry_pipeline" where
  "telemetry_pipeline_stop_task t =
     (case xTaskNotify TELEMETRY_PIPELINE_TASK_NOTIFY_STOP_BIT (telemetry_pipeline_task_handle t) of
        None \<Rightarrow> t
      | Some h \<Rightarrow> t\<lparr>telemetry_pipeline_task_handle := h\<rparr>)"

definition telemetry_pipeline_init ::
    "esp_err \<times> 'e option \<Rightarrow> esp_err \<times> esp_err \<times> esp_err \<times> esp_err \<times> esp_err \<Rightarrow> (nat \<Rightarrow> 'r option) \<Rightarrow> (nat \<Rightarrow> 'q option)
       \<Rightarrow> modbus_analyzer_config \<Rightarrow> bool \<Rightarrow> ('q, 'r, 'e) telemetry_pipeline
       \<Rightarrow> (bool \<times> ('q, 'r, 'e) telemetry_pipeline \<times> uart_call list) option" where
  "telemetry_pipeline_init installed errs create_events create config has_cb t =
     (if \<not> has_cb then Some (False, t, [])
      else do {
        (err, a, calls) \<leftarrow> modbus_analyzer_init installed errs create_events (analyzer t) (Some (config\<lparr>on_frame_cb := True\<rparr>));
        let t = t\<lparr>analyzer := a\<rparr>;
        if err \<noteq> ESP_OK then Some (False, t, calls)
        else let q = create TELEMETRY_PIPELINE_RAW_FRAME_QUEUE_LENGTH
             in Some (q \<noteq> None, t\<lparr>record_ready_callback := has_cb, raw_frame_queue := q\<rparr>, calls)
      })"

text \<open>The handle of the deleted queue is kept.\<close>

definition telemetry_pipeline_deinit :: "('q, 'r, 'e) telemetry_pipeline \<Rightarrow> ('q, 'r, 'e) telemetry_pipeline \<times> uart_call list" where
  "telemetry_pipeline_deinit t = (let (a, calls) = modbus_analyzer_deinit (analyzer t) in (t\<lparr>analyzer := a\<rparr>, calls))"

section \<open>Slabs\<close>

lemma free_at: "slab_at (slab_pool_free (Some a) q) k = slab_at q k"
  by (cases "a < length (pool q)"; cases "k = a") (auto simp: slab_pool_free_def list_update_beyond)

text \<open>
  A frame's slab is released whatever happens; a new one is held afterwards exactly when a record
  was passed on, and it has the packed message.
\<close>

lemma pipeline_process_slabs:
  assumes len: "\<forall>m. length (pack m) = packed_size m"
    and own: "slab_owns p H" and raw: "mf_slab_ptr raw = Some i" "i \<in> H"
    and src: "slab_length (slab_at p i) \<le> SLAB_POOL_MAX_DATA_SIZE"
  shows "\<exists>p' out. pipeline_process packed_size pack has_cb raw p = Some (p', out)
    \<and> (case out of
         None \<Rightarrow> slab_owns p' (H - {i}) \<and> (H = {..<SLAB_POOL_SIZE} \<or> \<not> has_cb
           \<or> SLAB_POOL_MAX_DATA_SIZE < packed_size (frame_message (mf_timestamp_us raw)
               (take (slab_length (slab_at p i)) (slab_data (slab_at p i)))))
       | Some r \<Rightarrow> \<exists>j. rec_slab_ptr r = Some j \<and> j \<notin> H \<and> slab_owns p' (insert j (H - {i}))
           \<and> rec_timestamp_us r = mf_timestamp_us raw
           \<and> slab_length (slab_at p' j) \<le> SLAB_POOL_MAX_DATA_SIZE
           \<and> take (slab_length (slab_at p' j)) (slab_data (slab_at p' j))
             = pack (frame_message (mf_timestamp_us raw) (take (slab_length (slab_at p i)) (slab_data (slab_at p i)))))
    \<and> (\<forall>k \<in> H - {i}. slab_at p' k = slab_at p k)"
proof (cases "slab_pool_alloc p")
  case (Pair slab p1)
  show ?thesis
  proof (cases slab)
    case None
    with Pair slab_owns_alloc_None [OF own] have "p1 = p" "H = {..<SLAB_POOL_SIZE}" by simp_all
    with Pair None raw slab_owns_release [OF own raw(2)] show ?thesis by (simp add: pipeline_process_def free_at)
  next
    case (Some j)
    note al = slab_owns_alloc_Some [OF own, of j p1] slab_pool_alloc_length [OF own, of j p1]
    have j: "j \<notin> H" "slab_owns p1 (insert j H)" "\<forall>k. k \<noteq> j \<longrightarrow> slab_at p1 k = slab_at p k"
      using al Pair Some by auto
    have ij: "i \<noteq> j" using j(1) raw(2) by blast
    have src1: "slab_length (slab_at p1 i) \<le> length (slab_data (slab_at p1 i))"
      using slab_owns_at [OF own raw(2)] src ij j(3) by simp
    let ?bs = "take (slab_length (slab_at p1 i)) (slab_data (slab_at p1 i))"
    let ?m = "frame_message (mf_timestamp_us raw) ?bs"
    obtain err p2 where pk: "serializer_pack packed_size pack (Some i) (mf_timestamp_us raw) (Some j) p1 = Some (err, p2)"
      "slab_owns p2 (insert j H)" "\<forall>k. k \<noteq> j \<longrightarrow> slab_at p2 k = slab_at p1 k"
      and res: "if packed_size ?m \<le> SLAB_POOL_MAX_DATA_SIZE
       then err = ESP_OK \<and> slab_length (slab_at p2 j) = packed_size ?m
         \<and> take (slab_length (slab_at p2 j)) (slab_data (slab_at p2 j)) = pack ?m
       else err = ESP_ERR_NO_MEM \<and> p2 = p1"
      using serializer_pack_outcome [OF len j(2) insertI1 src1 refl, of "mf_timestamp_us raw"] by blast
    have ok: "slab_length (slab_at p2 j) \<le> SLAB_POOL_MAX_DATA_SIZE
      \<and> take (slab_length (slab_at p2 j)) (slab_data (slab_at p2 j)) = pack ?m" if "err = ESP_OK"
      using res that by (auto split: if_splits)
    show ?thesis
    proof (cases "err = ESP_OK \<and> has_cb")
      case True
      have "insert j H - {i} = insert j (H - {i})" using ij by blast
      then have "slab_owns (slab_pool_free (Some i) p2) (insert j (H - {i}))"
        using slab_owns_release [OF pk(2), of i] raw(2) by simp
      moreover have "\<forall>k \<in> H - {i}. slab_at p2 k = slab_at p k" using pk(3) j(1,3) by auto
      ultimately show ?thesis using True Pair Some raw pk ok j ij
        by (simp add: pipeline_process_def free_at)
    next
      case False
      have "slab_owns (slab_pool_free (Some j) p2) H"
        using slab_owns_release [OF pk(2), of j] j(1) by simp
      then have "slab_owns (slab_pool_free (Some i) (slab_pool_free (Some j) p2)) (H - {i})"
        using raw(2) by (rule slab_owns_release)
      moreover have "\<not> has_cb \<or> SLAB_POOL_MAX_DATA_SIZE < packed_size ?m" using False res by (auto split: if_splits)
      moreover have "slab_at p1 i = slab_at p i" using j(3) ij by simp
      ultimately show ?thesis using False Pair Some raw pk j
        by (auto simp: pipeline_process_def free_at)
    qed
  qed
qed

end
