(* ===== verification/Mqtt_Bridge.thy ===== *)
theory Mqtt_Bridge imports Prelude "HOL-Library.Monad_Syntax" begin

text \<open>
  The connection to the broker of \<open>components/mqtt_bridge/mqtt_bridge.c\<close>. The MQTT client of
  ESP-IDF is a parameter: what its calls return are arguments, and the message handed to it is
  part of the result. The connection lock is taken without a limit, so every access is atomic.
\<close>

record mqtt_bridge =
  client :: bool
  connection_lock :: bool
  notify_cb :: bool
  mqtt_connected :: bool

datatype mqtt_event_id = MQTT_EVENT_CONNECTED | MQTT_EVENT_DISCONNECTED | MQTT_EVENT_OTHER nat

record mqtt_message =
  mqtt_topic :: string
  mqtt_data :: bytes
  mqtt_qos :: nat

text \<open>The second component is the notification, if one is sent.\<close>

definition mqtt_event_handler :: "mqtt_event_id option \<Rightarrow> mqtt_bridge \<Rightarrow> mqtt_bridge \<times> bool option" where
  "mqtt_event_handler event b =
     (case event of
        None \<Rightarrow> (b, None)
      | Some e \<Rightarrow>
          if \<not> connection_lock b then (b, None)
          else (case e of
                  MQTT_EVENT_CONNECTED \<Rightarrow> (b\<lparr>mqtt_connected := True\<rparr>, if notify_cb b then Some True else None)
                | MQTT_EVENT_DISCONNECTED \<Rightarrow> (b\<lparr>mqtt_connected := False\<rparr>, if notify_cb b then Some False else None)
                | MQTT_EVENT_OTHER _ \<Rightarrow> (b, None)))"

definition mqtt_bridge_deinit :: "mqtt_bridge \<Rightarrow> mqtt_bridge" where
  "mqtt_bridge_deinit b = b\<lparr>client := False, connection_lock := False\<rparr>"

text \<open>The events that the client's own task delivers in a stretch of time, with the notifications sent.\<close>

fun mqtt_deliver :: "mqtt_event_id list \<Rightarrow> mqtt_bridge \<Rightarrow> mqtt_bridge \<times> bool list" where
  "mqtt_deliver [] b = (b, [])"
| "mqtt_deliver (e # es) b =
     (let (b', n) = mqtt_event_handler (Some e) b;
          (b'', ns) = mqtt_deliver es b'
      in (b'', (case n of None \<Rightarrow> ns | Some x \<Rightarrow> x # ns)))"

text \<open>
  The initialisation. \<open>early\<close> are the events that the client delivers after it was started and
  before the next statement of the initialisation runs.
\<close>

definition mqtt_bridge_init ::
    "bool \<Rightarrow> bool \<Rightarrow> esp_err \<Rightarrow> esp_err \<Rightarrow> mqtt_event_id list \<Rightarrow> bool option \<Rightarrow> mqtt_bridge
       \<Rightarrow> esp_err \<times> mqtt_bridge \<times> bool list" where
  "mqtt_bridge_init mutex client_created register_err start_err early config b =
     (let err = (if config = None then ESP_ERR_INVALID_ARG else ESP_OK);
          (err, b) = (if err = ESP_OK
            then (if mutex then ESP_OK else ESP_ERR_NO_MEM, b\<lparr>connection_lock := mutex\<rparr>) else (err, b));
          (err, b) = (if err = ESP_OK
            then (if client_created then ESP_OK else ESP_FAIL, b\<lparr>client := client_created\<rparr>) else (err, b));
          err = (if err = ESP_OK then register_err else err);
          err' = (if err = ESP_OK then start_err else err);
          (b, ns) = (if err = ESP_OK \<and> start_err = ESP_OK then mqtt_deliver early b else (b, []))
      in if err' = ESP_OK
         then (ESP_OK, b\<lparr>mqtt_connected := False, notify_cb := the config\<rparr>, ns)
         else (err', mqtt_bridge_deinit b, ns))"

definition mqtt_bridge_is_connected :: "mqtt_bridge \<Rightarrow> bool" where
  "mqtt_bridge_is_connected b \<longleftrightarrow> connection_lock b \<and> mqtt_connected b"

text \<open>
  \<open>send\<close> is the message id that the client returns. Reading \<open>len\<close> bytes beyond the object is
  undefined (\<open>None\<close>).
\<close>

definition mqtt_bridge_publish ::
    "(mqtt_message \<Rightarrow> int) \<Rightarrow> mqtt_bridge \<Rightarrow> string \<Rightarrow> bytes option \<Rightarrow> nat \<Rightarrow> nat
       \<Rightarrow> (esp_err \<times> mqtt_message option) option" where
  "mqtt_bridge_publish send b topic data_ptr len qos =
     (case data_ptr of
        None \<Rightarrow> Some (ESP_ERR_INVALID_ARG, None)
      | Some data \<Rightarrow>
          if \<not> client b \<or> \<not> connection_lock b \<or> len = 0 then Some (ESP_ERR_INVALID_ARG, None)
          else if \<not> mqtt_bridge_is_connected b then Some (ESP_FAIL, None)
          else do {
            bs \<leftarrow> buf_read data 0 len;
            let msg = \<lparr>mqtt_topic = topic, mqtt_data = bs, mqtt_qos = qos\<rparr>;
            Some (if 0 \<le> send msg then ESP_OK else ESP_FAIL, Some msg)
          })"

section \<open>Facts\<close>

lemma mqtt_deliver_fields: "client (fst (mqtt_deliver es b)) = client b \<and> connection_lock (fst (mqtt_deliver es b)) = connection_lock b
   \<and> notify_cb (fst (mqtt_deliver es b)) = notify_cb b"
proof (induction es arbitrary: b)
  case (Cons e es)
  have "client (fst (mqtt_event_handler (Some e) b)) = client b
    \<and> connection_lock (fst (mqtt_event_handler (Some e) b)) = connection_lock b
    \<and> notify_cb (fst (mqtt_event_handler (Some e) b)) = notify_cb b"
    by (auto simp: mqtt_event_handler_def split: mqtt_event_id.split)
  with Cons.IH [of "fst (mqtt_event_handler (Some e) b)"] show ?case by (simp add: case_prod_beta Let_def)
qed simp

lemma mqtt_deliver_silent: "\<not> notify_cb b \<Longrightarrow> snd (mqtt_deliver es b) = []"
proof (induction es arbitrary: b)
  case (Cons e es)
  have "snd (mqtt_event_handler (Some e) b) = None" "\<not> notify_cb (fst (mqtt_event_handler (Some e) b))"
    using Cons.prems by (auto simp: mqtt_event_handler_def split: mqtt_event_id.split)
  with Cons.IH [of "fst (mqtt_event_handler (Some e) b)"] show ?case by (simp add: case_prod_beta Let_def)
qed simp

lemma mqtt_deliver_last:
  "connection_lock b \<Longrightarrow> mqtt_connected (fst (mqtt_deliver (es @ [MQTT_EVENT_CONNECTED]) b))"
proof (induction es arbitrary: b)
  case (Cons e es)
  have "connection_lock (fst (mqtt_event_handler (Some e) b))"
    using Cons.prems by (auto simp: mqtt_event_handler_def split: mqtt_event_id.split)
  with Cons.IH [of "fst (mqtt_event_handler (Some e) b)"] show ?case by (simp add: case_prod_beta Let_def)
qed (simp add: mqtt_event_handler_def)

section \<open>Properties\<close>

text \<open>
  A connection that comes up while the initialisation still runs is lost. The client is
  started before the connection flag is cleared and the callback is set: whatever it reports in
  between, the bridge ends up not connected without any notification sent, and every publication
  fails although the client is connected.
\<close>

theorem mqtt_early_connection_lost:
  assumes "\<not> notify_cb b" and "0 < len" and "len \<le> length data"
  shows "\<exists>b'. mqtt_bridge_init True True ESP_OK ESP_OK (es @ [MQTT_EVENT_CONNECTED]) (Some cb) b = (ESP_OK, b', [])
    \<and> mqtt_connected (fst (mqtt_deliver (es @ [MQTT_EVENT_CONNECTED]) (b\<lparr>connection_lock := True, client := True\<rparr>)))
    \<and> \<not> mqtt_bridge_is_connected b'
    \<and> mqtt_bridge_publish send b' topic (Some data) len qos = Some (ESP_FAIL, None)"
proof -
  let ?b = "b\<lparr>connection_lock := True, client := True\<rparr>"
  obtain b1 ns where d: "mqtt_deliver (es @ [MQTT_EVENT_CONNECTED]) ?b = (b1, ns)" by (meson surj_pair)
  have "mqtt_connected (fst (mqtt_deliver (es @ [MQTT_EVENT_CONNECTED]) ?b))" by (intro mqtt_deliver_last) simp
  moreover have "ns = []" using mqtt_deliver_silent [of ?b "es @ [MQTT_EVENT_CONNECTED]"] d assms(1) by simp
  moreover have "client b1" "connection_lock b1" using mqtt_deliver_fields [of "es @ [MQTT_EVENT_CONNECTED]" ?b] d by simp_all
  ultimately show ?thesis using d assms
    by (simp add: mqtt_bridge_init_def mqtt_bridge_is_connected_def mqtt_bridge_publish_def)
qed

definition mqtt_bridge_example :: mqtt_bridge where
  "mqtt_bridge_example = \<lparr>client = False, connection_lock = False, notify_cb = False, mqtt_connected = False\<rparr>"

lemma mqtt_early_connection_lost_witness:
  "\<exists>b'. mqtt_bridge_init True True ESP_OK ESP_OK [MQTT_EVENT_CONNECTED] (Some True) mqtt_bridge_example = (ESP_OK, b', [])
    \<and> mqtt_bridge_publish (\<lambda>_. 1) b' ''t'' (Some [1]) 1 0 = Some (ESP_FAIL, None)"
  using mqtt_early_connection_lost [of mqtt_bridge_example 1 "[1]" "[]" True "\<lambda>_. 1" "''t''" 0]
  by (auto simp: mqtt_bridge_example_def)

end
