(* ===== verification/Telemetry_Service.thy ===== *)
theory Telemetry_Service imports Telemetry_Pipeline Mqtt_Bridge begin

text \<open>
  The publishing side, \<open>components/telemetry_service/telemetry_service.c\<close>: the topics, the online
  flag, the queue of live records and the task that publishes them and replays the backlog. The
  state lock is tried without waiting, so every access has its outcome as an argument; \<open>send\<close> is
  what the MQTT client returns for a message. Messages handed to the client and error events are
  part of the result, in order.
\<close>

section \<open>State\<close>

datatype telemetry_service_topic =
  TELEMETRY_SERVICE_TOPICS_LIVE | TELEMETRY_SERVICE_TOPICS_REPLAY | TELEMETRY_SERVICE_TOPICS_STATUS

fun topic_index :: "telemetry_service_topic \<Rightarrow> nat" where
  "topic_index TELEMETRY_SERVICE_TOPICS_LIVE = 0"
| "topic_index TELEMETRY_SERVICE_TOPICS_REPLAY = 1"
| "topic_index TELEMETRY_SERVICE_TOPICS_STATUS = 2"

definition TELEMETRY_SERVICE_LIVE_QUEUE_LENGTH :: nat where "TELEMETRY_SERVICE_LIVE_QUEUE_LENGTH = 16"
definition TELEMETRY_SERVICE_LIVE_QUOTA :: nat where "TELEMETRY_SERVICE_LIVE_QUOTA = 2"
definition TELEMETRY_SERVICE_REPLAY_QUOTA :: nat where "TELEMETRY_SERVICE_REPLAY_QUOTA = 1"
definition TELEMETRY_SERVICE_FULL_TOPIC_MAX_SIZE :: nat where "TELEMETRY_SERVICE_FULL_TOPIC_MAX_SIZE = 128"
definition TELEMETRY_SERVICE_TASK_NOTIFY_STOP_BIT :: u32 where "TELEMETRY_SERVICE_TASK_NOTIFY_STOP_BIT = 1"
definition TELEMETRY_SERVICE_TASK_NOTIFY_LIVE_BIT :: u32 where "TELEMETRY_SERVICE_TASK_NOTIFY_LIVE_BIT = 2"
definition TELEMETRY_SERVICE_TASK_NOTIFY_REPLAY_BIT :: u32 where "TELEMETRY_SERVICE_TASK_NOTIFY_REPLAY_BIT = 4"
definition TELEMETRY_SERVICE_TASK_NOTIFY_ONLINE_BIT :: u32 where "TELEMETRY_SERVICE_TASK_NOTIFY_ONLINE_BIT = 8"

definition topic_suffixes :: "string list" where
  "topic_suffixes = [''/modbus/live'', ''/modbus/replay'', ''/modbus/status'']"

record 'q telemetry_service =
  topics :: "string list"
  topics_qos :: "nat list"
  telemetry_service_task_handle :: task_handle
  live_queue :: "'q option"
  telemetry_service_state_lock :: bool
  telemetry_service_is_online_flag :: bool
  telemetry_bridge :: mqtt_bridge
  pub_metrics_timer_handle :: bool
  publish_replay_cb_func :: bool
  telemetry_work_pending :: bool

datatype telemetry_call = Sent mqtt_message | Telemetry_event event_bus_t

section \<open>Topics\<close>

text \<open>
  \<open>snprintf\<close> returns the length of the whole text and stores at most 127 characters of it.
  The loop stops at the first topic that does not fit.
\<close>

fun generate_topics_loop :: "string \<Rightarrow> string list \<Rightarrow> esp_err \<times> string list" where
  "generate_topics_loop device_id [] = (ESP_OK, [])"
| "generate_topics_loop device_id (suffix # rest) =
     (let full = ''devices/'' @ device_id @ suffix;
          len = length full;
          stored = take (TELEMETRY_SERVICE_FULL_TOPIC_MAX_SIZE - 1) full
      in if len = 0 \<or> TELEMETRY_SERVICE_FULL_TOPIC_MAX_SIZE \<le> len then (ESP_ERR_INVALID_SIZE, [stored])
         else let (err, ts) = generate_topics_loop device_id rest in (err, stored # ts))"

definition generate_topics_internal :: "string option \<Rightarrow> 'q telemetry_service \<Rightarrow> esp_err \<times> 'q telemetry_service" where
  "generate_topics_internal device_id_ptr s =
     (case device_id_ptr of
        None \<Rightarrow> (ESP_ERR_INVALID_ARG, s)
      | Some device_id \<Rightarrow>
          let (err, ts) = generate_topics_loop device_id topic_suffixes
          in (err, s\<lparr>topics := ts @ drop (length ts) (topics s)\<rparr>))"

section \<open>The online flag\<close>

definition telemetry_service_is_online :: "bool \<Rightarrow> 'q telemetry_service \<Rightarrow> bool" where
  "telemetry_service_is_online got_lock s \<longleftrightarrow>
     telemetry_service_state_lock s \<and> got_lock \<and> telemetry_service_is_online_flag s"

text \<open>Going online notifies the task in any case; a null handle aborts.\<close>

definition telemetry_service_set_online :: "bool \<Rightarrow> bool \<Rightarrow> 'q telemetry_service \<Rightarrow> 'q telemetry_service option" where
  "telemetry_service_set_online got_lock online s =
     do {
       let s = (if telemetry_service_state_lock s \<and> got_lock
                then s\<lparr>telemetry_service_is_online_flag := online\<rparr> else s);
       if online then do {
         h \<leftarrow> xTaskNotify TELEMETRY_SERVICE_TASK_NOTIFY_ONLINE_BIT (telemetry_service_task_handle s);
         Some (s\<lparr>telemetry_service_task_handle := h\<rparr>)
       }
       else Some s
     }"

definition telemetry_service_notify_replay_available :: "'q telemetry_service \<Rightarrow> 'q telemetry_service option" where
  "telemetry_service_notify_replay_available s =
     map_option (\<lambda>h. s\<lparr>telemetry_service_task_handle := h\<rparr>)
       (xTaskNotify TELEMETRY_SERVICE_TASK_NOTIFY_REPLAY_BIT (telemetry_service_task_handle s))"

section \<open>Publishing\<close>

text \<open>The record is a slab's content and a time.\<close>

definition publish_to_topic_helper ::
    "(mqtt_message \<Rightarrow> int) \<Rightarrow> 'q telemetry_service \<Rightarrow> slab \<Rightarrow> int \<Rightarrow> telemetry_service_topic
       \<Rightarrow> (bool \<times> telemetry_call list) option" where
  "publish_to_topic_helper send s content timestamp_us topic =
     do {
       (err, msg) \<leftarrow> mqtt_bridge_publish send (telemetry_bridge s) (topics s ! topic_index topic)
         (Some (slab_data content)) (slab_length content) (topics_qos s ! topic_index topic);
       let sent = (case msg of None \<Rightarrow> [] | Some m \<Rightarrow> [Sent m]);
       Some (if err = ESP_OK then (True, sent)
             else (False, sent @ [Telemetry_event (error_event METRICS_STAT_TELEMETRY_PUBLISH_ERRORS timestamp_us)]))
     }"

definition telemetry_service_publish_live where
  "telemetry_service_publish_live send s content timestamp_us =
     publish_to_topic_helper send s content timestamp_us TELEMETRY_SERVICE_TOPICS_LIVE"

definition telemetry_service_publish_replay where
  "telemetry_service_publish_replay send s content timestamp_us =
     publish_to_topic_helper send s content timestamp_us TELEMETRY_SERVICE_TOPICS_REPLAY"

definition telemetry_service_publish_status where
  "telemetry_service_publish_status send s content timestamp_us =
     publish_to_topic_helper send s content timestamp_us TELEMETRY_SERVICE_TOPICS_STATUS"

definition telemetry_service_enqueue_live ::
    "('q, telemetry_pipeline_record) rtos_queue \<Rightarrow> telemetry_pipeline_record \<Rightarrow> 'q telemetry_service
       \<Rightarrow> (bool \<times> 'q telemetry_service) option" where
  "telemetry_service_enqueue_live Q payload s =
     do {
       q \<leftarrow> live_queue s;
       let (sent, q') = q_send Q payload q;
       let s = s\<lparr>live_queue := Some q'\<rparr>;
       if sent then do {
         h \<leftarrow> xTaskNotify TELEMETRY_SERVICE_TASK_NOTIFY_LIVE_BIT (telemetry_service_task_handle s);
         Some (True, s\<lparr>telemetry_service_task_handle := h\<rparr>)
       }
       else Some (False, s)
     }"

text \<open>The metrics buffer lives on the stack of the timer's task.\<close>

definition handle_system_metrics_internal ::
    "(mqtt_message \<Rightarrow> int) \<Rightarrow> bool \<Rightarrow> int \<Rightarrow> bytes \<Rightarrow> u32 list \<Rightarrow> 'q telemetry_service \<Rightarrow> telemetry_call list option" where
  "handle_system_metrics_internal send got_lock now garbage m s =
     do {
       (err, buf, len) \<leftarrow> metrics_get_snapshot (Some garbage) SLAB_POOL_MAX_DATA_SIZE True m;
       if err = ESP_OK \<and> telemetry_service_is_online got_lock s then do {
         data \<leftarrow> buf;
         n \<leftarrow> len;
         (_, calls) \<leftarrow> telemetry_service_publish_status send s \<lparr>slab_data = data, slab_length = unat n\<rparr> now;
         Some calls
       }
       else Some []
     }"

section \<open>The task\<close>

text \<open>The loop over the live quota; \<open>locks k\<close> is the outcome of its k-th look at the flag.\<close>

fun process_live_quota_loop ::
    "('q, telemetry_pipeline_record) rtos_queue \<Rightarrow> (mqtt_message \<Rightarrow> int) \<Rightarrow> (nat \<Rightarrow> bool) \<Rightarrow> nat \<Rightarrow> nat
       \<Rightarrow> 'q telemetry_service \<Rightarrow> slab_pool \<Rightarrow> ('q telemetry_service \<times> slab_pool \<times> telemetry_call list) option" where
  "process_live_quota_loop Q send locks idx 0 s p = Some (s, p, [])"
| "process_live_quota_loop Q send locks idx (Suc quota) s p =
     (if \<not> telemetry_service_is_online (locks idx) s then Some (s, p, [])
      else do {
        q \<leftarrow> live_queue s;
        (case q_receive Q q of
           None \<Rightarrow> Some (s, p, [])
         | Some (payload, q') \<Rightarrow> do {
             let s = s\<lparr>live_queue := Some q'\<rparr>;
             i \<leftarrow> rec_slab_ptr payload;
             (_, calls) \<leftarrow> telemetry_service_publish_live send s (slab_at p i) (rec_timestamp_us payload);
             (s, p, rest) \<leftarrow> process_live_quota_loop Q send locks (idx + 1) quota s (slab_pool_free (Some i) p);
             Some (s, p, calls @ rest)
           })
      })"

definition process_live_quota_internal where
  "process_live_quota_internal Q send locks s p =
     process_live_quota_loop Q send locks 0 TELEMETRY_SERVICE_LIVE_QUOTA s p"

text \<open>
  The loop over the replay quota. The replay callback acts on the rest of the system, a state of
  type \<open>'w\<close>, and sees the service as it is.
\<close>

fun process_replay_quota_loop ::
    "('q telemetry_service \<Rightarrow> 'w \<Rightarrow> (bool \<times> 'w \<times> telemetry_call list) option) \<Rightarrow> (nat \<Rightarrow> bool) \<Rightarrow> nat \<Rightarrow> nat
       \<Rightarrow> 'q telemetry_service \<Rightarrow> 'w \<Rightarrow> (bool \<times> 'w \<times> telemetry_call list) option" where
  "process_replay_quota_loop cb locks idx 0 s w = Some (True, w, [])"
| "process_replay_quota_loop cb locks idx (Suc quota) s w =
     (if \<not> telemetry_service_is_online (locks idx) s then Some (False, w, [])
      else do {
        (more, w, calls) \<leftarrow> cb s w;
        if \<not> more then Some (False, w, calls)
        else do {
          (more, w, rest) \<leftarrow> process_replay_quota_loop cb locks (idx + 1) quota s w;
          Some (more, w, calls @ rest)
        }
      })"

definition process_replay_quota_internal where
  "process_replay_quota_internal cb locks s w =
     (if \<not> publish_replay_cb_func s then Some (False, w, [])
      else process_replay_quota_loop cb locks 0 TELEMETRY_SERVICE_REPLAY_QUOTA s w)"

text \<open>
  The two halves of a turn. The pool is the part \<open>get_pool\<close> of the rest of the system. The replay
  bit that the task sends to itself is pending at the next turn.
\<close>

definition telemetry_live_step ::
    "('q, telemetry_pipeline_record) rtos_queue \<Rightarrow> (mqtt_message \<Rightarrow> int) \<Rightarrow> ('w \<Rightarrow> slab_pool) \<Rightarrow> (slab_pool \<Rightarrow> 'w \<Rightarrow> 'w)
       \<Rightarrow> (nat \<Rightarrow> bool) \<Rightarrow> 'q telemetry_service \<Rightarrow> 'w \<Rightarrow> ('q telemetry_service \<times> 'w \<times> telemetry_call list) option" where
  "telemetry_live_step Q send get_pool put_pool live_locks s w =
     do {
       q \<leftarrow> live_queue s;
       if 0 < q_waiting Q q then do {
         (s, p, calls) \<leftarrow> process_live_quota_internal Q send live_locks s (get_pool w);
         Some (s, put_pool p w, calls)
       } else Some (s, w, [])
     }"

definition telemetry_replay_step ::
    "('q telemetry_service \<Rightarrow> 'w \<Rightarrow> (bool \<times> 'w \<times> telemetry_call list) option) \<Rightarrow> bool \<Rightarrow> (nat \<Rightarrow> bool)
       \<Rightarrow> 'q telemetry_service \<Rightarrow> 'w \<Rightarrow> ('q telemetry_service \<times> 'w \<times> telemetry_call list) option" where
  "telemetry_replay_step replay got_lock replay_locks s w =
     (if telemetry_service_is_online got_lock s then do {
        (more, w, calls) \<leftarrow> process_replay_quota_internal replay replay_locks s w;
        if more then do {
          s \<leftarrow> telemetry_service_notify_replay_available s;
          Some (s, w, calls)
        }
        else Some (s, w, calls)
      } else Some (s, w, []))"

definition telemetry_service_task_turn ::
    "('q, telemetry_pipeline_record) rtos_queue \<Rightarrow> (mqtt_message \<Rightarrow> int)
       \<Rightarrow> ('q telemetry_service \<Rightarrow> 'w \<Rightarrow> (bool \<times> 'w \<times> telemetry_call list) option)
       \<Rightarrow> ('w \<Rightarrow> slab_pool) \<Rightarrow> (slab_pool \<Rightarrow> 'w \<Rightarrow> 'w) \<Rightarrow> (nat \<Rightarrow> bool) \<Rightarrow> bool \<Rightarrow> (nat \<Rightarrow> bool)
       \<Rightarrow> 'q telemetry_service \<Rightarrow> 'w \<Rightarrow> (bool \<times> 'q telemetry_service \<times> 'w \<times> telemetry_call list) option" where
  "telemetry_service_task_turn Q send replay get_pool put_pool live_locks got_lock replay_locks s w =
     do {
       pending \<leftarrow> telemetry_service_task_handle s;
       let (notified, rest) = xTaskNotifyWait pending;
       if notified AND TELEMETRY_SERVICE_TASK_NOTIFY_STOP_BIT \<noteq> 0
       then Some (False, s\<lparr>telemetry_service_task_handle := None\<rparr>, w, [])
       else do {
         (s, w, c1) \<leftarrow> telemetry_live_step Q send get_pool put_pool live_locks (s\<lparr>telemetry_service_task_handle := Some rest\<rparr>) w;
         (s, w, c2) \<leftarrow> telemetry_replay_step replay got_lock replay_locks s w;
         q \<leftarrow> live_queue s;
         Some (True, s\<lparr>telemetry_work_pending := 0 < q_waiting Q q\<rparr>, w, c1 @ c2)
       }
     }"

definition telemetry_service_stop_task :: "'q telemetry_service \<Rightarrow> 'q telemetry_service" where
  "telemetry_service_stop_task s =
     (case xTaskNotify TELEMETRY_SERVICE_TASK_NOTIFY_STOP_BIT (telemetry_service_task_handle s) of
        None \<Rightarrow> s
      | Some h \<Rightarrow> s\<lparr>telemetry_service_task_handle := h\<rparr>)"

section \<open>Initialisation\<close>

text \<open>
  \<open>bridge b\<close> is the outcome of \<open>mqtt_bridge_init\<close> with the callback \<open>telemetry_service_set_online\<close>;
  \<open>timer_created\<close> and \<open>timer_started\<close> those of the two timer calls.
\<close>

definition telemetry_service_init ::
    "bool \<Rightarrow> (mqtt_bridge \<Rightarrow> esp_err \<times> mqtt_bridge) \<Rightarrow> (nat \<Rightarrow> 'q option) \<Rightarrow> bool \<Rightarrow> bool
       \<Rightarrow> string option option \<Rightarrow> bool \<Rightarrow> 'q telemetry_service \<Rightarrow> bool \<times> 'q telemetry_service" where
  "telemetry_service_init mutex bridge create timer_created timer_started config replay_cb s =
     (let s = s\<lparr>telemetry_service_is_online_flag := False\<rparr>
      in case config of
           None \<Rightarrow> (False, s)
         | Some None \<Rightarrow> (False, s)
         | Some (Some device_id) \<Rightarrow>
             if \<not> replay_cb then (False, s)
             else let s = s\<lparr>telemetry_service_state_lock := mutex\<rparr>
               in if \<not> mutex then (False, s)
                  else let (err, b) = bridge (telemetry_bridge s);
                           s = s\<lparr>publish_replay_cb_func := replay_cb, telemetry_bridge := b\<rparr>
                    in if err \<noteq> ESP_OK then (False, s)
                       else let q = create TELEMETRY_SERVICE_LIVE_QUEUE_LENGTH; s = s\<lparr>live_queue := q\<rparr>
                         in if q = None then (False, s)
                            else let (err, s) = generate_topics_internal (Some device_id) s;
                                     s = s\<lparr>topics_qos := [0, 0, 1]\<rparr>
                              in if err \<noteq> ESP_OK then (False, s)
                                 else let s = (if timer_created then s\<lparr>pub_metrics_timer_handle := True\<rparr> else s)
                                   in (timer_created \<and> timer_started, s))"

definition telemetry_service_deinit :: "'q telemetry_service \<Rightarrow> 'q telemetry_service" where
  "telemetry_service_deinit s =
     s\<lparr>telemetry_bridge := mqtt_bridge_deinit (telemetry_bridge s), live_queue := None,
       telemetry_service_state_lock := False, pub_metrics_timer_handle := False\<rparr>"

section \<open>Facts\<close>

lemma generate_topics_loop_ok:
  "\<forall>x \<in> set ss. length device_id + length x < 120 \<Longrightarrow>
     generate_topics_loop device_id ss = (ESP_OK, map (\<lambda>x. ''devices/'' @ device_id @ x) ss)"
  by (induction ss) (auto simp: TELEMETRY_SERVICE_FULL_TOPIC_MAX_SIZE_def Let_def)

lemma generate_topics_loop_fits: "fst (generate_topics_loop device_id ss) = ESP_OK \<Longrightarrow> \<forall>x \<in> set ss. length device_id + length x < 120"
  by (induction ss) (auto simp: TELEMETRY_SERVICE_FULL_TOPIC_MAX_SIZE_def Let_def case_prod_beta split: if_splits)

section \<open>Properties\<close>

text \<open>
  The topics are accepted exactly when the device id has at most 105 characters. Then the
  three topics are complete, \<open>devices/<id>/modbus/...\<close> in the order of the enumeration, pairwise
  different, and none is longer than its buffer.
\<close>

theorem telemetry_topics_fit:
  assumes "length (topics s) = 3"
  shows "(fst (generate_topics_internal (Some device_id) s) = ESP_OK \<longleftrightarrow> length device_id \<le> 105)
    \<and> (length device_id \<le> 105 \<longrightarrow>
        topics (snd (generate_topics_internal (Some device_id) s)) = map (\<lambda>x. ''devices/'' @ device_id @ x) topic_suffixes
      \<and> distinct (topics (snd (generate_topics_internal (Some device_id) s)))
      \<and> (\<forall>t \<in> set (topics (snd (generate_topics_internal (Some device_id) s))). length t < 128))"
proof -
  have fits: "(\<forall>x \<in> set topic_suffixes. length device_id + length x < 120) \<longleftrightarrow> length device_id \<le> 105"
    by (auto simp: topic_suffixes_def)
  show ?thesis
  proof (cases "length device_id \<le> 105")
    case True
    then have g: "generate_topics_loop device_id topic_suffixes = (ESP_OK, map (\<lambda>x. ''devices/'' @ device_id @ x) topic_suffixes)"
      using fits by (intro generate_topics_loop_ok) blast
    have "length topic_suffixes = 3" by (simp add: topic_suffixes_def)
    then have t: "topics (snd (generate_topics_internal (Some device_id) s)) = map (\<lambda>x. ''devices/'' @ device_id @ x) topic_suffixes"
      using g assms by (simp add: generate_topics_internal_def)
    then show ?thesis using True g by (auto simp: generate_topics_internal_def topic_suffixes_def)
  next
    case False
    then show ?thesis using fits generate_topics_loop_fits [of device_id topic_suffixes]
      by (auto simp: generate_topics_internal_def case_prod_beta)
  qed
qed

definition telemetry_example :: "unit telemetry_service" where
  "telemetry_example = \<lparr>topics = ['''', '''', ''''], topics_qos = [0, 0, 0], telemetry_service_task_handle = Some 0,
     live_queue = None, telemetry_service_state_lock = False, telemetry_service_is_online_flag = False,
     telemetry_bridge = mqtt_bridge_example, pub_metrics_timer_handle = False, publish_replay_cb_func = False,
     telemetry_work_pending = True\<rparr>"

lemma telemetry_topics_fit_witness:
  "fst (generate_topics_internal (Some ''a1'') telemetry_example) = ESP_OK
    \<and> topics (snd (generate_topics_internal (Some ''a1'') telemetry_example)) ! 0 = ''devices/a1/modbus/live''"
  using telemetry_topics_fit [of telemetry_example "''a1''"] by (simp add: telemetry_example_def topic_suffixes_def)

end
