(* ===== verification/Blackbox_Format.thy ===== *)
theory Blackbox_Format imports Utils_Crc begin

text \<open>
  The entry format of the blackbox logger
  (\<open>components/blackbox_logger/private_include/blackbox_logger_internal.h\<close> and the first part of
  \<open>blackbox_logger.c\<close>): size and order helpers, the image of an entry, the validation of a
  candidate entry, and the size of the entries that fit under a ceiling. A pointer into a buffer
  is the rest of the buffer from there on; the result \<open>None\<close> is an access outside the buffer or
  a loop that does not end.
\<close>

section \<open>Codes and sizes\<close>

datatype blackbox_logger_err =
    BLACKBOX_LOGGER_OK
  | BLACKBOX_LOGGER_ERR_FAIL
  | BLACKBOX_LOGGER_ERR_INVALID_ARG
  | BLACKBOX_LOGGER_ERR_NO_MEM
  | BLACKBOX_LOGGER_ERR_TIMEOUT
  | BLACKBOX_LOGGER_ERR_INVALID_CRC
  | BLACKBOX_LOGGER_ERR_INVALID_ENTRY
  | BLACKBOX_LOGGER_ERR_ERASE_FAIL
  | BLACKBOX_LOGGER_ERR_WRITE_FAIL
  | BLACKBOX_LOGGER_ERR_PROCESS_FAIL

definition BLACKBOX_LOGGER_HEADER_MAGIC :: u32 where "BLACKBOX_LOGGER_HEADER_MAGIC = 0x5355424D"
definition BLACKBOX_LOGGER_TAIL_MAGIC :: u32 where "BLACKBOX_LOGGER_TAIL_MAGIC = 0x4D425553"
definition SIZEOF_ENTRY_HEADER :: nat where "SIZEOF_ENTRY_HEADER = 12"
definition SIZEOF_ENTRY_TAIL :: nat where "SIZEOF_ENTRY_TAIL = 6"
definition BLACKBOX_LOGGER_ENTRY_SIZE_WITHOUT_DATA_LENGTH :: nat where
  "BLACKBOX_LOGGER_ENTRY_SIZE_WITHOUT_DATA_LENGTH = SIZEOF_ENTRY_HEADER + SIZEOF_ENTRY_TAIL"

definition align_num_up_helper :: "u32 \<Rightarrow> u32 \<Rightarrow> u32" where
  "align_num_up_helper number align_to = (number + (align_to - 1)) AND NOT (align_to - 1)"

definition entry_total_size_helper :: "nat \<Rightarrow> nat" where
  "entry_total_size_helper data_length = u32_add BLACKBOX_LOGGER_ENTRY_SIZE_WITHOUT_DATA_LENGTH data_length"

definition entry_total_aligned_size_helper :: "nat \<Rightarrow> nat \<Rightarrow> nat" where
  "entry_total_aligned_size_helper data_length align_to =
     unat (align_num_up_helper (of_nat (BLACKBOX_LOGGER_ENTRY_SIZE_WITHOUT_DATA_LENGTH + data_length)) (of_nat align_to))"

definition is_logically_next_in_order_helper :: "nat \<Rightarrow> nat \<Rightarrow> bool" where
  "is_logically_next_in_order_helper candidate reference \<longleftrightarrow> u32_sub candidate reference < 0x80000000"

definition esp_to_blackbox_error_map :: "esp_err \<Rightarrow> blackbox_logger_err" where
  "esp_to_blackbox_error_map err =
     (case err of
        ESP_OK \<Rightarrow> BLACKBOX_LOGGER_OK
      | ESP_ERR_INVALID_ARG \<Rightarrow> BLACKBOX_LOGGER_ERR_INVALID_ARG
      | ESP_ERR_NO_MEM \<Rightarrow> BLACKBOX_LOGGER_ERR_NO_MEM
      | ESP_ERR_TIMEOUT \<Rightarrow> BLACKBOX_LOGGER_ERR_TIMEOUT
      | ESP_ERR_INVALID_CRC \<Rightarrow> BLACKBOX_LOGGER_ERR_INVALID_CRC
      | ESP_FAIL \<Rightarrow> BLACKBOX_LOGGER_ERR_FAIL
      | _ \<Rightarrow> BLACKBOX_LOGGER_ERR_FAIL)"

section \<open>Headers, tails and images\<close>

record blackbox_logger_entry_header =
  header_magic :: u32
  entry_id :: nat
  entry_length :: nat

record blackbox_logger_entry_tail =
  tail_crc :: u16
  tail_magic :: u32

definition header_image :: "blackbox_logger_entry_header \<Rightarrow> bytes" where
  "header_image h = le32 (header_magic h) @ le32 (of_nat (entry_id h)) @ le32 (of_nat (entry_length h))"

definition tail_image :: "blackbox_logger_entry_tail \<Rightarrow> bytes" where
  "tail_image t = le16 (tail_crc t) @ le32 (tail_magic t)"

definition header_of_image :: "bytes \<Rightarrow> blackbox_logger_entry_header" where
  "header_of_image b = \<lparr>header_magic = of_le32 (take 4 b), entry_id = unat (of_le32 (take 4 (drop 4 b))),
     entry_length = unat (of_le32 (take 4 (drop 8 b)))\<rparr>"

definition tail_of_image :: "bytes \<Rightarrow> blackbox_logger_entry_tail" where
  "tail_of_image b = \<lparr>tail_crc = of_le16 (take 2 b), tail_magic = of_le32 (take 4 (drop 2 b))\<rparr>"

text \<open>What a write lays down for a payload: header, payload, and a tail with the CRC of both.\<close>

definition entry_image :: "nat \<Rightarrow> bytes \<Rightarrow> bytes" where
  "entry_image i d =
     (let h = header_image \<lparr>header_magic = BLACKBOX_LOGGER_HEADER_MAGIC, entry_id = i, entry_length = length d\<rparr>
      in h @ d @ tail_image \<lparr>tail_crc = calculate_modbus_crc16_lut (h @ d), tail_magic = BLACKBOX_LOGGER_TAIL_MAGIC\<rparr>)"

section \<open>Validation\<close>

text \<open>
  The size check comes after the tail was read, and the checksum is computed whether or not it
  failed: both accesses depend on the stored length only.
\<close>

definition is_data_entry_internal :: "bytes option \<Rightarrow> nat \<Rightarrow> blackbox_logger_err option" where
  "is_data_entry_internal data_ptr data_size =
     (case data_ptr of
        None \<Rightarrow> Some BLACKBOX_LOGGER_ERR_INVALID_ARG
      | Some mem \<Rightarrow>
          (case buf_read mem 0 SIZEOF_ENTRY_HEADER of
             None \<Rightarrow> None
           | Some hb \<Rightarrow>
               let entry_header = header_of_image hb in
               if header_magic entry_header \<noteq> BLACKBOX_LOGGER_HEADER_MAGIC
               then Some BLACKBOX_LOGGER_ERR_INVALID_ENTRY
               else if data_size < BLACKBOX_LOGGER_ENTRY_SIZE_WITHOUT_DATA_LENGTH
               then Some BLACKBOX_LOGGER_OK
               else let tail_offset = u32_add SIZEOF_ENTRY_HEADER (entry_length entry_header) in
                 (case (buf_read mem tail_offset SIZEOF_ENTRY_TAIL, calculate_modbus_crc16 mem tail_offset) of
                    (Some tb, Some expected_crc) \<Rightarrow>
                      let entry_tail = tail_of_image tb in
                      Some (if data_size < u32_add tail_offset SIZEOF_ENTRY_TAIL then BLACKBOX_LOGGER_ERR_NO_MEM
                            else if tail_crc entry_tail \<noteq> expected_crc then BLACKBOX_LOGGER_ERR_INVALID_CRC
                            else if tail_magic entry_tail \<noteq> BLACKBOX_LOGGER_TAIL_MAGIC
                            then BLACKBOX_LOGGER_ERR_INVALID_ENTRY
                            else BLACKBOX_LOGGER_OK)
                  | _ \<Rightarrow> None)))"

definition validate_entry_internal :: "bytes option \<Rightarrow> nat \<Rightarrow> blackbox_logger_err option" where
  "validate_entry_internal data_ptr data_size =
     (let err = (if data_ptr = None then BLACKBOX_LOGGER_ERR_INVALID_ARG else BLACKBOX_LOGGER_OK);
          err = (if data_size < BLACKBOX_LOGGER_ENTRY_SIZE_WITHOUT_DATA_LENGTH
                 then BLACKBOX_LOGGER_ERR_INVALID_ENTRY else err)
      in if err = BLACKBOX_LOGGER_OK then is_data_entry_internal data_ptr data_size else Some err)"

section \<open>Entries under a ceiling\<close>

definition read32 :: "bytes \<Rightarrow> nat \<Rightarrow> u32 option" where
  "read32 mem off = map_option of_le32 (buf_read mem off 4)"

partial_function (option) chunk_size_loop ::
    "bytes \<Rightarrow> nat \<Rightarrow> nat \<Rightarrow> nat \<Rightarrow> nat \<Rightarrow> nat \<Rightarrow> nat option" where
  "chunk_size_loop mem buf_size ceiling_size align_to max_size buf_offset =
     (if buf_offset < buf_size then
        (case read32 mem buf_offset of
           None \<Rightarrow> None
         | Some magic \<Rightarrow>
             if magic = BLACKBOX_LOGGER_HEADER_MAGIC then
               (case read32 mem (buf_offset + 8) of
                  None \<Rightarrow> None
                | Some len \<Rightarrow>
                    let current_entry_size = entry_total_aligned_size_helper (unat len) align_to in
                    if u32_add max_size current_entry_size \<le> ceiling_size
                    then chunk_size_loop mem buf_size ceiling_size align_to
                           (u32_add max_size current_entry_size) (u32_add buf_offset current_entry_size)
                    else Some max_size)
             else Some max_size)
      else Some max_size)"

definition get_entries_chunk_size_with_ceiling_helper ::
    "bytes option \<Rightarrow> nat \<Rightarrow> nat \<Rightarrow> nat \<Rightarrow> nat option" where
  "get_entries_chunk_size_with_ceiling_helper buf_ptr buf_size ceiling_size align_to =
     (case buf_ptr of
        None \<Rightarrow> Some 0
      | Some mem \<Rightarrow> chunk_size_loop mem buf_size ceiling_size align_to 0 0)"

section \<open>Facts about the helpers\<close>

lemma sizeof_entry [simp]:
  "SIZEOF_ENTRY_HEADER = 12" "SIZEOF_ENTRY_TAIL = 6" "BLACKBOX_LOGGER_ENTRY_SIZE_WITHOUT_DATA_LENGTH = 18"
  by (simp_all add: SIZEOF_ENTRY_HEADER_def SIZEOF_ENTRY_TAIL_def BLACKBOX_LOGGER_ENTRY_SIZE_WITHOUT_DATA_LENGTH_def)

text \<open>The logger's alignments: powers of two up to 16.\<close>

definition alignment :: "nat \<Rightarrow> bool" where
  "alignment a \<longleftrightarrow> (\<exists>k \<le> 4. a = 2 ^ k)"

lemma alignmentD: "alignment a \<Longrightarrow> 0 < a \<and> a \<le> 16"
  using power_increasing [of _ 4 "2 :: nat"] by (fastforce simp: alignment_def)

lemma and_not_mask_u32: "unat (x AND NOT (mask k) :: u32) = unat x div 2 ^ k * 2 ^ k"
proof -
  have "x AND NOT (mask k) = push_bit k (drop_bit k x)"
    by (rule bit_word_eqI) (auto simp: bit_simps)
  moreover have "unat (drop_bit k x) = unat x div 2 ^ k"
    by (simp only: unat_drop_bit_eq drop_bit_eq_div [where 'a = nat])
  moreover have "unat x div 2 ^ k * 2 ^ k < 2 ^ 32"
  proof -
    have "unat x < 2 ^ LENGTH(32)" by (rule unsigned_less)
    then have "unat x < 2 ^ 32" by simp
    then show ?thesis by (rule le_less_trans [OF div_times_less_eq_dividend])
  qed
  moreover have "unat (push_bit k (drop_bit k x)) = take_bit 32 (unat (drop_bit k x) * 2 ^ k)"
    by (simp only: unsigned_push_bit_eq push_bit_eq_mult [where 'a = nat] len_of_numeral_defs) simp
  ultimately show ?thesis by (simp add: take_bit_nat_eq_self)
qed

lemma align_num_up_helper_eq:
  assumes "alignment a" and "n + a \<le> 2 ^ 32"
  shows "unat (align_num_up_helper (of_nat n) (of_nat a)) = (n + (a - 1)) div a * a"
proof -
  obtain k where k: "a = 2 ^ k" "k \<le> 4" using assms(1) by (auto simp: alignment_def)
  have a1: "1 \<le> a" using alignmentD [OF assms(1)] by simp
  have m: "(of_nat a - 1 :: u32) = mask k" by (simp add: k mask_eq_exp_minus_1)
  moreover have "(of_nat n + mask k :: u32) = of_nat (n + (a - 1))"
    using a1 by (simp only: m [symmetric] of_nat_add of_nat_diff of_nat_1)
  moreover have "unat (of_nat (n + (a - 1)) :: u32) = n + (a - 1)"
    using assms(2) alignmentD [OF assms(1)] by (intro unat_of_nat_u32) simp
  ultimately show ?thesis
    by (simp only: align_num_up_helper_def and_not_mask_u32) (simp add: k)
qed

text \<open>The size of an entry in the log, for a payload that a buffer can hold.\<close>

definition entry_size :: "nat \<Rightarrow> nat \<Rightarrow> nat" where
  "entry_size a n = (18 + n + (a - 1)) div a * a"

lemma entry_total_aligned_size_eq:
  assumes "alignment a" and "n < 2 ^ 31"
  shows "entry_total_aligned_size_helper n a = entry_size a n"
proof -
  have "18 + n + a \<le> 2 ^ 32" using assms alignmentD [of a] by simp
  from align_num_up_helper_eq [OF assms(1) this] show ?thesis
    by (simp add: entry_total_aligned_size_helper_def entry_size_def)
qed

lemma entry_size_bounds:
  assumes "alignment a"
  shows "18 + n \<le> entry_size a n \<and> entry_size a n < 18 + n + a \<and> a dvd entry_size a n"
proof -
  have a: "0 < a" using alignmentD [OF assms] by simp
  let ?m = "18 + n + (a - 1)"
  have "?m = ?m div a * a + ?m mod a" by simp
  moreover have "?m mod a < a" using a by simp
  ultimately have "18 + n \<le> ?m div a * a" "?m div a * a \<le> ?m" using a by linarith+
  moreover have "?m < 18 + n + a" using a by simp
  ultimately have "18 + n \<le> ?m div a * a \<and> ?m div a * a < 18 + n + a" by linarith
  then show ?thesis by (simp only: entry_size_def dvd_triv_right simp_thms)
qed

section \<open>Entries are recognised\<close>

lemma length_header_image [simp]: "length (header_image h) = 12"
  by (simp add: header_image_def)

lemma length_tail_image [simp]: "length (tail_image t) = 6"
  by (simp add: tail_image_def)

lemma length_entry_image [simp]: "length (entry_image i d) = 18 + length d"
  by (simp add: entry_image_def Let_def)

lemma header_of_image_image:
  "entry_id h < 4294967296 \<Longrightarrow> entry_length h < 4294967296 \<Longrightarrow> header_of_image (header_image h @ r) = h"
  by (simp add: header_of_image_def header_image_def unat_of_nat_u32)

lemma tail_of_image_image [simp]: "tail_of_image (tail_image t @ r) = t"
  by (simp add: tail_of_image_def tail_image_def)

lemma entry_image_split:
  "entry_image i d = header_image \<lparr>header_magic = BLACKBOX_LOGGER_HEADER_MAGIC, entry_id = i, entry_length = length d\<rparr>
     @ d @ tail_image \<lparr>tail_crc = calculate_modbus_crc16_lut (take (12 + length d) (entry_image i d)),
        tail_magic = BLACKBOX_LOGGER_TAIL_MAGIC\<rparr>"
  by (simp add: entry_image_def Let_def)

text \<open>
  The validation of a well-formed header in terms of the stored length: it looks only at the
  checksum and the tail magic behind the payload.
\<close>

lemma validate_entry_header:
  assumes "header_of_image (take 12 mem) = \<lparr>header_magic = BLACKBOX_LOGGER_HEADER_MAGIC, entry_id = i, entry_length = n\<rparr>"
    and "18 + n \<le> sz" "sz \<le> length mem" "sz < 4294967296"
  shows "validate_entry_internal (Some mem) sz = Some (
      if tail_crc (tail_of_image (drop (12 + n) mem)) \<noteq> calculate_modbus_crc16_lut (take (12 + n) mem)
      then BLACKBOX_LOGGER_ERR_INVALID_CRC
      else if tail_magic (tail_of_image (drop (12 + n) mem)) \<noteq> BLACKBOX_LOGGER_TAIL_MAGIC
      then BLACKBOX_LOGGER_ERR_INVALID_ENTRY else BLACKBOX_LOGGER_OK)"
proof -
  have t: "tail_of_image (take 6 b) = tail_of_image b" for b
    by (simp add: tail_of_image_def drop_take min_def)
  show ?thesis using assms
    by (simp add: validate_entry_internal_def is_data_entry_internal_def calculate_modbus_crc16_def
        buf_read_ok u32_add_small t)
qed

lemma validate_entry_image:
  assumes "i < 4294967296" and "18 + length d \<le> sz" "sz \<le> length (entry_image i d @ r)" "sz < 4294967296"
  shows "validate_entry_internal (Some (entry_image i d @ r)) sz = Some BLACKBOX_LOGGER_OK"
proof -
  let ?h = "\<lparr>header_magic = BLACKBOX_LOGGER_HEADER_MAGIC, entry_id = i, entry_length = length d\<rparr>"
  have "header_of_image (take 12 (entry_image i d @ r)) = ?h"
    using header_of_image_image [of ?h "[]"] assms(1,2,4) by (simp add: entry_image_def Let_def)
  from validate_entry_header [OF this assms(2-4)] show ?thesis
    by (simp add: entry_image_def Let_def tail_of_image_image [of _ "[]", simplified])
qed

section \<open>Entries one after the other\<close>

text \<open>
  A log entry is its number and its payload. The entries \<open>es\<close> lie in \<open>mem\<close> from \<open>off\<close> on, each at
  the next aligned offset.
\<close>

type_synonym log_entry = "nat \<times> bytes"

fun laid_out :: "nat \<Rightarrow> bytes \<Rightarrow> nat \<Rightarrow> log_entry list \<Rightarrow> bool" where
  "laid_out a mem off [] = True"
| "laid_out a mem off ((i, d) # es) \<longleftrightarrow> buf_read mem off (18 + length d) = Some (entry_image i d)
     \<and> off + entry_size a (length d) \<le> length mem \<and> laid_out a mem (off + entry_size a (length d)) es"

definition entries_size :: "nat \<Rightarrow> log_entry list \<Rightarrow> nat" where
  "entries_size a es = sum_list (map (\<lambda>e. entry_size a (length (snd e))) es)"

lemma entries_size_simps [simp]:
  "entries_size a [] = 0"
  "entries_size a ((i, d) # es) = entry_size a (length d) + entries_size a es"
  "entries_size a (es @ fs) = entries_size a es + entries_size a fs"
  by (simp_all add: entries_size_def)

text \<open>The longest run of entries from the front whose total stays under the ceiling.\<close>

fun fit :: "nat \<Rightarrow> nat \<Rightarrow> log_entry list \<Rightarrow> log_entry list" where
  "fit a c [] = []"
| "fit a c ((i, d) # es) =
     (if entry_size a (length d) \<le> c then (i, d) # fit a (c - entry_size a (length d)) es else [])"

lemma fit_size: "entries_size a (fit a c es) \<le> c"
  by (induction a c es rule: fit.induct) auto

lemma fit_prefix: "\<exists>fs. es = fit a c es @ fs \<and> (fs = [] \<or> c < entries_size a (fit a c es) + entry_size a (length (snd (hd fs))))"
proof (induction a c es rule: fit.induct)
  case (2 a c i d es)
  show ?case
  proof (cases "entry_size a (length d) \<le> c")
    case True
    then obtain fs where "es = fit a (c - entry_size a (length d)) es @ fs"
      "fs = [] \<or> c - entry_size a (length d) < entries_size a (fit a (c - entry_size a (length d)) es) + entry_size a (length (snd (hd fs)))"
      using 2 by blast
    with True show ?thesis by (intro exI [of _ fs]) auto
  qed auto
qed simp

lemma laid_out_length: "laid_out a mem off es \<Longrightarrow> off \<le> length mem \<Longrightarrow> off + entries_size a es \<le> length mem"
  by (induction a mem off es rule: laid_out.induct) auto

lemma laid_out_append:
  "laid_out a mem off (es @ fs) \<longleftrightarrow> laid_out a mem off es \<and> laid_out a mem (off + entries_size a es) fs"
  by (induction a mem off es rule: laid_out.induct) (auto simp: add.assoc)

text \<open>Entries stay where they are when the memory changes elsewhere.\<close>

lemma laid_out_cong:
  assumes "laid_out a mem off es" and "alignment a" and "length mem' = length mem"
    and "\<And>i n. off \<le> i \<Longrightarrow> i + n \<le> off + entries_size a es \<Longrightarrow> buf_read mem' i n = buf_read mem i n"
  shows "laid_out a mem' off es"
  using assms
proof (induction a mem off es rule: laid_out.induct)
  case (2 a mem off i d es)
  have b: "18 + length d \<le> entry_size a (length d)" using entry_size_bounds [OF "2.prems"(2)] by blast
  have "laid_out a mem' (off + entry_size a (length d)) es"
    by (rule "2.IH") (use "2.prems" in \<open>auto simp: add.assoc\<close>)
  moreover have "buf_read mem' off (18 + length d) = buf_read mem off (18 + length d)"
    by (rule "2.prems"(4)) (use b in auto)
  ultimately show ?case using "2.prems" by simp
qed simp

lemma laid_out_shift:
  "laid_out a (drop k mem) off es \<longleftrightarrow> laid_out a mem (k + off) es" if "k \<le> length mem"
proof (induction a "drop k mem" off es rule: laid_out.induct)
  case (2 a off i d es)
  have "buf_read (drop k mem) off n = buf_read mem (k + off) n" for n
    using that by (auto simp: buf_read_def add.commute)
  moreover have "off + entry_size a (length d) \<le> length (drop k mem)
      \<longleftrightarrow> k + off + entry_size a (length d) \<le> length mem" using that by auto
  ultimately show ?case using 2 by (simp add: add.assoc)
qed simp

lemma entry_image_header:
  "take 4 (entry_image i d) = le32 BLACKBOX_LOGGER_HEADER_MAGIC"
  "take 4 (drop 8 (entry_image i d)) = le32 (of_nat (length d))"
  by (simp_all add: entry_image_def header_image_def Let_def)

lemma chunk_size_loop_fit:
  assumes "laid_out a mem off es" and "alignment a" and "off \<le> length mem"
    and "length mem < 2 ^ 31" and "m \<le> c" and "c < 2 ^ 31"
  shows "chunk_size_loop mem (off + entries_size a es) c a m off = Some (m + entries_size a (fit a (c - m) es))"
  using assms
proof (induction a mem off es arbitrary: m rule: laid_out.induct)
  case (1 a mem off)
  then show ?case by (subst chunk_size_loop.simps) simp
next
  case (2 a mem off i d es)
  let ?s = "entry_size a (length d)"
  have b: "18 + length d \<le> ?s" using entry_size_bounds [OF "2.prems"(2)] by blast
  have img: "buf_read mem off (18 + length d) = Some (entry_image i d)" and fits: "off + ?s \<le> length mem"
    and rest: "laid_out a mem (off + ?s) es" using "2.prems"(1) by simp_all
  have d: "length d < 2 ^ 31" using b fits "2.prems"(4) by simp
  have m1: "read32 mem off = Some BLACKBOX_LOGGER_HEADER_MAGIC"
    using buf_read_sub [OF img, of 0 4] by (simp add: read32_def entry_image_header)
  have m2: "read32 mem (off + 8) = Some (of_nat (length d))"
    using buf_read_sub [OF img, of 8 4] by (simp add: read32_def entry_image_header)
  have sz: "entry_total_aligned_size_helper (unat (of_nat (length d) :: u32)) a = ?s"
    using d by (simp add: unat_of_nat_u32 entry_total_aligned_size_eq [OF "2.prems"(2)])
  have add: "u32_add m ?s = m + ?s" "u32_add off ?s = off + ?s"
    using fits "2.prems"(4-6) by (simp_all add: u32_add_small)
  have lt: "off < off + entries_size a ((i, d) # es)" using b by simp
  show ?case
  proof (cases "?s \<le> c - m")
    case True
    then have "m + ?s \<le> c" using "2.prems"(5) by simp
    with "2.IH" [OF rest "2.prems"(2) fits "2.prems"(4) this "2.prems"(6)] True lt m1 m2 sz add
    show ?thesis by (subst chunk_size_loop.simps) (simp add: Let_def add.assoc)
  next
    case False
    then have "\<not> m + ?s \<le> c" by simp
    with False lt m1 m2 sz add show ?thesis by (subst chunk_size_loop.simps) (simp add: Let_def)
  qed
qed

section \<open>Properties\<close>

text \<open>
  C34. An entry image is accepted by the validation, whatever follows it, and its header gives
  back the number, the length and with it the payload.
\<close>

theorem blackbox_entry_roundtrip:
  assumes "i < 2 ^ 32" and "18 + length d \<le> sz" "sz \<le> length (entry_image i d @ r)" "sz < 2 ^ 32"
  shows "validate_entry_internal (Some (entry_image i d @ r)) sz = Some BLACKBOX_LOGGER_OK
    \<and> header_of_image (take 12 (entry_image i d @ r))
        = \<lparr>header_magic = BLACKBOX_LOGGER_HEADER_MAGIC, entry_id = i, entry_length = length d\<rparr>
    \<and> take (length d) (drop 12 (entry_image i d @ r)) = d"
proof -
  let ?h = "\<lparr>header_magic = BLACKBOX_LOGGER_HEADER_MAGIC, entry_id = i, entry_length = length d\<rparr>"
  have "header_of_image (header_image ?h) = ?h"
    using header_of_image_image [of ?h "[]"] assms(1,2,4) by simp
  moreover have "validate_entry_internal (Some (entry_image i d @ r)) sz = Some BLACKBOX_LOGGER_OK"
    using assms by (intro validate_entry_image) simp_all
  ultimately show ?thesis by (simp add: entry_image_def Let_def)
qed

lemma blackbox_entry_roundtrip_witness:
  "validate_entry_internal (Some (entry_image 7 [1, 2, 3] @ [0, 9])) 23 = Some BLACKBOX_LOGGER_OK"
  using blackbox_entry_roundtrip [of 7 "[1, 2, 3]" 23 "[0, 9]"] by simp

text \<open>
  A stored entry in whose payload up to two adjacent bytes were corrupted is always rejected
  with the CRC error, wherever in the payload that happened.
\<close>

theorem blackbox_corrupt_payload_rejected:
  assumes "(a, b) \<noteq> (a', b')" and "i < 2 ^ 32" and "d = pre @ [a, b] @ post"
    and "18 + length d \<le> sz" "sz \<le> 18 + length d + length r" "sz < 2 ^ 32"
  shows "validate_entry_internal (Some (take 12 (entry_image i d) @ (pre @ [a', b'] @ post)
      @ drop (12 + length d) (entry_image i d) @ r)) sz = Some BLACKBOX_LOGGER_ERR_INVALID_CRC"
proof -
  let ?h = "\<lparr>header_magic = BLACKBOX_LOGGER_HEADER_MAGIC, entry_id = i, entry_length = length d\<rparr>"
  let ?d = "pre @ [a', b'] @ post"
  let ?t = "tail_image \<lparr>tail_crc = calculate_modbus_crc16_lut (header_image ?h @ d), tail_magic = BLACKBOX_LOGGER_TAIL_MAGIC\<rparr>"
  let ?m = "header_image ?h @ ?d @ ?t @ r"
  have m: "take 12 (entry_image i d) @ ?d @ drop (12 + length d) (entry_image i d) @ r = ?m"
    by (simp add: entry_image_def Let_def)
  have len: "length ?d = length d" by (simp add: assms(3))
  have "header_of_image (take 12 ?m) = ?h"
    using header_of_image_image [of ?h "[]"] assms(2,4,6) by simp
  moreover have "sz \<le> length ?m" using assms(5) len by simp
  ultimately have "validate_entry_internal (Some ?m) sz = Some (
      if tail_crc (tail_of_image (drop (12 + length d) ?m)) \<noteq> calculate_modbus_crc16_lut (take (12 + length d) ?m)
      then BLACKBOX_LOGGER_ERR_INVALID_CRC
      else if tail_magic (tail_of_image (drop (12 + length d) ?m)) \<noteq> BLACKBOX_LOGGER_TAIL_MAGIC
      then BLACKBOX_LOGGER_ERR_INVALID_ENTRY else BLACKBOX_LOGGER_OK)"
    using assms(4,6) by (intro validate_entry_header) simp_all
  moreover have "drop (12 + length d) (header_image ?h @ D @ ?t @ r) = ?t @ r
      \<and> take (12 + length d) (header_image ?h @ D @ ?t @ r) = header_image ?h @ D" if "length D = length d" for D
    using that by simp
  note this [OF len]
  moreover have "calculate_modbus_crc16_lut (header_image ?h @ d) \<noteq> calculate_modbus_crc16_lut (header_image ?h @ ?d)"
    using crc16_lut_burst [OF assms(1), of "header_image ?h @ pre" post] by (simp add: assms(3))
  ultimately show ?thesis unfolding m by simp
qed

lemma blackbox_corrupt_payload_rejected_witness:
  "validate_entry_internal (Some (take 12 (entry_image 7 [1, 2, 3]) @ ([1] @ [2, 4] @ [])
      @ drop 15 (entry_image 7 [1, 2, 3]) @ [])) 21 = Some BLACKBOX_LOGGER_ERR_INVALID_CRC"
  using blackbox_corrupt_payload_rejected [of 2 3 2 4 7 "[1, 2, 3]" "[1]" "[]" 21 "[]"] by simp

text \<open>
  The stored length is used before it is checked: a corrupt header whose length points
  past the buffer makes the validation read behind the buffer's end, although the size it was
  given would have let it reject the entry.
\<close>

theorem blackbox_length_used_unchecked:
  assumes "header_of_image (take 12 mem) = \<lparr>header_magic = BLACKBOX_LOGGER_HEADER_MAGIC, entry_id = i, entry_length = n\<rparr>"
    and "18 \<le> sz" "sz \<le> length mem" and "length mem < 18 + n" "12 + n < 2 ^ 32"
  shows "validate_entry_internal (Some mem) sz = None"
  using assms
  by (simp add: validate_entry_internal_def is_data_entry_internal_def buf_read_ok u32_add_small
      buf_read_def Let_def)

lemma blackbox_length_used_unchecked_witness:
  "validate_entry_internal (Some (header_image \<lparr>header_magic = BLACKBOX_LOGGER_HEADER_MAGIC, entry_id = 1,
      entry_length = 60000\<rparr> @ replicate 100 0)) 112 = None"
proof -
  let ?h = "\<lparr>header_magic = BLACKBOX_LOGGER_HEADER_MAGIC, entry_id = 1, entry_length = 60000\<rparr>"
  have "header_of_image (take 12 (header_image ?h @ replicate 100 0)) = ?h"
    using header_of_image_image [of ?h "[]"] by simp
  from blackbox_length_used_unchecked [OF this, of 112] show ?thesis by simp
qed

text \<open>
  C28. For a buffer that holds entries one after the other, the chunk size is the size of the
  longest run of whole entries from the front that fits under the ceiling: the run is a prefix
  of the entries, fits, and the entry behind it would not fit any more; the loop ends.
\<close>

theorem blackbox_chunk_is_longest_fit:
  assumes "laid_out a mem 0 es" and "alignment a" and "length mem < 2 ^ 31" and "c < 2 ^ 31"
  shows "\<exists>fs gs. get_entries_chunk_size_with_ceiling_helper (Some mem) (entries_size a es) c a = Some (entries_size a fs)
    \<and> es = fs @ gs \<and> entries_size a fs \<le> c
    \<and> (gs = [] \<or> c < entries_size a fs + entry_size a (length (snd (hd gs))))"
proof -
  have "chunk_size_loop mem (0 + entries_size a es) c a 0 0 = Some (0 + entries_size a (fit a (c - 0) es))"
    using assms by (intro chunk_size_loop_fit) simp_all
  moreover obtain gs where "es = fit a c es @ gs"
    "gs = [] \<or> c < entries_size a (fit a c es) + entry_size a (length (snd (hd gs)))"
    using fit_prefix [of es a c] by blast
  ultimately show ?thesis using fit_size [of a c es]
    by (intro exI [of _ "fit a c es"] exI [of _ gs]) (simp add: get_entries_chunk_size_with_ceiling_helper_def)
qed

lemma blackbox_chunk_is_longest_fit_witness:
  "\<exists>n. get_entries_chunk_size_with_ceiling_helper (Some (entry_image 1 [5, 6])) 20 30 4 = Some n \<and> n \<le> 30"
proof -
  have a: "alignment 4" by (auto simp: alignment_def intro: exI [of _ 2])
  have l: "laid_out 4 (entry_image 1 [5, 6]) 0 [(1, [5, 6])]" by (simp add: buf_read_def entry_size_def)
  from blackbox_chunk_is_longest_fit [OF l a, of 30] show ?thesis by (auto simp: entry_size_def)
qed

end
