(* ===== verification/Blackbox_Flash.thy ===== *)
theory Blackbox_Flash imports Prelude begin

text \<open>
  The flash device behind the blackbox logger's three driver hooks: the contract that the logger
  relies on as the locale \<open>flash_device\<close>, and the NOR flash of
  \<open>components/blackbox_logger/test/mock_partition.c\<close>, on which the repository's tests run the
  logger and which meets the contract while no fault is injected.
\<close>

section \<open>Spans of a memory\<close>

definition blank :: "bytes \<Rightarrow> nat \<Rightarrow> nat \<Rightarrow> bool" where
  "blank m off n \<longleftrightarrow> (\<forall>i. off \<le> i \<and> i < off + n \<longrightarrow> m ! i = 0xFF)"

definition overlay :: "bytes \<Rightarrow> nat \<Rightarrow> bytes \<Rightarrow> bytes" where
  "overlay m off bs = take off m @ bs @ drop (off + length bs) m"

lemma length_overlay [simp]: "off + length bs \<le> length m \<Longrightarrow> length (overlay m off bs) = length m"
  by (simp add: overlay_def)

lemma overlay_write: "off + length bs \<le> length m \<Longrightarrow> buf_write m off bs = Some (overlay m off bs)"
  by (simp add: overlay_def buf_write_ok)

lemma overlay_read_same: "off + length bs \<le> length m \<Longrightarrow> buf_read (overlay m off bs) off (length bs) = Some bs"
  by (rule buf_read_write_same [OF overlay_write])

lemma overlay_read_other:
  "off + length bs \<le> length m \<Longrightarrow> i + n \<le> off \<or> off + length bs \<le> i \<Longrightarrow>
     buf_read (overlay m off bs) i n = buf_read m i n"
  by (rule buf_read_write_disjoint [OF overlay_write])

lemma nth_overlay:
  "off + length bs \<le> length m \<Longrightarrow> i < length m \<Longrightarrow>
     overlay m off bs ! i = (if off \<le> i \<and> i < off + length bs then bs ! (i - off) else m ! i)"
  by (auto simp: overlay_def nth_append)

lemma blank_overlay:
  "off + length bs \<le> length m \<Longrightarrow> i + n \<le> length m \<Longrightarrow> i + n \<le> off \<or> off + length bs \<le> i \<Longrightarrow>
     blank (overlay m off bs) i n = blank m i n"
proof -
  assume a: "off + length bs \<le> length m" "i + n \<le> length m" "i + n \<le> off \<or> off + length bs \<le> i"
  have "overlay m off bs ! j = m ! j" if "i \<le> j" "j < i + n" for j
  proof -
    have "\<not> (off \<le> j \<and> j < off + length bs)" "j < length m" using a that by linarith+
    then show ?thesis by (auto simp: nth_overlay [OF a(1)])
  qed
  then show ?thesis by (auto simp: blank_def)
qed

lemma blank_overlay_erased:
  "off + k \<le> length m \<Longrightarrow> off \<le> i \<Longrightarrow> i + n \<le> off + k \<Longrightarrow> blank (overlay m off (replicate k 0xFF)) i n"
  by (auto simp: blank_def nth_overlay)

lemma blank_sub: "blank m off n \<Longrightarrow> off \<le> i \<Longrightarrow> i + k \<le> off + n \<Longrightarrow> blank m i k"
  by (auto simp: blank_def)

text \<open>
  Bytes that a NOR flash takes at an offset: every cell is blank or holds its byte already.
  \<open>written_partly\<close> says that a write of these bytes reached some of the cells.
\<close>

definition writable :: "bytes \<Rightarrow> nat \<Rightarrow> bytes \<Rightarrow> bool" where
  "writable m off bs \<longleftrightarrow> (\<forall>i < length bs. m ! (off + i) = 0xFF \<or> m ! (off + i) = bs ! i)"

definition written_partly :: "bytes \<Rightarrow> nat \<Rightarrow> bytes \<Rightarrow> bytes \<Rightarrow> bool" where
  "written_partly m off bs m' \<longleftrightarrow> length m' = length m \<and> (\<forall>i < length m. m' ! i = m ! i
     \<or> off \<le> i \<and> i < off + length bs \<and> m' ! i = bs ! (i - off))"

lemma blank_writable: "blank m off (length bs) \<Longrightarrow> writable m off bs"
  by (simp add: blank_def writable_def)

lemma written_partly_refl [simp]: "written_partly m off bs m"
  by (simp add: written_partly_def)

section \<open>The contract\<close>

text \<open>
  While the device is \<open>good\<close>, accesses inside the partition succeed: a read returns the bytes, a
  write to blank flash stores them, and so does one over the same bytes, an erase of whole sectors
  blanks them. Accesses that leave the partition fail and change nothing.
\<close>

locale flash_device =
  fixes rd :: "'f \<Rightarrow> nat \<Rightarrow> nat \<Rightarrow> esp_err \<times> bytes"
    and wr :: "nat \<Rightarrow> bytes \<Rightarrow> 'f \<Rightarrow> esp_err \<times> 'f"
    and er :: "nat \<Rightarrow> nat \<Rightarrow> 'f \<Rightarrow> esp_err \<times> 'f"
    and cells :: "'f \<Rightarrow> bytes"
    and good :: "'f \<Rightarrow> bool"
    and sector :: nat
  assumes cells_bound: "good f \<Longrightarrow> length (cells f) < 2 ^ 31"
    and read_in: "good f \<Longrightarrow> off + n \<le> length (cells f) \<Longrightarrow> rd f off n = (ESP_OK, take n (drop off (cells f)))"
    and write_in: "good f \<Longrightarrow> off + length bs \<le> length (cells f) \<Longrightarrow> writable (cells f) off bs \<Longrightarrow>
      \<exists>f'. wr off bs f = (ESP_OK, f') \<and> good f' \<and> cells f' = overlay (cells f) off bs"
    and erase_in: "good f \<Longrightarrow> sector dvd off \<Longrightarrow> sector dvd n \<Longrightarrow> off + n \<le> length (cells f) \<Longrightarrow>
      \<exists>f'. er off n f = (ESP_OK, f') \<and> good f' \<and> cells f' = overlay (cells f) off (replicate n 0xFF)"
    and write_out: "good f \<Longrightarrow> off < 2 ^ 31 \<Longrightarrow> length bs < 2 ^ 31 \<Longrightarrow> length (cells f) < off + length bs \<Longrightarrow>
      \<exists>e. wr off bs f = (e, f) \<and> e \<noteq> ESP_OK"
    and erase_out: "good f \<Longrightarrow> off < 2 ^ 31 \<Longrightarrow> n < 2 ^ 31 \<Longrightarrow> length (cells f) < off + n \<Longrightarrow>
      \<exists>e. er off n f = (e, f) \<and> e \<noteq> ESP_OK"
begin

lemma read_cells: "good f \<Longrightarrow> buf_read (cells f) off n = Some bs \<Longrightarrow> rd f off n = (ESP_OK, bs)"
  using read_in [of f off n] by (auto simp: buf_read_def split: if_splits)

text \<open>An erased sector takes any bytes that fit, and gives them back.\<close>

lemma erase_write_read:
  assumes "good f" and "sector dvd off" "off + sector \<le> length (cells f)"
    and "off \<le> i" "i + length bs \<le> off + sector"
  shows "\<exists>f1 f2. er off sector f = (ESP_OK, f1) \<and> wr i bs f1 = (ESP_OK, f2) \<and> good f2
    \<and> rd f2 i (length bs) = (ESP_OK, bs)"
proof -
  obtain f1 where f1: "er off sector f = (ESP_OK, f1)" "good f1"
    "cells f1 = overlay (cells f) off (replicate sector 0xFF)"
    using erase_in [OF assms(1,2) dvd_refl assms(3)] by blast
  have len: "length (cells f1) = length (cells f)" using f1(3) assms(3) by simp
  have "blank (cells f1) i (length bs)"
    unfolding f1(3) by (rule blank_overlay_erased [OF assms(3-5)])
  then obtain f2 where f2: "wr i bs f1 = (ESP_OK, f2)" "good f2" "cells f2 = overlay (cells f1) i bs"
    using write_in [OF f1(2) _ blank_writable, of i bs] assms len by fastforce
  moreover have "buf_read (cells f2) i (length bs) = Some bs"
    unfolding f2(3) by (rule overlay_read_same) (use assms len in simp)
  ultimately show ?thesis using f1 read_cells by blast
qed

end

section \<open>The mock partition\<close>

record mock_partition =
  memory :: bytes
  mock_size :: nat
  fail_next_write :: bool
  fail_after_bytes :: nat

definition MOCK_FLASH_SIZE :: nat where "MOCK_FLASH_SIZE = 16 * 1024"
definition MOCK_SECTOR_SIZE :: nat where "MOCK_SECTOR_SIZE = 4096"

definition mock_flash_reset :: "mock_partition \<Rightarrow> mock_partition" where
  "mock_flash_reset m = m\<lparr>memory := replicate (length (memory m)) 0xFF, mock_size := MOCK_FLASH_SIZE,
     fail_next_write := False, fail_after_bytes := 0\<rparr>"

definition mock_read :: "mock_partition \<Rightarrow> nat \<Rightarrow> nat \<Rightarrow> esp_err \<times> bytes" where
  "mock_read m off n =
     (if mock_size m < u32_add off n then (ESP_ERR_INVALID_SIZE, [])
      else (ESP_OK, take n (drop off (memory m))))"

fun mock_write_loop :: "nat \<Rightarrow> nat \<Rightarrow> bytes \<Rightarrow> mock_partition \<Rightarrow> esp_err \<times> mock_partition" where
  "mock_write_loop off idx [] m = (ESP_OK, m)"
| "mock_write_loop off idx (new_val # src) m =
     (if fail_next_write m \<and> fail_after_bytes m \<le> idx then (ESP_FAIL, m\<lparr>fail_next_write := False\<rparr>)
      else let old_val = memory m ! (off + idx)
           in if new_val AND NOT old_val \<noteq> 0 then (ESP_ERR_INVALID_STATE, m)
              else mock_write_loop off (idx + 1) src (m\<lparr>memory := (memory m)[off + idx := old_val AND new_val]\<rparr>))"

definition mock_write :: "nat \<Rightarrow> bytes \<Rightarrow> mock_partition \<Rightarrow> esp_err \<times> mock_partition" where
  "mock_write off src m =
     (if mock_size m < u32_add off (length src) then (ESP_ERR_INVALID_SIZE, m) else mock_write_loop off 0 src m)"

definition mock_erase_range :: "nat \<Rightarrow> nat \<Rightarrow> mock_partition \<Rightarrow> esp_err \<times> mock_partition" where
  "mock_erase_range off n m =
     (if off mod MOCK_SECTOR_SIZE \<noteq> 0 \<or> n mod MOCK_SECTOR_SIZE \<noteq> 0 then (ESP_ERR_INVALID_ARG, m)
      else if mock_size m < u32_add off n then (ESP_ERR_INVALID_SIZE, m)
      else (ESP_OK, m\<lparr>memory := overlay (memory m) off (replicate n 0xFF)\<rparr>))"

definition mock_inject_write_failure :: "nat \<Rightarrow> mock_partition \<Rightarrow> mock_partition" where
  "mock_inject_write_failure after_bytes m = m\<lparr>fail_next_write := True, fail_after_bytes := after_bytes\<rparr>"

definition mock_good :: "mock_partition \<Rightarrow> bool" where
  "mock_good m \<longleftrightarrow> mock_size m = length (memory m) \<and> length (memory m) < 2 ^ 31 \<and> \<not> fail_next_write m"

text \<open>Without an injected fault, a write to blank flash stores the source byte by byte.\<close>

lemma mock_write_loop_writable:
  assumes "\<not> fail_next_write m" and "off + idx + length src \<le> length (memory m)"
    and "writable (memory m) (off + idx) src"
  shows "mock_write_loop off idx src m = (ESP_OK, m\<lparr>memory := overlay (memory m) (off + idx) src\<rparr>)"
  using assms
proof (induction src arbitrary: idx m)
  case Nil
  then show ?case by (simp add: overlay_def)
next
  case (Cons b src)
  let ?m = "m\<lparr>memory := (memory m)[off + idx := b]\<rparr>"
  have "memory m ! (off + idx) = - 1 \<or> memory m ! (off + idx) = b"
    using Cons.prems(3) by (force simp: writable_def)
  then have old: "b AND NOT (memory m ! (off + idx)) = 0" "memory m ! (off + idx) AND b = b" by auto
  have "writable (memory ?m) (off + Suc idx) src"
    using Cons.prems(3) by (force simp: writable_def nth_list_update)
  with Cons.IH [of ?m "Suc idx"] Cons.prems
  have "mock_write_loop off (idx + 1) src ?m
    = (ESP_OK, ?m\<lparr>memory := overlay (memory ?m) (off + Suc idx) src\<rparr>)" by simp
  moreover have "overlay (memory ?m) (off + Suc idx) src = overlay (memory m) (off + idx) (b # src)"
    using Cons.prems(2) by (simp add: overlay_def upd_conv_take_nth_drop take_Suc_conv_app_nth add.commute add.left_commute)
  ultimately show ?case using Cons.prems(1) by (simp add: old)
qed

interpretation mock: flash_device mock_read mock_write mock_erase_range memory mock_good MOCK_SECTOR_SIZE
proof
  fix f :: mock_partition and off n :: nat and bs :: bytes
  assume g: "mock_good f"
  show "length (memory f) < 2 ^ 31" using g by (simp add: mock_good_def)
  show "off + n \<le> length (memory f) \<Longrightarrow> mock_read f off n = (ESP_OK, take n (drop off (memory f)))"
    using g by (simp add: mock_read_def mock_good_def u32_add_small)
  show "\<exists>f'. mock_write off bs f = (ESP_OK, f') \<and> mock_good f' \<and> memory f' = overlay (memory f) off bs"
    if "off + length bs \<le> length (memory f)" "writable (memory f) off bs"
    using g that mock_write_loop_writable [of f off 0 bs]
    by (simp add: mock_write_def mock_good_def u32_add_small)
  show "\<exists>f'. mock_erase_range off n f = (ESP_OK, f') \<and> mock_good f'
      \<and> memory f' = overlay (memory f) off (replicate n 0xFF)"
    if "MOCK_SECTOR_SIZE dvd off" "MOCK_SECTOR_SIZE dvd n" "off + n \<le> length (memory f)"
    using g that by (simp add: mock_erase_range_def mock_good_def u32_add_small dvd_eq_mod_eq_0)
  show "\<exists>e. mock_write off bs f = (e, f) \<and> e \<noteq> ESP_OK"
    if "off < 2 ^ 31" "length bs < 2 ^ 31" "length (memory f) < off + length bs"
    using g that by (simp add: mock_write_def mock_good_def u32_add_small)
  show "\<exists>e. mock_erase_range off n f = (e, f) \<and> e \<noteq> ESP_OK"
    if "off < 2 ^ 31" "n < 2 ^ 31" "length (memory f) < off + n"
    using g that by (simp add: mock_erase_range_def mock_good_def u32_add_small)
qed

lemmas mock_flash_device = mock.flash_device_axioms

end
