(* ===== verification/Blackbox_Logger.thy ===== *)
theory Blackbox_Logger
  imports Blackbox_Format Blackbox_Flash "HOL-Library.Monad_Syntax"
begin

text \<open>
  The operations of \<open>components/blackbox_logger/blackbox_logger.c\<close>. The flash device is a state
  of any type \<open>'f\<close> behind the three function pointers of the configuration. Outcomes of the
  operating system are arguments: whether a lock is obtained in time, whether a mutex or the timer
  could be created. The result \<open>None\<close> is undefined behaviour or a loop that does not end. Sector
  numbers are below \<open>2 ^ 31\<close>, so the signed sector variables of the code are natural numbers.
\<close>

section \<open>State\<close>

record blackbox_logger_entry_view =
  data_ptr :: "bytes option"
  view_length :: nat

record blackbox_logger_parameters =
  param_write_offset :: nat
  param_replay_offset :: nat
  param_last_id :: nat
  param_is_dirty :: bool

record 'f blackbox_logger_config =
  partition_size :: "nat option"
  parameters :: blackbox_logger_parameters
  address_align :: nat
  flush_timer_timeout_us :: nat
  sector_buf :: "bytes option"
  sector_buf_size :: nat
  batch_buf :: "bytes option"
  batch_buf_size :: nat
  on_replay_available_func :: bool
  write_func :: "(nat \<Rightarrow> bytes \<Rightarrow> 'f \<Rightarrow> esp_err \<times> 'f) option"
  read_func :: "('f \<Rightarrow> nat \<Rightarrow> nat \<Rightarrow> esp_err \<times> bytes) option"
  erase_func :: "(nat \<Rightarrow> nat \<Rightarrow> 'f \<Rightarrow> esp_err \<times> 'f) option"

text \<open>The timer is null, or armed or not.\<close>

record 'f blackbox_logger =
  config_ptr :: "'f blackbox_logger_config option"
  write_offset :: nat
  replay_offset :: nat
  last_id :: nat
  last_erased_sector :: int
  batch_len :: nat
  sector_buf_lock :: bool
  write_lock :: bool
  flush_timer :: "bool option"

definition blackbox_logger_default_parameters :: blackbox_logger_parameters where
  "blackbox_logger_default_parameters =
     \<lparr>param_write_offset = 0, param_replay_offset = 0, param_last_id = 0, param_is_dirty = False\<rparr>"

definition blackbox_logger_get_parameters_defaults ::
    "blackbox_logger_parameters option \<Rightarrow> blackbox_logger_parameters option" where
  "blackbox_logger_get_parameters_defaults parameter_ptr =
     map_option (\<lambda>_. blackbox_logger_default_parameters) parameter_ptr"

definition blackbox_logger_has_replay_data :: "'f blackbox_logger \<Rightarrow> bool" where
  "blackbox_logger_has_replay_data lg \<longleftrightarrow> write_offset lg \<noteq> replay_offset lg"

definition update_parameters_internal :: "'f blackbox_logger \<Rightarrow> blackbox_logger_err \<times> 'f blackbox_logger" where
  "update_parameters_internal lg =
     (case config_ptr lg of
        None \<Rightarrow> (BLACKBOX_LOGGER_ERR_INVALID_ARG, lg)
      | Some c \<Rightarrow> (BLACKBOX_LOGGER_OK, lg\<lparr>config_ptr := Some (c\<lparr>parameters :=
            \<lparr>param_write_offset = write_offset lg, param_replay_offset = replay_offset lg,
             param_last_id = last_id lg, param_is_dirty = True\<rparr>\<rparr>)\<rparr>))"

section \<open>Flushing\<close>

text \<open>The locals of the flush loop beside the logger and the device.\<close>

record 'f flush_state =
  fs_write_offset_old :: nat
  fs_write_offset :: nat
  fs_replay_offset :: nat
  fs_buffer_offset :: nat
  fs_write_size :: nat
  fs_err :: blackbox_logger_err
  fs_logger :: "'f blackbox_logger"
  fs_flash :: 'f

text \<open>
  The part of an iteration behind a positive chunk size: erase the sector when it was not the
  last one erased, then write the chunk.
\<close>

definition flush_chunk ::
    "(nat \<Rightarrow> bytes \<Rightarrow> 'f \<Rightarrow> esp_err \<times> 'f) \<Rightarrow> (nat \<Rightarrow> nat \<Rightarrow> 'f \<Rightarrow> esp_err \<times> 'f) \<Rightarrow> bytes \<Rightarrow> nat \<Rightarrow> nat
       \<Rightarrow> 'f flush_state \<Rightarrow> 'f flush_state option" where
  "flush_chunk wr er batch sector_size current_write_size s =
     (let sector = fs_write_offset s div sector_size;
          (err, lg, f) =
            (if int sector \<noteq> last_erased_sector (fs_logger s)
             then let (erase_err, f') = er (u32_mul sector sector_size) sector_size (fs_flash s)
                  in (esp_to_blackbox_error_map erase_err,
                      (fs_logger s)\<lparr>last_erased_sector := int sector\<rparr>, f')
             else (BLACKBOX_LOGGER_OK, fs_logger s, fs_flash s));
          s' = s\<lparr>fs_logger := lg, fs_flash := f\<rparr>
      in if err \<noteq> BLACKBOX_LOGGER_OK then Some (s'\<lparr>fs_err := BLACKBOX_LOGGER_ERR_ERASE_FAIL\<rparr>)
         else do {
           chunk \<leftarrow> buf_read batch (fs_buffer_offset s) current_write_size;
           let (write_err, f') = wr (fs_write_offset s) chunk f;
           Some (if esp_to_blackbox_error_map write_err \<noteq> BLACKBOX_LOGGER_OK
                 then s'\<lparr>fs_flash := f', fs_err := BLACKBOX_LOGGER_ERR_WRITE_FAIL\<rparr>
                 else s'\<lparr>fs_flash := f',
                         fs_write_offset := u32_add (fs_write_offset s) current_write_size,
                         fs_write_size := u32_sub (fs_write_size s) current_write_size,
                         fs_buffer_offset := u32_add (fs_buffer_offset s) current_write_size\<rparr>)
         })"

text \<open>
  One iteration. \<open>over_old\<close> is \<open>CONFIG_ENABLE_BLACKBOX_LOGGER_WRITING_OVER_OLD_ENTRIES\<close>.
\<close>

definition flush_iteration ::
    "bool \<Rightarrow> (nat \<Rightarrow> bytes \<Rightarrow> 'f \<Rightarrow> esp_err \<times> 'f) \<Rightarrow> (nat \<Rightarrow> nat \<Rightarrow> 'f \<Rightarrow> esp_err \<times> 'f) \<Rightarrow> bytes \<Rightarrow> nat \<Rightarrow> nat \<Rightarrow> nat
       \<Rightarrow> 'f flush_state \<Rightarrow> 'f flush_state option" where
  "flush_iteration over_old wr er batch sector_size psize align s =
     (let current_write_sector = fs_write_offset s div sector_size;
          current_replay_sector = fs_replay_offset s div sector_size;
          sector_end = u32_mul (u32_add current_write_sector 1) sector_size;
          remaining_sector_space = u32_sub sector_end (fs_write_offset s);
          next_sector_start = (if psize \<le> sector_end then 0 else sector_end);
          biting = (current_write_sector = current_replay_sector \<and> fs_write_offset s < fs_replay_offset s);
          next_replay = u32_mul (u32_add current_replay_sector 1) sector_size;
          s1 = (if biting
                then if over_old then s\<lparr>fs_replay_offset := (if psize \<le> next_replay then 0 else next_replay)\<rparr>
                     else s\<lparr>fs_err := BLACKBOX_LOGGER_ERR_NO_MEM\<rparr>
                else s)
      in if fs_err s1 \<noteq> BLACKBOX_LOGGER_OK then Some s1
         else do {
           current_write_size \<leftarrow> get_entries_chunk_size_with_ceiling_helper
             (Some (drop (fs_buffer_offset s1) batch)) (fs_write_size s1) remaining_sector_space align;
           s2 \<leftarrow> (if 0 < current_write_size then flush_chunk wr er batch sector_size current_write_size s1
                 else if remaining_sector_space < sector_size then Some (s1\<lparr>fs_write_offset := next_sector_start\<rparr>)
                 else Some (s1\<lparr>fs_err := BLACKBOX_LOGGER_ERR_NO_MEM\<rparr>));
           Some (if fs_err s2 = BLACKBOX_LOGGER_OK
                 then s2\<lparr>fs_write_offset_old := write_offset (fs_logger s2),
                         fs_logger := (fs_logger s2)\<lparr>replay_offset := fs_replay_offset s2,
                                                    write_offset := fs_write_offset s2\<rparr>\<rparr>
                 else s2)
         })"

partial_function (option) flush_loop ::
    "bool \<Rightarrow> (nat \<Rightarrow> bytes \<Rightarrow> 'f \<Rightarrow> esp_err \<times> 'f) \<Rightarrow> (nat \<Rightarrow> nat \<Rightarrow> 'f \<Rightarrow> esp_err \<times> 'f) \<Rightarrow> bytes \<Rightarrow> nat \<Rightarrow> nat \<Rightarrow> nat
       \<Rightarrow> 'f flush_state \<Rightarrow> 'f flush_state option" where
  "flush_loop over_old wr er batch sector_size psize align s =
     do {
       s' \<leftarrow> flush_iteration over_old wr er batch sector_size psize align s;
       if 0 < fs_write_size s' \<and> fs_err s' = BLACKBOX_LOGGER_OK
       then flush_loop over_old wr er batch sector_size psize align s'
       else Some s'
     }"

text \<open>
  What follows the loop: the saved parameters get the offset of the last but one position, the
  batch buffer loses what was written. The flag says whether the replay callback is called.
\<close>

definition flush_finish ::
    "'f blackbox_logger_config \<Rightarrow> bytes \<Rightarrow> 'f flush_state
       \<Rightarrow> (blackbox_logger_err \<times> 'f blackbox_logger \<times> 'f \<times> bool) option" where
  "flush_finish c batch s =
     (let lg = (fs_logger s)\<lparr>replay_offset := fs_replay_offset s, write_offset := fs_write_offset_old s\<rparr>;
          lg = snd (update_parameters_internal lg);
          lg = lg\<lparr>write_offset := fs_write_offset s\<rparr>;
          bytes_written = fs_buffer_offset s;
          bytes_remaining = u32_sub (batch_len lg) bytes_written
      in do {
        batch' \<leftarrow> (if 0 < bytes_remaining \<and> 0 < bytes_written
                   then do { rest \<leftarrow> buf_read batch bytes_written bytes_remaining; buf_write batch 0 rest }
                   else Some batch);
        Some (fs_err s,
              lg\<lparr>config_ptr := map_option (\<lambda>c. c\<lparr>batch_buf := Some batch'\<rparr>) (config_ptr lg),
                 batch_len := bytes_remaining\<rparr>,
              fs_flash s, on_replay_available_func c \<and> 0 < bytes_written)
      })"

definition blackbox_logger_flush ::
    "bool \<Rightarrow> bool \<Rightarrow> 'f blackbox_logger \<Rightarrow> 'f
       \<Rightarrow> (blackbox_logger_err \<times> 'f blackbox_logger \<times> 'f \<times> bool) option" where
  "blackbox_logger_flush over_old got_lock lg f =
     (case config_ptr lg of
        None \<Rightarrow> Some (BLACKBOX_LOGGER_ERR_INVALID_ARG, lg, f, False)
      | Some c \<Rightarrow>
          (case (partition_size c, write_func c, erase_func c, batch_buf c) of
             (Some psize, Some wr, Some er, Some batch) \<Rightarrow>
               if \<not> write_lock lg \<or> batch_len lg = 0 \<or> sector_buf_size c = 0
               then Some (BLACKBOX_LOGGER_ERR_INVALID_ARG, lg, f, False)
               else if \<not> got_lock then Some (BLACKBOX_LOGGER_ERR_TIMEOUT, lg, f, False)
               else do {
                 s \<leftarrow> flush_loop over_old wr er batch (sector_buf_size c) psize (address_align c)
                   \<lparr>fs_write_offset_old = write_offset lg, fs_write_offset = write_offset lg,
                    fs_replay_offset = replay_offset lg, fs_buffer_offset = 0, fs_write_size = batch_len lg,
                    fs_err = BLACKBOX_LOGGER_OK, fs_logger = lg, fs_flash = f\<rparr>;
                 flush_finish c batch s
               }
           | _ \<Rightarrow> Some (BLACKBOX_LOGGER_ERR_INVALID_ARG, lg, f, False)))"

definition timer_flush_flash_internal ::
    "bool \<Rightarrow> bool \<Rightarrow> 'f blackbox_logger \<Rightarrow> 'f \<Rightarrow> ('f blackbox_logger \<times> 'f \<times> bool) option" where
  "timer_flush_flash_internal over_old got_lock lg f =
     map_option snd (blackbox_logger_flush over_old got_lock lg f)"

section \<open>Writing an entry\<close>

text \<open>Header, payload and tail go to the batch buffer; the checksum is computed over the buffer.\<close>

definition batch_append :: "bytes \<Rightarrow> nat \<Rightarrow> nat \<Rightarrow> bytes \<Rightarrow> nat \<Rightarrow> bytes option" where
  "batch_append batch len i data n =
     do {
       batch \<leftarrow> buf_write batch len (header_image
         \<lparr>header_magic = BLACKBOX_LOGGER_HEADER_MAGIC, entry_id = i, entry_length = n\<rparr>);
       payload \<leftarrow> buf_read data 0 n;
       batch \<leftarrow> buf_write batch (len + SIZEOF_ENTRY_HEADER) payload;
       crc \<leftarrow> calculate_modbus_crc16 (drop len batch) (SIZEOF_ENTRY_HEADER + n);
       buf_write batch (len + SIZEOF_ENTRY_HEADER + n) (tail_image
         \<lparr>tail_crc = crc, tail_magic = BLACKBOX_LOGGER_TAIL_MAGIC\<rparr>)
     }"

definition blackbox_logger_write ::
    "bool \<Rightarrow> bool \<Rightarrow> bool \<Rightarrow> 'f blackbox_logger \<Rightarrow> blackbox_logger_entry_view option \<Rightarrow> 'f
       \<Rightarrow> (blackbox_logger_err \<times> 'f blackbox_logger \<times> 'f \<times> bool) option" where
  "blackbox_logger_write over_old got_flush_lock got_lock lg entry_ptr f =
     (case (config_ptr lg, entry_ptr) of
        (Some c, Some entry) \<Rightarrow>
          (case (batch_buf c, data_ptr entry) of
             (Some _, Some data) \<Rightarrow>
               if \<not> write_lock lg \<or> flush_timer lg = None \<or> view_length entry = 0
               then Some (BLACKBOX_LOGGER_ERR_INVALID_ARG, lg, f, False)
               else let entry_size = entry_total_aligned_size_helper (view_length entry) (address_align c)
                 in if batch_buf_size c < entry_size then Some (BLACKBOX_LOGGER_ERR_NO_MEM, lg, f, False)
                 else do {
                   (err, lg, f, notified) \<leftarrow>
                     (if batch_buf_size c < u32_add (batch_len lg) entry_size
                      then blackbox_logger_flush over_old got_flush_lock (lg\<lparr>flush_timer := Some False\<rparr>) f
                      else Some (BLACKBOX_LOGGER_OK, lg, f, False));
                   if err \<noteq> BLACKBOX_LOGGER_OK then Some (err, lg, f, notified)
                   else if \<not> got_lock then Some (BLACKBOX_LOGGER_ERR_TIMEOUT, lg, f, notified)
                   else do {
                     c \<leftarrow> config_ptr lg;
                     batch \<leftarrow> batch_buf c;
                     batch \<leftarrow> batch_append batch (batch_len lg) (u32_add (last_id lg) 1) data (view_length entry);
                     Some (BLACKBOX_LOGGER_OK,
                           lg\<lparr>config_ptr := Some (c\<lparr>batch_buf := Some batch\<rparr>),
                              batch_len := u32_add (batch_len lg) entry_size,
                              last_id := u32_add (last_id lg) 1, flush_timer := Some True\<rparr>, f, notified)
                   }
                 }
           | _ \<Rightarrow> Some (BLACKBOX_LOGGER_ERR_INVALID_ARG, lg, f, False))
      | _ \<Rightarrow> Some (BLACKBOX_LOGGER_ERR_INVALID_ARG, lg, f, False))"

section \<open>Reading and replaying\<close>

text \<open>A driver read into a buffer of the program.\<close>

definition read_into ::
    "('f \<Rightarrow> nat \<Rightarrow> nat \<Rightarrow> esp_err \<times> bytes) \<Rightarrow> 'f \<Rightarrow> nat \<Rightarrow> nat \<Rightarrow> bytes \<Rightarrow> (esp_err \<times> bytes) option" where
  "read_into rd f off n buf =
     (let (e, bs) = rd f off n in map_option (Pair e) (buf_write buf 0 bs))"

definition blackbox_logger_read ::
    "bool \<Rightarrow> 'f blackbox_logger \<Rightarrow> nat \<Rightarrow> blackbox_logger_entry_view option \<Rightarrow> nat \<Rightarrow> 'f
       \<Rightarrow> (blackbox_logger_err \<times> 'f blackbox_logger \<times> blackbox_logger_entry_view option) option" where
  "blackbox_logger_read got_lock lg read_offset entry_ptr entry_buf_max_capacity f =
     (case (config_ptr lg, entry_ptr) of
        (Some c, Some entry) \<Rightarrow>
          (case (sector_buf c, read_func c, data_ptr entry) of
             (Some sbuf, Some rd, Some dest) \<Rightarrow>
               if \<not> sector_buf_lock lg then Some (BLACKBOX_LOGGER_ERR_INVALID_ARG, lg, entry_ptr)
               else do {
                 psize \<leftarrow> partition_size c;
                 if psize \<le> read_offset then Some (BLACKBOX_LOGGER_ERR_INVALID_ARG, lg, entry_ptr)
                 else if \<not> got_lock then Some (BLACKBOX_LOGGER_ERR_TIMEOUT, lg, entry_ptr)
                 else do {
                   let read_size = min (batch_buf_size c) (u32_sub psize read_offset);
                   (read_err, sbuf) \<leftarrow> read_into rd f read_offset read_size sbuf;
                   let lg = lg\<lparr>config_ptr := Some (c\<lparr>sector_buf := Some sbuf\<rparr>)\<rparr>;
                   let err = esp_to_blackbox_error_map read_err;
                   err \<leftarrow> (if err = BLACKBOX_LOGGER_OK then validate_entry_internal (Some sbuf) read_size
                           else Some err);
                   if err \<noteq> BLACKBOX_LOGGER_OK then Some (err, lg, entry_ptr)
                   else do {
                     len \<leftarrow> map_option unat (read32 sbuf 8);
                     if entry_buf_max_capacity < len then Some (BLACKBOX_LOGGER_ERR_NO_MEM, lg, entry_ptr)
                     else do {
                       payload \<leftarrow> buf_read sbuf SIZEOF_ENTRY_HEADER len;
                       dest \<leftarrow> buf_write dest 0 payload;
                       Some (BLACKBOX_LOGGER_OK, lg, Some (entry\<lparr>data_ptr := Some dest, view_length := len\<rparr>))
                     }
                   }
                 }
               }
           | _ \<Rightarrow> Some (BLACKBOX_LOGGER_ERR_INVALID_ARG, lg, entry_ptr))
      | _ \<Rightarrow> Some (BLACKBOX_LOGGER_ERR_INVALID_ARG, lg, entry_ptr))"

text \<open>The callback acts on its argument and the rest of the system, a state of type \<open>'p\<close>.\<close>

definition blackbox_logger_next_replay ::
    "bool \<Rightarrow> 'f blackbox_logger \<Rightarrow> (blackbox_logger_entry_view \<Rightarrow> 'p \<Rightarrow> bool \<times> 'p) option \<Rightarrow> 'p
       \<Rightarrow> blackbox_logger_entry_view option \<Rightarrow> nat \<Rightarrow> 'f
       \<Rightarrow> (blackbox_logger_err \<times> 'f blackbox_logger \<times> blackbox_logger_entry_view option \<times> 'p) option" where
  "blackbox_logger_next_replay got_lock lg cb_func arg entry_ptr entry_buf_max_capacity f =
     (case (cb_func, entry_ptr) of
        (Some cb, Some _) \<Rightarrow>
          if blackbox_logger_has_replay_data lg then do {
            (err, lg, entry_ptr) \<leftarrow>
              blackbox_logger_read got_lock lg (replay_offset lg) entry_ptr entry_buf_max_capacity f;
            if err \<noteq> BLACKBOX_LOGGER_OK
            then Some (err, lg\<lparr>replay_offset := write_offset lg\<rparr>, entry_ptr, arg)
            else do {
              entry \<leftarrow> entry_ptr;
              c \<leftarrow> config_ptr lg;
              let (is_processed, arg) = cb entry arg;
              Some (if is_processed
                then (BLACKBOX_LOGGER_OK, lg\<lparr>replay_offset := u32_add (replay_offset lg)
                        (entry_total_aligned_size_helper (view_length entry) (address_align c))\<rparr>, entry_ptr, arg)
                else (BLACKBOX_LOGGER_ERR_PROCESS_FAIL, lg, entry_ptr, arg))
            }
          }
          else Some (BLACKBOX_LOGGER_ERR_INVALID_ENTRY, lg, entry_ptr, arg)
      | _ \<Rightarrow> Some (BLACKBOX_LOGGER_ERR_INVALID_ARG, lg, entry_ptr, arg))"

text \<open>\<open>locks k\<close> says whether the k-th replay obtains the sector lock.\<close>

partial_function (option) blackbox_logger_iterate_replay ::
    "(nat \<Rightarrow> bool) \<Rightarrow> 'f blackbox_logger \<Rightarrow> (blackbox_logger_entry_view \<Rightarrow> 'p \<Rightarrow> bool \<times> 'p) option \<Rightarrow> 'p
       \<Rightarrow> blackbox_logger_entry_view option \<Rightarrow> nat \<Rightarrow> 'f
       \<Rightarrow> (blackbox_logger_err \<times> 'f blackbox_logger \<times> blackbox_logger_entry_view option \<times> 'p) option" where
  "blackbox_logger_iterate_replay locks lg cb_func arg entry_ptr entry_buf_max_capacity f =
     do {
       (err, lg, entry_ptr, arg) \<leftarrow>
         blackbox_logger_next_replay (locks 0) lg cb_func arg entry_ptr entry_buf_max_capacity f;
       if err = BLACKBOX_LOGGER_OK
       then blackbox_logger_iterate_replay (\<lambda>k. locks (k + 1)) lg cb_func arg entry_ptr entry_buf_max_capacity f
       else Some (err, lg, entry_ptr, arg)
     }"

section \<open>Recovery\<close>

record search_state =
  low_sector :: int
  high_sector :: int
  head_sector :: int
  max_id :: nat
  current_entry_header :: bytes

text \<open>The loop of the binary search; the result is the error and the state.\<close>

partial_function (option) binary_search_loop ::
    "('f \<Rightarrow> nat \<Rightarrow> nat \<Rightarrow> esp_err \<times> bytes) \<Rightarrow> 'f \<Rightarrow> nat \<Rightarrow> nat \<Rightarrow> search_state
       \<Rightarrow> (blackbox_logger_err \<times> search_state) option" where
  "binary_search_loop rd f sector_size base_id s =
     (if low_sector s \<le> high_sector s then do {
        let mid_sector = low_sector s + (high_sector s - low_sector s) div 2;
        (read_err, hb) \<leftarrow> read_into rd f (u32_mul (nat mid_sector) sector_size) SIZEOF_ENTRY_HEADER
          (current_entry_header s);
        let s = s\<lparr>current_entry_header := hb\<rparr>;
        if esp_to_blackbox_error_map read_err \<noteq> BLACKBOX_LOGGER_OK then Some (BLACKBOX_LOGGER_ERR_FAIL, s)
        else let h = header_of_image hb in
          if header_magic h = BLACKBOX_LOGGER_HEADER_MAGIC \<and> is_logically_next_in_order_helper (entry_id h) base_id
          then binary_search_loop rd f sector_size base_id
                 (s\<lparr>head_sector := mid_sector, low_sector := mid_sector + 1, max_id := entry_id h\<rparr>)
          else binary_search_loop rd f sector_size base_id (s\<lparr>high_sector := mid_sector - 1\<rparr>)
      }
      else Some (BLACKBOX_LOGGER_OK, s))"

definition set_recovered :: "nat \<Rightarrow> nat \<Rightarrow> 'f blackbox_logger_config \<Rightarrow> 'f blackbox_logger_config" where
  "set_recovered wo i c = c\<lparr>parameters := (parameters c)\<lparr>param_write_offset := wo, param_last_id := i\<rparr>\<rparr>"

definition binary_search_recover_helper ::
    "'f blackbox_logger \<Rightarrow> 'f \<Rightarrow> (blackbox_logger_err \<times> 'f blackbox_logger) option" where
  "binary_search_recover_helper lg f =
     (case config_ptr lg of
        None \<Rightarrow> Some (BLACKBOX_LOGGER_ERR_INVALID_ARG, lg)
      | Some c \<Rightarrow>
          (case (read_func c, partition_size c) of
             (Some rd, Some psize) \<Rightarrow>
               if sector_buf_size c = 0 then Some (BLACKBOX_LOGGER_ERR_INVALID_ARG, lg)
               else do {
                 (read_err, hb) \<leftarrow> read_into rd f 0 SIZEOF_ENTRY_HEADER (replicate 12 0);
                 if esp_to_blackbox_error_map read_err \<noteq> BLACKBOX_LOGGER_OK
                 then Some (esp_to_blackbox_error_map read_err, lg)
                 else do {
                   let base_id = (if header_magic (header_of_image hb) = BLACKBOX_LOGGER_HEADER_MAGIC
                                  then entry_id (header_of_image hb) else 0);
                   (err, s) \<leftarrow> binary_search_loop rd f (sector_buf_size c) base_id
                     \<lparr>low_sector = 0, high_sector = int (psize div sector_buf_size c) - 1, head_sector = 0,
                      max_id = base_id, current_entry_header = hb\<rparr>;
                   Some (err, if err = BLACKBOX_LOGGER_OK
                     then lg\<lparr>config_ptr := Some (set_recovered
                            (u32_mul (nat (head_sector s)) (sector_buf_size c)) (max_id s) c)\<rparr>
                     else lg)
                 }
               }
           | _ \<Rightarrow> Some (BLACKBOX_LOGGER_ERR_INVALID_ARG, lg)))"

record scan_state =
  highest_id :: nat
  scan_write_offset :: nat
  current_buf_pos :: nat
  scan_complete :: bool

text \<open>The inner loop of the linear search, over one sector in the buffer \<open>buf\<close>.\<close>

partial_function (option) linear_scan_sector ::
    "nat \<Rightarrow> nat \<Rightarrow> nat \<Rightarrow> bytes \<Rightarrow> scan_state \<Rightarrow> scan_state option" where
  "linear_scan_sector align sector_size base buf s =
     (if u32_add (current_buf_pos s) SIZEOF_ENTRY_HEADER \<le> sector_size \<and> \<not> scan_complete s then do {
        let pos = current_buf_pos s;
        err \<leftarrow> validate_entry_internal (Some (drop pos buf)) (u32_sub sector_size pos);
        if err = BLACKBOX_LOGGER_OK then do {
          hb \<leftarrow> buf_read buf pos SIZEOF_ENTRY_HEADER;
          let h = header_of_image hb;
          let entry_size = entry_total_aligned_size_helper (entry_length h) align;
          if is_logically_next_in_order_helper (entry_id h) (highest_id s)
          then linear_scan_sector align sector_size base buf
                 (s\<lparr>highest_id := entry_id h, scan_write_offset := u32_add (u32_add base pos) entry_size,
                    current_buf_pos := u32_add pos entry_size\<rparr>)
          else linear_scan_sector align sector_size base buf (s\<lparr>scan_complete := True\<rparr>)
        }
        else linear_scan_sector align sector_size base buf (s\<lparr>scan_complete := True\<rparr>)
      }
      else Some s)"

text \<open>The outer loop, over at most as many sectors as the partition has.\<close>

partial_function (option) linear_scan ::
    "('f \<Rightarrow> nat \<Rightarrow> nat \<Rightarrow> esp_err \<times> bytes) \<Rightarrow> 'f \<Rightarrow> nat \<Rightarrow> nat \<Rightarrow> nat \<Rightarrow> nat \<Rightarrow> nat \<Rightarrow> bytes \<Rightarrow> scan_state
       \<Rightarrow> (blackbox_logger_err \<times> bytes \<times> scan_state) option" where
  "linear_scan rd f align sector_size total_sectors current_sector sectors_processed buf s =
     (if \<not> scan_complete s \<and> sectors_processed < total_sectors then do {
        let base = u32_mul current_sector sector_size;
        (read_err, buf) \<leftarrow> read_into rd f base sector_size buf;
        if esp_to_blackbox_error_map read_err \<noteq> BLACKBOX_LOGGER_OK
        then Some (esp_to_blackbox_error_map read_err, buf, s\<lparr>scan_complete := True, current_buf_pos := 0\<rparr>)
        else do {
          s \<leftarrow> linear_scan_sector align sector_size base buf s;
          linear_scan rd f align sector_size total_sectors ((current_sector + 1) mod total_sectors)
            (sectors_processed + 1) buf (s\<lparr>current_buf_pos := 0\<rparr>)
        }
      }
      else Some (BLACKBOX_LOGGER_OK, buf, s))"

definition linear_recover_helper ::
    "bool \<Rightarrow> 'f blackbox_logger \<Rightarrow> 'f \<Rightarrow> (blackbox_logger_err \<times> 'f blackbox_logger) option" where
  "linear_recover_helper got_lock lg f =
     (case config_ptr lg of
        None \<Rightarrow> Some (BLACKBOX_LOGGER_ERR_INVALID_ARG, lg)
      | Some c \<Rightarrow>
          (case (sector_buf c, read_func c, partition_size c) of
             (Some sbuf, Some rd, Some psize) \<Rightarrow>
               if \<not> sector_buf_lock lg \<or> psize = 0 \<or> sector_buf_size c = 0
               then Some (BLACKBOX_LOGGER_ERR_INVALID_ARG, lg)
               else if \<not> got_lock then Some (BLACKBOX_LOGGER_ERR_TIMEOUT, lg)
               else do {
                 let hint = param_write_offset (parameters c);
                 (err, sbuf, s) \<leftarrow> linear_scan rd f (address_align c) (sector_buf_size c)
                   (psize div sector_buf_size c) (hint div sector_buf_size c) 0 sbuf
                   \<lparr>highest_id = param_last_id (parameters c), scan_write_offset = hint,
                    current_buf_pos = hint mod sector_buf_size c, scan_complete = False\<rparr>;
                 let c = c\<lparr>sector_buf := Some sbuf\<rparr>;
                 Some (err, lg\<lparr>config_ptr := Some (if err = BLACKBOX_LOGGER_OK
                   then set_recovered (scan_write_offset s) (highest_id s) c else c)\<rparr>)
               }
           | _ \<Rightarrow> Some (BLACKBOX_LOGGER_ERR_INVALID_ARG, lg)))"

text \<open>The saved position is worth a try when it is not the default and a header is found there.\<close>

definition try_hint ::
    "bool \<Rightarrow> 'f blackbox_logger \<Rightarrow> ('f \<Rightarrow> nat \<Rightarrow> nat \<Rightarrow> esp_err \<times> bytes) \<Rightarrow> nat \<Rightarrow> 'f
       \<Rightarrow> (blackbox_logger_err \<times> 'f blackbox_logger) option" where
  "try_hint got_lock lg rd hint f =
     (if hint = param_write_offset blackbox_logger_default_parameters
      then Some (BLACKBOX_LOGGER_ERR_INVALID_ARG, lg)
      else do {
        (read_err, hb) \<leftarrow> read_into rd f hint SIZEOF_ENTRY_HEADER (replicate 12 0);
        if read_err = ESP_OK \<and> header_magic (header_of_image hb) = BLACKBOX_LOGGER_HEADER_MAGIC
        then linear_recover_helper got_lock lg f
        else Some (BLACKBOX_LOGGER_ERR_FAIL, lg)
      })"

definition fill_recovered :: "'f blackbox_logger \<Rightarrow> 'f blackbox_logger" where
  "fill_recovered lg =
     (case config_ptr lg of
        None \<Rightarrow> lg
      | Some c \<Rightarrow> snd (update_parameters_internal
          (lg\<lparr>write_offset := param_write_offset (parameters c),
              replay_offset := param_replay_offset (parameters c),
              last_id := param_last_id (parameters c)\<rparr>)))"

definition recover_logger_internal ::
    "bool \<Rightarrow> bool \<Rightarrow> 'f blackbox_logger \<Rightarrow> 'f \<Rightarrow> (blackbox_logger_err \<times> 'f blackbox_logger) option" where
  "recover_logger_internal got_lock got_lock2 lg f =
     (case config_ptr lg of
        None \<Rightarrow> Some (BLACKBOX_LOGGER_ERR_INVALID_ARG, lg)
      | Some c \<Rightarrow>
          (case (read_func c, partition_size c) of
             (Some rd, Some _) \<Rightarrow> do {
               (err, lg) \<leftarrow> try_hint got_lock lg rd (param_write_offset (parameters c)) f;
               (err, lg) \<leftarrow> (if err = BLACKBOX_LOGGER_OK then Some (err, lg) else do {
                 (err, lg) \<leftarrow> binary_search_recover_helper lg f;
                 if err \<noteq> BLACKBOX_LOGGER_OK then Some (err, lg) else do {
                   (err, lg) \<leftarrow> linear_recover_helper got_lock2 lg f;
                   Some (err, if err = BLACKBOX_LOGGER_OK then lg
                     else lg\<lparr>config_ptr := map_option
                            (\<lambda>c. c\<lparr>parameters := blackbox_logger_default_parameters\<rparr>) (config_ptr lg)\<rparr>)
                 }
               });
               Some (err, fill_recovered lg)
             }
           | _ \<Rightarrow> Some (BLACKBOX_LOGGER_ERR_INVALID_ARG, lg)))"

section \<open>Initialisation\<close>

definition blackbox_logger_deinit ::
    "bool \<Rightarrow> bool \<Rightarrow> 'f blackbox_logger \<Rightarrow> 'f \<Rightarrow> ('f blackbox_logger \<times> 'f) option" where
  "blackbox_logger_deinit over_old got_lock lg f =
     do {
       (_, lg, f, _) \<leftarrow> blackbox_logger_flush over_old got_lock (lg\<lparr>flush_timer := None\<rparr>) f;
       Some (lg\<lparr>write_lock := False, sector_buf_lock := False, config_ptr := None, write_offset := 0,
                replay_offset := 0, last_id := 0, last_erased_sector := -1, batch_len := 0\<rparr>, f)
     }"

text \<open>
  \<open>mutex1\<close>, \<open>mutex2\<close> and \<open>tim_err\<close> are what the two mutex creations and \<open>esp_timer_create\<close>
  return. A failed timer creation leaves the handle as it was.
\<close>

definition blackbox_logger_init ::
    "bool \<Rightarrow> bool \<Rightarrow> bool \<Rightarrow> esp_err \<Rightarrow> bool \<Rightarrow> bool \<Rightarrow> 'f blackbox_logger \<Rightarrow> 'f blackbox_logger_config option \<Rightarrow> 'f
       \<Rightarrow> (blackbox_logger_err \<times> 'f blackbox_logger \<times> 'f) option" where
  "blackbox_logger_init over_old mutex1 mutex2 tim_err got_lock got_lock2 lg config f =
     (case config of
        None \<Rightarrow> do {
          (lg, f) \<leftarrow> blackbox_logger_deinit over_old got_lock lg f;
          Some (BLACKBOX_LOGGER_ERR_INVALID_ARG, lg, f)
        }
      | Some c \<Rightarrow>
          let lg = lg\<lparr>config_ptr := Some c, last_erased_sector := -1, batch_len := 0, write_lock := mutex1\<rparr>;
              err = (if mutex1 then BLACKBOX_LOGGER_OK else BLACKBOX_LOGGER_ERR_NO_MEM);
              (err, lg) = (if err = BLACKBOX_LOGGER_OK
                then (if mutex2 then BLACKBOX_LOGGER_OK else BLACKBOX_LOGGER_ERR_NO_MEM, lg\<lparr>sector_buf_lock := mutex2\<rparr>)
                else (err, lg));
              (err, lg) = (if err = BLACKBOX_LOGGER_OK
                then (esp_to_blackbox_error_map tim_err,
                      if tim_err = ESP_OK then lg\<lparr>flush_timer := Some False\<rparr> else lg)
                else (err, lg))
          in if err = BLACKBOX_LOGGER_OK
             then do { (_, lg) \<leftarrow> recover_logger_internal got_lock got_lock2 lg f; Some (err, lg, f) }
             else do { (lg, f) \<leftarrow> blackbox_logger_deinit over_old got_lock lg f; Some (err, lg, f) })"

end
