(* ===== verification/Logger_Service.thy ===== *)
theory Logger_Service imports Telemetry_Service Blackbox_Logger begin

text \<open>
  The storing side, \<open>components/logger_service/logger_service.c\<close>: the queue of records to store, the
  task that writes them to the blackbox logger, and the fetch of the next entry to replay. The
  flash device is the state \<open>'f\<close> behind the logger's driver functions.
\<close>

section \<open>State\<close>

definition LOGGER_SERVICE_STORE_QUOTA :: nat where "LOGGER_SERVICE_STORE_QUOTA = 2"
definition LOGGER_SERVICE_LOGGING_QUEUE_LENGTH :: nat where "LOGGER_SERVICE_LOGGING_QUEUE_LENGTH = 32"
definition LOGGER_SERVICE_TASK_NOTIFY_STOP_BIT :: u32 where "LOGGER_SERVICE_TASK_NOTIFY_STOP_BIT = 1"
definition LOGGER_SERVICE_TASK_NOTIFY_LOG_BIT :: u32 where "LOGGER_SERVICE_TASK_NOTIFY_LOG_BIT = 2"

record ('q, 'f) logger_service =
  logger_service_task_handle :: task_handle
  logging_queue :: "'q option"
  blackbox :: "'f blackbox_logger"
  logger_work_pending :: bool

text \<open>
  Calls to the outside: an error event, or the notification that a flush has made entries
  available for replay.
\<close>

datatype logger_call = Logger_event event_bus_t | Replay_available

text \<open>The outcomes of the two locks that a write to the logger takes.\<close>

record write_locks =
  got_flush_lock :: bool
  got_write_lock :: bool

section \<open>Storing\<close>

definition logger_service_store ::
    "bool \<Rightarrow> write_locks \<Rightarrow> telemetry_pipeline_record \<Rightarrow> 'f blackbox_logger \<Rightarrow> 'f \<Rightarrow> slab_pool
       \<Rightarrow> (bool \<times> 'f blackbox_logger \<times> 'f \<times> slab_pool \<times> logger_call list) option" where
  "logger_service_store over_old k payload lg f p =
     do {
       i \<leftarrow> rec_slab_ptr payload;
       let content = slab_at p i;
       let entry = \<lparr>data_ptr = Some (slab_data content), view_length = slab_length content\<rparr>;
       (err, lg, f, notified) \<leftarrow>
         blackbox_logger_write over_old (got_flush_lock k) (got_write_lock k) lg (Some entry) f;
       let calls = (if notified then [Replay_available] else []);
       Some (if err \<noteq> BLACKBOX_LOGGER_OK
             then (False, lg, f, slab_pool_free (Some i) p,
                   calls @ [Logger_event (error_event METRICS_STAT_LOGGER_WRITE_ERRORS (rec_timestamp_us payload))])
             else (True, lg, f, slab_pool_free (Some i) p, calls))
     }"

text \<open>
  The task's loop. Its condition receives a record first and looks at the quota second, so a
  record received when the quota is used up goes nowhere.
\<close>

fun logger_store_loop ::
    "('q, telemetry_pipeline_record) rtos_queue \<Rightarrow> bool \<Rightarrow> (nat \<Rightarrow> write_locks) \<Rightarrow> nat \<Rightarrow> nat
       \<Rightarrow> 'q \<Rightarrow> 'f blackbox_logger \<Rightarrow> 'f \<Rightarrow> slab_pool
       \<Rightarrow> ('q \<times> 'f blackbox_logger \<times> 'f \<times> slab_pool \<times> logger_call list) option" where
  "logger_store_loop Q over_old ks idx 0 q lg f p =
     (case q_receive Q q of
        None \<Rightarrow> Some (q, lg, f, p, [])
      | Some (payload, q') \<Rightarrow> Some (q', lg, f, p, []))"
| "logger_store_loop Q over_old ks idx (Suc quota) q lg f p =
     (case q_receive Q q of
        None \<Rightarrow> Some (q, lg, f, p, [])
      | Some (payload, q') \<Rightarrow> do {
          (_, lg, f, p, calls) \<leftarrow> logger_service_store over_old (ks idx) payload lg f p;
          (q, lg, f, p, rest) \<leftarrow> logger_store_loop Q over_old ks (idx + 1) quota q' lg f p;
          Some (q, lg, f, p, calls @ rest)
        })"

definition logger_service_task_turn ::
    "('q, telemetry_pipeline_record) rtos_queue \<Rightarrow> bool \<Rightarrow> (nat \<Rightarrow> write_locks) \<Rightarrow> ('q, 'f) logger_service \<Rightarrow> 'f \<Rightarrow> slab_pool
       \<Rightarrow> (bool \<times> ('q, 'f) logger_service \<times> 'f \<times> slab_pool \<times> logger_call list) option" where
  "logger_service_task_turn Q over_old ks s f p =
     do {
       pending \<leftarrow> logger_service_task_handle s;
       let (notified, rest) = xTaskNotifyWait pending;
       if notified AND LOGGER_SERVICE_TASK_NOTIFY_STOP_BIT \<noteq> 0
       then Some (False, s\<lparr>logger_service_task_handle := None\<rparr>, f, p, [])
       else do {
         q \<leftarrow> logging_queue s;
         (q, lg, f, p, calls) \<leftarrow> logger_store_loop Q over_old ks 0 LOGGER_SERVICE_STORE_QUOTA q (blackbox s) f p;
         Some (True, s\<lparr>logger_service_task_handle := Some rest, logging_queue := Some q, blackbox := lg,
                       logger_work_pending := 0 < q_waiting Q q\<rparr>, f, p, calls)
       }
     }"

definition logger_service_stop_task :: "('q, 'f) logger_service \<Rightarrow> ('q, 'f) logger_service" where
  "logger_service_stop_task s =
     (case xTaskNotify LOGGER_SERVICE_TASK_NOTIFY_STOP_BIT (logger_service_task_handle s) of
        None \<Rightarrow> s
      | Some h \<Rightarrow> s\<lparr>logger_service_task_handle := h\<rparr>)"

definition logger_service_enqueue ::
    "('q, telemetry_pipeline_record) rtos_queue \<Rightarrow> telemetry_pipeline_record \<Rightarrow> ('q, 'f) logger_service
       \<Rightarrow> (bool \<times> ('q, 'f) logger_service) option" where
  "logger_service_enqueue Q payload s =
     do {
       q \<leftarrow> logging_queue s;
       let (sent, q') = q_send Q payload q;
       let s = s\<lparr>logging_queue := Some q'\<rparr>;
       if sent then do {
         h \<leftarrow> xTaskNotify LOGGER_SERVICE_TASK_NOTIFY_LOG_BIT (logger_service_task_handle s);
         Some (True, s\<lparr>logger_service_task_handle := h\<rparr>)
       }
       else Some (False, s)
     }"

section \<open>Replaying\<close>

definition logger_service_has_backlog :: "('q, 'f) logger_service \<Rightarrow> bool" where
  "logger_service_has_backlog s \<longleftrightarrow> blackbox_logger_has_replay_data (blackbox s)"

text \<open>
  The next entry is read into a slab of the pool, handed to the callback and released again. The
  callback sees the entry, whose bytes are the slab's; what it does to the rest of the system is a
  state of type \<open>'w\<close>. The record's time is never set: \<open>garbage\<close> is what the caller's object holds.
  The slab's length, which the callback of \<open>router.c\<close> writes (16 bits, for an entry of at most 512
  bytes), is written back with the bytes here; the slab is released right after.
\<close>

definition logger_service_fetch_next_replay ::
    "bool \<Rightarrow> (blackbox_logger_entry_view \<Rightarrow> int \<Rightarrow> 'w \<Rightarrow> bool \<times> 'w) option \<Rightarrow> int \<Rightarrow> ('q, 'f) logger_service \<Rightarrow> 'f \<Rightarrow> slab_pool
       \<Rightarrow> 'w \<Rightarrow> (bool \<times> ('q, 'f) logger_service \<times> slab_pool \<times> 'w) option" where
  "logger_service_fetch_next_replay got_lock cb garbage s f p w =
     (case slab_pool_alloc p of
        (None, p) \<Rightarrow> Some (False, s, p, w)
      | (Some i, p) \<Rightarrow> do {
          let entry = \<lparr>data_ptr = Some (slab_data (slab_at p i)), view_length = 0\<rparr>;
          (err, lg, entry_ptr, w) \<leftarrow> blackbox_logger_next_replay got_lock (blackbox s)
            (map_option (\<lambda>g e. g e garbage) cb) w (Some entry) SLAB_POOL_MAX_DATA_SIZE f;
          entry \<leftarrow> entry_ptr;
          data \<leftarrow> data_ptr entry;
          let p = put_slab i \<lparr>slab_data = data, slab_length = view_length entry\<rparr> p;
          Some (err = BLACKBOX_LOGGER_OK, s\<lparr>blackbox := lg\<rparr>, slab_pool_free (Some i) p, w)
        })"

section \<open>Initialisation\<close>

text \<open>\<open>started\<close> is the outcome of \<open>blackbox_logger_init\<close> on the logger and the configuration.\<close>

definition logger_service_init ::
    "('f blackbox_logger \<Rightarrow> 'f blackbox_logger_config option \<Rightarrow> 'f \<Rightarrow> (blackbox_logger_err \<times> 'f blackbox_logger \<times> 'f) option)
       \<Rightarrow> (nat \<Rightarrow> 'q option) \<Rightarrow> 'f blackbox_logger_config option \<Rightarrow> bool \<Rightarrow> ('q, 'f) logger_service \<Rightarrow> 'f
       \<Rightarrow> (bool \<times> ('q, 'f) logger_service \<times> 'f) option" where
  "logger_service_init started create config has_cb s f =
     (case config of
        None \<Rightarrow> Some (False, s, f)
      | Some c \<Rightarrow> do {
          (err, lg, f) \<leftarrow> started (blackbox s) (Some (c\<lparr>on_replay_available_func := has_cb\<rparr>)) f;
          let s = s\<lparr>blackbox := lg\<rparr>;
          if err \<noteq> BLACKBOX_LOGGER_OK then Some (False, s, f)
          else let q = create LOGGER_SERVICE_LOGGING_QUEUE_LENGTH
               in Some (q \<noteq> None, s\<lparr>logging_queue := q\<rparr>, f)
        })"

definition logger_service_deinit ::
    "bool \<Rightarrow> bool \<Rightarrow> ('q, 'f) logger_service \<Rightarrow> 'f \<Rightarrow> (('q, 'f) logger_service \<times> 'f) option" where
  "logger_service_deinit over_old got_lock s f =
     map_option (\<lambda>(lg, f). (s\<lparr>blackbox := lg, logging_queue := None\<rparr>, f))
       (blackbox_logger_deinit over_old got_lock (blackbox s) f)"

section \<open>Slabs of the store loop\<close>

text \<open>A store releases the record's slab whatever the logger says.\<close>

lemma logger_service_store_slab:
  assumes "logger_service_store over_old k payload lg f p = Some (ok, lg', f', p', calls)"
    and "slab_owns p H" and "rec_slab_ptr payload = Some i" and "i \<in> H"
  shows "slab_owns p' (H - {i}) \<and> p' = slab_pool_free (Some i) p"
  using assms slab_owns_release [OF assms(2,4)]
  by (auto simp: logger_service_store_def Let_def bind_eq_Some_conv split: if_splits)

text \<open>The slab references of a list of records, and the records a turn stores or drops.\<close>

definition record_slabs :: "telemetry_pipeline_record list \<Rightarrow> slab_ref list" where
  "record_slabs rs = map (\<lambda>r. the (rec_slab_ptr r)) rs"

lemma record_slabs_simps [simp]:
  "record_slabs [] = []" "record_slabs (r # rs) = the (rec_slab_ptr r) # record_slabs rs"
  "record_slabs (rs @ ss) = record_slabs rs @ record_slabs ss"
  "take n (record_slabs rs) = record_slabs (take n rs)" "drop n (record_slabs rs) = record_slabs (drop n rs)"
  by (simp_all add: record_slabs_def take_map drop_map)

text \<open>
  The loop takes one record more from the queue than its quota, but releases only the slabs of the
  quota's records.
\<close>

lemma logger_store_loop_slabs:
  assumes "queue_laws Q items cap" and "logger_store_loop Q over_old ks idx quota q lg f p = Some (q', lg', f', p', calls)"
    and "slab_owns p H" and "\<forall>r \<in> set (items q). rec_slab_ptr r \<noteq> None"
    and "distinct (record_slabs (items q))" and "set (record_slabs (items q)) \<subseteq> H"
  shows "items q' = drop (Suc quota) (items q) \<and> slab_owns p' (H - set (record_slabs (take quota (items q))))"
  using assms(2-)
proof (induction quota arbitrary: idx q lg f p H q' lg' f' p' calls)
  case 0
  show ?case
  proof (cases "items q")
    case Nil
    with 0 queue_receive_Nil [OF assms(1) Nil] show ?thesis by simp
  next
    case (Cons r rs)
    with 0 queue_receive_Cons [OF assms(1) Cons] show ?thesis by auto
  qed
next
  case (Suc quota)
  show ?case
  proof (cases "items q")
    case Nil
    with Suc.prems queue_receive_Nil [OF assms(1) Nil] show ?thesis by simp
  next
    case (Cons r rs)
    obtain q1 where q1: "q_receive Q q = Some (r, q1)" "items q1 = rs" using queue_receive_Cons [OF assms(1) Cons] by blast
    obtain i where i: "rec_slab_ptr r = Some i" using Suc.prems(3) Cons by auto
    obtain ok lg1 f1 p1 c1 c2 where st: "logger_service_store over_old (ks idx) r lg f p = Some (ok, lg1, f1, p1, c1)"
      and rest: "logger_store_loop Q over_old ks (idx + 1) quota q1 lg1 f1 p1 = Some (q', lg', f', p', c2)"
      using Suc.prems(1) q1(1) by (auto simp: bind_eq_Some_conv)
    have iH: "i \<in> H" using Suc.prems(5) Cons i by simp
    have own: "slab_owns p1 (H - {i})" using logger_service_store_slab [OF st Suc.prems(2) i iH] by blast
    have "items q' = drop (Suc quota) (items q1) \<and> slab_owns p' (H - {i} - set (record_slabs (take quota (items q1))))"
      by (rule Suc.IH [OF rest own]) (use Suc.prems(3-5) Cons i q1(2) in auto)
    moreover have "H - {i} - S = H - insert i S" for S by blast
    ultimately show ?thesis using Cons q1(2) i by simp
  qed
qed

section \<open>Properties\<close>

text \<open>
  C37. The storing task loses a record. With three records or more waiting, a turn stores the first
  two and releases their slabs, and takes the third from the queue without storing it: it is in
  no queue any more, and its slab stays held, by nobody.
\<close>

theorem logger_turn_drops_third_record:
  assumes "queue_laws Q items cap"
    and "logger_service_task_turn Q over_old ks s f p = Some (True, s', f', p', calls)"
    and "logging_queue s = Some q" and "items q = r1 # r2 # r3 # rs"
    and "\<forall>r \<in> set (items q). rec_slab_ptr r \<noteq> None" and "distinct (record_slabs (items q))"
    and "slab_owns p H" and "set (record_slabs (items q)) \<subseteq> H"
  shows "\<exists>q'. logging_queue s' = Some q' \<and> items q' = rs
    \<and> slab_owns p' (H - {the (rec_slab_ptr r1), the (rec_slab_ptr r2)})
    \<and> the (rec_slab_ptr r3) \<in> H - {the (rec_slab_ptr r1), the (rec_slab_ptr r2)}
    \<and> the (rec_slab_ptr r3) \<notin> set (record_slabs (items q'))"
proof -
  obtain q' lg' where loop: "logger_store_loop Q over_old ks 0 2 q (blackbox s) f p = Some (q', lg', f', p', calls)"
    and s': "logging_queue s' = Some q'"
    using assms(2,3) by (auto simp: logger_service_task_turn_def LOGGER_SERVICE_STORE_QUOTA_def Let_def bind_eq_Some_conv
        case_prod_beta split: if_splits)
  have "items q' = rs" "slab_owns p' (H - {the (rec_slab_ptr r1), the (rec_slab_ptr r2)})"
    using logger_store_loop_slabs [OF assms(1) loop assms(7,5,6,8)] assms(4) by (simp_all add: numeral_2_eq_2)
  with s' show ?thesis using assms(4,6,8) by auto
qed

definition logger_service_example :: "telemetry_pipeline_record list \<Rightarrow> (telemetry_pipeline_record list, unit) logger_service" where
  "logger_service_example rs = \<lparr>logger_service_task_handle = Some 2, logging_queue = Some rs,
     blackbox = \<lparr>config_ptr = None, write_offset = 0, replay_offset = 0, last_id = 0, last_erased_sector = -1,
       batch_len = 0, sector_buf_lock = False, write_lock = False, flush_timer = None\<rparr>, logger_work_pending = False\<rparr>"

definition record_at :: "slab_ref \<Rightarrow> telemetry_pipeline_record" where
  "record_at i = \<lparr>rec_slab_ptr = Some i, rec_timestamp_us = 0\<rparr>"

text \<open>Three slabs out of the fresh pool.\<close>

lemma three_slabs: "\<exists>p a b c. slab_owns p {a, b, c} \<and> distinct [a, b, c]"
proof -
  have ne: "H \<noteq> {..<SLAB_POOL_SIZE}" if "card H < 3" for H :: "slab_ref set" using that by (auto simp: SLAB_POOL_SIZE_def)
  obtain a p1 where a: "slab_pool_alloc (snd (slab_pool_init True slab_pool_static)) = (Some a, p1)"
    using slab_alloc_ne_None [OF slab_owns_init] ne [of "{}"] by auto
  note o1 = slab_owns_alloc_Some [OF slab_owns_init a]
  obtain b p2 where b: "slab_pool_alloc p1 = (Some b, p2)" using slab_alloc_ne_None [of p1 "{a}"] o1 ne [of "{a}"] by auto
  note o2 = slab_owns_alloc_Some [of p1 "{a}" b p2]
  obtain c p3 where c: "slab_pool_alloc p2 = (Some c, p3)"
    using slab_alloc_ne_None [of p2 "{b, a}"] o1 o2 b ne [of "{b, a}"] by (auto simp: card_insert_if)
  note o3 = slab_owns_alloc_Some [of p2 "{b, a}" c p3]
  have "slab_owns p3 {a, b, c}" "distinct [a, b, c]" using o1 o2 o3 b c by (auto simp: insert_commute)
  then show ?thesis by blast
qed

lemma logger_turn_drops_third_record_witness:
  "\<exists>a b c p s' f' p' calls. slab_owns p {a, b, c}
    \<and> logger_service_task_turn (list_queue 32) True (\<lambda>_. \<lparr>got_flush_lock = True, got_write_lock = True\<rparr>)
        (logger_service_example [record_at a, record_at b, record_at c]) () p = Some (True, s', f', p', calls)
    \<and> logging_queue s' = Some [] \<and> slab_owns p' {c}"
proof -
  obtain p a b c where o: "slab_owns p {a, b, c}" "distinct [a, b, c]" using three_slabs by blast
  let ?k = "\<lambda>_ :: nat. \<lparr>got_flush_lock = True, got_write_lock = True\<rparr>"
  let ?rs = "[record_at a, record_at b, record_at c]"
  have "\<exists>s' f' p' calls. logger_service_task_turn (list_queue 32) True ?k (logger_service_example ?rs) () p
      = Some (True, s', f', p', calls)"
    by (simp add: logger_service_task_turn_def logger_service_example_def LOGGER_SERVICE_STORE_QUOTA_def
        LOGGER_SERVICE_TASK_NOTIFY_STOP_BIT_def xTaskNotifyWait_def numeral_2_eq_2 logger_service_store_def record_at_def
        blackbox_logger_write_def)
  then obtain s' f' p' calls where t: "logger_service_task_turn (list_queue 32) True ?k (logger_service_example ?rs) () p
      = Some (True, s', f', p', calls)" by blast
  have "logging_queue (logger_service_example ?rs) = Some ?rs" by (simp add: logger_service_example_def)
  moreover have "record_slabs ?rs = [a, b, c]" "\<forall>r \<in> set ?rs. rec_slab_ptr r \<noteq> None"
    "the (rec_slab_ptr (record_at x)) = x" for x by (simp_all add: record_at_def)
  ultimately have "logging_queue s' = Some []" "slab_owns p' ({a, b, c} - {a, b})"
    using logger_turn_drops_third_record [OF list_queue_laws t, of ?rs "record_at a" "record_at b" "record_at c" "[]" "{a, b, c}"] o
    by auto
  moreover have "{a, b, c} - {a, b} = {c}" using o(2) by auto
  ultimately show ?thesis using o(1) t by metis
qed

end
