(* ===== verification/Router.thy ===== *)
theory Router imports Logger_Service begin

text \<open>
  The router of \<open>components/controller/router.c\<close>: a serialized record goes to the live queue while
  the telemetry service is online and to the storing queue otherwise; a replay is the next stored
  entry published on the replay topic.
\<close>

text \<open>Whether the record was taken by the chosen queue is not looked at.\<close>

definition router_dispatch ::
    "('l, telemetry_pipeline_record) rtos_queue \<Rightarrow> ('g, telemetry_pipeline_record) rtos_queue \<Rightarrow> bool
       \<Rightarrow> telemetry_pipeline_record \<Rightarrow> 'l telemetry_service \<Rightarrow> ('g, 'f) logger_service
       \<Rightarrow> ('l telemetry_service \<times> ('g, 'f) logger_service) option" where
  "router_dispatch Ql Qg got_lock payload ts ls =
     (if telemetry_service_is_online got_lock ts
      then map_option (\<lambda>(_, ts). (ts, ls)) (telemetry_service_enqueue_live Ql payload ts)
      else map_option (\<lambda>(_, ls). (ts, ls)) (logger_service_enqueue Qg payload ls))"

text \<open>
  The callback of the replay. Its state is the list of calls made so far, or \<open>None\<close> after
  undefined behaviour. The slab's length is a 16-bit number.
\<close>

definition replay_callback ::
    "(mqtt_message \<Rightarrow> int) \<Rightarrow> 'l telemetry_service \<Rightarrow> blackbox_logger_entry_view \<Rightarrow> int \<Rightarrow> telemetry_call list option
       \<Rightarrow> bool \<times> telemetry_call list option" where
  "replay_callback send ts entry timestamp_us calls =
     (case data_ptr entry of
        None \<Rightarrow> (False, None)
      | Some data \<Rightarrow>
          (case telemetry_service_publish_replay send ts
              \<lparr>slab_data = data, slab_length = view_length entry mod 65536\<rparr> timestamp_us of
             None \<Rightarrow> (False, None)
           | Some (is_sent, cs) \<Rightarrow> (is_sent, map_option (\<lambda>c. c @ cs) calls)))"

definition router_publish_replay ::
    "bool \<Rightarrow> (mqtt_message \<Rightarrow> int) \<Rightarrow> int \<Rightarrow> 'l telemetry_service \<Rightarrow> ('g, 'f) logger_service \<Rightarrow> 'f \<Rightarrow> slab_pool
       \<Rightarrow> (bool \<times> ('g, 'f) logger_service \<times> slab_pool \<times> telemetry_call list) option" where
  "router_publish_replay got_lock send garbage ts ls f p =
     do {
       (is_replayed, ls, p, w) \<leftarrow>
         logger_service_fetch_next_replay got_lock (Some (replay_callback send ts)) garbage ls f p (Some []);
       calls \<leftarrow> w;
       Some (is_replayed, ls, p, calls)
     }"

definition router_on_replay_available_callback :: "'l telemetry_service \<Rightarrow> 'l telemetry_service option" where
  "router_on_replay_available_callback ts = telemetry_service_notify_replay_available ts"

section \<open>Slabs\<close>

text \<open>
  Where a dispatched record ends up: behind the records of the chosen queue when that has room,
  and nowhere when it is full.
\<close>

lemma router_dispatch_queues:
  assumes "queue_laws Ql items_l cap_l" and "queue_laws Qg items_g cap_g"
    and "router_dispatch Ql Qg got_lock r ts ls = Some (ts', ls')"
    and "live_queue ts = Some ql" and "logging_queue ls = Some qg"
  shows "\<exists>ql' qg'. live_queue ts' = Some ql' \<and> logging_queue ls' = Some qg' \<and> blackbox ls' = blackbox ls
    \<and> (items_l ql' = items_l ql @ [r] \<and> items_g qg' = items_g qg
     \<or> items_l ql' = items_l ql \<and> items_g qg' = items_g qg @ [r]
     \<or> items_l ql' = items_l ql \<and> items_g qg' = items_g qg)"
proof (cases "telemetry_service_is_online got_lock ts")
  case True
  obtain sent ql1 where s: "q_send Ql r ql = (sent, ql1)" by (cases "q_send Ql r ql")
  have "items_l ql1 = items_l ql @ [r] \<or> items_l ql1 = items_l ql"
    using s queue_send_room [OF assms(1), of ql r] queue_send_full [OF assms(1), of ql r]
    by (cases "length (items_l ql) < cap_l") auto
  moreover have "live_queue ts' = Some ql1" "ls' = ls"
    using assms(3,4) True s
    by (auto simp: router_dispatch_def telemetry_service_enqueue_live_def Let_def bind_eq_Some_conv split: if_splits)
  ultimately show ?thesis using assms(5) by auto
next
  case False
  obtain sent qg1 where s: "q_send Qg r qg = (sent, qg1)" by (cases "q_send Qg r qg")
  have "items_g qg1 = items_g qg @ [r] \<or> items_g qg1 = items_g qg"
    using s queue_send_room [OF assms(2), of qg r] queue_send_full [OF assms(2), of qg r]
    by (cases "length (items_g qg) < cap_g") auto
  moreover have "logging_queue ls' = Some qg1" "ts' = ts" "blackbox ls' = blackbox ls"
    using assms(3,5) False s
    by (auto simp: router_dispatch_def logger_service_enqueue_def Let_def bind_eq_Some_conv split: if_splits)
  ultimately show ?thesis using assms(4) by auto
qed

text \<open>While the queues have room, the record enters the one that the online flag selects.\<close>

lemma router_dispatch_room:
  assumes "queue_laws Ql items_l cap_l" and "queue_laws Qg items_g cap_g"
    and "live_queue ts = Some ql" and "logging_queue ls = Some qg"
    and "length (items_l ql) < cap_l" and "length (items_g qg) < cap_g"
    and "telemetry_service_task_handle ts \<noteq> None" and "logger_service_task_handle ls \<noteq> None"
  shows "\<exists>ts' ls' ql' qg'. router_dispatch Ql Qg got_lock r ts ls = Some (ts', ls')
    \<and> live_queue ts' = Some ql' \<and> logging_queue ls' = Some qg'
    \<and> (items_l ql', items_g qg') = (if telemetry_service_is_online got_lock ts
       then (items_l ql @ [r], items_g qg) else (items_l ql, items_g qg @ [r]))
    \<and> blackbox ls' = blackbox ls
    \<and> (\<not> telemetry_service_is_online got_lock ts \<longrightarrow> ts' = ts
       \<and> (\<forall>h. logger_service_task_handle ls = Some h
             \<longrightarrow> logger_service_task_handle ls' = Some (h OR LOGGER_SERVICE_TASK_NOTIFY_LOG_BIT)))"
proof -
  obtain ql1 where l: "q_send Ql r ql = (True, ql1)" "items_l ql1 = items_l ql @ [r]"
    using queue_send_room [OF assms(1,5), of r] by blast
  obtain qg1 where g: "q_send Qg r qg = (True, qg1)" "items_g qg1 = items_g qg @ [r]"
    using queue_send_room [OF assms(2,6), of r] by blast
  show ?thesis
    using assms(3,4,7,8) l g
    by (cases "telemetry_service_is_online got_lock ts")
      (auto simp: router_dispatch_def telemetry_service_enqueue_live_def logger_service_enqueue_def)
qed

text \<open>A read fills the caller's buffer in place: its size stays.\<close>

lemma logger_read_view:
  assumes "blackbox_logger_read got_lock lg off (Some e) n f = Some (err, lg', v)" and "data_ptr e = Some d"
  shows "\<exists>e' d'. v = Some e' \<and> data_ptr e' = Some d' \<and> length d' = length d"
  using assms
  by (auto simp: blackbox_logger_read_def Let_def bind_eq_Some_conv split: option.splits if_splits)

lemma next_replay_view:
  assumes "blackbox_logger_next_replay got_lock lg cb w (Some e) n f = Some (err, lg', v, w')" and "data_ptr e = Some d"
  shows "\<exists>e' d'. v = Some e' \<and> data_ptr e' = Some d' \<and> length d' = length d"
  using assms
  by (auto simp: blackbox_logger_next_replay_def bind_eq_Some_conv case_prod_beta
      split: option.splits if_splits dest!: logger_read_view)

text \<open>A replay uses a slab only in between.\<close>

lemma fetch_next_replay_slabs:
  assumes "logger_service_fetch_next_replay got_lock cb garbage ls f p w = Some (ok, ls', p', w')" and "slab_owns p H"
  shows "slab_owns p' H \<and> (\<forall>j \<in> H. slab_at p' j = slab_at p j) \<and> logging_queue ls' = logging_queue ls"
proof (cases "slab_pool_alloc p")
  case (Pair r p1)
  show ?thesis
  proof (cases r)
    case None
    with Pair assms(1,2) slab_owns_alloc_None [OF assms(2)] show ?thesis
      by (auto simp: logger_service_fetch_next_replay_def)
  next
    case (Some i)
    note al = slab_owns_alloc_Some [OF assms(2), of i p1] slab_pool_alloc_length [OF assms(2), of i p1]
    have i: "i \<notin> H" "slab_owns p1 (insert i H)" "\<forall>j. j \<noteq> i \<longrightarrow> slab_at p1 j = slab_at p j" using al Pair Some by auto
    let ?e = "\<lparr>data_ptr = Some (slab_data (slab_at p1 i)), view_length = 0\<rparr>"
    obtain err lg v e d where n: "blackbox_logger_next_replay got_lock (blackbox ls) (map_option (\<lambda>g e. g e garbage) cb) w
        (Some ?e) SLAB_POOL_MAX_DATA_SIZE f = Some (err, lg, v, w')"
      "v = Some e" "data_ptr e = Some d" "ls' = ls\<lparr>blackbox := lg\<rparr>"
      "p' = slab_pool_free (Some i) (put_slab i \<lparr>slab_data = d, slab_length = view_length e\<rparr> p1)"
      using assms(1) Pair Some by (auto simp: logger_service_fetch_next_replay_def bind_eq_Some_conv Let_def)
    have "length d = length (slab_data (slab_at p1 i))" using next_replay_view [OF n(1)] n(2,3) by simp
    moreover have at: "i < length (pool p1)" "length (slab_data (slab_at p1 i)) = SLAB_POOL_MAX_DATA_SIZE"
      using slab_owns_at [OF i(2)] by simp_all
    ultimately have "slab_owns (put_slab i \<lparr>slab_data = d, slab_length = view_length e\<rparr> p1) (insert i H)"
      using i(2) by (intro slab_owns_put) simp_all
    then have "slab_owns p' H" using slab_owns_release [of _ "insert i H" i] i(1) n(5) by simp
    moreover have "\<forall>j \<in> H. slab_at p' j = slab_at p j"
      using i(1,3) at by (auto simp: n(5) free_at slab_at_put_slab)
    ultimately show ?thesis using n(4) by simp
  qed
qed

end
