(* ===== verification/Vault.thy ===== *)
theory Vault imports Router begin

text \<open>
  The data path as a whole, composed the way \<open>system_init.c\<close> connects the callbacks. The tasks of
  the pipeline, the publishing and the storing side run interleaved over one pool of slabs; a step
  is one turn of a task, an event of the line driver or of the MQTT client, or a timer.
\<close>

section \<open>The system\<close>

record ('r, 'q, 'l, 'g) vault_queues =
  events_q :: "('r, rs485_driver_event) rtos_queue"
  frames_q :: "('q, modbus_analyzer_frame) rtos_queue"
  live_q :: "('l, telemetry_pipeline_record) rtos_queue"
  logging_q :: "('g, telemetry_pipeline_record) rtos_queue"

record ('r, 'q, 'l, 'g, 'e, 'f) vault =
  v_pipeline :: "('q, 'r, 'e) telemetry_pipeline"
  v_telemetry :: "'l telemetry_service"
  v_logger :: "('g, 'f) logger_service"
  v_flash :: 'f
  v_pool :: slab_pool

text \<open>The line driver's callback.\<close>

definition vault_line_event where
  "vault_line_event QS e v =
     map_option (\<lambda>a. v\<lparr>v_pipeline := (v_pipeline v)\<lparr>analyzer := a\<rparr>\<rparr>)
       (on_rs485_driver_event_callback (events_q QS) e (analyzer (v_pipeline v)))"

text \<open>A turn of the analyzer's task; its frame callback is \<open>telemetry_pipeline_enqueue_raw_frame\<close>.\<close>

fun run_analyzer_calls where
  "run_analyzer_calls Q [] t = Some t"
| "run_analyzer_calls Q (c # cs) t =
     (case c of
        Publish _ \<Rightarrow> run_analyzer_calls Q cs t
      | On_frame fr \<Rightarrow> do { t \<leftarrow> telemetry_pipeline_enqueue_raw_frame Q (Some fr) t; run_analyzer_calls Q cs t })"

definition vault_analyzer_turn where
  "vault_analyzer_turn QS now v =
     do {
       (_, a, p, calls) \<leftarrow> modbus_analyzer_task_turn (events_q QS) now (analyzer (v_pipeline v)) (v_pool v);
       t \<leftarrow> run_analyzer_calls (frames_q QS) calls ((v_pipeline v)\<lparr>analyzer := a\<rparr>);
       Some (v\<lparr>v_pipeline := t, v_pool := p\<rparr>)
     }"

text \<open>A turn of the pipeline's task; its record callback is \<open>router_dispatch\<close>.\<close>

definition vault_pipeline_turn where
  "vault_pipeline_turn QS packed_size pack got_lock v =
     do {
       (_, t, p, out) \<leftarrow> telemetry_pipeline_task_turn (frames_q QS) packed_size pack (v_pipeline v) (v_pool v);
       let v = v\<lparr>v_pipeline := t, v_pool := p\<rparr>;
       (case out of
          None \<Rightarrow> Some v
        | Some r \<Rightarrow> map_option (\<lambda>(ts, ls). v\<lparr>v_telemetry := ts, v_logger := ls\<rparr>)
            (router_dispatch (live_q QS) (logging_q QS) got_lock r (v_telemetry v) (v_logger v)))
     }"

text \<open>A turn of the publishing task; its replay callback is \<open>router_publish_replay\<close>.\<close>

definition vault_replay ::
    "bool \<Rightarrow> (mqtt_message \<Rightarrow> int) \<Rightarrow> int \<Rightarrow> 'f \<Rightarrow> 'l telemetry_service \<Rightarrow> ('g, 'f) logger_service \<times> slab_pool
       \<Rightarrow> (bool \<times> (('g, 'f) logger_service \<times> slab_pool) \<times> telemetry_call list) option" where
  "vault_replay got_sector_lock send garbage f ts w =
     map_option (\<lambda>(is_replayed, ls, p, calls). (is_replayed, (ls, p), calls))
       (router_publish_replay got_sector_lock send garbage ts (fst w) f (snd w))"

text \<open>The second component of the result is what the turn passes on to the MQTT client and the event bus.\<close>

definition vault_telemetry_turn where
  "vault_telemetry_turn QS send live_locks got_lock replay_locks got_sector_lock garbage v =
     map_option (\<lambda>(_, ts, w, calls). (v\<lparr>v_telemetry := ts, v_logger := fst w, v_pool := snd w\<rparr>, calls))
       (telemetry_service_task_turn (live_q QS) send (vault_replay got_sector_lock send garbage (v_flash v))
         snd (\<lambda>p w. (fst w, p)) live_locks got_lock replay_locks (v_telemetry v) (v_logger v, v_pool v))"

text \<open>A turn of the storing task; a flush may announce entries for replay.\<close>

fun run_logger_calls where
  "run_logger_calls [] ts = Some ts"
| "run_logger_calls (c # cs) ts =
     (case c of
        Logger_event _ \<Rightarrow> run_logger_calls cs ts
      | Replay_available \<Rightarrow> do { ts \<leftarrow> router_on_replay_available_callback ts; run_logger_calls cs ts })"

definition vault_logger_turn where
  "vault_logger_turn QS over_old ks v =
     do {
       (_, ls, f, p, calls) \<leftarrow> logger_service_task_turn (logging_q QS) over_old ks (v_logger v) (v_flash v) (v_pool v);
       ts \<leftarrow> run_logger_calls calls (v_telemetry v);
       Some (v\<lparr>v_logger := ls, v_flash := f, v_pool := p, v_telemetry := ts\<rparr>)
     }"

text \<open>
  An event of the MQTT client: the bridge takes note of the connection, and its callback is
  \<open>telemetry_service_set_online\<close>.
\<close>

definition vault_mqtt_event where
  "vault_mqtt_event got_lock event v =
     (let (b, notified) = mqtt_event_handler event (telemetry_bridge (v_telemetry v));
          ts = (v_telemetry v)\<lparr>telemetry_bridge := b\<rparr>
      in case notified of
           None \<Rightarrow> Some (v\<lparr>v_telemetry := ts\<rparr>)
         | Some online \<Rightarrow> map_option (\<lambda>ts. v\<lparr>v_telemetry := ts\<rparr>) (telemetry_service_set_online got_lock online ts))"

text \<open>
  The two timers: the one that flushes the logger's batch, whose replay callback is the router's,
  and the one that publishes the metrics, which are the argument \<open>counters\<close>.
\<close>

definition vault_flush_timer where
  "vault_flush_timer over_old got_lock v =
     do {
       (lg, f, available) \<leftarrow> timer_flush_flash_internal over_old got_lock (blackbox (v_logger v)) (v_flash v);
       let v = v\<lparr>v_logger := (v_logger v)\<lparr>blackbox := lg\<rparr>, v_flash := f\<rparr>;
       if available
       then map_option (\<lambda>ts. v\<lparr>v_telemetry := ts\<rparr>) (router_on_replay_available_callback (v_telemetry v))
       else Some v
     }"

definition vault_metrics_timer where
  "vault_metrics_timer send got_lock now garbage counters v =
     map_option (Pair v) (handle_system_metrics_internal send got_lock now garbage counters (v_telemetry v))"

text \<open>
  A turn of one of the tasks, a timer, or an event of the MQTT client, with the calls of the
  publishing side to the outside.
\<close>

inductive vault_turn ::
    "('r, 'q, 'l, 'g) vault_queues \<Rightarrow> (modbus_frame_msg \<Rightarrow> nat) \<Rightarrow> (modbus_frame_msg \<Rightarrow> bytes)
       \<Rightarrow> ('r, 'q, 'l, 'g, 'e, 'f) vault \<Rightarrow> telemetry_call list \<Rightarrow> ('r, 'q, 'l, 'g, 'e, 'f) vault \<Rightarrow> bool"
    for QS packed_size pack where
  turn_analyzer: "vault_analyzer_turn QS now v = Some v' \<Longrightarrow> vault_turn QS packed_size pack v [] v'"
| turn_pipeline: "vault_pipeline_turn QS packed_size pack got_lock v = Some v' \<Longrightarrow> vault_turn QS packed_size pack v [] v'"
| turn_telemetry: "vault_telemetry_turn QS send live_locks got_lock replay_locks got_sector_lock garbage v = Some (v', calls)
    \<Longrightarrow> vault_turn QS packed_size pack v calls v'"
| turn_logger: "vault_logger_turn QS over_old ks v = Some v' \<Longrightarrow> vault_turn QS packed_size pack v [] v'"
| turn_mqtt: "vault_mqtt_event got_lock event v = Some v' \<Longrightarrow> vault_turn QS packed_size pack v [] v'"
| turn_flush: "vault_flush_timer over_old got_lock v = Some v' \<Longrightarrow> vault_turn QS packed_size pack v [] v'"
| turn_metrics: "vault_metrics_timer send got_lock now garbage counters v = Some (v', calls)
    \<Longrightarrow> vault_turn QS packed_size pack v calls v'"

text \<open>A step of the system is a turn or an event of the line.\<close>

inductive vault_step ::
    "('r, 'q, 'l, 'g) vault_queues \<Rightarrow> (modbus_frame_msg \<Rightarrow> nat) \<Rightarrow> (modbus_frame_msg \<Rightarrow> bytes)
       \<Rightarrow> ('r, 'q, 'l, 'g, 'e, 'f) vault \<Rightarrow> ('r, 'q, 'l, 'g, 'e, 'f) vault \<Rightarrow> bool"
    for QS packed_size pack where
  step_line: "ev_length e \<le> 256 \<Longrightarrow> vault_line_event QS e v = Some v' \<Longrightarrow> vault_step QS packed_size pack v v'"
| step_turn: "vault_turn QS packed_size pack v calls v' \<Longrightarrow> vault_step QS packed_size pack v v'"

end
