(* ===== verification/Data_Path.thy ===== *)
theory Data_Path imports Vault "HOL-Library.Sublist" begin

text \<open>
  What the data path does, without buffers and pointers: a line buffer and four queues of values.
  \<open>data_path_of\<close> reads the slabs of the system out, and \<open>data_turn\<close> is the specification of a turn on
  these values. It may lose a value where a queue, the pool or the line buffer is full, and does
  nothing else to it than pass it on.
\<close>

section \<open>The contents of the slabs\<close>

record ('r, 'q, 'l, 'g) vault_items =
  events_of :: "'r \<Rightarrow> rs485_driver_event list"
  frames_of :: "'q \<Rightarrow> modbus_analyzer_frame list"
  live_of :: "'l \<Rightarrow> telemetry_pipeline_record list"
  logging_of :: "'g \<Rightarrow> telemetry_pipeline_record list"

definition frame_slabs :: "modbus_analyzer_frame list \<Rightarrow> slab_ref list" where
  "frame_slabs fs = map (\<lambda>fr. the (mf_slab_ptr fr)) fs"

lemma frame_slabs_simps [simp]:
  "frame_slabs [] = []" "frame_slabs (fr # fs) = the (mf_slab_ptr fr) # frame_slabs fs"
  "frame_slabs (fs @ gs) = frame_slabs fs @ frame_slabs gs"
  by (simp_all add: frame_slabs_def)

definition slab_bytes :: "slab_pool \<Rightarrow> slab_ref \<Rightarrow> bytes" where
  "slab_bytes p i = take (slab_length (slab_at p i)) (slab_data (slab_at p i))"

definition frame_items :: "slab_pool \<Rightarrow> modbus_analyzer_frame list \<Rightarrow> (int \<times> bytes) list" where
  "frame_items p fs = map (\<lambda>fr. (mf_timestamp_us fr, slab_bytes p (the (mf_slab_ptr fr)))) fs"

definition record_items :: "slab_pool \<Rightarrow> telemetry_pipeline_record list \<Rightarrow> (int \<times> bytes) list" where
  "record_items p rs = map (\<lambda>r. (rec_timestamp_us r, slab_bytes p (the (rec_slab_ptr r)))) rs"

lemma items_simps [simp]:
  "frame_items p [] = []" "frame_items p (fr # fs) = (mf_timestamp_us fr, slab_bytes p (the (mf_slab_ptr fr))) # frame_items p fs"
  "frame_items p (fs @ gs) = frame_items p fs @ frame_items p gs"
  "record_items p [] = []" "record_items p (r # rs) = (rec_timestamp_us r, slab_bytes p (the (rec_slab_ptr r))) # record_items p rs"
  "record_items p (rs @ ss) = record_items p rs @ record_items p ss" "record_items p (drop n rs) = drop n (record_items p rs)"
  by (simp_all add: frame_items_def record_items_def drop_map)

lemma items_same:
  "\<forall>j \<in> set (frame_slabs fs). slab_at p' j = slab_at p j \<Longrightarrow> frame_items p' fs = frame_items p fs"
  "\<forall>j \<in> set (record_slabs rs). slab_at p' j = slab_at p j \<Longrightarrow> record_items p' rs = record_items p rs"
  by (auto simp: frame_items_def record_items_def slab_bytes_def frame_slabs_def record_slabs_def)

record line_state =
  l_open :: bool
  l_start :: int
  l_bytes :: bytes

record data_path =
  d_events :: "rs485_driver_event list"
  d_line :: line_state
  d_frames :: "(int \<times> bytes) list"
  d_live :: "(int \<times> bytes) list"
  d_store :: "(int \<times> bytes) list"

definition line_of :: "modbus_slicer \<Rightarrow> slab_pool \<Rightarrow> line_state" where
  "line_of sl p = \<lparr>l_open = (slab_ptr sl \<noteq> None), l_start = start_timestamp_us sl, l_bytes = slicer_bytes sl p\<rparr>"

fun queued :: "('q \<Rightarrow> 'a list) \<Rightarrow> 'q option \<Rightarrow> 'a list" where
  "queued items None = []"
| "queued items (Some q) = items q"

definition data_path_of where
  "data_path_of I v =
     \<lparr>d_events = queued (events_of I) (raw_events_queue (analyzer (v_pipeline v))),
      d_line = line_of (analyzer_slicer (analyzer (v_pipeline v))) (v_pool v),
      d_frames = frame_items (v_pool v) (queued (frames_of I) (raw_frame_queue (v_pipeline v))),
      d_live = record_items (v_pool v) (queued (live_of I) (live_queue (v_telemetry v))),
      d_store = record_items (v_pool v) (queued (logging_of I) (logging_queue (v_logger v)))\<rparr>"

text \<open>
  The line buffer takes the bytes of an event, or is empty afterwards because it had no room or
  no slab. At the end of a frame it is emptied, and a frame with a correct checksum may come out.
\<close>

definition event_bytes :: "rs485_driver_event \<Rightarrow> bytes" where
  "event_bytes e = (if ev_flags e AND RS485_DRIVER_EVENT_FLAG_DATA \<noteq> 0 then frame_bytes e else [])"

definition crc_frame :: "bytes \<Rightarrow> bool" where
  "crc_frame bs \<longleftrightarrow> 4 \<le> length bs \<and> calculate_modbus_crc16_lut bs = 0"

definition line_takes :: "rs485_driver_event \<Rightarrow> line_state \<Rightarrow> line_state \<Rightarrow> bool" where
  "line_takes e l l' \<longleftrightarrow>
     (if event_bytes e = [] then l' = l
      else (l_bytes l' = l_bytes l @ event_bytes e \<or> l_bytes l' = [])
        \<and> l_start l' = (if l_open l then l_start l else ev_timestamp_us e))"

definition line_ends :: "line_state \<Rightarrow> line_state \<Rightarrow> (int \<times> bytes) list \<Rightarrow> bool" where
  "line_ends l l' out \<longleftrightarrow>
     l' = l \<and> out = []
   \<or> l_bytes l' = [] \<and> l_start l' = l_start l \<and> (l_open l' \<longrightarrow> l_open l)
       \<and> (out = [] \<or> crc_frame (l_bytes l) \<and> out = [(l_start l, l_bytes l)])"

section \<open>The specification\<close>

text \<open>
  The analyzer takes an event or finds the line silent; a frame that comes out is queued or lost.
  The pipeline takes the oldest frame and queues its packed message for publishing or for storing,
  or loses it. The publishing and the storing task take records from the front;
  the bytes that the first of them sends on the live topic are the label of the turn.
\<close>

inductive data_turn :: "(modbus_frame_msg \<Rightarrow> bytes) \<Rightarrow> data_path \<Rightarrow> bytes list \<Rightarrow> data_path \<Rightarrow> bool" for pack where
  data_idle: "data_turn pack d [] d"
| data_take: "d_events d = e # es \<Longrightarrow> line_takes e (d_line d) l \<Longrightarrow> line_ends l l' out
    \<Longrightarrow> fs = d_frames d \<or> fs = d_frames d @ out
    \<Longrightarrow> data_turn pack d [] (d\<lparr>d_events := es, d_line := l', d_frames := fs\<rparr>)"
| data_silence: "line_ends (d_line d) l' out \<Longrightarrow> fs = d_frames d \<or> fs = d_frames d @ out
    \<Longrightarrow> data_turn pack d [] (d\<lparr>d_line := l', d_frames := fs\<rparr>)"
| data_lose: "d_frames d = f # fs \<Longrightarrow> data_turn pack d [] (d\<lparr>d_frames := fs\<rparr>)"
| data_to_live: "d_frames d = (t, bs) # fs
    \<Longrightarrow> data_turn pack d [] (d\<lparr>d_frames := fs, d_live := d_live d @ [(t, pack (frame_message t bs))]\<rparr>)"
| data_to_store: "d_frames d = (t, bs) # fs
    \<Longrightarrow> data_turn pack d [] (d\<lparr>d_frames := fs, d_store := d_store d @ [(t, pack (frame_message t bs))]\<rparr>)"
| data_publish: "subseq sent (map snd (take n (d_live d))) \<Longrightarrow> data_turn pack d sent (d\<lparr>d_live := drop n (d_live d)\<rparr>)"
| data_stored: "data_turn pack d [] (d\<lparr>d_store := drop n (d_store d)\<rparr>)"

text \<open>An event of the line is queued or lost.\<close>

definition data_line :: "rs485_driver_event \<Rightarrow> data_path \<Rightarrow> data_path \<Rightarrow> bool" where
  "data_line e d d' \<longleftrightarrow> d' = d \<or> d' = d\<lparr>d_events := d_events d @ [e]\<rparr>"

lemma data_publishI:
  "d' = d\<lparr>d_live := drop n (d_live d)\<rparr> \<Longrightarrow> subseq sent (map snd (take n (d_live d))) \<Longrightarrow> data_turn pack d sent d'"
  using data_publish by simp

lemma data_storedI: "d' = d\<lparr>d_store := drop n (d_store d)\<rparr> \<Longrightarrow> data_turn pack d [] d'"
  using data_stored by simp

lemma data_idleI: "d' = d \<Longrightarrow> data_turn pack d [] d'"
  using data_idle by simp

section \<open>Messages\<close>

text \<open>The bytes sent on a topic.\<close>

fun sent_on :: "string \<Rightarrow> telemetry_call list \<Rightarrow> bytes list" where
  "sent_on t [] = []"
| "sent_on t (Sent m # cs) = (if mqtt_topic m = t then mqtt_data m # sent_on t cs else sent_on t cs)"
| "sent_on t (Telemetry_event e # cs) = sent_on t cs"

lemma sent_on_append [simp]: "sent_on t (cs @ ds) = sent_on t cs @ sent_on t ds"
  by (induction t cs rule: sent_on.induct) auto

lemma mqtt_publish_message:
  assumes "mqtt_bridge_publish send b topic (Some data) n qos = Some (err, msg)"
  shows "msg = None \<or> msg = Some \<lparr>mqtt_topic = topic, mqtt_data = take n data, mqtt_qos = qos\<rparr>"
  using assms by (auto simp: mqtt_bridge_publish_def buf_read_def Let_def split: if_splits)

lemma publish_sent:
  assumes "publish_to_topic_helper send s content timestamp_us topic = Some (ok, calls)"
  shows "sent_on t calls = []
    \<or> t = topics s ! topic_index topic \<and> sent_on t calls = [take (slab_length content) (slab_data content)]"
proof -
  obtain err msg where m: "mqtt_bridge_publish send (telemetry_bridge s) (topics s ! topic_index topic) (Some (slab_data content))
      (slab_length content) (topics_qos s ! topic_index topic) = Some (err, msg)"
    and calls: "sent_on t calls = sent_on t (case msg of None \<Rightarrow> [] | Some m \<Rightarrow> [Sent m])"
    using assms by (auto simp: publish_to_topic_helper_def bind_eq_Some_conv Let_def split: if_splits)
  from mqtt_publish_message [OF m] show ?thesis by (auto simp: calls split: if_splits)
qed

section \<open>Turns\<close>

text \<open>The line buffer in a turn of the analyzer, with the events before and after it.\<close>

definition line_turn ::
    "line_state \<Rightarrow> rs485_driver_event list \<Rightarrow> line_state \<Rightarrow> rs485_driver_event list \<Rightarrow> (int \<times> bytes) list \<Rightarrow> bool" where
  "line_turn l es l' es' out \<longleftrightarrow>
     es' = es \<and> line_ends l l' out \<or> (\<exists>e k. es = e # es' \<and> line_takes e l k \<and> line_ends k l' out)"

lemma data_turn_analyzer:
  assumes "line_turn (d_line d) (d_events d) l' es' out" and "fs = d_frames d \<or> fs = d_frames d @ out"
  shows "data_turn pack d [] (d\<lparr>d_events := es', d_line := l', d_frames := fs\<rparr>)"
  using assms(1) unfolding line_turn_def
proof (elim disjE exE conjE)
  assume "es' = d_events d" and "line_ends (d_line d) l' out"
  with data_silence [OF _ assms(2)] show ?thesis by simp
next
  fix e k
  assume "d_events d = e # es'" and "line_takes e (d_line d) k" and "line_ends k l' out"
  then show ?thesis using data_take assms(2) by blast
qed

lemma data_turn_pipeline:
  assumes "d_frames d = (t, bs) # fs"
    and "lv = d_live d @ [(t, pack (frame_message t bs))] \<and> st = d_store d
       \<or> lv = d_live d \<and> st = d_store d @ [(t, pack (frame_message t bs))] \<or> lv = d_live d \<and> st = d_store d"
  shows "data_turn pack d [] (d\<lparr>d_frames := fs, d_live := lv, d_store := st\<rparr>)"
proof -
  have "d\<lparr>d_frames := fs, d_live := lv', d_store := d_store d\<rparr> = d\<lparr>d_frames := fs, d_live := lv'\<rparr>"
    "d\<lparr>d_frames := fs, d_live := d_live d, d_store := st'\<rparr> = d\<lparr>d_frames := fs, d_store := st'\<rparr>"
    "d\<lparr>d_frames := fs, d_live := d_live d\<rparr> = d\<lparr>d_frames := fs\<rparr>" for lv' st' by simp_all
  with assms(2) data_to_live [OF assms(1)] data_to_store [OF assms(1)] data_lose [OF assms(1)] show ?thesis by auto
qed

end
