(* ===== verification/Vault_Slabs.thy ===== *)
theory Vault_Slabs imports Data_Path begin

text \<open>
  Where the slabs are while the data path runs: an invariant over every interleaving of its steps,
  and the way of one frame from the line to a queue of records.
\<close>

section \<open>Where the slabs are\<close>

definition vault_queues_ok where
  "vault_queues_ok QS I \<longleftrightarrow>
     queue_laws (events_q QS) (events_of I) 20 \<and> queue_laws (frames_q QS) (frames_of I) 32
     \<and> queue_laws (live_q QS) (live_of I) 16 \<and> queue_laws (logging_q QS) (logging_of I) 32"

text \<open>
  The slabs \<open>S\<close> of the slicer, of the frames \<open>fs\<close>, of the live records \<open>ls\<close> and of the records to
  store \<open>gs\<close> are all different and all held, together with the set \<open>L\<close> of slabs that nobody can
  reach any more. Captured frames fit into their slabs.
\<close>

definition placed ::
    "modbus_slicer \<Rightarrow> modbus_analyzer_frame list \<Rightarrow> telemetry_pipeline_record list \<Rightarrow> telemetry_pipeline_record list
       \<Rightarrow> slab_ref set \<Rightarrow> slab_pool \<Rightarrow> bool" where
  "placed sl fs ls gs L p \<longleftrightarrow>
     slicer_inv sl p (set (frame_slabs fs @ record_slabs ls @ record_slabs gs) \<union> L)
     \<and> distinct (frame_slabs fs @ record_slabs ls @ record_slabs gs)
     \<and> set (frame_slabs fs @ record_slabs ls @ record_slabs gs) \<inter> L = {}
     \<and> (\<forall>fr \<in> set fs. mf_slab_ptr fr \<noteq> None \<and> slab_length (slab_at p (the (mf_slab_ptr fr))) \<le> SLAB_POOL_MAX_DATA_SIZE)
     \<and> (\<forall>r \<in> set (ls @ gs). rec_slab_ptr r \<noteq> None)"

definition vault_inv where
  "vault_inv I v L \<longleftrightarrow>
     (\<exists>eq fq lq gq c. raw_events_queue (analyzer (v_pipeline v)) = Some eq \<and> raw_frame_queue (v_pipeline v) = Some fq
       \<and> live_queue (v_telemetry v) = Some lq \<and> logging_queue (v_logger v) = Some gq
       \<and> slicer_config_ptr (analyzer_slicer (analyzer (v_pipeline v))) = Some c
       \<and> (\<forall>e \<in> set (events_of I eq). ev_length e \<le> 256)
       \<and> placed (analyzer_slicer (analyzer (v_pipeline v))) (frames_of I fq) (live_of I lq) (logging_of I gq) L (v_pool v))"

section \<open>Turns of the analyzer\<close>

text \<open>The frames that a run of calls passes on.\<close>

fun called_frames :: "analyzer_call list \<Rightarrow> modbus_analyzer_frame list" where
  "called_frames [] = []"
| "called_frames (Publish _ # cs) = called_frames cs"
| "called_frames (On_frame fr # cs) = fr # called_frames cs"

lemma called_frames_append [simp]: "called_frames (cs @ ds) = called_frames cs @ called_frames ds"
  by (induction cs rule: called_frames.induct) auto

text \<open>
  A frame that leaves the slicer with its slab: the slab is the frame's, or nobody's when the
  checksum is wrong. \<open>G\<close> is the set of slabs that left the slicer.
\<close>

definition handed_out :: "slab_pool \<Rightarrow> slab_ref set \<Rightarrow> analyzer_call list \<Rightarrow> bool" where
  "handed_out p G calls \<longleftrightarrow> called_frames calls = []
     \<or> (\<exists>fr i. called_frames calls = [fr] \<and> mf_slab_ptr fr = Some i \<and> i \<in> G
          \<and> slab_length (slab_at p i) \<le> SLAB_POOL_MAX_DATA_SIZE)"

lemma timeout_hands_out:
  assumes inv: "slicer_inv sl p H" and t: "modbus_slicer_timeout sl p = (sl', p', fr)"
    and c: "emit_modbus_frame_callback has_cb fr p' = Some calls"
  shows "\<exists>G. G \<inter> H = {} \<and> slicer_inv sl' p' (G \<union> H) \<and> handed_out p' G calls \<and> (\<forall>j \<in> H. slab_at p' j = slab_at p j)
    \<and> slicer_config_ptr sl' = slicer_config_ptr sl
    \<and> line_ends (line_of sl p) (line_of sl' p') (frame_items p' (called_frames calls))"
  using inv
proof (cases rule: slicer_inv_cases)
  case idle
  with t have "sl' = sl" "p' = p" "fr = None" by (simp_all add: modbus_slicer_timeout_def)
  with c inv show ?thesis by (intro exI [of _ "{}"]) (simp add: emit_modbus_frame_callback_def handed_out_def line_ends_def)
next
  case (busy i)
  show ?thesis
  proof (cases "0 < slab_length (slab_at p i)")
    case False
    with busy t have "sl' = sl" "p' = p" "fr = None" by (simp_all add: modbus_slicer_timeout_def)
    with c inv show ?thesis by (intro exI [of _ "{}"]) (simp add: emit_modbus_frame_callback_def handed_out_def line_ends_def)
  next
    case pos: True
    show ?thesis
    proof (cases "\<exists>c. slicer_config_ptr sl = Some c \<and> on_frame_func c")
      case True
      then have r: "sl' = sl\<lparr>slab_ptr := None\<rparr>" "p' = p" "fr = Some \<lparr>frame_slab_ptr = Some i,
          frame_timestamp_us = start_timestamp_us sl, frame_error = MODBUS_SLICER_OK\<rparr>"
        using busy pos t by (auto simp: modbus_slicer_timeout_def)
      have inv': "slicer_inv sl' p' (insert i H)" using r busy by (simp add: slicer_inv_def)
      obtain err where crc: "modbus_parser_check_crc (Some (slab_data (slab_at p i))) (slab_length (slab_at p i)) = Some err"
        "err = ESP_OK \<longleftrightarrow> crc_frame (slicer_bytes sl p)"
        using check_crc_outcome [of "slab_length (slab_at p i)" "slab_data (slab_at p i)"] busy
        by (auto simp: crc_frame_def slicer_bytes_def)
      have cs: "called_frames calls = []
          \<or> crc_frame (slicer_bytes sl p) \<and> called_frames calls = [\<lparr>mf_slab_ptr = Some i, mf_timestamp_us = start_timestamp_us sl\<rparr>]"
        using c r crc by (auto simp: emit_modbus_frame_callback_def bind_eq_Some_conv split: if_splits)
      then have "line_ends (line_of sl p) (line_of sl' p') (frame_items p' (called_frames calls))"
        using r busy by (auto simp: line_ends_def line_of_def slicer_bytes_def slab_bytes_def)
      moreover have "handed_out p' {i} calls" using cs r busy by (auto simp: handed_out_def)
      ultimately show ?thesis using inv' r busy by (intro exI [of _ "{i}"]) auto
    next
      case False
      let ?p = "put_slab i ((slab_at p i)\<lparr>slab_length := 0\<rparr>) p"
      from False have r: "sl' = sl" "p' = ?p" "fr = None"
        using busy pos t by (auto simp: modbus_slicer_timeout_def split: option.splits)
      have "slicer_inv sl ?p H" using busy by (intro slicer_inv_busy slab_owns_put) (auto simp: slab_at_put_slab)
      moreover have "\<forall>j \<in> H. slab_at ?p j = slab_at p j" "slab_at ?p i = (slab_at p i)\<lparr>slab_length := 0\<rparr>"
        using busy by (auto simp: slab_at_put_slab)
      ultimately show ?thesis using r c busy(1)
        by (intro exI [of _ "{}"]) (simp add: emit_modbus_frame_callback_def handed_out_def line_ends_def line_of_def slicer_bytes_def)
    qed
  qed
qed

lemma check_timeout_cases:
  "modbus_slicer_check_timeout now sl p = modbus_slicer_timeout sl p \<or> modbus_slicer_check_timeout now sl p = (sl, p, None)"
  by (auto simp: modbus_slicer_check_timeout_def Let_def split: option.splits)

lemma handle_event_hands_out:
  assumes inv: "slicer_inv sl p H" and cfg: "slicer_config_ptr sl = Some c" and e: "ev_length e \<le> 256"
    and h: "analyzer_handle_event has_cb e sl p = Some (sl', p', calls)"
  shows "\<exists>G. G \<inter> H = {} \<and> slicer_inv sl' p' (G \<union> H) \<and> handed_out p' G calls \<and> (\<forall>j \<in> H. slab_at p' j = slab_at p j)
    \<and> slicer_config_ptr sl' = Some c
    \<and> (\<exists>l. line_takes e (line_of sl p) l \<and> line_ends l (line_of sl' p') (frame_items p' (called_frames calls)))"
proof -
  obtain sl1 p1 c1 c2 where 1: "analyzer_data_step has_cb e sl p = Some (sl1, p1, c1)"
    and 2: "analyzer_timeout_step has_cb e sl1 p1 = Some (sl', p', c2)"
    and calls: "calls = c1 @ c2 @ analyzer_error_calls e"
    using h by (auto simp: analyzer_handle_event_def bind_eq_Some_conv)
  have ce: "called_frames (analyzer_error_calls e) = []" by (simp add: analyzer_error_calls_def)
  have f: "slicer_inv sl1 p1 H \<and> slicer_config_ptr sl1 = Some c \<and> called_frames c1 = [] \<and> (\<forall>j \<in> H. slab_at p1 j = slab_at p j)
      \<and> line_takes e (line_of sl p) (line_of sl1 p1)"
  proof (cases "ev_flags e AND RS485_DRIVER_EVENT_FLAG_DATA \<noteq> 0")
    case True
    with 1 obtain data fr where d: "buf_read (ev_data e) 0 (ev_length e) = Some data"
      "modbus_slicer_feed (Some data) (ev_timestamp_us e) sl p = Some (sl1, p1, fr)"
      "emit_modbus_frame_callback has_cb fr p1 = Some c1" by (auto simp: analyzer_data_step_def bind_eq_Some_conv)
    have "length data = ev_length e" using d(1) by (rule buf_read_length)
    then have "length data < 2 ^ 32 - 512" using e by simp
    from slicer_feed_any [OF inv cfg this, of "ev_timestamp_us e"] d(2)
    obtain keep: "slicer_inv sl1 p1 H" "slicer_config_ptr sl1 = Some c" "\<forall>j \<in> H. slab_at p1 j = slab_at p j"
      and eff: "feed_effect data (ev_timestamp_us e) sl p sl1 p1"
      and fr: "case fr of None \<Rightarrow> True | Some g \<Rightarrow> frame_slab_ptr g = None
         \<and> frame_error g \<in> {MODBUS_SLICER_ERROR_OVERFLOW, MODBUS_SLICER_ERROR_NO_MEM}" by auto
    have "called_frames c1 = []"
      using d(3) fr by (auto simp: emit_modbus_frame_callback_def split: option.splits if_splits)
    moreover have "data = event_bytes e"
      using True d(1) by (auto simp: event_bytes_def frame_bytes_def buf_read_def split: if_splits)
    then have "line_takes e (line_of sl p) (line_of sl1 p1)"
      using eff by (auto simp: line_takes_def line_of_def feed_effect_def)
    ultimately show ?thesis using keep by simp
  next
    case False
    with 1 inv cfg show ?thesis by (auto simp: analyzer_data_step_def line_takes_def event_bytes_def)
  qed
  show ?thesis
  proof (cases "ev_flags e AND RS485_DRIVER_EVENT_FLAG_RX_TIMEOUT \<noteq> 0")
    case True
    with 2 obtain fr where t: "modbus_slicer_timeout sl1 p1 = (sl', p', fr)" "emit_modbus_frame_callback has_cb fr p' = Some c2"
      by (cases "modbus_slicer_timeout sl1 p1") (auto simp: analyzer_timeout_step_def bind_eq_Some_conv)
    obtain G where G: "G \<inter> H = {}" "slicer_inv sl' p' (G \<union> H)" "handed_out p' G c2" "\<forall>j \<in> H. slab_at p' j = slab_at p1 j"
      "slicer_config_ptr sl' = slicer_config_ptr sl1"
      "line_ends (line_of sl1 p1) (line_of sl' p') (frame_items p' (called_frames c2))"
      using timeout_hands_out [OF conjunct1 [OF f] t] by blast
    have "handed_out p' G calls" "called_frames calls = called_frames c2" using G(3) f calls ce by (simp_all add: handed_out_def)
    with G f show ?thesis by (intro exI [of _ G]) auto
  next
    case False
    then have "called_frames calls = []" "sl' = sl1" "p' = p1" using 2 f calls ce by (auto simp: analyzer_timeout_step_def)
    with f show ?thesis
      by (intro exI [of _ "{}"]) (auto simp: handed_out_def line_ends_def)
  qed
qed

section \<open>Moving slabs\<close>

definition placed_slabs ::
    "modbus_analyzer_frame list \<Rightarrow> telemetry_pipeline_record list \<Rightarrow> telemetry_pipeline_record list \<Rightarrow> slab_ref list" where
  "placed_slabs fs ls gs = frame_slabs fs @ record_slabs ls @ record_slabs gs"

lemma placed_iff:
  "placed sl fs ls gs L p \<longleftrightarrow>
     slab_owns p (set_option (slab_ptr sl) \<union> (set (placed_slabs fs ls gs) \<union> L))
     \<and> distinct (placed_slabs fs ls gs) \<and> set (placed_slabs fs ls gs) \<inter> L = {}
     \<and> set_option (slab_ptr sl) \<inter> (set (placed_slabs fs ls gs) \<union> L) = {}
     \<and> (\<forall>i \<in> set_option (slab_ptr sl) \<union> set (frame_slabs fs). slab_length (slab_at p i) \<le> SLAB_POOL_MAX_DATA_SIZE)
     \<and> (\<forall>fr \<in> set fs. mf_slab_ptr fr \<noteq> None) \<and> (\<forall>r \<in> set (ls @ gs). rec_slab_ptr r \<noteq> None)"
  unfolding placed_def slicer_inv_def placed_slabs_def [symmetric] by (auto simp: frame_slabs_def)

text \<open>What is placed has the same values while its slabs have the same contents.\<close>

lemma placed_values:
  assumes "\<forall>j \<in> set_option (slab_ptr sl) \<union> set (placed_slabs fs ls gs). slab_at p' j = slab_at p j"
  shows "line_of sl p' = line_of sl p" "frame_items p' fs = frame_items p fs"
    "record_items p' ls = record_items p ls" "record_items p' gs = record_items p gs"
  using assms
  by (auto simp: placed_slabs_def line_of_def slicer_bytes_def split: option.splits intro!: items_same)

text \<open>A frame leaves the slicer: it enters the queue, or nobody can reach its slab any more.\<close>

lemma placed_handed_out:
  assumes pl: "placed sl fs ls gs L p" and G: "G \<inter> (set (placed_slabs fs ls gs) \<union> L) = {}"
    and inv: "slicer_inv sl' p' (G \<union> (set (placed_slabs fs ls gs) \<union> L))"
    and same: "\<forall>j \<in> set (placed_slabs fs ls gs) \<union> L. slab_at p' j = slab_at p j"
  shows "placed sl' fs ls gs (L \<union> G) p'"
    and "mf_slab_ptr fr = Some i \<Longrightarrow> i \<in> G \<Longrightarrow> slab_length (slab_at p' i) \<le> SLAB_POOL_MAX_DATA_SIZE
      \<Longrightarrow> placed sl' (fs @ [fr]) ls gs (L \<union> (G - {i})) p'"
proof -
  have sub: "set (frame_slabs fs) \<subseteq> set (placed_slabs fs ls gs)" by (simp add: placed_slabs_def)
  have len: "\<forall>i \<in> set (frame_slabs fs). slab_length (slab_at p' i) \<le> SLAB_POOL_MAX_DATA_SIZE"
    using pl same sub by (auto simp: placed_iff)
  have "G \<union> (set (placed_slabs fs ls gs) \<union> L) = set (placed_slabs fs ls gs) \<union> (L \<union> G)" by blast
  with inv have inv1: "slicer_inv sl' p' (set (placed_slabs fs ls gs) \<union> (L \<union> G))" by simp
  then show "placed sl' fs ls gs (L \<union> G) p'"
    using pl G len by (auto simp: placed_iff slicer_inv_def)
  assume fr: "mf_slab_ptr fr = Some i" "i \<in> G" "slab_length (slab_at p' i) \<le> SLAB_POOL_MAX_DATA_SIZE"
  have st: "set (placed_slabs (fs @ [fr]) ls gs) = insert i (set (placed_slabs fs ls gs))"
    "distinct (placed_slabs (fs @ [fr]) ls gs) \<longleftrightarrow> distinct (placed_slabs fs ls gs) \<and> i \<notin> set (placed_slabs fs ls gs)"
    using fr(1) by (auto simp: placed_slabs_def)
  have "set (placed_slabs fs ls gs) \<union> (L \<union> G) = insert i (set (placed_slabs fs ls gs)) \<union> (L \<union> (G - {i}))"
    using fr(2) by blast
  with inv1 have inv2: "slicer_inv sl' p' (set (placed_slabs (fs @ [fr]) ls gs) \<union> (L \<union> (G - {i})))" by (simp add: st)
  have "i \<notin> set (placed_slabs fs ls gs)" using fr(2) G by blast
  moreover have "distinct (placed_slabs fs ls gs)" "set (placed_slabs fs ls gs) \<inter> L = {}" using pl by (auto simp: placed_iff)
  ultimately show "placed sl' (fs @ [fr]) ls gs (L \<union> (G - {i})) p'"
    using inv2 pl G len fr unfolding placed_iff st slicer_inv_def by auto
qed

text \<open>The oldest frame is processed: its slab is released, and a new record may come out.\<close>

lemma placed_frame_done:
  assumes pl: "placed sl (fr # fs) ls gs L p" and i: "mf_slab_ptr fr = Some i"
    and same: "\<forall>k \<in> set_option (slab_ptr sl) \<union> (set (placed_slabs (fr # fs) ls gs) \<union> L) - {i}. slab_at p' k = slab_at p k"
    and own: "slab_owns p' (J \<union> (set_option (slab_ptr sl) \<union> (set (placed_slabs (fr # fs) ls gs) \<union> L) - {i}))"
    and J: "J \<inter> (set_option (slab_ptr sl) \<union> (set (placed_slabs (fr # fs) ls gs) \<union> L)) = {}"
  shows "placed sl fs ls gs (L \<union> J) p'"
    and "rec_slab_ptr r = Some j \<Longrightarrow> J = {j} \<Longrightarrow> placed sl fs (ls @ [r]) gs L p'"
    and "rec_slab_ptr r = Some j \<Longrightarrow> J = {j} \<Longrightarrow> placed sl fs ls (gs @ [r]) L p'"
proof -
  have st: "placed_slabs (fr # fs) ls gs = i # placed_slabs fs ls gs" using i by (simp add: placed_slabs_def)
  have d: "i \<notin> set (placed_slabs fs ls gs)" "distinct (placed_slabs fs ls gs)" "i \<notin> L" "i \<notin> set_option (slab_ptr sl)"
    "set (placed_slabs fs ls gs) \<inter> L = {}" "set_option (slab_ptr sl) \<inter> (set (placed_slabs fs ls gs) \<union> L) = {}"
    using pl unfolding placed_iff st by auto
  have e: "set_option (slab_ptr sl) \<union> (set (placed_slabs (fr # fs) ls gs) \<union> L) - {i}
      = set_option (slab_ptr sl) \<union> (set (placed_slabs fs ls gs) \<union> L)"
    unfolding st using d by auto
  have len: "\<forall>k \<in> set_option (slab_ptr sl) \<union> set (frame_slabs fs). slab_length (slab_at p' k) \<le> SLAB_POOL_MAX_DATA_SIZE"
    using pl same unfolding e placed_iff by (auto simp: placed_slabs_def)
  have own': "slab_owns p' (J \<union> (set_option (slab_ptr sl) \<union> (set (placed_slabs fs ls gs) \<union> L)))" using own unfolding e .
  have J': "J \<inter> (set_option (slab_ptr sl) \<union> (set (placed_slabs fs ls gs) \<union> L)) = {}" using J unfolding st by auto
  have nn: "\<forall>fr \<in> set fs. mf_slab_ptr fr \<noteq> None" "\<forall>r \<in> set (ls @ gs). rec_slab_ptr r \<noteq> None"
    using pl by (auto simp: placed_iff)
  have "J \<union> (set_option (slab_ptr sl) \<union> (set (placed_slabs fs ls gs) \<union> L))
      = set_option (slab_ptr sl) \<union> (set (placed_slabs fs ls gs) \<union> (L \<union> J))" by blast
  then show "placed sl fs ls gs (L \<union> J) p'" using own' J' d len nn unfolding placed_iff by auto
  assume r: "rec_slab_ptr r = Some j" "J = {j}"
  have l: "set (placed_slabs fs (ls @ [r]) gs) = insert j (set (placed_slabs fs ls gs))"
    "distinct (placed_slabs fs (ls @ [r]) gs) \<longleftrightarrow> distinct (placed_slabs fs ls gs) \<and> j \<notin> set (placed_slabs fs ls gs)"
    and g: "set (placed_slabs fs ls (gs @ [r])) = insert j (set (placed_slabs fs ls gs))"
    "distinct (placed_slabs fs ls (gs @ [r])) \<longleftrightarrow> distinct (placed_slabs fs ls gs) \<and> j \<notin> set (placed_slabs fs ls gs)"
    using r by (auto simp: placed_slabs_def)
  have "{j} \<union> (set_option (slab_ptr sl) \<union> (set (placed_slabs fs ls gs) \<union> L))
      = set_option (slab_ptr sl) \<union> (insert j (set (placed_slabs fs ls gs)) \<union> L)" by blast
  then show "placed sl fs (ls @ [r]) gs L p'" "placed sl fs ls (gs @ [r]) L p'"
    using own' J' d len nn r unfolding placed_iff l g by auto
qed

text \<open>
  Records leave a queue from the front: the first of them release their slabs, and the others that
  leave are lost.
\<close>

lemma leaving_sets:
  assumes "T \<inter> D = {}" and "K \<subseteq> T" and "(R \<union> (T \<union> D)) \<inter> L = {}" and "R \<inter> (T \<union> D) = {}"
    and "X \<inter> (R \<union> (T \<union> D) \<union> L) = {}"
  shows "X \<union> (R \<union> (T \<union> D) \<union> L) - K = X \<union> (R \<union> D \<union> (L \<union> (T - K)))"
    and "(R \<union> D) \<inter> (L \<union> (T - K)) = {}" and "X \<inter> (R \<union> D \<union> (L \<union> (T - K))) = {}"
  using assms by blast+

lemma leaving_records:
  assumes "k \<le> n" and "distinct (record_slabs xs)"
  shows "set (record_slabs xs) = set (record_slabs (take n xs)) \<union> set (record_slabs (drop n xs))"
    and "set (record_slabs (take n xs)) \<inter> set (record_slabs (drop n xs)) = {}"
    and "set (record_slabs (take k xs)) \<subseteq> set (record_slabs (take n xs))" and "distinct (record_slabs (drop n xs))"
proof -
  have app: "record_slabs xs = record_slabs (take n xs) @ record_slabs (drop n xs)"
    by (metis append_take_drop_id record_slabs_simps(3))
  show "set (record_slabs xs) = set (record_slabs (take n xs)) \<union> set (record_slabs (drop n xs))"
    by (subst app) simp
  show "set (record_slabs (take n xs)) \<inter> set (record_slabs (drop n xs)) = {}" "distinct (record_slabs (drop n xs))"
    using assms(2) by (subst (asm) app, simp)+
  show "set (record_slabs (take k xs)) \<subseteq> set (record_slabs (take n xs))"
    using set_take_subset_set_take [OF assms(1), of "record_slabs xs"] by simp
qed

lemma placed_live_done:
  assumes pl: "placed sl fs ls gs L p" and kn: "k \<le> n" and same: "\<forall>j. slab_at p' j = slab_at p j"
    and own: "slab_owns p' (set_option (slab_ptr sl) \<union> (set (placed_slabs fs ls gs) \<union> L) - set (record_slabs (take k ls)))"
  shows "placed sl fs (drop n ls) gs (L \<union> (set (record_slabs (take n ls)) - set (record_slabs (take k ls)))) p'"
proof -
  let ?X = "set_option (slab_ptr sl)" and ?R = "set (frame_slabs fs) \<union> set (record_slabs gs)"
  let ?T = "set (record_slabs (take n ls))" and ?D = "set (record_slabs (drop n ls))" and ?K = "set (record_slabs (take k ls))"
  have dl: "distinct (record_slabs ls)" using pl by (simp add: placed_iff placed_slabs_def)
  note r = leaving_records [OF kn dl]
  have un: "set (placed_slabs fs ls gs) = ?R \<union> (?T \<union> ?D)" "set (placed_slabs fs (drop n ls) gs) = ?R \<union> ?D"
    unfolding placed_slabs_def set_append r(1) by (simp_all add: ac_simps)
  have s: "(?R \<union> (?T \<union> ?D)) \<inter> L = {}" "?X \<inter> (?R \<union> (?T \<union> ?D) \<union> L) = {}" "?R \<inter> (?T \<union> ?D) = {}"
    "distinct (placed_slabs fs (drop n ls) gs)"
    using pl r(4) unfolding placed_iff un by (simp_all add: placed_slabs_def r(1)) blast+
  note q = leaving_sets [OF r(2,3) s(1,3,2)]
  have nn: "\<forall>r \<in> set (drop n ls). rec_slab_ptr r \<noteq> None" using pl by (auto simp: placed_iff dest: in_set_dropD)
  have own': "slab_owns p' (?X \<union> (?R \<union> ?D \<union> (L \<union> (?T - ?K))))" using own unfolding un q(1) .
  show ?thesis
    using own' s(4) q(2,3) nn pl same unfolding placed_iff un by (simp add: ball_Un)
qed

lemma live_rest_slabs:
  assumes "placed sl fs ls gs L p"
  shows "set_option (slab_ptr sl) \<union> (set (placed_slabs fs (drop n ls) gs) \<union> L)
    = set_option (slab_ptr sl) \<union> (set (placed_slabs fs ls gs) \<union> L) - set (record_slabs (take n ls))"
proof -
  have dl: "distinct (record_slabs ls)" using assms by (simp add: placed_iff placed_slabs_def)
  note r = leaving_records [OF order_refl dl, of n]
  define T D where "T = set (record_slabs (take n ls))" and "D = set (record_slabs (drop n ls))"
  define R where "R = set (frame_slabs fs) \<union> set (record_slabs gs)"
  define X where "X = set_option (slab_ptr sl)"
  have un: "set (placed_slabs fs ls gs) = R \<union> (T \<union> D)" "set (placed_slabs fs (drop n ls) gs) = R \<union> D"
    unfolding placed_slabs_def set_append r(1) R_def T_def D_def by (simp_all add: ac_simps)
  have "(R \<union> (T \<union> D)) \<inter> L = {}" "X \<inter> (R \<union> (T \<union> D) \<union> L) = {}" "R \<inter> T = {}" "T \<inter> D = {}"
    using assms r(2) unfolding placed_iff un X_def [symmetric] T_def [symmetric] D_def [symmetric]
    by (simp_all add: R_def T_def placed_slabs_def r(1)) (auto dest: in_set_takeD)
  then show ?thesis unfolding un T_def [symmetric] X_def [symmetric] by blast
qed

lemma placed_logging_done:
  assumes pl: "placed sl fs ls gs L p" and kn: "k \<le> n" and same: "\<forall>j. slab_at p' j = slab_at p j"
    and own: "slab_owns p' (set_option (slab_ptr sl) \<union> (set (placed_slabs fs ls gs) \<union> L) - set (record_slabs (take k gs)))"
  shows "placed sl fs ls (drop n gs) (L \<union> (set (record_slabs (take n gs)) - set (record_slabs (take k gs)))) p'"
proof -
  have swap: "set (placed_slabs fs xs ys) = set (placed_slabs fs ys xs)"
    "distinct (placed_slabs fs xs ys) \<longleftrightarrow> distinct (placed_slabs fs ys xs)" for xs ys
    by (auto simp: placed_slabs_def)
  have sym: "placed sl fs xs ys M q \<longleftrightarrow> placed sl fs ys xs M q" for xs ys M q
    unfolding placed_iff swap(1) [of xs ys] swap(2) [of xs ys] by (simp add: ball_Un conj_commute)
  from placed_live_done [OF pl [unfolded sym [of ls gs]] kn same] own show ?thesis
    unfolding swap(1) [of ls gs] sym [of ls "drop n gs"] by blast
qed

text \<open>The slabs stay where they are.\<close>

lemma placed_same:
  assumes "placed sl fs ls gs L p" and "slab_owns p' (set_option (slab_ptr sl) \<union> (set (placed_slabs fs ls gs) \<union> L))"
    and "\<forall>j \<in> set_option (slab_ptr sl) \<union> (set (placed_slabs fs ls gs) \<union> L). slab_at p' j = slab_at p j"
  shows "placed sl fs ls gs L p'"
proof -
  have "set (frame_slabs fs) \<subseteq> set (placed_slabs fs ls gs)" by (simp add: placed_slabs_def)
  with assms show ?thesis unfolding placed_iff by (auto simp: subset_iff)
qed

section \<open>The tasks' loops\<close>

lemma live_loop_slabs:
  assumes laws: "queue_laws Q items cap"
    and "process_live_quota_loop Q send locks idx quota s p = Some (s', p', calls)" and "live_queue s = Some q"
    and "slab_owns p H" and "\<forall>r \<in> set (items q). rec_slab_ptr r \<noteq> None"
    and "distinct (record_slabs (items q))" and "set (record_slabs (items q)) \<subseteq> H"
  shows "\<exists>n q'. live_queue s' = Some q' \<and> items q' = drop n (items q)
    \<and> slab_owns p' (H - set (record_slabs (take n (items q)))) \<and> (\<forall>j. slab_at p' j = slab_at p j)
    \<and> subseq (sent_on t calls) (map snd (record_items p (take n (items q)))) \<and> topics s' = topics s"
  using assms(2-)
proof (induction quota arbitrary: idx s p H q s' p' calls)
  case 0
  then show ?case by (intro exI [of _ 0]) auto
next
  case (Suc quota)
  show ?case
  proof (cases "telemetry_service_is_online (locks idx) s")
    case False
    with Suc.prems show ?thesis by (intro exI [of _ 0]) auto
  next
    case on: True
    show ?thesis
    proof (cases "items q")
      case Nil
      with Suc.prems on queue_receive_Nil [OF laws Nil] show ?thesis by (intro exI [of _ 0]) auto
    next
      case (Cons r rs)
      obtain q1 where q1: "q_receive Q q = Some (r, q1)" "items q1 = rs" using queue_receive_Cons [OF laws Cons] by blast
      obtain i where i: "rec_slab_ptr r = Some i" using Suc.prems(4) Cons by auto
      obtain b c1 c2 where pub: "publish_to_topic_helper send (s\<lparr>live_queue := Some q1\<rparr>) (slab_at p i) (rec_timestamp_us r)
          TELEMETRY_SERVICE_TOPICS_LIVE = Some (b, c1)"
        and rest: "process_live_quota_loop Q send locks (idx + 1) quota (s\<lparr>live_queue := Some q1\<rparr>)
          (slab_pool_free (Some i) p) = Some (s', p', c2)" and calls: "calls = c1 @ c2"
        using Suc.prems(1,2) on q1(1) i by (auto simp: telemetry_service_publish_live_def bind_eq_Some_conv Let_def)
      have iH: "i \<in> H" using Suc.prems(6) Cons i by simp
      have own: "slab_owns (slab_pool_free (Some i) p) (H - {i})" by (rule slab_owns_release [OF Suc.prems(3) iH])
      have sent: "sent_on t c1 = [] \<or> sent_on t c1 = [slab_bytes p i]" using publish_sent [OF pub] by (auto simp: slab_bytes_def)
      have "\<exists>n q'. live_queue s' = Some q' \<and> items q' = drop n (items q1)
          \<and> slab_owns p' (H - {i} - set (record_slabs (take n (items q1))))
          \<and> (\<forall>j. slab_at p' j = slab_at (slab_pool_free (Some i) p) j)
          \<and> subseq (sent_on t c2) (map snd (record_items (slab_pool_free (Some i) p) (take n (items q1))))
          \<and> topics s' = topics (s\<lparr>live_queue := Some q1\<rparr>)"
        by (rule Suc.IH [OF rest _ own]) (use Suc.prems(4-6) Cons i q1(2) in auto)
      then obtain n q' where n: "live_queue s' = Some q'" "items q' = drop n rs"
        "slab_owns p' (H - {i} - set (record_slabs (take n rs)))" "\<forall>j. slab_at p' j = slab_at p j"
        "subseq (sent_on t c2) (map snd (record_items p (take n rs)))" "topics s' = topics s"
        using q1(2) items_same(2) [of _ "slab_pool_free (Some i) p" p] by (auto simp: free_at)
      have "H - {i} - S = H - insert i S" for S by blast
      with n Cons i sent show ?thesis by (intro exI [of _ "Suc n"] exI [of _ q']) (auto simp: calls)
    qed
  qed
qed

lemma replay_loop_keeps:
  assumes "process_replay_quota_loop cb locks idx quota s w = Some (ok, w', calls)" and "P w"
    and "\<And>w ok w' calls. P w \<Longrightarrow> cb s w = Some (ok, w', calls) \<Longrightarrow> P w' \<and> sent_on t calls = []"
  shows "P w' \<and> sent_on t calls = []"
  using assms(1,2)
proof (induction quota arbitrary: idx w ok w' calls)
  case (Suc quota)
  show ?case
  proof (cases "telemetry_service_is_online (locks idx) s")
    case False
    with Suc.prems show ?thesis by simp
  next
    case True
    then obtain ok1 w1 c1 where cb: "cb s w = Some (ok1, w1, c1)" using Suc.prems(1) by (auto simp: bind_eq_Some_conv)
    have "P w1" "sent_on t c1 = []" using assms(3) [OF Suc.prems(2) cb] by simp_all
    with Suc.prems(1) True cb Suc.IH [of "idx + 1" w1 ok w'] show ?thesis by (auto simp: bind_eq_Some_conv split: if_splits)
  qed
qed simp

lemma replay_step_keeps:
  assumes "telemetry_replay_step cb got_lock locks s w = Some (s', w', calls)" and "P w"
    and "\<And>w ok w' calls. P w \<Longrightarrow> cb s w = Some (ok, w', calls) \<Longrightarrow> P w' \<and> sent_on t calls = []"
  shows "P w' \<and> live_queue s' = live_queue s \<and> topics s' = topics s \<and> sent_on t calls = []"
proof (cases "telemetry_service_is_online got_lock s \<and> publish_replay_cb_func s")
  case False
  with assms(1,2) show ?thesis by (auto simp: telemetry_replay_step_def process_replay_quota_internal_def split: if_splits)
next
  case True
  obtain ok where loop: "process_replay_quota_loop cb locks 0 TELEMETRY_SERVICE_REPLAY_QUOTA s w = Some (ok, w', calls)"
    and s': "live_queue s' = live_queue s" "topics s' = topics s"
    using assms(1) True by (auto simp: telemetry_replay_step_def process_replay_quota_internal_def
        telemetry_service_notify_replay_available_def bind_eq_Some_conv split: if_splits)
  have "P w' \<and> sent_on t calls = []" by (rule replay_loop_keeps [where P = P, OF loop assms(2)]) (rule assms(3))
  with s' show ?thesis by simp
qed

text \<open>The replay callback sends on the replay topic only.\<close>

lemma replay_callback_sent:
  assumes "replay_callback send ts entry now (Some cs) = (ok, Some cs')" and "t \<noteq> topics ts ! 1"
  shows "sent_on t cs' = sent_on t cs"
  using assms publish_sent [of send ts _ now TELEMETRY_SERVICE_TOPICS_REPLAY _ _ t]
  by (fastforce simp: replay_callback_def telemetry_service_publish_replay_def split: option.splits)

lemma next_replay_arg:
  assumes "blackbox_logger_next_replay got_lock lg (Some cb) w entry n f = Some (err, lg', v, w')"
  shows "w' = w \<or> (\<exists>e. w' = snd (cb e w))"
  using assms
  by (auto simp: blackbox_logger_next_replay_def bind_eq_Some_conv case_prod_beta split: option.splits if_splits)

lemma vault_replay_slabs:
  assumes "vault_replay got_sector_lock send garbage f ts w = Some (ok, w', calls)" and "slab_owns (snd w) H"
  shows "slab_owns (snd w') H \<and> (\<forall>j \<in> H. slab_at (snd w') j = slab_at (snd w) j)
    \<and> logging_queue (fst w') = logging_queue (fst w) \<and> (t \<noteq> topics ts ! 1 \<longrightarrow> sent_on t calls = [])"
proof -
  have r: "logger_service_fetch_next_replay got_sector_lock (Some (replay_callback send ts)) garbage (fst w) f (snd w) (Some [])
      = Some (ok, fst w', snd w', Some calls)"
    using assms(1) by (auto simp: vault_replay_def router_publish_replay_def bind_eq_Some_conv)
  have "Some calls = Some [] \<or> (\<exists>e. Some calls = snd (replay_callback send ts e garbage (Some [])))"
    using r next_replay_arg
    by (fastforce simp: logger_service_fetch_next_replay_def bind_eq_Some_conv Let_def split: option.splits prod.splits)
  then have "sent_on t calls = []" if "t \<noteq> topics ts ! 1"
  proof (elim disjE exE)
    fix e
    assume "Some calls = snd (replay_callback send ts e garbage (Some []))"
    then show ?thesis using replay_callback_sent [of send ts e garbage "[]" _ calls t] that
      by (cases "replay_callback send ts e garbage (Some [])") auto
  qed simp
  with fetch_next_replay_slabs [OF r assms(2)] show ?thesis by simp
qed

text \<open>A whole turn of the publishing task.\<close>

lemma telemetry_turn_slabs:
  assumes laws: "queue_laws Q items cap"
    and turn: "telemetry_service_task_turn Q send (vault_replay got_sector_lock send garbage f) snd (\<lambda>p w. (fst w, p))
        live_locks got_lock replay_locks s (w :: ('g, 'f) logger_service \<times> slab_pool) = Some (ok, s', w', calls)"
    and q: "live_queue s = Some q" and own: "slab_owns (snd w) H"
    and rs: "\<forall>r \<in> set (items q). rec_slab_ptr r \<noteq> None" "distinct (record_slabs (items q))" "set (record_slabs (items q)) \<subseteq> H"
  shows "\<exists>n q' p1. live_queue s' = Some q' \<and> items q' = drop n (items q)
    \<and> slab_owns p1 (H - set (record_slabs (take n (items q)))) \<and> (\<forall>j. slab_at p1 j = slab_at (snd w) j)
    \<and> slab_owns (snd w') (H - set (record_slabs (take n (items q))))
    \<and> (\<forall>j \<in> H - set (record_slabs (take n (items q))). slab_at (snd w') j = slab_at p1 j)
    \<and> logging_queue (fst w') = logging_queue (fst w) \<and> topics s' = topics s
    \<and> (topics s ! 0 \<noteq> topics s ! 1 \<longrightarrow>
        subseq (sent_on (topics s ! 0) calls) (map snd (record_items (snd w) (take n (items q)))))"
proof -
  have stop: ?thesis if "s' = s\<lparr>telemetry_service_task_handle := None\<rparr>" "w' = w" "calls = []"
    by (rule exI [of _ 0], rule exI [of _ q], rule exI [of _ "snd w"]) (use that q own in auto)
  obtain pending where pd: "telemetry_service_task_handle s = Some pending"
    using turn by (auto simp: telemetry_service_task_turn_def bind_eq_Some_conv)
  show ?thesis
  proof (cases "pending AND TELEMETRY_SERVICE_TASK_NOTIFY_STOP_BIT \<noteq> 0")
    case True
    with turn pd stop show ?thesis by (simp add: telemetry_service_task_turn_def xTaskNotifyWait_def)
  next
    case False
    let ?s = "s\<lparr>telemetry_service_task_handle := Some 0\<rparr>"
    obtain s1 w1 c1 s2 c2 where
      1: "telemetry_live_step Q send snd (\<lambda>p w. (fst w, p)) live_locks ?s w = Some (s1, w1, c1)"
      and 2: "telemetry_replay_step (vault_replay got_sector_lock send garbage f) got_lock replay_locks s1 w1 = Some (s2, w', c2)"
      and s': "live_queue s' = live_queue s2" "topics s' = topics s2" "calls = c1 @ c2"
      using turn pd False by (auto simp: telemetry_service_task_turn_def xTaskNotifyWait_def bind_eq_Some_conv)
    have w1: "fst w1 = fst w" using 1 by (auto simp: telemetry_live_step_def bind_eq_Some_conv split: if_splits)
    have live: "\<exists>n q'. live_queue s1 = Some q' \<and> items q' = drop n (items q)
        \<and> slab_owns (snd w1) (H - set (record_slabs (take n (items q)))) \<and> (\<forall>j. slab_at (snd w1) j = slab_at (snd w) j)
        \<and> subseq (sent_on (topics s ! 0) c1) (map snd (record_items (snd w) (take n (items q)))) \<and> topics s1 = topics s"
    proof (cases "0 < q_waiting Q q")
      case True
      then obtain p1 where "process_live_quota_internal Q send live_locks ?s (snd w) = Some (s1, p1, c1)" "snd w1 = p1"
        using 1 q by (auto simp: telemetry_live_step_def bind_eq_Some_conv)
      with live_loop_slabs [OF laws _ _ own rs, of send live_locks 0 TELEMETRY_SERVICE_LIVE_QUOTA ?s s1 p1 c1 "topics s ! 0"] q
      show ?thesis by (simp add: process_live_quota_internal_def)
    next
      case False
      with 1 own q show ?thesis by (intro exI [of _ 0]) (auto simp: telemetry_live_step_def)
    qed
    then obtain n q' where n: "live_queue s1 = Some q'" "items q' = drop n (items q)"
      "slab_owns (snd w1) (H - set (record_slabs (take n (items q))))" "\<forall>j. slab_at (snd w1) j = slab_at (snd w) j"
      "subseq (sent_on (topics s ! 0) c1) (map snd (record_items (snd w) (take n (items q))))" "topics s1 = topics s" by blast
    let ?K = "H - set (record_slabs (take n (items q)))"
    define P where "P = (\<lambda>u :: ('g, 'f) logger_service \<times> slab_pool. slab_owns (snd u) ?K \<and> (\<forall>j \<in> ?K. slab_at (snd u) j = slab_at (snd w1) j)
        \<and> logging_queue (fst u) = logging_queue (fst w1))"
    define t where "t = (if topics s ! 0 \<noteq> topics s ! 1 then topics s ! 0 else topics s ! 1 @ ''#'')"
    have t: "t \<noteq> topics s1 ! 1" using n(6) by (simp add: t_def)
    have keep: "P u' \<and> sent_on t c = []" if "P u" "vault_replay got_sector_lock send garbage f s1 u = Some (m, u', c)" for u m u' c
      using vault_replay_slabs [OF that(2), of ?K t] that(1) t by (auto simp: P_def)
    have "P w1" using n(3) by (simp add: P_def)
    have "P w' \<and> live_queue s2 = live_queue s1 \<and> topics s2 = topics s1 \<and> sent_on t c2 = []"
      by (rule replay_step_keeps [where P = P, OF 2 \<open>P w1\<close>]) (rule keep)
    moreover from this have "topics s ! 0 \<noteq> topics s ! 1 \<longrightarrow> sent_on (topics s ! 0) c2 = []" by (auto simp: t_def)
    ultimately show ?thesis using n s' w1 unfolding P_def
      by (intro exI [of _ n] exI [of _ q'] exI [of _ "snd w1"]) simp
  qed
qed

lemma store_loop_slab_at:
  "logger_store_loop Q over_old ks idx quota q lg f p = Some (q', lg', f', p', calls) \<Longrightarrow> slab_at p' j = slab_at p j"
proof (induction quota arbitrary: idx q lg f p q' lg' f' p' calls)
  case (Suc quota)
  then show ?case
    by (auto simp: bind_eq_Some_conv logger_service_store_def Let_def free_at split: option.splits if_splits)
qed (auto split: option.splits)

section \<open>Every step keeps the slabs apart\<close>

text \<open>The invariant, with the contents of the queues named.\<close>

lemma vault_invE:
  assumes "vault_inv I v L"
  obtains eq fq lq gq c where "raw_events_queue (analyzer (v_pipeline v)) = Some eq" "raw_frame_queue (v_pipeline v) = Some fq"
    "live_queue (v_telemetry v) = Some lq" "logging_queue (v_logger v) = Some gq"
    "slicer_config_ptr (analyzer_slicer (analyzer (v_pipeline v))) = Some c"
    "\<forall>e \<in> set (events_of I eq). ev_length e \<le> 256"
    "placed (analyzer_slicer (analyzer (v_pipeline v))) (frames_of I fq) (live_of I lq) (logging_of I gq) L (v_pool v)"
  using assms unfolding vault_inv_def by blast

lemma vault_invI:
  assumes "raw_events_queue (analyzer (v_pipeline v)) = Some eq" "raw_frame_queue (v_pipeline v) = Some fq"
    "live_queue (v_telemetry v) = Some lq" "logging_queue (v_logger v) = Some gq"
    "slicer_config_ptr (analyzer_slicer (analyzer (v_pipeline v))) = Some c"
    "\<forall>e \<in> set (events_of I eq). ev_length e \<le> 256"
    "placed (analyzer_slicer (analyzer (v_pipeline v))) (frames_of I fq) (live_of I lq) (logging_of I gq) L (v_pool v)"
  shows "vault_inv I v L"
  using assms unfolding vault_inv_def by blast

lemma vault_queues_okD:
  assumes "vault_queues_ok QS I"
  shows "queue_laws (events_q QS) (events_of I) 20" "queue_laws (frames_q QS) (frames_of I) 32"
    "queue_laws (live_q QS) (live_of I) 16" "queue_laws (logging_q QS) (logging_of I) 32"
  using assms by (simp_all add: vault_queues_ok_def)

lemma vault_line_keeps:
  assumes ok: "vault_queues_ok QS I" and inv: "vault_inv I v L" and e: "ev_length e \<le> 256"
    and st: "vault_line_event QS e v = Some v'"
  shows "vault_inv I v' L \<and> data_line e (data_path_of I v) (data_path_of I v')"
  using inv
proof (rule vault_invE)
  fix eq fq lq gq c
  assume v: "raw_events_queue (analyzer (v_pipeline v)) = Some eq" "raw_frame_queue (v_pipeline v) = Some fq"
    "live_queue (v_telemetry v) = Some lq" "logging_queue (v_logger v) = Some gq"
    "slicer_config_ptr (analyzer_slicer (analyzer (v_pipeline v))) = Some c"
    "\<forall>e \<in> set (events_of I eq). ev_length e \<le> 256"
    "placed (analyzer_slicer (analyzer (v_pipeline v))) (frames_of I fq) (live_of I lq) (logging_of I gq) L (v_pool v)"
  note laws = vault_queues_okD(1) [OF ok]
  obtain sent eq' where s: "q_send (events_q QS) e eq = (sent, eq')" by (cases "q_send (events_q QS) e eq")
  have app: "events_of I eq' = events_of I eq @ [e] \<or> events_of I eq' = events_of I eq"
    using s queue_send_room [OF laws, of eq e] queue_send_full [OF laws, of eq e]
    by (cases "length (events_of I eq) < 20") auto
  then have "\<forall>e \<in> set (events_of I eq'). ev_length e \<le> 256" using v(6) e by auto
  moreover have v': "v' = v\<lparr>v_pipeline := (v_pipeline v)\<lparr>analyzer := (analyzer (v_pipeline v))\<lparr>raw_events_queue := Some eq'\<rparr>\<rparr>\<rparr>"
    using v(1) st s by (auto simp: vault_line_event_def on_rs485_driver_event_callback_def)
  ultimately have "vault_inv I v' L" using v by (intro vault_invI [of _ eq' fq lq gq c]) simp_all
  moreover have "data_line e (data_path_of I v) (data_path_of I v')"
    using app v(1) by (auto simp: data_line_def data_path_of_def v')
  ultimately show ?thesis ..
qed

lemma vault_mqtt_keeps:
  assumes "vault_inv I v L" and "vault_mqtt_event got_lock event v = Some v'"
  shows "vault_inv I v' L \<and> data_path_of I v' = data_path_of I v \<and> topics (v_telemetry v') = topics (v_telemetry v)"
proof -
  obtain ts where "v' = v\<lparr>v_telemetry := ts\<rparr>" "live_queue ts = live_queue (v_telemetry v)" "topics ts = topics (v_telemetry v)"
    using assms(2)
    by (auto simp: vault_mqtt_event_def telemetry_service_set_online_def Let_def case_prod_beta bind_eq_Some_conv
        split: option.splits if_splits)
  with assms(1) show ?thesis by (simp add: vault_inv_def data_path_of_def)
qed

lemma vault_flush_keeps:
  assumes "vault_inv I v L" and "vault_flush_timer over_old got_lock v = Some v'"
  shows "vault_inv I v' L \<and> data_path_of I v' = data_path_of I v \<and> topics (v_telemetry v') = topics (v_telemetry v)"
proof -
  obtain lg f b where "timer_flush_flash_internal over_old got_lock (blackbox (v_logger v)) (v_flash v) = Some (lg, f, b)"
    using assms(2) by (auto simp: vault_flush_timer_def bind_eq_Some_conv)
  with assms show ?thesis
    by (cases b) (auto simp: vault_flush_timer_def router_on_replay_available_callback_def
        telemetry_service_notify_replay_available_def vault_inv_def data_path_of_def)
qed

text \<open>The bytes sent on the live topic, when that differs from the two other topics.\<close>

definition live_label where
  "live_label v calls sent \<longleftrightarrow> topics (v_telemetry v) ! 0 \<notin> {topics (v_telemetry v) ! 1, topics (v_telemetry v) ! 2}
     \<longrightarrow> sent = sent_on (topics (v_telemetry v) ! 0) calls"

lemma live_label_Nil [simp]: "live_label v [] []"
  by (simp add: live_label_def)

lemma vault_metrics_keeps:
  assumes "vault_metrics_timer send got_lock now garbage counters v = Some (v', calls)"
  shows "v' = v \<and> live_label v calls []"
proof -
  have m: "handle_system_metrics_internal send got_lock now garbage counters (v_telemetry v) = Some calls" and v': "v' = v"
    using assms by (auto simp: vault_metrics_timer_def)
  from m consider "calls = []" | content ok where
    "telemetry_service_publish_status send (v_telemetry v) content now = Some (ok, calls)"
    by (auto simp: handle_system_metrics_internal_def bind_eq_Some_conv case_prod_beta split: if_splits)
  then show ?thesis
  proof cases
    case 2
    from publish_sent [OF this [unfolded telemetry_service_publish_status_def], of "topics (v_telemetry v) ! 0"] v'
    show ?thesis by (auto simp: live_label_def)
  qed (simp add: v')
qed

lemma vault_telemetry_keeps:
  assumes ok: "vault_queues_ok QS I" and inv: "vault_inv I v L"
    and st: "vault_telemetry_turn QS send live_locks got_lock replay_locks got_sector_lock garbage v = Some (v', calls)"
  shows "vault_inv I v' L \<and> (\<exists>sent. data_turn pack (data_path_of I v) sent (data_path_of I v') \<and> live_label v calls sent)
    \<and> topics (v_telemetry v') = topics (v_telemetry v)"
  using inv
proof (rule vault_invE)
  fix eq fq lq gq c
  assume v: "raw_events_queue (analyzer (v_pipeline v)) = Some eq" "raw_frame_queue (v_pipeline v) = Some fq"
    "live_queue (v_telemetry v) = Some lq" "logging_queue (v_logger v) = Some gq"
    "slicer_config_ptr (analyzer_slicer (analyzer (v_pipeline v))) = Some c"
    "\<forall>e \<in> set (events_of I eq). ev_length e \<le> 256"
    "placed (analyzer_slicer (analyzer (v_pipeline v))) (frames_of I fq) (live_of I lq) (logging_of I gq) L (v_pool v)"
  note laws = vault_queues_okD(3) [OF ok]
  obtain ok ts w where turn: "telemetry_service_task_turn (live_q QS) send (vault_replay got_sector_lock send garbage (v_flash v))
      snd (\<lambda>p w. (fst w, p)) live_locks got_lock replay_locks (v_telemetry v) (v_logger v, v_pool v) = Some (ok, ts, w, calls)"
    and v': "v' = v\<lparr>v_telemetry := ts, v_logger := fst w, v_pool := snd w\<rparr>"
    using st by (auto simp: vault_telemetry_turn_def)
  let ?sl = "analyzer_slicer (analyzer (v_pipeline v))"
  let ?H = "set_option (slab_ptr ?sl) \<union> (set (placed_slabs (frames_of I fq) (live_of I lq) (logging_of I gq)) \<union> L)"
  have pre: "slab_owns (v_pool v) ?H" "\<forall>r \<in> set (live_of I lq). rec_slab_ptr r \<noteq> None" "distinct (record_slabs (live_of I lq))"
    "set (record_slabs (live_of I lq)) \<subseteq> ?H"
    using v(7) by (auto simp: placed_iff placed_slabs_def)
  obtain n q' p1 where n: "live_queue ts = Some q'" "live_of I q' = drop n (live_of I lq)"
    "slab_owns p1 (?H - set (record_slabs (take n (live_of I lq))))" "\<forall>j. slab_at p1 j = slab_at (v_pool v) j"
    "slab_owns (snd w) (?H - set (record_slabs (take n (live_of I lq))))"
    "\<forall>j \<in> ?H - set (record_slabs (take n (live_of I lq))). slab_at (snd w) j = slab_at p1 j"
    "logging_queue (fst w) = logging_queue (v_logger v)" "topics ts = topics (v_telemetry v)"
    "topics (v_telemetry v) ! 0 \<noteq> topics (v_telemetry v) ! 1 \<longrightarrow> subseq (sent_on (topics (v_telemetry v) ! 0) calls)
      (map snd (record_items (v_pool v) (take n (live_of I lq))))"
    using telemetry_turn_slabs [OF laws turn v(3) _ pre(2,3,4), unfolded fst_conv snd_conv, OF pre(1)] by blast
  have p1: "placed ?sl (frames_of I fq) (live_of I q') (logging_of I gq) L p1"
    using placed_live_done [OF v(7) order_refl n(4,3)] n(2) by simp
  have sub: "set_option (slab_ptr ?sl) \<union> (set (placed_slabs (frames_of I fq) (live_of I q') (logging_of I gq)) \<union> L)
      = ?H - set (record_slabs (take n (live_of I lq)))"
    unfolding n(2) by (rule live_rest_slabs [OF v(7)])
  have "placed ?sl (frames_of I fq) (live_of I q') (logging_of I gq) L (snd w)"
    by (rule placed_same [OF p1]) (use n(5,6) sub in simp_all)
  then have "vault_inv I v' L" using v n(1,7) v' by (intro vault_invI [of _ eq fq q' gq c]) simp_all
  moreover have "\<forall>j \<in> set_option (slab_ptr ?sl) \<union> set (placed_slabs (frames_of I fq) (live_of I q') (logging_of I gq)).
      slab_at (snd w) j = slab_at (v_pool v) j"
    using n(4,6) sub by auto
  note same = placed_values [OF this]
  have "data_path_of I v' = (data_path_of I v)\<lparr>d_live := drop n (d_live (data_path_of I v))\<rparr>"
    using v same n(1,2,7) by (simp add: data_path_of_def v')
  note publish = data_publishI [OF this]
  have "\<exists>sent. data_turn pack (data_path_of I v) sent (data_path_of I v') \<and> live_label v calls sent"
  proof (cases "topics (v_telemetry v) ! 0 \<noteq> topics (v_telemetry v) ! 1")
    case True
    with n(9) v(3) have "data_turn pack (data_path_of I v) (sent_on (topics (v_telemetry v) ! 0) calls) (data_path_of I v')"
      by (intro publish) (simp add: data_path_of_def record_items_def take_map)
    with True show ?thesis by (auto simp: live_label_def)
  next
    case False
    with publish [of "[]"] show ?thesis by (auto simp: live_label_def)
  qed
  ultimately show ?thesis using n(8) by (simp add: v')
qed

lemma run_logger_calls_queue:
  "run_logger_calls cs ts = Some ts' \<Longrightarrow> live_queue ts' = live_queue ts \<and> topics ts' = topics ts"
  by (induction cs arbitrary: ts)
    (auto simp: router_on_replay_available_callback_def telemetry_service_notify_replay_available_def bind_eq_Some_conv
      split: logger_call.splits)

lemma vault_logger_keeps:
  assumes ok: "vault_queues_ok QS I" and inv: "vault_inv I v L"
    and st: "vault_logger_turn QS over_old ks v = Some v'"
  shows "(\<exists>L'. vault_inv I v' L') \<and> data_turn pack (data_path_of I v) [] (data_path_of I v')
    \<and> topics (v_telemetry v') = topics (v_telemetry v)"
  using inv
proof (rule vault_invE)
  fix eq fq lq gq c
  assume v: "raw_events_queue (analyzer (v_pipeline v)) = Some eq" "raw_frame_queue (v_pipeline v) = Some fq"
    "live_queue (v_telemetry v) = Some lq" "logging_queue (v_logger v) = Some gq"
    "slicer_config_ptr (analyzer_slicer (analyzer (v_pipeline v))) = Some c"
    "\<forall>e \<in> set (events_of I eq). ev_length e \<le> 256"
    "placed (analyzer_slicer (analyzer (v_pipeline v))) (frames_of I fq) (live_of I lq) (logging_of I gq) L (v_pool v)"
  note laws = vault_queues_okD(4) [OF ok]
  let ?sl = "analyzer_slicer (analyzer (v_pipeline v))"
  let ?H = "set_option (slab_ptr ?sl) \<union> (set (placed_slabs (frames_of I fq) (live_of I lq) (logging_of I gq)) \<union> L)"
  obtain b ls f p calls ts where turn: "logger_service_task_turn (logging_q QS) over_old ks (v_logger v) (v_flash v) (v_pool v)
      = Some (b, ls, f, p, calls)" and ts: "live_queue ts = Some lq" "topics ts = topics (v_telemetry v)"
    and v': "v' = v\<lparr>v_logger := ls, v_flash := f, v_pool := p, v_telemetry := ts\<rparr>"
    using st v(3) run_logger_calls_queue by (fastforce simp: vault_logger_turn_def bind_eq_Some_conv)
  obtain pending where pd: "logger_service_task_handle (v_logger v) = Some pending"
    using turn by (auto simp: logger_service_task_turn_def bind_eq_Some_conv)
  show ?thesis
  proof (cases "pending AND LOGGER_SERVICE_TASK_NOTIFY_STOP_BIT \<noteq> 0")
    case True
    then have "logging_queue ls = Some gq" "p = v_pool v"
      using turn pd v(4) by (auto simp: logger_service_task_turn_def xTaskNotifyWait_def)
    then have "vault_inv I v' L" using v ts v' by (intro vault_invI [of _ eq fq lq gq c]) simp_all
    moreover have "data_path_of I v' = data_path_of I v"
      using v(3,4) ts \<open>logging_queue ls = Some gq\<close> \<open>p = v_pool v\<close> by (simp add: data_path_of_def v')
    ultimately show ?thesis using data_idleI ts(2) v' by auto
  next
    case False
    then obtain q' lg where loop: "logger_store_loop (logging_q QS) over_old ks 0 LOGGER_SERVICE_STORE_QUOTA gq (blackbox (v_logger v))
        (v_flash v) (v_pool v) = Some (q', lg, f, p, calls)" and q': "logging_queue ls = Some q'"
      using turn pd v(4) by (auto simp: logger_service_task_turn_def xTaskNotifyWait_def bind_eq_Some_conv)
    have pre: "slab_owns (v_pool v) ?H" "\<forall>r \<in> set (logging_of I gq). rec_slab_ptr r \<noteq> None"
      "distinct (record_slabs (logging_of I gq))" "set (record_slabs (logging_of I gq)) \<subseteq> ?H"
      using v(7) by (auto simp: placed_iff placed_slabs_def)
    note slabs = logger_store_loop_slabs [OF laws loop pre]
    have at: "\<forall>j. slab_at p j = slab_at (v_pool v) j" using store_loop_slab_at [OF loop] by blast
    have "placed ?sl (frames_of I fq) (live_of I lq) (logging_of I q')
        (L \<union> (set (record_slabs (take (Suc LOGGER_SERVICE_STORE_QUOTA) (logging_of I gq)))
          - set (record_slabs (take LOGGER_SERVICE_STORE_QUOTA (logging_of I gq))))) p"
      using placed_logging_done [OF v(7) le_SucI [OF order_refl] at conjunct2 [OF slabs]] conjunct1 [OF slabs] by simp
    then have "\<exists>L'. vault_inv I v' L'" using v ts v' q' by (intro exI vault_invI [of _ eq fq lq q' c]) simp_all
    moreover have "\<forall>j \<in> set_option (slab_ptr ?sl) \<union> set (placed_slabs (frames_of I fq) (live_of I lq) (logging_of I gq)).
        slab_at p j = slab_at (v_pool v) j" using at by simp
    note same = placed_values [OF this]
    have "data_path_of I v' = (data_path_of I v)\<lparr>d_store := drop (Suc LOGGER_SERVICE_STORE_QUOTA) (d_store (data_path_of I v))\<rparr>"
      using v same ts q' conjunct1 [OF slabs] by (simp add: data_path_of_def v')
    then have "data_turn pack (data_path_of I v) [] (data_path_of I v')" by (rule data_storedI)
    ultimately show ?thesis using ts(2) v' by simp
  qed
qed

lemma analyzer_turn_hands_out:
  assumes laws: "queue_laws Q items cap" and inv: "slicer_inv (analyzer_slicer a) p H"
    and cfg: "slicer_config_ptr (analyzer_slicer a) = Some c" and q: "raw_events_queue a = Some eq"
    and es: "\<forall>e \<in> set (items eq). ev_length e \<le> 256"
    and turn: "modbus_analyzer_task_turn Q now a p = Some (ok, a', p', calls)"
  shows "\<exists>G eq'. G \<inter> H = {} \<and> slicer_inv (analyzer_slicer a') p' (G \<union> H) \<and> handed_out p' G calls
    \<and> (\<forall>j \<in> H. slab_at p' j = slab_at p j) \<and> slicer_config_ptr (analyzer_slicer a') = Some c
    \<and> raw_events_queue a' = Some eq' \<and> set (items eq') \<subseteq> set (items eq)
    \<and> line_turn (line_of (analyzer_slicer a) p) (items eq) (line_of (analyzer_slicer a') p') (items eq')
        (frame_items p' (called_frames calls))"
proof -
  obtain pending where pd: "modbus_analyzer_task_handle a = Some pending"
    using turn by (auto simp: modbus_analyzer_task_turn_def bind_eq_Some_conv)
  show ?thesis
  proof (cases "pending AND MODBUS_ANALYZER_TASK_NOTIFY_STOP_BIT \<noteq> 0")
    case True
    with turn pd have "a' = a\<lparr>modbus_analyzer_task_handle := None\<rparr>" "p' = p" "calls = []"
      by (auto simp: modbus_analyzer_task_turn_def xTaskNotifyWait_def)
    with inv cfg q show ?thesis
      by (intro exI [of _ "{}"] exI [of _ eq]) (simp add: handed_out_def line_turn_def line_ends_def)
  next
    case run: False
    obtain cf where cf: "analyzer_config_ptr a = Some cf"
      using turn pd run q by (auto simp: modbus_analyzer_task_turn_def xTaskNotifyWait_def bind_eq_Some_conv)
    show ?thesis
    proof (cases "items eq")
      case Nil
      obtain sl fr where ct: "modbus_slicer_check_timeout now (analyzer_slicer a) p = (sl, p', fr)"
        and em: "emit_modbus_frame_callback (on_frame_cb cf) fr p' = Some calls"
        and a': "analyzer_slicer a' = sl" "raw_events_queue a' = Some eq"
        using turn pd run q cf queue_receive_Nil [OF laws Nil]
        by (auto simp: modbus_analyzer_task_turn_def xTaskNotifyWait_def bind_eq_Some_conv case_prod_beta Let_def
            prod_eq_iff)
      show ?thesis
      proof (cases "modbus_slicer_check_timeout now (analyzer_slicer a) p = modbus_slicer_timeout (analyzer_slicer a) p")
        case True
        then have "modbus_slicer_timeout (analyzer_slicer a) p = (sl, p', fr)" using ct by simp
        from timeout_hands_out [OF inv this em] obtain G where "G \<inter> H = {}" "slicer_inv sl p' (G \<union> H)" "handed_out p' G calls"
          "\<forall>j \<in> H. slab_at p' j = slab_at p j" "slicer_config_ptr sl = Some c"
          "line_ends (line_of (analyzer_slicer a) p) (line_of sl p') (frame_items p' (called_frames calls))" using cfg by auto
        with a' show ?thesis by (intro exI [of _ G] exI [of _ eq]) (simp add: line_turn_def)
      next
        case False
        with check_timeout_cases [of now "analyzer_slicer a" p] ct have "sl = analyzer_slicer a" "p' = p" "fr = None" by auto
        with inv em cfg a' show ?thesis
          by (intro exI [of _ "{}"] exI [of _ eq])
            (simp add: emit_modbus_frame_callback_def handed_out_def line_turn_def line_ends_def)
      qed
    next
      case (Cons e rest)
      obtain eq' where eq': "q_receive Q eq = Some (e, eq')" "items eq' = rest" using queue_receive_Cons [OF laws Cons] by blast
      obtain sl where h: "analyzer_handle_event (on_frame_cb cf) e (analyzer_slicer a) p = Some (sl, p', calls)"
        and a': "analyzer_slicer a' = sl" "raw_events_queue a' = Some eq'"
        using turn pd run q cf eq'(1)
        by (auto simp: modbus_analyzer_task_turn_def xTaskNotifyWait_def bind_eq_Some_conv)
      have "ev_length e \<le> 256" using es Cons by simp
      from handle_event_hands_out [OF inv cfg this h] obtain G where "G \<inter> H = {}" "slicer_inv sl p' (G \<union> H)" "handed_out p' G calls"
        "\<forall>j \<in> H. slab_at p' j = slab_at p j" "slicer_config_ptr sl = Some c"
        "\<exists>k. line_takes e (line_of (analyzer_slicer a) p) k \<and> line_ends k (line_of sl p') (frame_items p' (called_frames calls))"
        by blast
      with a' eq'(2) Cons show ?thesis by (intro exI [of _ G] exI [of _ eq']) (auto simp: line_turn_def)
    qed
  qed
qed

lemma run_analyzer_calls_frames:
  assumes laws: "queue_laws Q items cap" and "run_analyzer_calls Q calls t = Some t'" and "raw_frame_queue t = Some fq"
    and "length (called_frames calls) \<le> 1"
  shows "\<exists>fq'. raw_frame_queue t' = Some fq' \<and> analyzer t' = analyzer t
    \<and> (items fq' = items fq \<or> items fq' = items fq @ called_frames calls)"
  using assms(2-)
proof (induction calls arbitrary: t fq rule: called_frames.induct)
  case (3 fr cs)
  then have nil: "called_frames cs = []" by simp
  obtain sent fq1 where s: "q_send Q fr fq = (sent, fq1)" by (cases "q_send Q fr fq")
  have f: "items fq1 = items fq @ [fr] \<or> items fq1 = items fq"
    using s queue_send_room [OF laws, of fq fr] queue_send_full [OF laws, of fq fr]
    by (cases "length (items fq) < cap") auto
  obtain t1 where en: "telemetry_pipeline_enqueue_raw_frame Q (Some fr) t = Some t1" and rest: "run_analyzer_calls Q cs t1 = Some t'"
    using 3(2) by (auto simp: bind_eq_Some_conv)
  have t1: "raw_frame_queue t1 = Some fq1" "analyzer t1 = analyzer t"
    using en 3(3) s by (auto simp: telemetry_pipeline_enqueue_raw_frame_def Let_def bind_eq_Some_conv split: if_splits)
  from "3.IH" [OF rest t1(1)] nil f t1(2) show ?case by auto
qed auto

lemma router_dispatch_topics: "router_dispatch Ql Qg got_lock r ts ls = Some (ts', ls') \<Longrightarrow> topics ts' = topics ts"
  by (auto simp: router_dispatch_def telemetry_service_enqueue_live_def bind_eq_Some_conv Let_def case_prod_beta split: if_splits)

lemma vault_analyzer_keeps:
  assumes ok: "vault_queues_ok QS I" and inv: "vault_inv I v L"
    and st: "vault_analyzer_turn QS now v = Some v'"
  shows "(\<exists>L'. vault_inv I v' L') \<and> data_turn pack (data_path_of I v) [] (data_path_of I v')
    \<and> topics (v_telemetry v') = topics (v_telemetry v)"
  using inv
proof (rule vault_invE)
  fix eq fq lq gq c
  assume v: "raw_events_queue (analyzer (v_pipeline v)) = Some eq" "raw_frame_queue (v_pipeline v) = Some fq"
    "live_queue (v_telemetry v) = Some lq" "logging_queue (v_logger v) = Some gq"
    "slicer_config_ptr (analyzer_slicer (analyzer (v_pipeline v))) = Some c"
    "\<forall>e \<in> set (events_of I eq). ev_length e \<le> 256"
    "placed (analyzer_slicer (analyzer (v_pipeline v))) (frames_of I fq) (live_of I lq) (logging_of I gq) L (v_pool v)"
  let ?sl = "analyzer_slicer (analyzer (v_pipeline v))" and ?fs = "frames_of I fq" and ?ls = "live_of I lq" and ?gs = "logging_of I gq"
  obtain b a p calls t where turn: "modbus_analyzer_task_turn (events_q QS) now (analyzer (v_pipeline v)) (v_pool v) = Some (b, a, p, calls)"
    and run: "run_analyzer_calls (frames_q QS) calls ((v_pipeline v)\<lparr>analyzer := a\<rparr>) = Some t"
    and v': "v' = v\<lparr>v_pipeline := t, v_pool := p\<rparr>"
    using st by (auto simp: vault_analyzer_turn_def bind_eq_Some_conv)
  have sinv: "slicer_inv ?sl (v_pool v) (set (placed_slabs ?fs ?ls ?gs) \<union> L)"
    using v(7) by (simp add: placed_def placed_slabs_def)
  obtain G eq' where G: "G \<inter> (set (placed_slabs ?fs ?ls ?gs) \<union> L) = {}"
    "slicer_inv (analyzer_slicer a) p (G \<union> (set (placed_slabs ?fs ?ls ?gs) \<union> L))" "handed_out p G calls"
    "\<forall>j \<in> set (placed_slabs ?fs ?ls ?gs) \<union> L. slab_at p j = slab_at (v_pool v) j"
    "slicer_config_ptr (analyzer_slicer a) = Some c" "raw_events_queue a = Some eq'" "set (events_of I eq') \<subseteq> set (events_of I eq)"
    "line_turn (line_of ?sl (v_pool v)) (events_of I eq) (line_of (analyzer_slicer a) p) (events_of I eq')
      (frame_items p (called_frames calls))"
    using analyzer_turn_hands_out [OF vault_queues_okD(1) [OF ok] sinv v(5,1,6) turn] by blast
  have one: "length (called_frames calls) \<le> 1" using G(3) by (auto simp: handed_out_def)
  obtain fq' where fq': "raw_frame_queue t = Some fq'" "analyzer t = a"
    "frames_of I fq' = ?fs \<or> frames_of I fq' = ?fs @ called_frames calls"
    using run_analyzer_calls_frames [OF vault_queues_okD(2) [OF ok] run _ one, of fq] v(2) by auto
  note ho = placed_handed_out [OF v(7) G(1,2,4)]
  have "\<exists>L'. placed (analyzer_slicer a) (frames_of I fq') ?ls ?gs L' p"
  proof (cases "frames_of I fq' = ?fs")
    case True
    with ho(1) show ?thesis by auto
  next
    case False
    with fq'(3) G(3) obtain fr i where "called_frames calls = [fr]" "mf_slab_ptr fr = Some i" "i \<in> G"
      "slab_length (slab_at p i) \<le> SLAB_POOL_MAX_DATA_SIZE" "frames_of I fq' = ?fs @ [fr]"
      by (auto simp: handed_out_def)
    with ho(2) [of fr i] show ?thesis by auto
  qed
  then obtain L' where "placed (analyzer_slicer a) (frames_of I fq') ?ls ?gs L' p" by blast
  then have "vault_inv I v' L'" using v v' fq' G(5-7) by (intro vault_invI [of _ eq' fq' lq gq c]) auto
  moreover
  have same: "frame_items p ?fs = frame_items (v_pool v) ?fs" "record_items p ?ls = record_items (v_pool v) ?ls"
    "record_items p ?gs = record_items (v_pool v) ?gs"
    using G(4) by (auto simp: placed_slabs_def intro!: items_same)
  let ?d = "data_path_of I v" and ?F = "frame_items p (frames_of I fq')"
  have d': "data_path_of I v' = ?d\<lparr>d_events := events_of I eq', d_line := line_of (analyzer_slicer a) p, d_frames := ?F\<rparr>"
    using v v' fq'(1,2) G(6) same by (simp add: data_path_of_def)
  have d: "d_events ?d = events_of I eq" "d_line ?d = line_of ?sl (v_pool v)" "d_frames ?d = frame_items (v_pool v) ?fs"
    using v by (simp_all add: data_path_of_def)
  have "?F = d_frames ?d \<or> ?F = d_frames ?d @ frame_items p (called_frames calls)"
    using fq'(3) d(3) same(1) by auto
  then have "data_turn pack ?d [] (data_path_of I v')"
    using data_turn_analyzer [of ?d, unfolded d(1,2), OF G(8)] unfolding d' by blast
  ultimately show ?thesis using v' by auto
qed

text \<open>A frame's turn: its slab is released, and the record's slab is where the router put it, or lost.\<close>

lemma vault_pipeline_keeps:
  assumes ok: "vault_queues_ok QS I" and inv: "vault_inv I v L" and len: "\<forall>m. length (pack m) = packed_size m"
    and st: "vault_pipeline_turn QS packed_size pack got_lock v = Some v'"
  shows "(\<exists>L'. vault_inv I v' L') \<and> data_turn pack (data_path_of I v) [] (data_path_of I v')
    \<and> topics (v_telemetry v') = topics (v_telemetry v)"
  using inv
proof (rule vault_invE)
  fix eq fq lq gq c
  assume v: "raw_events_queue (analyzer (v_pipeline v)) = Some eq" "raw_frame_queue (v_pipeline v) = Some fq"
    "live_queue (v_telemetry v) = Some lq" "logging_queue (v_logger v) = Some gq"
    "slicer_config_ptr (analyzer_slicer (analyzer (v_pipeline v))) = Some c"
    "\<forall>e \<in> set (events_of I eq). ev_length e \<le> 256"
    "placed (analyzer_slicer (analyzer (v_pipeline v))) (frames_of I fq) (live_of I lq) (logging_of I gq) L (v_pool v)"
  let ?sl = "analyzer_slicer (analyzer (v_pipeline v))" and ?ls = "live_of I lq" and ?gs = "logging_of I gq"
  note laws = vault_queues_okD [OF ok]
  obtain b t p out where turn: "telemetry_pipeline_task_turn (frames_q QS) packed_size pack (v_pipeline v) (v_pool v) = Some (b, t, p, out)"
    and rest: "(case out of
          None \<Rightarrow> Some (v\<lparr>v_pipeline := t, v_pool := p\<rparr>)
        | Some r \<Rightarrow> map_option (\<lambda>(ts, ls). v\<lparr>v_pipeline := t, v_pool := p, v_telemetry := ts, v_logger := ls\<rparr>)
            (router_dispatch (live_q QS) (logging_q QS) got_lock r (v_telemetry v) (v_logger v))) = Some v'"
    using st by (auto simp: vault_pipeline_turn_def bind_eq_Some_conv Let_def split: option.splits)
  obtain pending where pd: "telemetry_pipeline_task_handle (v_pipeline v) = Some pending"
    using turn by (auto simp: telemetry_pipeline_task_turn_def bind_eq_Some_conv)
  have same: ?thesis if "analyzer t = analyzer (v_pipeline v)" "raw_frame_queue t = Some fq" "p = v_pool v" "out = None"
  proof -
    have v': "v' = v\<lparr>v_pipeline := t\<rparr>" using that rest by auto
    have "vault_inv I v' L" using that(1,2) v v' by (intro vault_invI [of _ eq fq lq gq c]) simp_all
    moreover have "data_path_of I v' = data_path_of I v" using that(1,2) v(2) by (simp add: data_path_of_def v')
    ultimately show ?thesis using data_idleI v' by auto
  qed
  show ?thesis
  proof (cases "pending AND TELEMETRY_PIPELINE_TASK_NOTIFY_STOP_BIT \<noteq> 0")
    case True
    then show ?thesis using turn pd v(2) same by (auto simp: telemetry_pipeline_task_turn_def xTaskNotifyWait_def)
  next
    case run: False
    show ?thesis
    proof (cases "frames_of I fq")
      case Nil
      then show ?thesis using turn pd v(2) run queue_receive_Nil [OF laws(2) Nil] same
        by (auto simp: telemetry_pipeline_task_turn_def xTaskNotifyWait_def)
    next
      case (Cons fr fs)
      obtain fq' where fq': "q_receive (frames_q QS) fq = Some (fr, fq')" "frames_of I fq' = fs"
        using queue_receive_Cons [OF laws(2) Cons] by blast
      let ?H = "set_option (slab_ptr ?sl) \<union> (set (placed_slabs (fr # fs) ?ls ?gs) \<union> L)"
      have pl: "placed ?sl (fr # fs) ?ls ?gs L (v_pool v)" using v(7) Cons by simp
      have proc: "pipeline_process packed_size pack (record_ready_callback (v_pipeline v)) fr (v_pool v) = Some (p, out)"
        and t: "analyzer t = analyzer (v_pipeline v)" "raw_frame_queue t = Some fq'"
        using turn pd v(2) run fq'(1) by (auto simp: telemetry_pipeline_task_turn_def xTaskNotifyWait_def bind_eq_Some_conv)
      obtain i where i: "mf_slab_ptr fr = Some i" "i \<in> ?H" "slab_length (slab_at (v_pool v) i) \<le> SLAB_POOL_MAX_DATA_SIZE"
        "slab_owns (v_pool v) ?H"
        using pl by (auto simp: placed_iff placed_slabs_def)
      let ?m = "(mf_timestamp_us fr, pack (frame_message (mf_timestamp_us fr) (slab_bytes (v_pool v) i)))"
      from pipeline_process_slabs [OF len i(4,1,2,3), of "record_ready_callback (v_pipeline v)"] proc
      have ps: "case out of None \<Rightarrow> slab_owns p (?H - {i})
          | Some r \<Rightarrow> \<exists>j. rec_slab_ptr r = Some j \<and> j \<notin> ?H \<and> slab_owns p (insert j (?H - {i}))
              \<and> (rec_timestamp_us r, slab_bytes p j) = ?m"
        and at: "\<forall>k \<in> ?H - {i}. slab_at p k = slab_at (v_pool v) k"
        by (auto simp: slab_bytes_def split: option.splits)
      have "i \<notin> set (placed_slabs fs ?ls ?gs)" "i \<notin> set_option (slab_ptr ?sl)"
        using pl i(1) unfolding placed_iff by (auto simp: placed_slabs_def)
      then have "\<forall>j \<in> set_option (slab_ptr ?sl) \<union> set (placed_slabs fs ?ls ?gs). slab_at p j = slab_at (v_pool v) j"
        using at by (auto simp: placed_slabs_def)
      note same = placed_values [OF this]
      let ?d = "data_path_of I v"
      have d: "d_frames ?d = (mf_timestamp_us fr, slab_bytes (v_pool v) i) # frame_items p fs"
        "d_live ?d = record_items p ?ls" "d_store ?d = record_items p ?gs"
        using v(2,3,4) Cons i(1) same(2-4) by (simp_all add: data_path_of_def)
      show ?thesis
      proof (cases out)
        case None
        then have "slab_owns p ({} \<union> (?H - {i}))" using ps by simp
        then have "placed ?sl fs ?ls ?gs (L \<union> {}) p" using placed_frame_done(1) [OF pl i(1) at, of "{}"] by blast
        then have "vault_inv I v' L" using None rest v t fq'(2) by (intro vault_invI [of _ eq fq' lq gq c]) auto
        moreover have "data_path_of I v' = ?d\<lparr>d_frames := frame_items p fs\<rparr>"
          using None rest v t fq'(2) same by (auto simp: data_path_of_def)
        moreover have "v_telemetry v' = v_telemetry v" using None rest by auto
        ultimately show ?thesis using data_lose [OF d(1)] by auto
      next
        case (Some r)
        then obtain j where j: "rec_slab_ptr r = Some j" "j \<notin> ?H" "slab_owns p ({j} \<union> (?H - {i}))"
          and m: "(rec_timestamp_us r, slab_bytes p j) = ?m" using ps by auto
        have "{j} \<inter> ?H = {}" using j(2) by blast
        note fd = placed_frame_done [OF pl i(1) at j(3) this]
        obtain ts ls where rd: "router_dispatch (live_q QS) (logging_q QS) got_lock r (v_telemetry v) (v_logger v) = Some (ts, ls)"
          and v': "v' = v\<lparr>v_pipeline := t, v_pool := p, v_telemetry := ts, v_logger := ls\<rparr>"
          using rest Some by auto
        from router_dispatch_queues [OF laws(3,4) rd v(3,4)] obtain lq' gq' where q: "live_queue ts = Some lq'" "logging_queue ls = Some gq'"
          and lg: "live_of I lq' = ?ls @ [r] \<and> logging_of I gq' = ?gs \<or> live_of I lq' = ?ls \<and> logging_of I gq' = ?gs @ [r]
            \<or> live_of I lq' = ?ls \<and> logging_of I gq' = ?gs" by blast
        have "\<exists>L'. placed ?sl fs (live_of I lq') (logging_of I gq') L' p"
          using lg fd(1) fd(2) [OF j(1) refl] fd(3) [OF j(1) refl] by auto
        then obtain L' where "placed ?sl fs (live_of I lq') (logging_of I gq') L' p" by blast
        then have "vault_inv I v' L'" using v v' t fq'(2) q by (intro vault_invI [of _ eq fq' lq' gq' c]) auto
        moreover have d': "data_path_of I v' = ?d\<lparr>d_frames := frame_items p fs, d_live := record_items p (live_of I lq'),
            d_store := record_items p (logging_of I gq')\<rparr>"
          using v v' t fq'(2) q same by (simp add: data_path_of_def)
        have "data_turn pack ?d [] (data_path_of I v')"
          unfolding d' by (rule data_turn_pipeline [OF d(1)]) (use lg d(2,3) m j(1) in auto)
        moreover have "topics ts = topics (v_telemetry v)" using router_dispatch_topics [OF rd] .
        ultimately show ?thesis using v' by auto
      qed
    qed
  qed
qed

lemma vault_turn_keeps:
  assumes "vault_turn QS packed_size pack v calls v'" and ok: "vault_queues_ok QS I" and "vault_inv I v L"
    and "\<forall>m. length (pack m) = packed_size m"
  shows "(\<exists>L'. vault_inv I v' L')
    \<and> (\<exists>sent. data_turn pack (data_path_of I v) sent (data_path_of I v') \<and> live_label v calls sent)
    \<and> topics (v_telemetry v') = topics (v_telemetry v)"
  using assms(1)
proof cases
  case (turn_analyzer now)
  from vault_analyzer_keeps [OF ok assms(3) this(2), of pack] show ?thesis unfolding turn_analyzer(1) using live_label_Nil by blast
next
  case (turn_pipeline got_lock)
  from vault_pipeline_keeps [OF ok assms(3,4) this(2)] show ?thesis unfolding turn_pipeline(1) using live_label_Nil by blast
next
  case (turn_telemetry send live_locks got_lock replay_locks got_sector_lock garbage)
  from vault_telemetry_keeps [OF ok assms(3) this] show ?thesis by blast
next
  case (turn_logger over_old ks)
  from vault_logger_keeps [OF ok assms(3) this(2), of pack] show ?thesis unfolding turn_logger(1) using live_label_Nil by blast
next
  case (turn_mqtt got_lock event)
  from vault_mqtt_keeps [OF assms(3) this(2)] show ?thesis unfolding turn_mqtt(1) using live_label_Nil data_idleI by blast
next
  case (turn_flush over_old got_lock)
  from vault_flush_keeps [OF assms(3) this(2)] show ?thesis unfolding turn_flush(1) using live_label_Nil data_idleI by blast
next
  case (turn_metrics send got_lock now garbage counters)
  from vault_metrics_keeps [OF this] show ?thesis using assms(3) data_idleI by blast
qed

lemma vault_step_keeps:
  assumes "vault_step QS packed_size pack v v'" and ok: "vault_queues_ok QS I" and "vault_inv I v L"
    and "\<forall>m. length (pack m) = packed_size m"
  shows "\<exists>L'. vault_inv I v' L'"
  using assms(1)
proof cases
  case (step_line e)
  with vault_line_keeps [OF ok assms(3)] show ?thesis by blast
next
  case (step_turn calls)
  from vault_turn_keeps [OF this ok assms(3,4)] show ?thesis by blast
qed

lemma vault_reach_keeps:
  assumes "(vault_step QS packed_size pack)\<^sup>*\<^sup>* v v'" and "vault_queues_ok QS I" and "vault_inv I v L"
    and "\<forall>m. length (pack m) = packed_size m"
  shows "\<exists>L'. vault_inv I v' L'"
  using assms(1)
proof (induction rule: rtranclp_induct)
  case base
  from assms(3) show ?case by blast
next
  case (step u w)
  from step.IH obtain L' where "vault_inv I u L'" by blast
  from vault_step_keeps [OF step.hyps(2) assms(2) this assms(4)] show ?case .
qed

section \<open>Properties\<close>

text \<open>The system after its initialisation: empty queues, an idle slicer, a pool that nobody uses.\<close>

definition vault_started where
  "vault_started I v \<longleftrightarrow>
     (\<exists>eq fq lq gq. raw_events_queue (analyzer (v_pipeline v)) = Some eq \<and> events_of I eq = []
       \<and> raw_frame_queue (v_pipeline v) = Some fq \<and> frames_of I fq = []
       \<and> live_queue (v_telemetry v) = Some lq \<and> live_of I lq = []
       \<and> logging_queue (v_logger v) = Some gq \<and> logging_of I gq = [])
     \<and> slab_ptr (analyzer_slicer (analyzer (v_pipeline v))) = None
     \<and> slicer_config_ptr (analyzer_slicer (analyzer (v_pipeline v))) \<noteq> None
     \<and> slab_owns (v_pool v) {}"

text \<open>All references to slabs that the program holds between two steps.\<close>

definition vault_slabs where
  "vault_slabs I v =
     (case slab_ptr (analyzer_slicer (analyzer (v_pipeline v))) of None \<Rightarrow> [] | Some i \<Rightarrow> [i])
     @ frame_slabs (case raw_frame_queue (v_pipeline v) of None \<Rightarrow> [] | Some q \<Rightarrow> frames_of I q)
     @ record_slabs (case live_queue (v_telemetry v) of None \<Rightarrow> [] | Some q \<Rightarrow> live_of I q)
     @ record_slabs (case logging_queue (v_logger v) of None \<Rightarrow> [] | Some q \<Rightarrow> logging_of I q)"

lemma vault_started_inv: "vault_started I v \<Longrightarrow> vault_inv I v {}"
  by (auto simp: vault_started_def vault_inv_def placed_iff placed_slabs_def)

lemma vault_inv_slabs:
  assumes "vault_inv I v L"
  shows "distinct (vault_slabs I v) \<and> set (vault_slabs I v) \<inter> set (free_slabs (v_pool v)) = {} \<and> slab_pool_wf (v_pool v)"
  using assms
proof (rule vault_invE)
  fix eq fq lq gq c
  assume v: "raw_events_queue (analyzer (v_pipeline v)) = Some eq" "raw_frame_queue (v_pipeline v) = Some fq"
    "live_queue (v_telemetry v) = Some lq" "logging_queue (v_logger v) = Some gq"
    "slicer_config_ptr (analyzer_slicer (analyzer (v_pipeline v))) = Some c"
    "\<forall>e \<in> set (events_of I eq). ev_length e \<le> 256"
    "placed (analyzer_slicer (analyzer (v_pipeline v))) (frames_of I fq) (live_of I lq) (logging_of I gq) L (v_pool v)"
  let ?sl = "analyzer_slicer (analyzer (v_pipeline v))"
  let ?S = "placed_slabs (frames_of I fq) (live_of I lq) (logging_of I gq)"
  have e: "vault_slabs I v = (case slab_ptr ?sl of None \<Rightarrow> [] | Some i \<Rightarrow> [i]) @ ?S"
    using v by (simp add: vault_slabs_def placed_slabs_def)
  have "set_option (slab_ptr ?sl) \<inter> set ?S = {}" "distinct ?S" using v(7) by (auto simp: placed_iff)
  moreover have "slab_owns (v_pool v) (set_option (slab_ptr ?sl) \<union> (set ?S \<union> L))" using v(7) by (simp add: placed_iff)
  then have "(set_option (slab_ptr ?sl) \<union> set ?S) \<inter> set (free_slabs (v_pool v)) = {}" "slab_pool_wf (v_pool v)"
    by (auto simp: slab_owns_def)
  ultimately show ?thesis unfolding e by (cases "slab_ptr ?sl") auto
qed

text \<open>
  C10. A buffer never has two owners. However the line, the tasks, the timers and the connection interleave,
  with every queue and lock outcome, each slab is referenced at most once by the slicer and the
  three queues together, no referenced slab is on the free list, and the free list is sound: no
  slab is released twice, and none is used after its release.
\<close>

theorem vault_slabs_exclusive:
  assumes "vault_queues_ok QS I" and "\<forall>m. length (pack m) = packed_size m" and "vault_started I v0"
    and "(vault_step QS packed_size pack)\<^sup>*\<^sup>* v0 v"
  shows "distinct (vault_slabs I v) \<and> set (vault_slabs I v) \<inter> set (free_slabs (v_pool v)) = {} \<and> slab_pool_wf (v_pool v)"
proof -
  from vault_reach_keeps [OF assms(4,1) vault_started_inv [OF assms(3)] assms(2)] obtain L where "vault_inv I v L" by blast
  then show ?thesis by (rule vault_inv_slabs)
qed

definition vault_queues_example ::
    "(rs485_driver_event list, modbus_analyzer_frame list, telemetry_pipeline_record list, telemetry_pipeline_record list) vault_queues" where
  "vault_queues_example = \<lparr>events_q = list_queue 20, frames_q = list_queue 32, live_q = list_queue 16, logging_q = list_queue 32\<rparr>"

definition vault_items_example ::
    "(rs485_driver_event list, modbus_analyzer_frame list, telemetry_pipeline_record list, telemetry_pipeline_record list) vault_items" where
  "vault_items_example = \<lparr>events_of = (\<lambda>q. q), frames_of = (\<lambda>q. q), live_of = (\<lambda>q. q), logging_of = (\<lambda>q. q)\<rparr>"

definition vault_example ::
    "bool \<Rightarrow> (rs485_driver_event list, modbus_analyzer_frame list, telemetry_pipeline_record list, telemetry_pipeline_record list, unit, unit) vault" where
  "vault_example online =
     \<lparr>v_pipeline = \<lparr>telemetry_pipeline_task_handle = Some 0, raw_frame_queue = Some [], record_ready_callback = True,
        analyzer = \<lparr>analyzer_config_ptr = Some \<lparr>rs485_driver_config_ptr = None, on_frame_cb = True\<rparr>,
          rs485_drv = \<lparr>rs485_config_ptr = None, rs485_event_queue = None, frame_bit_length = 11, rs485_driver_task_handle = None\<rparr>,
          analyzer_slicer = slicer_example, analyzer_slicer_config = slicer_config_example,
          raw_events_queue = Some [], modbus_analyzer_task_handle = Some 0\<rparr>,
        pipeline_work_pending = False\<rparr>,
      v_telemetry = \<lparr>topics = [''a'', ''b'', ''c''], topics_qos = [0, 0, 0], telemetry_service_task_handle = Some 0,
        live_queue = Some [], telemetry_service_state_lock = True, telemetry_service_is_online_flag = online,
        telemetry_bridge = mqtt_bridge_example, pub_metrics_timer_handle = False, publish_replay_cb_func = False,
        telemetry_work_pending = False\<rparr>,
      v_logger = (logger_service_example [])\<lparr>logger_service_task_handle := Some 0\<rparr>, v_flash = (),
      v_pool = snd (slab_pool_init True slab_pool_static)\<rparr>"

lemma vault_example_ok: "vault_queues_ok vault_queues_example vault_items_example" "vault_started vault_items_example (vault_example online)"
  using slab_owns_init
  by (simp_all add: vault_queues_ok_def vault_queues_example_def vault_items_example_def list_queue_laws vault_started_def
      vault_example_def slicer_example_def logger_service_example_def)

text \<open>The packing of the example is the frame's bytes.\<close>

lemma vault_slabs_exclusive_witness:
  "\<exists>v. vault_step vault_queues_example (\<lambda>m. length (msg_data m)) msg_data (vault_example True) v
    \<and> raw_events_queue (analyzer (v_pipeline v)) = Some [frame_example signed_example]
    \<and> distinct (vault_slabs vault_items_example v)
    \<and> set (vault_slabs vault_items_example v) \<inter> set (free_slabs (v_pool v)) = {}"
proof -
  let ?e = "frame_example signed_example"
  obtain v where v: "vault_line_event vault_queues_example ?e (vault_example True) = Some v"
    "raw_events_queue (analyzer (v_pipeline v)) = Some [?e]"
    by (simp add: vault_line_event_def on_rs485_driver_event_callback_def vault_example_def vault_queues_example_def)
  have "ev_length ?e \<le> 256" by (simp add: frame_example_def signed_example_def)
  then have st: "vault_step vault_queues_example (\<lambda>m. length (msg_data m)) msg_data (vault_example True) v"
    using v(1) by (rule step_line)
  have "\<forall>m. length (msg_data m) = length (msg_data m)" by simp
  from vault_slabs_exclusive [OF vault_example_ok(1) this vault_example_ok(2) r_into_rtranclp, OF st] st v(2)
  show ?thesis by blast
qed

lemma line_frame_captured:
  assumes ok: "vault_queues_ok QS I" and start: "vault_started I v" and e: "line_frame e" "frame_ok e"
    and an: "modbus_analyzer_task_handle (analyzer (v_pipeline v)) = Some 0"
      "analyzer_config_ptr (analyzer (v_pipeline v)) = Some cf" "on_frame_cb cf"
      "slicer_config_ptr (analyzer_slicer (analyzer (v_pipeline v))) = Some c" "on_frame_func c"
    and pi: "telemetry_pipeline_task_handle (v_pipeline v) = Some 0" "record_ready_callback (v_pipeline v)"
  shows "\<exists>v1 t p i fq. vault_line_event QS e v = Some v1 \<and> vault_analyzer_turn QS now v1 = Some (v\<lparr>v_pipeline := t, v_pool := p\<rparr>)
    \<and> raw_frame_queue t = Some fq \<and> frames_of I fq = [\<lparr>mf_slab_ptr = Some i, mf_timestamp_us = ev_timestamp_us e\<rparr>]
    \<and> telemetry_pipeline_task_handle t = Some 2 \<and> record_ready_callback t
    \<and> slab_owns p {i} \<and> slab_length (slab_at p i) = ev_length e \<and> take (ev_length e) (slab_data (slab_at p i)) = frame_bytes e"
proof -
  note laws = vault_queues_okD [OF ok]
  obtain eq fq where q: "raw_events_queue (analyzer (v_pipeline v)) = Some eq" "events_of I eq = []"
    "raw_frame_queue (v_pipeline v) = Some fq" "frames_of I fq = []"
    and s: "slab_ptr (analyzer_slicer (analyzer (v_pipeline v))) = None" "slab_owns (v_pool v) {}"
    using start by (auto simp: vault_started_def)
  obtain eq1 where eq1: "q_send (events_q QS) e eq = (True, eq1)" "events_of I eq1 = [e]"
    using queue_send_room [OF laws(1), of eq e] q(2) by auto
  obtain eq2 where eq2: "q_receive (events_q QS) eq1 = Some (e, eq2)" using queue_receive_Cons [OF laws(1) eq1(2)] by blast
  let ?v1 = "v\<lparr>v_pipeline := (v_pipeline v)\<lparr>analyzer := (analyzer (v_pipeline v))\<lparr>raw_events_queue := Some eq1\<rparr>\<rparr>\<rparr>"
  have 1: "vault_line_event QS e v = Some ?v1"
    using q(1) eq1(1) by (simp add: vault_line_event_def on_rs485_driver_event_callback_def)
  have ne: "({} :: slab_ref set) \<noteq> {..<SLAB_POOL_SIZE}" using lessThan_empty_iff [of SLAB_POOL_SIZE] by (auto simp: SLAB_POOL_SIZE_def)
  obtain sl p i where h: "analyzer_handle_event True e (analyzer_slicer (analyzer (v_pipeline v))) (v_pool v)
      = Some (sl, p, [On_frame \<lparr>mf_slab_ptr = Some i, mf_timestamp_us = ev_timestamp_us e\<rparr>])"
    and i: "slab_owns p {i}" "slab_length (slab_at p i) = ev_length e" "take (ev_length e) (slab_data (slab_at p i)) = frame_bytes e"
    using handle_line_frame [OF e(1) s(2) ne s(1) an(4,5)] e(2) by auto
  let ?fr = "\<lparr>mf_slab_ptr = Some i, mf_timestamp_us = ev_timestamp_us e\<rparr>"
  obtain fq1 where fq1: "q_send (frames_q QS) ?fr fq = (True, fq1)" "frames_of I fq1 = [?fr]"
    using queue_send_room [OF laws(2), of fq ?fr] q(4) by auto
  obtain t where t: "telemetry_pipeline_enqueue_raw_frame (frames_q QS) (Some ?fr) ((v_pipeline v)\<lparr>analyzer :=
      (analyzer (v_pipeline v))\<lparr>modbus_analyzer_task_handle := Some 0, analyzer_slicer := sl, raw_events_queue := Some eq2\<rparr>\<rparr>) = Some t"
    "raw_frame_queue t = Some fq1" "telemetry_pipeline_task_handle t = Some 2" "record_ready_callback t"
    using q(3) fq1(1) pi
    by (auto simp: telemetry_pipeline_enqueue_raw_frame_def TELEMETRY_PIPELINE_TASK_NOTIFY_FRAME_BIT_def)
  have "vault_analyzer_turn QS now ?v1 = Some (v\<lparr>v_pipeline := t, v_pool := p\<rparr>)"
    using an(1-3) eq2 h t(1)
    by (simp add: vault_analyzer_turn_def modbus_analyzer_task_turn_def xTaskNotifyWait_def)
  with 1 t(2-4) fq1(2) i show ?thesis by blast
qed

text \<open>The only slab in use leaves room for the record, so the serialized frame is always passed on.\<close>

lemma single_frame_serialized:
  assumes len: "\<forall>m. length (pack m) = packed_size m" and own: "slab_owns p {i}"
    and src: "slab_length (slab_at p i) \<le> SLAB_POOL_MAX_DATA_SIZE"
    and fit: "packed_size (frame_message ts (take (slab_length (slab_at p i)) (slab_data (slab_at p i)))) \<le> 512"
  shows "\<exists>p' r j. pipeline_process packed_size pack True \<lparr>mf_slab_ptr = Some i, mf_timestamp_us = ts\<rparr> p = Some (p', Some r)
    \<and> rec_slab_ptr r = Some j \<and> rec_timestamp_us r = ts \<and> slab_owns p' {j}
    \<and> slab_length (slab_at p' j) \<le> SLAB_POOL_MAX_DATA_SIZE
    \<and> take (slab_length (slab_at p' j)) (slab_data (slab_at p' j))
      = pack (frame_message ts (take (slab_length (slab_at p i)) (slab_data (slab_at p i))))"
proof -
  let ?fr = "\<lparr>mf_slab_ptr = Some i, mf_timestamp_us = ts\<rparr>"
  let ?m = "frame_message ts (take (slab_length (slab_at p i)) (slab_data (slab_at p i)))"
  have room: "{i} \<noteq> {..<SLAB_POOL_SIZE}"
  proof
    assume "{i} = {..<SLAB_POOL_SIZE}"
    then have "card {i} = card {..<SLAB_POOL_SIZE}" by (rule arg_cong)
    then show False by (simp add: SLAB_POOL_SIZE_def)
  qed
  have raw: "mf_slab_ptr ?fr = Some i" "i \<in> {i}" "mf_timestamp_us ?fr = ts" by simp_all
  obtain p' out where pr: "pipeline_process packed_size pack True ?fr p = Some (p', out)"
    and out: "case out of
        None \<Rightarrow> slab_owns p' ({i} - {i}) \<and> ({i} = {..<SLAB_POOL_SIZE} \<or> \<not> True \<or> SLAB_POOL_MAX_DATA_SIZE < packed_size ?m)
      | Some r \<Rightarrow> \<exists>j. rec_slab_ptr r = Some j \<and> j \<notin> {i} \<and> slab_owns p' (insert j ({i} - {i}))
          \<and> rec_timestamp_us r = ts \<and> slab_length (slab_at p' j) \<le> SLAB_POOL_MAX_DATA_SIZE
          \<and> take (slab_length (slab_at p' j)) (slab_data (slab_at p' j)) = pack ?m"
    using pipeline_process_slabs [OF len own raw(1,2) src, of True, unfolded raw(3)] by blast
  have "out \<noteq> None" using out room fit by (auto simp: SLAB_POOL_MAX_DATA_SIZE_def)
  with pr out show ?thesis by auto
qed

lemma frame_delivered:
  assumes ok: "vault_queues_ok QS I" and len: "\<forall>m. length (pack m) = packed_size m" and start: "vault_started I v"
    and e: "line_frame e" "frame_ok e" and fit: "packed_size (frame_message (ev_timestamp_us e) (frame_bytes e)) \<le> 512"
    and an: "modbus_analyzer_task_handle (analyzer (v_pipeline v)) = Some 0"
      "analyzer_config_ptr (analyzer (v_pipeline v)) = Some cf" "on_frame_cb cf"
      "slicer_config_ptr (analyzer_slicer (analyzer (v_pipeline v))) = Some c" "on_frame_func c"
    and pi: "telemetry_pipeline_task_handle (v_pipeline v) = Some 0" "record_ready_callback (v_pipeline v)"
    and th: "telemetry_service_task_handle (v_telemetry v) \<noteq> None" "logger_service_task_handle (v_logger v) \<noteq> None"
  shows "\<exists>v1 v2 v3 r j lq gq. vault_line_event QS e v = Some v1 \<and> vault_analyzer_turn QS now v1 = Some v2
    \<and> vault_pipeline_turn QS packed_size pack got_lock v2 = Some v3
    \<and> live_queue (v_telemetry v3) = Some lq \<and> logging_queue (v_logger v3) = Some gq
    \<and> (live_of I lq, logging_of I gq) = (if telemetry_service_is_online got_lock (v_telemetry v) then ([r], []) else ([], [r]))
    \<and> rec_slab_ptr r = Some j \<and> rec_timestamp_us r = ev_timestamp_us e \<and> slab_owns (v_pool v3) {j}
    \<and> take (slab_length (slab_at (v_pool v3) j)) (slab_data (slab_at (v_pool v3) j))
      = pack (frame_message (ev_timestamp_us e) (frame_bytes e))
    \<and> slab_length (slab_at (v_pool v3) j) \<le> SLAB_POOL_MAX_DATA_SIZE
    \<and> v_flash v3 = v_flash v \<and> blackbox (v_logger v3) = blackbox (v_logger v)
    \<and> (\<not> telemetry_service_is_online got_lock (v_telemetry v) \<longrightarrow> v_telemetry v3 = v_telemetry v
       \<and> (\<forall>h. logger_service_task_handle (v_logger v) = Some h
             \<longrightarrow> logger_service_task_handle (v_logger v3) = Some (h OR LOGGER_SERVICE_TASK_NOTIFY_LOG_BIT)))"
proof -
  note laws = vault_queues_okD [OF ok]
  obtain lq gq where q: "live_queue (v_telemetry v) = Some lq" "live_of I lq = []"
    "logging_queue (v_logger v) = Some gq" "logging_of I gq = []"
    using start by (auto simp: vault_started_def)
  obtain v1 t p i fq where
    v: "vault_line_event QS e v = Some v1" "vault_analyzer_turn QS now v1 = Some (v\<lparr>v_pipeline := t, v_pool := p\<rparr>)"
    and t: "raw_frame_queue t = Some fq" "frames_of I fq = [\<lparr>mf_slab_ptr = Some i, mf_timestamp_us = ev_timestamp_us e\<rparr>]"
      "telemetry_pipeline_task_handle t = Some 2" "record_ready_callback t"
    and i: "slab_owns p {i}" "slab_length (slab_at p i) = ev_length e" "take (ev_length e) (slab_data (slab_at p i)) = frame_bytes e"
    using line_frame_captured [OF ok start e an pi, of now] by blast
  have sz: "slab_length (slab_at p i) \<le> SLAB_POOL_MAX_DATA_SIZE"
    using i(2) e(1) by (simp add: line_frame_def SLAB_POOL_MAX_DATA_SIZE_def)
  let ?fr = "\<lparr>mf_slab_ptr = Some i, mf_timestamp_us = ev_timestamp_us e\<rparr>"
  obtain p' r j where pr: "pipeline_process packed_size pack True ?fr p = Some (p', Some r)"
    and j: "rec_slab_ptr r = Some j" "rec_timestamp_us r = ev_timestamp_us e" "slab_owns p' {j}"
      "slab_length (slab_at p' j) \<le> SLAB_POOL_MAX_DATA_SIZE"
      "take (slab_length (slab_at p' j)) (slab_data (slab_at p' j)) = pack (frame_message (ev_timestamp_us e) (frame_bytes e))"
    using single_frame_serialized [OF len i(1) sz, of "ev_timestamp_us e"] fit i(2,3) by auto
  obtain fq2 where fq2: "q_receive (frames_q QS) fq = Some (?fr, fq2)" using queue_receive_Cons [OF laws(2) t(2)] by blast
  have stop: "(2 :: u32) AND TELEMETRY_PIPELINE_TASK_NOTIFY_STOP_BIT = 0"
    by (simp add: TELEMETRY_PIPELINE_TASK_NOTIFY_STOP_BIT_def)
  obtain t' where t': "telemetry_pipeline_task_turn (frames_q QS) packed_size pack t p = Some (True, t', p', Some r)"
    using t fq2 pr stop by (simp add: telemetry_pipeline_task_turn_def xTaskNotifyWait_def)
  obtain ts ls lq' gq' where d: "router_dispatch (live_q QS) (logging_q QS) got_lock r (v_telemetry v) (v_logger v) = Some (ts, ls)"
    "live_queue ts = Some lq'" "logging_queue ls = Some gq'"
    "(live_of I lq', logging_of I gq') = (if telemetry_service_is_online got_lock (v_telemetry v) then ([r], []) else ([], [r]))"
    "blackbox ls = blackbox (v_logger v)"
    "\<not> telemetry_service_is_online got_lock (v_telemetry v) \<longrightarrow> ts = v_telemetry v
       \<and> (\<forall>h. logger_service_task_handle (v_logger v) = Some h
             \<longrightarrow> logger_service_task_handle ls = Some (h OR LOGGER_SERVICE_TASK_NOTIFY_LOG_BIT))"
    using router_dispatch_room [OF laws(3,4) q(1,3) _ _ th, of got_lock r, unfolded q(2,4)] by (simp only: list.size append_Nil zero_less_numeral simp_thms) metis
  let ?v3 = "v\<lparr>v_pipeline := t', v_pool := p', v_telemetry := ts, v_logger := ls\<rparr>"
  have "vault_pipeline_turn QS packed_size pack got_lock (v\<lparr>v_pipeline := t, v_pool := p\<rparr>) = Some ?v3"
    using t' d(1) by (simp add: vault_pipeline_turn_def)
  with v d j show ?thesis
    by (intro exI [of _ v1] exI [of _ "v\<lparr>v_pipeline := t, v_pool := p\<rparr>"] exI [of _ ?v3] exI [of _ r] exI [of _ j] exI [of _ lq']
        exI [of _ gq']) simp
qed

text \<open>
  C7. A frame gets through. From a started system whose tasks are not told to stop, the event of a
  whole, correct frame followed by a turn of the analyzer and one of the pipeline leaves exactly
  one record, in the live queue when the service is online and in the storing queue otherwise: it
  has the frame's time, its slab holds the packed message of the frame's bytes, and no other slab
  is in use.
\<close>

theorem vault_delivers_frame:
  assumes ok: "vault_queues_ok QS I" and len: "\<forall>m. length (pack m) = packed_size m" and start: "vault_started I v"
    and e: "line_frame e" "frame_ok e" and fit: "packed_size (frame_message (ev_timestamp_us e) (frame_bytes e)) \<le> 512"
    and an: "modbus_analyzer_task_handle (analyzer (v_pipeline v)) = Some 0"
      "analyzer_config_ptr (analyzer (v_pipeline v)) = Some cf" "on_frame_cb cf"
      "slicer_config_ptr (analyzer_slicer (analyzer (v_pipeline v))) = Some c" "on_frame_func c"
    and pi: "telemetry_pipeline_task_handle (v_pipeline v) = Some 0" "record_ready_callback (v_pipeline v)"
    and th: "telemetry_service_task_handle (v_telemetry v) \<noteq> None" "logger_service_task_handle (v_logger v) \<noteq> None"
  shows "\<exists>v1 v2 v3 r j lq gq. vault_line_event QS e v = Some v1 \<and> vault_analyzer_turn QS now v1 = Some v2
    \<and> vault_pipeline_turn QS packed_size pack got_lock v2 = Some v3
    \<and> live_queue (v_telemetry v3) = Some lq \<and> logging_queue (v_logger v3) = Some gq
    \<and> (live_of I lq, logging_of I gq) = (if telemetry_service_is_online got_lock (v_telemetry v) then ([r], []) else ([], [r]))
    \<and> rec_slab_ptr r = Some j \<and> rec_timestamp_us r = ev_timestamp_us e \<and> slab_owns (v_pool v3) {j}
    \<and> take (slab_length (slab_at (v_pool v3) j)) (slab_data (slab_at (v_pool v3) j))
      = pack (frame_message (ev_timestamp_us e) (frame_bytes e))"
  using frame_delivered [OF assms, of now got_lock] by blast

text \<open>The example satisfies the premises: packing is the identity on the frame's bytes.\<close>

lemma delivery_example:
  "\<forall>m. length (msg_data m) = length (msg_data m)"
  "length (msg_data (frame_message (ev_timestamp_us (frame_example signed_example)) (frame_bytes (frame_example signed_example)))) \<le> 512"
  "modbus_analyzer_task_handle (analyzer (v_pipeline (vault_example True))) = Some 0"
  "analyzer_config_ptr (analyzer (v_pipeline (vault_example True))) = Some \<lparr>rs485_driver_config_ptr = None, on_frame_cb = True\<rparr>"
  "on_frame_cb \<lparr>rs485_driver_config_ptr = None, on_frame_cb = True\<rparr>"
  "slicer_config_ptr (analyzer_slicer (analyzer (v_pipeline (vault_example True)))) = Some slicer_config_example"
  "on_frame_func slicer_config_example"
  "telemetry_pipeline_task_handle (v_pipeline (vault_example True)) = Some 0" "record_ready_callback (v_pipeline (vault_example True))"
  "telemetry_service_task_handle (v_telemetry (vault_example True)) \<noteq> None"
  "logger_service_task_handle (v_logger (vault_example True)) \<noteq> None"
  by (simp_all add: vault_example_def slicer_example_def slicer_config_example_def frame_bytes_def frame_example_def
      frame_message_def signed_example_def)

lemma delivery_example_values [simp]:
  "telemetry_service_is_online True (v_telemetry (vault_example True))"
  "live_of vault_items_example q = q" "msg_data (frame_message ts bs) = bs"
  "frame_bytes (frame_example bs) = bs" "ev_timestamp_us (frame_example bs) = 5"
  by (simp_all add: telemetry_service_is_online_def vault_example_def vault_items_example_def frame_message_def
      frame_bytes_def frame_example_def)

lemma vault_delivers_frame_witness:
  "\<exists>v1 v2 v3 r j. vault_line_event vault_queues_example (frame_example signed_example) (vault_example True) = Some v1
    \<and> vault_analyzer_turn vault_queues_example 9 v1 = Some v2
    \<and> vault_pipeline_turn vault_queues_example (\<lambda>m. length (msg_data m)) msg_data True v2 = Some v3
    \<and> live_queue (v_telemetry v3) = Some [r] \<and> rec_slab_ptr r = Some j
    \<and> take (slab_length (slab_at (v_pool v3) j)) (slab_data (slab_at (v_pool v3) j)) = signed_example"
  using vault_delivers_frame [OF vault_example_ok(1) delivery_example(1) vault_example_ok(2) signed_example
      delivery_example(2-), of 9 True] by auto

end
