(* ===== verification/Vault_Integrity.thy ===== *)
theory Vault_Integrity imports Vault_Slabs begin

text \<open>
  The data path refines its specification on values, and what follows for a whole run: every record
  is the packed message of a frame that was received from the line, in order and once.
\<close>

section \<open>Runs\<close>

text \<open>
  A run of the system and one of the specification, with the events of the line so far, and what was
  passed on to the outside: the calls of the publishing task, or the bytes sent on the live topic.
\<close>

inductive vault_run ::
    "('r, 'q, 'l, 'g) vault_queues \<Rightarrow> (modbus_frame_msg \<Rightarrow> nat) \<Rightarrow> (modbus_frame_msg \<Rightarrow> bytes) \<Rightarrow> ('r, 'q, 'l, 'g, 'e, 'f) vault
       \<Rightarrow> rs485_driver_event list \<Rightarrow> telemetry_call list \<Rightarrow> ('r, 'q, 'l, 'g, 'e, 'f) vault \<Rightarrow> bool"
    for QS packed_size pack v0 where
  run_start: "vault_run QS packed_size pack v0 [] [] v0"
| run_line: "vault_run QS packed_size pack v0 es out v \<Longrightarrow> ev_length e \<le> 256 \<Longrightarrow> vault_line_event QS e v = Some v'
    \<Longrightarrow> vault_run QS packed_size pack v0 (es @ [e]) out v'"
| run_turn: "vault_run QS packed_size pack v0 es out v \<Longrightarrow> vault_turn QS packed_size pack v calls v'
    \<Longrightarrow> vault_run QS packed_size pack v0 es (out @ calls) v'"

inductive data_run ::
    "(modbus_frame_msg \<Rightarrow> bytes) \<Rightarrow> data_path \<Rightarrow> rs485_driver_event list \<Rightarrow> bytes list \<Rightarrow> data_path \<Rightarrow> bool" for pack d0 where
  data_run_start: "data_run pack d0 [] [] d0"
| data_run_line: "data_run pack d0 es sent d \<Longrightarrow> data_line e d d' \<Longrightarrow> data_run pack d0 (es @ [e]) sent d'"
| data_run_turn: "data_run pack d0 es sent d \<Longrightarrow> data_turn pack d new d' \<Longrightarrow> data_run pack d0 es (sent @ new) d'"

lemma vault_run_refines:
  assumes "vault_run QS packed_size pack v0 es out v" and ok: "vault_queues_ok QS I" and "vault_inv I v0 L"
    and "\<forall>m. length (pack m) = packed_size m" and "topics (v_telemetry v0) ! 0 \<notin> {topics (v_telemetry v0) ! 1, topics (v_telemetry v0) ! 2}"
  shows "(\<exists>L'. vault_inv I v L') \<and> topics (v_telemetry v) = topics (v_telemetry v0)
    \<and> data_run pack (data_path_of I v0) es (sent_on (topics (v_telemetry v0) ! 0) out) (data_path_of I v)"
  using assms(1)
proof induction
  case run_start
  from assms(3) data_run_start show ?case by auto
next
  case (run_line es out v e v')
  then obtain L' where "vault_inv I v L'" by blast
  moreover have "topics (v_telemetry v') = topics (v_telemetry v)" using run_line.hyps(3) by (auto simp: vault_line_event_def)
  ultimately show ?case
    using vault_line_keeps [OF ok _ run_line.hyps(2,3)] run_line.IH data_run_line by metis
next
  case (run_turn es out v calls v')
  then obtain L' where "vault_inv I v L'" by blast
  from vault_turn_keeps [OF run_turn.hyps(2) ok this assms(4)] run_turn.IH assms(5) show ?case
    by (auto simp: live_label_def intro: data_run_turn)
qed

definition data_path_empty :: "data_path \<Rightarrow> bool" where
  "data_path_empty d \<longleftrightarrow> d_events d = [] \<and> \<not> l_open (d_line d) \<and> l_bytes (d_line d) = []
     \<and> d_frames d = [] \<and> d_live d = [] \<and> d_store d = []"

lemma vault_started_empty: "vault_started I v \<Longrightarrow> data_path_empty (data_path_of I v)"
  by (auto simp: vault_started_def data_path_empty_def data_path_of_def line_of_def slicer_bytes_def)

section \<open>What a run has done\<close>

text \<open>The blocks occur in the text, in this order and without overlap.\<close>

fun in_order :: "bytes list \<Rightarrow> bytes \<Rightarrow> bool" where
  "in_order [] s = True"
| "in_order (b # bs) s = (\<exists>u w. s = u @ b @ w \<and> in_order bs w)"

lemma in_order_more: "in_order bs s \<Longrightarrow> in_order bs (s @ t)"
proof (induction bs arbitrary: s)
  case (Cons b bs)
  then obtain u w where "s = u @ b @ w" "in_order bs (w @ t)" by auto
  then show ?case by auto
qed simp

lemma in_order_snoc: "in_order bs s \<Longrightarrow> in_order (bs @ [b]) (s @ b)"
proof (induction bs arbitrary: s)
  case Nil
  show ?case by (simp, rule exI [of _ s], simp)
next
  case (Cons a bs)
  then obtain u w where "s = u @ a @ w" "in_order (bs @ [b]) (w @ b)" by auto
  then show ?case by auto
qed

lemma in_order_prefix: "in_order (bs @ cs) s \<Longrightarrow> in_order bs s"
  by (induction bs arbitrary: s) auto

text \<open>The frames that the pipeline has taken, with where their records went.\<close>

datatype route = To_live | To_store | Lost

type_synonym history = "(route \<times> int \<times> bytes) list"

definition history_bytes :: "history \<Rightarrow> bytes list" where
  "history_bytes h = map (\<lambda>(_, _, bs). bs) h"

definition routed :: "(modbus_frame_msg \<Rightarrow> bytes) \<Rightarrow> route \<Rightarrow> history \<Rightarrow> (int \<times> bytes) list" where
  "routed pack r h = map (\<lambda>(_, t, bs). (t, pack (frame_message t bs))) (filter (\<lambda>(r', _). r' = r) h)"

definition line_text :: "rs485_driver_event list \<Rightarrow> bytes" where
  "line_text es = concat (map event_bytes es)"

definition received :: "rs485_driver_event list \<Rightarrow> int \<times> bytes \<Rightarrow> bool" where
  "received es f \<longleftrightarrow> crc_frame (snd f) \<and> fst f \<in> ev_timestamp_us ` set es"

lemma history_simps [simp]:
  "history_bytes [] = []" "history_bytes (h @ [(r, t, bs)]) = history_bytes h @ [bs]"
  "routed pack r [] = []"
  "routed pack r (h @ [(r', t, bs)]) = routed pack r h @ (if r' = r then [(t, pack (frame_message t bs))] else [])"
  "line_text [] = []" "line_text (es @ [e]) = line_text es @ event_bytes e"
  by (simp_all add: history_bytes_def routed_def line_text_def)

lemma received_more: "received es f \<Longrightarrow> received (es @ fs) f"
  by (auto simp: received_def)

text \<open>
  The invariant: \<open>fed\<close> are the events that the analyzer has taken and \<open>s\<close> the text in front of the
  bytes that the line buffer holds.
\<close>

definition data_history :: "(modbus_frame_msg \<Rightarrow> bytes) \<Rightarrow> rs485_driver_event list \<Rightarrow> bytes list \<Rightarrow> data_path
    \<Rightarrow> rs485_driver_event list \<Rightarrow> bytes \<Rightarrow> history \<Rightarrow> bool" where
  "data_history pack es sent d fed s h \<longleftrightarrow>
     subseq (fed @ d_events d) es \<and> line_text fed = s @ l_bytes (d_line d)
     \<and> (l_open (d_line d) \<or> l_bytes (d_line d) \<noteq> [] \<longrightarrow> l_start (d_line d) \<in> ev_timestamp_us ` set fed)
     \<and> in_order (history_bytes h @ map snd (d_frames d)) s
     \<and> (\<forall>f \<in> set (map snd h @ d_frames d). received fed f)
     \<and> suffix (d_live d) (routed pack To_live h) \<and> suffix (d_store d) (routed pack To_store h)
     \<and> subseq (sent @ map snd (d_live d)) (map snd (routed pack To_live h))"

lemma suffix_drop_of: "suffix xs ys \<Longrightarrow> suffix (drop n xs) ys"
  by (metis suffix_drop suffix_order.trans)

text \<open>The end of a frame, with what the line buffer held before it.\<close>

lemma data_history_ends:
  assumes h: "data_history pack es sent d fed s h" and e: "line_ends (d_line d) l' out"
    and fs: "fs = d_frames d \<or> fs = d_frames d @ out"
  shows "\<exists>s'. data_history pack es sent (d\<lparr>d_line := l', d_frames := fs\<rparr>) fed s' h"
proof (cases "l' = d_line d \<and> out = []")
  case True
  with h fs show ?thesis by (intro exI [of _ s]) (auto simp: data_history_def)
next
  case False
  with e have l': "l_bytes l' = []" "l_start l' = l_start (d_line d)" "l_open l' \<longrightarrow> l_open (d_line d)"
    and out: "out = [] \<or> crc_frame (l_bytes (d_line d)) \<and> out = [(l_start (d_line d), l_bytes (d_line d))]"
    by (auto simp: line_ends_def)
  let ?s = "s @ l_bytes (d_line d)"
  have io: "in_order (history_bytes h @ map snd (d_frames d)) ?s"
    using h by (intro in_order_more) (simp add: data_history_def)
  have new: "in_order (history_bytes h @ map snd (d_frames d) @ [l_bytes (d_line d)]) ?s"
    using h in_order_snoc [of "history_bytes h @ map snd (d_frames d)"] by (simp add: data_history_def)
  have rec: "received fed (l_start (d_line d), l_bytes (d_line d))" if "crc_frame (l_bytes (d_line d))"
    using that h by (auto simp: data_history_def received_def crc_frame_def)
  show ?thesis
  proof (cases "fs = d_frames d")
    case True
    with h l' io show ?thesis by (intro exI [of _ ?s]) (auto simp: data_history_def)
  next
    case False
    then have "fs = d_frames d @ [(l_start (d_line d), l_bytes (d_line d))]" "crc_frame (l_bytes (d_line d))"
      using fs out by auto
    with h l' new rec show ?thesis by (intro exI [of _ ?s]) (auto simp: data_history_def)
  qed
qed

lemma data_history_takes:
  assumes h: "data_history pack es sent d fed s h" and e: "d_events d = e # rest" "line_takes e (d_line d) l"
  shows "\<exists>s'. data_history pack es sent (d\<lparr>d_events := rest, d_line := l\<rparr>) (fed @ [e]) s' h"
proof -
  have more: "\<forall>f \<in> set (map snd h @ d_frames d). received (fed @ [e]) f"
    using h received_more unfolding data_history_def by blast
  have io: "in_order (history_bytes h @ map snd (d_frames d)) (s @ t)" for t
    using h by (intro in_order_more) (simp add: data_history_def)
  show ?thesis
  proof (cases "event_bytes e = [] \<or> l_bytes l = l_bytes (d_line d) @ event_bytes e")
    case True
    with h e more show ?thesis
      by (intro exI [of _ s]) (auto simp: data_history_def line_takes_def split: if_splits)
  next
    case False
    with e(2) have "l_bytes l = []" "l_start l = (if l_open (d_line d) then l_start (d_line d) else ev_timestamp_us e)"
      by (auto simp: line_takes_def split: if_splits)
    with h e(1) more io [of "l_bytes (d_line d) @ event_bytes e"] show ?thesis
      by (intro exI [of _ "s @ l_bytes (d_line d) @ event_bytes e"]) (auto simp: data_history_def)
  qed
qed

text \<open>The pipeline takes the oldest frame.\<close>

lemma data_history_process:
  assumes h: "data_history pack es sent d fed s h" and fr: "d_frames d = (t, bs) # fs"
    and lv: "suffix lv (routed pack To_live (h @ [(r, t, bs)]))" and st: "suffix st (routed pack To_store (h @ [(r, t, bs)]))"
    and "subseq (sent @ map snd lv) (map snd (routed pack To_live (h @ [(r, t, bs)])))"
  shows "data_history pack es sent (d\<lparr>d_frames := fs, d_live := lv, d_store := st\<rparr>) fed s (h @ [(r, t, bs)])"
  using assms by (simp add: data_history_def)

lemma data_history_turn:
  assumes "data_turn pack d new d'" and h: "data_history pack es sent d fed s h"
  shows "\<exists>fed s h. data_history pack es (sent @ new) d' fed s h"
  using assms(1)
proof cases
  case data_idle
  with h show ?thesis by auto
next
  case (data_take e rest l l' out fs)
  obtain s1 where h1: "data_history pack es sent (d\<lparr>d_events := rest, d_line := l\<rparr>) (fed @ [e]) s1 h"
    using data_history_takes [OF h data_take(3,4)] by blast
  from data_history_ends [OF this, of l' out fs] data_take(5,6) show ?thesis unfolding data_take(1,2) by auto
next
  case (data_silence l' out fs)
  from data_history_ends [OF h data_silence(3,4)] show ?thesis unfolding data_silence(1,2) by auto
next
  case (data_lose f fs)
  obtain t bs where f: "f = (t, bs)" by fastforce
  have "data_history pack es sent (d\<lparr>d_frames := fs, d_live := d_live d, d_store := d_store d\<rparr>) fed s (h @ [(Lost, t, bs)])"
    using h data_lose(3) unfolding f by (intro data_history_process [OF h]) (simp_all add: data_history_def)
  then show ?thesis unfolding data_lose(1,2) by auto
next
  case (data_to_live t bs fs)
  let ?m = "(t, pack (frame_message t bs))"
  have "subseq ((sent @ map snd (d_live d)) @ [snd ?m]) (map snd (routed pack To_live h) @ [snd ?m])"
    using h by (simp only: subseq_append) (simp add: data_history_def)
  then have "data_history pack es sent (d\<lparr>d_frames := fs, d_live := d_live d @ [?m], d_store := d_store d\<rparr>)
      fed s (h @ [(To_live, t, bs)])"
    using h data_to_live(3) by (intro data_history_process [OF h]) (simp_all add: data_history_def suffix_def)
  then show ?thesis unfolding data_to_live(1,2) by auto
next
  case (data_to_store t bs fs)
  have "data_history pack es sent (d\<lparr>d_frames := fs, d_live := d_live d, d_store := d_store d @ [(t, pack (frame_message t bs))]\<rparr>)
      fed s (h @ [(To_store, t, bs)])"
    using h data_to_store(3) by (intro data_history_process [OF h]) (simp_all add: data_history_def suffix_def)
  then show ?thesis unfolding data_to_store(1,2) by auto
next
  case (data_publish n)
  have "subseq (new @ map snd (drop n (d_live d))) (map snd (take n (d_live d)) @ map snd (drop n (d_live d)))"
    by (rule list_emb_append_mono [OF data_publish(2)]) simp
  then have "subseq (new @ map snd (drop n (d_live d))) (map snd (d_live d))" by (simp flip: map_append)
  from list_emb_append_mono [OF subseq_order.order_refl this, of sent]
  have "subseq ((sent @ new) @ map snd (drop n (d_live d))) (sent @ map snd (d_live d))" by simp
  moreover have "subseq (sent @ map snd (d_live d)) (map snd (routed pack To_live h))" using h by (simp add: data_history_def)
  ultimately have "subseq ((sent @ new) @ map snd (drop n (d_live d))) (map snd (routed pack To_live h))"
    by (rule subseq_order.trans)
  then have "data_history pack es (sent @ new) (d\<lparr>d_live := drop n (d_live d)\<rparr>) fed s h"
    using h by (simp add: data_history_def suffix_drop_of)
  then show ?thesis unfolding data_publish(1) by blast
next
  case (data_stored n)
  have "data_history pack es sent (d\<lparr>d_store := drop n (d_store d)\<rparr>) fed s h"
    using h by (simp add: data_history_def suffix_drop_of)
  then show ?thesis unfolding data_stored(1,2) by auto
qed

lemma data_run_history:
  assumes "data_run pack d0 es sent d" and "data_path_empty d0"
  shows "\<exists>fed s h. data_history pack es sent d fed s h"
  using assms(1)
proof induction
  case data_run_start
  from assms(2) show ?case
    by (intro exI [of _ "[]"]) (simp add: data_history_def data_path_empty_def)
next
  case (data_run_line es sent d e d')
  then obtain fed s h where h: "data_history pack es sent d fed s h" by blast
  then have "subseq (fed @ d_events d) (es @ [e])" "subseq (fed @ d_events d @ [e]) (es @ [e])"
    using subseq_append [of "fed @ d_events d" "[e]" es] by (auto simp: data_history_def intro: subseq_rev_drop_many)
  with h data_run_line.hyps(2) show ?case
    by (intro exI [of _ fed] exI [of _ s] exI [of _ h]) (auto simp: data_history_def data_line_def)
next
  case (data_run_turn es sent d new d')
  with data_history_turn show ?case by blast
qed

section \<open>Properties\<close>

text \<open>
  C3. Passing buffers is passing values. However the line, the tasks, the timers and the connection interleave,
  the system with its pool of slabs, its slicer and its queues of pointers behaves like the
  specification with values in the queues, and sends the same bytes on the live topic: what a queue
  holds stays what was put into it, until it is taken out.
\<close>

theorem vault_refines_values:
  assumes "vault_queues_ok QS I" and "\<forall>m. length (pack m) = packed_size m" and "vault_started I v0"
    and "topics (v_telemetry v0) ! 0 \<notin> {topics (v_telemetry v0) ! 1, topics (v_telemetry v0) ! 2}" and "vault_run QS packed_size pack v0 es out v"
  shows "data_path_empty (data_path_of I v0)
    \<and> data_run pack (data_path_of I v0) es (sent_on (topics (v_telemetry v0) ! 0) out) (data_path_of I v)"
  using vault_run_refines [OF assms(5,1) vault_started_inv [OF assms(3)] assms(2,4)] vault_started_empty [OF assms(3)] by blast

text \<open>A run that ends with a record in the live queue.\<close>

lemma delivery_example_run:
  "\<exists>v. vault_run vault_queues_example (\<lambda>m. length (msg_data m)) msg_data (vault_example True) [frame_example signed_example] [] v
    \<and> d_live (data_path_of vault_items_example v) = [(5, signed_example)]"
proof -
  obtain v1 v2 v3 r j where v: "vault_line_event vault_queues_example (frame_example signed_example) (vault_example True) = Some v1"
    "vault_analyzer_turn vault_queues_example 9 v1 = Some v2"
    "vault_pipeline_turn vault_queues_example (\<lambda>m. length (msg_data m)) msg_data True v2 = Some v3"
    and r: "live_queue (v_telemetry v3) = Some [r]" "rec_slab_ptr r = Some j" "rec_timestamp_us r = 5"
    "slab_bytes (v_pool v3) j = signed_example"
    using frame_delivered [OF vault_example_ok(1) delivery_example(1) vault_example_ok(2) signed_example
        delivery_example(2-), of 9 True] by (auto simp: slab_bytes_def)
  have "ev_length (frame_example signed_example) \<le> 256" by (simp add: frame_example_def signed_example_def)
  from run_line [OF run_start this v(1)]
  have "vault_run vault_queues_example (\<lambda>m. length (msg_data m)) msg_data (vault_example True) [frame_example signed_example] [] v1" by simp
  from run_turn [OF run_turn [OF this turn_analyzer [OF v(2)]] turn_pipeline [OF v(3)]]
  have "vault_run vault_queues_example (\<lambda>m. length (msg_data m)) msg_data (vault_example True) [frame_example signed_example] [] v3" by simp
  with r show ?thesis by (auto simp: data_path_of_def)
qed

lemma delivery_example_topics: "topics (v_telemetry (vault_example True)) ! 0
    \<notin> {topics (v_telemetry (vault_example True)) ! 1, topics (v_telemetry (vault_example True)) ! 2}"
  by (simp add: vault_example_def)

lemma vault_refines_values_witness:
  "\<exists>d. data_run msg_data (data_path_of vault_items_example (vault_example True)) [frame_example signed_example] [] d
    \<and> d_live d = [(5, signed_example)]"
  using delivery_example_run
    vault_refines_values [OF vault_example_ok(1) delivery_example(1) vault_example_ok(2) delivery_example_topics] by fastforce

text \<open>
  C2. Nothing is invented, changed, doubled or reordered. In every run there is a history \<open>h\<close> of
  frames such that each was received from the line, with a correct checksum, as a block of the text
  of the events that the analyzer took; the blocks of different frames do not overlap and come in
  the order of the line. What was sent on the live topic, and then the records that wait for it,
  are packed messages of different frames of \<open>h\<close> in that order; the records that wait in a queue are
  the latest ones that were routed to it, each with the packed message of its frame and the time of
  one of the events.
\<close>

theorem vault_records_are_line_frames:
  assumes "vault_queues_ok QS I" and "\<forall>m. length (pack m) = packed_size m" and "vault_started I v0"
    and "topics (v_telemetry v0) ! 0 \<notin> {topics (v_telemetry v0) ! 1, topics (v_telemetry v0) ! 2}" and "vault_run QS packed_size pack v0 es out v"
  shows "\<exists>taken h. subseq taken es \<and> in_order (history_bytes h) (line_text taken)
    \<and> (\<forall>(r, t, bs) \<in> set h. crc_frame bs \<and> t \<in> ev_timestamp_us ` set taken)
    \<and> subseq (sent_on (topics (v_telemetry v0) ! 0) out @ map snd (d_live (data_path_of I v))) (map snd (routed pack To_live h))
    \<and> suffix (d_live (data_path_of I v)) (routed pack To_live h)
    \<and> suffix (d_store (data_path_of I v)) (routed pack To_store h)"
proof -
  have "data_run pack (data_path_of I v0) es (sent_on (topics (v_telemetry v0) ! 0) out) (data_path_of I v)"
    using vault_run_refines [OF assms(5,1) vault_started_inv [OF assms(3)] assms(2,4)] by blast
  from data_run_history [OF this vault_started_empty [OF assms(3)]] obtain fed s h
    where h: "data_history pack es (sent_on (topics (v_telemetry v0) ! 0) out) (data_path_of I v) fed s h" by blast
  then have "subseq (fed @ d_events (data_path_of I v)) es" by (simp add: data_history_def)
  then have "subseq fed es" using subseq_order.trans [of fed "fed @ d_events (data_path_of I v)"] by blast
  moreover have "in_order (history_bytes h @ map snd (d_frames (data_path_of I v))) s"
    "line_text fed = s @ l_bytes (d_line (data_path_of I v))" using h by (simp_all add: data_history_def)
  then have "in_order (history_bytes h) (line_text fed)" by (simp add: in_order_more in_order_prefix [of "history_bytes h"])
  moreover have "\<forall>f \<in> set h. received fed (snd f)" using h by (auto simp: data_history_def)
  then have "\<forall>(r, t, bs) \<in> set h. crc_frame bs \<and> t \<in> ev_timestamp_us ` set fed" by (auto simp: received_def)
  ultimately show ?thesis using h unfolding data_history_def by blast
qed

lemma vault_records_are_line_frames_witness:
  "\<exists>v taken h. vault_run vault_queues_example (\<lambda>m. length (msg_data m)) msg_data (vault_example True) [frame_example signed_example] [] v
    \<and> subseq taken [frame_example signed_example] \<and> in_order (history_bytes h) (line_text taken)
    \<and> suffix [(5, signed_example)] (routed msg_data To_live h)"
proof -
  obtain v where v: "vault_run vault_queues_example (\<lambda>m. length (msg_data m)) msg_data (vault_example True) [frame_example signed_example] [] v"
    "d_live (data_path_of vault_items_example v) = [(5, signed_example)]" using delivery_example_run by blast
  from vault_records_are_line_frames [OF vault_example_ok(1) delivery_example(1) vault_example_ok(2) delivery_example_topics v(1)] v
  show ?thesis by auto
qed

end
