(* ===== verification/Blackbox_Flush.thy ===== *)
theory Blackbox_Flush imports Blackbox_Logger begin

text \<open>
  What a flush does to the flash device, and what a write does to the batch buffer, for the
  documented set-up: the batch buffer is no larger than a sector, the partition consists of at
  least two whole sectors.
\<close>

section \<open>Sectors\<close>

definition sec_start :: "nat \<Rightarrow> nat \<Rightarrow> nat" where "sec_start sector off = off div sector * sector"
definition sec_end :: "nat \<Rightarrow> nat \<Rightarrow> nat" where "sec_end sector off = (off div sector + 1) * sector"

lemma sec_bounds:
  assumes "0 < sector"
  shows "sec_start sector off \<le> off" "off < sec_end sector off" "sec_end sector off = sec_start sector off + sector"
    "sector dvd sec_start sector off" "sector dvd sec_end sector off"
proof -
  have "off = off div sector * sector + off mod sector" by simp
  moreover have "off mod sector < sector" using assms by simp
  moreover have "(off div sector + 1) * sector = off div sector * sector + sector" by (simp add: distrib_right)
  ultimately show "sec_start sector off \<le> off" "off < sec_end sector off"
    "sec_end sector off = sec_start sector off + sector"
    unfolding sec_start_def sec_end_def by linarith+
qed (simp_all only: sec_start_def sec_end_def dvd_triv_right)

lemma dvd_less_step: "(s :: nat) dvd a \<Longrightarrow> s dvd b \<Longrightarrow> a < b \<Longrightarrow> a + s \<le> b"
  by (auto simp: dvd_def) (metis Suc_leI add.commute mult_Suc_right mult_le_mono2 mult_less_cancel1)

lemma sec_end_le:
  assumes "0 < sector" and "sector dvd n" and "off < n"
  shows "sec_end sector off \<le> n"
proof -
  note b = sec_bounds [OF assms(1), of off]
  have "sec_start sector off < n" using b(1) assms(3) by simp
  from dvd_less_step [OF b(4) assms(2) this] b(3) show ?thesis by simp
qed

text \<open>The 32-bit sector arithmetic of the code, for offsets inside the partition.\<close>

lemma sec_u32:
  assumes "0 < sector" and "sector dvd n" and "off < n" and "n < 2 ^ 31"
  shows "u32_mul (u32_add (off div sector) 1) sector = sec_end sector off"
    "u32_mul (off div sector) sector = sec_start sector off"
    "u32_sub (sec_end sector off) off = sec_end sector off - off"
proof -
  note b = sec_bounds [OF assms(1), of off] and e = sec_end_le [OF assms(1-3)]
  have d: "off div sector \<le> off" by simp
  then have a: "u32_add (off div sector) 1 = off div sector + 1"
    using le_less_trans [OF d assms(3)] assms(4) by (intro u32_add_small) simp
  show "u32_mul (u32_add (off div sector) 1) sector = sec_end sector off"
    unfolding a using e assms(4) by (subst u32_mul_small) (simp_all add: sec_end_def)
  show "u32_mul (off div sector) sector = sec_start sector off"
    using le_less_trans [OF div_times_less_eq_dividend [of off sector] assms(3)] assms(4)
    by (subst u32_mul_small) (simp_all add: sec_start_def)
  show "u32_sub (sec_end sector off) off = sec_end sector off - off"
    using b e assms(4) by (intro u32_sub_small) simp_all
qed

section \<open>The set-up\<close>

definition config_ok ::
    "('f \<Rightarrow> nat \<Rightarrow> nat \<Rightarrow> esp_err \<times> bytes) \<Rightarrow> (nat \<Rightarrow> bytes \<Rightarrow> 'f \<Rightarrow> esp_err \<times> 'f) \<Rightarrow> (nat \<Rightarrow> nat \<Rightarrow> 'f \<Rightarrow> esp_err \<times> 'f)
       \<Rightarrow> nat \<Rightarrow> nat \<Rightarrow> 'f blackbox_logger_config \<Rightarrow> bool" where
  "config_ok rd wr er sector psize c \<longleftrightarrow>
     partition_size c = Some psize \<and> sector_buf_size c = sector \<and> 0 < sector \<and> sector dvd psize
     \<and> 2 * sector \<le> psize \<and> psize < 2 ^ 31 \<and> alignment (address_align c)
     \<and> read_func c = Some rd \<and> write_func c = Some wr \<and> erase_func c = Some er
     \<and> batch_buf c \<noteq> None \<and> length (the (batch_buf c)) = batch_buf_size c \<and> batch_buf_size c \<le> sector
     \<and> sector_buf c \<noteq> None \<and> sector \<le> length (the (sector_buf c))"

text \<open>The batch buffer holds the entries \<open>es\<close>, not yet flushed.\<close>

definition batch_holds :: "'f blackbox_logger_config \<Rightarrow> 'f blackbox_logger \<Rightarrow> log_entry list \<Rightarrow> bool" where
  "batch_holds c lg es \<longleftrightarrow> laid_out (address_align c) (the (batch_buf c)) 0 es
     \<and> batch_len lg = entries_size (address_align c) es \<and> batch_len lg \<le> batch_buf_size c
     \<and> (\<forall>e \<in> set es. fst e < 2 ^ 32)"

text \<open>
  The sector erased last is none, the one of the write offset or the one before it; in the
  second case it is blank from the write offset on.
\<close>

definition erased_ahead :: "nat \<Rightarrow> bytes \<Rightarrow> 'f blackbox_logger \<Rightarrow> bool" where
  "erased_ahead sector m lg \<longleftrightarrow>
     (last_erased_sector lg = -1 \<or> last_erased_sector lg = int (write_offset lg div sector) \<or> sector dvd write_offset lg)
   \<and> (last_erased_sector lg = int (write_offset lg div sector) \<and> write_offset lg < length m \<longrightarrow>
        blank m (write_offset lg) (sec_end sector (write_offset lg) - write_offset lg))"

section \<open>One chunk on the device\<close>

text \<open>
  What the device holds (\<open>m'\<close>, before: \<open>m\<close>) after the chunk \<open>bs\<close> went to \<open>wo\<close>: the chunk,
  blank flash behind it up to the sector's end, the old bytes in every other sector, and before
  the chunk in its sector the old bytes if they were \<open>kept\<close>, else blank flash.
\<close>

definition chunk_written :: "nat \<Rightarrow> bytes \<Rightarrow> nat \<Rightarrow> bytes \<Rightarrow> bool \<Rightarrow> bytes \<Rightarrow> bool" where
  "chunk_written sector m wo bs kept m' \<longleftrightarrow> length m' = length m
     \<and> buf_read m' wo (length bs) = Some bs
     \<and> blank m' (wo + length bs) (sec_end sector wo - (wo + length bs))
     \<and> (\<forall>i k. i + k \<le> sec_start sector wo \<or> sec_end sector wo \<le> i \<longrightarrow> buf_read m' i k = buf_read m i k)
     \<and> (\<forall>i k. sec_start sector wo \<le> i \<and> i + k \<le> wo \<longrightarrow>
          buf_read m' i k = (if kept then buf_read m i k else Some (replicate k 0xFF)))"

lemma chunk_written_other:
  "chunk_written sector m wo bs kept m' \<Longrightarrow> i + k \<le> sec_start sector wo \<or> sec_end sector wo \<le> i \<Longrightarrow>
     buf_read m' i k = buf_read m i k"
  unfolding chunk_written_def by blast

lemma chunk_written_before:
  "chunk_written sector m wo bs kept m' \<Longrightarrow> sec_start sector wo \<le> i \<Longrightarrow> i + k \<le> wo \<Longrightarrow>
     buf_read m' i k = (if kept then buf_read m i k else Some (replicate k 0xFF))"
  unfolding chunk_written_def by blast

context flash_device
begin

text \<open>
  A chunk goes into the rest of the sector of its offset. Outside that sector nothing changes;
  the sector's bytes before the offset stay only if the sector was the one erased last.
\<close>

lemma flush_chunk_ok:
  assumes g: "good (fs_flash s)" and dims: "0 < sector" "sector dvd length (cells (fs_flash s))"
    and wo: "fs_write_offset s < length (cells (fs_flash s))"
    and chunk: "buf_read batch (fs_buffer_offset s) n = Some bs" "0 < n"
    and fits: "fs_write_offset s + n \<le> sec_end sector (fs_write_offset s)"
    and small: "n \<le> fs_write_size s" "fs_write_size s < 2 ^ 31" "fs_buffer_offset s + n < 2 ^ 31"
    and ahead: "last_erased_sector (fs_logger s) = int (fs_write_offset s div sector) \<longrightarrow>
      blank (cells (fs_flash s)) (fs_write_offset s) (sec_end sector (fs_write_offset s) - fs_write_offset s)"
  shows "\<exists>f'. flush_chunk wr er batch sector n s = Some (s\<lparr>fs_flash := f',
        fs_logger := (fs_logger s)\<lparr>last_erased_sector := int (fs_write_offset s div sector)\<rparr>,
        fs_write_offset := fs_write_offset s + n, fs_write_size := fs_write_size s - n,
        fs_buffer_offset := fs_buffer_offset s + n\<rparr>)
    \<and> good f' \<and> chunk_written sector (cells (fs_flash s)) (fs_write_offset s) bs
        (last_erased_sector (fs_logger s) = int (fs_write_offset s div sector)) (cells f')"
proof -
  let ?f = "fs_flash s" and ?wo = "fs_write_offset s" and ?lg = "fs_logger s"
  let ?q = "?wo div sector" and ?a = "sec_start sector ?wo" and ?e = "sec_end sector ?wo"
  note b = sec_bounds [OF dims(1), of ?wo] and e = sec_end_le [OF dims wo]
  have ps: "length (cells ?f) < 2 ^ 31" by (rule cells_bound [OF g])
  note u = sec_u32 [OF dims wo ps]
  have len: "length bs = n" using chunk(1) by (rule buf_read_length)
  have ae: "?a + sector \<le> length (cells ?f)" using b e by simp
  obtain f1 where er1: "(if int ?q \<noteq> last_erased_sector ?lg
       then let (erase_err, f') = er (u32_mul ?q sector) sector ?f
            in (esp_to_blackbox_error_map erase_err, ?lg\<lparr>last_erased_sector := int ?q\<rparr>, f')
       else (BLACKBOX_LOGGER_OK, ?lg, ?f)) = (BLACKBOX_LOGGER_OK, ?lg\<lparr>last_erased_sector := int ?q\<rparr>, f1)"
    and g1: "good f1" and c1: "cells f1 = (if last_erased_sector ?lg = int ?q then cells ?f
       else overlay (cells ?f) ?a (replicate sector 0xFF))"
  proof (cases "last_erased_sector ?lg = int ?q")
    case True
    then show ?thesis using g by (intro that [of ?f]) (simp_all flip: True)
  next
    case False
    obtain f1 where "er ?a sector ?f = (ESP_OK, f1)" "good f1"
      "cells f1 = overlay (cells ?f) ?a (replicate sector 0xFF)"
      using erase_in [OF g b(4) dvd_refl ae] by blast
    with False u(2) show ?thesis by (intro that [of f1]) (auto simp: esp_to_blackbox_error_map_def)
  qed
  have l1: "length (cells f1) = length (cells ?f)" using c1 ae by simp
  have blank1: "blank (cells f1) ?wo (?e - ?wo)"
    using ahead c1 b ae by (auto intro: blank_overlay_erased)
  have "blank (cells f1) ?wo (length bs)" using fits len by (intro blank_sub [OF blank1]) simp_all
  then obtain f2 where f2: "wr ?wo bs f1 = (ESP_OK, f2)" "good f2" "cells f2 = overlay (cells f1) ?wo bs"
    using write_in [OF g1 _ blank_writable, of ?wo bs] fits len l1 e by fastforce
  have w: "?wo + length bs \<le> length (cells f1)" using fits len e l1 by simp
  have run: "flush_chunk wr er batch sector n s = Some (s\<lparr>fs_flash := f2,
        fs_logger := ?lg\<lparr>last_erased_sector := int ?q\<rparr>, fs_write_offset := ?wo + n,
        fs_write_size := fs_write_size s - n, fs_buffer_offset := fs_buffer_offset s + n\<rparr>)"
    using chunk small e fits ps f2(1)
    by (simp add: flush_chunk_def er1 Let_def esp_to_blackbox_error_map_def u32_add_small u32_sub_small)
  have r1: "buf_read (cells f2) ?wo n = Some bs"
    using overlay_read_same [OF w] len by (simp add: f2(3))
  have r2: "blank (cells f2) (?wo + n) (?e - (?wo + n))"
  proof -
    have "blank (cells f1) (?wo + n) (?e - (?wo + n))" by (rule blank_sub [OF blank1]) (use fits in simp_all)
    then show ?thesis using w len e fits l1 by (simp add: f2(3) blank_overlay)
  qed
  have r3: "buf_read (cells f2) i k = buf_read (cells ?f) i k" if "i + k \<le> ?a \<or> ?e \<le> i" for i k
  proof -
    have "buf_read (cells f2) i k = buf_read (cells f1) i k"
      unfolding f2(3) by (rule overlay_read_other [OF w]) (use that b fits len in linarith)
    also have "\<dots> = buf_read (cells ?f) i k"
      using c1 that b ae by (auto intro!: overlay_read_other)
    finally show ?thesis .
  qed
  have r4: "buf_read (cells f2) i k = (if last_erased_sector ?lg = int ?q then buf_read (cells ?f) i k
      else Some (replicate k 0xFF))" if "?a \<le> i \<and> i + k \<le> ?wo" for i k
  proof -
    have "buf_read (cells f2) i k = buf_read (cells f1) i k"
      unfolding f2(3) by (rule overlay_read_other [OF w]) (use that in linarith)
    moreover have "buf_read (overlay (cells ?f) ?a (replicate sector 0xFF)) i k = Some (replicate k 0xFF)"
    proof -
      have "buf_read (overlay (cells ?f) ?a (replicate sector 0xFF)) (?a + (i - ?a)) k
          = Some (take k (drop (i - ?a) (replicate sector 0xFF)))"
        by (rule buf_read_sub [OF overlay_read_same [of ?a "replicate sector 0xFF" "cells ?f", simplified]])
          (use ae in simp, use that b in linarith)
      moreover have "k \<le> sector - (i - ?a)" using that b by linarith
      then have "take k (drop (i - ?a) (replicate sector (0xFF :: byte))) = replicate k 0xFF"
        by (simp add: min_absorb1)
      moreover have "?a + (i - ?a) = i" using that by simp
      ultimately show ?thesis by simp
    qed
    ultimately show ?thesis using c1 by simp
  qed
  have "chunk_written sector (cells ?f) ?wo bs (last_erased_sector ?lg = int ?q) (cells f2)"
    unfolding chunk_written_def len using l1 r1 r2 r3 r4 w by (simp add: f2(3))
  with run f2(2) show ?thesis by blast
qed

end

section \<open>One iteration of the loop\<close>

text \<open>Where the replay offset goes when the write offset runs into it from behind.\<close>

definition replay_after :: "nat \<Rightarrow> nat \<Rightarrow> nat \<Rightarrow> nat \<Rightarrow> nat" where
  "replay_after sector psize wo ro =
     (if wo div sector = ro div sector \<and> wo < ro then (if psize \<le> sec_end sector wo then 0 else sec_end sector wo)
      else ro)"

definition next_start :: "nat \<Rightarrow> nat \<Rightarrow> nat \<Rightarrow> nat" where
  "next_start sector psize wo = (if psize \<le> sec_end sector wo then 0 else sec_end sector wo)"

text \<open>The loop's state in the middle of a flush: \<open>es\<close> is still to be written.\<close>

definition flush_inv :: "('f \<Rightarrow> bytes) \<Rightarrow> nat \<Rightarrow> nat \<Rightarrow> bytes \<Rightarrow> log_entry list \<Rightarrow> 'f flush_state \<Rightarrow> bool" where
  "flush_inv cells sector a batch es s \<longleftrightarrow> fs_err s = BLACKBOX_LOGGER_OK
     \<and> 0 < sector \<and> sector dvd length (cells (fs_flash s)) \<and> length (cells (fs_flash s)) < 2 ^ 31
     \<and> fs_write_offset s < length (cells (fs_flash s))
     \<and> alignment a \<and> laid_out a batch (fs_buffer_offset s) es \<and> fs_buffer_offset s \<le> length batch
     \<and> length batch < 2 ^ 31 \<and> fs_write_size s = entries_size a es"

lemma flush_inv_chunk_size:
  assumes "flush_inv cells sector a batch es s"
  shows "get_entries_chunk_size_with_ceiling_helper (Some (drop (fs_buffer_offset s) batch)) (fs_write_size s)
      (sec_end sector (fs_write_offset s) - fs_write_offset s) a
    = Some (entries_size a (fit a (sec_end sector (fs_write_offset s) - fs_write_offset s) es))"
proof -
  let ?c = "sec_end sector (fs_write_offset s) - fs_write_offset s"
  from assms have i: "0 < sector" "sector dvd length (cells (fs_flash s))" "length (cells (fs_flash s)) < 2 ^ 31"
    "fs_write_offset s < length (cells (fs_flash s))" "alignment a" "laid_out a batch (fs_buffer_offset s) es"
    "fs_buffer_offset s \<le> length batch" "length batch < 2 ^ 31" "fs_write_size s = entries_size a es"
    by (simp_all add: flush_inv_def)
  have c: "?c < 2 ^ 31" using sec_end_le [OF i(1,2,4)] i(3) by simp
  have l: "laid_out a (drop (fs_buffer_offset s) batch) 0 es" using laid_out_shift [OF i(7)] i(6) by simp
  have "length (drop (fs_buffer_offset s) batch) < 2 ^ 31" using i(8) by simp
  from chunk_size_loop_fit [OF l i(5) _ this _ c, of 0] i(9) show ?thesis
    by (simp add: get_entries_chunk_size_with_ceiling_helper_def)
qed

text \<open>The sector numbers and ends that an iteration computes, and its tail-biting step.\<close>

lemma flush_iteration_over:
  assumes "flush_inv cells sector a batch es s" and psize: "psize = length (cells (fs_flash s))"
  shows "flush_iteration True wr er batch sector psize a s =
    (let s1 = s\<lparr>fs_replay_offset := replay_after sector psize (fs_write_offset s) (fs_replay_offset s)\<rparr>;
         c = sec_end sector (fs_write_offset s) - fs_write_offset s;
         n = entries_size a (fit a c es)
     in do {
       s2 \<leftarrow> (if 0 < n then flush_chunk wr er batch sector n s1
             else if c < sector then Some (s1\<lparr>fs_write_offset := next_start sector psize (fs_write_offset s)\<rparr>)
             else Some (s1\<lparr>fs_err := BLACKBOX_LOGGER_ERR_NO_MEM\<rparr>));
       Some (if fs_err s2 = BLACKBOX_LOGGER_OK
             then s2\<lparr>fs_write_offset_old := write_offset (fs_logger s2),
                     fs_logger := (fs_logger s2)\<lparr>replay_offset := fs_replay_offset s2,
                                                write_offset := fs_write_offset s2\<rparr>\<rparr>
             else s2)
     })"
proof -
  from assms have i: "0 < sector" "sector dvd length (cells (fs_flash s))" "length (cells (fs_flash s)) < 2 ^ 31"
    "fs_write_offset s < length (cells (fs_flash s))" "fs_err s = BLACKBOX_LOGGER_OK"
    by (simp_all add: flush_inv_def)
  note u = sec_u32 [OF i(1,2,4,3)]
  let ?s1 = "s\<lparr>fs_replay_offset := replay_after sector psize (fs_write_offset s) (fs_replay_offset s)\<rparr>"
  have bite: "(if fs_write_offset s div sector = fs_replay_offset s div sector \<and> fs_write_offset s < fs_replay_offset s
      then s\<lparr>fs_replay_offset := (if psize \<le> u32_mul (u32_add (fs_replay_offset s div sector) 1) sector then 0
             else u32_mul (u32_add (fs_replay_offset s div sector) 1) sector)\<rparr>
      else s) = ?s1"
    using u(1) by (auto simp: replay_after_def)
  have size: "get_entries_chunk_size_with_ceiling_helper (Some (drop (fs_buffer_offset ?s1) batch)) (fs_write_size ?s1)
      (sec_end sector (fs_write_offset s) - fs_write_offset s) a
    = Some (entries_size a (fit a (sec_end sector (fs_write_offset s) - fs_write_offset s) es))"
    using flush_inv_chunk_size [OF assms(1)] by simp
  show ?thesis
    unfolding flush_iteration_def Let_def u if_True bite size next_start_def
    using i(5) by simp
qed

lemma laid_out_transfer:
  assumes "laid_out a mem off es" and "alignment a" and "off' + entries_size a es \<le> length mem'"
    and "\<And>j k. j + k \<le> entries_size a es \<Longrightarrow> buf_read mem' (off' + j) k = buf_read mem (off + j) k"
  shows "laid_out a mem' off' es"
  using assms
proof (induction a mem off es arbitrary: off' rule: laid_out.induct)
  case (2 a mem off i d es)
  let ?s = "entry_size a (length d)"
  have b: "18 + length d \<le> ?s" using entry_size_bounds [OF "2.prems"(2)] by blast
  have "buf_read mem' (off' + 0) (18 + length d) = buf_read mem (off + 0) (18 + length d)"
    by (rule "2.prems"(4)) (use b in simp)
  moreover have "laid_out a mem' (off' + ?s) es"
  proof (rule "2.IH")
    show "buf_read mem' (off' + ?s + j) k = buf_read mem (off + ?s + j) k" if "j + k \<le> entries_size a es" for j k
      using "2.prems"(4) [of "?s + j" k] that by (simp add: add.assoc)
  qed (use "2.prems" in \<open>auto simp: add.assoc\<close>)
  ultimately show ?case using "2.prems" by simp
qed simp

lemma laid_out_copy:
  assumes "laid_out a mem off es" and "alignment a"
    and "buf_read mem off (entries_size a es) = Some bs" "buf_read mem' off' (entries_size a es) = Some bs"
  shows "laid_out a mem' off' es"
proof (rule laid_out_transfer [OF assms(1,2)])
  show "off' + entries_size a es \<le> length mem'"
    using assms(4) by (auto simp: buf_read_def split: if_splits)
  show "buf_read mem' (off' + j) k = buf_read mem (off + j) k" if "j + k \<le> entries_size a es" for j k
    using buf_read_sub [OF assms(3) that] buf_read_sub [OF assms(4) that] by simp
qed

lemma entries_size_pos:
  assumes "alignment a" and "es \<noteq> []"
  shows "0 < entries_size a es"
proof (cases es)
  case (Cons e fs)
  obtain i d where "e = (i, d)" by (cases e)
  with Cons entry_size_bounds [OF assms(1), of "length d"] show ?thesis by simp
qed (use assms(2) in simp)

context flash_device
begin

lemma flush_iteration_write:
  assumes inv: "flush_inv cells sector a batch es s" and g: "good (fs_flash s)"
    and psize: "psize = length (cells (fs_flash s))"
    and pre: "pre = fit a (sec_end sector (fs_write_offset s) - fs_write_offset s) es" "pre \<noteq> []" "es = pre @ post"
    and ahead: "last_erased_sector (fs_logger s) = int (fs_write_offset s div sector) \<longrightarrow>
      blank (cells (fs_flash s)) (fs_write_offset s) (sec_end sector (fs_write_offset s) - fs_write_offset s)"
  shows "\<exists>f' bs. flush_iteration True wr er batch sector psize a s = Some (s\<lparr>
        fs_write_offset_old := write_offset (fs_logger s),
        fs_write_offset := fs_write_offset s + entries_size a pre,
        fs_replay_offset := replay_after sector psize (fs_write_offset s) (fs_replay_offset s),
        fs_buffer_offset := fs_buffer_offset s + entries_size a pre,
        fs_write_size := entries_size a post,
        fs_logger := (fs_logger s)\<lparr>last_erased_sector := int (fs_write_offset s div sector),
          replay_offset := replay_after sector psize (fs_write_offset s) (fs_replay_offset s),
          write_offset := fs_write_offset s + entries_size a pre\<rparr>,
        fs_flash := f'\<rparr>)
    \<and> good f' \<and> length bs = entries_size a pre \<and> laid_out a (cells f') (fs_write_offset s) pre
    \<and> chunk_written sector (cells (fs_flash s)) (fs_write_offset s) bs
        (last_erased_sector (fs_logger s) = int (fs_write_offset s div sector)) (cells f')"
proof -
  let ?wo = "fs_write_offset s" and ?n = "entries_size a pre"
  let ?s1 = "s\<lparr>fs_replay_offset := replay_after sector psize ?wo (fs_replay_offset s)\<rparr>"
  from inv have i: "0 < sector" "sector dvd length (cells (fs_flash s))" "?wo < length (cells (fs_flash s))"
    "alignment a" "laid_out a batch (fs_buffer_offset s) es" "fs_buffer_offset s \<le> length batch"
    "length batch < 2 ^ 31" "fs_write_size s = entries_size a es" "fs_err s = BLACKBOX_LOGGER_OK"
    by (simp_all add: flush_inv_def)
  have n: "0 < ?n" by (rule entries_size_pos [OF i(4) pre(2)])
  have tot: "fs_buffer_offset s + entries_size a es \<le> length batch"
    by (rule laid_out_length [OF i(5,6)])
  have es: "entries_size a es = ?n + entries_size a post" by (simp add: pre(3))
  have room: "?n \<le> sec_end sector ?wo - ?wo" using fit_size [of a "sec_end sector ?wo - ?wo" es] pre(1) by simp
  obtain bs where bs: "buf_read batch (fs_buffer_offset s) ?n = Some bs"
    using tot es by (simp add: buf_read_def)
  have "\<exists>f'. flush_chunk wr er batch sector ?n ?s1 = Some (?s1\<lparr>fs_flash := f',
        fs_logger := (fs_logger ?s1)\<lparr>last_erased_sector := int (fs_write_offset ?s1 div sector)\<rparr>,
        fs_write_offset := fs_write_offset ?s1 + ?n, fs_write_size := fs_write_size ?s1 - ?n,
        fs_buffer_offset := fs_buffer_offset ?s1 + ?n\<rparr>)
    \<and> good f' \<and> chunk_written sector (cells (fs_flash ?s1)) (fs_write_offset ?s1) bs
        (last_erased_sector (fs_logger ?s1) = int (fs_write_offset ?s1 div sector)) (cells f')"
    using g i bs n tot es room ahead sec_bounds [OF i(1), of ?wo]
    by (intro flush_chunk_ok) simp_all
  then obtain f' where f': "flush_chunk wr er batch sector ?n ?s1 = Some (?s1\<lparr>fs_flash := f',
        fs_logger := (fs_logger s)\<lparr>last_erased_sector := int (?wo div sector)\<rparr>,
        fs_write_offset := ?wo + ?n, fs_write_size := entries_size a post,
        fs_buffer_offset := fs_buffer_offset s + ?n\<rparr>)"
    "good f'" "chunk_written sector (cells (fs_flash s)) ?wo bs
        (last_erased_sector (fs_logger s) = int (?wo div sector)) (cells f')"
    using i(8) es by auto
  have len: "length bs = ?n" using bs by (rule buf_read_length)
  have "laid_out a batch (fs_buffer_offset s) pre" using i(5) by (simp add: pre(3) laid_out_append)
  moreover have "buf_read (cells f') ?wo ?n = Some bs" using f'(3) len by (simp add: chunk_written_def)
  ultimately have "laid_out a (cells f') ?wo pre" using laid_out_copy [OF _ i(4) bs] by blast
  moreover have "flush_iteration True wr er batch sector psize a s = Some (s\<lparr>
        fs_write_offset_old := write_offset (fs_logger s), fs_write_offset := ?wo + ?n,
        fs_replay_offset := replay_after sector psize ?wo (fs_replay_offset s),
        fs_buffer_offset := fs_buffer_offset s + ?n, fs_write_size := entries_size a post,
        fs_logger := (fs_logger s)\<lparr>last_erased_sector := int (?wo div sector),
          replay_offset := replay_after sector psize ?wo (fs_replay_offset s),
          write_offset := ?wo + ?n\<rparr>, fs_flash := f'\<rparr>)"
    unfolding flush_iteration_over [OF inv psize] Let_def pre(1) [symmetric] if_P [OF n] f'(1)
    using i(9) by simp
  ultimately show ?thesis using f' len by blast
qed

lemma flush_iteration_skip:
  assumes inv: "flush_inv cells sector a batch es s" and psize: "psize = length (cells (fs_flash s))"
    and none: "fit a (sec_end sector (fs_write_offset s) - fs_write_offset s) es = []"
    and part: "sec_end sector (fs_write_offset s) - fs_write_offset s < sector"
  shows "flush_iteration True wr er batch sector psize a s = Some (s\<lparr>
        fs_write_offset_old := write_offset (fs_logger s),
        fs_write_offset := next_start sector psize (fs_write_offset s),
        fs_replay_offset := replay_after sector psize (fs_write_offset s) (fs_replay_offset s),
        fs_logger := (fs_logger s)\<lparr>replay_offset := replay_after sector psize (fs_write_offset s) (fs_replay_offset s),
          write_offset := next_start sector psize (fs_write_offset s)\<rparr>\<rparr>)"
  unfolding flush_iteration_over [OF inv psize] Let_def none
  using part inv by (simp add: flush_inv_def)

end

section \<open>The whole flush\<close>

lemma fit_all: "entries_size a es \<le> c \<Longrightarrow> fit a c es = es"
  by (induction a c es rule: fit.induct) auto

lemma fit_rest: "es = fit a c es @ post \<Longrightarrow> fit a (c - entries_size a (fit a c es)) post = []"
proof (induction a c es rule: fit.induct)
  case (2 a c i d es)
  show ?case
  proof (cases "entry_size a (length d) \<le> c")
    case True
    with 2 show ?thesis by simp
  next
    case False
    with "2.prems" show ?thesis by (auto dest: sym)
  qed
qed simp

lemma same_sector:
  assumes "0 < sector" and "wo \<le> x" and "x < sec_end sector wo"
  shows "x div sector = wo div sector"
proof -
  have "wo div sector \<le> x div sector" by (rule div_le_mono [OF assms(2)])
  moreover have "x div sector < wo div sector + 1"
    using assms(1,3) by (simp add: less_mult_imp_div_less sec_end_def)
  ultimately show ?thesis by simp
qed

lemma sectors_disjoint:
  assumes "0 < sector" and "x div sector \<noteq> y div sector"
  shows "sec_end sector x \<le> sec_start sector y \<or> sec_end sector y \<le> sec_start sector x"
proof (cases "x div sector < y div sector")
  case True
  then have "x div sector + 1 \<le> y div sector" by simp
  then show ?thesis unfolding sec_end_def sec_start_def by (blast intro: mult_le_mono1)
next
  case False
  with assms(2) have "y div sector + 1 \<le> x div sector" by simp
  then show ?thesis unfolding sec_end_def sec_start_def by (blast intro: mult_le_mono1)
qed

lemma next_start_facts:
  assumes "0 < sector" and "sector dvd psize" and "2 * sector \<le> psize" and "wo < psize"
  shows "next_start sector psize wo < psize" "sector dvd next_start sector psize wo"
    "next_start sector psize wo div sector \<noteq> wo div sector"
    "sec_end sector (next_start sector psize wo) - next_start sector psize wo = sector"
proof -
  note b = sec_bounds [OF assms(1), of wo] and e = sec_end_le [OF assms(1,2,4)]
  show d: "sector dvd next_start sector psize wo" using b(5) by (simp add: next_start_def)
  show "next_start sector psize wo < psize" using assms by (auto simp: next_start_def)
  show "next_start sector psize wo div sector \<noteq> wo div sector"
  proof (cases "psize \<le> sec_end sector wo")
    case True
    then have "sector \<le> wo" using e b assms(3) by simp
    then have "0 < wo div sector" using assms(1) by (simp add: div_greater_zero_iff)
    with True show ?thesis by (simp add: next_start_def)
  next
    case False
    have "sec_end sector wo div sector = wo div sector + 1" using assms(1) by (simp add: sec_end_def)
    with False show ?thesis by (simp add: next_start_def)
  qed
  have "sec_start sector x = x" if "sector dvd x" for x using that by (simp add: sec_start_def)
  then show "sec_end sector (next_start sector psize wo) - next_start sector psize wo = sector"
    using sec_bounds(3) [OF assms(1), of "next_start sector psize wo"] d by simp
qed

lemma replay_after_again:
  assumes "0 < sector" and "sector dvd psize" and "2 * sector \<le> psize" and "wo < psize"
    and "x div sector = wo div sector" and "wo \<le> x"
  shows "replay_after sector psize x (replay_after sector psize wo ro) = replay_after sector psize wo ro"
proof (cases "wo div sector = ro div sector \<and> wo < ro")
  case True
  have "replay_after sector psize wo ro = next_start sector psize wo"
    using True by (simp add: replay_after_def next_start_def)
  moreover have "replay_after sector psize x (next_start sector psize wo) = next_start sector psize wo"
    using next_start_facts(3) [OF assms(1-4)] assms(5) by (simp add: replay_after_def)
  ultimately show ?thesis by simp
next
  case False
  then show ?thesis using assms(5,6) by (auto simp: replay_after_def)
qed

definition flush_start :: "'f blackbox_logger \<Rightarrow> 'f \<Rightarrow> 'f flush_state" where
  "flush_start lg f = \<lparr>fs_write_offset_old = write_offset lg, fs_write_offset = write_offset lg,
     fs_replay_offset = replay_offset lg, fs_buffer_offset = 0, fs_write_size = batch_len lg,
     fs_err = BLACKBOX_LOGGER_OK, fs_logger = lg, fs_flash = f\<rparr>"

lemma flush_unfold:
  assumes "config_ok rd wr er sector psize c" and "config_ptr lg = Some c" and "write_lock lg" and "0 < batch_len lg"
  shows "blackbox_logger_flush over_old True lg f = do {
    s \<leftarrow> flush_loop over_old wr er (the (batch_buf c)) sector psize (address_align c) (flush_start lg f);
    flush_finish c (the (batch_buf c)) s }"
proof -
  obtain b where "batch_buf c = Some b" using assms(1) by (auto simp: config_ok_def)
  with assms show ?thesis
    by (simp add: blackbox_logger_flush_def config_ok_def flush_start_def)
qed

lemma flush_inv_start:
  assumes "config_ok rd wr er sector (length (cells f)) c" and "batch_holds c lg es" and "write_offset lg < length (cells f)"
  shows "flush_inv cells sector (address_align c) (the (batch_buf c)) es (flush_start lg f)"
  using assms by (auto simp: flush_inv_def flush_start_def config_ok_def batch_holds_def)

text \<open>What the logger looks like after a complete flush whose last chunk went to \<open>p\<close>.\<close>

definition flushed ::
    "'f blackbox_logger_config \<Rightarrow> 'f blackbox_logger \<Rightarrow> nat \<Rightarrow> nat \<Rightarrow> nat \<Rightarrow> nat \<Rightarrow> 'f blackbox_logger" where
  "flushed c lg sector p ro wo = lg\<lparr>config_ptr := Some (c\<lparr>parameters := \<lparr>param_write_offset = p,
       param_replay_offset = ro, param_last_id = last_id lg, param_is_dirty = True\<rparr>\<rparr>),
     write_offset := wo, replay_offset := ro, last_erased_sector := int (p div sector), batch_len := 0\<rparr>"

lemma flush_finish_all:
  assumes "fs_write_size s = 0" and "fs_buffer_offset s = batch_len lg" and "fs_err s = BLACKBOX_LOGGER_OK"
    and "fs_logger s = lg\<lparr>last_erased_sector := int (p div sector), replay_offset := r0, write_offset := w0\<rparr>"
    and "fs_write_offset_old s = p" and "0 < batch_len lg" "batch_len lg < 2 ^ 31"
    and "config_ptr lg = Some c" and "batch_buf c = Some batch"
  shows "flush_finish c batch s = Some (BLACKBOX_LOGGER_OK,
      flushed c lg sector p (fs_replay_offset s) (fs_write_offset s), fs_flash s, on_replay_available_func c)"
  using assms by (simp add: flush_finish_def update_parameters_internal_def u32_sub_small flushed_def Let_def)

context flash_device
begin

lemma flush_one_chunk:
  assumes ok: "config_ok rd wr er sector (length (cells f)) c" and cp: "config_ptr lg = Some c"
    and wl: "write_lock lg" and g: "good f"
    and bh: "batch_holds c lg es" and ne: "es \<noteq> []" and wo: "write_offset lg < length (cells f)"
    and ahead: "erased_ahead sector (cells f) lg"
    and fits: "entries_size (address_align c) es \<le> sec_end sector (write_offset lg) - write_offset lg"
  shows "\<exists>f' bs. blackbox_logger_flush True True lg f = Some (BLACKBOX_LOGGER_OK,
      flushed c lg sector (write_offset lg)
        (replay_after sector (length (cells f)) (write_offset lg) (replay_offset lg)) (write_offset lg + batch_len lg),
      f', on_replay_available_func c)
    \<and> good f' \<and> length bs = batch_len lg \<and> laid_out (address_align c) (cells f') (write_offset lg) es
    \<and> chunk_written sector (cells f) (write_offset lg) bs
        (last_erased_sector lg = int (write_offset lg div sector)) (cells f')"
proof -
  let ?a = "address_align c" and ?s = "flush_start lg f"
  have inv: "flush_inv cells sector ?a (the (batch_buf c)) es ?s" by (rule flush_inv_start [where cells = cells and f = f, OF ok bh wo])
  have al: "alignment ?a" using ok by (simp add: config_ok_def)
  have len: "batch_len lg = entries_size ?a es" using bh by (simp add: batch_holds_def)
  have pos: "0 < batch_len lg" using entries_size_pos [OF al ne] len by simp
  have small: "batch_len lg < 2 ^ 31" using ok bh by (auto simp: config_ok_def batch_holds_def)
  obtain b where b: "batch_buf c = Some b" using ok by (auto simp: config_ok_def)
  have f: "fs_write_offset ?s = write_offset lg" "fs_logger ?s = lg" "fs_flash ?s = f" "fs_buffer_offset ?s = 0"
    "fs_replay_offset ?s = replay_offset lg" "fs_err ?s = BLACKBOX_LOGGER_OK"
    by (simp_all add: flush_start_def)
  have "\<exists>f' bs. flush_iteration True wr er (the (batch_buf c)) sector (length (cells f)) ?a ?s = Some (?s\<lparr>
        fs_write_offset_old := write_offset (fs_logger ?s),
        fs_write_offset := fs_write_offset ?s + entries_size ?a es,
        fs_replay_offset := replay_after sector (length (cells f)) (fs_write_offset ?s) (fs_replay_offset ?s),
        fs_buffer_offset := fs_buffer_offset ?s + entries_size ?a es,
        fs_write_size := entries_size ?a [],
        fs_logger := (fs_logger ?s)\<lparr>last_erased_sector := int (fs_write_offset ?s div sector),
          replay_offset := replay_after sector (length (cells f)) (fs_write_offset ?s) (fs_replay_offset ?s),
          write_offset := fs_write_offset ?s + entries_size ?a es\<rparr>, fs_flash := f'\<rparr>)
    \<and> good f' \<and> length bs = entries_size ?a es \<and> laid_out ?a (cells f') (fs_write_offset ?s) es
    \<and> chunk_written sector (cells (fs_flash ?s)) (fs_write_offset ?s) bs
        (last_erased_sector (fs_logger ?s) = int (fs_write_offset ?s div sector)) (cells f')"
    by (rule flush_iteration_write [OF inv]) (use f g ne fits ahead wo in \<open>simp_all add: fit_all erased_ahead_def\<close>)
  then obtain f' bs where it: "flush_iteration True wr er b sector (length (cells f)) ?a ?s = Some (?s\<lparr>
        fs_write_offset_old := write_offset lg, fs_write_offset := write_offset lg + batch_len lg,
        fs_replay_offset := replay_after sector (length (cells f)) (write_offset lg) (replay_offset lg),
        fs_buffer_offset := batch_len lg, fs_write_size := 0,
        fs_logger := lg\<lparr>last_erased_sector := int (write_offset lg div sector),
          replay_offset := replay_after sector (length (cells f)) (write_offset lg) (replay_offset lg),
          write_offset := write_offset lg + batch_len lg\<rparr>, fs_flash := f'\<rparr>)"
    "good f'" "length bs = batch_len lg" "laid_out ?a (cells f') (write_offset lg) es"
    "chunk_written sector (cells f) (write_offset lg) bs
        (last_erased_sector lg = int (write_offset lg div sector)) (cells f')"
    unfolding f by (auto simp: len b)
  have "blackbox_logger_flush True True lg f = Some (BLACKBOX_LOGGER_OK,
      flushed c lg sector (write_offset lg)
        (replay_after sector (length (cells f)) (write_offset lg) (replay_offset lg)) (write_offset lg + batch_len lg),
      f', on_replay_available_func c)"
    unfolding flush_unfold [OF ok cp wl pos]
    by (subst flush_loop.simps) (simp add: b it(1) flush_finish_all [OF _ _ _ _ _ pos small cp b] f(6))
  with it show ?thesis by blast
qed

text \<open>
  When the batch does not fit into the rest of the sector, the loop gets to the next sector with
  the entries that did not fit, unless those that did filled the partition's last sector exactly.
\<close>

lemma flush_to_next_sector:
  assumes inv: "flush_inv cells sector a batch es s" and g: "good (fs_flash s)"
    and psize: "psize = length (cells (fs_flash s))" and dims: "2 * sector \<le> psize"
    and s: "fs_logger s = lg" "fs_write_offset s = wo" "write_offset lg = wo"
    and pre: "pre = fit a (sec_end sector wo - wo) es" "es = pre @ post" "post \<noteq> []"
    and size: "entries_size a es \<le> sector"
    and stuck: "wo + entries_size a pre \<noteq> psize"
    and ahead: "last_erased_sector lg = int (wo div sector) \<longrightarrow>
      blank (cells (fs_flash s)) wo (sec_end sector wo - wo)"
  shows "\<exists>x f1 bs. flush_loop True wr er batch sector psize a s = flush_loop True wr er batch sector psize a (s\<lparr>
        fs_write_offset_old := x, fs_write_offset := next_start sector psize wo,
        fs_replay_offset := replay_after sector psize wo (fs_replay_offset s),
        fs_buffer_offset := fs_buffer_offset s + entries_size a pre, fs_write_size := entries_size a post,
        fs_logger := lg\<lparr>last_erased_sector := if pre = [] then last_erased_sector lg else int (wo div sector),
          replay_offset := replay_after sector psize wo (fs_replay_offset s), write_offset := next_start sector psize wo\<rparr>,
        fs_flash := f1\<rparr>)
    \<and> good f1 \<and> length bs = entries_size a pre \<and> laid_out a (cells f1) wo pre
    \<and> (if pre = [] then f1 = fs_flash s
       else chunk_written sector (cells (fs_flash s)) wo bs (last_erased_sector lg = int (wo div sector)) (cells f1))"
proof -
  let ?c = "sec_end sector wo - wo" and ?n = "entries_size a pre"
  from inv have i: "0 < sector" "sector dvd psize" "wo < psize" "alignment a" "fs_err s = BLACKBOX_LOGGER_OK"
    "laid_out a batch (fs_buffer_offset s) es" "fs_buffer_offset s \<le> length batch" "length batch < 2 ^ 31"
    "fs_write_size s = entries_size a es" "psize < 2 ^ 31"
    by (simp_all add: flush_inv_def psize s(2))
  have es: "es \<noteq> []" using pre(2,3) by simp
  have post: "0 < entries_size a post" by (rule entries_size_pos [OF i(4) pre(3)])
  have tot: "entries_size a es = ?n + entries_size a post" by (simp add: pre(2))
  have room: "?n \<le> ?c" using fit_size [of a ?c es] pre(1) by simp
  have "es = fit a ?c es @ post" by (subst pre(1) [symmetric]) (rule pre(2))
  then have rest: "fit a (?c - ?n) post = []" unfolding pre(1) by (rule fit_rest)
  note b = sec_bounds [OF i(1), of wo] and e = sec_end_le [OF i(1,2,3)]
  show ?thesis
  proof (cases "pre = []")
    case True
    have "?c < sector"
    proof (rule ccontr)
      assume "\<not> ?c < sector"
      then have "fit a ?c es = es" using size by (intro fit_all) simp
      with True pre(1) es show False by simp
    qed
    from flush_iteration_skip [OF inv psize] True pre(1) s this
    have "flush_iteration True wr er batch sector psize a s = Some (s\<lparr>fs_write_offset_old := wo,
        fs_write_offset := next_start sector psize wo,
        fs_replay_offset := replay_after sector psize wo (fs_replay_offset s),
        fs_logger := lg\<lparr>replay_offset := replay_after sector psize wo (fs_replay_offset s),
          write_offset := next_start sector psize wo\<rparr>\<rparr>)" by simp
    then have "flush_loop True wr er batch sector psize a s = flush_loop True wr er batch sector psize a (s\<lparr>
        fs_write_offset_old := wo, fs_write_offset := next_start sector psize wo,
        fs_replay_offset := replay_after sector psize wo (fs_replay_offset s),
        fs_logger := lg\<lparr>replay_offset := replay_after sector psize wo (fs_replay_offset s),
          write_offset := next_start sector psize wo\<rparr>\<rparr>)"
      using True tot post i(5,9) by (subst flush_loop.simps) simp
    moreover have "s\<lparr>fs_write_offset_old := wo, fs_write_offset := next_start sector psize wo,
        fs_replay_offset := replay_after sector psize wo (fs_replay_offset s),
        fs_logger := lg\<lparr>replay_offset := replay_after sector psize wo (fs_replay_offset s),
          write_offset := next_start sector psize wo\<rparr>\<rparr> = s\<lparr>
        fs_write_offset_old := wo, fs_write_offset := next_start sector psize wo,
        fs_replay_offset := replay_after sector psize wo (fs_replay_offset s),
        fs_buffer_offset := fs_buffer_offset s + entries_size a pre, fs_write_size := entries_size a post,
        fs_logger := lg\<lparr>last_erased_sector := if pre = [] then last_erased_sector lg else int (wo div sector),
          replay_offset := replay_after sector psize wo (fs_replay_offset s), write_offset := next_start sector psize wo\<rparr>,
        fs_flash := fs_flash s\<rparr>"
      using True tot i(9) by (cases s, cases lg) simp
    ultimately show ?thesis using True g
      by (intro exI [of _ wo] exI [of _ "fs_flash s"] exI [of _ "[]"]) simp
  next
    case False
    obtain f1 bs where it: "flush_iteration True wr er batch sector psize a s = Some (s\<lparr>
        fs_write_offset_old := wo, fs_write_offset := wo + ?n,
        fs_replay_offset := replay_after sector psize wo (fs_replay_offset s),
        fs_buffer_offset := fs_buffer_offset s + ?n, fs_write_size := entries_size a post,
        fs_logger := lg\<lparr>last_erased_sector := int (wo div sector),
          replay_offset := replay_after sector psize wo (fs_replay_offset s), write_offset := wo + ?n\<rparr>,
        fs_flash := f1\<rparr>)" (is "_ = Some ?s1")
      and f1: "good f1" "length bs = ?n" "laid_out a (cells f1) wo pre"
      "chunk_written sector (cells (fs_flash s)) wo bs (last_erased_sector lg = int (wo div sector)) (cells f1)"
      using flush_iteration_write [OF inv g psize _ False pre(2)] pre(1) ahead s by auto
    have loop: "flush_loop True wr er batch sector psize a s = flush_loop True wr er batch sector psize a ?s1"
      using it post i(5) by (subst flush_loop.simps) simp
    have l1: "length (cells f1) = psize" using f1(4) by (simp add: chunk_written_def psize)
    show ?thesis
    proof (cases "wo + ?n = sec_end sector wo")
      case True
      with stuck e have "next_start sector psize wo = wo + ?n" by (simp add: next_start_def)
      with loop f1 False show ?thesis by (intro exI [of _ wo] exI [of _ f1] exI [of _ bs]) simp
    next
      case neq: False
      have n: "0 < ?n" by (rule entries_size_pos [OF i(4) False])
      have lt: "wo + ?n < sec_end sector wo" using neq room b by simp
      have same: "(wo + ?n) div sector = wo div sector" by (rule same_sector [OF i(1) _ lt]) simp
      then have se: "sec_end sector (wo + ?n) = sec_end sector wo" by (simp add: sec_end_def)
      have inv1: "flush_inv cells sector a batch post ?s1"
        using i l1 lt e pre(2) laid_out_length [OF i(6,7)] tot by (simp add: flush_inv_def laid_out_append)
      have ns: "next_start sector psize (wo + ?n) = next_start sector psize wo" by (simp add: next_start_def se)
      have ra: "replay_after sector psize (wo + ?n) (replay_after sector psize wo (fs_replay_offset s))
          = replay_after sector psize wo (fs_replay_offset s)"
        by (rule replay_after_again [OF i(1,2) dims i(3) same]) simp
      have "flush_iteration True wr er batch sector psize a ?s1 = Some (?s1\<lparr>fs_write_offset_old := wo + ?n,
          fs_write_offset := next_start sector psize wo,
          fs_logger := (fs_logger ?s1)\<lparr>write_offset := next_start sector psize wo\<rparr>\<rparr>)"
        using flush_iteration_skip [OF inv1, of psize] rest se l1 n lt b ns ra by simp
      then have step: "flush_loop True wr er batch sector psize a ?s1 = flush_loop True wr er batch sector psize a
          (?s1\<lparr>fs_write_offset_old := wo + ?n, fs_write_offset := next_start sector psize wo,
            fs_logger := (fs_logger ?s1)\<lparr>write_offset := next_start sector psize wo\<rparr>\<rparr>)"
        using post i(5) by (subst flush_loop.simps) simp
      have eq: "?s1\<lparr>fs_write_offset_old := wo + ?n, fs_write_offset := next_start sector psize wo,
          fs_logger := (fs_logger ?s1)\<lparr>write_offset := next_start sector psize wo\<rparr>\<rparr> = s\<lparr>
          fs_write_offset_old := wo + ?n, fs_write_offset := next_start sector psize wo,
          fs_replay_offset := replay_after sector psize wo (fs_replay_offset s),
          fs_buffer_offset := fs_buffer_offset s + ?n, fs_write_size := entries_size a post,
          fs_logger := lg\<lparr>last_erased_sector := if pre = [] then last_erased_sector lg else int (wo div sector),
            replay_offset := replay_after sector psize wo (fs_replay_offset s), write_offset := next_start sector psize wo\<rparr>,
          fs_flash := f1\<rparr>"
        using False by (cases s, cases lg) simp
      show ?thesis
        by (rule exI [of _ "wo + ?n"], rule exI [of _ f1], rule exI [of _ bs])
          (use f1 False in \<open>simp only: loop step eq if_False simp_thms\<close>)
    qed
  qed
qed

lemma flush_two_chunks:
  assumes ok: "config_ok rd wr er sector (length (cells f)) c" and cp: "config_ptr lg = Some c"
    and wl: "write_lock lg" and g: "good f"
    and bh: "batch_holds c lg es" and wo: "write_offset lg < length (cells f)"
    and ahead: "erased_ahead sector (cells f) lg"
    and pre: "pre = fit (address_align c) (sec_end sector (write_offset lg) - write_offset lg) es"
      "es = pre @ post" "post \<noteq> []"
    and stuck: "write_offset lg + entries_size (address_align c) pre \<noteq> length (cells f)"
    and p: "p = next_start sector (length (cells f)) (write_offset lg)"
  shows "\<exists>f1 f2 bs1 bs2. blackbox_logger_flush True True lg f = Some (BLACKBOX_LOGGER_OK,
      flushed c lg sector p (replay_after sector (length (cells f)) p
        (replay_after sector (length (cells f)) (write_offset lg) (replay_offset lg)))
        (p + entries_size (address_align c) post), f2, on_replay_available_func c)
    \<and> good f2 \<and> length bs1 = entries_size (address_align c) pre \<and> length bs2 = entries_size (address_align c) post
    \<and> laid_out (address_align c) (cells f2) (write_offset lg) pre \<and> laid_out (address_align c) (cells f2) p post
    \<and> (if pre = [] then f1 = f
       else chunk_written sector (cells f) (write_offset lg) bs1
         (last_erased_sector lg = int (write_offset lg div sector)) (cells f1))
    \<and> chunk_written sector (cells f1) p bs2 False (cells f2)"
proof -
  let ?a = "address_align c" and ?b = "the (batch_buf c)" and ?s = "flush_start lg f" and ?wo = "write_offset lg"
    and ?psize = "length (cells f)"
  have k: "0 < sector" "sector dvd ?psize" "2 * sector \<le> ?psize" "alignment ?a" "batch_buf_size c \<le> sector"
    "?psize < 2 ^ 31" "length ?b = batch_buf_size c"
    using ok by (simp_all add: config_ok_def)
  obtain b where b: "batch_buf c = Some b" using ok by (auto simp: config_ok_def)
  have len: "batch_len lg = entries_size ?a es" "batch_len lg \<le> batch_buf_size c" "laid_out ?a ?b 0 es"
    using bh by (simp_all add: batch_holds_def)
  have es: "es \<noteq> []" using pre(2,3) by simp
  have pos: "0 < batch_len lg" using entries_size_pos [OF k(4) es] len by simp
  have small: "batch_len lg < 2 ^ 31" using len(2) k(3,5,6) by simp
  have size: "entries_size ?a es \<le> sector" using len k(5) by simp
  have tot: "entries_size ?a es = entries_size ?a pre + entries_size ?a post" by (simp add: pre(2))
  have inv: "flush_inv cells sector ?a ?b es ?s" by (rule flush_inv_start [where cells = cells and f = f, OF ok bh wo])
  have f: "fs_write_offset ?s = ?wo" "fs_logger ?s = lg" "fs_flash ?s = f" "fs_buffer_offset ?s = 0"
    "fs_replay_offset ?s = replay_offset lg" "fs_err ?s = BLACKBOX_LOGGER_OK"
    by (simp_all add: flush_start_def)
  let ?r1 = "replay_after sector ?psize ?wo (replay_offset lg)"
  let ?le = "if pre = [] then last_erased_sector lg else int (?wo div sector)"
  have g': "good (fs_flash ?s)" and psz: "?psize = length (cells (fs_flash ?s))"
    and ahead': "last_erased_sector lg = int (?wo div sector) \<longrightarrow>
      blank (cells (fs_flash ?s)) ?wo (sec_end sector ?wo - ?wo)"
    using f g ahead wo by (simp_all add: erased_ahead_def)
  have "\<exists>x f1 bs1. flush_loop True wr er ?b sector ?psize ?a ?s = flush_loop True wr er ?b sector ?psize ?a (?s\<lparr>
        fs_write_offset_old := x, fs_write_offset := next_start sector ?psize ?wo,
        fs_replay_offset := replay_after sector ?psize ?wo (fs_replay_offset ?s),
        fs_buffer_offset := fs_buffer_offset ?s + entries_size ?a pre, fs_write_size := entries_size ?a post,
        fs_logger := lg\<lparr>last_erased_sector := ?le,
          replay_offset := replay_after sector ?psize ?wo (fs_replay_offset ?s), write_offset := next_start sector ?psize ?wo\<rparr>,
        fs_flash := f1\<rparr>)
    \<and> good f1 \<and> length bs1 = entries_size ?a pre \<and> laid_out ?a (cells f1) ?wo pre
    \<and> (if pre = [] then f1 = fs_flash ?s
       else chunk_written sector (cells (fs_flash ?s)) ?wo bs1 (last_erased_sector lg = int (?wo div sector)) (cells f1))"
    by (rule flush_to_next_sector [OF inv g' psz k(3) f(2,1) refl pre size stuck ahead'])
  then obtain x f1 bs1 where loop: "flush_loop True wr er ?b sector ?psize ?a ?s = flush_loop True wr er ?b sector ?psize ?a
        (?s\<lparr>fs_write_offset_old := x, fs_write_offset := p, fs_replay_offset := ?r1,
        fs_buffer_offset := entries_size ?a pre, fs_write_size := entries_size ?a post,
        fs_logger := lg\<lparr>last_erased_sector := ?le, replay_offset := ?r1, write_offset := p\<rparr>,
        fs_flash := f1\<rparr>)" (is "_ = flush_loop _ _ _ _ _ _ _ ?s1")
    and f1: "good f1" "length bs1 = entries_size ?a pre" "laid_out ?a (cells f1) ?wo pre"
    "if pre = [] then f1 = f
       else chunk_written sector (cells f) ?wo bs1 (last_erased_sector lg = int (?wo div sector)) (cells f1)"
    unfolding f p by auto
  have l1: "length (cells f1) = ?psize" using f1(4) by (auto simp: chunk_written_def split: if_splits)
  note ns = next_start_facts [OF k(1-3) wo, folded p]
  have room: "fit ?a (sec_end sector p - p) post = post" using size tot ns(4) by (intro fit_all) simp
  have le: "?le \<noteq> int (p div sector)"
  proof -
    have "\<not> sector dvd ?wo" if "pre = []"
    proof
      assume "sector dvd ?wo"
      then have "sec_end sector ?wo - ?wo = sector"
        using sec_bounds(3) [OF k(1), of ?wo] by (simp add: sec_start_def)
      then have "fit ?a (sec_end sector ?wo - ?wo) es = es" using size by (intro fit_all) simp
      with that pre(1) es show False by simp
    qed
    with ahead ns(3) show ?thesis by (auto simp: erased_ahead_def)
  qed
  have inv1: "flush_inv cells sector ?a ?b post ?s1"
    using k l1 ns(1) len tot pre(2) f(6) by (simp add: flush_inv_def laid_out_append)
  have "\<exists>f2 bs2. flush_iteration True wr er ?b sector ?psize ?a ?s1 = Some (?s1\<lparr>
        fs_write_offset_old := write_offset (fs_logger ?s1),
        fs_write_offset := fs_write_offset ?s1 + entries_size ?a post,
        fs_replay_offset := replay_after sector ?psize (fs_write_offset ?s1) (fs_replay_offset ?s1),
        fs_buffer_offset := fs_buffer_offset ?s1 + entries_size ?a post,
        fs_write_size := entries_size ?a [],
        fs_logger := (fs_logger ?s1)\<lparr>last_erased_sector := int (fs_write_offset ?s1 div sector),
          replay_offset := replay_after sector ?psize (fs_write_offset ?s1) (fs_replay_offset ?s1),
          write_offset := fs_write_offset ?s1 + entries_size ?a post\<rparr>, fs_flash := f2\<rparr>)
    \<and> good f2 \<and> length bs2 = entries_size ?a post \<and> laid_out ?a (cells f2) (fs_write_offset ?s1) post
    \<and> chunk_written sector (cells (fs_flash ?s1)) (fs_write_offset ?s1) bs2
        (last_erased_sector (fs_logger ?s1) = int (fs_write_offset ?s1 div sector)) (cells f2)"
    by (rule flush_iteration_write [OF inv1]) (use f1(1) l1 room pre(3) le in simp_all)
  then obtain f2 bs2 where it: "flush_iteration True wr er ?b sector ?psize ?a ?s1 = Some (?s1\<lparr>
        fs_write_offset_old := p, fs_write_offset := p + entries_size ?a post,
        fs_replay_offset := replay_after sector ?psize p ?r1,
        fs_buffer_offset := batch_len lg, fs_write_size := 0,
        fs_logger := (fs_logger ?s1)\<lparr>last_erased_sector := int (p div sector),
          replay_offset := replay_after sector ?psize p ?r1, write_offset := p + entries_size ?a post\<rparr>, fs_flash := f2\<rparr>)"
    (is "_ = Some ?s2")
    "good f2" "length bs2 = entries_size ?a post" "laid_out ?a (cells f2) p post"
    "chunk_written sector (cells f1) p bs2 False (cells f2)"
    using le len(1) tot by auto
  have "flush_loop True wr er ?b sector ?psize ?a ?s1 = Some ?s2"
    using it(1) by (subst flush_loop.simps) simp
  then have run: "blackbox_logger_flush True True lg f = flush_finish c ?b ?s2"
    unfolding flush_unfold [OF ok cp wl pos] loop by simp
  have "flush_finish c ?b ?s2 = Some (BLACKBOX_LOGGER_OK,
      flushed c lg sector p (fs_replay_offset ?s2) (fs_write_offset ?s2), fs_flash ?s2, on_replay_available_func c)"
    by (rule flush_finish_all [OF _ _ _ _ _ pos small cp]) (use b f(6) in simp_all)
  then have fin: "blackbox_logger_flush True True lg f = Some (BLACKBOX_LOGGER_OK,
      flushed c lg sector p (replay_after sector ?psize p ?r1) (p + entries_size ?a post), f2, on_replay_available_func c)"
    unfolding run by simp
  have "laid_out ?a (cells f2) ?wo pre"
  proof (rule laid_out_cong [OF f1(3) k(4)])
    show "length (cells f2) = length (cells f1)" using it(5) by (simp add: chunk_written_def)
    fix i n assume span: "?wo \<le> i" "i + n \<le> ?wo + entries_size ?a pre"
    have "entries_size ?a pre \<le> sec_end sector ?wo - ?wo" unfolding pre(1) by (rule fit_size)
    then have "i + n \<le> sec_end sector ?wo" "sec_start sector ?wo \<le> i"
      using span sec_bounds [OF k(1), of ?wo] by linarith+
    then have "i + n \<le> sec_start sector p \<or> sec_end sector p \<le> i"
      using sectors_disjoint [OF k(1) ns(3)] by linarith
    then show "buf_read (cells f2) i n = buf_read (cells f1) i n" by (rule chunk_written_other [OF it(5)])
  qed
  with fin it f1 show ?thesis by blast
qed

end

section \<open>Writing to the batch\<close>

text \<open>The entry view of a payload.\<close>

definition view_of :: "bytes \<Rightarrow> blackbox_logger_entry_view" where
  "view_of d = \<lparr>data_ptr = Some d, view_length = length d\<rparr>"

lemma batch_append_image:
  assumes "len + 18 + length d \<le> length b"
  shows "batch_append b len i d (length d) = Some (overlay b len (entry_image i d))"
proof -
  let ?h = "header_image \<lparr>header_magic = BLACKBOX_LOGGER_HEADER_MAGIC, entry_id = i, entry_length = length d\<rparr>"
  let ?t = "\<lambda>c. tail_image \<lparr>tail_crc = c, tail_magic = BLACKBOX_LOGGER_TAIL_MAGIC\<rparr>"
  let ?b1 = "take len b @ ?h @ drop (len + 12) b"
  let ?b2 = "take len b @ ?h @ d @ drop (len + 12 + length d) b"
  let ?c = "calculate_modbus_crc16_lut (?h @ d)"
  have 1: "buf_write b len ?h = Some ?b1" using assms by (simp add: buf_write_ok)
  have 2: "buf_write ?b1 (len + 12) d = Some ?b2" using assms by (simp add: buf_write_ok ac_simps)
  have 3: "calculate_modbus_crc16 (drop len ?b2) (12 + length d) = Some ?c"
    using assms by (simp add: calculate_modbus_crc16_def buf_read_ok)
  have 4: "buf_write ?b2 (len + 12 + length d) (?t ?c) = Some (take len b @ ?h @ d @ ?t ?c @ drop (len + 18 + length d) b)"
    using assms by (simp add: buf_write_ok ac_simps)
  have "entry_image i d = ?h @ d @ ?t ?c" by (simp add: entry_image_def Let_def)
  with 1 2 3 4 show ?thesis
    by (simp add: batch_append_def buf_read_ok overlay_def add.commute add.left_commute)
qed

lemma write_appends:
  assumes ok: "config_ok rd wr er sector psize c" and cp: "config_ptr lg = Some c" and wl: "write_lock lg"
    and tm: "flush_timer lg \<noteq> None" and bh: "batch_holds c lg es" and d: "d \<noteq> []"
    and fits: "batch_len lg + entry_size (address_align c) (length d) \<le> batch_buf_size c"
    and c': "c' = c\<lparr>batch_buf := Some (overlay (the (batch_buf c)) (batch_len lg) (entry_image (u32_add (last_id lg) 1) d))\<rparr>"
    and lg': "lg' = lg\<lparr>config_ptr := Some c', batch_len := batch_len lg + entry_size (address_align c) (length d),
      last_id := u32_add (last_id lg) 1, flush_timer := Some True\<rparr>"
  shows "blackbox_logger_write over_old got_flush_lock True lg (Some (view_of d)) f = Some (BLACKBOX_LOGGER_OK, lg', f, False)"
    and "batch_holds c' lg' (es @ [(u32_add (last_id lg) 1, d)])" and "config_ok rd wr er sector psize c'"
proof -
  let ?a = "address_align c" and ?i = "u32_add (last_id lg) 1"
  obtain b where b: "batch_buf c = Some b" using ok by (auto simp: config_ok_def)
  have k: "alignment ?a" "length b = batch_buf_size c" "batch_buf_size c < 2 ^ 31"
    using ok b by (auto simp: config_ok_def)
  have es: "18 + length d \<le> entry_size ?a (length d)" using entry_size_bounds [OF k(1)] by blast
  have room: "batch_len lg + 18 + length d \<le> length b" using fits es k(2) by simp
  have sz: "entry_total_aligned_size_helper (length d) ?a = entry_size ?a (length d)"
    using room k by (intro entry_total_aligned_size_eq) simp_all
  have add: "u32_add (batch_len lg) (entry_size ?a (length d)) = batch_len lg + entry_size ?a (length d)"
    using fits k(3) by (intro u32_add_small) simp
  show "blackbox_logger_write over_old got_flush_lock True lg (Some (view_of d)) f = Some (BLACKBOX_LOGGER_OK, lg', f, False)"
    using cp b wl tm d fits sz add batch_append_image [OF room, of ?i]
    by (simp add: blackbox_logger_write_def view_of_def c' lg')
  let ?b' = "overlay b (batch_len lg) (entry_image ?i d)"
  have w: "batch_len lg + length (entry_image ?i d) \<le> length b" using room by simp
  have old: "laid_out ?a b 0 es" "batch_len lg = entries_size ?a es" using bh b by (simp_all add: batch_holds_def)
  have "laid_out ?a ?b' 0 es"
    by (rule laid_out_cong [OF old(1) k(1)]) (use w old(2) in \<open>auto intro!: overlay_read_other\<close>)
  moreover have "buf_read ?b' (batch_len lg) (18 + length d) = Some (entry_image ?i d)"
    using overlay_read_same [OF w] by simp
  ultimately show "batch_holds c' lg' (es @ [(?i, d)])"
    using old(2) w fits k(2) b bh by (simp add: batch_holds_def c' lg' laid_out_append)
  show "config_ok rd wr er sector psize c'" using ok w b by (simp add: config_ok_def c')
qed

section \<open>The logger's invariant\<close>

text \<open>
  A logger that was set up, with the entries \<open>es\<close> in its batch buffer, beside a working device.
\<close>

definition logger_ready ::
    "('f \<Rightarrow> nat \<Rightarrow> nat \<Rightarrow> esp_err \<times> bytes) \<Rightarrow> (nat \<Rightarrow> bytes \<Rightarrow> 'f \<Rightarrow> esp_err \<times> 'f) \<Rightarrow> (nat \<Rightarrow> nat \<Rightarrow> 'f \<Rightarrow> esp_err \<times> 'f)
       \<Rightarrow> ('f \<Rightarrow> bytes) \<Rightarrow> ('f \<Rightarrow> bool) \<Rightarrow> nat \<Rightarrow> 'f blackbox_logger \<Rightarrow> 'f \<Rightarrow> log_entry list \<Rightarrow> bool" where
  "logger_ready rd wr er cells good sector lg f es \<longleftrightarrow>
     config_ptr lg \<noteq> None \<and> config_ok rd wr er sector (length (cells f)) (the (config_ptr lg))
     \<and> batch_holds (the (config_ptr lg)) lg es \<and> write_lock lg \<and> sector_buf_lock lg \<and> flush_timer lg \<noteq> None
     \<and> good f
     \<and> write_offset lg \<le> length (cells f) \<and> replay_offset lg \<le> length (cells f) \<and> erased_ahead sector (cells f) lg"

definition align_of :: "'f blackbox_logger \<Rightarrow> nat" where
  "align_of lg = address_align (the (config_ptr lg))"

lemma erased_ahead_flushed:
  assumes "0 < sector" and "p + length bs \<le> sec_end sector p" and "chunk_written sector m p bs kept m'"
    and "n = length bs"
  shows "erased_ahead sector m' (flushed c lg sector p ro (p + n))"
proof (cases "p + n = sec_end sector p")
  case True
  have "(p + n) div sector = p div sector + 1" unfolding True using assms(1) by (simp add: sec_end_def)
  moreover have "sector dvd p + n" unfolding True by (rule sec_bounds(5) [OF assms(1)])
  ultimately show ?thesis by (simp add: erased_ahead_def flushed_def)
next
  case False
  then have lt: "p + n < sec_end sector p" using assms(2,4) by simp
  have same: "(p + n) div sector = p div sector" by (rule same_sector [OF assms(1) _ lt]) simp
  have "blank m' (p + n) (sec_end sector p - (p + n))"
    using assms(3) by (simp add: chunk_written_def assms(4))
  with same show ?thesis by (simp add: erased_ahead_def flushed_def sec_end_def)
qed

lemma replay_after_le: "ro \<le> psize \<Longrightarrow> replay_after sector psize wo ro \<le> psize"
  by (simp add: replay_after_def)

lemma logger_ready_flushed:
  assumes "config_ok rd wr er sector (length (cells f)) c" and "config_ptr lg = Some c" and "write_lock lg"
    and "flush_timer lg \<noteq> None" and "good f'" and "length (cells f') = length (cells f)"
    and "wo \<le> length (cells f)" "ro \<le> length (cells f)" "erased_ahead sector (cells f') (flushed c lg sector p ro wo)"
    and "sector_buf_lock lg"
  shows "logger_ready rd wr er cells good sector (flushed c lg sector p ro wo) f' []"
  using assms by (simp add: logger_ready_def flushed_def config_ok_def batch_holds_def)

lemma esp_map_ok [simp]: "esp_to_blackbox_error_map e = BLACKBOX_LOGGER_OK \<longleftrightarrow> e = ESP_OK"
  by (cases e) (simp_all add: esp_to_blackbox_error_map_def)

context flash_device
begin

lemma flush_stores:
  assumes ready: "logger_ready rd wr er cells good sector lg f es" and ne: "es \<noteq> []"
    and wo: "write_offset lg < length (cells f)"
    and room: "fit (align_of lg) (sec_end sector (write_offset lg) - write_offset lg) es = es \<or>
      write_offset lg + entries_size (align_of lg) (fit (align_of lg) (sec_end sector (write_offset lg) - write_offset lg) es)
        \<noteq> length (cells f)"
  shows "\<exists>lg' f' pre post. blackbox_logger_flush True True lg f
        = Some (BLACKBOX_LOGGER_OK, lg', f', on_replay_available_func (the (config_ptr lg)))
    \<and> logger_ready rd wr er cells good sector lg' f' [] \<and> es = pre @ post \<and> last_id lg' = last_id lg
    \<and> laid_out (align_of lg) (cells f') (write_offset lg) pre
    \<and> write_offset lg + entries_size (align_of lg) pre \<le> sec_end sector (write_offset lg)
    \<and> laid_out (align_of lg) (cells f') (next_start sector (length (cells f)) (write_offset lg)) post
    \<and> entries_size (align_of lg) post \<le> sector
    \<and> write_offset lg' = (if post = [] then write_offset lg + entries_size (align_of lg) pre
        else next_start sector (length (cells f)) (write_offset lg) + entries_size (align_of lg) post)"
proof -
  let ?wo = "write_offset lg" and ?a = "align_of lg" and ?psize = "length (cells f)"
  obtain c where cp: "config_ptr lg = Some c" and ok: "config_ok rd wr er sector ?psize c"
    and bh: "batch_holds c lg es" and r: "write_lock lg" "flush_timer lg \<noteq> None" "good f" "replay_offset lg \<le> ?psize" "sector_buf_lock lg"
    and ahead: "erased_ahead sector (cells f) lg"
    using ready by (auto simp: logger_ready_def)
  have a: "?a = address_align c" by (simp add: align_of_def cp)
  have k: "0 < sector" "sector dvd ?psize" "2 * sector \<le> ?psize" "alignment ?a" "batch_buf_size c \<le> sector"
    using ok by (simp_all add: config_ok_def a)
  have len: "batch_len lg = entries_size ?a es" "entries_size ?a es \<le> sector" using bh k(5) by (simp_all add: batch_holds_def a)
  note b = sec_bounds [OF k(1), of ?wo] and e = sec_end_le [OF k(1,2) wo]
  show ?thesis
  proof (cases "fit ?a (sec_end sector ?wo - ?wo) es = es")
    case True
    then have fits: "entries_size ?a es \<le> sec_end sector ?wo - ?wo" using fit_size [of ?a "sec_end sector ?wo - ?wo" es] by simp
    obtain f' bs where fl: "blackbox_logger_flush True True lg f = Some (BLACKBOX_LOGGER_OK,
        flushed c lg sector ?wo (replay_after sector ?psize ?wo (replay_offset lg)) (?wo + batch_len lg), f',
        on_replay_available_func c)" "good f'" "length bs = batch_len lg" "laid_out ?a (cells f') ?wo es"
      "chunk_written sector (cells f) ?wo bs (last_erased_sector lg = int (?wo div sector)) (cells f')"
      using flush_one_chunk [OF ok cp r(1,3) bh ne wo ahead fits [unfolded a]] a by auto
    have l: "length (cells f') = ?psize" using fl(5) by (simp add: chunk_written_def)
    have up: "?wo + batch_len lg \<le> sec_end sector ?wo" using fits len b by simp
    have "erased_ahead sector (cells f') (flushed c lg sector ?wo
        (replay_after sector ?psize ?wo (replay_offset lg)) (?wo + batch_len lg))"
      using up fl(3) by (intro erased_ahead_flushed [OF k(1) _ fl(5)]) simp_all
    then have "logger_ready rd wr er cells good sector (flushed c lg sector ?wo
        (replay_after sector ?psize ?wo (replay_offset lg)) (?wo + batch_len lg)) f' []"
      using up e r(4,5) by (intro logger_ready_flushed [where cells = cells and good = good and f = f and f' = f', OF ok cp r(1,2) fl(2) l] replay_after_le) simp_all
    with fl up len cp show ?thesis
      by (intro exI [of _ "flushed c lg sector ?wo (replay_after sector ?psize ?wo (replay_offset lg)) (?wo + batch_len lg)"]
          exI [of _ f'] exI [of _ es] exI [of _ "[]"]) (simp add: flushed_def)
  next
    case False
    define pre where "pre = fit ?a (sec_end sector ?wo - ?wo) es"
    define p where "p = next_start sector ?psize ?wo"
    obtain post where post: "es = pre @ post"
      using fit_prefix [of es ?a "sec_end sector ?wo - ?wo"] unfolding pre_def [symmetric] by blast
    have ne': "post \<noteq> []"
    proof
      assume "post = []"
      then have "es = pre" using post by (simp only: append_Nil2)
      with False pre_def show False by metis
    qed
    have stuck: "?wo + entries_size ?a pre \<noteq> ?psize" using room False by (simp only: pre_def [symmetric]) blast
    obtain f1 f2 bs1 bs2 where fl: "blackbox_logger_flush True True lg f = Some (BLACKBOX_LOGGER_OK,
        flushed c lg sector p (replay_after sector ?psize p (replay_after sector ?psize ?wo (replay_offset lg)))
          (p + entries_size ?a post), f2, on_replay_available_func c)" "good f2" "length bs2 = entries_size ?a post"
      "laid_out ?a (cells f2) ?wo pre" "laid_out ?a (cells f2) p post" "chunk_written sector (cells f1) p bs2 False (cells f2)"
      and f1: "if pre = [] then f1 = f
       else chunk_written sector (cells f) ?wo bs1 (last_erased_sector lg = int (?wo div sector)) (cells f1)"
      using flush_two_chunks [OF ok cp r(1,3) bh wo ahead pre_def [unfolded a] post ne' stuck [unfolded a] p_def]
      unfolding a by blast
    have l: "length (cells f2) = ?psize" using fl(6) f1 by (auto simp: chunk_written_def split: if_splits)
    note ns = next_start_facts [OF k(1-3) wo, folded p_def]
    have sp: "entries_size ?a post \<le> sector" using len(2) by (simp add: post)
    have up: "p + entries_size ?a post \<le> sec_end sector p" using ns(4) sp sec_bounds(2) [OF k(1), of p] by linarith
    have "sec_end sector p \<le> ?psize" by (rule sec_end_le [OF k(1,2) ns(1)])
    then have up': "p + entries_size ?a post \<le> ?psize" using up by simp
    let ?lg = "flushed c lg sector p (replay_after sector ?psize p (replay_after sector ?psize ?wo (replay_offset lg)))
          (p + entries_size ?a post)"
    have "erased_ahead sector (cells f2) ?lg"
      using up fl(3) by (intro erased_ahead_flushed [OF k(1) _ fl(6)]) simp_all
    then have "logger_ready rd wr er cells good sector ?lg f2 []"
      using up' r(4,5) by (intro logger_ready_flushed [where cells = cells and good = good and f = f and f' = f2, OF ok cp r(1,2) fl(2) l] replay_after_le) simp_all
    moreover have "?wo + entries_size ?a pre \<le> sec_end sector ?wo"
      using fit_size [of ?a "sec_end sector ?wo - ?wo" es] b unfolding pre_def by linarith
    ultimately show ?thesis using fl sp ne' post cp p_def
      by (intro exI [of _ ?lg] exI [of _ f2] exI [of _ pre] exI [of _ post]) (simp add: flushed_def)
  qed
qed

end

section \<open>At the end of the partition\<close>

text \<open>An iteration with the write offset at the partition's end: the erase or the write fails.\<close>

lemma sec_u32_end:
  assumes "0 < sector" and "sector dvd n" and "n < 2 ^ 31" and "sector \<le> n"
  shows "u32_mul (u32_add (n div sector) 1) sector = n + sector" "u32_mul (n div sector) sector = n"
    "u32_sub (n + sector) n = sector" "sec_end sector n = n + sector"
proof -
  have n: "n div sector * sector = n" using assms(2) by simp
  have d: "n div sector \<le> n" by simp
  have a: "u32_add (n div sector) 1 = n div sector + 1"
    using le_less_trans [OF d assms(3)] by (intro u32_add_small) simp
  have m: "(n div sector + 1) * sector = n + sector" using n by (simp add: distrib_right)
  show "u32_mul (u32_add (n div sector) 1) sector = n + sector"
    unfolding a using assms(3,4) m by (subst u32_mul_small) simp_all
  show "u32_mul (n div sector) sector = n" using assms(3) n by (subst u32_mul_small) simp_all
  show "u32_sub (n + sector) n = sector" using assms(3,4) by (subst u32_sub_small) simp_all
  show "sec_end sector n = n + sector" using m by (simp add: sec_end_def)
qed

context flash_device
begin

lemma flush_stuck:
  assumes ready: "logger_ready rd wr er cells good sector lg f es" and ne: "es \<noteq> []"
    and wo: "write_offset lg = length (cells f)"
  shows "\<exists>err lg'. blackbox_logger_flush True True lg f = Some (err, lg', f, False)
    \<and> err \<in> {BLACKBOX_LOGGER_ERR_ERASE_FAIL, BLACKBOX_LOGGER_ERR_WRITE_FAIL}
    \<and> logger_ready rd wr er cells good sector lg' f es \<and> write_offset lg' = length (cells f)"
proof -
  let ?n = "length (cells f)" and ?s = "flush_start lg f"
  obtain c where cp: "config_ptr lg = Some c" and ok: "config_ok rd wr er sector ?n c"
    and bh: "batch_holds c lg es" and r: "write_lock lg" "flush_timer lg \<noteq> None" "good f" "replay_offset lg \<le> ?n"
    using ready by (auto simp: logger_ready_def)
  let ?a = "address_align c"
  obtain b where b: "batch_buf c = Some b" using ok by (auto simp: config_ok_def)
  have k: "0 < sector" "sector dvd ?n" "2 * sector \<le> ?n" "?n < 2 ^ 31" "alignment ?a" "length b < 2 ^ 31"
    "laid_out ?a b 0 es" "batch_len lg = entries_size ?a es" "batch_len lg \<le> length b" "length b \<le> sector"
    using ok bh b by (auto simp: config_ok_def batch_holds_def)
  note u = sec_u32_end [OF k(1,2,4)]
  have sn: "sector \<le> ?n" using k(3) by simp
  have pos: "0 < batch_len lg" using entries_size_pos [OF k(5) ne] k(8) by simp
  let ?n1 = "entries_size ?a (fit ?a sector es)"
  have "fit ?a sector es = es" using k(8,9,10) by (intro fit_all) simp
  then have n1: "?n1 = batch_len lg" using k(8) by simp
  have "chunk_size_loop b (0 + entries_size ?a es) sector ?a 0 0 = Some (0 + entries_size ?a (fit ?a (sector - 0) es))"
    using k by (intro chunk_size_loop_fit) simp_all
  then have size: "get_entries_chunk_size_with_ceiling_helper (Some (drop 0 b)) (batch_len lg) sector ?a = Some (batch_len lg)"
    using n1 k(8) by (simp add: get_entries_chunk_size_with_ceiling_helper_def)
  obtain bs where bs: "buf_read b 0 (batch_len lg) = Some bs" using k(9) by (simp add: buf_read_def)
  have lbs: "length bs = batch_len lg" using bs by (rule buf_read_length)
  obtain e where er: "er ?n sector f = (e, f)" "e \<noteq> ESP_OK"
    using erase_out [OF r(3) k(4), of sector] k(1,3,4) by fastforce
  obtain e2 where wr: "wr ?n bs f = (e2, f)" "e2 \<noteq> ESP_OK"
    using write_out [OF r(3) k(4), of bs] pos lbs k(6,9) by fastforce
  let ?q = "int (?n div sector)"
  let ?err = "if ?q \<noteq> last_erased_sector lg then BLACKBOX_LOGGER_ERR_ERASE_FAIL else BLACKBOX_LOGGER_ERR_WRITE_FAIL"
  have chunk: "flush_chunk wr er b sector (batch_len lg) ?s
      = Some (?s\<lparr>fs_logger := lg\<lparr>last_erased_sector := ?q\<rparr>, fs_err := ?err\<rparr>)"
  proof (cases "?q = last_erased_sector lg")
    case True
    then show ?thesis using bs wr wo by (cases lg) (simp add: flush_chunk_def flush_start_def)
  next
    case False
    then show ?thesis using er wo u(2) [OF sn] by (simp add: flush_chunk_def flush_start_def)
  qed
  have nb: "\<not> (?n div sector = replay_offset lg div sector \<and> ?n < replay_offset lg)" using r(4) by simp
  have "flush_iteration True wr er b sector ?n ?a ?s
      = Some (?s\<lparr>fs_logger := lg\<lparr>last_erased_sector := ?q\<rparr>, fs_err := ?err\<rparr>)"
  proof -
    have f: "fs_write_offset ?s = ?n" "fs_replay_offset ?s = replay_offset lg" "fs_buffer_offset ?s = 0"
      "fs_write_size ?s = batch_len lg" "fs_err ?s = BLACKBOX_LOGGER_OK"
      by (simp_all add: flush_start_def wo)
    show ?thesis
      unfolding flush_iteration_def Let_def f u [OF sn] if_not_P [OF nb] size
      using chunk pos by simp
  qed
  then have "flush_loop True wr er b sector ?n ?a ?s
      = Some (?s\<lparr>fs_logger := lg\<lparr>last_erased_sector := ?q\<rparr>, fs_err := ?err\<rparr>)"
    by (subst flush_loop.simps) simp
  moreover have sub: "u32_sub (batch_len lg) 0 = batch_len lg" using k(6,9) by (subst u32_sub_small) simp_all
  ultimately have run: "blackbox_logger_flush True True lg f = Some (?err,
      lg\<lparr>config_ptr := Some (c\<lparr>parameters := \<lparr>param_write_offset = ?n, param_replay_offset = replay_offset lg,
          param_last_id = last_id lg, param_is_dirty = True\<rparr>\<rparr>), last_erased_sector := ?q\<rparr>, f, False)"
    (is "_ = Some (_, ?lg, _, _)")
    unfolding flush_unfold [OF ok cp r(1) pos]
    using b wo cp by (cases lg) (simp add: flush_start_def flush_finish_def update_parameters_internal_def Let_def)
  have "logger_ready rd wr er cells good sector ?lg f es"
    using ready cp wo by (simp add: logger_ready_def config_ok_def batch_holds_def erased_ahead_def)
  with run wo show ?thesis by (intro exI [of _ ?err] exI [of _ ?lg]) simp
qed

end

section \<open>An example set-up\<close>

text \<open>The mock flash, empty, and a logger on it that has just been started at \<open>wo\<close>.\<close>

definition mock_example :: mock_partition where
  "mock_example = \<lparr>memory = replicate 16384 0xFF, mock_size = 16384, fail_next_write = False, fail_after_bytes = 0\<rparr>"

definition config_example :: "mock_partition blackbox_logger_config" where
  "config_example = \<lparr>partition_size = Some 16384, parameters = blackbox_logger_default_parameters, address_align = 4,
     flush_timer_timeout_us = 5000000, sector_buf = Some (replicate 4096 0), sector_buf_size = 4096,
     batch_buf = Some (replicate 1024 0), batch_buf_size = 1024, on_replay_available_func = True,
     write_func = Some mock_write, read_func = Some mock_read, erase_func = Some mock_erase_range\<rparr>"

definition logger_example :: "nat \<Rightarrow> mock_partition blackbox_logger" where
  "logger_example wo = \<lparr>config_ptr = Some config_example, write_offset = wo, replay_offset = wo, last_id = 0,
     last_erased_sector = -1, batch_len = 0, sector_buf_lock = True, write_lock = True, flush_timer = Some False\<rparr>"

lemma alignment_4: "alignment 4"
  by (auto simp: alignment_def intro: exI [of _ 2])

lemma config_ok_example: "config_ok mock_read mock_write mock_erase_range 4096 16384 config_example"
  using alignment_4 by (simp add: config_ok_def config_example_def)

lemma ready_example:
  "wo \<le> 16384 \<Longrightarrow> logger_ready mock_read mock_write mock_erase_range memory mock_good 4096 (logger_example wo) mock_example []"
  using config_ok_example
  by (simp add: logger_ready_def logger_example_def mock_example_def mock_good_def erased_ahead_def batch_holds_def)

lemma mock_device: "flash_device mock_read mock_write mock_erase_range memory mock_good 4096"
  using mock_flash_device by (simp add: MOCK_SECTOR_SIZE_def)

text \<open>The example after one write: one entry of 20 bytes in the batch.\<close>

lemma write_ready:
  assumes ready: "logger_ready rd wr er cells good sector lg f es" and d: "d \<noteq> []"
    and fits: "batch_len lg + entry_size (align_of lg) (length d) \<le> batch_buf_size (the (config_ptr lg))"
  shows "\<exists>lg'. blackbox_logger_write over_old got_flush_lock True lg (Some (view_of d)) f = Some (BLACKBOX_LOGGER_OK, lg', f, False)
    \<and> logger_ready rd wr er cells good sector lg' f (es @ [(u32_add (last_id lg) 1, d)])
    \<and> last_id lg' = u32_add (last_id lg) 1 \<and> write_offset lg' = write_offset lg
    \<and> replay_offset lg' = replay_offset lg
    \<and> last_erased_sector lg' = last_erased_sector lg \<and> align_of lg' = align_of lg
    \<and> batch_len lg' = batch_len lg + entry_size (align_of lg) (length d)
    \<and> map_option batch_buf_size (config_ptr lg') = map_option batch_buf_size (config_ptr lg)"
proof -
  obtain c where cp: "config_ptr lg = Some c" and ok: "config_ok rd wr er sector (length (cells f)) c"
    and bh: "batch_holds c lg es" and r: "write_lock lg" "flush_timer lg \<noteq> None"
    using ready by (auto simp: logger_ready_def)
  let ?c' = "c\<lparr>batch_buf := Some (overlay (the (batch_buf c)) (batch_len lg) (entry_image (u32_add (last_id lg) 1) d))\<rparr>"
  let ?lg' = "lg\<lparr>config_ptr := Some ?c', batch_len := batch_len lg + entry_size (address_align c) (length d),
      last_id := u32_add (last_id lg) 1, flush_timer := Some True\<rparr>"
  have fits': "batch_len lg + entry_size (address_align c) (length d) \<le> batch_buf_size c"
    using fits cp by (simp add: align_of_def)
  note w = write_appends [OF ok cp r bh d fits' refl refl]
  have "logger_ready rd wr er cells good sector ?lg' f (es @ [(u32_add (last_id lg) 1, d)])"
    using ready cp w(2,3) by (simp add: logger_ready_def erased_ahead_def)
  with w(1) show ?thesis by (intro exI [of _ ?lg']) (simp add: align_of_def cp)
qed

lemma ready_example_one:
  assumes "wo \<le> 16384"
  shows "\<exists>lg. logger_ready mock_read mock_write mock_erase_range memory mock_good 4096 lg mock_example [(1, [7, 9])]
    \<and> write_offset lg = wo \<and> replay_offset lg = wo \<and> align_of lg = 4 \<and> batch_len lg = 20 \<and> last_id lg = 1
    \<and> batch_buf_size (the (config_ptr lg)) = 1024"
  using write_ready [OF ready_example [OF assms], of "[7, 9]" True True]
  by (auto simp: logger_example_def align_of_def config_example_def entry_size_def u32_add_def)

lemma ready_example_two:
  assumes "wo \<le> 16384"
  shows "\<exists>lg. logger_ready mock_read mock_write mock_erase_range memory mock_good 4096 lg mock_example [(1, [7, 9]), (2, [8])]
    \<and> write_offset lg = wo \<and> replay_offset lg = wo \<and> align_of lg = 4 \<and> last_id lg = 2
    \<and> batch_buf_size (the (config_ptr lg)) = 1024"
proof -
  obtain lg where lg: "logger_ready mock_read mock_write mock_erase_range memory mock_good 4096 lg mock_example [(1, [7, 9])]"
    "write_offset lg = wo" "replay_offset lg = wo" "align_of lg = 4" "batch_len lg = 20" "last_id lg = 1"
    "batch_buf_size (the (config_ptr lg)) = 1024"
    using ready_example_one [OF assms] by blast
  then have "[8] \<noteq> ([] :: bytes)"
    "batch_len lg + entry_size (align_of lg) (length ([8] :: bytes)) \<le> batch_buf_size (the (config_ptr lg))"
    by (simp_all add: entry_size_def)
  note w = write_ready [OF lg(1) this, of True True]
  have n: "u32_add (last_id lg) 1 = 2" "[(1, [7, 9])] @ [(2, [8])] = [(1, [7, 9]), (2, [8] :: bytes)]"
    by (simp_all add: lg(6) u32_add_def)
  obtain lg' where "logger_ready mock_read mock_write mock_erase_range memory mock_good 4096 lg' mock_example [(1, [7, 9]), (2, [8])]"
    "write_offset lg' = wo" "replay_offset lg' = wo" "align_of lg' = 4" "last_id lg' = 2"
    "map_option batch_buf_size (config_ptr lg') = map_option batch_buf_size (config_ptr lg)"
    using w unfolding n lg(2-4) by blast
  moreover have "config_ptr lg \<noteq> None" using lg(1) by (simp add: logger_ready_def)
  ultimately show ?thesis using lg(7) by (intro exI [of _ lg']) auto
qed

section \<open>Properties\<close>

text \<open>
  A write that fits appends an entry with the next number to the batch buffer and touches
  neither the flash nor the entries before it: the logger's invariant holds again, with the new
  entry behind the old ones.
\<close>

theorem blackbox_write_appends:
  assumes "logger_ready rd wr er cells good sector lg f es" and "d \<noteq> []"
    and "batch_len lg + entry_size (align_of lg) (length d) \<le> batch_buf_size (the (config_ptr lg))"
  shows "\<exists>lg'. blackbox_logger_write over_old got_flush_lock True lg (Some (view_of d)) f = Some (BLACKBOX_LOGGER_OK, lg', f, False)
    \<and> logger_ready rd wr er cells good sector lg' f (es @ [((last_id lg + 1) mod 2 ^ 32, d)])
    \<and> last_id lg' = (last_id lg + 1) mod 2 ^ 32 \<and> write_offset lg' = write_offset lg"
  using write_ready [OF assms, of over_old got_flush_lock] by (auto simp: u32_add_def)

lemma blackbox_write_appends_witness:
  "\<exists>lg'. blackbox_logger_write True True True (logger_example 0) (Some (view_of [7, 9])) mock_example
      = Some (BLACKBOX_LOGGER_OK, lg', mock_example, False)
    \<and> logger_ready mock_read mock_write mock_erase_range memory mock_good 4096 lg' mock_example [(1, [7, 9])]"
proof -
  have 1: "[7, 9] \<noteq> ([] :: bytes)" by simp
  have 2: "batch_len (logger_example 0) + entry_size (align_of (logger_example 0)) (length ([7, 9] :: bytes))
      \<le> batch_buf_size (the (config_ptr (logger_example 0)))"
    by (simp add: logger_example_def config_example_def align_of_def entry_size_def)
  have 3: "last_id (logger_example 0) = 0" by (simp add: logger_example_def)
  show ?thesis
    using blackbox_write_appends [OF ready_example [of 0] 1 2, of True True] 3 by auto
qed

text \<open>
  C14. A flush on a working flash stores the whole batch, when the write offset is inside the
  partition: the entries that fit into the rest of the current sector go there, the others to the
  start of the next sector (the first one after the last), no entry crosses a sector boundary, the
  batch is empty afterwards and the invariant holds again. The one exception is excluded here:
  entries that fill the partition's last sector exactly, with more to come.
\<close>

theorem blackbox_flush_stores_batch:
  assumes "flash_device rd wr er cells good sector"
    and "logger_ready rd wr er cells good sector lg f es" and "es \<noteq> []"
    and "write_offset lg < length (cells f)"
    and "fit (align_of lg) (sec_end sector (write_offset lg) - write_offset lg) es = es \<or>
      write_offset lg + entries_size (align_of lg) (fit (align_of lg) (sec_end sector (write_offset lg) - write_offset lg) es)
        \<noteq> length (cells f)"
  shows "\<exists>lg' f' pre post. blackbox_logger_flush True True lg f
        = Some (BLACKBOX_LOGGER_OK, lg', f', on_replay_available_func (the (config_ptr lg)))
    \<and> logger_ready rd wr er cells good sector lg' f' [] \<and> es = pre @ post
    \<and> laid_out (align_of lg) (cells f') (write_offset lg) pre
    \<and> write_offset lg + entries_size (align_of lg) pre \<le> sec_end sector (write_offset lg)
    \<and> laid_out (align_of lg) (cells f') (next_start sector (length (cells f)) (write_offset lg)) post
    \<and> entries_size (align_of lg) post \<le> sector
    \<and> write_offset lg' = (if post = [] then write_offset lg + entries_size (align_of lg) pre
        else next_start sector (length (cells f)) (write_offset lg) + entries_size (align_of lg) post)"
  using flash_device.flush_stores [OF assms] by blast

lemma blackbox_flush_stores_batch_witness:
  "\<exists>lg lg' f'. logger_ready mock_read mock_write mock_erase_range memory mock_good 4096 lg mock_example [(1, [7, 9])]
    \<and> blackbox_logger_flush True True lg mock_example
      = Some (BLACKBOX_LOGGER_OK, lg', f', on_replay_available_func (the (config_ptr lg)))
    \<and> logger_ready mock_read mock_write mock_erase_range memory mock_good 4096 lg' f' []"
proof -
  obtain lg where lg: "logger_ready mock_read mock_write mock_erase_range memory mock_good 4096 lg mock_example [(1, [7, 9])]"
    "write_offset lg = 100" "align_of lg = 4"
    using ready_example_one [of 100] by auto
  have "write_offset lg < length (memory mock_example)" by (simp add: lg(2) mock_example_def)
  moreover have "fit (align_of lg) (sec_end 4096 (write_offset lg) - write_offset lg) [(1, [7, 9])] = [(1, [7, 9])]"
    by (simp add: lg(2,3) sec_end_def entry_size_def)
  ultimately show ?thesis
    using blackbox_flush_stores_batch [OF mock_device lg(1)] lg(1) by blast
qed

text \<open>
  C40. Once the last sector was filled exactly, the write offset stands at the partition's end,
  and the logger never recovers: every flush fails with an erase or a write error, changes nothing
  in the flash, keeps the batch and leaves the write offset where it is. The wrap to the first
  sector happens only when a chunk does not fit.
\<close>

theorem blackbox_flush_stuck_at_end:
  assumes "flash_device rd wr er cells good sector"
    and "logger_ready rd wr er cells good sector lg f es" and "es \<noteq> []"
    and "write_offset lg = length (cells f)"
  shows "\<exists>err lg'. blackbox_logger_flush True True lg f = Some (err, lg', f, False)
    \<and> err \<in> {BLACKBOX_LOGGER_ERR_ERASE_FAIL, BLACKBOX_LOGGER_ERR_WRITE_FAIL}
    \<and> logger_ready rd wr er cells good sector lg' f es \<and> write_offset lg' = length (cells f)"
  by (rule flash_device.flush_stuck [OF assms])

lemma blackbox_flush_stuck_at_end_witness:
  "\<exists>lg err lg'. write_offset lg = 16384 \<and> blackbox_logger_flush True True lg mock_example = Some (err, lg', mock_example, False)
    \<and> err \<noteq> BLACKBOX_LOGGER_OK \<and> write_offset lg' = 16384"
proof -
  obtain lg where lg: "logger_ready mock_read mock_write mock_erase_range memory mock_good 4096 lg mock_example [(1, [7, 9])]"
    "write_offset lg = 16384"
    using ready_example_one [of 16384] by auto
  have l: "length (memory mock_example) = 16384" by (simp add: mock_example_def)
  with lg(2) have wo: "write_offset lg = length (memory mock_example)" by simp
  obtain err lg' where "blackbox_logger_flush True True lg mock_example = Some (err, lg', mock_example, False)"
    "err \<in> {BLACKBOX_LOGGER_ERR_ERASE_FAIL, BLACKBOX_LOGGER_ERR_WRITE_FAIL}" "write_offset lg' = 16384"
    using blackbox_flush_stuck_at_end [OF mock_device lg(1) _ wo] l by auto
  with lg(2) show ?thesis by (intro exI [of _ lg] exI [of _ err] exI [of _ lg']) auto
qed

end
