(* ===== verification/Blackbox_Replay.thy ===== *)
theory Blackbox_Replay imports Blackbox_Flush begin

text \<open>
  Reading entries back and replaying the backlog: what \<open>blackbox_logger_read\<close> returns for an
  entry and for blank flash, the order of the replay, and the end-to-end behaviour of a write, a
  flush and a replay.
\<close>

section \<open>Reading\<close>

text \<open>A caller's buffer that has room for a payload.\<close>

definition view_room :: "blackbox_logger_entry_view \<Rightarrow> nat \<Rightarrow> bool" where
  "view_room v n \<longleftrightarrow> (case data_ptr v of None \<Rightarrow> False | Some dest \<Rightarrow> n \<le> length dest)"

definition view_with :: "blackbox_logger_entry_view \<Rightarrow> bytes \<Rightarrow> blackbox_logger_entry_view" where
  "view_with v d = v\<lparr>data_ptr := Some (overlay (the (data_ptr v)) 0 d), view_length := length d\<rparr>"

lemma view_room_with [simp]: "view_room v m \<Longrightarrow> length d \<le> m \<Longrightarrow> view_room (view_with v d) m"
  by (auto simp: view_room_def view_with_def split: option.splits)

lemma view_with_payload [simp]:
  "take (view_length (view_with v d)) (the (data_ptr (view_with v d))) = d"
  by (simp add: view_with_def overlay_def)

lemma blank_header:
  assumes "blank m off 4" and "off + 12 \<le> length m"
  shows "header_magic (header_of_image (take 12 (drop off m))) \<noteq> BLACKBOX_LOGGER_HEADER_MAGIC"
proof -
  have "take 4 (drop off m) = replicate 4 0xFF"
    using assms by (intro nth_equalityI) (auto simp: blank_def)
  moreover have "replicate 4 x = [x, x, x, x]" for x :: byte
    by (simp add: numeral_eq_Suc)
  moreover have "take 4 (take 12 (drop off m)) = take 4 (drop off m)" by simp
  ultimately have "header_magic (header_of_image (take 12 (drop off m))) = of_le32 [0xFF, 0xFF, 0xFF, 0xFF]"
    by (simp only: header_of_image_def blackbox_logger_entry_header.simps)
  then show ?thesis by (simp add: of_le32_def BLACKBOX_LOGGER_HEADER_MAGIC_def)
qed

lemma blank_same:
  assumes "blank m i n" and "i + n \<le> length m" and "buf_read m' i n = buf_read m i n"
  shows "blank m' i n"
proof -
  have "buf_read m' i n = Some (take n (drop i m))" using assms(2,3) by (simp add: buf_read_def)
  then have l: "i + n \<le> length m'" and eq: "take n (drop i m') = take n (drop i m)"
    by (auto simp: buf_read_def split: if_splits)
  have "m' ! j = m ! j" if "i \<le> j" "j < i + n" for j
  proof -
    have "take n (drop i m') ! (j - i) = take n (drop i m) ! (j - i)" by (simp add: eq)
    then show ?thesis using that l assms(2) by simp
  qed
  with assms(1) show ?thesis by (auto simp: blank_def)
qed

context flash_device
begin

lemma read_span:
  assumes ok: "config_ok rd wr er sector (length (cells f)) c" and g: "good f" and off: "off < length (cells f)"
    and n: "n = min (batch_buf_size c) (length (cells f) - off)"
  shows "\<exists>sbuf. read_into rd f off n (the (sector_buf c)) = Some (ESP_OK, sbuf)
    \<and> length sbuf = length (the (sector_buf c)) \<and> n \<le> length sbuf \<and> take n sbuf = take n (drop off (cells f))"
proof -
  let ?b = "the (sector_buf c)" and ?d = "take n (drop off (cells f))"
  have l: "length ?d = n" using off n by simp
  have "batch_buf_size c \<le> length ?b" using ok by (auto simp: config_ok_def)
  then have le: "n \<le> length ?b" unfolding n by (rule min.coboundedI1)
  have "rd f off n = (ESP_OK, ?d)" using off n by (intro read_in [OF g]) simp
  then have "read_into rd f off n ?b = Some (ESP_OK, ?d @ drop n ?b)"
    using l le by (simp add: read_into_def buf_write_ok)
  with l le show ?thesis by (intro exI [of _ "?d @ drop n ?b"]) simp
qed

text \<open>A stored entry is returned; only the sector buffer changes.\<close>

lemma read_entry:
  assumes ok: "config_ok rd wr er sector (length (cells f)) c" and cp: "config_ptr lg = Some c"
    and sl: "sector_buf_lock lg" and g: "good f"
    and lay: "laid_out (address_align c) (cells f) off ((i, d) # es)" and i: "i < 2 ^ 32"
    and fits: "18 + length d \<le> batch_buf_size c" and cap: "length d \<le> cap" and room: "view_room v (length d)"
  shows "\<exists>c'. blackbox_logger_read True lg off (Some v) cap f
      = Some (BLACKBOX_LOGGER_OK, lg\<lparr>config_ptr := Some c'\<rparr>, Some (view_with v d))
    \<and> config_ok rd wr er sector (length (cells f)) c' \<and> address_align c' = address_align c
    \<and> batch_buf_size c' = batch_buf_size c \<and> batch_buf c' = batch_buf c"
proof -
  let ?n = "min (batch_buf_size c) (length (cells f) - off)"
  have k: "alignment (address_align c)" "length (cells f) < 2 ^ 31" "partition_size c = Some (length (cells f))"
    "read_func c = Some rd" using ok by (simp_all add: config_ok_def)
  obtain b where b: "sector_buf c = Some b" using ok by (auto simp: config_ok_def)
  obtain dest where dest: "data_ptr v = Some dest" "length d \<le> length dest"
    using room by (auto simp: view_room_def split: option.splits)
  have es: "18 + length d \<le> entry_size (address_align c) (length d)" using entry_size_bounds [OF k(1)] by blast
  have img: "buf_read (cells f) off (18 + length d) = Some (entry_image i d)"
    and in_p: "off + entry_size (address_align c) (length d) \<le> length (cells f)" using lay by simp_all
  have off: "off < length (cells f)" using in_p es by simp
  have n: "18 + length d \<le> ?n" using fits in_p es by simp
  obtain sbuf where s: "read_into rd f off ?n b = Some (ESP_OK, sbuf)" "length sbuf = length b" "?n \<le> length sbuf"
    "take ?n sbuf = take ?n (drop off (cells f))"
    using read_span [OF ok g off refl] b by auto
  have "take (18 + length d) sbuf = take (18 + length d) (take ?n sbuf)" using n by (simp add: min_def)
  also have "\<dots> = take (18 + length d) (drop off (cells f))" unfolding s(4) using n by (simp add: min_def)
  also have "\<dots> = entry_image i d" using img by (auto simp: buf_read_def split: if_splits)
  finally have sb: "sbuf = entry_image i d @ drop (18 + length d) sbuf"
    by (metis append_take_drop_id)
  have "?n < 4294967296" "?n \<le> length (entry_image i d @ drop (18 + length d) sbuf)"
    using k(2) s(3) sb [symmetric] by simp_all
  with i n have v: "validate_entry_internal (Some sbuf) ?n = Some BLACKBOX_LOGGER_OK"
    by (subst sb, intro validate_entry_image) simp_all
  have r: "buf_read sbuf 0 (18 + length d) = Some (entry_image i d)"
    by (subst sb) (simp add: buf_read_def)
  have len: "read32 sbuf 8 = Some (of_nat (length d))" "unat (of_nat (length d) :: u32) = length d"
    using buf_read_sub [OF r, of 8 4] off k(2) in_p es
    by (simp_all add: read32_def entry_image_header unat_of_nat_u32)
  have pay: "buf_read sbuf 12 (length d) = Some d"
    using buf_read_sub [OF r, of 12 "length d"] by (simp add: entry_image_def Let_def)
  have sub: "u32_sub (length (cells f)) off = length (cells f) - off"
    using off k(2) by (intro u32_sub_small) simp_all
  have w: "buf_write dest 0 d = Some (overlay dest 0 d)"
    using dest(2) by (simp add: buf_write_ok overlay_def)
  let ?c = "c\<lparr>sector_buf := Some sbuf\<rparr>"
  have "blackbox_logger_read True lg off (Some v) cap f
      = Some (BLACKBOX_LOGGER_OK, lg\<lparr>config_ptr := Some ?c\<rparr>, Some (view_with v d))"
    using cp b dest(1) k off sl sub s(1) v len pay w cap
    by (simp add: blackbox_logger_read_def view_with_def Let_def esp_to_blackbox_error_map_def)
  moreover have "config_ok rd wr er sector (length (cells f)) ?c" using ok b s(2) by (simp add: config_ok_def)
  ultimately show ?thesis by (intro exI [of _ ?c]) simp
qed

text \<open>Blank flash, or too little space before the partition's end, is no entry.\<close>

lemma read_blank:
  assumes ok: "config_ok rd wr er sector (length (cells f)) c" and cp: "config_ptr lg = Some c"
    and sl: "sector_buf_lock lg" and g: "good f" and off: "off < length (cells f)"
    and junk: "off + 18 \<le> length (cells f) \<longrightarrow> blank (cells f) off 4"
    and v: "data_ptr v \<noteq> None"
  shows "\<exists>c'. blackbox_logger_read True lg off (Some v) cap f
      = Some (BLACKBOX_LOGGER_ERR_INVALID_ENTRY, lg\<lparr>config_ptr := Some c'\<rparr>, Some v)
    \<and> config_ok rd wr er sector (length (cells f)) c' \<and> address_align c' = address_align c"
proof -
  let ?n = "min (batch_buf_size c) (length (cells f) - off)"
  have k: "length (cells f) < 2 ^ 31" "partition_size c = Some (length (cells f))" "read_func c = Some rd"
    using ok by (simp_all add: config_ok_def)
  obtain b where b: "sector_buf c = Some b" using ok by (auto simp: config_ok_def)
  obtain sbuf where s: "read_into rd f off ?n b = Some (ESP_OK, sbuf)" "length sbuf = length b" "?n \<le> length sbuf"
    "take ?n sbuf = take ?n (drop off (cells f))"
    using read_span [OF ok g off refl] b by auto
  have sub: "u32_sub (length (cells f)) off = length (cells f) - off"
    using off k(1) by (intro u32_sub_small) simp_all
  have val: "validate_entry_internal (Some sbuf) ?n = Some BLACKBOX_LOGGER_ERR_INVALID_ENTRY"
  proof (cases "?n < 18")
    case True
    then show ?thesis by (simp add: validate_entry_internal_def)
  next
    case False
    have "take 12 sbuf = take 12 (take ?n sbuf)" using False by (simp add: min_def)
    also have "\<dots> = take 12 (drop off (cells f))" unfolding s(4) using False by (simp add: min_def)
    finally have hd: "take 12 sbuf = take 12 (drop off (cells f))" .
    have "blank (cells f) off 4" "off + 12 \<le> length (cells f)" using False junk by simp_all
    from blank_header [OF this] False s(3) show ?thesis
      by (simp add: validate_entry_internal_def is_data_entry_internal_def buf_read_def hd)
  qed
  let ?c = "c\<lparr>sector_buf := Some sbuf\<rparr>"
  obtain dest where "data_ptr v = Some dest" using v by blast
  with cp b k off sl sub s(1) val have "blackbox_logger_read True lg off (Some v) cap f
      = Some (BLACKBOX_LOGGER_ERR_INVALID_ENTRY, lg\<lparr>config_ptr := Some ?c\<rparr>, Some v)"
    by (simp add: blackbox_logger_read_def Let_def esp_to_blackbox_error_map_def)
  moreover have "config_ok rd wr er sector (length (cells f)) ?c" using ok b s(2) by (simp add: config_ok_def)
  ultimately show ?thesis by (intro exI [of _ ?c]) simp
qed

end

section \<open>Replaying\<close>

text \<open>A callback that accepts every entry and folds its payload into the state.\<close>

definition payload_cb :: "(bytes \<Rightarrow> 'p \<Rightarrow> 'p) \<Rightarrow> blackbox_logger_entry_view \<Rightarrow> 'p \<Rightarrow> bool \<times> 'p" where
  "payload_cb h v p = (True, h (take (view_length v) (the (data_ptr v))) p)"

text \<open>The entries are small enough for the buffers of the logger and of the caller.\<close>

definition replayable :: "'f blackbox_logger_config \<Rightarrow> nat \<Rightarrow> log_entry list \<Rightarrow> bool" where
  "replayable c cap es \<longleftrightarrow>
     (\<forall>(i, d) \<in> set es. i < 2 ^ 32 \<and> 18 + length d \<le> batch_buf_size c \<and> length d \<le> cap)"

context flash_device
begin

text \<open>The next entry is offered to the callback; only when that accepts it, the replay moves on.\<close>

lemma next_replay_offer:
  assumes ok: "config_ok rd wr er sector (length (cells f)) c" and cp: "config_ptr lg = Some c"
    and sl: "sector_buf_lock lg" and g: "good f"
    and lay: "laid_out (address_align c) (cells f) (replay_offset lg) ((i, d) # es)"
    and small: "replayable c cap [(i, d)]" and room: "view_room v cap"
    and more: "replay_offset lg \<noteq> write_offset lg" and cb: "cb (view_with v d) p = (acc, p')"
  shows "\<exists>c'. blackbox_logger_next_replay True lg (Some cb) p (Some v) cap f
      = Some (if acc then BLACKBOX_LOGGER_OK else BLACKBOX_LOGGER_ERR_PROCESS_FAIL, lg\<lparr>config_ptr := Some c',
          replay_offset := replay_offset lg + (if acc then entry_size (address_align c) (length d) else 0)\<rparr>,
          Some (view_with v d), p')
    \<and> config_ok rd wr er sector (length (cells f)) c' \<and> address_align c' = address_align c
    \<and> batch_buf_size c' = batch_buf_size c \<and> batch_buf c' = batch_buf c"
proof -
  have sm: "i < 2 ^ 32" "18 + length d \<le> batch_buf_size c" "length d \<le> cap"
    using small by (simp_all add: replayable_def)
  have rm: "view_room v (length d)" using room sm(3) by (auto simp: view_room_def split: option.splits)
  obtain c' where rd: "blackbox_logger_read True lg (replay_offset lg) (Some v) cap f
      = Some (BLACKBOX_LOGGER_OK, lg\<lparr>config_ptr := Some c'\<rparr>, Some (view_with v d))"
    and c': "config_ok rd wr er sector (length (cells f)) c'" "address_align c' = address_align c"
      "batch_buf_size c' = batch_buf_size c" "batch_buf c' = batch_buf c"
    using read_entry [OF ok cp sl g lay sm rm] by blast
  have al: "alignment (address_align c)" "length (cells f) < 2 ^ 31" using ok by (simp_all add: config_ok_def)
  have in_p: "replay_offset lg + entry_size (address_align c) (length d) \<le> length (cells f)" using lay by simp
  moreover have "18 + length d \<le> entry_size (address_align c) (length d)" using entry_size_bounds [OF al(1)] by blast
  ultimately have sz: "entry_total_aligned_size_helper (length d) (address_align c) = entry_size (address_align c) (length d)"
    using al by (intro entry_total_aligned_size_eq) simp_all
  have len: "view_length (view_with v d) = length d" by (simp add: view_with_def)
  have "blackbox_logger_next_replay True lg (Some cb) p (Some v) cap f
      = Some (if acc then BLACKBOX_LOGGER_OK else BLACKBOX_LOGGER_ERR_PROCESS_FAIL, lg\<lparr>config_ptr := Some c',
          replay_offset := replay_offset lg + (if acc then entry_size (address_align c) (length d) else 0)\<rparr>,
          Some (view_with v d), p')"
    using rd more c'(2) in_p al(2) sz len cb
    by (simp add: blackbox_logger_next_replay_def blackbox_logger_has_replay_data_def u32_add_small)
  with c' show ?thesis by blast
qed

lemma next_replay_entry:
  assumes ok: "config_ok rd wr er sector (length (cells f)) c" and cp: "config_ptr lg = Some c"
    and sl: "sector_buf_lock lg" and g: "good f"
    and lay: "laid_out (address_align c) (cells f) (replay_offset lg) ((i, d) # es)"
    and small: "replayable c cap [(i, d)]" and room: "view_room v cap"
    and more: "replay_offset lg \<noteq> write_offset lg"
  shows "\<exists>c'. blackbox_logger_next_replay True lg (Some (payload_cb h)) p (Some v) cap f
      = Some (BLACKBOX_LOGGER_OK, lg\<lparr>config_ptr := Some c',
          replay_offset := replay_offset lg + entry_size (address_align c) (length d)\<rparr>, Some (view_with v d), h d p)
    \<and> config_ok rd wr er sector (length (cells f)) c' \<and> address_align c' = address_align c
    \<and> batch_buf_size c' = batch_buf_size c"
  using next_replay_offer [OF assms, of "payload_cb h" p True "h d p"] by (auto simp: payload_cb_def)

lemma next_replay_blank:
  assumes ok: "config_ok rd wr er sector (length (cells f)) c" and cp: "config_ptr lg = Some c"
    and sl: "sector_buf_lock lg" and g: "good f" and off: "replay_offset lg < length (cells f)"
    and junk: "replay_offset lg + 18 \<le> length (cells f) \<longrightarrow> blank (cells f) (replay_offset lg) 4"
    and v: "view_room v cap" and more: "replay_offset lg \<noteq> write_offset lg"
  shows "\<exists>c'. blackbox_logger_next_replay True lg (Some cb) p (Some v) cap f
      = Some (BLACKBOX_LOGGER_ERR_INVALID_ENTRY, lg\<lparr>config_ptr := Some c', replay_offset := write_offset lg\<rparr>, Some v, p)"
proof -
  have "data_ptr v \<noteq> None" using v by (auto simp: view_room_def split: option.splits)
  from read_blank [OF ok cp sl g off junk this, of cap] more show ?thesis
    by (auto simp: blackbox_logger_next_replay_def blackbox_logger_has_replay_data_def)
qed

text \<open>
  The replay loop hands over the entries from the replay offset on, in order, until it meets the
  write offset or something that is no entry; then nothing is left to replay.
\<close>

lemma iterate_entries:
  assumes "config_ok rd wr er sector (length (cells f)) c" and "config_ptr lg = Some c"
    and "sector_buf_lock lg" and g: "good f"
    and "laid_out (address_align c) (cells f) (replay_offset lg) es"
    and "replayable c cap es" and "view_room v cap"
    and "write_offset lg < replay_offset lg \<or> replay_offset lg + entries_size (address_align c) es \<le> write_offset lg"
    and "replay_offset lg + entries_size (address_align c) es \<noteq> write_offset lg \<longrightarrow>
      replay_offset lg + entries_size (address_align c) es < length (cells f) \<and>
      (replay_offset lg + entries_size (address_align c) es + 18 \<le> length (cells f) \<longrightarrow>
        blank (cells f) (replay_offset lg + entries_size (address_align c) es) 4)"
  shows "\<exists>lg' v'. blackbox_logger_iterate_replay (\<lambda>_. True) lg (Some (payload_cb h)) p (Some v) cap f
      = Some (BLACKBOX_LOGGER_ERR_INVALID_ENTRY, lg', v', fold h (map snd es) p)
    \<and> replay_offset lg' = write_offset lg \<and> write_offset lg' = write_offset lg"
  using assms
proof (induction es arbitrary: lg c v p)
  case Nil
  show ?case
  proof (cases "replay_offset lg = write_offset lg")
    case True
    then show ?thesis
      by (subst blackbox_logger_iterate_replay.simps)
        (simp add: blackbox_logger_next_replay_def blackbox_logger_has_replay_data_def)
  next
    case False
    with Nil.prems(9) have "replay_offset lg < length (cells f)"
      "replay_offset lg + 18 \<le> length (cells f) \<longrightarrow> blank (cells f) (replay_offset lg) 4" by auto
    from next_replay_blank [OF Nil.prems(1-3) g this Nil.prems(7) False, of "payload_cb h" p]
    show ?thesis by (subst blackbox_logger_iterate_replay.simps) auto
  qed
next
  case (Cons e es)
  obtain i d where e: "e = (i, d)" by (cases e)
  let ?s = "entry_size (address_align c) (length d)"
  have al: "alignment (address_align c)" using Cons.prems(1) by (simp add: config_ok_def)
  have "0 < ?s" using entry_size_bounds [OF al, of "length d"] by simp
  with Cons.prems(8) e have more: "replay_offset lg \<noteq> write_offset lg" by auto
  have small: "replayable c cap [(i, d)]" "replayable c cap es" "length d \<le> cap"
    using Cons.prems(6) e by (simp_all add: replayable_def)
  obtain c' where nx: "blackbox_logger_next_replay True lg (Some (payload_cb h)) p (Some v) cap f
      = Some (BLACKBOX_LOGGER_OK, lg\<lparr>config_ptr := Some c', replay_offset := replay_offset lg + ?s\<rparr>,
          Some (view_with v d), h d p)"
    and c': "config_ok rd wr er sector (length (cells f)) c'" "address_align c' = address_align c"
      "batch_buf_size c' = batch_buf_size c"
    using next_replay_entry [OF Cons.prems(1-3) g Cons.prems(5) [unfolded e] small(1) Cons.prems(7) more, of h p] by blast
  let ?lg = "lg\<lparr>config_ptr := Some c', replay_offset := replay_offset lg + ?s\<rparr>"
  have "\<exists>lg' v'. blackbox_logger_iterate_replay (\<lambda>_. True) ?lg (Some (payload_cb h)) (h d p) (Some (view_with v d)) cap f
      = Some (BLACKBOX_LOGGER_ERR_INVALID_ENTRY, lg', v', fold h (map snd es) (h d p))
    \<and> replay_offset lg' = write_offset ?lg \<and> write_offset lg' = write_offset ?lg"
  proof (rule Cons.IH [OF c'(1)])
    show "laid_out (address_align c') (cells f) (replay_offset ?lg) es" using Cons.prems(5) e c'(2) by simp
    show "replayable c' cap es" using small(2) c'(3) by (simp add: replayable_def)
    show "view_room (view_with v d) cap" using Cons.prems(7) small(3) by simp
    show "write_offset ?lg < replay_offset ?lg \<or> replay_offset ?lg + entries_size (address_align c') es \<le> write_offset ?lg"
      using Cons.prems(8) e c'(2) by auto
    show "replay_offset ?lg + entries_size (address_align c') es \<noteq> write_offset ?lg \<longrightarrow>
      replay_offset ?lg + entries_size (address_align c') es < length (cells f) \<and>
      (replay_offset ?lg + entries_size (address_align c') es + 18 \<le> length (cells f) \<longrightarrow>
        blank (cells f) (replay_offset ?lg + entries_size (address_align c') es) 4)"
      using Cons.prems(9) e c'(2) by (simp add: add.assoc)
  qed (use Cons.prems g in simp_all)
  with nx e show ?case by (subst blackbox_logger_iterate_replay.simps) simp
qed

end

section \<open>Write, flush, replay\<close>

lemma batch_replayable:
  assumes "config_ok rd wr er sector psize c" and "batch_holds c lg es" and "batch_buf_size c \<le> cap"
  shows "replayable c cap es"
proof -
  have al: "alignment (address_align c)" using assms(1) by (simp add: config_ok_def)
  have "i < 2 ^ 32 \<and> 18 + length d \<le> batch_buf_size c \<and> length d \<le> cap" if "(i, d) \<in> set es" for i d
  proof -
    have "entry_size (address_align c) (length d) \<le> entries_size (address_align c) es"
      using that by (auto simp: entries_size_def intro!: member_le_sum_list image_eqI [of _ _ "(i, d)"])
    then have "entry_size (address_align c) (length d) \<le> batch_buf_size c"
      using assms(2) by (simp add: batch_holds_def)
    then have "18 + length d \<le> batch_buf_size c" using entry_size_bounds [OF al, of "length d"] by simp
    moreover have "i < 2 ^ 32" using assms(2) that by (force simp: batch_holds_def)
    ultimately show ?thesis using assms(3) by simp
  qed
  then show ?thesis by (auto simp: replayable_def)
qed

lemma flushed_config:
  "config_ptr (flushed c lg sector p ro wo) = Some (c\<lparr>parameters := \<lparr>param_write_offset = p,
     param_replay_offset = ro, param_last_id = last_id lg, param_is_dirty = True\<rparr>\<rparr>)"
  "write_offset (flushed c lg sector p ro wo) = wo" "replay_offset (flushed c lg sector p ro wo) = ro"
  "sector_buf_lock (flushed c lg sector p ro wo) = sector_buf_lock lg"
  by (simp_all add: flushed_def)

lemma replay_after_same: "replay_after sector psize wo wo = wo"
  by (simp add: replay_after_def)

context flash_device
begin

lemma flush_replay_one:
  assumes ready: "logger_ready rd wr er cells good sector lg f es" and ne: "es \<noteq> []"
    and wo: "write_offset lg < length (cells f)" and ro: "replay_offset lg = write_offset lg"
    and fits: "write_offset lg + entries_size (align_of lg) es \<le> sec_end sector (write_offset lg)"
    and v: "view_room v cap" "batch_buf_size (the (config_ptr lg)) \<le> cap"
  shows "\<exists>lg1 f1 b lg2 v2. blackbox_logger_flush True True lg f = Some (BLACKBOX_LOGGER_OK, lg1, f1, b)
    \<and> blackbox_logger_iterate_replay (\<lambda>_. True) lg1 (Some (payload_cb h)) p (Some v) cap f1
      = Some (BLACKBOX_LOGGER_ERR_INVALID_ENTRY, lg2, v2, fold h (map snd es) p)
    \<and> \<not> blackbox_logger_has_replay_data lg2"
proof -
  let ?wo = "write_offset lg"
  obtain c where cp: "config_ptr lg = Some c" and ok: "config_ok rd wr er sector (length (cells f)) c"
    and bh: "batch_holds c lg es" and r: "write_lock lg" "sector_buf_lock lg" "good f"
    and ahead: "erased_ahead sector (cells f) lg"
    using ready by (auto simp: logger_ready_def)
  have a: "align_of lg = address_align c" "batch_buf_size c \<le> cap" using cp v by (simp_all add: align_of_def)
  have len: "batch_len lg = entries_size (address_align c) es" using bh by (simp add: batch_holds_def)
  have fits': "entries_size (address_align c) es \<le> sec_end sector ?wo - ?wo" using fits a by simp
  let ?lg1 = "flushed c lg sector ?wo ?wo (?wo + batch_len lg)"
  let ?c1 = "c\<lparr>parameters := \<lparr>param_write_offset = ?wo, param_replay_offset = ?wo,
      param_last_id = last_id lg, param_is_dirty = True\<rparr>\<rparr>"
  obtain f1 bs where fl: "blackbox_logger_flush True True lg f
        = Some (BLACKBOX_LOGGER_OK, ?lg1, f1, on_replay_available_func c)"
    "good f1" "laid_out (address_align c) (cells f1) ?wo es" "length (cells f1) = length (cells f)"
    using flush_one_chunk [OF ok cp r(1,3) bh ne wo ahead fits'] ro
    by (auto simp: replay_after_same chunk_written_def)
  have "\<exists>lg' v'. blackbox_logger_iterate_replay (\<lambda>_. True) ?lg1 (Some (payload_cb h)) p (Some v) cap f1
      = Some (BLACKBOX_LOGGER_ERR_INVALID_ENTRY, lg', v', fold h (map snd es) p)
    \<and> replay_offset lg' = write_offset ?lg1 \<and> write_offset lg' = write_offset ?lg1"
  proof (rule iterate_entries [of _ ?c1])
    show "config_ok rd wr er sector (length (cells f1)) ?c1" using ok fl(4) by (simp add: config_ok_def)
    show "replayable ?c1 cap es" using batch_replayable [OF ok bh a(2)] by (simp add: replayable_def)
  qed (use fl r v len in \<open>simp_all add: flushed_config\<close>)
  with fl(1) show ?thesis by (auto simp: blackbox_logger_has_replay_data_def)
qed

lemma flush_replay_gap:
  assumes ready: "logger_ready rd wr er cells good sector lg f es"
    and wo: "write_offset lg < length (cells f)" and ro: "replay_offset lg = write_offset lg"
    and pre: "pre = fit (align_of lg) (sec_end sector (write_offset lg) - write_offset lg) es"
      "es = pre @ post" "pre \<noteq> []" "post \<noteq> []"
      "entries_size (align_of lg) post < sector"
    and gap: "write_offset lg + entries_size (align_of lg) pre + 4 \<le> sec_end sector (write_offset lg)"
    and v: "view_room v cap" "batch_buf_size (the (config_ptr lg)) \<le> cap"
  shows "\<exists>lg1 f1 b lg2 v2. blackbox_logger_flush True True lg f = Some (BLACKBOX_LOGGER_OK, lg1, f1, b)
    \<and> laid_out (align_of lg) (cells f1) (next_start sector (length (cells f)) (write_offset lg)) post
    \<and> blackbox_logger_iterate_replay (\<lambda>_. True) lg1 (Some (payload_cb h)) p (Some v) cap f1
      = Some (BLACKBOX_LOGGER_ERR_INVALID_ENTRY, lg2, v2, fold h (map snd pre) p)
    \<and> \<not> blackbox_logger_has_replay_data lg2"
proof -
  let ?wo = "write_offset lg" and ?psize = "length (cells f)"
  obtain c where cp: "config_ptr lg = Some c" and ok: "config_ok rd wr er sector ?psize c"
    and bh: "batch_holds c lg es" and r: "write_lock lg" "sector_buf_lock lg" "good f"
    and ahead: "erased_ahead sector (cells f) lg"
    using ready by (auto simp: logger_ready_def)
  have a: "align_of lg = address_align c" "batch_buf_size c \<le> cap" using cp v by (simp_all add: align_of_def)
  have k: "0 < sector" "sector dvd ?psize" "2 * sector \<le> ?psize" using ok by (simp_all add: config_ok_def)
  note e = sec_end_le [OF k(1,2) wo]
  define q where "q = next_start sector ?psize ?wo"
  note ns = next_start_facts [OF k wo, folded q_def]
  let ?x = "?wo + entries_size (address_align c) pre"
  have stuck: "?x \<noteq> ?psize" using gap e a by simp
  have ra: "replay_after sector ?psize q ?wo = ?wo" using ns(3) by (simp add: replay_after_def)
  let ?w1 = "q + entries_size (address_align c) post"
  let ?lg1 = "flushed c lg sector q ?wo ?w1"
  let ?c1 = "c\<lparr>parameters := \<lparr>param_write_offset = q, param_replay_offset = ?wo,
      param_last_id = last_id lg, param_is_dirty = True\<rparr>\<rparr>"
  obtain f1 f2 bs1 bs2 where fl: "blackbox_logger_flush True True lg f
        = Some (BLACKBOX_LOGGER_OK, ?lg1, f2, on_replay_available_func c)" "good f2"
    "laid_out (address_align c) (cells f2) ?wo pre" "laid_out (address_align c) (cells f2) q post"
    "length bs1 = entries_size (address_align c) pre" "length bs2 = entries_size (address_align c) post"
    "chunk_written sector (cells f) ?wo bs1 (last_erased_sector lg = int (?wo div sector)) (cells f1)"
    "chunk_written sector (cells f1) q bs2 False (cells f2)"
    using flush_two_chunks [OF ok cp r(1,3) bh wo ahead pre(1) [unfolded a] pre(2,4) stuck q_def]
    unfolding ro replay_after_same ra if_not_P [OF pre(3)] by blast
  have l: "length (cells f1) = ?psize" "length (cells f2) = ?psize" using fl(7,8) by (simp_all add: chunk_written_def)
  have x: "?x + 4 \<le> sec_end sector ?wo" using gap a by simp
  have "blank (cells f1) ?x (sec_end sector ?wo - ?x)" using fl(5,7) by (simp add: chunk_written_def)
  then have blank1: "blank (cells f1) ?x 4" using x by (elim blank_sub) simp_all
  have "?x + 4 \<le> sec_start sector q \<or> sec_end sector q \<le> ?x"
    using sectors_disjoint [OF k(1) ns(3)] x sec_bounds(1) [OF k(1), of ?wo] by linarith
  then have same: "buf_read (cells f2) ?x 4 = buf_read (cells f1) ?x 4" by (rule chunk_written_other [OF fl(8)])
  have "?x + 4 \<le> length (cells f1)" using x e l(1) by linarith
  then have blank2: "blank (cells f2) ?x 4" using same by (rule blank_same [OF blank1])
  have al: "alignment (address_align c)" using ok by (simp add: config_ok_def)
  have w1: "0 < entries_size (address_align c) pre" "0 < entries_size (address_align c) post" "?w1 < sec_end sector q"
    using entries_size_pos [OF al] pre(3,4,5) a ns(4) sec_bounds(2) [OF k(1), of q] by simp_all
  have "q = sec_start sector q" using ns(2) by (simp add: sec_start_def)
  then have wx: "?w1 < ?wo \<or> ?x \<le> ?w1" "?w1 \<noteq> ?x"
    using sectors_disjoint [OF k(1) ns(3)] x w1 sec_bounds [OF k(1), of ?wo] by linarith+
  have "\<exists>lg' v'. blackbox_logger_iterate_replay (\<lambda>_. True) ?lg1 (Some (payload_cb h)) p (Some v) cap f2
      = Some (BLACKBOX_LOGGER_ERR_INVALID_ENTRY, lg', v', fold h (map snd pre) p)
    \<and> replay_offset lg' = write_offset ?lg1 \<and> write_offset lg' = write_offset ?lg1"
  proof (rule iterate_entries [of _ ?c1])
    show "config_ok rd wr er sector (length (cells f2)) ?c1" using ok l by (simp add: config_ok_def)
    show "replayable ?c1 cap pre"
      using batch_replayable [OF ok bh a(2)] by (auto simp: replayable_def pre(2))
    show "write_offset ?lg1 < replay_offset ?lg1
        \<or> replay_offset ?lg1 + entries_size (address_align ?c1) pre \<le> write_offset ?lg1"
      using wx by (simp add: flushed_config)
    show "replay_offset ?lg1 + entries_size (address_align ?c1) pre \<noteq> write_offset ?lg1 \<longrightarrow>
      replay_offset ?lg1 + entries_size (address_align ?c1) pre < length (cells f2) \<and>
      (replay_offset ?lg1 + entries_size (address_align ?c1) pre + 18 \<le> length (cells f2) \<longrightarrow>
        blank (cells f2) (replay_offset ?lg1 + entries_size (address_align ?c1) pre) 4)"
      using x e l blank2 by (simp add: flushed_config)
  qed (use fl r v in \<open>simp_all add: flushed_config\<close>)
  with fl(1,4) a show ?thesis unfolding q_def by (auto simp: blackbox_logger_has_replay_data_def)
qed

end

section \<open>Properties\<close>

text \<open>
  C8. End to end: a flushed batch that fits into the current sector comes back from the replay
  loop. With nothing left to replay before, the loop calls the callback with exactly the payloads
  of the batch, in the order they were written, whatever the callback accumulates; it then ends
  with an error code for the empty backlog and nothing is left to replay.
\<close>

theorem blackbox_flush_then_replay:
  assumes "flash_device rd wr er cells good sector"
    and "logger_ready rd wr er cells good sector lg f es" and "es \<noteq> []"
    and "write_offset lg < length (cells f)" and "replay_offset lg = write_offset lg"
    and "write_offset lg + entries_size (align_of lg) es \<le> sec_end sector (write_offset lg)"
    and "view_room v cap" and "batch_buf_size (the (config_ptr lg)) \<le> cap"
  shows "\<exists>lg1 f1 b lg2 v2. blackbox_logger_flush True True lg f = Some (BLACKBOX_LOGGER_OK, lg1, f1, b)
    \<and> blackbox_logger_iterate_replay (\<lambda>_. True) lg1 (Some (payload_cb h)) p (Some v) cap f1
      = Some (BLACKBOX_LOGGER_ERR_INVALID_ENTRY, lg2, v2, fold h (map snd es) p)
    \<and> \<not> blackbox_logger_has_replay_data lg2"
  by (rule flash_device.flush_replay_one [OF assms])

definition view_example :: blackbox_logger_entry_view where
  "view_example = \<lparr>data_ptr = Some (replicate 2048 0), view_length = 0\<rparr>"

lemma view_room_example: "view_room view_example 2048"
  by (simp add: view_room_def view_example_def)

lemma blackbox_flush_then_replay_witness:
  "\<exists>lg lg1 f1 b lg2 v2. blackbox_logger_flush True True lg mock_example = Some (BLACKBOX_LOGGER_OK, lg1, f1, b)
    \<and> blackbox_logger_iterate_replay (\<lambda>_. True) lg1 (Some (payload_cb (#))) [] (Some view_example) 2048 f1
      = Some (BLACKBOX_LOGGER_ERR_INVALID_ENTRY, lg2, v2, [[8], [7, 9]])
    \<and> \<not> blackbox_logger_has_replay_data lg2"
proof -
  obtain lg where lg: "logger_ready mock_read mock_write mock_erase_range memory mock_good 4096 lg mock_example [(1, [7, 9]), (2, [8])]"
    "write_offset lg = 100" "replay_offset lg = 100" "align_of lg = 4" "batch_buf_size (the (config_ptr lg)) = 1024"
    using ready_example_two [of 100] by auto
  have "[(1, [7, 9]), (2, [8])] \<noteq> ([] :: log_entry list)" "write_offset lg < length (memory mock_example)"
    "replay_offset lg = write_offset lg"
    "write_offset lg + entries_size (align_of lg) [(1, [7, 9]), (2, [8])] \<le> sec_end 4096 (write_offset lg)"
    by (simp_all add: lg(2,3,4) mock_example_def sec_end_def entry_size_def)
  note r = blackbox_flush_then_replay [OF mock_device lg(1) this view_room_example, of "(#)" "[]"]
  have "batch_buf_size (the (config_ptr lg)) \<le> 2048" "fold (#) (map snd [(1 :: nat, [7, 9]), (2, [8])]) [] = [[8], [7, 9 :: byte]]"
    by (simp_all add: lg(5))
  with r show ?thesis by metis
qed

text \<open>
  C23. When a batch is split at a sector's end, the replay stops there: the flush stores the rest
  of the batch at the start of the next sector, where it stays, but the replay reads the blank
  bytes behind the last entry of the first sector, gives up, and moves the replay offset to the
  write offset. The entries of the next sector are never handed to the callback.
\<close>

theorem blackbox_replay_loses_next_sector:
  assumes "flash_device rd wr er cells good sector"
    and "logger_ready rd wr er cells good sector lg f es"
    and "write_offset lg < length (cells f)" and "replay_offset lg = write_offset lg"
    and "pre = fit (align_of lg) (sec_end sector (write_offset lg) - write_offset lg) es"
    and "es = pre @ post" and "pre \<noteq> []" and "post \<noteq> []" and "entries_size (align_of lg) post < sector"
    and "write_offset lg + entries_size (align_of lg) pre + 4 \<le> sec_end sector (write_offset lg)"
    and "view_room v cap" and "batch_buf_size (the (config_ptr lg)) \<le> cap"
  shows "\<exists>lg1 f1 b lg2 v2. blackbox_logger_flush True True lg f = Some (BLACKBOX_LOGGER_OK, lg1, f1, b)
    \<and> laid_out (align_of lg) (cells f1) (next_start sector (length (cells f)) (write_offset lg)) post
    \<and> blackbox_logger_iterate_replay (\<lambda>_. True) lg1 (Some (payload_cb h)) p (Some v) cap f1
      = Some (BLACKBOX_LOGGER_ERR_INVALID_ENTRY, lg2, v2, fold h (map snd pre) p)
    \<and> \<not> blackbox_logger_has_replay_data lg2"
  by (rule flash_device.flush_replay_gap [OF assms])

lemma blackbox_replay_loses_next_sector_witness:
  "\<exists>lg lg1 f1 b lg2 v2.
      logger_ready mock_read mock_write mock_erase_range memory mock_good 4096 lg mock_example [(1, [7, 9]), (2, [8])]
    \<and> blackbox_logger_flush True True lg mock_example = Some (BLACKBOX_LOGGER_OK, lg1, f1, b)
    \<and> laid_out 4 (memory f1) 4096 [(2, [8])]
    \<and> blackbox_logger_iterate_replay (\<lambda>_. True) lg1 (Some (payload_cb (#))) [] (Some view_example) 2048 f1
      = Some (BLACKBOX_LOGGER_ERR_INVALID_ENTRY, lg2, v2, [[7, 9]])
    \<and> \<not> blackbox_logger_has_replay_data lg2"
proof -
  obtain lg where lg: "logger_ready mock_read mock_write mock_erase_range memory mock_good 4096 lg mock_example [(1, [7, 9]), (2, [8])]"
    "write_offset lg = 4068" "replay_offset lg = 4068" "align_of lg = 4" "batch_buf_size (the (config_ptr lg)) = 1024"
    using ready_example_two [of 4068] by auto
  have f: "write_offset lg < length (memory mock_example)" "replay_offset lg = write_offset lg"
    "[(1, [7, 9])] = fit (align_of lg) (sec_end 4096 (write_offset lg) - write_offset lg) [(1, [7, 9]), (2, [8])]"
    "[(1, [7, 9]), (2, [8])] = [(1, [7, 9])] @ [(2, [8] :: bytes)]"
    "[(1, [7, 9])] \<noteq> ([] :: log_entry list)" "[(2, [8])] \<noteq> ([] :: log_entry list)"
    "entries_size (align_of lg) [(2, [8])] < 4096"
    "write_offset lg + entries_size (align_of lg) [(1, [7, 9])] + 4 \<le> sec_end 4096 (write_offset lg)"
    by (simp_all add: lg(2,3,4) mock_example_def sec_end_def entry_size_def)
  have "next_start 4096 (length (memory mock_example)) (write_offset lg) = 4096"
    by (simp add: lg(2) next_start_def sec_end_def mock_example_def)
  note r = blackbox_replay_loses_next_sector [OF mock_device lg(1) f view_room_example, of "(#)" "[]", unfolded this lg(4)]
  have "batch_buf_size (the (config_ptr lg)) \<le> 2048" "fold (#) (map snd [(1 :: nat, [7, 9 :: byte])]) [] = [[7, 9]]"
    by (simp_all add: lg(5))
  with r lg(1) show ?thesis by metis
qed

end
