(* ===== verification/Blackbox_Queue.thy ===== *)
theory Blackbox_Queue imports Blackbox_Replay begin

text \<open>
  The logger as a queue. Within a sector, \<open>blackbox_logger_write\<close>, \<open>blackbox_logger_flush\<close> and
  \<open>blackbox_logger_next_replay\<close> implement two lists of payloads: the pending ones, in the batch
  buffer, and the backlog, in flash and not yet replayed.
\<close>

section \<open>The specification\<close>

datatype log_op = Log_write bytes | Log_flush | Log_replay bool

record payloads =
  q_pending :: "bytes list"
  q_backlog :: "bytes list"

definition payload_size :: "nat \<Rightarrow> bytes list \<Rightarrow> nat" where
  "payload_size a ds = sum_list (map (\<lambda>d. entry_size a (length d)) ds)"

lemma payload_size_simps [simp]:
  "payload_size a [] = 0" "payload_size a (d # ds) = entry_size a (length d) + payload_size a ds"
  "payload_size a (ds @ ds') = payload_size a ds + payload_size a ds'"
  by (simp_all add: payload_size_def)

lemma payload_size_map: "payload_size a (map snd es) = entries_size a es"
  by (simp add: payload_size_def entries_size_def comp_def)

text \<open>
  A write that does not fit into the batch buffer of \<open>B\<close> bytes flushes first. A replay offers the
  oldest payload of the backlog to a callback that accepts it or not; the output is what was
  accepted.
\<close>

fun queue_do :: "nat \<Rightarrow> nat \<Rightarrow> log_op \<Rightarrow> payloads \<Rightarrow> (blackbox_logger_err \<times> bytes list) \<times> payloads" where
  "queue_do B a (Log_write d) q =
     ((BLACKBOX_LOGGER_OK, []),
      if payload_size a (q_pending q) + entry_size a (length d) \<le> B then q\<lparr>q_pending := q_pending q @ [d]\<rparr>
      else \<lparr>q_pending = [d], q_backlog = q_backlog q @ q_pending q\<rparr>)"
| "queue_do B a Log_flush q =
     ((if q_pending q = [] then BLACKBOX_LOGGER_ERR_INVALID_ARG else BLACKBOX_LOGGER_OK, []),
      \<lparr>q_pending = [], q_backlog = q_backlog q @ q_pending q\<rparr>)"
| "queue_do B a (Log_replay accept) q =
     (case q_backlog q of
        [] \<Rightarrow> ((BLACKBOX_LOGGER_ERR_INVALID_ENTRY, []), q)
      | d # ds \<Rightarrow> if accept then ((BLACKBOX_LOGGER_OK, [d]), q\<lparr>q_backlog := ds\<rparr>)
                  else ((BLACKBOX_LOGGER_ERR_PROCESS_FAIL, []), q))"

fun queue_run :: "nat \<Rightarrow> nat \<Rightarrow> log_op list \<Rightarrow> payloads \<Rightarrow> (blackbox_logger_err \<times> bytes list) list \<times> payloads" where
  "queue_run B a [] q = ([], q)"
| "queue_run B a (x # xs) q =
     (let (out, q) = queue_do B a x q; (outs, q) = queue_run B a xs q in (out # outs, q))"

fun written :: "log_op list \<Rightarrow> bytes list" where
  "written [] = []"
| "written (Log_write d # xs) = d # written xs"
| "written (Log_flush # xs) = written xs"
| "written (Log_replay acc # xs) = written xs"

text \<open>Every payload comes out at most once, in the order of the writes.\<close>

lemma queue_run_fifo:
  "queue_run B a xs q = (outs, q') \<Longrightarrow>
     concat (map snd outs) @ q_backlog q' @ q_pending q' = q_backlog q @ q_pending q @ written xs"
proof (induction xs arbitrary: q outs)
  case (Cons x xs)
  obtain out q1 where 1: "queue_do B a x q = (out, q1)" by (cases "queue_do B a x q")
  obtain outs1 where 2: "queue_run B a xs q1 = (outs1, q')" "outs = out # outs1"
    using Cons.prems 1 by (auto split: prod.splits)
  from Cons.IH [OF 2(1)] 1 2(2) show ?case
    by (cases x) (auto split: if_splits list.splits)
qed simp

section \<open>The logger\<close>

text \<open>The callback of the replay writes down the payloads that it accepts.\<close>

definition offer :: "bool \<Rightarrow> blackbox_logger_entry_view \<Rightarrow> bytes list \<Rightarrow> bool \<times> bytes list" where
  "offer accept v out = (accept, if accept then out @ [take (view_length v) (the (data_ptr v))] else out)"

text \<open>An operation, with the caller's buffer \<open>v\<close> of \<open>cap\<close> bytes for the replays.\<close>

fun log_do :: "nat \<Rightarrow> log_op \<Rightarrow> 'f blackbox_logger \<times> 'f \<times> blackbox_logger_entry_view
    \<Rightarrow> ((blackbox_logger_err \<times> bytes list) \<times> 'f blackbox_logger \<times> 'f \<times> blackbox_logger_entry_view) option" where
  "log_do cap (Log_write d) (lg, f, v) =
     map_option (\<lambda>(err, lg, f, _). ((err, []), lg, f, v)) (blackbox_logger_write True True True lg (Some (view_of d)) f)"
| "log_do cap Log_flush (lg, f, v) =
     map_option (\<lambda>(err, lg, f, _). ((err, []), lg, f, v)) (blackbox_logger_flush True True lg f)"
| "log_do cap (Log_replay accept) (lg, f, v) =
     do {
       (err, lg, view, out) \<leftarrow> blackbox_logger_next_replay True lg (Some (offer accept)) [] (Some v) cap f;
       v \<leftarrow> view;
       Some ((err, out), lg, f, v)
     }"

fun log_run :: "nat \<Rightarrow> log_op list \<Rightarrow> 'f blackbox_logger \<times> 'f \<times> blackbox_logger_entry_view
    \<Rightarrow> ((blackbox_logger_err \<times> bytes list) list \<times> 'f blackbox_logger \<times> 'f \<times> blackbox_logger_entry_view) option" where
  "log_run cap [] st = Some ([], st)"
| "log_run cap (x # xs) st =
     do {
       (out, st) \<leftarrow> log_do cap x st;
       (outs, st) \<leftarrow> log_run cap xs st;
       Some (out # outs, st)
     }"

text \<open>
  The logger represents the entries \<open>pend\<close> and \<open>back\<close>. Behind the pending ones there are \<open>space\<close>
  more bytes in the sector.
\<close>

definition log_queue where
  "log_queue rd wr er cells good sector cap lg f pend back space \<longleftrightarrow>
     logger_ready rd wr er cells good sector lg f pend
     \<and> laid_out (align_of lg) (cells f) (replay_offset lg) back
     \<and> replay_offset lg + entries_size (align_of lg) back = write_offset lg
     \<and> write_offset lg + entries_size (align_of lg) pend + space = sec_end sector (write_offset lg) \<and> 0 < space
     \<and> write_offset lg < length (cells f)
     \<and> (back \<noteq> [] \<longrightarrow> sec_start sector (write_offset lg) \<le> replay_offset lg
          \<and> last_erased_sector lg = int (write_offset lg div sector))
     \<and> replayable (the (config_ptr lg)) cap back \<and> batch_buf_size (the (config_ptr lg)) \<le> cap"

text \<open>A write that does not fit into the batch is a flush and then a write.\<close>

lemma write_flushes_first:
  assumes "config_ptr lg = Some c" and "batch_buf c \<noteq> None" and "write_lock lg" "flush_timer lg \<noteq> None" and "d \<noteq> []"
    and "sz = entry_total_aligned_size_helper (length d) (address_align c)" and "sz \<le> batch_buf_size c"
    and "batch_buf_size c < u32_add (batch_len lg) sz"
    and "blackbox_logger_flush True True (lg\<lparr>flush_timer := Some False\<rparr>) f = Some (BLACKBOX_LOGGER_OK, lg1, f1, b)"
    and "config_ptr lg1 = Some c1" and "batch_buf c1 \<noteq> None" and "write_lock lg1" "flush_timer lg1 \<noteq> None"
    and "address_align c1 = address_align c" "batch_buf_size c1 = batch_buf_size c"
    and "u32_add (batch_len lg1) sz \<le> batch_buf_size c"
  shows "blackbox_logger_write True True True lg (Some (view_of d)) f
    = map_option (\<lambda>(e, l, g, _). (e, l, g, b)) (blackbox_logger_write True True True lg1 (Some (view_of d)) f1)"
  using assms by (auto simp: blackbox_logger_write_def view_of_def Let_def map_option_bind option.map_comp comp_def)

lemma write_after_flush:
  assumes ready: "logger_ready rd wr er cells good sector lg f es" and d: "d \<noteq> []"
    and one: "entry_size (align_of lg) (length d) \<le> batch_buf_size (the (config_ptr lg))"
    and full: "batch_buf_size (the (config_ptr lg)) < entries_size (align_of lg) es + entry_size (align_of lg) (length d)"
    and fl: "blackbox_logger_flush True True (lg\<lparr>flush_timer := Some False\<rparr>) f = Some (BLACKBOX_LOGGER_OK, lg1, f1, b)"
    and ready1: "logger_ready rd wr er cells good sector lg1 f1 []"
    and same: "align_of lg1 = align_of lg" "batch_buf_size (the (config_ptr lg1)) = batch_buf_size (the (config_ptr lg))"
  shows "blackbox_logger_write True True True lg (Some (view_of d)) f
    = map_option (\<lambda>(e, l, g, _). (e, l, g, b)) (blackbox_logger_write True True True lg1 (Some (view_of d)) f1)"
proof -
  obtain c where c: "config_ptr lg = Some c" "config_ok rd wr er sector (length (cells f)) c" "batch_holds c lg es"
    "write_lock lg" "flush_timer lg \<noteq> None" using ready by (auto simp: logger_ready_def)
  obtain c1 where c1: "config_ptr lg1 = Some c1" "config_ok rd wr er sector (length (cells f1)) c1" "batch_holds c1 lg1 []"
    "write_lock lg1" "flush_timer lg1 \<noteq> None" using ready1 by (auto simp: logger_ready_def)
  let ?sz = "entry_size (address_align c) (length d)"
  have a: "align_of lg = address_align c" "alignment (address_align c)" "address_align c1 = address_align c"
    "batch_buf_size c1 = batch_buf_size c"
    using same c(1,2) c1(1) by (simp_all add: align_of_def config_ok_def)
  have b: "batch_buf c \<noteq> None" "batch_buf c1 \<noteq> None" "batch_buf_size c < 2 ^ 31" "batch_len lg = entries_size (address_align c) es"
    "batch_len lg \<le> batch_buf_size c" "batch_len lg1 = 0"
    using c(2,3) c1(2,3) by (auto simp: config_ok_def batch_holds_def)
  have "18 + length d \<le> ?sz" using entry_size_bounds [OF a(2)] by blast
  then have sz: "entry_total_aligned_size_helper (length d) (address_align c) = ?sz"
    using one b(3) c(1) a(1,2) by (intro entry_total_aligned_size_eq) simp_all
  have "u32_add (batch_len lg) ?sz = batch_len lg + ?sz" "u32_add 0 ?sz = ?sz"
    using one b(3,5) c(1) a(1) by (simp_all add: u32_add_small)
  then show ?thesis
    using one full c c1 a b sz fl d by (intro write_flushes_first [of lg c d ?sz f lg1 f1 b c1]) simp_all
qed

context flash_device
begin

abbreviation holds where "holds cap lg f pend back space \<equiv> log_queue rd wr er cells good sector cap lg f pend back space"

lemma queue_ready:
  assumes "holds cap lg f pend back space"
  obtains c where "config_ptr lg = Some c" "config_ok rd wr er sector (length (cells f)) c" "batch_holds c lg pend"
    "write_lock lg" "sector_buf_lock lg" "flush_timer lg \<noteq> None" "good f" "erased_ahead sector (cells f) lg"
    "align_of lg = address_align c" "alignment (address_align c)" "batch_len lg = entries_size (address_align c) pend"
  using assms by (auto simp: log_queue_def logger_ready_def align_of_def config_ok_def batch_holds_def)

text \<open>A flush moves the pending entries behind the backlog.\<close>

lemma queue_flush:
  assumes q: "holds cap lg f pend back space" and ne: "pend \<noteq> []"
  shows "\<exists>lg' f' b. blackbox_logger_flush True True lg f = Some (BLACKBOX_LOGGER_OK, lg', f', b)
    \<and> holds cap lg' f' [] (back @ pend) space \<and> align_of lg' = align_of lg
    \<and> batch_buf_size (the (config_ptr lg')) = batch_buf_size (the (config_ptr lg)) \<and> last_id lg' = last_id lg"
proof (rule queue_ready [OF q])
  fix c
  assume c: "config_ptr lg = Some c" "config_ok rd wr er sector (length (cells f)) c" "batch_holds c lg pend"
    "write_lock lg" "sector_buf_lock lg" "flush_timer lg \<noteq> None" "good f" "erased_ahead sector (cells f) lg"
    "align_of lg = address_align c" "alignment (address_align c)" "batch_len lg = entries_size (address_align c) pend"
  let ?wo = "write_offset lg" and ?a = "address_align c" and ?n = "entries_size (address_align c) pend"
  have bk: "laid_out ?a (cells f) (replay_offset lg) back" "replay_offset lg + entries_size ?a back = ?wo"
    and sp: "?wo + ?n + space = sec_end sector ?wo" "0 < space" and wo: "?wo < length (cells f)"
    and sec: "back \<noteq> [] \<longrightarrow> sec_start sector ?wo \<le> replay_offset lg \<and> last_erased_sector lg = int (?wo div sector)"
    and small: "replayable c cap back" "batch_buf_size c \<le> cap"
    using q c(1,9) by (simp_all add: log_queue_def)
  have k: "0 < sector" "sector dvd length (cells f)" using c(2) by (simp_all add: config_ok_def)
  have fits: "?n \<le> sec_end sector ?wo - ?wo" using sp by simp
  let ?lg = "flushed c lg sector ?wo (replay_offset lg) (?wo + ?n)"
  have "replay_after sector (length (cells f)) ?wo (replay_offset lg) = replay_offset lg"
    using bk(2) by (simp add: replay_after_def)
  then obtain f' bs where fl: "blackbox_logger_flush True True lg f
      = Some (BLACKBOX_LOGGER_OK, ?lg, f', on_replay_available_func c)" "good f'" "length bs = ?n"
    "laid_out ?a (cells f') ?wo pend"
    "chunk_written sector (cells f) ?wo bs (last_erased_sector lg = int (?wo div sector)) (cells f')"
    using flush_one_chunk [OF c(2,1,4,7,3) ne wo c(8) fits] c(11) by auto
  have l: "length (cells f') = length (cells f)" using fl(5) by (simp add: chunk_written_def)
  have end_le: "sec_end sector ?wo \<le> length (cells f)" by (rule sec_end_le [OF k wo])
  have old: "laid_out ?a (cells f') (replay_offset lg) back"
  proof (cases "back = []")
    case False
    show ?thesis
    proof (rule laid_out_transfer [OF bk(1) c(10)])
      show "replay_offset lg + entries_size ?a back \<le> length (cells f')" using bk(2) wo l by simp
      fix j k
      assume "j + k \<le> entries_size ?a back"
      then have "replay_offset lg + j + k \<le> ?wo" "sec_start sector ?wo \<le> replay_offset lg + j"
        using bk(2) sec False by auto
      then show "buf_read (cells f') (replay_offset lg + j) k = buf_read (cells f) (replay_offset lg + j) k"
        using chunk_written_before [OF fl(5)] sec False by simp
    qed
  qed simp
  have same: "(?wo + ?n) div sector = ?wo div sector"
    using sp by (intro same_sector [OF k(1)]) simp_all
  have "erased_ahead sector (cells f') ?lg"
    using fl(3) sp by (intro erased_ahead_flushed [OF k(1) _ fl(5)]) simp_all
  then have ready: "logger_ready rd wr er cells good sector ?lg f' []"
    using sp end_le bk(2) wo c(4-6)
    by (intro logger_ready_flushed [where cells = cells and good = good and f = f and f' = f', OF c(2,1,4,6) fl(2) l]) simp_all
  have "sec_start sector ?wo \<le> replay_offset lg"
    using sec bk(2) sec_bounds(1) [OF k(1), of ?wo] by (cases "back = []") simp_all
  then have "holds cap ?lg f' [] (back @ pend) space"
    using ready old fl(4) bk(2) sp end_le l same small batch_replayable [OF c(2,3) small(2)]
    by (auto simp: log_queue_def flushed_def align_of_def laid_out_append sec_start_def sec_end_def replayable_def)
  with fl(1) c(1,9) show ?thesis by (intro exI [of _ ?lg] exI [of _ f']) (simp add: flushed_def align_of_def)
qed

lemma queue_flush_empty:
  assumes "holds cap lg f [] back space"
  shows "blackbox_logger_flush True True lg f = Some (BLACKBOX_LOGGER_ERR_INVALID_ARG, lg, f, False)"
  using assms by (auto simp: log_queue_def logger_ready_def config_ok_def batch_holds_def blackbox_logger_flush_def)

text \<open>A write that fits into the batch.\<close>

lemma queue_write:
  assumes q: "holds cap lg f pend back space" and d: "d \<noteq> []"
    and fits: "entries_size (align_of lg) pend + entry_size (align_of lg) (length d) \<le> batch_buf_size (the (config_ptr lg))"
    and room: "entry_size (align_of lg) (length d) < space"
  shows "\<exists>lg' i. blackbox_logger_write over_old got_flush_lock True lg (Some (view_of d)) f = Some (BLACKBOX_LOGGER_OK, lg', f, False)
    \<and> holds cap lg' f (pend @ [(i, d)]) back (space - entry_size (align_of lg) (length d)) \<and> align_of lg' = align_of lg
    \<and> batch_buf_size (the (config_ptr lg')) = batch_buf_size (the (config_ptr lg))"
proof (rule queue_ready [OF q])
  fix c
  assume c: "config_ptr lg = Some c" "align_of lg = address_align c" "batch_len lg = entries_size (address_align c) pend"
  have ready: "logger_ready rd wr er cells good sector lg f pend" using q by (simp add: log_queue_def)
  have "batch_len lg + entry_size (align_of lg) (length d) \<le> batch_buf_size (the (config_ptr lg))" using fits c by simp
  from write_ready [OF ready d this, of over_old got_flush_lock]
  obtain lg' where w: "blackbox_logger_write over_old got_flush_lock True lg (Some (view_of d)) f = Some (BLACKBOX_LOGGER_OK, lg', f, False)"
    "logger_ready rd wr er cells good sector lg' f (pend @ [(u32_add (last_id lg) 1, d)])"
    "write_offset lg' = write_offset lg" "replay_offset lg' = replay_offset lg"
    "last_erased_sector lg' = last_erased_sector lg" "align_of lg' = align_of lg"
    "map_option batch_buf_size (config_ptr lg') = map_option batch_buf_size (config_ptr lg)" by blast
  obtain c' where c': "config_ptr lg' = Some c'" using w(2) by (auto simp: logger_ready_def)
  have bs: "batch_buf_size (the (config_ptr lg')) = batch_buf_size (the (config_ptr lg))" using w(7) c(1) c' by simp
  moreover have "replayable (the (config_ptr lg')) cap back" using q bs by (simp add: log_queue_def replayable_def)
  ultimately have "holds cap lg' f (pend @ [(u32_add (last_id lg) 1, d)]) back (space - entry_size (align_of lg) (length d))"
    using q w room by (simp add: log_queue_def)
  with w bs show ?thesis by blast
qed

lemma queue_write_full:
  assumes q: "holds cap lg f pend back space" and d: "d \<noteq> []"
    and one: "entry_size (align_of lg) (length d) \<le> batch_buf_size (the (config_ptr lg))"
    and full: "batch_buf_size (the (config_ptr lg)) < entries_size (align_of lg) pend + entry_size (align_of lg) (length d)"
    and room: "entry_size (align_of lg) (length d) < space"
  shows "\<exists>lg' f' i b. blackbox_logger_write True True True lg (Some (view_of d)) f = Some (BLACKBOX_LOGGER_OK, lg', f', b)
    \<and> holds cap lg' f' [(i, d)] (back @ pend) (space - entry_size (align_of lg) (length d)) \<and> align_of lg' = align_of lg
    \<and> batch_buf_size (the (config_ptr lg')) = batch_buf_size (the (config_ptr lg))"
proof (rule queue_ready [OF q])
  fix c
  assume c: "config_ptr lg = Some c" "config_ok rd wr er sector (length (cells f)) c" "batch_holds c lg pend"
    "write_lock lg" "flush_timer lg \<noteq> None" "align_of lg = address_align c"
  let ?lg = "lg\<lparr>flush_timer := Some False\<rparr>" and ?sz = "entry_size (address_align c) (length d)"
  have ne: "pend \<noteq> []" using one full c(1,6) by auto
  have q': "holds cap ?lg f pend back space"
    using q by (simp add: log_queue_def logger_ready_def batch_holds_def erased_ahead_def align_of_def)
  obtain lg1 f1 b where fl: "blackbox_logger_flush True True ?lg f = Some (BLACKBOX_LOGGER_OK, lg1, f1, b)"
    "holds cap lg1 f1 [] (back @ pend) space" "align_of lg1 = align_of lg"
    "batch_buf_size (the (config_ptr lg1)) = batch_buf_size c"
    using queue_flush [OF q' ne] c(1) by (auto simp: align_of_def)
  obtain lg2 i where w: "blackbox_logger_write True True True lg1 (Some (view_of d)) f1 = Some (BLACKBOX_LOGGER_OK, lg2, f1, False)"
    "holds cap lg2 f1 ([] @ [(i, d)]) (back @ pend) (space - ?sz)" "align_of lg2 = align_of lg"
    "batch_buf_size (the (config_ptr lg2)) = batch_buf_size c"
    using queue_write [OF fl(2) d, of True True] one room fl(3,4) c(1,6) by auto
  have "logger_ready rd wr er cells good sector lg f pend" "logger_ready rd wr er cells good sector lg1 f1 []"
    using q fl(2) by (simp_all add: log_queue_def)
  from write_after_flush [OF this(1) d one full fl(1) this(2)] have "blackbox_logger_write True True True lg (Some (view_of d)) f
      = map_option (\<lambda>(e, l, g, _). (e, l, g, b)) (blackbox_logger_write True True True lg1 (Some (view_of d)) f1)"
    using fl(3,4) c(1) by simp
  with w c(1) show ?thesis by (intro exI [of _ lg2] exI [of _ f1] exI [of _ i] exI [of _ b]) (simp add: c(6))
qed

text \<open>A replay.\<close>

lemma queue_replay:
  assumes q: "holds cap lg f pend ((i, d) # back) space" and v: "view_room v cap"
  shows "\<exists>lg' v'. blackbox_logger_next_replay True lg (Some (offer accept)) [] (Some v) cap f
      = Some (if accept then BLACKBOX_LOGGER_OK else BLACKBOX_LOGGER_ERR_PROCESS_FAIL, lg', Some v', if accept then [d] else [])
    \<and> holds cap lg' f pend (if accept then back else (i, d) # back) space \<and> view_room v' cap \<and> align_of lg' = align_of lg
    \<and> batch_buf_size (the (config_ptr lg')) = batch_buf_size (the (config_ptr lg))"
proof (rule queue_ready [OF q])
  fix c
  assume c: "config_ptr lg = Some c" "config_ok rd wr er sector (length (cells f)) c" "sector_buf_lock lg" "good f"
    "align_of lg = address_align c" "alignment (address_align c)"
  let ?sz = "entry_size (address_align c) (length d)"
  have lay: "laid_out (address_align c) (cells f) (replay_offset lg) ((i, d) # back)" and small: "replayable c cap ((i, d) # back)"
    and at: "replay_offset lg + ?sz + entries_size (address_align c) back = write_offset lg"
    using q c(1,5) by (simp_all add: log_queue_def)
  have "0 < ?sz" using entry_size_bounds [OF c(6), of "length d"] by simp
  then have more: "replay_offset lg \<noteq> write_offset lg" using at by simp
  have one: "replayable c cap [(i, d)]" "length d \<le> cap" using small by (simp_all add: replayable_def)
  have cb: "offer accept (view_with v d) [] = (accept, if accept then [d] else [])" by (simp add: offer_def)
  obtain c' where n: "blackbox_logger_next_replay True lg (Some (offer accept)) [] (Some v) cap f
      = Some (if accept then BLACKBOX_LOGGER_OK else BLACKBOX_LOGGER_ERR_PROCESS_FAIL, lg\<lparr>config_ptr := Some c',
          replay_offset := replay_offset lg + (if accept then ?sz else 0)\<rparr>, Some (view_with v d), if accept then [d] else [])"
    and c': "config_ok rd wr er sector (length (cells f)) c'" "address_align c' = address_align c"
      "batch_buf_size c' = batch_buf_size c" "batch_buf c' = batch_buf c"
    using next_replay_offer [where cb = "offer accept" and p = "[]", OF c(2,1,3,4) lay one(1) v more cb] by blast
  let ?lg = "lg\<lparr>config_ptr := Some c', replay_offset := replay_offset lg + (if accept then ?sz else 0)\<rparr>"
  have "logger_ready rd wr er cells good sector ?lg f pend"
    using q c(1) c' at by (simp add: log_queue_def logger_ready_def batch_holds_def erased_ahead_def)
  then have "holds cap ?lg f pend (if accept then back else (i, d) # back) space"
    using q c(1,5) c' lay at small by (auto simp: log_queue_def align_of_def replayable_def)
  with n c(1) c' one(2) v show ?thesis
    by (intro exI [of _ ?lg] exI [of _ "view_with v d"]) (simp add: align_of_def)
qed

lemma queue_replay_empty:
  assumes q: "holds cap lg f pend [] space"
  shows "blackbox_logger_next_replay True lg (Some cb) p (Some v) cap f
    = Some (BLACKBOX_LOGGER_ERR_INVALID_ENTRY, lg, Some v, p)"
  using q by (simp add: log_queue_def blackbox_logger_next_replay_def blackbox_logger_has_replay_data_def)

lemma queue_backlog:
  assumes q: "holds cap lg f pend back space"
  shows "blackbox_logger_has_replay_data lg \<longleftrightarrow> back \<noteq> []"
proof (rule queue_ready [OF q])
  fix c
  assume "align_of lg = address_align c" "alignment (address_align c)"
  then show ?thesis using q entries_size_pos [of "align_of lg" "back"]
    by (cases "back = []") (auto simp: log_queue_def blackbox_logger_has_replay_data_def)
qed

text \<open>Every operation does on the logger what the specification does on the payloads.\<close>

lemma log_do_refines:
  assumes q: "holds cap lg f pend back space" and v: "view_room v cap"
    and B: "B = batch_buf_size (the (config_ptr lg))" and a: "a = align_of lg"
    and op: "\<forall>d \<in> set (written [x]). d \<noteq> [] \<and> entry_size a (length d) \<le> B" and room: "payload_size a (written [x]) < space"
    and spec: "queue_do B a x \<lparr>q_pending = map snd pend, q_backlog = map snd back\<rparr> = (out, q')"
  shows "\<exists>lg' f' v' pend' back'. log_do cap x (lg, f, v) = Some (out, lg', f', v') \<and> view_room v' cap
    \<and> holds cap lg' f' pend' back' (space - payload_size a (written [x]))
    \<and> q' = \<lparr>q_pending = map snd pend', q_backlog = map snd back'\<rparr>
    \<and> batch_buf_size (the (config_ptr lg')) = B \<and> align_of lg' = a"
proof (cases x)
  case (Log_write d)
  have d: "d \<noteq> []" "entry_size (align_of lg) (length d) \<le> batch_buf_size (the (config_ptr lg))"
    "entry_size (align_of lg) (length d) < space" using op room Log_write a B by simp_all
  show ?thesis
  proof (cases "entries_size (align_of lg) pend + entry_size (align_of lg) (length d) \<le> batch_buf_size (the (config_ptr lg))")
    case True
    obtain lg' i where w: "blackbox_logger_write True True True lg (Some (view_of d)) f = Some (BLACKBOX_LOGGER_OK, lg', f, False)"
      "holds cap lg' f (pend @ [(i, d)]) back (space - entry_size (align_of lg) (length d))" "align_of lg' = align_of lg"
      "batch_buf_size (the (config_ptr lg')) = batch_buf_size (the (config_ptr lg))"
      using queue_write [OF q d(1) True d(3), of True True] by blast
    have "out = (BLACKBOX_LOGGER_OK, [])" "q' = \<lparr>q_pending = map snd (pend @ [(i, d)]), q_backlog = map snd back\<rparr>"
      using spec True Log_write a B by (auto simp: payload_size_map)
    with w v Log_write a B show ?thesis
      by - (rule exI [of _ lg'], rule exI [of _ f], rule exI [of _ v], rule exI [of _ "pend @ [(i, d)]"], rule exI [of _ "back"], simp)
  next
    case False
    then obtain lg' f' i b where w: "blackbox_logger_write True True True lg (Some (view_of d)) f = Some (BLACKBOX_LOGGER_OK, lg', f', b)"
      "holds cap lg' f' [(i, d)] (back @ pend) (space - entry_size (align_of lg) (length d))" "align_of lg' = align_of lg"
      "batch_buf_size (the (config_ptr lg')) = batch_buf_size (the (config_ptr lg))"
      using queue_write_full [OF q d(1,2) _ d(3)] by auto
    have "out = (BLACKBOX_LOGGER_OK, [])" "q' = \<lparr>q_pending = map snd [(i, d)], q_backlog = map snd (back @ pend)\<rparr>"
      using spec False Log_write a B by (auto simp: payload_size_map)
    with w v Log_write a B show ?thesis
      by - (rule exI [of _ lg'], rule exI [of _ f'], rule exI [of _ v], rule exI [of _ "[(i, d)]"], rule exI [of _ "back @ pend"], simp)
  qed
next
  case Log_flush
  show ?thesis
  proof (cases "pend = []")
    case True
    with q v spec Log_flush a B queue_flush_empty [of cap lg f "back" space] show ?thesis
      by - (rule exI [of _ lg], rule exI [of _ f], rule exI [of _ v], rule exI [of _ pend], rule exI [of _ "back"], auto)
  next
    case False
    obtain lg' f' b where w: "blackbox_logger_flush True True lg f = Some (BLACKBOX_LOGGER_OK, lg', f', b)"
      "holds cap lg' f' [] (back @ pend) space" "align_of lg' = align_of lg"
      "batch_buf_size (the (config_ptr lg')) = batch_buf_size (the (config_ptr lg))"
      using queue_flush [OF q False] by blast
    with False v spec Log_flush a B show ?thesis
      by - (rule exI [of _ lg'], rule exI [of _ f'], rule exI [of _ v], rule exI [of _ "[]"], rule exI [of _ "back @ pend"], auto)
  qed
next
  case (Log_replay accept)
  show ?thesis
  proof (cases "back")
    case Nil
    with q v spec Log_replay a B queue_replay_empty [of cap lg f pend space "offer accept" "[]" v] show ?thesis
      by - (rule exI [of _ lg], rule exI [of _ f], rule exI [of _ v], rule exI [of _ pend], rule exI [of _ "[]"], auto)
  next
    case (Cons e rest)
    obtain i d where e: "e = (i, d)" by (cases e)
    obtain lg' v' where w: "blackbox_logger_next_replay True lg (Some (offer accept)) [] (Some v) cap f
        = Some (if accept then BLACKBOX_LOGGER_OK else BLACKBOX_LOGGER_ERR_PROCESS_FAIL, lg', Some v', if accept then [d] else [])"
      "holds cap lg' f pend (if accept then rest else (i, d) # rest) space" "view_room v' cap" "align_of lg' = align_of lg"
      "batch_buf_size (the (config_ptr lg')) = batch_buf_size (the (config_ptr lg))"
      using queue_replay [OF q [unfolded Cons e] v, of accept] by blast
    with spec Log_replay Cons e a B show ?thesis
      by - (rule exI [of _ lg'], rule exI [of _ f], rule exI [of _ v'], rule exI [of _ pend], rule exI [of _ "if accept then rest else (i, d) # rest"], auto split: if_splits)
  qed
qed

lemma log_run_refines:
  assumes "holds cap lg f pend back space" and "view_room v cap"
    and "B = batch_buf_size (the (config_ptr lg))" and "a = align_of lg"
    and "\<forall>d \<in> set (written xs). d \<noteq> [] \<and> entry_size a (length d) \<le> B" and "payload_size a (written xs) < space"
    and "queue_run B a xs \<lparr>q_pending = map snd pend, q_backlog = map snd back\<rparr> = (outs, q')"
  shows "\<exists>lg' f' v' pend' back'. log_run cap xs (lg, f, v) = Some (outs, lg', f', v')
    \<and> holds cap lg' f' pend' back' (space - payload_size a (written xs))
    \<and> q' = \<lparr>q_pending = map snd pend', q_backlog = map snd back'\<rparr>"
  using assms
proof (induction xs arbitrary: lg f v pend "back" space outs)
  case Nil
  then show ?case by auto
next
  case (Cons x xs)
  obtain out q1 where 1: "queue_do B a x \<lparr>q_pending = map snd pend, q_backlog = map snd back\<rparr> = (out, q1)"
    by (meson surj_pair)
  obtain outs1 where 2: "queue_run B a xs q1 = (outs1, q')" "outs = out # outs1"
    using Cons.prems(7) 1 by (auto split: prod.splits)
  have w: "written (x # xs) = written [x] @ written xs" by (cases x) simp_all
  have "\<forall>d \<in> set (written [x]). d \<noteq> [] \<and> entry_size a (length d) \<le> B" "payload_size a (written [x]) < space"
    using Cons.prems(5,6) unfolding w by auto
  from log_do_refines [OF Cons.prems(1-4) this 1] obtain lg1 f1 v1 pend1 back1 where
    s: "log_do cap x (lg, f, v) = Some (out, lg1, f1, v1)" "view_room v1 cap"
    "holds cap lg1 f1 pend1 back1 (space - payload_size a (written [x]))"
    "q1 = \<lparr>q_pending = map snd pend1, q_backlog = map snd back1\<rparr>"
    "batch_buf_size (the (config_ptr lg1)) = B" "align_of lg1 = a" by blast
  have "\<forall>d \<in> set (written xs). d \<noteq> [] \<and> entry_size a (length d) \<le> B"
    "payload_size a (written xs) < space - payload_size a (written [x])"
    using Cons.prems(5,6) unfolding w by auto
  from Cons.IH [OF s(3,2) s(5,6) [symmetric] this 2(1) [unfolded s(4)]] obtain lg' f' v' pend' back' where
    r: "log_run cap xs (lg1, f1, v1) = Some (outs1, lg', f', v')"
    "holds cap lg' f' pend' back' (space - payload_size a (written [x]) - payload_size a (written xs))"
    "q' = \<lparr>q_pending = map snd pend', q_backlog = map snd back'\<rparr>" by blast
  have "log_run cap (x # xs) (lg, f, v) = Some (outs, lg', f', v')" using s(1) r(1) 2(2) by simp
  moreover have "holds cap lg' f' pend' back' (space - payload_size a (written (x # xs)))"
    using r(2) unfolding w by (simp add: diff_diff_left)
  ultimately show ?case using r(3) by blast
qed

end

section \<open>Properties\<close>

text \<open>
  C4. The logger is a queue. While the written entries fit into the rest of the sector, every
  sequence of writes, flushes and replays, each replay accepted by its callback or not, does on the
  logger and its flash what the specification does on two lists of payloads, with the same status
  codes and the same replayed payloads, and there is data to replay exactly when the backlog is not
  empty. Every payload written is replayed at most once, in the order of the writes, and what was
  not replayed is still there.
\<close>

theorem blackbox_refines_queue:
  assumes "flash_device rd wr er cells good sector"
    and "log_queue rd wr er cells good sector cap lg f pend back space" and "view_room v cap"
    and "\<forall>d \<in> set (written xs). d \<noteq> [] \<and> entry_size (align_of lg) (length d) \<le> batch_buf_size (the (config_ptr lg))"
    and "payload_size (align_of lg) (written xs) < space"
  shows "\<exists>outs lg' f' v' pend' back'. log_run cap xs (lg, f, v) = Some (outs, lg', f', v')
    \<and> queue_run (batch_buf_size (the (config_ptr lg))) (align_of lg) xs \<lparr>q_pending = map snd pend, q_backlog = map snd back\<rparr>
        = (outs, \<lparr>q_pending = map snd pend', q_backlog = map snd back'\<rparr>)
    \<and> log_queue rd wr er cells good sector cap lg' f' pend' back' (space - payload_size (align_of lg) (written xs))
    \<and> (blackbox_logger_has_replay_data lg' \<longleftrightarrow> back' \<noteq> [])
    \<and> concat (map snd outs) @ map snd back' @ map snd pend' = map snd back @ map snd pend @ written xs"
proof -
  let ?q = "\<lparr>q_pending = map snd pend, q_backlog = map snd back\<rparr>"
  obtain outs q' where run: "queue_run (batch_buf_size (the (config_ptr lg))) (align_of lg) xs ?q = (outs, q')" by (meson surj_pair)
  obtain lg' f' v' pend' back' where l: "log_run cap xs (lg, f, v) = Some (outs, lg', f', v')"
    "log_queue rd wr er cells good sector cap lg' f' pend' back' (space - payload_size (align_of lg) (written xs))"
    "q' = \<lparr>q_pending = map snd pend', q_backlog = map snd back'\<rparr>"
    using flash_device.log_run_refines [OF assms(1-3) refl refl assms(4,5) run] by blast
  with run queue_run_fifo [OF run] flash_device.queue_backlog [OF assms(1) l(2)] show ?thesis by auto
qed

text \<open>Writes around a flush, a refused and an accepted replay, on the mock flash.\<close>

lemma log_queue_example:
  "log_queue mock_read mock_write mock_erase_range memory mock_good 4096 2048 (logger_example 100) mock_example [] [] 3996"
  using ready_example [of 100]
  by (simp add: log_queue_def logger_example_def mock_example_def config_example_def sec_end_def replayable_def)

lemma blackbox_refines_queue_witness:
  "\<exists>lg f v. log_run 2048 [Log_write [7, 9], Log_write [8], Log_flush, Log_replay False, Log_replay True, Log_write [5], Log_replay True]
      (logger_example 100, mock_example, view_example)
    = Some ([(BLACKBOX_LOGGER_OK, []), (BLACKBOX_LOGGER_OK, []), (BLACKBOX_LOGGER_OK, []), (BLACKBOX_LOGGER_ERR_PROCESS_FAIL, []),
        (BLACKBOX_LOGGER_OK, [[7, 9]]), (BLACKBOX_LOGGER_OK, []), (BLACKBOX_LOGGER_OK, [[8]])], lg, f, v)
    \<and> \<not> blackbox_logger_has_replay_data lg"
proof -
  let ?xs = "[Log_write [7, 9], Log_write [8], Log_flush, Log_replay False, Log_replay True, Log_write [5], Log_replay True]"
  have c: "align_of (logger_example 100) = 4" "batch_buf_size (the (config_ptr (logger_example 100))) = 1024"
    by (simp_all add: align_of_def logger_example_def config_example_def)
  have w: "\<forall>d \<in> set (written ?xs). d \<noteq> [] \<and> entry_size (align_of (logger_example 100)) (length d)
      \<le> batch_buf_size (the (config_ptr (logger_example 100)))" "payload_size (align_of (logger_example 100)) (written ?xs) < 3996"
    unfolding c by (simp_all add: entry_size_def)
  have r: "queue_run 1024 4 ?xs \<lparr>q_pending = map snd [], q_backlog = map snd []\<rparr>
    = ([(BLACKBOX_LOGGER_OK, []), (BLACKBOX_LOGGER_OK, []), (BLACKBOX_LOGGER_OK, []), (BLACKBOX_LOGGER_ERR_PROCESS_FAIL, []),
        (BLACKBOX_LOGGER_OK, [[7, 9]]), (BLACKBOX_LOGGER_OK, []), (BLACKBOX_LOGGER_OK, [[8]])], \<lparr>q_pending = [[5]], q_backlog = []\<rparr>)"
    by (simp add: entry_size_def payload_size_def)
  from blackbox_refines_queue [OF mock_device log_queue_example view_room_example w, unfolded c r] show ?thesis
    by auto
qed

end
