(* ===== verification/Store_Forward.thy ===== *)
theory Store_Forward imports Vault_Slabs Blackbox_Queue begin

text \<open>
  Store and forward: the turn in which the storing task puts a record into the logger, the flush
  timer that moves it to flash, the event by which the service goes online, and the turn in which the
  publishing task replays it.
\<close>

section \<open>Storing\<close>

text \<open>The logger takes the payload from the first bytes of a larger buffer.\<close>

lemma write_from_buffer:
  assumes "take n b = d" and "n \<le> length b"
  shows "blackbox_logger_write over_old l1 l2 lg (Some \<lparr>data_ptr = Some b, view_length = n\<rparr>) f
    = blackbox_logger_write over_old l1 l2 lg (Some (view_of d)) f"
proof -
  have n: "n = length d" using assms by auto
  have "batch_append batch len i b (length d) = batch_append batch len i d (length d)" for batch len i
    using assms n by (simp add: batch_append_def buf_read_def)
  then show ?thesis
    by (cases "config_ptr lg"; cases "batch_buf (the (config_ptr lg))") (simp_all add: blackbox_logger_write_def view_of_def n Let_def cong: if_cong)
qed

lemma store_loop_one:
  assumes laws: "queue_laws Q items cap" and q: "items q = [r]"
    and st: "logger_service_store over_old (ks idx) r lg f p = Some (ok, lg', f', p', calls)"
  shows "\<exists>q'. items q' = [] \<and> logger_store_loop Q over_old ks idx (Suc (Suc n)) q lg f p = Some (q', lg', f', p', calls)"
proof -
  obtain q1 where q1: "q_receive Q q = Some (r, q1)" "items q1 = []" using queue_receive_Cons [OF laws q] by blast
  with st queue_receive_Nil [OF laws q1(2)] show ?thesis by simp
qed

context flash_device
begin

text \<open>
  A turn of the storing task with one record waiting: its payload is pending in the logger, and its
  slab is released.
\<close>

lemma store_turn:
  assumes laws: "queue_laws (logging_q QS) items cap'"
    and h: "logger_service_task_handle (v_logger v) = Some n" "n AND LOGGER_SERVICE_TASK_NOTIFY_STOP_BIT = 0"
    and gq: "logging_queue (v_logger v) = Some gq" "items gq = [r]" and r: "rec_slab_ptr r = Some j"
    and own: "slab_owns (v_pool v) H" "j \<in> H"
    and d: "take (slab_length (slab_at (v_pool v) j)) (slab_data (slab_at (v_pool v) j)) = d"
      "slab_length (slab_at (v_pool v) j) \<le> SLAB_POOL_MAX_DATA_SIZE" "d \<noteq> []"
    and lock: "got_write_lock (ks 0)"
    and q: "holds cap (blackbox (v_logger v)) (v_flash v) [] [] space"
    and fits: "entry_size (align_of (blackbox (v_logger v))) (length d) \<le> batch_buf_size (the (config_ptr (blackbox (v_logger v))))"
    and room: "entry_size (align_of (blackbox (v_logger v))) (length d) < space"
  shows "\<exists>v' i. vault_logger_turn QS over_old ks v = Some v' \<and> v_telemetry v' = v_telemetry v \<and> v_pipeline v' = v_pipeline v
    \<and> holds cap (blackbox (v_logger v')) (v_flash v') [(i, d)] [] (space - entry_size (align_of (blackbox (v_logger v))) (length d))
    \<and> v_flash v' = v_flash v \<and> slab_owns (v_pool v') (H - {j}) \<and> align_of (blackbox (v_logger v')) = align_of (blackbox (v_logger v))"
proof -
  let ?bb = "blackbox (v_logger v)"
  obtain lg i where w: "blackbox_logger_write over_old (got_flush_lock (ks 0)) True ?bb (Some (view_of d)) (v_flash v)
      = Some (BLACKBOX_LOGGER_OK, lg, v_flash v, False)"
    "holds cap lg (v_flash v) [(i, d)] [] (space - entry_size (align_of ?bb) (length d))" "align_of lg = align_of ?bb"
    using queue_write [OF q d(3) _ room, of over_old "got_flush_lock (ks 0)"] fits by auto
  have "slab_length (slab_at (v_pool v) j) \<le> length (slab_data (slab_at (v_pool v) j))"
    using slab_owns_at [OF own] d(2) by simp
  then have "logger_service_store over_old (ks 0) r ?bb (v_flash v) (v_pool v)
      = Some (True, lg, v_flash v, slab_pool_free (Some j) (v_pool v), [])"
    using r lock w(1) by (simp add: logger_service_store_def write_from_buffer [OF d(1)])
  from store_loop_one [OF laws gq(2), of over_old ks 0, OF this, of 0] obtain q' where
    l: "logger_store_loop (logging_q QS) over_old ks 0 LOGGER_SERVICE_STORE_QUOTA gq ?bb (v_flash v) (v_pool v)
      = Some (q', lg, v_flash v, slab_pool_free (Some j) (v_pool v), [])"
    by (auto simp: LOGGER_SERVICE_STORE_QUOTA_def numeral_2_eq_2)
  have "slab_owns (slab_pool_free (Some j) (v_pool v)) (H - {j})" by (rule slab_owns_release [OF own])
  with h gq(1) l w(2,3) show ?thesis
    by (simp add: vault_logger_turn_def logger_service_task_turn_def xTaskNotifyWait_def) blast
qed

text \<open>The flush timer moves what is pending to flash and tells the publishing task.\<close>

lemma flush_timer:
  assumes q: "holds cap (blackbox (v_logger v)) (v_flash v) pend [] space" and ne: "pend \<noteq> []"
    and h: "telemetry_service_task_handle (v_telemetry v) = Some n"
  shows "\<exists>v' n'. vault_flush_timer True True v = Some v' \<and> v_pool v' = v_pool v \<and> v_pipeline v' = v_pipeline v
    \<and> holds cap (blackbox (v_logger v')) (v_flash v') [] pend space
    \<and> v_telemetry v' = (v_telemetry v)\<lparr>telemetry_service_task_handle := Some n'\<rparr>
    \<and> n' \<in> {n, n OR TELEMETRY_SERVICE_TASK_NOTIFY_REPLAY_BIT}"
proof -
  obtain lg f b where w: "blackbox_logger_flush True True (blackbox (v_logger v)) (v_flash v) = Some (BLACKBOX_LOGGER_OK, lg, f, b)"
    "holds cap lg f [] pend space"
    using queue_flush [OF q ne] by auto
  let ?n = "if b then n OR TELEMETRY_SERVICE_TASK_NOTIFY_REPLAY_BIT else n"
  have "(v_telemetry v)\<lparr>telemetry_service_task_handle := Some n\<rparr> = v_telemetry v" using h by (cases "v_telemetry v") simp
  with w h have "\<exists>v'. vault_flush_timer True True v = Some v' \<and> v_pool v' = v_pool v \<and> v_pipeline v' = v_pipeline v
      \<and> holds cap (blackbox (v_logger v')) (v_flash v') [] pend space
      \<and> v_telemetry v' = (v_telemetry v)\<lparr>telemetry_service_task_handle := Some ?n\<rparr>"
    by (simp add: vault_flush_timer_def timer_flush_flash_internal_def router_on_replay_available_callback_def
        telemetry_service_notify_replay_available_def)
  moreover have "?n \<in> {n, n OR TELEMETRY_SERVICE_TASK_NOTIFY_REPLAY_BIT}" by simp
  ultimately show ?thesis by blast
qed

end

section \<open>Forwarding\<close>

text \<open>A service that is connected and online, so that what it publishes is sent.\<close>

definition publishing :: "'q telemetry_service \<Rightarrow> bool" where
  "publishing ts \<longleftrightarrow> telemetry_service_state_lock ts \<and> telemetry_service_is_online_flag ts \<and> publish_replay_cb_func ts
     \<and> client (telemetry_bridge ts) \<and> connection_lock (telemetry_bridge ts) \<and> mqtt_connected (telemetry_bridge ts)"

lemma publishing_handle [simp]: "publishing (ts\<lparr>telemetry_service_task_handle := h\<rparr>) = publishing ts"
  by (simp add: publishing_def)

lemma connected_publishing:
  assumes "telemetry_service_state_lock (v_telemetry v)" and "publish_replay_cb_func (v_telemetry v)"
    and "client (telemetry_bridge (v_telemetry v))" and "connection_lock (telemetry_bridge (v_telemetry v))"
    and "notify_cb (telemetry_bridge (v_telemetry v))" and "telemetry_service_task_handle (v_telemetry v) = Some n"
  shows "\<exists>v'. vault_mqtt_event True (Some MQTT_EVENT_CONNECTED) v = Some v' \<and> publishing (v_telemetry v')
    \<and> live_queue (v_telemetry v') = live_queue (v_telemetry v) \<and> topics (v_telemetry v') = topics (v_telemetry v)
    \<and> topics_qos (v_telemetry v') = topics_qos (v_telemetry v)
    \<and> telemetry_service_task_handle (v_telemetry v') = Some (n OR TELEMETRY_SERVICE_TASK_NOTIFY_ONLINE_BIT)
    \<and> v_pipeline v' = v_pipeline v \<and> v_logger v' = v_logger v \<and> v_flash v' = v_flash v \<and> v_pool v' = v_pool v"
  using assms by (simp add: vault_mqtt_event_def mqtt_event_handler_def telemetry_service_set_online_def publishing_def)

text \<open>The message of a payload on the replay topic.\<close>

definition replay_message :: "'q telemetry_service \<Rightarrow> bytes \<Rightarrow> mqtt_message" where
  "replay_message ts d = \<lparr>mqtt_topic = topics ts ! 1, mqtt_data = d, mqtt_qos = topics_qos ts ! 1\<rparr>"

lemma replay_callback_sends:
  assumes "publishing ts" and "0 \<le> send (replay_message ts d)" and "d \<noteq> []" and "length d \<le> 512"
    and "data_ptr v = Some b"
  shows "replay_callback send ts (view_with v d) garbage (Some []) = (True, Some [Sent (replay_message ts d)])"
proof -
  have "buf_read (overlay b 0 d) 0 (length d) = Some d" by (simp add: overlay_def buf_read_def)
  with assms show ?thesis
    by (simp add: replay_callback_def view_with_def telemetry_service_publish_replay_def publish_to_topic_helper_def
        mqtt_bridge_publish_def mqtt_bridge_is_connected_def publishing_def replay_message_def)
qed

context flash_device
begin

text \<open>The oldest entry of the backlog is read into a free slab, sent, and the slab is released.\<close>

lemma fetch_sends:
  assumes q: "holds cap (blackbox ls) f pend ((i, d) # back) space" and d: "d \<noteq> []" "length d \<le> 512"
    and ts: "publishing ts" "0 \<le> send (replay_message ts d)"
    and own: "slab_owns p H" "H \<noteq> {..<SLAB_POOL_SIZE}"
  shows "\<exists>lg p'. router_publish_replay True send garbage ts ls f p
      = Some (True, ls\<lparr>blackbox := lg\<rparr>, p', [Sent (replay_message ts d)])
    \<and> replay_offset lg = replay_offset (blackbox ls) + entry_size (align_of (blackbox ls)) (length d)
    \<and> write_offset lg = write_offset (blackbox ls) \<and> slab_owns p' H"
proof (rule queue_ready [OF q])
  fix c
  assume c: "config_ptr (blackbox ls) = Some c" "config_ok rd wr er sector (length (cells f)) c" "sector_buf_lock (blackbox ls)" "good f"
    "align_of (blackbox ls) = address_align c" "alignment (address_align c)"
  have lay: "laid_out (address_align c) (cells f) (replay_offset (blackbox ls)) ((i, d) # back)"
    and small: "replayable c cap ((i, d) # back)"
    and at: "replay_offset (blackbox ls) + entry_size (address_align c) (length d) + entries_size (address_align c) back
        = write_offset (blackbox ls)"
    using q c(1,5) by (simp_all add: log_queue_def)
  have "0 < entry_size (address_align c) (length d)" using entry_size_bounds [OF c(6), of "length d"] by simp
  then have more: "replay_offset (blackbox ls) \<noteq> write_offset (blackbox ls)" using at by simp
  have one: "replayable c SLAB_POOL_MAX_DATA_SIZE [(i, d)]" using small d(2) by (simp add: replayable_def SLAB_POOL_MAX_DATA_SIZE_def)
  obtain k p1 where al: "slab_pool_alloc p = (Some k, p1)"
    using slab_owns_alloc_None [OF own(1)] own(2) by (metis not_Some_eq surj_pair)
  have k: "k \<notin> H" "slab_owns p1 (insert k H)" using slab_owns_alloc_Some [OF own(1) al] by auto
  let ?v = "\<lparr>data_ptr = Some (slab_data (slab_at p1 k)), view_length = 0\<rparr>"
  have len: "length (slab_data (slab_at p1 k)) = SLAB_POOL_MAX_DATA_SIZE" using slab_owns_at [OF k(2)] by simp
  then have room: "view_room ?v SLAB_POOL_MAX_DATA_SIZE" by (simp add: view_room_def)
  let ?cb = "\<lambda>e. replay_callback send ts e garbage"
  have cb: "?cb (view_with ?v d) (Some []) = (True, Some [Sent (replay_message ts d)])"
    by (rule replay_callback_sends [where send = send, OF ts d]) simp
  obtain c' where n: "blackbox_logger_next_replay True (blackbox ls) (Some ?cb) (Some []) (Some ?v) SLAB_POOL_MAX_DATA_SIZE f
      = Some (BLACKBOX_LOGGER_OK, (blackbox ls)\<lparr>config_ptr := Some c', replay_offset := replay_offset (blackbox ls)
          + entry_size (address_align c) (length d)\<rparr>, Some (view_with ?v d), Some [Sent (replay_message ts d)])"
    using next_replay_offer [where cb = ?cb and p = "Some []", OF c(2,1,3,4) lay one room more cb] by auto
  let ?lg = "(blackbox ls)\<lparr>config_ptr := Some c', replay_offset := replay_offset (blackbox ls) + entry_size (address_align c) (length d)\<rparr>"
  let ?s = "\<lparr>slab_data = overlay (slab_data (slab_at p1 k)) 0 d, slab_length = length d\<rparr>"
  have "router_publish_replay True send garbage ts ls f p
      = Some (True, ls\<lparr>blackbox := ?lg\<rparr>, slab_pool_free (Some k) (put_slab k ?s p1), [Sent (replay_message ts d)])"
    using al n by (simp add: router_publish_replay_def logger_service_fetch_next_replay_def view_with_def)
  moreover have "slab_owns (put_slab k ?s p1) (insert k H)"
    using k(2) len d(2) by (intro slab_owns_put) (simp_all add: SLAB_POOL_MAX_DATA_SIZE_def)
  then have "slab_owns (slab_pool_free (Some k) (put_slab k ?s p1)) (insert k H - {k})" by (intro slab_owns_release) simp_all
  then have "slab_owns (slab_pool_free (Some k) (put_slab k ?s p1)) H" using k(1) by simp
  ultimately show ?thesis using c(5)
    by - (rule exI [of _ ?lg], rule exI [of _ "slab_pool_free (Some k) (put_slab k ?s p1)"], simp)
qed

text \<open>
  A turn of the publishing task with nothing to publish live: the oldest entry of the backlog is
  sent on the replay topic and gone.
\<close>

lemma forward_turn:
  assumes laws: "queue_laws (live_q QS) items cap'" and lq: "live_queue (v_telemetry v) = Some lq" "items lq = []"
    and h: "telemetry_service_task_handle (v_telemetry v) = Some n" "n AND TELEMETRY_SERVICE_TASK_NOTIFY_STOP_BIT = 0"
    and ts: "publishing (v_telemetry v)" "0 \<le> send (replay_message (v_telemetry v) d)"
    and q: "holds cap (blackbox (v_logger v)) (v_flash v) pend ((i, d) # back) space" and d: "d \<noteq> []" "length d \<le> 512"
    and own: "slab_owns (v_pool v) H" "H \<noteq> {..<SLAB_POOL_SIZE}" and lock: "replay_locks 0"
  shows "\<exists>v'. vault_telemetry_turn QS send live_locks True replay_locks True garbage v
      = Some (v', [Sent (replay_message (v_telemetry v) d)])
    \<and> replay_offset (blackbox (v_logger v')) = replay_offset (blackbox (v_logger v))
        + entry_size (align_of (blackbox (v_logger v))) (length d)
    \<and> write_offset (blackbox (v_logger v')) = write_offset (blackbox (v_logger v)) \<and> slab_owns (v_pool v') H"
proof -
  let ?ts = "(v_telemetry v)\<lparr>telemetry_service_task_handle := Some 0\<rparr>"
  have m: "replay_message ?ts d = replay_message (v_telemetry v) d" by (simp add: replay_message_def)
  have ts': "publishing ?ts" "0 \<le> send (replay_message ?ts d)" using ts m by simp_all
  obtain lg p where r: "router_publish_replay True send garbage ?ts (v_logger v) (v_flash v) (v_pool v)
      = Some (True, (v_logger v)\<lparr>blackbox := lg\<rparr>, p, [Sent (replay_message (v_telemetry v) d)])"
    "replay_offset lg = replay_offset (blackbox (v_logger v)) + entry_size (align_of (blackbox (v_logger v))) (length d)"
    "write_offset lg = write_offset (blackbox (v_logger v))" "slab_owns p H"
    using fetch_sends [where send = send, OF q d ts' own, unfolded m] by blast
  have on: "telemetry_service_is_online True ?ts" "telemetry_service_is_online (replay_locks 0) ?ts"
    "telemetry_service_is_online True (v_telemetry v)" "publish_replay_cb_func (v_telemetry v)"
    using ts(1) lock by (simp_all add: publishing_def telemetry_service_is_online_def)
  have "q_waiting (live_q QS) lq = 0" using queue_waiting [OF laws] lq(2) by simp
  then have "vault_telemetry_turn QS send live_locks True replay_locks True garbage v
      = Some (v\<lparr>v_telemetry := (v_telemetry v)\<lparr>telemetry_service_task_handle := Some (0 OR TELEMETRY_SERVICE_TASK_NOTIFY_REPLAY_BIT),
          telemetry_work_pending := False\<rparr>, v_logger := (v_logger v)\<lparr>blackbox := lg\<rparr>, v_pool := p\<rparr>,
        [Sent (replay_message (v_telemetry v) d)])"
    using h lq(1) on r(1)
    by (simp add: vault_telemetry_turn_def telemetry_service_task_turn_def xTaskNotifyWait_def telemetry_live_step_def
        telemetry_replay_step_def process_replay_quota_internal_def TELEMETRY_SERVICE_REPLAY_QUOTA_def vault_replay_def
        telemetry_service_notify_replay_available_def)
  with r(2-4) show ?thesis by simp
qed

section \<open>The way of one frame\<close>

text \<open>
  A frame that comes while the service is offline: captured, serialized, stored, flushed, and sent
  after the connection is there. \<open>locks\<close> are the outcomes of the looks at the online flag.
\<close>

lemma frame_stored_and_sent:
  assumes ok: "vault_queues_ok QS I" and len: "\<forall>m. length (pack m) = packed_size m" and start: "vault_started I v"
    and e: "line_frame e" "frame_ok e" and msg: "d = pack (frame_message (ev_timestamp_us e) (frame_bytes e))" "d \<noteq> []" "length d \<le> 512"
    and an: "modbus_analyzer_task_handle (analyzer (v_pipeline v)) = Some 0"
      "analyzer_config_ptr (analyzer (v_pipeline v)) = Some cf" "on_frame_cb cf"
      "slicer_config_ptr (analyzer_slicer (analyzer (v_pipeline v))) = Some c" "on_frame_func c"
    and pi: "telemetry_pipeline_task_handle (v_pipeline v) = Some 0" "record_ready_callback (v_pipeline v)"
    and th: "telemetry_service_task_handle (v_telemetry v) = Some 0" "logger_service_task_handle (v_logger v) = Some 0"
    and ts: "telemetry_service_state_lock (v_telemetry v)" "publish_replay_cb_func (v_telemetry v)"
      "\<not> telemetry_service_is_online_flag (v_telemetry v)" "client (telemetry_bridge (v_telemetry v))"
      "connection_lock (telemetry_bridge (v_telemetry v))" "notify_cb (telemetry_bridge (v_telemetry v))"
    and q: "holds cap (blackbox (v_logger v)) (v_flash v) [] [] space"
    and fits: "entry_size (align_of (blackbox (v_logger v))) (length d) \<le> batch_buf_size (the (config_ptr (blackbox (v_logger v))))"
    and room: "entry_size (align_of (blackbox (v_logger v))) (length d) < space"
    and lock: "got_write_lock (ks 0)" "replay_locks 0" and send: "\<forall>m. 0 \<le> send m"
  shows "\<exists>v'. do {
      v \<leftarrow> vault_line_event QS e v;
      v \<leftarrow> vault_analyzer_turn QS now v;
      v \<leftarrow> vault_pipeline_turn QS packed_size pack got_lock v;
      v \<leftarrow> vault_logger_turn QS over_old ks v;
      v \<leftarrow> vault_flush_timer True True v;
      v \<leftarrow> vault_mqtt_event True (Some MQTT_EVENT_CONNECTED) v;
      vault_telemetry_turn QS send live_locks True replay_locks True garbage v
    } = Some (v', [Sent (replay_message (v_telemetry v) d)])
    \<and> slab_owns (v_pool v') {} \<and> \<not> blackbox_logger_has_replay_data (blackbox (v_logger v'))"
proof -
  note laws = vault_queues_okD [OF ok]
  have off: "\<not> telemetry_service_is_online got_lock (v_telemetry v)" using ts(3) by (simp add: telemetry_service_is_online_def)
  have fit: "packed_size (frame_message (ev_timestamp_us e) (frame_bytes e)) \<le> 512" using msg(1,3) len by simp
  have th': "telemetry_service_task_handle (v_telemetry v) \<noteq> None" "logger_service_task_handle (v_logger v) \<noteq> None" using th by simp_all
  obtain v1 v2 v3 r j lq gq where
    1: "vault_line_event QS e v = Some v1" "vault_analyzer_turn QS now v1 = Some v2"
      "vault_pipeline_turn QS packed_size pack got_lock v2 = Some v3"
    and v3: "live_queue (v_telemetry v3) = Some lq" "logging_queue (v_logger v3) = Some gq" "live_of I lq = []" "logging_of I gq = [r]"
      "rec_slab_ptr r = Some j" "slab_owns (v_pool v3) {j}"
      "take (slab_length (slab_at (v_pool v3) j)) (slab_data (slab_at (v_pool v3) j)) = d"
      "slab_length (slab_at (v_pool v3) j) \<le> SLAB_POOL_MAX_DATA_SIZE"
      "v_flash v3 = v_flash v" "blackbox (v_logger v3) = blackbox (v_logger v)" "v_telemetry v3 = v_telemetry v"
      "logger_service_task_handle (v_logger v3) = Some (0 OR LOGGER_SERVICE_TASK_NOTIFY_LOG_BIT)"
    using frame_delivered [OF ok len start e fit an pi th', of now got_lock] off th(2) unfolding msg(1) by auto
  have bit: "(0 OR LOGGER_SERVICE_TASK_NOTIFY_LOG_BIT) AND LOGGER_SERVICE_TASK_NOTIFY_STOP_BIT = 0"
    by (simp add: LOGGER_SERVICE_TASK_NOTIFY_LOG_BIT_def LOGGER_SERVICE_TASK_NOTIFY_STOP_BIT_def)
  have q3: "holds cap (blackbox (v_logger v3)) (v_flash v3) [] [] space" using q v3(9,10) by simp
  obtain v4 i where 4: "vault_logger_turn QS over_old ks v3 = Some v4" "v_telemetry v4 = v_telemetry v"
    "holds cap (blackbox (v_logger v4)) (v_flash v4) [(i, d)] [] (space - entry_size (align_of (blackbox (v_logger v))) (length d))"
    "slab_owns (v_pool v4) {}" "align_of (blackbox (v_logger v4)) = align_of (blackbox (v_logger v))"
    using store_turn [where ks = ks and d = d, OF laws(4) v3(12) bit v3(2,4,5,6) _ v3(7,8) msg(2) lock(1) q3, of over_old] fits room v3(10,11) by auto
  have h4: "telemetry_service_task_handle (v_telemetry v4) = Some 0" using 4(2) th(1) by simp
  obtain v5 n where 5: "vault_flush_timer True True v4 = Some v5" "v_pool v5 = v_pool v4"
    "holds cap (blackbox (v_logger v5)) (v_flash v5) [] [(i, d)] (space - entry_size (align_of (blackbox (v_logger v))) (length d))"
    "v_telemetry v5 = (v_telemetry v)\<lparr>telemetry_service_task_handle := Some n\<rparr>"
    "n \<in> {0, 0 OR TELEMETRY_SERVICE_TASK_NOTIFY_REPLAY_BIT}"
    using flush_timer [OF 4(3) _ h4] 4(2) by auto
  obtain v6 where 6: "vault_mqtt_event True (Some MQTT_EVENT_CONNECTED) v5 = Some v6" "publishing (v_telemetry v6)"
    "live_queue (v_telemetry v6) = Some lq" "topics (v_telemetry v6) = topics (v_telemetry v)"
    "topics_qos (v_telemetry v6) = topics_qos (v_telemetry v)"
    "telemetry_service_task_handle (v_telemetry v6) = Some (n OR TELEMETRY_SERVICE_TASK_NOTIFY_ONLINE_BIT)"
    "v_logger v6 = v_logger v5" "v_flash v6 = v_flash v5" "v_pool v6 = v_pool v5"
    using connected_publishing [of v5 n] ts v3(1,11) 5(4) by auto
  have m: "replay_message (v_telemetry v6) d = replay_message (v_telemetry v) d" using 6(4,5) by (simp add: replay_message_def)
  have q6: "holds cap (blackbox (v_logger v6)) (v_flash v6) [] [(i, d)] (space - entry_size (align_of (blackbox (v_logger v))) (length d))"
    using 5(3) 6(7,8) by simp
  have bit6: "(n OR TELEMETRY_SERVICE_TASK_NOTIFY_ONLINE_BIT) AND TELEMETRY_SERVICE_TASK_NOTIFY_STOP_BIT = 0"
    using 5(5) by (auto simp: TELEMETRY_SERVICE_TASK_NOTIFY_ONLINE_BIT_def TELEMETRY_SERVICE_TASK_NOTIFY_STOP_BIT_def
        TELEMETRY_SERVICE_TASK_NOTIFY_REPLAY_BIT_def)
  have own: "slab_owns (v_pool v6) {}" "({} :: slab_ref set) \<noteq> {..<SLAB_POOL_SIZE}"
    using 4(4) 5(2) 6(9) lessThan_empty_iff [of SLAB_POOL_SIZE] by (auto simp: SLAB_POOL_SIZE_def)
  obtain v7 where 7: "vault_telemetry_turn QS send live_locks True replay_locks True garbage v6
      = Some (v7, [Sent (replay_message (v_telemetry v) d)])"
    "replay_offset (blackbox (v_logger v7)) = replay_offset (blackbox (v_logger v6))
        + entry_size (align_of (blackbox (v_logger v6))) (length d)"
    "write_offset (blackbox (v_logger v7)) = write_offset (blackbox (v_logger v6))" "slab_owns (v_pool v7) {}"
    using forward_turn [where send = send and replay_locks = replay_locks, OF laws(3) 6(3) v3(3) 6(6) bit6 6(2) _ q6 msg(2,3) own lock(2), of live_locks garbage] send m by auto
  have "replay_offset (blackbox (v_logger v6)) + entry_size (align_of (blackbox (v_logger v6))) (length d)
      = write_offset (blackbox (v_logger v6))" using q6 by (simp add: log_queue_def)
  then have "\<not> blackbox_logger_has_replay_data (blackbox (v_logger v7))" using 7(2,3) by (simp add: blackbox_logger_has_replay_data_def)
  with 1 4(1) 5(1) 6(1) 7(1,4) show ?thesis by simp
qed

end

end
