(* ===== verification/Blackbox_Torn.thy ===== *)
theory Blackbox_Torn imports Blackbox_Replay begin

text \<open>
  Entries of which a write left only a first part in the flash, because the power was lost or the
  write failed: where the part ends decides whether the validation rejects the entry or reads
  outside the buffer.
\<close>

section \<open>What a torn entry looks like\<close>

text \<open>The first \<open>k\<close> bytes of an entry, the rest of it blank.\<close>

definition torn_entry :: "bytes \<Rightarrow> nat \<Rightarrow> nat \<Rightarrow> bytes \<Rightarrow> nat \<Rightarrow> bool" where
  "torn_entry m p i d k \<longleftrightarrow> k < 18 + length d
     \<and> buf_read m p (18 + length d) = Some (take k (entry_image i d) @ replicate (18 + length d - k) 0xFF)"

text \<open>
  The validation of \<open>n\<close> bytes at \<open>p\<close>, read to the start of a buffer with any bytes behind them,
  finds no entry.
\<close>

definition no_entry :: "bytes \<Rightarrow> nat \<Rightarrow> nat \<Rightarrow> bool" where
  "no_entry m p n \<longleftrightarrow> (\<forall>r. \<exists>err. validate_entry_internal (Some (take n (drop p m) @ r)) n = Some err
     \<and> err \<noteq> BLACKBOX_LOGGER_OK)"

lemma torn_nth:
  assumes "torn_entry m p i d k" and "18 + length d \<le> n" and "p + n \<le> length m" and "j < 18 + length d"
  shows "(take n (drop p m) @ r) ! j = (if j < k then entry_image i d ! j else 0xFF)"
proof -
  have "buf_read m p (18 + length d) = Some (take (18 + length d) (drop p m))"
    using assms(2,3) by (simp add: buf_read_ok)
  then have eq: "take (18 + length d) (drop p m) = take k (entry_image i d) @ replicate (18 + length d - k) 0xFF"
    and k: "k < 18 + length d" using assms(1) by (simp_all add: torn_entry_def)
  have "(take n (drop p m) @ r) ! j = take (18 + length d) (drop p m) ! j"
    using assms(2-4) by (simp add: nth_append)
  also have "\<dots> = (if j < k then entry_image i d ! j else 0xFF)"
    using assms(4) k unfolding eq by (simp add: nth_append)
  finally show ?thesis .
qed

lemma torn_take:
  assumes "torn_entry m p i d k" and "18 + length d \<le> n" and "p + n \<le> length m" and "a + c \<le> k"
  shows "take c (drop a (take n (drop p m) @ r)) = take c (drop a (entry_image i d))"
proof -
  define b where "b = take n (drop p m) @ r"
  have k: "k < 18 + length d" using assms(1) by (simp add: torn_entry_def)
  have len: "18 + length d \<le> length b" using assms(2,3) by (simp add: b_def)
  have nth: "b ! j = entry_image i d ! j" if "j < k" for j
    using torn_nth [OF assms(1-3), of j r] that k by (simp add: b_def)
  have "take c (drop a b) = take c (drop a (entry_image i d))"
    by (rule nth_equalityI) (use len k assms(4) nth in simp_all)
  then show ?thesis by (simp only: b_def)
qed

section \<open>Bytes of a 32-bit value\<close>

lemma of_le32_byte3: "ucast (drop_bit 24 (of_le32 bs)) = bs ! 3"
  unfolding of_le32_def by (rule bit_word_eqI) (auto simp: bit_simps dest: bit_imp_le_length)

lemma of_le32_byte0: "ucast (of_le32 bs) = bs ! 0"
  unfolding of_le32_def by (rule bit_word_eqI) (auto simp: bit_simps dest: bit_imp_le_length)

lemma magic_byte3:
  "of_le32 bs = BLACKBOX_LOGGER_HEADER_MAGIC \<Longrightarrow> bs ! 3 \<noteq> 0xFF"
  "of_le32 bs = BLACKBOX_LOGGER_TAIL_MAGIC \<Longrightarrow> bs ! 3 \<noteq> 0xFF"
  by (simp_all flip: of_le32_byte3 add: BLACKBOX_LOGGER_HEADER_MAGIC_def BLACKBOX_LOGGER_TAIL_MAGIC_def)

section \<open>The validation of a torn entry\<close>

lemma header_take12: "header_of_image (take 12 b) = header_of_image b"
  by (simp add: header_of_image_def drop_take)

lemma torn_header:
  assumes "torn_entry m p i d k" and "18 + length d \<le> n" and "p + n \<le> length m" and "12 \<le> k"
    and "i < 2 ^ 32" and "length d < 2 ^ 32"
  shows "header_of_image (take 12 (take n (drop p m) @ r))
    = \<lparr>header_magic = BLACKBOX_LOGGER_HEADER_MAGIC, entry_id = i, entry_length = length d\<rparr>"
proof -
  let ?h = "\<lparr>header_magic = BLACKBOX_LOGGER_HEADER_MAGIC, entry_id = i, entry_length = length d\<rparr>"
  have "take 12 (take n (drop p m) @ r) = take 12 (entry_image i d)"
    using torn_take [OF assms(1-3), of 0 12 r] assms(4) by simp
  also have "\<dots> = header_image ?h" by (simp add: entry_image_def Let_def)
  finally have "take 12 (take n (drop p m) @ r) = header_image ?h" .
  moreover have "header_of_image (header_image ?h) = ?h" using header_of_image_image [of ?h "[]"] assms(5,6) by simp
  ultimately show ?thesis by simp
qed

text \<open>The magic number of the header is there when its four bytes are, the length may not be.\<close>

lemma torn_header_part:
  fixes r :: bytes
  assumes "torn_entry m p i d k" and "18 + length d \<le> n" and "p + n \<le> length m"
  defines "h \<equiv> header_of_image (take 12 (take n (drop p m) @ r))"
  shows "k < 4 \<Longrightarrow> header_magic h \<noteq> BLACKBOX_LOGGER_HEADER_MAGIC"
    and "4 \<le> k \<Longrightarrow> header_magic h = BLACKBOX_LOGGER_HEADER_MAGIC"
    and "k \<le> 8 \<Longrightarrow> entry_length h = 0xFFFFFFFF"
    and "9 \<le> k \<Longrightarrow> k < 12 \<Longrightarrow> entry_length h div 2 ^ 24 = 255 \<and> entry_length h mod 256 = length d mod 256"
proof -
  define b where "b = take n (drop p m) @ r"
  have len: "12 \<le> length b" using assms(2,3) by (simp add: b_def)
  have nth: "b ! j = (if j < k then entry_image i d ! j else 0xFF)" if "j < 18 + length d" for j
    unfolding b_def by (rule torn_nth [OF assms(1-3) that])
  have m: "header_magic h = of_le32 (take 4 b)" unfolding h_def header_take12 b_def by (simp only: header_of_image_def blackbox_logger_entry_header.simps)
  have l: "entry_length h = unat (of_le32 (take 4 (drop 8 b)))" unfolding h_def header_take12 b_def by (simp only: header_of_image_def blackbox_logger_entry_header.simps)
  show "header_magic h \<noteq> BLACKBOX_LOGGER_HEADER_MAGIC" if "k < 4"
  proof -
    have "take 4 b ! 3 = b ! 3" by (rule nth_take) simp
    then have "take 4 b ! 3 = 0xFF" using nth [of 3] that by simp
    then show ?thesis using magic_byte3(1) unfolding m by blast
  qed
  show "header_magic h = BLACKBOX_LOGGER_HEADER_MAGIC" if "4 \<le> k"
    using torn_take [OF assms(1-3), of 0 4 r, folded b_def] that m by (simp add: entry_image_header)
  have byte: "take 4 (drop 8 b) ! j = b ! (8 + j)" if "j < 4" for j using len that by simp
  show "entry_length h = 0xFFFFFFFF" if "k \<le> 8"
  proof -
    have "take 4 (drop 8 b) = [0xFF, 0xFF, 0xFF, 0xFF]"
    proof (rule nth_equalityI)
      show "length (take 4 (drop 8 b)) = length [0xFF :: byte, 0xFF, 0xFF, 0xFF]" using len by simp
      fix j assume "j < length (take 4 (drop 8 b))"
      then have j: "j < 4" by (simp only: length_take min_less_iff_conj)
      then have "take 4 (drop 8 b) ! j = 0xFF" using byte [OF j] nth [of "8 + j"] that by simp
      moreover have "j = 0 \<or> j = 1 \<or> j = 2 \<or> j = 3" using j by linarith
      ultimately show "take 4 (drop 8 b) ! j = [0xFF, 0xFF, 0xFF, 0xFF] ! j" by auto
    qed
    then show ?thesis unfolding l by (simp add: of_le32_def)
  qed
  assume k: "9 \<le> k" "k < 12"
  let ?w = "of_le32 (take 4 (drop 8 b))"
  have "ucast (drop_bit 24 ?w) = (0xFF :: byte)" using of_le32_byte3 byte [of 3] nth [of 11] k by simp
  then have "unat (ucast (drop_bit 24 ?w) :: byte) = 255" by simp
  moreover have "unat ?w < 2 ^ 32" using unsigned_less [of ?w] by simp
  then have "unat ?w div 2 ^ 24 < 256" by simp
  moreover have "unat (drop_bit 24 ?w) = unat ?w div 2 ^ 24" by (subst unat_drop_bit_eq) (simp only: drop_bit_eq_div)
  ultimately have hi: "unat ?w div 2 ^ 24 = 255"
    by (simp add: unsigned_ucast_eq take_bit_eq_mod)
  have "b ! 8 = entry_image i d ! 8" using nth [of 8] k by simp
  moreover have "entry_image i d ! 8 = take 4 (drop 8 (entry_image i d)) ! 0" by simp
  then have "entry_image i d ! 8 = ucast (of_nat (length d) :: u32)"
    unfolding entry_image_header by (simp add: le32_def)
  ultimately have "ucast ?w = (ucast (of_nat (length d) :: u32) :: byte)"
    using of_le32_byte0 byte [of 0] by simp
  then have "unat (ucast ?w :: byte) = unat (ucast (of_nat (length d) :: u32) :: byte)" by simp
  then have "unat ?w mod 256 = length d mod 2 ^ 32 mod 256"
    by (simp add: unsigned_ucast_eq take_bit_eq_mod unat_of_nat)
  then have "unat ?w mod 256 = length d mod 256" by (simp add: mod_mod_cancel)
  with hi show "entry_length h div 2 ^ 24 = 255 \<and> entry_length h mod 256 = length d mod 256" unfolding l by simp
qed

lemma validate_cases:
  assumes "18 \<le> n" and "12 \<le> length b"
    and "header_magic (header_of_image (take 12 b)) = BLACKBOX_LOGGER_HEADER_MAGIC"
    and "t = u32_add 12 (entry_length (header_of_image (take 12 b)))"
  shows "validate_entry_internal (Some b) n =
    (if length b < t + 6 then None
     else Some (if n < u32_add t 6 then BLACKBOX_LOGGER_ERR_NO_MEM
       else if tail_crc (tail_of_image (take 6 (drop t b))) \<noteq> calculate_modbus_crc16_lut (take t b)
       then BLACKBOX_LOGGER_ERR_INVALID_CRC
       else if tail_magic (tail_of_image (take 6 (drop t b))) \<noteq> BLACKBOX_LOGGER_TAIL_MAGIC
       then BLACKBOX_LOGGER_ERR_INVALID_ENTRY else BLACKBOX_LOGGER_OK))"
proof (cases "length b < t + 6")
  case True
  then show ?thesis using assms(1-3)
    by (simp add: validate_entry_internal_def is_data_entry_internal_def buf_read_def assms(4) [symmetric])
next
  case False
  then show ?thesis using assms(1-3)
    by (simp add: validate_entry_internal_def is_data_entry_internal_def buf_read_ok calculate_modbus_crc16_def
        assms(4) [symmetric] Let_def)
qed

lemma blank_tail:
  assumes "b ! (t + 5) = 0xFF" and "t + 6 \<le> length b"
  shows "tail_magic (tail_of_image (take 6 (drop t b))) \<noteq> BLACKBOX_LOGGER_TAIL_MAGIC"
proof -
  let ?x = "take 4 (drop 2 (take 6 (drop t b)))"
  have "?x ! 3 = 0xFF" using assms by simp
  then have "of_le32 ?x \<noteq> BLACKBOX_LOGGER_TAIL_MAGIC" using magic_byte3(2) by blast
  then show ?thesis by (simp only: tail_of_image_def blackbox_logger_entry_tail.simps not_False_eq_True)
qed

text \<open>
  Without the length field, or with all of it, a torn entry is rejected: the magic number of the
  header is missing, or the blank length wraps around to an offset inside the buffer, or the magic
  number of the tail is missing.
\<close>

lemma torn_no_entry:
  assumes torn: "torn_entry m p i d k" and n: "18 + length d \<le> n" and m: "p + n \<le> length m"
    and small: "i < 2 ^ 32" "n < 2 ^ 31" and k: "k \<le> 8 \<or> 12 \<le> k"
  shows "no_entry m p n"
  unfolding no_entry_def
proof
  fix r
  define b where "b = take n (drop p m) @ r"
  define h where "h = header_of_image (take 12 b)"
  have len: "n \<le> length b" using m by (simp add: b_def)
  have nth: "b ! j = (if j < k then entry_image i d ! j else 0xFF)" if "j < 18 + length d" for j
    unfolding b_def by (rule torn_nth [OF torn n m that])
  note part = torn_header_part [OF torn n m, where r = r, folded b_def, folded h_def]
  have kd: "k < 18 + length d" using torn by (simp add: torn_entry_def)
  have "\<exists>err. validate_entry_internal (Some b) n = Some err \<and> err \<noteq> BLACKBOX_LOGGER_OK"
  proof (cases "k < 4")
    case True
    then show ?thesis using part(1) len n
      by (simp add: validate_entry_internal_def is_data_entry_internal_def buf_read_ok h_def Let_def)
  next
    case False
    define t where "t = u32_add 12 (entry_length h)"
    have t: "t + 6 \<le> n \<and> b ! (t + 5) = 0xFF"
    proof (cases "k \<le> 8")
      case True
      then have "t = 11" using part(3) by (simp add: t_def u32_add_def)
      with True n nth [of 16] show ?thesis by simp
    next
      case late: False
      then have "12 \<le> k" using k by simp
      then have "h = \<lparr>header_magic = BLACKBOX_LOGGER_HEADER_MAGIC, entry_id = i, entry_length = length d\<rparr>"
        unfolding h_def b_def using torn_header [OF torn n m] small n by simp
      then have "t = 12 + length d" using n small(2) by (simp add: t_def u32_add_small)
      with n kd nth [of "17 + length d"] show ?thesis by (simp add: add.commute)
    qed
    then have tail: "tail_magic (tail_of_image (take 6 (drop t b))) \<noteq> BLACKBOX_LOGGER_TAIL_MAGIC"
      using len by (intro blank_tail) simp_all
    have u: "u32_add t 6 = t + 6" using t small(2) by (intro u32_add_small) simp
    have mg: "header_magic (header_of_image (take 12 b)) = BLACKBOX_LOGGER_HEADER_MAGIC"
      using part(2) False by (simp add: h_def)
    have "18 \<le> n" "12 \<le> length b" using n len by simp_all
    note v = validate_cases [OF this mg t_def [unfolded h_def]]
    show ?thesis using t len tail unfolding v u by simp
  qed
  then show "\<exists>err. validate_entry_internal (Some (take n (drop p m) @ r)) n = Some err \<and> err \<noteq> BLACKBOX_LOGGER_OK"
    by (simp only: b_def)
qed

text \<open>With a part of the length field the validation reads far behind the buffer.\<close>

lemma torn_outside:
  assumes torn: "torn_entry m p i d k" and n: "18 + length d \<le> n" and m: "p + n \<le> length m"
    and k: "9 \<le> k" "k < 12" and low: "length d mod 256 < 244" and r: "n + length r < 2 ^ 31"
  shows "validate_entry_internal (Some (take n (drop p m) @ r)) n = None"
proof -
  define b where "b = take n (drop p m) @ r"
  define h where "h = header_of_image (take 12 b)"
  have len: "n \<le> length b" "length b < 2 ^ 31" using m r by (simp_all add: b_def)
  note part = torn_header_part [OF torn n m, where r = r, folded b_def, folded h_def]
  define l where "l = entry_length h"
  have l: "l div 2 ^ 24 = 255" "l mod 256 < 244" using part(4) [OF k] low by (simp_all add: l_def)
  have "255 * 2 ^ 24 \<le> l" using l(1) div_times_less_eq_dividend [of l "2 ^ 24"] by simp
  moreover have "l < 2 ^ 32 - 12"
  proof (rule ccontr)
    assume "\<not> l < 2 ^ 32 - 12"
    then have ge: "4294967284 \<le> l" by simp
    have "l div 16777216 * 16777216 + l mod 16777216 = l" by (rule div_mult_mod_eq)
    moreover have "l mod 16777216 < 16777216" "l div 16777216 = 255" using l(1) by simp_all
    ultimately have lt: "l < 4294967296" by linarith
    define j where "j = l - 4294967284"
    have j: "j < 12" "l = 244 + j + 16777215 * 256" using ge lt by (simp_all add: j_def)
    have "l mod 256 = (244 + j) mod 256" unfolding j(2) by (rule mod_mult_self1)
    with j(1) l(2) show False by simp
  qed
  ultimately have "length b < u32_add 12 l + 6" using len(2) by (subst u32_add_small) simp_all
  moreover have mg: "header_magic (header_of_image (take 12 b)) = BLACKBOX_LOGGER_HEADER_MAGIC"
    using part(2) k by (simp add: h_def)
  have "18 \<le> n" "12 \<le> length b" using n len by simp_all
  note v = validate_cases [OF this mg refl]
  ultimately show ?thesis unfolding b_def [symmetric] v by (simp add: l_def h_def)
qed

lemma blank_no_entry:
  assumes "blank m p 4" and "p + n \<le> length m" and "12 \<le> n"
  shows "no_entry m p n"
  unfolding no_entry_def
proof
  fix r
  have "header_magic (header_of_image (take 12 (drop p m))) \<noteq> BLACKBOX_LOGGER_HEADER_MAGIC"
    using assms by (intro blank_header) simp_all
  moreover have "take 12 (take n (drop p m) @ r) = take 12 (drop p m)" using assms(2,3) by simp
  ultimately show "\<exists>err. validate_entry_internal (Some (take n (drop p m) @ r)) n = Some err \<and> err \<noteq> BLACKBOX_LOGGER_OK"
    using assms(2,3) by (simp add: validate_entry_internal_def is_data_entry_internal_def buf_read_ok Let_def)
qed

text \<open>
  Where the entries of a sector of the log end, with \<open>n\<close> bytes left: blank flash, or an entry that
  was torn before or behind its length field.
\<close>

definition log_ends :: "bytes \<Rightarrow> nat \<Rightarrow> nat \<Rightarrow> bool" where
  "log_ends m p n \<longleftrightarrow> 12 \<le> n \<and> blank m p 4
     \<or> (\<exists>i d k. torn_entry m p i d k \<and> i < 2 ^ 32 \<and> 18 + length d \<le> n \<and> (k \<le> 8 \<or> 12 \<le> k))"

lemma log_ends_no_entry: "log_ends m p n \<Longrightarrow> p + n \<le> length m \<Longrightarrow> n < 2 ^ 31 \<Longrightarrow> no_entry m p n"
  unfolding log_ends_def using blank_no_entry torn_no_entry by blast

lemma log_ends_room: "log_ends m p n \<Longrightarrow> 12 \<le> n"
  by (auto simp: log_ends_def)

end
