(* ===== verification/Blackbox_Recovery.thy ===== *)
theory Blackbox_Recovery imports Blackbox_Torn begin

text \<open>
  The search for the write position after a restart: what the binary search finds, how far the
  linear search reads, what the logger starts with, and what its first flush does to the sector
  it starts in.
\<close>

section \<open>The binary search\<close>

text \<open>The header at the start of a sector, and whether it belongs to an entry not older than \<open>base\<close>.\<close>

definition sector_header :: "nat \<Rightarrow> bytes \<Rightarrow> nat \<Rightarrow> blackbox_logger_entry_header" where
  "sector_header sector m k = header_of_image (take 12 (drop (k * sector) m))"

definition sector_newer :: "nat \<Rightarrow> bytes \<Rightarrow> nat \<Rightarrow> nat \<Rightarrow> bool" where
  "sector_newer sector m base k \<longleftrightarrow> header_magic (sector_header sector m k) = BLACKBOX_LOGGER_HEADER_MAGIC
     \<and> is_logically_next_in_order_helper (entry_id (sector_header sector m k)) base"

text \<open>The state of the search when it knows that exactly the first \<open>cnt\<close> sectors are newer.\<close>

definition found :: "nat \<Rightarrow> bytes \<Rightarrow> nat \<Rightarrow> nat \<Rightarrow> int \<times> nat" where
  "found sector m base cnt = (if cnt = 0 then (0, base) else (int cnt - 1, entry_id (sector_header sector m (cnt - 1))))"

lemma midpoint:
  fixes lo hi :: int
  assumes "lo \<le> hi"
  shows "lo \<le> lo + (hi - lo) div 2" "lo + (hi - lo) div 2 \<le> hi"
  using assms by auto

text \<open>A saved position that does not help: the default one, or one with no header behind it.\<close>

definition hint_lost :: "bytes \<Rightarrow> nat \<Rightarrow> bool" where
  "hint_lost m h \<longleftrightarrow> h = 0 \<or> h + 12 \<le> length m
     \<and> header_magic (header_of_image (take 12 (drop h m))) \<noteq> BLACKBOX_LOGGER_HEADER_MAGIC"

lemma hint_lost_default [simp]: "hint_lost m 0"
  by (simp add: hint_lost_def)

lemma hint_lost_blank: "blank m h 4 \<Longrightarrow> h + 12 \<le> length m \<Longrightarrow> hint_lost m h"
  using blank_header by (simp add: hint_lost_def)

context flash_device
begin

lemma read_header:
  assumes "good f" and "k < n" and "length (cells f) = n * sector" and "12 \<le> sector" and "length hb = 12"
  shows "read_into rd f (u32_mul k sector) 12 hb = Some (ESP_OK, take 12 (drop (k * sector) (cells f)))"
proof -
  have "(k + 1) * sector \<le> n * sector" using assms(2) by (intro mult_le_mono1) simp
  then have le: "k * sector + sector \<le> length (cells f)" using assms(3) by (simp add: add.commute)
  have "u32_mul k sector = k * sector" using le cells_bound [OF assms(1)] by (intro u32_mul_small) simp
  moreover have "rd f (k * sector) 12 = (ESP_OK, take 12 (drop (k * sector) (cells f)))"
    using le assms(4) by (intro read_in [OF assms(1)]) simp
  ultimately show ?thesis using le assms(4,5) by (simp add: read_into_def buf_write_ok)
qed

lemma binary_search_loop_finds:
  assumes g: "good f" and n: "length (cells f) = n * sector" and s: "12 \<le> sector"
    and sorted: "\<forall>k < n. sector_newer sector (cells f) base k \<longleftrightarrow> k < cnt" and cnt: "cnt \<le> n"
    and st: "0 \<le> low_sector st" "low_sector st \<le> int cnt" "int cnt \<le> high_sector st + 1" "high_sector st < int n"
      "(head_sector st, max_id st) = found sector (cells f) base (nat (low_sector st))"
      "length (current_entry_header st) = 12"
  shows "\<exists>st'. binary_search_loop rd f sector base st = Some (BLACKBOX_LOGGER_OK, st')
    \<and> (head_sector st', max_id st') = found sector (cells f) base cnt"
  using st
proof (induction "nat (high_sector st - low_sector st + 1)" arbitrary: st rule: less_induct)
  case less
  show ?case
  proof (cases "low_sector st \<le> high_sector st")
    case False
    then have "nat (low_sector st) = cnt" using less.prems by simp
    with False less.prems(5) show ?thesis by (subst binary_search_loop.simps) simp
  next
    case True
    define mid where "mid = low_sector st + (high_sector st - low_sector st) div 2"
    have mid: "low_sector st \<le> mid" "mid \<le> high_sector st" using midpoint [OF True] by (simp_all add: mid_def)
    define k where "k = nat mid"
    have k: "k < n" "int k = mid" using mid less.prems by (simp_all add: k_def)
    let ?hb = "take 12 (drop (k * sector) (cells f))"
    have rd: "read_into rd f (u32_mul (nat mid) sector) 12 (current_entry_header st) = Some (ESP_OK, ?hb)"
      using read_header [OF g k(1) n s less.prems(6)] by (simp add: k_def)
    have "k * sector + sector \<le> length (cells f)"
      using k(1) n mult_le_mono1 [of "Suc k" n sector] by (simp add: add.commute)
    then have hb: "length ?hb = 12" using s by simp
    have step: "binary_search_loop rd f sector base st =
      (if sector_newer sector (cells f) base k
       then binary_search_loop rd f sector base (st\<lparr>current_entry_header := ?hb, head_sector := mid,
              low_sector := mid + 1, max_id := entry_id (sector_header sector (cells f) k)\<rparr>)
       else binary_search_loop rd f sector base (st\<lparr>current_entry_header := ?hb, high_sector := mid - 1\<rparr>))"
      using True rd [unfolded mid_def]
      by (subst binary_search_loop.simps)
        (simp add: Let_def esp_to_blackbox_error_map_def sector_newer_def sector_header_def mid_def [symmetric])
    show ?thesis
    proof (cases "sector_newer sector (cells f) base k")
      case newer: True
      then have "k < cnt" using sorted k(1) by blast
      let ?st = "st\<lparr>current_entry_header := ?hb, head_sector := mid, low_sector := mid + 1,
        max_id := entry_id (sector_header sector (cells f) k)\<rparr>"
      have "nat (mid + 1) = k + 1" using k(2) by simp
      then have "(head_sector ?st, max_id ?st) = found sector (cells f) base (nat (low_sector ?st))"
        using k(2) by (simp add: found_def)
      then have "\<exists>st'. binary_search_loop rd f sector base ?st = Some (BLACKBOX_LOGGER_OK, st')
        \<and> (head_sector st', max_id st') = found sector (cells f) base cnt"
        by (intro less.hyps) (use mid k \<open>k < cnt\<close> hb less.prems in simp_all)
      with step newer show ?thesis by simp
    next
      case older: False
      then have "cnt \<le> k" using sorted k(1) by (meson not_le)
      let ?st = "st\<lparr>current_entry_header := ?hb, high_sector := mid - 1\<rparr>"
      have "\<exists>st'. binary_search_loop rd f sector base ?st = Some (BLACKBOX_LOGGER_OK, st')
        \<and> (head_sector st', max_id st') = found sector (cells f) base cnt"
        by (intro less.hyps) (use mid k \<open>cnt \<le> k\<close> hb less.prems in simp_all)
      with step older show ?thesis by simp
    qed
  qed
qed

end

section \<open>The linear search\<close>

text \<open>The numbers of the entries follow each other, the first one follows \<open>i\<close>; none is older.\<close>

fun in_order :: "nat \<Rightarrow> log_entry list \<Rightarrow> bool" where
  "in_order i [] = True"
| "in_order i ((j, d) # es) \<longleftrightarrow> j < 2 ^ 32 \<and> is_logically_next_in_order_helper j i \<and> in_order j es"

definition last_number :: "nat \<Rightarrow> log_entry list \<Rightarrow> nat" where
  "last_number i es = (if es = [] then i else fst (last es))"

lemma last_number_simps [simp]:
  "last_number i [] = i" "last_number i ((j, d) # es) = last_number j es"
  by (simp_all add: last_number_def)

text \<open>What the search sees at a stored entry.\<close>

lemma scan_entry:
  assumes "laid_out a buf p ((i, d) # es)" and "i < 2 ^ 32" and "sector < 2 ^ 31" and "sector \<le> length buf"
    and "p + 18 + length d \<le> sector"
  shows "u32_add p 12 = p + 12" "validate_entry_internal (Some (drop p buf)) (u32_sub sector p) = Some BLACKBOX_LOGGER_OK"
    and "\<exists>hb. buf_read buf p 12 = Some hb \<and> header_of_image hb
      = \<lparr>header_magic = BLACKBOX_LOGGER_HEADER_MAGIC, entry_id = i, entry_length = length d\<rparr>"
proof -
  let ?h = "\<lparr>header_magic = BLACKBOX_LOGGER_HEADER_MAGIC, entry_id = i, entry_length = length d\<rparr>"
  have img: "buf_read buf p (18 + length d) = Some (entry_image i d)" using assms(1) by simp
  have u: "u32_sub sector p = sector - p" using assms(3-5) by (intro u32_sub_small) simp_all
  show "u32_add p 12 = p + 12" using assms(3-5) by (intro u32_add_small) simp
  have "drop p buf = take (18 + length d) (drop p buf) @ drop (18 + length d) (drop p buf)"
    by (rule append_take_drop_id [symmetric])
  also have "take (18 + length d) (drop p buf) = entry_image i d" using img by (auto simp: buf_read_def split: if_splits)
  finally have dr: "drop p buf = entry_image i d @ drop (18 + length d) (drop p buf)" .
  have "sector - p \<le> length (drop p buf)" "sector - p < 4294967296" "18 + length d \<le> sector - p"
    using assms(3-5) by simp_all
  with assms(2) show "validate_entry_internal (Some (drop p buf)) (u32_sub sector p) = Some BLACKBOX_LOGGER_OK"
    unfolding u by (subst dr, intro validate_entry_image) (simp_all add: dr [symmetric])
  have "buf_read buf p 12 = Some (header_image ?h)"
    using buf_read_sub [OF img, of 0 12] by (simp add: entry_image_def Let_def)
  moreover have "header_of_image (header_image ?h) = ?h"
    using header_of_image_image [of _ "[]"] assms(2-5) by simp
  ultimately show "\<exists>hb. buf_read buf p 12 = Some hb \<and> header_of_image hb = ?h" by blast
qed

text \<open>The search of a sector gets behind the entries that are in order.\<close>

lemma linear_scan_sector_entries:
  assumes "laid_out a buf (current_buf_pos s) es" and "alignment a" and "in_order (highest_id s) es"
    and "sector < 2 ^ 31" and "sector \<le> length buf" and "base + sector < 2 ^ 31"
    and "current_buf_pos s + entries_size a es \<le> sector" and "\<not> scan_complete s"
  shows "linear_scan_sector a sector base buf s = linear_scan_sector a sector base buf
    \<lparr>highest_id = last_number (highest_id s) es,
      scan_write_offset = (if es = [] then scan_write_offset s else base + current_buf_pos s + entries_size a es),
      current_buf_pos = current_buf_pos s + entries_size a es, scan_complete = False\<rparr>"
  using assms
proof (induction a buf "current_buf_pos s" es arbitrary: s rule: laid_out.induct)
  case (1 a buf)
  then show ?case by (cases s) simp
next
  case (2 a buf i d es)
  let ?p = "current_buf_pos s" and ?n = "entry_size a (length d)"
  have b: "18 + length d \<le> ?n" using entry_size_bounds [OF "2.prems"(2)] by blast
  have id: "i < 2 ^ 32" "is_logically_next_in_order_helper i (highest_id s)" "in_order i es" using "2.prems"(3) by simp_all
  have room: "?p + ?n + entries_size a es \<le> sector" using "2.prems"(7) by simp
  have u: "u32_add (u32_add base ?p) ?n = base + ?p + ?n" "u32_add ?p ?n = ?p + ?n"
    using room "2.prems"(4-6) by (simp_all add: u32_add_small)
  have fits: "?p + 18 + length d \<le> sector" using room b by simp
  note e = scan_entry [OF "2.prems"(1) id(1) "2.prems"(4,5) fits]
  obtain hb where hb: "buf_read buf ?p 12 = Some hb"
    "header_of_image hb = \<lparr>header_magic = BLACKBOX_LOGGER_HEADER_MAGIC, entry_id = i, entry_length = length d\<rparr>"
    using e(3) by blast
  have len: "length d < 2 ^ 31" using b room "2.prems"(4,5) by simp
  have sz: "entry_total_aligned_size_helper (length d) a = ?n"
    using len by (intro entry_total_aligned_size_eq [OF "2.prems"(2)]) simp
  let ?s = "s\<lparr>highest_id := i, scan_write_offset := base + ?p + ?n, current_buf_pos := ?p + ?n\<rparr>"
  have "linear_scan_sector a sector base buf s = linear_scan_sector a sector base buf ?s"
    using "2.prems"(8) id(2) room b u e(1,2) hb sz by (subst linear_scan_sector.simps) (simp add: Let_def)
  also have "\<dots> = linear_scan_sector a sector base buf \<lparr>highest_id = last_number (highest_id ?s) es,
      scan_write_offset = (if es = [] then scan_write_offset ?s else base + current_buf_pos ?s + entries_size a es),
      current_buf_pos = current_buf_pos ?s + entries_size a es, scan_complete = False\<rparr>"
    by (rule "2.hyps") (use "2.prems" id room in \<open>simp_all add: add.assoc\<close>)
  finally show ?case by (simp add: add.assoc)
qed

text \<open>It stops where the validation finds no entry, and reads outside the buffer where that does.\<close>

lemma linear_scan_sector_stop:
  assumes "validate_entry_internal (Some (drop (current_buf_pos s) buf)) (sector - current_buf_pos s) = Some err"
    and "err \<noteq> BLACKBOX_LOGGER_OK" and "current_buf_pos s + 12 \<le> sector" and "sector < 2 ^ 31" and "\<not> scan_complete s"
  shows "linear_scan_sector a sector base buf s = Some (s\<lparr>scan_complete := True\<rparr>)"
proof -
  let ?p = "current_buf_pos s"
  have u: "u32_add ?p 12 = ?p + 12" "u32_sub sector ?p = sector - ?p"
    using assms(3,4) by (simp_all add: u32_add_small u32_sub_small)
  have "linear_scan_sector a sector base buf s = linear_scan_sector a sector base buf (s\<lparr>scan_complete := True\<rparr>)"
    using assms u by (subst linear_scan_sector.simps) (simp add: Let_def)
  also have "\<dots> = Some (s\<lparr>scan_complete := True\<rparr>)" by (subst linear_scan_sector.simps) simp
  finally show ?thesis .
qed

lemma linear_scan_sector_outside:
  assumes "validate_entry_internal (Some (drop (current_buf_pos s) buf)) (sector - current_buf_pos s) = None"
    and "current_buf_pos s + 12 \<le> sector" and "sector < 2 ^ 31" and "\<not> scan_complete s"
  shows "linear_scan_sector a sector base buf s = None"
proof -
  let ?p = "current_buf_pos s"
  have u: "u32_add ?p 12 = ?p + 12" "u32_sub sector ?p = sector - ?p"
    using assms(2,3) by (simp_all add: u32_add_small u32_sub_small)
  show ?thesis using assms u by (subst linear_scan_sector.simps) (simp add: Let_def)
qed

text \<open>An entry that is older than the highest number known ends the search on the spot.\<close>

lemma linear_scan_sector_older:
  assumes "laid_out a buf (current_buf_pos s) ((i, d) # es)" and "alignment a" and "i < 2 ^ 32"
    and "sector < 2 ^ 31" and "sector \<le> length buf"
    and "current_buf_pos s + 18 + length d \<le> sector"
    and "\<not> is_logically_next_in_order_helper i (highest_id s)" and "\<not> scan_complete s"
  shows "linear_scan_sector a sector base buf s = Some (s\<lparr>scan_complete := True\<rparr>)"
proof -
  note e = scan_entry [OF assms(1,3-6)]
  obtain hb where hb: "buf_read buf (current_buf_pos s) 12 = Some hb"
    "header_of_image hb = \<lparr>header_magic = BLACKBOX_LOGGER_HEADER_MAGIC, entry_id = i, entry_length = length d\<rparr>"
    using e(3) by blast
  have "linear_scan_sector a sector base buf s = linear_scan_sector a sector base buf (s\<lparr>scan_complete := True\<rparr>)"
    using assms(6-8) e(1,2) hb by (subst linear_scan_sector.simps) (simp add: Let_def)
  also have "\<dots> = Some (s\<lparr>scan_complete := True\<rparr>)" by (subst linear_scan_sector.simps) simp
  finally show ?thesis .
qed

text \<open>The entries of a sector lie in the sector buffer as they lie in the flash.\<close>

lemma buf_read_sector:
  assumes "base + sector \<le> length m" and "p + n \<le> sector"
  shows "buf_read (take sector (drop base m) @ r) p n = buf_read m (base + p) n"
proof -
  have l: "length (take sector (drop base m)) = sector" using assms(1) by simp
  then have "take n (drop p (take sector (drop base m) @ r)) = take n (drop p (take sector (drop base m)))"
    using assms(2) by simp
  also have "\<dots> = take n (drop (base + p) m)" using assms(2) by (simp add: drop_take min_def add.commute)
  finally show ?thesis using l assms by (simp add: buf_read_def)
qed

lemma laid_out_sector:
  assumes "laid_out a m q es" and "q = base + p" and "alignment a" and "base + sector \<le> length m"
    and "p + entries_size a es \<le> sector"
  shows "laid_out a (take sector (drop base m) @ r) p es"
  using assms
proof (induction a m q es arbitrary: p rule: laid_out.induct)
  case (2 a m q i d es)
  have b: "18 + length d \<le> entry_size a (length d)" using entry_size_bounds [OF "2.prems"(3)] by blast
  have "laid_out a (take sector (drop base m) @ r) (p + entry_size a (length d)) es"
    using "2.prems" by (intro "2.IH") simp_all
  with "2.prems" b show ?case by (simp add: buf_read_sector)
qed simp

lemma drop_sector:
  "base + sector \<le> length m \<Longrightarrow> p \<le> sector \<Longrightarrow>
     drop p (take sector (drop base m) @ r) = take (sector - p) (drop (base + p) m) @ r"
  by (simp add: drop_take add.commute)

context flash_device
begin

lemma read_sector:
  assumes "good f" and "base + sector \<le> length (cells f)" and "sector \<le> length b"
  shows "read_into rd f base sector b = Some (ESP_OK, take sector (drop base (cells f)) @ drop sector b)"
  using assms by (simp add: read_into_def read_in buf_write_ok)

text \<open>Once the inner loop sets the flag, the search is over.\<close>

lemma linear_scan_stop:
  assumes g: "good f" and base: "k * sector + sector \<le> length (cells f)" and t: "i < n" and b: "sector \<le> length b"
    and s: "\<not> scan_complete s"
    and inner: "linear_scan_sector a sector (k * sector) (take sector (drop (k * sector) (cells f)) @ drop sector b) s = Some s'"
    and e: "scan_complete s'"
  shows "linear_scan rd f a sector n k i b s = Some (BLACKBOX_LOGGER_OK,
    take sector (drop (k * sector) (cells f)) @ drop sector b, s'\<lparr>current_buf_pos := 0\<rparr>)"
proof -
  have "u32_mul k sector = k * sector" using base cells_bound [OF g] by (intro u32_mul_small) simp
  with assms read_sector [OF g base b] show ?thesis
    by (subst linear_scan.simps, subst linear_scan.simps) (simp add: Let_def esp_to_blackbox_error_map_def)
qed

text \<open>
  From a hint inside a sector: the entries from there on, in order and with no entry behind them,
  are skipped, and the write offset is set behind them.
\<close>

lemma linear_recover_entries:
  assumes ok: "config_ok rd wr er sector (length (cells f)) c" and cp: "config_ptr lg = Some c"
    and sl: "sector_buf_lock lg" and g: "good f"
    and h: "h = param_write_offset (parameters c)" "h < length (cells f)"
    and lay: "laid_out (address_align c) (cells f) h es" and ord: "in_order (param_last_id (parameters c)) es"
    and room: "h + entries_size (address_align c) es + 12 \<le> sec_end sector h"
    and no: "no_entry (cells f) (h + entries_size (address_align c) es) (sec_end sector h - (h + entries_size (address_align c) es))"
  shows "\<exists>b. linear_recover_helper True lg f = Some (BLACKBOX_LOGGER_OK,
      lg\<lparr>config_ptr := Some (set_recovered (h + entries_size (address_align c) es)
        (last_number (param_last_id (parameters c)) es) (c\<lparr>sector_buf := Some b\<rparr>))\<rparr>)
    \<and> length b = length (the (sector_buf c))"
proof -
  let ?a = "address_align c"
  define k p where "k = h div sector" and "p = h mod sector"
  obtain b where b: "sector_buf c = Some b" "sector \<le> length b" using ok by (auto simp: config_ok_def)
  have c: "0 < sector" "sector dvd length (cells f)" "alignment ?a" "length (cells f) < 2 ^ 31" "sector_buf_size c = sector"
    "partition_size c = Some (length (cells f))" "read_func c = Some rd"
    using ok by (simp_all add: config_ok_def)
  have se: "sec_end sector h = k * sector + sector" by (simp add: sec_end_def k_def)
  have base: "k * sector + sector \<le> length (cells f)" using sec_end_le [OF c(1,2) h(2)] se by simp
  have hp: "h = k * sector + p" by (simp add: k_def p_def)
  let ?buf = "take sector (drop (k * sector) (cells f)) @ drop sector b"
  have lbuf: "length ?buf = length b" using base b(2) by simp
  let ?s = "\<lparr>highest_id = param_last_id (parameters c), scan_write_offset = h, current_buf_pos = p, scan_complete = False\<rparr>"
  have room': "p + entries_size ?a es + 12 \<le> sector" using room se hp by linarith
  have lay': "laid_out ?a ?buf p es" by (rule laid_out_sector [OF lay hp c(3) base]) (use room' in simp)
  let ?q = "p + entries_size ?a es"
  have "drop ?q ?buf = take (sector - ?q) (drop (k * sector + ?q) (cells f)) @ drop sector b"
    using base room' by (intro drop_sector) simp_all
  moreover have "sec_end sector h - (h + entries_size ?a es) = sector - ?q" "h + entries_size ?a es = k * sector + ?q"
    using se hp by simp_all
  ultimately obtain err where err: "validate_entry_internal (Some (drop ?q ?buf)) (sector - ?q) = Some err"
    "err \<noteq> BLACKBOX_LOGGER_OK"
    using no unfolding no_entry_def by metis
  let ?s1 = "\<lparr>highest_id = last_number (param_last_id (parameters c)) es,
    scan_write_offset = (if es = [] then h else k * sector + p + entries_size ?a es),
    current_buf_pos = ?q, scan_complete = False\<rparr>"
  have "linear_scan_sector ?a sector (k * sector) ?buf ?s = linear_scan_sector ?a sector (k * sector) ?buf ?s1"
    by (rule linear_scan_sector_entries [of ?a ?buf ?s es sector "k * sector", unfolded scan_state.simps])
      (use lay' c(3,4) ord lbuf b(2) base room' in simp_all)
  also have "\<dots> = Some (?s1\<lparr>scan_complete := True\<rparr>)"
    by (rule linear_scan_sector_stop [OF _ err(2)]) (use err(1) room' c(4) base in simp_all)
  finally have inner: "linear_scan_sector ?a sector (k * sector) ?buf ?s = Some (?s1\<lparr>scan_complete := True\<rparr>)" .
  have "linear_scan rd f ?a sector (length (cells f) div sector) k 0 b ?s
      = Some (BLACKBOX_LOGGER_OK, ?buf, \<lparr>highest_id = last_number (param_last_id (parameters c)) es,
          scan_write_offset = h + entries_size ?a es, current_buf_pos = 0, scan_complete = True\<rparr>)"
    using linear_scan_stop [OF g base _ b(2) _ inner] base c(1,2) hp
    by (auto simp: div_greater_zero_iff)
  moreover have "cells f \<noteq> []" using h(2) by auto
  ultimately have "linear_recover_helper True lg f = Some (BLACKBOX_LOGGER_OK,
      lg\<lparr>config_ptr := Some (set_recovered (h + entries_size ?a es)
        (last_number (param_last_id (parameters c)) es) (c\<lparr>sector_buf := Some ?buf\<rparr>))\<rparr>)"
    using cp b(1) c sl
    by (simp add: linear_recover_helper_def Let_def h(1) [symmetric] k_def [symmetric] p_def [symmetric])
  moreover have "length ?buf = length (the (sector_buf c))" using lbuf b(1) by simp
  ultimately show ?thesis by blast
qed

text \<open>
  When the entries leave no room for a header at the sector's end, the search goes on in the next
  sector, the first one behind the last, and stops there when that holds no entry or an older one.
\<close>

lemma linear_recover_tight:
  assumes ok: "config_ok rd wr er sector (length (cells f)) c" and cp: "config_ptr lg = Some c"
    and sl: "sector_buf_lock lg" and g: "good f" and s: "12 \<le> sector"
    and h: "h = param_write_offset (parameters c)" "h < length (cells f)"
    and lay: "laid_out (address_align c) (cells f) h es" and ord: "in_order (param_last_id (parameters c)) es" and ne: "es \<noteq> []"
    and room: "h + entries_size (address_align c) es \<le> sec_end sector h" "sec_end sector h < h + entries_size (address_align c) es + 12"
    and q: "q = (h div sector + 1) mod (length (cells f) div sector) * sector"
    and stop: "no_entry (cells f) q sector \<or> (\<exists>j d fs. laid_out (address_align c) (cells f) q ((j, d) # fs) \<and> j < 2 ^ 32
      \<and> entry_size (address_align c) (length d) \<le> sector
      \<and> \<not> is_logically_next_in_order_helper j (last_number (param_last_id (parameters c)) es))"
  shows "\<exists>b. linear_recover_helper True lg f = Some (BLACKBOX_LOGGER_OK,
      lg\<lparr>config_ptr := Some (set_recovered (h + entries_size (address_align c) es)
        (last_number (param_last_id (parameters c)) es) (c\<lparr>sector_buf := Some b\<rparr>))\<rparr>)
    \<and> length b = length (the (sector_buf c))"
proof -
  let ?a = "address_align c" and ?n = "length (cells f) div sector" and ?i = "last_number (param_last_id (parameters c)) es"
  define k p where "k = h div sector" and "p = h mod sector"
  obtain b where b: "sector_buf c = Some b" "sector \<le> length b" using ok by (auto simp: config_ok_def)
  have c: "0 < sector" "sector dvd length (cells f)" "alignment ?a" "length (cells f) < 2 ^ 31" "sector_buf_size c = sector"
    "partition_size c = Some (length (cells f))" "read_func c = Some rd" "2 * sector \<le> length (cells f)"
    using ok by (simp_all add: config_ok_def)
  have "2 * sector div sector \<le> ?n" by (rule div_le_mono [OF c(8)])
  then have n: "2 \<le> ?n" using c(1) by simp
  have se: "sec_end sector h = k * sector + sector" by (simp add: sec_end_def k_def)
  have base: "k * sector + sector \<le> length (cells f)" using sec_end_le [OF c(1,2) h(2)] se by simp
  have hp: "h = k * sector + p" by (simp add: k_def p_def)
  have "Suc ((k + 1) mod ?n) * sector \<le> ?n * sector" using n by (intro mult_le_mono1) (simp add: Suc_le_eq)
  then have base2: "q + sector \<le> length (cells f)" using c(2) q by (simp add: k_def)
  let ?buf = "take sector (drop (k * sector) (cells f)) @ drop sector b"
  let ?buf2 = "take sector (drop q (cells f)) @ drop sector ?buf"
  have lbuf: "length ?buf = length b" "length ?buf2 = length b" using base base2 b(2) by simp_all
  let ?s = "\<lparr>highest_id = param_last_id (parameters c), scan_write_offset = h, current_buf_pos = p, scan_complete = False\<rparr>"
  have room': "p + entries_size ?a es \<le> sector" "sector < p + entries_size ?a es + 12" using room se hp by linarith+
  have lay': "laid_out ?a ?buf p es" by (rule laid_out_sector [OF lay hp c(3) base room'(1)])
  let ?s1 = "\<lparr>highest_id = ?i, scan_write_offset = h + entries_size ?a es, current_buf_pos = p + entries_size ?a es, scan_complete = False\<rparr>"
  have "linear_scan_sector ?a sector (k * sector) ?buf ?s = linear_scan_sector ?a sector (k * sector) ?buf ?s1"
    using linear_scan_sector_entries [of ?a ?buf ?s es sector "k * sector", unfolded scan_state.simps]
      lay' c(3,4) ord lbuf b(2) base room'(1) ne hp by simp
  also have "\<dots> = Some ?s1"
    using room' c(4) base by (subst linear_scan_sector.simps) (simp add: u32_add_small)
  finally have inner: "linear_scan_sector ?a sector (k * sector) ?buf ?s = Some ?s1" .
  let ?s2 = "?s1\<lparr>current_buf_pos := 0\<rparr>"
  have inner2: "linear_scan_sector ?a sector q ?buf2 ?s2 = Some (?s2\<lparr>scan_complete := True\<rparr>)"
    using stop
  proof (elim disjE exE conjE)
    assume "no_entry (cells f) q sector"
    then obtain err where "validate_entry_internal (Some ?buf2) sector = Some err" "err \<noteq> BLACKBOX_LOGGER_OK"
      unfolding no_entry_def by blast
    then show ?thesis using s c(4) base by (intro linear_scan_sector_stop) simp_all
  next
    fix j d fs assume old: "laid_out ?a (cells f) q ((j, d) # fs)" "j < 2 ^ 32" "entry_size ?a (length d) \<le> sector"
      "\<not> is_logically_next_in_order_helper j ?i"
    have "laid_out ?a (cells f) q [(j, d)]" using old(1) by simp
    then have "laid_out ?a ?buf2 0 [(j, d)]" using old(3) by (intro laid_out_sector [OF _ _ c(3) base2]) simp_all
    then show ?thesis
      using old lbuf(2) b(2) c(3,4) base entry_size_bounds [OF c(3), of "length d"]
      by (intro linear_scan_sector_older [of _ _ _ j d "[]"]) simp_all
  qed
  have u: "u32_mul k sector = k * sector" using base c(4) by (intro u32_mul_small) simp
  have "linear_scan rd f ?a sector ?n k 0 b ?s = linear_scan rd f ?a sector ?n ((k + 1) mod ?n) 1 ?buf ?s2"
    using n inner u read_sector [OF g base b(2)]
    by (subst linear_scan.simps) (simp add: esp_to_blackbox_error_map_def)
  also have "\<dots> = Some (BLACKBOX_LOGGER_OK, ?buf2, ?s2\<lparr>scan_complete := True\<rparr>)"
    using linear_scan_stop [OF g, of "(k + 1) mod ?n" 1 ?n ?buf ?s2 ?a "?s2\<lparr>scan_complete := True\<rparr>"]
      base2 n lbuf(1) b(2) inner2 unfolding q k_def by simp
  finally have scan: "linear_scan rd f ?a sector ?n k 0 b ?s = Some (BLACKBOX_LOGGER_OK, ?buf2, ?s2\<lparr>scan_complete := True\<rparr>)" .
  moreover have "cells f \<noteq> []" using h(2) by auto
  ultimately have "linear_recover_helper True lg f = Some (BLACKBOX_LOGGER_OK,
      lg\<lparr>config_ptr := Some (set_recovered (h + entries_size ?a es) ?i (c\<lparr>sector_buf := Some ?buf2\<rparr>))\<rparr>)"
    using cp b(1) c(1,5-7) sl
    by (simp add: linear_recover_helper_def Let_def h(1) [symmetric] k_def [symmetric] p_def [symmetric])
  with lbuf(2) b(1) show ?thesis by (intro exI [of _ ?buf2]) simp
qed

text \<open>From a hint at an entry that is older than the number saved with it: nothing is skipped.\<close>

lemma linear_recover_older:
  assumes ok: "config_ok rd wr er sector (length (cells f)) c" and cp: "config_ptr lg = Some c"
    and sl: "sector_buf_lock lg" and g: "good f"
    and h: "h = param_write_offset (parameters c)" "h < length (cells f)"
    and lay: "laid_out (address_align c) (cells f) h ((i, d) # es)" and i: "i < 2 ^ 32"
    and old: "\<not> is_logically_next_in_order_helper i (param_last_id (parameters c))"
    and room: "h + entry_size (address_align c) (length d) \<le> sec_end sector h"
  shows "\<exists>b. linear_recover_helper True lg f = Some (BLACKBOX_LOGGER_OK,
      lg\<lparr>config_ptr := Some (set_recovered h (param_last_id (parameters c)) (c\<lparr>sector_buf := Some b\<rparr>))\<rparr>)
    \<and> length b = length (the (sector_buf c))"
proof -
  let ?a = "address_align c"
  define k p where "k = h div sector" and "p = h mod sector"
  obtain b where b: "sector_buf c = Some b" "sector \<le> length b" using ok by (auto simp: config_ok_def)
  have c: "0 < sector" "sector dvd length (cells f)" "alignment ?a" "length (cells f) < 2 ^ 31" "sector_buf_size c = sector"
    "partition_size c = Some (length (cells f))" "read_func c = Some rd"
    using ok by (simp_all add: config_ok_def)
  have se: "sec_end sector h = k * sector + sector" by (simp add: sec_end_def k_def)
  have base: "k * sector + sector \<le> length (cells f)" using sec_end_le [OF c(1,2) h(2)] se by simp
  have hp: "h = k * sector + p" by (simp add: k_def p_def)
  let ?buf = "take sector (drop (k * sector) (cells f)) @ drop sector b"
  have lbuf: "length ?buf = length b" using base b(2) by simp
  let ?s = "\<lparr>highest_id = param_last_id (parameters c), scan_write_offset = h, current_buf_pos = p, scan_complete = False\<rparr>"
  have room': "p + entry_size ?a (length d) \<le> sector" using room se hp by linarith
  have "laid_out ?a (cells f) h [(i, d)]" using lay by simp
  then have lay': "laid_out ?a ?buf p [(i, d)]"
    using room' by (intro laid_out_sector [OF _ hp c(3) base]) simp_all
  have "18 + length d \<le> entry_size ?a (length d)" using entry_size_bounds [OF c(3)] by blast
  then have inner: "linear_scan_sector ?a sector (k * sector) ?buf ?s = Some (?s\<lparr>scan_complete := True\<rparr>)"
    using lay' i c(3,4) base lbuf b(2) room' old
    by (intro linear_scan_sector_older [of _ _ _ i d "[]"]) simp_all
  have "linear_scan rd f ?a sector (length (cells f) div sector) k 0 b ?s
      = Some (BLACKBOX_LOGGER_OK, ?buf, \<lparr>highest_id = param_last_id (parameters c),
          scan_write_offset = h, current_buf_pos = 0, scan_complete = True\<rparr>)"
    using linear_scan_stop [OF g base _ b(2) _ inner] base c(1,2)
    by (auto simp: div_greater_zero_iff)
  moreover have "cells f \<noteq> []" using h(2) by auto
  ultimately have "linear_recover_helper True lg f = Some (BLACKBOX_LOGGER_OK,
      lg\<lparr>config_ptr := Some (set_recovered h (param_last_id (parameters c)) (c\<lparr>sector_buf := Some ?buf\<rparr>))\<rparr>)"
    using cp b(1) c sl
    by (simp add: linear_recover_helper_def Let_def h(1) [symmetric] k_def [symmetric] p_def [symmetric])
  moreover have "length ?buf = length (the (sector_buf c))" using lbuf b(1) by simp
  ultimately show ?thesis by blast
qed

section \<open>The whole recovery\<close>

lemma stored_header:
  assumes "laid_out a (cells f) h ((i, d) # es)" and "i < 2 ^ 32" and "length (cells f) < 2 ^ 31"
  shows "header_of_image (take 12 (drop h (cells f)))
    = \<lparr>header_magic = BLACKBOX_LOGGER_HEADER_MAGIC, entry_id = i, entry_length = length d\<rparr>"
proof -
  let ?h = "\<lparr>header_magic = BLACKBOX_LOGGER_HEADER_MAGIC, entry_id = i, entry_length = length d\<rparr>"
  have img: "buf_read (cells f) h (18 + length d) = Some (entry_image i d)" using assms(1) by simp
  have len: "length d < 2 ^ 32" using assms(3) img by (auto simp: buf_read_def split: if_splits)
  have "buf_read (cells f) h 12 = Some (header_image ?h)"
    using buf_read_sub [OF img, of 0 12] by (simp add: entry_image_def Let_def)
  then have "take 12 (drop h (cells f)) = header_image ?h" by (auto simp: buf_read_def split: if_splits)
  moreover have "header_of_image (header_image ?h) = ?h"
    using header_of_image_image [of _ "[]"] assms(2) len by simp
  ultimately show ?thesis by simp
qed

lemma try_hint_older:
  assumes ok: "config_ok rd wr er sector (length (cells f)) c" and cp: "config_ptr lg = Some c"
    and sl: "sector_buf_lock lg" and g: "good f"
    and h: "h = param_write_offset (parameters c)" "h \<noteq> 0" "h < length (cells f)"
    and lay: "laid_out (address_align c) (cells f) h ((i, d) # es)" and i: "i < 2 ^ 32"
    and old: "\<not> is_logically_next_in_order_helper i (param_last_id (parameters c))"
    and room: "h + entry_size (address_align c) (length d) \<le> sec_end sector h"
  shows "\<exists>b. try_hint True lg rd h f = Some (BLACKBOX_LOGGER_OK,
      lg\<lparr>config_ptr := Some (set_recovered h (param_last_id (parameters c)) (c\<lparr>sector_buf := Some b\<rparr>))\<rparr>)
    \<and> length b = length (the (sector_buf c))"
proof -
  have al: "alignment (address_align c)" "length (cells f) < 2 ^ 31" using ok by (simp_all add: config_ok_def)
  have "h + 12 \<le> length (cells f)"
    using lay entry_size_bounds [OF al(1), of "length d"] by simp
  then have "read_into rd f h 12 (replicate 12 0) = Some (ESP_OK, take 12 (drop h (cells f)))"
    using read_in [OF g, of h 12] by (simp add: read_into_def buf_write_ok)
  with stored_header [OF lay i al(2)] linear_recover_older [OF ok cp sl g h(1,3) lay i old room] h(2)
  show ?thesis by (simp add: try_hint_def blackbox_logger_default_parameters_def)
qed

text \<open>
  A saved position is of no use when it is the default one or when no header is found there, as
  behind the last entry of a log or within an entry: the search starts over.
\<close>

lemma try_hint_lost:
  assumes "good f" and "hint_lost (cells f) h"
  shows "\<exists>e. try_hint l lg rd h f = Some (e, lg) \<and> e \<noteq> BLACKBOX_LOGGER_OK"
proof (cases "h = 0")
  case False
  with assms have "read_into rd f h 12 (replicate 12 0) = Some (ESP_OK, take 12 (drop h (cells f)))"
    using read_in [of f h 12] by (auto simp: hint_lost_def read_into_def buf_write_ok)
  with False assms(2) show ?thesis
    by (simp add: try_hint_def blackbox_logger_default_parameters_def hint_lost_def)
qed (simp add: try_hint_def blackbox_logger_default_parameters_def)

text \<open>Without a saved position: the head sector, then the entries in it.\<close>

lemma binary_recover_finds:
  assumes ok: "config_ok rd wr er sector (length (cells f)) c" and cp: "config_ptr lg = Some c" and g: "good f"
    and s: "12 \<le> sector"
    and base: "base = (if header_magic (sector_header sector (cells f) 0) = BLACKBOX_LOGGER_HEADER_MAGIC
      then entry_id (sector_header sector (cells f) 0) else 0)"
    and sorted: "\<forall>k < length (cells f) div sector. sector_newer sector (cells f) base k \<longleftrightarrow> k < cnt"
    and cnt: "cnt \<le> length (cells f) div sector"
    and head: "found sector (cells f) base cnt = (int head, i)" "head * sector < 2 ^ 32"
  shows "binary_search_recover_helper lg f = Some (BLACKBOX_LOGGER_OK,
    lg\<lparr>config_ptr := Some (set_recovered (head * sector) i c)\<rparr>)"
proof -
  let ?n = "length (cells f) div sector"
  have c: "0 < sector" "sector dvd length (cells f)" "2 * sector \<le> length (cells f)" "sector_buf_size c = sector"
    "partition_size c = Some (length (cells f))" "read_func c = Some rd"
    using ok by (simp_all add: config_ok_def)
  have n: "length (cells f) = ?n * sector" using c(2) by simp
  have "0 < ?n" using c(1,3) by (simp add: div_greater_zero_iff)
  let ?hb = "take 12 (drop 0 (cells f))"
  let ?st = "\<lparr>low_sector = 0, high_sector = int ?n - 1, head_sector = 0, max_id = base, current_entry_header = ?hb\<rparr>"
  have lhb: "length ?hb = 12" using s c(3) by simp
  have "read_into rd f 0 12 (replicate 12 0) = Some (ESP_OK, ?hb)"
    using read_in [OF g, of 0 12] s c(3) by (simp add: read_into_def buf_write_ok)
  moreover obtain st' where "binary_search_loop rd f sector base ?st = Some (BLACKBOX_LOGGER_OK, st')"
    "head_sector st' = int head" "max_id st' = i"
    using binary_search_loop_finds [OF g n s sorted cnt, of ?st] cnt lhb head(1) by (auto simp: found_def)
  moreover have "u32_mul head sector = head * sector" using head(2) by (intro u32_mul_small) simp
  moreover have "(if header_magic (header_of_image (take 12 (cells f))) = BLACKBOX_LOGGER_HEADER_MAGIC
      then entry_id (header_of_image (take 12 (cells f))) else 0) = base"
    by (simp add: base sector_header_def)
  ultimately show ?thesis
    using cp c by (simp add: binary_search_recover_helper_def esp_to_blackbox_error_map_def)
qed

text \<open>The logger after a successful recovery that left the configuration \<open>c\<close> with a position.\<close>

lemma fill_recovered_fields:
  assumes "config_ptr lg = Some c"
  shows "\<exists>c2. config_ptr (fill_recovered lg) = Some c2 \<and> address_align c2 = address_align c
    \<and> batch_buf_size c2 = batch_buf_size c
    \<and> config_ok rd wr er sector n c2 = config_ok rd wr er sector n c"
    "write_offset (fill_recovered lg) = param_write_offset (parameters c)"
    "replay_offset (fill_recovered lg) = param_replay_offset (parameters c)"
    "last_id (fill_recovered lg) = param_last_id (parameters c)"
    "sector_buf_lock (fill_recovered lg) = sector_buf_lock lg" "write_lock (fill_recovered lg) = write_lock lg"
    "flush_timer (fill_recovered lg) = flush_timer lg" "batch_len (fill_recovered lg) = batch_len lg"
    "last_erased_sector (fill_recovered lg) = last_erased_sector lg"
  using assms by (simp_all add: fill_recovered_def update_parameters_internal_def config_ok_def)

text \<open>The logger handed to the recovery by a start with every resource available.\<close>

definition started :: "'f blackbox_logger \<Rightarrow> 'f blackbox_logger_config \<Rightarrow> 'f blackbox_logger" where
  "started lg c = lg\<lparr>config_ptr := Some c, last_erased_sector := -1, batch_len := 0, write_lock := True,
     sector_buf_lock := True, flush_timer := Some False\<rparr>"

text \<open>
  A start with every resource available is the recovery from the configuration; with a position
  found inside the partition the logger is ready, with an empty batch.
\<close>

lemma init_ready:
  assumes ok: "config_ok rd wr er sector (length (cells f)) c" and g: "good f"
    and r: "recover_logger_internal True True (started lg0 c0) f = Some (e, fill_recovered ((started lg0 c0)\<lparr>config_ptr := Some c\<rparr>))"
    and p: "param_write_offset (parameters c) \<le> length (cells f)" "param_replay_offset (parameters c) \<le> length (cells f)"
  shows "\<exists>lg. blackbox_logger_init over_old True True ESP_OK True True lg0 (Some c0) f = Some (BLACKBOX_LOGGER_OK, lg, f)
    \<and> write_offset lg = param_write_offset (parameters c) \<and> replay_offset lg = param_replay_offset (parameters c)
    \<and> last_id lg = param_last_id (parameters c) \<and> align_of lg = address_align c
    \<and> batch_buf_size (the (config_ptr lg)) = batch_buf_size c
    \<and> logger_ready rd wr er cells good sector lg f []"
proof -
  let ?r = "(started lg0 c0)\<lparr>config_ptr := Some c\<rparr>"
  have init: "blackbox_logger_init over_old True True ESP_OK True True lg0 (Some c0) f
      = Some (BLACKBOX_LOGGER_OK, fill_recovered ?r, f)"
    using r by (simp add: blackbox_logger_init_def Let_def esp_to_blackbox_error_map_def started_def)
  have "config_ptr ?r = Some c" by simp
  note fr = fill_recovered_fields [OF this]
  obtain c2 where c2: "config_ptr (fill_recovered ?r) = Some c2" "address_align c2 = address_align c"
    "batch_buf_size c2 = batch_buf_size c" "config_ok rd wr er sector (length (cells f)) c2"
    using fr(1) [of "length (cells f)"] ok by blast
  then have "logger_ready rd wr er cells good sector (fill_recovered ?r) f []"
    using g p fr(2-) by (simp add: logger_ready_def batch_holds_def erased_ahead_def started_def)
  with init fr(2-4) c2 show ?thesis by (intro exI [of _ "fill_recovered ?r"]) (simp add: align_of_def)
qed

lemma init_found:
  assumes ok: "config_ok rd wr er sector (length (cells f)) c" and g: "good f"
    and s: "12 \<le> sector" and hint: "hint_lost (cells f) (param_write_offset (parameters c))"
    and replay: "param_replay_offset (parameters c) \<le> length (cells f)"
    and base: "base = (if header_magic (sector_header sector (cells f) 0) = BLACKBOX_LOGGER_HEADER_MAGIC
      then entry_id (sector_header sector (cells f) 0) else 0)"
    and sorted: "\<forall>k < length (cells f) div sector. sector_newer sector (cells f) base k \<longleftrightarrow> k < cnt"
    and cnt: "cnt \<le> length (cells f) div sector"
    and head: "found sector (cells f) base cnt = (int head, i)" "head < length (cells f) div sector"
    and scan: "\<And>lg c. config_ok rd wr er sector (length (cells f)) c \<Longrightarrow> config_ptr lg = Some c \<Longrightarrow> sector_buf_lock lg \<Longrightarrow>
      address_align c = a \<Longrightarrow> param_last_id (parameters c) = i \<Longrightarrow> head * sector = param_write_offset (parameters c) \<Longrightarrow>
      head * sector < length (cells f) \<Longrightarrow> sec_end sector (head * sector) = head * sector + sector \<Longrightarrow>
      \<exists>b. linear_recover_helper True lg f = Some (BLACKBOX_LOGGER_OK,
          lg\<lparr>config_ptr := Some (set_recovered e n (c\<lparr>sector_buf := Some b\<rparr>))\<rparr>) \<and> length b = length (the (sector_buf c))"
    and e: "address_align c = a" "e \<le> length (cells f)"
  shows "\<exists>lg. blackbox_logger_init over_old True True ESP_OK True True lg0 (Some c) f = Some (BLACKBOX_LOGGER_OK, lg, f)
    \<and> write_offset lg = e \<and> replay_offset lg = param_replay_offset (parameters c) \<and> last_id lg = n
    \<and> align_of lg = a \<and> batch_buf_size (the (config_ptr lg)) = batch_buf_size c
    \<and> logger_ready rd wr er cells good sector lg f []"
proof -
  let ?h = "head * sector"
  have c: "0 < sector" "sector dvd length (cells f)" "partition_size c = Some (length (cells f))" "read_func c = Some rd"
    "length (cells f) < 2 ^ 31"
    using ok by (simp_all add: config_ok_def)
  have "Suc head * sector \<le> length (cells f) div sector * sector" using head(2) by (intro mult_le_mono1) simp
  then have h: "?h + sector \<le> length (cells f)" using c(2) by simp
  have hs: "?h < 2 ^ 32" "?h < length (cells f)" using h c(1,5) by simp_all
  let ?c1 = "set_recovered ?h i c"
  have c1: "config_ok rd wr er sector (length (cells f)) ?c1" "address_align ?c1 = a"
    "param_last_id (parameters ?c1) = i" "?h = param_write_offset (parameters ?c1)"
    using ok e(1) by (simp_all add: set_recovered_def config_ok_def)
  have se: "sec_end sector ?h = ?h + sector" using c(1) by (simp add: sec_end_def)
  let ?s = "started lg0 c" and ?s1 = "(started lg0 c)\<lparr>config_ptr := Some ?c1\<rparr>"
  have s1: "config_ptr ?s = Some c" "config_ptr ?s1 = Some ?c1" "sector_buf_lock ?s1" by (simp_all add: started_def)
  obtain b where b: "linear_recover_helper True ?s1 f = Some (BLACKBOX_LOGGER_OK,
      ?s1\<lparr>config_ptr := Some (set_recovered e n (?c1\<lparr>sector_buf := Some b\<rparr>))\<rparr>)" "length b = length (the (sector_buf ?c1))"
    using scan [OF c1(1) s1(2,3) c1(2-4) hs(2) se] by blast
  let ?c2 = "set_recovered e n (?c1\<lparr>sector_buf := Some b\<rparr>)"
  obtain e0 where "try_hint True ?s rd (param_write_offset (parameters c)) f = Some (e0, ?s)" "e0 \<noteq> BLACKBOX_LOGGER_OK"
    using try_hint_lost [OF g hint] by blast
  then have r: "recover_logger_internal True True ?s f = Some (BLACKBOX_LOGGER_OK, fill_recovered (?s\<lparr>config_ptr := Some ?c2\<rparr>))"
    using binary_recover_finds [OF ok s1(1) g s base sorted cnt head(1) hs(1)] b(1)
    by (simp add: recover_logger_internal_def s1(1) c(3,4))
  have c2: "config_ok rd wr er sector (length (cells f)) ?c2" "address_align ?c2 = a" "batch_buf_size ?c2 = batch_buf_size c"
    "param_write_offset (parameters ?c2) = e" "param_last_id (parameters ?c2) = n"
    "param_replay_offset (parameters ?c2) = param_replay_offset (parameters c)"
    using ok b(2) e(1) by (auto simp: set_recovered_def config_ok_def)
  with replay e(2) init_ready [OF c2(1) g r, of over_old] show ?thesis unfolding c2(2-) by simp
qed

lemma init_finds:
  assumes ok: "config_ok rd wr er sector (length (cells f)) c" and g: "good f"
    and s: "12 \<le> sector" and hint: "hint_lost (cells f) (param_write_offset (parameters c))"
    and replay: "param_replay_offset (parameters c) \<le> length (cells f)"
    and base: "base = (if header_magic (sector_header sector (cells f) 0) = BLACKBOX_LOGGER_HEADER_MAGIC
      then entry_id (sector_header sector (cells f) 0) else 0)"
    and sorted: "\<forall>k < length (cells f) div sector. sector_newer sector (cells f) base k \<longleftrightarrow> k < cnt"
    and cnt: "cnt \<le> length (cells f) div sector"
    and head: "found sector (cells f) base cnt = (int head, i)" "head < length (cells f) div sector"
    and lay: "laid_out (address_align c) (cells f) (head * sector) es" and ord: "in_order i es"
    and room: "entries_size (address_align c) es + 12 \<le> sector"
    and no: "no_entry (cells f) (head * sector + entries_size (address_align c) es) (sector - entries_size (address_align c) es)"
  shows "\<exists>lg. blackbox_logger_init over_old True True ESP_OK True True lg0 (Some c) f = Some (BLACKBOX_LOGGER_OK, lg, f)
    \<and> write_offset lg = head * sector + entries_size (address_align c) es
    \<and> replay_offset lg = param_replay_offset (parameters c) \<and> last_id lg = last_number i es
    \<and> align_of lg = address_align c \<and> batch_buf_size (the (config_ptr lg)) = batch_buf_size c
    \<and> logger_ready rd wr er cells good sector lg f []"
proof (rule init_found [OF ok g s hint replay base sorted cnt head _ refl])
  have "sector dvd length (cells f)" using ok by (simp add: config_ok_def)
  moreover have "Suc head * sector \<le> length (cells f) div sector * sector" using head(2) by (intro mult_le_mono1) simp
  ultimately show "head * sector + entries_size (address_align c) es \<le> length (cells f)" using room by simp
  fix lg :: "'f blackbox_logger" and c'
  assume a: "config_ok rd wr er sector (length (cells f)) c'" "config_ptr lg = Some c'" "sector_buf_lock lg"
    "address_align c' = address_align c" "param_last_id (parameters c') = i" "head * sector = param_write_offset (parameters c')"
    "head * sector < length (cells f)" "sec_end sector (head * sector) = head * sector + sector"
  then show "\<exists>b. linear_recover_helper True lg f = Some (BLACKBOX_LOGGER_OK,
      lg\<lparr>config_ptr := Some (set_recovered (head * sector + entries_size (address_align c) es) (last_number i es) (c'\<lparr>sector_buf := Some b\<rparr>))\<rparr>)
      \<and> length b = length (the (sector_buf c'))"
    using linear_recover_entries [OF a(1-3) g a(6,7), of es] lay ord room no unfolding a(4,5) by simp
qed

lemma init_log_ends:
  assumes ok: "config_ok rd wr er sector (length (cells f)) c" and g: "good f"
    and s: "12 \<le> sector" and hint: "hint_lost (cells f) (param_write_offset (parameters c))"
    and replay: "param_replay_offset (parameters c) \<le> length (cells f)"
    and base: "base = (if header_magic (sector_header sector (cells f) 0) = BLACKBOX_LOGGER_HEADER_MAGIC
      then entry_id (sector_header sector (cells f) 0) else 0)"
    and sorted: "\<forall>k < length (cells f) div sector. sector_newer sector (cells f) base k \<longleftrightarrow> k < cnt"
    and cnt: "cnt \<le> length (cells f) div sector"
    and head: "found sector (cells f) base cnt = (int head, i)" "head < length (cells f) div sector"
    and lay: "laid_out (address_align c) (cells f) (head * sector) es" and ord: "in_order i es"
    and ends: "log_ends (cells f) (head * sector + entries_size (address_align c) es) (sector - entries_size (address_align c) es)"
  shows "\<exists>lg. blackbox_logger_init over_old True True ESP_OK True True lg0 (Some c) f = Some (BLACKBOX_LOGGER_OK, lg, f)
    \<and> write_offset lg = head * sector + entries_size (address_align c) es
    \<and> replay_offset lg = param_replay_offset (parameters c) \<and> last_id lg = last_number i es
    \<and> logger_ready rd wr er cells good sector lg f []"
proof -
  have room: "entries_size (address_align c) es + 12 \<le> sector" using log_ends_room [OF ends] by simp
  have c: "sector dvd length (cells f)" "length (cells f) < 2 ^ 31" using ok by (simp_all add: config_ok_def)
  have "Suc head * sector \<le> length (cells f) div sector * sector" using head(2) by (intro mult_le_mono1) simp
  then have le: "head * sector + sector \<le> length (cells f)" using c(1) by simp
  have "no_entry (cells f) (head * sector + entries_size (address_align c) es) (sector - entries_size (address_align c) es)"
    by (rule log_ends_no_entry [OF ends]) (use le room c(2) in simp_all)
  from init_finds [OF ok g s hint replay base sorted cnt head lay ord room this] show ?thesis by blast
qed

text \<open>
  Where a part of a torn entry's length field is in the flash, the search reads outside its buffer.
\<close>

lemma linear_recover_outside:
  assumes ok: "config_ok rd wr er sector (length (cells f)) c" and cp: "config_ptr lg = Some c"
    and sl: "sector_buf_lock lg" and g: "good f" and buf: "length (the (sector_buf c)) < 2 ^ 31"
    and h: "h = param_write_offset (parameters c)" "h < length (cells f)"
    and lay: "laid_out (address_align c) (cells f) h es" and ord: "in_order (param_last_id (parameters c)) es"
    and torn: "torn_entry (cells f) (h + entries_size (address_align c) es) i d k"
      "h + entries_size (address_align c) es + 18 + length d \<le> sec_end sector h"
    and k: "9 \<le> k" "k < 12" "length d mod 256 < 244"
  shows "linear_recover_helper True lg f = None"
proof -
  let ?a = "address_align c"
  define q p where "q = h div sector" and "p = h mod sector"
  obtain b where b: "sector_buf c = Some b" "sector \<le> length b" using ok by (auto simp: config_ok_def)
  have c: "0 < sector" "sector dvd length (cells f)" "alignment ?a" "length (cells f) < 2 ^ 31" "sector_buf_size c = sector"
    "partition_size c = Some (length (cells f))" "read_func c = Some rd"
    using ok by (simp_all add: config_ok_def)
  have se: "sec_end sector h = q * sector + sector" by (simp add: sec_end_def q_def)
  have base: "q * sector + sector \<le> length (cells f)" using sec_end_le [OF c(1,2) h(2)] se by simp
  have hp: "h = q * sector + p" by (simp add: q_def p_def)
  let ?buf = "take sector (drop (q * sector) (cells f)) @ drop sector b" and ?p = "p + entries_size ?a es"
  have lbuf: "length ?buf = length b" using base b(2) by simp
  let ?s = "\<lparr>highest_id = param_last_id (parameters c), scan_write_offset = h, current_buf_pos = p, scan_complete = False\<rparr>"
  let ?s1 = "\<lparr>highest_id = last_number (param_last_id (parameters c)) es,
    scan_write_offset = (if es = [] then h else q * sector + p + entries_size ?a es),
    current_buf_pos = ?p, scan_complete = False\<rparr>"
  have room: "?p + 18 + length d \<le> sector" using torn(2) se hp by linarith
  have lay': "laid_out ?a ?buf p es" by (rule laid_out_sector [OF lay hp c(3) base]) (use room in simp)
  have "drop ?p ?buf = take (sector - ?p) (drop (q * sector + ?p) (cells f)) @ drop sector b"
    using base room by (intro drop_sector) simp_all
  moreover have "torn_entry (cells f) (q * sector + ?p) i d k" using torn(1) hp by (simp add: add.assoc)
  then have "validate_entry_internal (Some (take (sector - ?p) (drop (q * sector + ?p) (cells f)) @ drop sector b))
      (sector - ?p) = None"
    by (rule torn_outside) (use room base k b buf in simp_all)
  ultimately have out: "validate_entry_internal (Some (drop ?p ?buf)) (sector - ?p) = None" by simp
  have "linear_scan_sector ?a sector (q * sector) ?buf ?s = linear_scan_sector ?a sector (q * sector) ?buf ?s1"
    by (rule linear_scan_sector_entries [of ?a ?buf ?s es sector "q * sector", unfolded scan_state.simps])
      (use lay' c(3,4) ord lbuf b(2) base room in simp_all)
  also have "\<dots> = None"
    by (rule linear_scan_sector_outside) (use out room c(4) base in simp_all)
  finally have inner: "linear_scan_sector ?a sector (q * sector) ?buf ?s = None" .
  have "0 < length (cells f) div sector" using c(1,2) base by (auto simp: div_greater_zero_iff)
  moreover have "u32_mul q sector = q * sector" using base c(4) by (intro u32_mul_small) simp
  ultimately have "linear_scan rd f ?a sector (length (cells f) div sector) q 0 b ?s = None"
    using inner read_sector [OF g base b(2)]
    by (subst linear_scan.simps) (simp add: Let_def esp_to_blackbox_error_map_def)
  moreover have "cells f \<noteq> []" using h(2) by auto
  ultimately show ?thesis using cp b(1) c sl
    by (simp add: linear_recover_helper_def Let_def h(1) [symmetric] q_def [symmetric] p_def [symmetric])
qed

lemma init_outside:
  assumes ok: "config_ok rd wr er sector (length (cells f)) c" and g: "good f"
    and s: "12 \<le> sector" and hint: "hint_lost (cells f) (param_write_offset (parameters c))" and buf: "length (the (sector_buf c)) < 2 ^ 31"
    and base: "base = (if header_magic (sector_header sector (cells f) 0) = BLACKBOX_LOGGER_HEADER_MAGIC
      then entry_id (sector_header sector (cells f) 0) else 0)"
    and sorted: "\<forall>k < length (cells f) div sector. sector_newer sector (cells f) base k \<longleftrightarrow> k < cnt"
    and cnt: "cnt \<le> length (cells f) div sector"
    and head: "found sector (cells f) base cnt = (int head, i)" "head < length (cells f) div sector"
    and lay: "laid_out (address_align c) (cells f) (head * sector) es" and ord: "in_order i es"
    and torn: "torn_entry (cells f) (head * sector + entries_size (address_align c) es) j d k"
      "entries_size (address_align c) es + 18 + length d \<le> sector"
    and k: "9 \<le> k" "k < 12" "length d mod 256 < 244"
  shows "blackbox_logger_init over_old True True ESP_OK True True lg0 (Some c) f = None"
proof -
  let ?h = "head * sector"
  have c: "0 < sector" "sector dvd length (cells f)" "partition_size c = Some (length (cells f))" "read_func c = Some rd"
    "length (cells f) < 2 ^ 31"
    using ok by (simp_all add: config_ok_def)
  have "Suc head * sector \<le> length (cells f) div sector * sector" using head(2) by (intro mult_le_mono1) simp
  then have h: "?h + sector \<le> length (cells f)" using c(2) by simp
  have hs: "?h < 2 ^ 32" "?h < length (cells f)" using h c(1,5) by simp_all
  have se: "sec_end sector ?h = ?h + sector" using c(1) by (simp add: sec_end_def)
  let ?c1 = "set_recovered ?h i c" and ?s = "started lg0 c"
  let ?s1 = "?s\<lparr>config_ptr := Some ?c1\<rparr>"
  have s1: "config_ptr ?s = Some c" by (simp add: started_def)
  have "linear_recover_helper True ?s1 f = None"
    by (rule linear_recover_outside [where c = ?c1 and h = ?h and es = es, OF _ _ _ g _ _ hs(2) _ _ _ _ k])
      (use ok buf lay ord torn se in \<open>simp_all add: set_recovered_def config_ok_def started_def\<close>)
  moreover obtain e0 where "try_hint True ?s rd (param_write_offset (parameters c)) f = Some (e0, ?s)" "e0 \<noteq> BLACKBOX_LOGGER_OK"
    using try_hint_lost [OF g hint] by blast
  ultimately have "recover_logger_internal True True ?s f = None"
    using binary_recover_finds [OF ok s1 g s base sorted cnt head(1) hs(1)]
    by (simp add: recover_logger_internal_def s1 c(3,4))
  then show ?thesis
    by (simp add: blackbox_logger_init_def Let_def esp_to_blackbox_error_map_def started_def)
qed

text \<open>On a blank partition the log starts at its beginning, with no entry.\<close>

lemma init_blank_flash:
  assumes ok: "config_ok rd wr er sector (length (cells f)) c" and g: "good f"
    and s: "12 \<le> sector" and hint: "hint_lost (cells f) (param_write_offset (parameters c))" "param_replay_offset (parameters c) \<le> length (cells f)"
    and bl: "blank (cells f) 0 (length (cells f))"
  shows "\<exists>lg. blackbox_logger_init over_old True True ESP_OK True True lg0 (Some c) f = Some (BLACKBOX_LOGGER_OK, lg, f)
    \<and> write_offset lg = 0 \<and> replay_offset lg = param_replay_offset (parameters c) \<and> last_id lg = 0
    \<and> align_of lg = address_align c \<and> batch_buf_size (the (config_ptr lg)) = batch_buf_size c
    \<and> logger_ready rd wr er cells good sector lg f []"
proof -
  have c: "0 < sector" "2 * sector \<le> length (cells f)" "sector dvd length (cells f)" using ok by (simp_all add: config_ok_def)
  have no: "header_magic (sector_header sector (cells f) k) \<noteq> BLACKBOX_LOGGER_HEADER_MAGIC" if "k < length (cells f) div sector" for k
  proof -
    have "Suc k * sector \<le> length (cells f) div sector * sector" using that by (intro mult_le_mono1) simp
    then have "k * sector + 12 \<le> length (cells f)" using c(3) s by simp
    then show ?thesis using blank_header [OF blank_sub [OF bl]] by (simp add: sector_header_def)
  qed
  have n: "0 < length (cells f) div sector" using c by (simp add: div_greater_zero_iff)
  have "\<forall>k < length (cells f) div sector. sector_newer sector (cells f) 0 k \<longleftrightarrow> k < 0" using no by (simp add: sector_newer_def)
  moreover have "found sector (cells f) 0 0 = (int 0, 0)" by (simp add: found_def)
  moreover have "no_entry (cells f) (0 * sector + entries_size (address_align c) []) (sector - entries_size (address_align c) [])"
    by (rule blank_no_entry [OF blank_sub [OF bl]]) (use c s in simp_all)
  ultimately show ?thesis
    using init_finds [OF ok g s hint(1), of 0 0 0 0 "[]" over_old lg0] no [OF n] n s hint(2) by simp
qed

lemma init_blank:
  assumes "config_ok rd wr er sector (length (cells f)) c" and "good f" and "12 \<le> sector"
    and "param_write_offset (parameters c) = 0" "param_replay_offset (parameters c) = 0" and "blank (cells f) 0 (length (cells f))"
  shows "\<exists>lg. blackbox_logger_init over_old True True ESP_OK True True lg0 (Some c) f = Some (BLACKBOX_LOGGER_OK, lg, f)
    \<and> write_offset lg = 0 \<and> replay_offset lg = 0 \<and> last_id lg = 0
    \<and> align_of lg = address_align c \<and> batch_buf_size (the (config_ptr lg)) = batch_buf_size c
    \<and> logger_ready rd wr er cells good sector lg f []"
  using init_blank_flash [OF assms(1-3) _ _ assms(6)] assms(4,5) by simp

end

text \<open>
  A flush saves the start of its last chunk and the number of the batch's last entry. With two
  entries or more in that chunk the first one is older than the saved number.
\<close>

lemma not_next_earlier:
  assumes "i < 2 ^ 32" and "0 < k" and "k < 2 ^ 31"
  shows "\<not> is_logically_next_in_order_helper i ((i + k) mod 2 ^ 32)"
proof (cases "i + k < 2 ^ 32")
  case True
  have "4294967296 - k < (4294967296 :: nat)" using assms(2) by simp
  then have "u32_sub i (i + k) = 4294967296 - k" using True by (simp add: u32_sub_def)
  with assms True show ?thesis by (simp add: is_logically_next_in_order_helper_def)
next
  case False
  then have "(i + k) mod 2 ^ 32 = i + k - 2 ^ 32" using assms by (subst mod_if) simp
  moreover from this have "u32_sub i (i + k - 2 ^ 32) = 4294967296 - k"
    using False assms by (subst u32_sub_small) simp_all
  ultimately show ?thesis using assms by (simp add: is_logically_next_in_order_helper_def)
qed

context flash_device
begin

lemma flush_restart_stale:
  assumes ready: "logger_ready rd wr er cells good sector lg f es"
    and es: "es = (i, d) # rest" "last_id lg = (i + k) mod 2 ^ 32" "0 < k" "k < 2 ^ 31"
    and wo: "0 < write_offset lg" "write_offset lg < length (cells f)" "replay_offset lg = write_offset lg"
    and fits: "write_offset lg + entries_size (align_of lg) es \<le> sec_end sector (write_offset lg)"
  shows "\<exists>lg1 f1 b lg2. blackbox_logger_flush True True lg f = Some (BLACKBOX_LOGGER_OK, lg1, f1, b)
    \<and> write_offset lg1 = write_offset lg + entries_size (align_of lg) es
    \<and> laid_out (align_of lg) (cells f1) (write_offset lg) es
    \<and> blackbox_logger_init over_old True True ESP_OK True True lg0 (config_ptr lg1) f1 = Some (BLACKBOX_LOGGER_OK, lg2, f1)
    \<and> write_offset lg2 = write_offset lg \<and> logger_ready rd wr er cells good sector lg2 f1 []"
proof -
  let ?wo = "write_offset lg"
  obtain c where cp: "config_ptr lg = Some c" and ok: "config_ok rd wr er sector (length (cells f)) c"
    and bh: "batch_holds c lg es" and r: "write_lock lg" "good f"
    and ahead: "erased_ahead sector (cells f) lg"
    using ready by (auto simp: logger_ready_def)
  have a: "align_of lg = address_align c" using cp by (simp add: align_of_def)
  have len: "batch_len lg = entries_size (address_align c) es" using bh by (simp add: batch_holds_def)
  have i: "i < 2 ^ 32" using bh es(1) by (simp add: batch_holds_def)
  have fits': "entries_size (address_align c) es \<le> sec_end sector ?wo - ?wo" using fits a by simp
  let ?lg1 = "flushed c lg sector ?wo ?wo (?wo + batch_len lg)"
  let ?c1 = "c\<lparr>parameters := \<lparr>param_write_offset = ?wo, param_replay_offset = ?wo,
      param_last_id = last_id lg, param_is_dirty = True\<rparr>\<rparr>"
  have "es \<noteq> []" using es(1) by simp
  then obtain f1 bs where fl: "blackbox_logger_flush True True lg f
        = Some (BLACKBOX_LOGGER_OK, ?lg1, f1, on_replay_available_func c)"
    "good f1" "laid_out (address_align c) (cells f1) ?wo es" "length (cells f1) = length (cells f)"
    using flush_one_chunk [OF ok cp r bh _ wo(2) ahead fits'] wo(3)
    by (auto simp: replay_after_same chunk_written_def)
  have ok1: "config_ok rd wr er sector (length (cells f1)) ?c1" "address_align ?c1 = address_align c"
    "?wo = param_write_offset (parameters ?c1)" "param_last_id (parameters ?c1) = last_id lg"
    using ok fl(4) by (simp_all add: config_ok_def)
  let ?s = "started lg0 ?c1"
  have s: "config_ptr ?s = Some ?c1" "sector_buf_lock ?s" "read_func ?c1 = Some rd"
    "partition_size ?c1 = Some (length (cells f))" using ok by (simp_all add: started_def config_ok_def)
  have old: "\<not> is_logically_next_in_order_helper i (last_id lg)" unfolding es(2) by (rule not_next_earlier [OF i es(3,4)])
  have room: "?wo + entry_size (address_align c) (length d) \<le> sec_end sector ?wo" using fits es(1) a by simp
  obtain b where b: "try_hint True ?s rd ?wo f1 = Some (BLACKBOX_LOGGER_OK,
      ?s\<lparr>config_ptr := Some (set_recovered ?wo (last_id lg) (?c1\<lparr>sector_buf := Some b\<rparr>))\<rparr>)"
      "length b = length (the (sector_buf ?c1))"
    using try_hint_older [OF ok1(1) s(1,2) fl(2) ok1(3), of i d rest] wo fl(3,4) i old room
    unfolding ok1(2,4) es(1) by auto
  let ?c2 = "set_recovered ?wo (last_id lg) (?c1\<lparr>sector_buf := Some b\<rparr>)"
  have rec: "recover_logger_internal True True ?s f1 = Some (BLACKBOX_LOGGER_OK, fill_recovered (?s\<lparr>config_ptr := Some ?c2\<rparr>))"
    using b(1) s(1,3,4) by (simp add: recover_logger_internal_def)
  have c2: "config_ok rd wr er sector (length (cells f1)) ?c2" "param_write_offset (parameters ?c2) = ?wo"
    "param_replay_offset (parameters ?c2) = ?wo"
    using ok1(1) b(2) by (auto simp: set_recovered_def config_ok_def)
  have "config_ptr ?lg1 = Some ?c1" by (simp add: flushed_config)
  with init_ready [OF c2(1) fl(2) rec, of over_old] c2(2,3) wo(2) fl a len show ?thesis
    by (auto simp: flushed_config)
qed

text \<open>The first flush after a start erases the sector of the write offset again.\<close>

lemma restart_erases:
  assumes le: "last_erased_sector lg = -1"
    and ready: "logger_ready rd wr er cells good sector lg f []" and d: "d \<noteq> []"
    and fits: "entry_size (align_of lg) (length d) \<le> batch_buf_size (the (config_ptr lg))"
    and room: "write_offset lg < length (cells f)"
      "write_offset lg + entry_size (align_of lg) (length d) \<le> sec_end sector (write_offset lg)"
  shows "\<exists>lg1 lg2 f2 b. blackbox_logger_write True True True lg (Some (view_of d)) f = Some (BLACKBOX_LOGGER_OK, lg1, f, False)
    \<and> blackbox_logger_flush True True lg1 f = Some (BLACKBOX_LOGGER_OK, lg2, f2, b)
    \<and> (\<forall>i k. sec_start sector (write_offset lg) \<le> i \<and> i + k \<le> write_offset lg \<longrightarrow>
         buf_read (cells f2) i k = Some (replicate k 0xFF))"
proof -
  let ?wo = "write_offset lg"
  have b0: "batch_len lg = 0" using ready by (auto simp: logger_ready_def batch_holds_def)
  obtain lg1 where w: "blackbox_logger_write True True True lg (Some (view_of d)) f = Some (BLACKBOX_LOGGER_OK, lg1, f, False)"
    "logger_ready rd wr er cells good sector lg1 f [(u32_add (last_id lg) 1, d)]"
    "write_offset lg1 = ?wo" "last_erased_sector lg1 = -1" "align_of lg1 = align_of lg"
    using write_ready [OF ready d, of True True] fits b0 le by auto
  obtain c where c: "config_ptr lg1 = Some c" "config_ok rd wr er sector (length (cells f)) c" "write_lock lg1" "good f"
    "batch_holds c lg1 [(u32_add (last_id lg) 1, d)]" "erased_ahead sector (cells f) lg1"
    using w(2) by (auto simp: logger_ready_def)
  have a: "address_align c = align_of lg" using w(5) c(1) by (simp add: align_of_def)
  have wo: "write_offset lg1 < length (cells f)" using room(1) w(3) by simp
  have size: "entries_size (address_align c) [(u32_add (last_id lg) 1, d)] \<le> sec_end sector (write_offset lg1) - write_offset lg1"
    using room(2) a w(3) by simp
  obtain f2 bs lg2 b where fl: "blackbox_logger_flush True True lg1 f = Some (BLACKBOX_LOGGER_OK, lg2, f2, b)"
    "chunk_written sector (cells f) (write_offset lg1) bs
        (last_erased_sector lg1 = int (write_offset lg1 div sector)) (cells f2)"
    using flush_one_chunk [OF c(2,1,3,4,5) _ wo c(6) size] by blast
  have "\<forall>i k. sec_start sector ?wo \<le> i \<and> i + k \<le> ?wo \<longrightarrow> buf_read (cells f2) i k = Some (replicate k 0xFF)"
    using chunk_written_before [OF fl(2)] w(3,4) by simp
  with w(1) fl(1) show ?thesis by blast
qed

end

text \<open>No recovery tells which sector was erased last.\<close>

lemma linear_recover_last_erased:
  "linear_recover_helper l lg f = Some (e, lg') \<Longrightarrow> last_erased_sector lg' = last_erased_sector lg"
  by (auto simp: linear_recover_helper_def Let_def bind_eq_Some_conv split: option.splits if_splits)

lemma binary_recover_last_erased:
  "binary_search_recover_helper lg f = Some (e, lg') \<Longrightarrow> last_erased_sector lg' = last_erased_sector lg"
  by (auto simp: binary_search_recover_helper_def Let_def bind_eq_Some_conv split: option.splits if_splits prod.splits)

lemma try_hint_last_erased:
  "try_hint l lg rd h f = Some (e, lg') \<Longrightarrow> last_erased_sector lg' = last_erased_sector lg"
  by (auto simp: try_hint_def bind_eq_Some_conv dest: linear_recover_last_erased split: if_splits)

lemma fill_recovered_last_erased [simp]: "last_erased_sector (fill_recovered lg) = last_erased_sector lg"
  by (simp add: fill_recovered_def update_parameters_internal_def split: option.split)

lemma recover_last_erased:
  assumes "recover_logger_internal l l2 lg f = Some (e, lg')"
  shows "last_erased_sector lg' = last_erased_sector lg"
proof (cases "\<exists>c rd n. config_ptr lg = Some c \<and> read_func c = Some rd \<and> partition_size c = Some n")
  case True
  then obtain c rd n where c: "config_ptr lg = Some c" "read_func c = Some rd" "partition_size c = Some n" by blast
  from assms obtain e1 lg1 where h: "try_hint l lg rd (param_write_offset (parameters c)) f = Some (e1, lg1)"
    by (auto simp: recover_logger_internal_def c bind_eq_Some_conv)
  show ?thesis
  proof (cases "e1 = BLACKBOX_LOGGER_OK")
    case True
    with assms h c try_hint_last_erased [OF h] show ?thesis by (auto simp: recover_logger_internal_def)
  next
    case False
    with assms h obtain e2 lg2 where b: "binary_search_recover_helper lg1 f = Some (e2, lg2)"
      by (auto simp: recover_logger_internal_def c bind_eq_Some_conv)
    show ?thesis
      using assms h c b False try_hint_last_erased [OF h] binary_recover_last_erased [OF b]
      by (auto simp: recover_logger_internal_def bind_eq_Some_conv split: if_splits dest!: linear_recover_last_erased)
  qed
next
  case False
  with assms show ?thesis by (auto simp: recover_logger_internal_def split: option.splits)
qed

lemma init_last_erased:
  assumes "blackbox_logger_init over_old m1 m2 te l l2 lg0 (Some c0) f0 = Some (BLACKBOX_LOGGER_OK, lg, f)"
  shows "last_erased_sector lg = -1"
  using assms
  by (auto simp: blackbox_logger_init_def Let_def bind_eq_Some_conv split: if_splits dest!: recover_last_erased)

section \<open>A flash with one entry\<close>

definition mock_one :: mock_partition where
  "mock_one = mock_example\<lparr>memory := overlay (memory mock_example) 0 (entry_image 1 [7, 9])\<rparr>"

lemma mock_one:
  "mock_good mock_one" "length (memory mock_one) = 16384" "laid_out 4 (memory mock_one) 0 [(1, [7, 9])]"
  "20 \<le> j \<Longrightarrow> j + n \<le> 16384 \<Longrightarrow> blank (memory mock_one) j n"
  by (auto simp: mock_one_def mock_example_def mock_good_def blank_def nth_overlay overlay_read_same
      overlay_read_same [of 0 "entry_image 1 [7, 9]", simplified] entry_size_def)

lemma mock_one_header:
  "sector_header 4096 (memory mock_one) 0
    = \<lparr>header_magic = BLACKBOX_LOGGER_HEADER_MAGIC, entry_id = 1, entry_length = 2\<rparr>"
  using mock.stored_header [of 4 mock_one 0 1 "[7, 9]" "[]"] mock_one by (simp add: sector_header_def)

lemma next_self: "i < 2 ^ 32 \<Longrightarrow> is_logically_next_in_order_helper i i"
  by (simp add: is_logically_next_in_order_helper_def u32_sub_small)

lemma mock_one_sorted:
  "\<forall>k < length (memory mock_one) div 4096. sector_newer 4096 (memory mock_one) 1 k \<longleftrightarrow> k < 1"
proof (intro allI impI)
  fix k assume k: "k < length (memory mock_one) div 4096"
  show "sector_newer 4096 (memory mock_one) 1 k \<longleftrightarrow> k < 1"
  proof (cases "k = 0")
    case True
    then show ?thesis by (simp add: sector_newer_def mock_one_header next_self)
  next
    case False
    then have "blank (memory mock_one) (k * 4096) 4" using k mock_one(2) by (intro mock_one(4)) simp_all
    moreover have "k * 4096 + 12 \<le> length (memory mock_one)" using k mock_one(2) by simp
    ultimately show ?thesis using blank_header False by (simp add: sector_newer_def sector_header_def)
  qed
qed

lemma mock_one_config: "config_ok mock_read mock_write mock_erase_range 4096 (length (memory mock_one)) config_example"
  using config_ok_example mock_one(2) by simp

text \<open>The same flash after the power was lost \<open>k\<close> bytes into the write of a second entry.\<close>

definition mock_torn :: "nat \<Rightarrow> mock_partition" where
  "mock_torn k = mock_one\<lparr>memory := overlay (memory mock_one) 20 (take k (entry_image 2 [8]))\<rparr>"

lemma mock_torn:
  assumes "k < 19"
  shows "mock_good (mock_torn k)" "length (memory (mock_torn k)) = 16384"
    "laid_out 4 (memory (mock_torn k)) 0 [(1, [7, 9])]" "torn_entry (memory (mock_torn k)) 20 2 [8] k"
    "sector_header 4096 (memory (mock_torn k)) j = sector_header 4096 (memory mock_one) j"
proof -
  let ?m = "memory (mock_torn k)" and ?b = "take k (entry_image 2 [8 :: byte])"
  have w: "20 + length ?b \<le> length (memory mock_one)" using assms mock_one(2) by simp
  show len: "length ?m = 16384" using w mock_one(2) by (simp add: mock_torn_def)
  show "mock_good (mock_torn k)" using mock_one(1,2) len by (simp add: mock_good_def mock_torn_def)
  have same: "buf_read ?m i n = buf_read (memory mock_one) i n" if "i + n \<le> 20 \<or> 39 \<le> i" for i n
    unfolding mock_torn_def using overlay_read_other [OF w, of i n] that assms by auto
  show "laid_out 4 ?m 0 [(1, [7, 9])]"
    by (rule laid_out_cong [OF mock_one(3) alignment_4]) (use same len mock_one(2) in \<open>simp_all add: entry_size_def\<close>)
  have "buf_read ?m 20 19 = Some (?b @ replicate (19 - k) 0xFF)"
  proof -
    have "take 19 (drop 20 ?m) = ?b @ replicate (19 - k) 0xFF"
    proof (rule nth_equalityI)
      fix j assume "j < length (take 19 (drop 20 ?m))"
      then have j: "j < 19" by simp
      have "memory mock_one ! (20 + j) = 0xFF" using mock_one(4) [of 20 19] j by (simp add: blank_def)
      then have "?m ! (20 + j) = (if j < k then entry_image 2 [8] ! j else 0xFF)"
        using j w assms mock_one(2) by (simp add: mock_torn_def nth_overlay)
      then show "take 19 (drop 20 ?m) ! j = (?b @ replicate (19 - k) 0xFF) ! j"
        using j len assms by (simp add: nth_append)
    qed (use len assms in simp)
    then show ?thesis using len by (simp add: buf_read_def)
  qed
  then show "torn_entry ?m 20 2 [8] k" using assms by (simp add: torn_entry_def)
  have "take 12 (drop (j * 4096) ?m) = take 12 (drop (j * 4096) (memory mock_one))"
  proof -
    have "take 12 (drop i (overlay m 20 b)) = take 12 (drop i m)"
      if "i = 0 \<or> 4096 \<le> i" "20 + length b \<le> length m" "length b < 19" for i and m b :: bytes
      using that by (auto simp: overlay_def)
    from this [of "j * 4096" ?b "memory mock_one"] w assms show ?thesis by (cases j) (simp_all add: mock_torn_def)
  qed
  then show "sector_header 4096 ?m j = sector_header 4096 (memory mock_one) j" by (simp add: sector_header_def)
qed

lemma mock_torn_sorted:
  assumes "k < 19"
  shows "\<forall>j < length (memory (mock_torn k)) div 4096. sector_newer 4096 (memory (mock_torn k)) 1 j \<longleftrightarrow> j < 1"
    and "found 4096 (memory (mock_torn k)) 1 1 = (int 0, 1)"
  using mock_one_sorted mock_torn [OF assms] mock_one(2) mock_one_header by (simp_all add: sector_newer_def found_def)

lemma mock_torn_config:
  "k < 19 \<Longrightarrow> config_ok mock_read mock_write mock_erase_range 4096 (length (memory (mock_torn k))) config_example"
  using config_ok_example mock_torn(2) by simp

section \<open>Properties\<close>

text \<open>
  C11. Recovery without a usable saved position (the default one, or one that has no header behind
  it, such as the end of the log or a corrupt value). Let exactly the first \<open>cnt\<close> sectors start with an entry
  that is not older than the one of sector 0 (what a log that never wrapped, or wrapped at a
  sector boundary, looks like); the last of them is the head sector. If its entries are in order
  and blank bytes follow, or an entry that a power loss cut off before or behind its length field,
  the start succeeds, the write offset is right behind the last whole entry, the last number is
  that entry's, and the logger's invariant holds.
\<close>

theorem blackbox_recovery_finds_end:
  assumes "flash_device rd wr er cells good sector"
    and "config_ok rd wr er sector (length (cells f)) c" and "good f" and "12 \<le> sector"
    and "hint_lost (cells f) (param_write_offset (parameters c))" and "param_replay_offset (parameters c) \<le> length (cells f)"
    and "base = (if header_magic (sector_header sector (cells f) 0) = BLACKBOX_LOGGER_HEADER_MAGIC
      then entry_id (sector_header sector (cells f) 0) else 0)"
    and "\<forall>k < length (cells f) div sector. sector_newer sector (cells f) base k \<longleftrightarrow> k < cnt"
    and "cnt \<le> length (cells f) div sector"
    and "found sector (cells f) base cnt = (int head, i)" and "head < length (cells f) div sector"
    and "laid_out (address_align c) (cells f) (head * sector) es" and "in_order i es"
    and "log_ends (cells f) (head * sector + entries_size (address_align c) es) (sector - entries_size (address_align c) es)"
  shows "\<exists>lg. blackbox_logger_init over_old True True ESP_OK True True lg0 (Some c) f = Some (BLACKBOX_LOGGER_OK, lg, f)
    \<and> write_offset lg = head * sector + entries_size (address_align c) es
    \<and> replay_offset lg = param_replay_offset (parameters c) \<and> last_id lg = last_number i es
    \<and> logger_ready rd wr er cells good sector lg f []"
  using flash_device.init_log_ends [OF assms] by blast

lemma blackbox_recovery_finds_end_witness:
  "\<exists>lg. blackbox_logger_init True True True ESP_OK True True (logger_example 7) (Some config_example) (mock_torn 15)
      = Some (BLACKBOX_LOGGER_OK, lg, mock_torn 15) \<and> write_offset lg = 20 \<and> last_id lg = 1"
proof -
  have k: "15 < (19 :: nat)" by simp
  have "log_ends (memory (mock_torn 15)) 20 4076"
    unfolding log_ends_def by (intro disjI2 exI [of _ 2] exI [of _ "[8]"] exI [of _ 15]) (simp add: mock_torn)
  with mock_torn [OF k] mock_torn_sorted [OF k] show ?thesis
    using blackbox_recovery_finds_end [OF mock_device mock_torn_config [OF k] mock_torn(1) [OF k],
        of 1 1 0 1 "[(1, [7, 9])]" True "logger_example 7"]
    by (auto simp: mock_one_header next_self config_example_def blackbox_logger_default_parameters_def entry_size_def)
qed

text \<open>
  C26. A power loss within the length field of an entry. When one to three bytes of the field of an
  entry in the head sector reached the flash, and the start has no saved position with a header
  behind it, it takes the magic number for an entry, uses the length (over 4000 megabytes) before
  it checks it, and reads that far behind its sector buffer: there is no recovery from such a log.
  The payload's length, modulo 256, is below 244 here: with a larger one the sum of the header and
  a length of which one byte was written wraps around.
\<close>

theorem blackbox_torn_length_reads_outside:
  assumes "flash_device rd wr er cells good sector"
    and "config_ok rd wr er sector (length (cells f)) c" and "good f" and "12 \<le> sector"
    and "hint_lost (cells f) (param_write_offset (parameters c))" and "length (the (sector_buf c)) < 2 ^ 31"
    and "base = (if header_magic (sector_header sector (cells f) 0) = BLACKBOX_LOGGER_HEADER_MAGIC
      then entry_id (sector_header sector (cells f) 0) else 0)"
    and "\<forall>k < length (cells f) div sector. sector_newer sector (cells f) base k \<longleftrightarrow> k < cnt"
    and "cnt \<le> length (cells f) div sector"
    and "found sector (cells f) base cnt = (int head, i)" and "head < length (cells f) div sector"
    and "laid_out (address_align c) (cells f) (head * sector) es" and "in_order i es"
    and "torn_entry (cells f) (head * sector + entries_size (address_align c) es) j d k"
    and "entries_size (address_align c) es + 18 + length d \<le> sector"
    and "9 \<le> k" and "k < 12" and "length d mod 256 < 244"
  shows "blackbox_logger_init over_old True True ESP_OK True True lg0 (Some c) f = None"
  by (rule flash_device.init_outside [OF assms])

lemma blackbox_torn_length_reads_outside_witness:
  "blackbox_logger_init True True True ESP_OK True True (logger_example 7) (Some config_example) (mock_torn 9) = None"
proof -
  have k: "9 < (19 :: nat)" by simp
  note m = mock_torn [OF k]
  show ?thesis
    by (rule blackbox_torn_length_reads_outside [OF mock_device mock_torn_config [OF k] m(1),
          where base = 1 and cnt = 1 and head = 0 and i = 1 and es = "[(1, [7, 9])]" and j = 2 and d = "[8]" and k = 9])
      (use m mock_torn_sorted [OF k] in \<open>simp_all add: mock_one_header next_self config_example_def
        blackbox_logger_default_parameters_def entry_size_def\<close>)
qed

text \<open>
  C25. Recovery with a saved position goes back. The parameters a flush saves are the start of the
  chunk it wrote and the number of its last entry. When the chunk holds two entries or more, a
  restart with them finds the first entry older than the saved number and stops there: the write
  offset is the start of the chunk that was just stored, not its end, so the next writes go over it.
\<close>

theorem blackbox_restart_goes_back:
  assumes "flash_device rd wr er cells good sector"
    and "logger_ready rd wr er cells good sector lg f es"
    and "es = (i, d) # rest" and "last_id lg = (i + k) mod 2 ^ 32" and "0 < k" and "k < 2 ^ 31"
    and "0 < write_offset lg" and "write_offset lg < length (cells f)" and "replay_offset lg = write_offset lg"
    and "write_offset lg + entries_size (align_of lg) es \<le> sec_end sector (write_offset lg)"
  shows "\<exists>lg1 f1 b lg2. blackbox_logger_flush True True lg f = Some (BLACKBOX_LOGGER_OK, lg1, f1, b)
    \<and> write_offset lg1 = write_offset lg + entries_size (align_of lg) es
    \<and> laid_out (align_of lg) (cells f1) (write_offset lg) es
    \<and> blackbox_logger_init over_old True True ESP_OK True True lg0 (config_ptr lg1) f1 = Some (BLACKBOX_LOGGER_OK, lg2, f1)
    \<and> write_offset lg2 = write_offset lg \<and> logger_ready rd wr er cells good sector lg2 f1 []"
  by (rule flash_device.flush_restart_stale [OF assms])

lemma blackbox_restart_goes_back_witness:
  "\<exists>lg lg1 f1 b lg2. blackbox_logger_flush True True lg mock_example = Some (BLACKBOX_LOGGER_OK, lg1, f1, b)
    \<and> write_offset lg1 = 140
    \<and> blackbox_logger_init True True True ESP_OK True True (logger_example 0) (config_ptr lg1) f1 = Some (BLACKBOX_LOGGER_OK, lg2, f1)
    \<and> write_offset lg2 = 100"
proof -
  obtain lg where lg: "logger_ready mock_read mock_write mock_erase_range memory mock_good 4096 lg mock_example [(1, [7, 9]), (2, [8])]"
    "write_offset lg = 100" "replay_offset lg = 100" "align_of lg = 4" "last_id lg = 2"
    using ready_example_two [of 100] by auto
  have "last_id lg = (1 + 1) mod 2 ^ 32" "0 < write_offset lg" "write_offset lg < length (memory mock_example)"
    "replay_offset lg = write_offset lg"
    "write_offset lg + entries_size (align_of lg) [(1, [7, 9]), (2, [8])] \<le> sec_end 4096 (write_offset lg)"
    by (simp_all add: lg(2-5) mock_example_def sec_end_def entry_size_def)
  moreover have "100 + entries_size 4 [(1, [7, 9]), (2, [8])] = 140" by (simp add: entry_size_def)
  ultimately show ?thesis
    using blackbox_restart_goes_back [OF mock_device lg(1) refl, of 1 True "logger_example 0", unfolded lg(2,4)] lg(2-5) by auto
qed

text \<open>
  C24. After a restart the logger does not know that the sector of its write offset was erased
  before: the first flush erases it again. When the recovered write offset lies inside a sector,
  every byte that was stored in that sector before it is lost.
\<close>

theorem blackbox_restart_erases_sector:
  assumes "flash_device rd wr er cells good sector"
    and "blackbox_logger_init over_old m1 m2 te l l2 lg0 (Some c0) f0 = Some (BLACKBOX_LOGGER_OK, lg, f)"
    and "logger_ready rd wr er cells good sector lg f []" and "d \<noteq> []"
    and "entry_size (align_of lg) (length d) \<le> batch_buf_size (the (config_ptr lg))"
    and "write_offset lg < length (cells f)"
    and "write_offset lg + entry_size (align_of lg) (length d) \<le> sec_end sector (write_offset lg)"
  shows "\<exists>lg1 lg2 f2 b. blackbox_logger_write True True True lg (Some (view_of d)) f = Some (BLACKBOX_LOGGER_OK, lg1, f, False)
    \<and> blackbox_logger_flush True True lg1 f = Some (BLACKBOX_LOGGER_OK, lg2, f2, b)
    \<and> (\<forall>i k. sec_start sector (write_offset lg) \<le> i \<and> i + k \<le> write_offset lg \<longrightarrow>
         buf_read (cells f2) i k = Some (replicate k 0xFF))"
  by (rule flash_device.restart_erases [OF assms(1) init_last_erased [OF assms(2)] assms(3-)])

lemma blackbox_restart_erases_sector_witness:
  "\<exists>lg lg1 lg2 f2 b. buf_read (memory mock_one) 0 20 = Some (entry_image 1 [7, 9])
    \<and> blackbox_logger_init True True True ESP_OK True True (logger_example 7) (Some config_example) mock_one
      = Some (BLACKBOX_LOGGER_OK, lg, mock_one)
    \<and> blackbox_logger_write True True True lg (Some (view_of [5])) mock_one = Some (BLACKBOX_LOGGER_OK, lg1, mock_one, False)
    \<and> blackbox_logger_flush True True lg1 mock_one = Some (BLACKBOX_LOGGER_OK, lg2, f2, b)
    \<and> buf_read (memory f2) 0 20 = Some (replicate 20 0xFF)"
proof -
  have found: "found 4096 (memory mock_one) 1 1 = (int 0, 1)" by (simp add: found_def mock_one_header)
  have bl: "no_entry (memory mock_one) 20 4076" by (rule blank_no_entry) (simp_all add: mock_one)
  obtain lg where lg: "blackbox_logger_init True True True ESP_OK True True (logger_example 7) (Some config_example) mock_one
      = Some (BLACKBOX_LOGGER_OK, lg, mock_one)" "write_offset lg = 20" "align_of lg = 4"
      "batch_buf_size (the (config_ptr lg)) = 1024"
      "logger_ready mock_read mock_write mock_erase_range memory mock_good 4096 lg mock_one []"
    using flash_device.init_finds [OF mock_device mock_one_config mock_one(1), of 1 1 0 1 "[(1, [7, 9])]" True "logger_example 7"]
      mock_one mock_one_sorted found bl
    by (auto simp: mock_one_header next_self config_example_def blackbox_logger_default_parameters_def entry_size_def)
  have img: "buf_read (memory mock_one) 0 20 = Some (entry_image 1 [7, 9])" using mock_one(3) by simp
  have d: "[5] \<noteq> ([] :: bytes)" "entry_size (align_of lg) (length ([5] :: bytes)) \<le> batch_buf_size (the (config_ptr lg))"
    "write_offset lg < length (memory mock_one)"
    "write_offset lg + entry_size (align_of lg) (length ([5] :: bytes)) \<le> sec_end 4096 (write_offset lg)"
    by (simp_all add: lg(2-4) mock_one(2) entry_size_def sec_end_def)
  have st: "sec_start 4096 20 = 0" by (simp add: sec_start_def)
  obtain lg1 lg2 f2 b where "blackbox_logger_write True True True lg (Some (view_of [5])) mock_one = Some (BLACKBOX_LOGGER_OK, lg1, mock_one, False)"
    "blackbox_logger_flush True True lg1 mock_one = Some (BLACKBOX_LOGGER_OK, lg2, f2, b)"
    "\<forall>i k. sec_start 4096 (write_offset lg) \<le> i \<and> i + k \<le> write_offset lg \<longrightarrow> buf_read (memory f2) i k = Some (replicate k 0xFF)"
    using blackbox_restart_erases_sector [OF mock_device lg(1,5) d] by blast
  moreover from this(3) have "buf_read (memory f2) 0 20 = Some (replicate 20 0xFF)" by (simp add: lg(2) st)
  ultimately show ?thesis using img lg(1) by blast
qed

end
