(* ===== verification/Blackbox_Search.thy ===== *)
theory Blackbox_Search imports Blackbox_Recovery begin

text \<open>
  When the search after a restart comes to an end. It reads an entry's tail at the length that the
  header says, before it checks it, so it is safe exactly as long as no header it may meet has a
  length that leads out of the sector; then every loop ends, whatever the flash holds besides and
  whatever position was saved.
\<close>

definition header_at :: "bytes \<Rightarrow> nat \<Rightarrow> blackbox_logger_entry_header" where
  "header_at m p = header_of_image (take 12 (drop p m))"

text \<open>Every header with room for an entry behind it says a length that stays in its sector.\<close>

definition lengths_inside :: "nat \<Rightarrow> bytes \<Rightarrow> bool" where
  "lengths_inside sector m \<longleftrightarrow> (\<forall>p < length m. p + 18 \<le> sec_end sector p \<and> header_magic (header_at m p) = BLACKBOX_LOGGER_HEADER_MAGIC
     \<longrightarrow> p + 18 + entry_length (header_at m p) \<le> sec_end sector p)"

text \<open>A driver that is asked for a header which is not wholly in the partition reads nothing.\<close>

definition header_reads_end :: "('f \<Rightarrow> nat \<Rightarrow> nat \<Rightarrow> esp_err \<times> bytes) \<Rightarrow> ('f \<Rightarrow> bytes) \<Rightarrow> 'f \<Rightarrow> bool" where
  "header_reads_end rd cells f \<longleftrightarrow> (\<forall>off. length (cells f) < off + 12 \<longrightarrow> snd (rd f off 12) = [])"

section \<open>One sector\<close>

lemma linear_scan_sector_ends:
  assumes al: "alignment a" and s: "sector \<le> length buf" "sector < 2 ^ 31"
    and sane: "\<And>p. p + 18 \<le> sector \<Longrightarrow> header_magic (header_at buf p) = BLACKBOX_LOGGER_HEADER_MAGIC \<Longrightarrow>
      p + 18 + entry_length (header_at buf p) \<le> sector"
    and pos: "current_buf_pos st \<le> sector + 16"
  shows "\<exists>st'. linear_scan_sector a sector base buf st = Some st'"
  using pos
proof (induction "sector + 16 - current_buf_pos st" arbitrary: st rule: less_induct)
  case less
  let ?p = "current_buf_pos st"
  have stop: "linear_scan_sector a sector base buf (st\<lparr>scan_complete := True\<rparr>) = Some (st\<lparr>scan_complete := True\<rparr>)"
    by (subst linear_scan_sector.simps) simp
  show ?case
  proof (cases "?p + 12 \<le> sector \<and> \<not> scan_complete st")
    case False
    then show ?thesis using less.prems s(2) by (subst linear_scan_sector.simps) (auto simp: u32_add_small)
  next
    case True
    then have p: "u32_add ?p 12 = ?p + 12" "u32_sub sector ?p = sector - ?p" "12 \<le> length (drop ?p buf)"
      using s by (auto simp: u32_add_small u32_sub_small)
    show ?thesis
    proof (cases "sector - ?p < 18 \<or> header_magic (header_at buf ?p) \<noteq> BLACKBOX_LOGGER_HEADER_MAGIC")
      case no: True
      then have "\<exists>err. validate_entry_internal (Some (drop ?p buf)) (sector - ?p) = Some err \<and> err \<noteq> BLACKBOX_LOGGER_OK"
        using p(3) by (auto simp: validate_entry_internal_def is_data_entry_internal_def buf_read_ok header_at_def Let_def)
      with True p stop show ?thesis by (subst linear_scan_sector.simps) auto
    next
      case hd: False
      let ?l = "entry_length (header_at buf ?p)"
      have l: "?p + 18 + ?l \<le> sector" using sane [of ?p] hd by auto
      then have "\<exists>err. validate_entry_internal (Some (drop ?p buf)) (sector - ?p) = Some err"
        using validate_cases [of "sector - ?p" "drop ?p buf" "u32_add 12 ?l"] hd p(3) s
        by (simp add: header_at_def u32_add_small)
      then obtain err where v: "validate_entry_internal (Some (drop ?p buf)) (sector - ?p) = Some err" by blast
      let ?n = "entry_size a ?l"
      have n: "entry_total_aligned_size_helper ?l a = ?n" using al l s by (intro entry_total_aligned_size_eq) simp_all
      have b: "18 + ?l \<le> ?n" "?n < 18 + ?l + a" "a \<le> 16" using entry_size_bounds [OF al] alignmentD [OF al] by auto
      then have add: "u32_add ?p ?n = ?p + ?n" "?p + ?n \<le> sector + 16" "?p < ?p + ?n" using l s by (simp_all add: u32_add_small)
      have next': "\<exists>st'. linear_scan_sector a sector base buf (st\<lparr>highest_id := i, scan_write_offset := w, current_buf_pos := ?p + ?n\<rparr>) = Some st'" for i w
        using add(2,3) less.prems by (intro less.hyps) simp_all
      have "buf_read buf ?p 12 = Some (take 12 (drop ?p buf))" using p(3) by (simp add: buf_read_def)
      with True p v n add(1) stop next' show ?thesis
        by (subst linear_scan_sector.simps) (auto simp: header_at_def Let_def)
    qed
  qed
qed

lemma sec_end_in_sector: "p < sector \<Longrightarrow> sec_end sector (k * sector + p) = k * sector + sector"
  by (simp add: sec_end_def div_mult_self3)

lemma header_at_sector:
  assumes "base + sector \<le> length m" and "p + 12 \<le> sector"
  shows "header_at (take sector (drop base m) @ r) p = header_at m (base + p)"
proof -
  have "drop p (take sector (drop base m) @ r) = take (sector - p) (drop (base + p) m) @ r"
    using assms by (intro drop_sector) simp_all
  moreover have "take 12 (take (sector - p) (drop (base + p) m) @ r) = take 12 (drop (base + p) m)" using assms by simp
  ultimately show ?thesis by (simp only: header_at_def)
qed

section \<open>The whole search\<close>

context flash_device
begin

lemma linear_scan_ends:
  assumes g: "good f" and n: "length (cells f) = n * sector" and sec: "0 < sector" "alignment a"
    and sane: "lengths_inside sector (cells f)"
    and st: "k < n" "sector \<le> length b" "current_buf_pos st \<le> sector"
  shows "\<exists>e b' st'. linear_scan rd f a sector n k i b st = Some (e, b', st') \<and> length b' = length b"
  using st
proof (induction "n - i" arbitrary: k i b st rule: less_induct)
  case less
  show ?case
  proof (cases "\<not> scan_complete st \<and> i < n")
    case False
    then show ?thesis by (subst linear_scan.simps) auto
  next
    case True
    have "Suc k * sector \<le> n * sector" using less.prems(1) by (intro mult_le_mono1) simp
    then have base: "k * sector + sector \<le> length (cells f)" using n by simp
    have u: "u32_mul k sector = k * sector" using base cells_bound [OF g] by (intro u32_mul_small) simp
    let ?b = "take sector (drop (k * sector) (cells f)) @ drop sector b"
    have lb: "length ?b = length b" using base less.prems(2) by simp
    have "p + 18 + entry_length (header_at ?b p) \<le> sector"
      if "p + 18 \<le> sector" "header_magic (header_at ?b p) = BLACKBOX_LOGGER_HEADER_MAGIC" for p
    proof -
      have "sec_end sector (k * sector + p) = k * sector + sector" using that(1) by (intro sec_end_in_sector) simp
      moreover have "header_at ?b p = header_at (cells f) (k * sector + p)" using that(1) base by (intro header_at_sector) simp_all
      moreover have "k * sector + p < length (cells f)" using that(1) base by simp
      ultimately show ?thesis
        using sane [unfolded lengths_inside_def, rule_format, of "k * sector + p"] that by simp
    qed
    then obtain st' where st': "linear_scan_sector a sector (k * sector) ?b st = Some st'"
      using linear_scan_sector_ends [OF sec(2), of sector ?b st "k * sector"] lb less.prems(2,3) base cells_bound [OF g] by force
    have "\<exists>e b' st''. linear_scan rd f a sector n ((k + 1) mod n) (i + 1) ?b (st'\<lparr>current_buf_pos := 0\<rparr>) = Some (e, b', st'')
        \<and> length b' = length ?b"
      using True less.prems(1,2) lb by (intro less.hyps) auto
    with True st' u read_sector [OF g base less.prems(2)] lb show ?thesis
      by (subst linear_scan.simps) (simp add: Let_def esp_to_blackbox_error_map_def)
  qed
qed

lemma linear_recover_ends:
  assumes ok: "config_ok rd wr er sector (length (cells f)) c" and cp: "config_ptr lg = Some c" and g: "good f"
    and sane: "lengths_inside sector (cells f)" and hint: "param_write_offset (parameters c) < length (cells f)"
  shows "\<exists>e lg' c'. linear_recover_helper l lg f = Some (e, lg') \<and> config_ptr lg' = Some c'
    \<and> config_ok rd wr er sector (length (cells f)) c'"
proof -
  obtain b where b: "sector_buf c = Some b" "sector \<le> length b" using ok by (auto simp: config_ok_def)
  have c: "0 < sector" "sector dvd length (cells f)" "alignment (address_align c)" "sector_buf_size c = sector"
    "partition_size c = Some (length (cells f))" "read_func c = Some rd" "2 * sector \<le> length (cells f)"
    using ok by (simp_all add: config_ok_def)
  let ?h = "param_write_offset (parameters c)" and ?n = "length (cells f) div sector"
  let ?st = "\<lparr>highest_id = param_last_id (parameters c), scan_write_offset = ?h, current_buf_pos = ?h mod sector, scan_complete = False\<rparr>"
  have n: "length (cells f) = ?n * sector" using c(2) by simp
  then have "?h div sector < ?n" using hint by (simp add: less_mult_imp_div_less)
  then obtain e b' st' where scan: "linear_scan rd f (address_align c) sector ?n (?h div sector) 0 b ?st = Some (e, b', st')"
    "length b' = length b"
    using linear_scan_ends [OF g n c(1,3) sane, of "?h div sector" b ?st 0] b(2) c(1) by auto
  have "cells f \<noteq> []" using c(1,7) by auto
  then have r: "linear_recover_helper l lg f = Some (if \<not> sector_buf_lock lg then (BLACKBOX_LOGGER_ERR_INVALID_ARG, lg)
      else if \<not> l then (BLACKBOX_LOGGER_ERR_TIMEOUT, lg)
      else (e, lg\<lparr>config_ptr := Some (if e = BLACKBOX_LOGGER_OK
        then set_recovered (scan_write_offset st') (highest_id st') (c\<lparr>sector_buf := Some b'\<rparr>) else c\<lparr>sector_buf := Some b'\<rparr>)\<rparr>))"
    using cp b(1) c(1,4-6) scan(1) by (simp add: linear_recover_helper_def Let_def)
  have "config_ok rd wr er sector (length (cells f)) (c\<lparr>sector_buf := Some b'\<rparr>)"
    "config_ok rd wr er sector (length (cells f)) (set_recovered w i (c\<lparr>sector_buf := Some b'\<rparr>))" for w i
    using ok b scan(2) by (simp_all add: config_ok_def set_recovered_def)
  with ok cp r show ?thesis by auto
qed

lemma binary_search_loop_ends:
  assumes g: "good f" and n: "length (cells f) = n * sector" and s: "12 \<le> sector"
    and st: "0 \<le> low_sector st" "high_sector st < int n" "0 \<le> head_sector st" "head_sector st < int n"
      "length (current_entry_header st) = 12"
  shows "\<exists>st'. binary_search_loop rd f sector base st = Some (BLACKBOX_LOGGER_OK, st') \<and> 0 \<le> head_sector st' \<and> head_sector st' < int n"
  using st
proof (induction "nat (high_sector st - low_sector st + 1)" arbitrary: st rule: less_induct)
  case less
  show ?case
  proof (cases "low_sector st \<le> high_sector st")
    case False
    with less.prems show ?thesis by (subst binary_search_loop.simps) simp
  next
    case True
    define mid where "mid = low_sector st + (high_sector st - low_sector st) div 2"
    have mid: "low_sector st \<le> mid" "mid \<le> high_sector st" using midpoint [OF True] by (simp_all add: mid_def)
    define k where "k = nat mid"
    have k: "k < n" "int k = mid" using mid less.prems by (simp_all add: k_def)
    let ?hb = "take 12 (drop (k * sector) (cells f))"
    have rd: "read_into rd f (u32_mul (nat mid) sector) 12 (current_entry_header st) = Some (ESP_OK, ?hb)"
      using read_header [OF g k(1) n s less.prems(5)] by (simp add: k_def)
    have "Suc k * sector \<le> n * sector" using k(1) by (intro mult_le_mono1) simp
    then have hb: "length ?hb = 12" using n s by simp
    have "\<exists>st'. binary_search_loop rd f sector base (st\<lparr>current_entry_header := ?hb, head_sector := mid, low_sector := mid + 1, max_id := i\<rparr>)
        = Some (BLACKBOX_LOGGER_OK, st') \<and> 0 \<le> head_sector st' \<and> head_sector st' < int n" for i
      by (intro less.hyps) (use mid k hb less.prems in simp_all)
    moreover have "\<exists>st'. binary_search_loop rd f sector base (st\<lparr>current_entry_header := ?hb, high_sector := mid - 1\<rparr>)
        = Some (BLACKBOX_LOGGER_OK, st') \<and> 0 \<le> head_sector st' \<and> head_sector st' < int n"
      by (intro less.hyps) (use mid k hb less.prems in simp_all)
    ultimately show ?thesis using True rd [unfolded mid_def]
      by (subst binary_search_loop.simps) (auto simp: Let_def esp_to_blackbox_error_map_def mid_def [symmetric])
  qed
qed

lemma binary_recover_ends:
  assumes ok: "config_ok rd wr er sector (length (cells f)) c" and cp: "config_ptr lg = Some c" and g: "good f" and s: "12 \<le> sector"
  shows "\<exists>e lg' c'. binary_search_recover_helper lg f = Some (e, lg') \<and> config_ptr lg' = Some c'
    \<and> config_ok rd wr er sector (length (cells f)) c' \<and> (e = BLACKBOX_LOGGER_OK \<longrightarrow> param_write_offset (parameters c') < length (cells f))"
proof -
  let ?n = "length (cells f) div sector" and ?hb = "take 12 (cells f)"
  have c: "0 < sector" "sector dvd length (cells f)" "2 * sector \<le> length (cells f)" "sector_buf_size c = sector"
    "partition_size c = Some (length (cells f))" "read_func c = Some rd"
    using ok by (simp_all add: config_ok_def)
  have n: "length (cells f) = ?n * sector" "0 < ?n" using c(1-3) by (simp_all add: div_greater_zero_iff)
  have rd: "read_into rd f 0 12 (replicate 12 0) = Some (ESP_OK, ?hb)"
    using read_in [OF g, of 0 12] s c(3) by (simp add: read_into_def buf_write_ok)
  define base where "base = (if header_magic (header_of_image ?hb) = BLACKBOX_LOGGER_HEADER_MAGIC then entry_id (header_of_image ?hb) else 0)"
  let ?st = "\<lparr>low_sector = 0, high_sector = int ?n - 1, head_sector = 0, max_id = base, current_entry_header = ?hb\<rparr>"
  have "length ?hb = 12" using s c(3) by simp
  then obtain st' where st': "binary_search_loop rd f sector base ?st = Some (BLACKBOX_LOGGER_OK, st')"
    "0 \<le> head_sector st'" "head_sector st' < int ?n"
    using binary_search_loop_ends [OF g n(1) s, of ?st base] n(2) by auto
  have "Suc (nat (head_sector st')) * sector \<le> ?n * sector" using st'(2,3) by (intro mult_le_mono1) linarith
  then have h: "nat (head_sector st') * sector < length (cells f)" using n(1) c(1) by simp
  then have "u32_mul (nat (head_sector st')) sector = nat (head_sector st') * sector" using cells_bound [OF g] by (intro u32_mul_small) simp
  then have "binary_search_recover_helper lg f = Some (BLACKBOX_LOGGER_OK,
      lg\<lparr>config_ptr := Some (set_recovered (nat (head_sector st') * sector) (max_id st') c)\<rparr>)"
    using cp c(1,4-6) rd st'(1) by (simp add: binary_search_recover_helper_def esp_to_blackbox_error_map_def base_def)
  moreover have "config_ok rd wr er sector (length (cells f)) (set_recovered (nat (head_sector st') * sector) (max_id st') c)"
    using ok by (simp add: set_recovered_def config_ok_def)
  ultimately show ?thesis using h by (simp add: set_recovered_def)
qed

lemma try_hint_ends:
  assumes ok: "config_ok rd wr er sector (length (cells f)) c" and cp: "config_ptr lg = Some c" and g: "good f"
    and sane: "lengths_inside sector (cells f)" and out: "header_reads_end rd cells f"
  shows "\<exists>e lg' c'. try_hint l lg rd (param_write_offset (parameters c)) f = Some (e, lg') \<and> config_ptr lg' = Some c'
    \<and> config_ok rd wr er sector (length (cells f)) c'"
proof -
  let ?h = "param_write_offset (parameters c)"
  show ?thesis
  proof (cases "?h + 12 \<le> length (cells f)")
    case True
    then have "read_into rd f ?h 12 (replicate 12 0) = Some (ESP_OK, take 12 (drop ?h (cells f)))"
      using read_in [OF g] by (auto simp: read_into_def buf_write_ok)
    with linear_recover_ends [OF ok cp g sane] True ok cp show ?thesis by (auto simp: try_hint_def)
  next
    case False
    then have "snd (rd f ?h 12) = []" using out by (simp add: header_reads_end_def)
    then have "read_into rd f ?h 12 (replicate 12 0) = Some (fst (rd f ?h 12), replicate 12 0)"
      by (simp add: read_into_def buf_write_ok case_prod_beta)
    moreover have "take 4 (replicate 12 (0 :: byte)) = [0, 0, 0, 0]" by (simp add: numeral_eq_Suc)
    then have "header_magic (header_of_image (replicate 12 0)) = of_le32 [0, 0, 0, 0]"
      by (simp only: header_of_image_def blackbox_logger_entry_header.simps)
    then have "header_magic (header_of_image (replicate 12 0)) \<noteq> BLACKBOX_LOGGER_HEADER_MAGIC"
      by (simp add: of_le32_def BLACKBOX_LOGGER_HEADER_MAGIC_def)
    ultimately show ?thesis using ok cp by (auto simp: try_hint_def)
  qed
qed

lemma recover_ends:
  assumes ok: "config_ok rd wr er sector (length (cells f)) c" and cp: "config_ptr lg = Some c" and g: "good f" and s: "12 \<le> sector"
    and sane: "lengths_inside sector (cells f)" and out: "header_reads_end rd cells f"
  shows "recover_logger_internal l l2 lg f \<noteq> None"
proof -
  have c: "read_func c = Some rd" "partition_size c = Some (length (cells f))" using ok by (simp_all add: config_ok_def)
  obtain e1 lg1 c1 where h: "try_hint l lg rd (param_write_offset (parameters c)) f = Some (e1, lg1)" "config_ptr lg1 = Some c1"
    "config_ok rd wr er sector (length (cells f)) c1"
    using try_hint_ends [OF ok cp g sane out] by blast
  obtain e2 lg2 c2 where b: "binary_search_recover_helper lg1 f = Some (e2, lg2)" "config_ptr lg2 = Some c2"
    "config_ok rd wr er sector (length (cells f)) c2" "e2 = BLACKBOX_LOGGER_OK \<longrightarrow> param_write_offset (parameters c2) < length (cells f)"
    using binary_recover_ends [OF h(3,2) g s] by blast
  show ?thesis
  proof (cases "e2 = BLACKBOX_LOGGER_OK")
    case True
    then obtain e3 lg3 where "linear_recover_helper l2 lg2 f = Some (e3, lg3)"
      using linear_recover_ends [OF b(3,2) g sane] b(4) by blast
    with h(1) b(1) c cp show ?thesis by (simp add: recover_logger_internal_def)
  qed (use h(1) b(1) c cp in \<open>simp add: recover_logger_internal_def\<close>)
qed

text \<open>The start of the logger has a result, whatever the saved position.\<close>

lemma init_ends:
  assumes "config_ok rd wr er sector (length (cells f)) c" and "good f" and "12 \<le> sector"
    and "lengths_inside sector (cells f)" and "header_reads_end rd cells f"
  shows "blackbox_logger_init over_old True True ESP_OK l l2 lg (Some c) f \<noteq> None"
  using recover_ends [OF assms(1) _ assms(2-5), of "lg\<lparr>config_ptr := Some c, last_erased_sector := -1, batch_len := 0, write_lock := True,
      sector_buf_lock := True, flush_timer := Some False\<rparr>" l l2]
  by (auto simp: blackbox_logger_init_def Let_def esp_to_blackbox_error_map_def)

end

section \<open>Flashes on which it ends\<close>

lemma lengths_inside_blank:
  assumes "0 < sector" and "sector dvd length m" and "blank m 0 (length m)"
  shows "lengths_inside sector m"
proof -
  have False if p: "p < length m" "p + 18 \<le> sec_end sector p" and mg: "header_magic (header_at m p) = BLACKBOX_LOGGER_HEADER_MAGIC" for p
  proof -
    have "p + 12 \<le> length m" using p sec_end_le [OF assms(1,2) p(1)] by simp
    moreover from this have "blank m p 4" using assms(3) by (simp add: blank_def)
    ultimately show False using blank_header mg by (simp add: header_at_def)
  qed
  then show ?thesis by (auto simp: lengths_inside_def)
qed

lemma mock_header_reads_end: "mock_size m = length (memory m) \<Longrightarrow> length (memory m) < 2 ^ 31 \<Longrightarrow> header_reads_end mock_read memory m"
proof (unfold header_reads_end_def, intro allI impI)
  fix off assume m: "mock_size m = length (memory m)" "length (memory m) < 2 ^ 31" "length (memory m) < off + 12"
  show "snd (mock_read m off 12) = []"
  proof (cases "off + 12 < 2 ^ 32")
    case True
    then show ?thesis using m by (simp add: mock_read_def u32_add_small)
  next
    case False
    then show ?thesis using m by (simp add: mock_read_def)
  qed
qed

text \<open>A flash with one entry.\<close>

lemma length_two: "length [x, y] = 2"
  by simp

lemma image_one:
  "\<exists>c0 c1. entry_image 1 [7, 9] = [0x4D, 0x42, 0x55, 0x53, 1, 0, 0, 0, 2, 0, 0, 0, 7, 9, c0, c1, 0x53, 0x55, 0x42, 0x4D]"
proof -
  have h: "header_image \<lparr>header_magic = BLACKBOX_LOGGER_HEADER_MAGIC, entry_id = 1, entry_length = 2\<rparr>
      = [0x4D, 0x42, 0x55, 0x53, 1, 0, 0, 0, 2, 0, 0, 0]"
    by (simp add: header_image_def le32_def BLACKBOX_LOGGER_HEADER_MAGIC_def)
  have t: "tail_image \<lparr>tail_crc = x, tail_magic = BLACKBOX_LOGGER_TAIL_MAGIC\<rparr>
      = [ucast x, ucast (drop_bit 8 x), 0x53, 0x55, 0x42, 0x4D]" for x
    by (simp add: tail_image_def le16_def le32_def BLACKBOX_LOGGER_TAIL_MAGIC_def)
  define x where "x = calculate_modbus_crc16_lut ([0x4D, 0x42, 0x55, 0x53, 1, 0, 0, 0, 2, 0, 0, 0] @ [7, 9])"
  have "entry_image 1 [7, 9] = [0x4D, 0x42, 0x55, 0x53, 1, 0, 0, 0, 2, 0, 0, 0] @ [7, 9]
      @ [ucast x, ucast (drop_bit 8 x), 0x53, 0x55, 0x42, 0x4D]"
    unfolding entry_image_def Let_def length_two h t x_def ..
  then have "entry_image 1 [7, 9] = [0x4D, 0x42, 0x55, 0x53, 1, 0, 0, 0, 2, 0, 0, 0, 7, 9, ucast x, ucast (drop_bit 8 x), 0x53, 0x55, 0x42, 0x4D]"
    unfolding append.simps .
  then show ?thesis by (intro exI)
qed

lemma header_bytes:
  assumes "header_magic (header_at m p) = BLACKBOX_LOGGER_HEADER_MAGIC" and "p + 12 \<le> length m"
  shows "m ! p = 0x4D" and "m ! (p + 3) = 0x53"
proof -
  have "header_magic (header_at m p) = of_le32 (take 4 (drop p m))"
    unfolding header_at_def header_take12 by (simp only: header_of_image_def blackbox_logger_entry_header.simps)
  then have w: "of_le32 (take 4 (drop p m)) = BLACKBOX_LOGGER_HEADER_MAGIC" using assms(1) by simp
  from of_le32_byte0 [of "take 4 (drop p m)"] show "m ! p = 0x4D"
    unfolding w using assms(2) by (simp add: BLACKBOX_LOGGER_HEADER_MAGIC_def)
  from of_le32_byte3 [of "take 4 (drop p m)"] show "m ! (p + 3) = 0x53"
    unfolding w using assms(2) by (simp add: BLACKBOX_LOGGER_HEADER_MAGIC_def)
qed

lemma lengths_inside_one: "lengths_inside 4096 (memory mock_one)"
  unfolding lengths_inside_def
proof (intro allI impI, elim conjE)
  let ?m = "memory mock_one"
  fix p assume p: "p < length ?m" "p + 18 \<le> sec_end 4096 p" and mg: "header_magic (header_at ?m p) = BLACKBOX_LOGGER_HEADER_MAGIC"
  have "(4096 :: nat) dvd length ?m" using mock_one(2) by simp
  then have "sec_end 4096 p \<le> length ?m" by (intro sec_end_le p(1)) simp_all
  with p(2) have le: "p + 18 \<le> length ?m" by linarith
  note b = header_bytes [OF mg]
  obtain c0 c1 where img: "entry_image 1 [7, 9] = [0x4D, 0x42, 0x55, 0x53, 1, 0, 0, 0, 2, 0, 0, 0, 7, 9, c0, c1, 0x53, 0x55, 0x42, 0x4D]"
    using image_one by blast
  have m: "?m ! j = (if j < 20 then [0x4D, 0x42, 0x55, 0x53, 1, 0, 0, 0, 2, 0, 0, 0, 7, 9, c0, c1, 0x53, 0x55, 0x42, 0x4D] ! j else 0xFF)"
    if "j < 16384" for j
    unfolding mock_one_def img using that by (simp add: mock_example_def nth_overlay)
  show "p + 18 + entry_length (header_at ?m p) \<le> sec_end 4096 p"
  proof (cases "p = 0")
    case True
    then show ?thesis using mock_one_header by (simp add: header_at_def sector_header_def sec_end_def)
  next
    case False
    have byte: "?m ! p = 0x4D" "?m ! (p + 3) = 0x53" using b le by simp_all
    have "p < 20"
    proof (rule ccontr)
      assume "\<not> p < 20"
      then show False using m [of p] byte(1) le mock_one(2) by simp
    qed
    then have "p \<in> {1, 2, 3, 4, 5, 6, 7, 8, 9, 10, 11, 12, 13, 14, 15, 16, 17, 18, 19}"
      unfolding insert_iff empty_iff using False by presburger
    then show ?thesis using m [of p] m [of "p + 3"] byte by auto
  qed
qed

end
