(* ===== verification/Runtime_Tasks.thy ===== *)
theory Runtime_Tasks imports Prelude "HOL-Library.Monad_Syntax" begin

text \<open>
  The registered tasks, \<open>components/runtime_tasks/runtime_tasks.c\<close>: the table of task
  configurations, and the start and the stop of all of them. A task of the table is named by its
  index; \<open>create i\<close> is the outcome of its creation. The calls made are part of the result.
  \<open>None\<close> is an access behind the table, or a loop that does not end.
\<close>

section \<open>The table\<close>

record runtime_task_config =
  task_name :: string
  task_entry :: bool
  task_stack_depth :: nat
  task_priority :: nat
  task_handle_ptr :: bool
  task_core_id :: nat
  task_stop_func :: bool

definition event_bus_task_config :: runtime_task_config where
  "event_bus_task_config = \<lparr>task_name = ''EVENT_BUS'', task_entry = True, task_stack_depth = 2024, task_priority = 3,
     task_handle_ptr = True, task_core_id = 0, task_stop_func = True\<rparr>"

definition telemetry_pipeline_task_config :: runtime_task_config where
  "telemetry_pipeline_task_config = \<lparr>task_name = ''TELE_PLN'', task_entry = True, task_stack_depth = 4096, task_priority = 10,
     task_handle_ptr = True, task_core_id = 0, task_stop_func = True\<rparr>"

definition telemetry_service_task_config :: runtime_task_config where
  "telemetry_service_task_config = \<lparr>task_name = ''TELE_SRVC'', task_entry = True, task_stack_depth = 4096, task_priority = 4,
     task_handle_ptr = True, task_core_id = 1, task_stop_func = True\<rparr>"

definition logger_service_task_config :: runtime_task_config where
  "logger_service_task_config = \<lparr>task_name = ''LOG_SRV'', task_entry = True, task_stack_depth = 3072, task_priority = 5,
     task_handle_ptr = True, task_core_id = 1, task_stop_func = True\<rparr>"

definition modbus_analyzer_task_config :: runtime_task_config where
  "modbus_analyzer_task_config = \<lparr>task_name = ''MBUS_ALZ'', task_entry = True, task_stack_depth = 3072, task_priority = 15,
     task_handle_ptr = True, task_core_id = 0, task_stop_func = True\<rparr>"

definition rs485_driver_task_config :: runtime_task_config where
  "rs485_driver_task_config = \<lparr>task_name = ''RS485_DRV'', task_entry = True, task_stack_depth = 4096, task_priority = 16,
     task_handle_ptr = True, task_core_id = 0, task_stop_func = True\<rparr>"

definition registered_tasks :: "runtime_task_config list" where
  "registered_tasks = [event_bus_task_config, telemetry_pipeline_task_config, telemetry_service_task_config,
     logger_service_task_config, modbus_analyzer_task_config, rs485_driver_task_config]"

datatype task_call = Task_create nat | Task_stop nat | Task_delete nat

section \<open>Stopping and starting\<close>

text \<open>The loop over \<open>last_started_task_idx\<close>, here as the number \<open>last_started_task_idx + 1\<close>.\<close>

fun stop_all_loop :: "runtime_task_config list \<Rightarrow> nat \<Rightarrow> task_call list option" where
  "stop_all_loop tasks 0 = Some []"
| "stop_all_loop tasks (Suc idx) =
     (if idx + 1 < length tasks then do {
        let t = tasks ! (idx + 1);
        calls \<leftarrow> stop_all_loop tasks idx;
        Some ((if task_stop_func t then [Task_stop (idx + 1)]
               else if task_handle_ptr t then [Task_delete (idx + 1)] else []) @ calls)
      }
      else None)"

definition runtime_tasks_stop_all :: "runtime_task_config list \<Rightarrow> int \<Rightarrow> (int \<times> task_call list) option" where
  "runtime_tasks_stop_all tasks idx_last =
     map_option (\<lambda>calls. (min idx_last (- 1), calls)) (stop_all_loop tasks (nat (idx_last + 1)))"

text \<open>A task without an entry would keep the loop of the start running for ever.\<close>

partial_function (option) start_all_loop ::
    "runtime_task_config list \<Rightarrow> (nat \<Rightarrow> bool) \<Rightarrow> bool \<Rightarrow> int \<Rightarrow> task_call list \<Rightarrow> (bool \<times> int \<times> task_call list) option" where
  "start_all_loop tasks create pass idx_last calls =
     (if pass \<and> idx_last < int (length tasks) - 1 then
        (if nat (idx_last + 1) < length tasks then
           (if task_entry (tasks ! nat (idx_last + 1)) then
              (if create (nat (idx_last + 1))
               then start_all_loop tasks create True (idx_last + 1) (calls @ [Task_create (nat (idx_last + 1))])
               else do {
                 (idx_last, stopped) \<leftarrow> runtime_tasks_stop_all tasks idx_last;
                 start_all_loop tasks create False idx_last (calls @ stopped)
               })
            else start_all_loop tasks create pass idx_last calls)
         else None)
      else Some (pass, idx_last, calls))"

definition runtime_tasks_start_all ::
    "runtime_task_config list \<Rightarrow> (nat \<Rightarrow> bool) \<Rightarrow> int \<Rightarrow> (bool \<times> int \<times> task_call list) option" where
  "runtime_tasks_start_all tasks create idx_last = start_all_loop tasks create True idx_last []"

section \<open>Facts\<close>

lemma registered_tasks_simps [simp]: "length registered_tasks = 6"
  by (simp add: registered_tasks_def)

lemma registered_tasks_all:
  assumes "i < 6"
  shows "task_entry (registered_tasks ! i) \<and> task_stop_func (registered_tasks ! i)"
proof -
  have "\<forall>t \<in> set registered_tasks. task_entry t \<and> task_stop_func t"
    unfolding registered_tasks_def list.set ball_simps
    by (simp add: event_bus_task_config_def telemetry_pipeline_task_config_def telemetry_service_task_config_def
        logger_service_task_config_def modbus_analyzer_task_config_def rs485_driver_task_config_def)
  then show ?thesis using nth_mem [of i registered_tasks] assms by simp
qed

text \<open>With \<open>n\<close> tasks started, the stop takes the entries \<open>n\<close> down to 1 of the table.\<close>

lemma stop_all_loop_registered:
  "n < 6 \<Longrightarrow> stop_all_loop registered_tasks n = Some (map Task_stop (rev [1..<Suc n]))"
  by (induction n) (auto simp: registered_tasks_all)

lemma stop_all_registered:
  "n < 6 \<Longrightarrow> runtime_tasks_stop_all registered_tasks (int n - 1) = Some (- 1, map Task_stop (rev [1..<Suc n]))"
  by (simp add: runtime_tasks_stop_all_def stop_all_loop_registered)

lemma start_all_prefix:
  assumes "m \<le> 6" and "\<forall>i < m. create i"
  shows "runtime_tasks_start_all registered_tasks create (- 1)
    = start_all_loop registered_tasks create True (int m - 1) (map Task_create [0..<m])"
  using assms
proof (induction m)
  case 0
  show ?case by (simp add: runtime_tasks_start_all_def)
next
  case (Suc m)
  then have "runtime_tasks_start_all registered_tasks create (- 1)
    = start_all_loop registered_tasks create True (int m - 1) (map Task_create [0..<m])" by simp
  also have "\<dots> = start_all_loop registered_tasks create True (int (Suc m) - 1) (map Task_create [0..<Suc m])"
    using Suc.prems registered_tasks_all [of m] by (subst start_all_loop.simps) simp
  finally show ?case .
qed

lemma start_all_succeeds:
  "\<forall>i < 6. create i \<Longrightarrow> runtime_tasks_start_all registered_tasks create (- 1) = Some (True, 5, map Task_create [0..<6])"
  using start_all_prefix [of 6 create] by (simp add: start_all_loop.simps)

lemma start_all_fails:
  assumes "m < 6" and "\<forall>i < m. create i" and "\<not> create m"
  shows "runtime_tasks_start_all registered_tasks create (- 1)
    = Some (False, - 1, map Task_create [0..<m] @ map Task_stop (rev [1..<Suc m]))"
proof -
  have "runtime_tasks_start_all registered_tasks create (- 1)
    = start_all_loop registered_tasks create True (int m - 1) (map Task_create [0..<m])"
    using assms by (intro start_all_prefix) auto
  also have "\<dots> = start_all_loop registered_tasks create False (- 1) (map Task_create [0..<m] @ map Task_stop (rev [1..<Suc m]))"
    using assms registered_tasks_all [of m] by (subst start_all_loop.simps) (simp add: stop_all_registered)
  also have "\<dots> = Some (False, - 1, map Task_create [0..<m] @ map Task_stop (rev [1..<Suc m]))"
    by (subst start_all_loop.simps) simp
  finally show ?thesis .
qed

lemma stop_all_started: "runtime_tasks_stop_all registered_tasks 5 = None"
  by (simp add: runtime_tasks_stop_all_def numeral_eq_Suc)

text \<open>A start leaves all tasks started, or none as far as the index says; a second start does nothing.\<close>

lemma start_all_index:
  assumes "runtime_tasks_start_all registered_tasks create idx = Some (ok, idx', calls)" and "idx = - 1 \<or> idx = 5"
  shows "(idx' = - 1 \<or> idx' = 5) \<and> (ok \<longrightarrow> idx' = 5)"
proof (cases "idx = 5")
  case True
  with assms(1) show ?thesis by (simp add: runtime_tasks_start_all_def start_all_loop.simps)
next
  case False
  with assms(2) have idx: "idx = - 1" by simp
  show ?thesis
  proof (cases "\<forall>i < 6. create i")
    case True
    from start_all_succeeds [OF this] assms(1) idx show ?thesis by simp
  next
    case False
    then obtain i where "i < 6" "\<not> create i" by blast
    from \<open>\<not> create i\<close> obtain m where m: "\<not> create m" "\<forall>j < m. create j"
      using exists_least_iff [of "\<lambda>i. \<not> create i"] by blast
    have "m \<le> i" using m(2) \<open>\<not> create i\<close> by (meson not_le)
    then have "m < 6" using \<open>i < 6\<close> by simp
    from start_all_fails [OF this m(2,1)] assms(1) idx show ?thesis by simp
  qed
qed

section \<open>Properties\<close>

text \<open>
  C33. The start creates the six tasks in the order of the table, and the stop of a started system
  then reads behind the table: its index is one too high. When the creation of a task fails, the
  start reports it after stop requests to the tasks of one index more - to the one that does not
  exist first, and never to the event bus, which keeps running although the index is reset, so
  that the next start creates it a second time.
\<close>

theorem runtime_tasks_stop_index_off_by_one:
  "((\<forall>i < 6. create i) \<longrightarrow>
      runtime_tasks_start_all registered_tasks create (- 1) = Some (True, 5, map Task_create [0..<6]))
   \<and> runtime_tasks_stop_all registered_tasks 5 = None
   \<and> (m < 6 \<and> (\<forall>i < m. create i) \<and> \<not> create m \<longrightarrow>
      runtime_tasks_start_all registered_tasks create (- 1)
        = Some (False, - 1, map Task_create [0..<m] @ map Task_stop (rev [1..<Suc m])))"
  using start_all_succeeds start_all_fails stop_all_started by blast

lemma runtime_tasks_stop_index_off_by_one_witness:
  "runtime_tasks_start_all registered_tasks (\<lambda>i. i \<noteq> 2) (- 1)
     = Some (False, - 1, [Task_create 0, Task_create 1, Task_stop 2, Task_stop 1])"
  using runtime_tasks_stop_index_off_by_one [of "\<lambda>i. i \<noteq> 2" 2] by (simp add: upt_rec)

end
