(* ===== verification/Nvs_Manager.thy ===== *)
theory Nvs_Manager imports Utils_Crc "HOL-Library.Monad_Syntax" begin

text \<open>
  The configuration store of \<open>components/nvs_manager/nvs_manager.c\<close>. A configuration structure is
  its image in memory, 372 bytes with the fields at the offsets of the structure, because the code
  copies, checks and writes it as bytes. The storage driver is a record of the functions that
  \<open>nvs_manager_ops_t\<close> points to, acting on a state \<open>'d\<close>; \<open>got_lock\<close> is the outcome of an
  attempt on the configuration lock. A result of \<open>None\<close> is undefined behaviour.
\<close>

section \<open>Data\<close>

datatype nvs_keys =
    NVS_MANAGER_KEYS_WIFI_SSID
  | NVS_MANAGER_KEYS_WIFI_PASS
  | NVS_MANAGER_KEYS_MQTT_URI
  | NVS_MANAGER_KEYS_MQTT_USER
  | NVS_MANAGER_KEYS_MQTT_PASS
  | NVS_MANAGER_KEYS_BB_WRITE_OFFSET
  | NVS_MANAGER_KEYS_BB_REPLAY_OFFSET
  | NVS_MANAGER_KEYS_BB_LAST_ID
  | NVS_MANAGER_KEYS_MAX

definition NVS_MANAGER_CONFIG_VERSION :: u32 where "NVS_MANAGER_CONFIG_VERSION = 1"
definition SIZEOF_APP_CONFIG :: nat where "SIZEOF_APP_CONFIG = 372"
definition OFFSETOF_CRC16 :: nat where "OFFSETOF_CRC16 = 368"

record key_map =
  map_key :: nvs_keys
  map_offset :: nat
  map_size :: nat

definition config_map :: "key_map list" where
  "config_map =
     [\<lparr>map_key = NVS_MANAGER_KEYS_WIFI_SSID, map_offset = 4, map_size = 32\<rparr>,
      \<lparr>map_key = NVS_MANAGER_KEYS_WIFI_PASS, map_offset = 36, map_size = 64\<rparr>,
      \<lparr>map_key = NVS_MANAGER_KEYS_MQTT_URI, map_offset = 100, map_size = 128\<rparr>,
      \<lparr>map_key = NVS_MANAGER_KEYS_MQTT_USER, map_offset = 228, map_size = 64\<rparr>,
      \<lparr>map_key = NVS_MANAGER_KEYS_MQTT_PASS, map_offset = 292, map_size = 64\<rparr>,
      \<lparr>map_key = NVS_MANAGER_KEYS_BB_WRITE_OFFSET, map_offset = 356, map_size = 4\<rparr>,
      \<lparr>map_key = NVS_MANAGER_KEYS_BB_REPLAY_OFFSET, map_offset = 360, map_size = 4\<rparr>,
      \<lparr>map_key = NVS_MANAGER_KEYS_BB_LAST_ID, map_offset = 364, map_size = 4\<rparr>]"

definition find_map_helper :: "nvs_keys \<Rightarrow> key_map option" where
  "find_map_helper key = find (\<lambda>e. map_key e = key) config_map"

text \<open>
  The driver. A read fills the given buffer and returns it; an open returns the handle that it
  stores, which is looked at only when it succeeds.
\<close>

record 'd nvs_manager_ops =
  nvs_init :: "('d \<Rightarrow> esp_err \<times> 'd) option"
  nvs_open :: "('d \<Rightarrow> esp_err \<times> nat \<times> 'd) option"
  nvs_read :: "(nat \<Rightarrow> bytes \<Rightarrow> 'd \<Rightarrow> esp_err \<times> bytes) option"
  nvs_write :: "(nat \<Rightarrow> bytes \<Rightarrow> 'd \<Rightarrow> esp_err \<times> 'd) option"
  nvs_erase :: "('d \<Rightarrow> esp_err \<times> 'd) option"
  nvs_commit :: "(nat \<Rightarrow> 'd \<Rightarrow> esp_err \<times> 'd) option"
  nvs_close :: "(nat \<Rightarrow> 'd \<Rightarrow> 'd) option"
  nvs_deinit :: "('d \<Rightarrow> esp_err \<times> 'd) option"

text \<open>The instance, with the two other static objects of the file.\<close>

record 'd nvs_manager =
  ops_ptr :: "'d nvs_manager_ops option"
  app_config :: bytes
  shadow_app_config :: bytes
  nvs_handle :: nat
  sync_timer_handle :: bool
  is_dirty :: bool
  default_config :: bytes
  config_lock :: bool

definition nvs_instance_zero :: "'d nvs_manager \<Rightarrow> 'd nvs_manager" where
  "nvs_instance_zero m = m\<lparr>ops_ptr := None, app_config := replicate SIZEOF_APP_CONFIG 0,
     shadow_app_config := replicate SIZEOF_APP_CONFIG 0, nvs_handle := 0, sync_timer_handle := False, is_dirty := False\<rparr>"

definition nvs_power_up :: "'d nvs_manager" where
  "nvs_power_up = \<lparr>ops_ptr = None, app_config = replicate SIZEOF_APP_CONFIG 0,
     shadow_app_config = replicate SIZEOF_APP_CONFIG 0, nvs_handle = 0, sync_timer_handle = False, is_dirty = False,
     default_config = le32 NVS_MANAGER_CONFIG_VERSION @ replicate 368 0, config_lock = False\<rparr>"

definition set_dirty_flag_helper :: "'d nvs_manager \<Rightarrow> 'd nvs_manager" where
  "set_dirty_flag_helper m = m\<lparr>is_dirty := True\<rparr>"

definition get_dirty_flag_helper :: "'d nvs_manager \<Rightarrow> bool" where
  "get_dirty_flag_helper m = is_dirty m"

definition clear_dirty_flag_helper :: "'d nvs_manager \<Rightarrow> 'd nvs_manager" where
  "clear_dirty_flag_helper m = m\<lparr>is_dirty := False\<rparr>"

text \<open>The CRC and the version fields of an image.\<close>

definition config_version :: "bytes \<Rightarrow> u32" where
  "config_version c = of_le32 (take 4 c)"

definition config_crc16 :: "bytes \<Rightarrow> u16" where
  "config_crc16 c = of_le16 (drop OFFSETOF_CRC16 c)"

definition set_version :: "bytes \<Rightarrow> bytes option" where
  "set_version c = buf_write c 0 (le32 NVS_MANAGER_CONFIG_VERSION)"

definition set_crc16 :: "bytes \<Rightarrow> bytes option" where
  "set_crc16 c = do { crc \<leftarrow> calculate_modbus_crc16 c OFFSETOF_CRC16; buf_write c OFFSETOF_CRC16 (le16 crc) }"

section \<open>Saving and loading\<close>

definition save_config_internal :: "bool \<Rightarrow> 'd nvs_manager \<Rightarrow> 'd \<Rightarrow> (esp_err \<times> 'd nvs_manager \<times> 'd) option" where
  "save_config_internal got_lock m d =
     (case ops_ptr m of
        None \<Rightarrow> Some (ESP_ERR_INVALID_ARG, m, d)
      | Some ops \<Rightarrow>
          (case (nvs_write ops, nvs_commit ops) of
             (Some write, Some commit) \<Rightarrow>
               if nvs_handle m = 0 \<or> \<not> config_lock m then Some (ESP_ERR_INVALID_ARG, m, d)
               else if \<not> got_lock then Some (ESP_ERR_TIMEOUT, m, d)
               else do {
                 c \<leftarrow> set_version (app_config m);
                 c \<leftarrow> set_crc16 c;
                 let m = m\<lparr>app_config := c\<rparr>;
                 let (err, d) = write (nvs_handle m) c d;
                 if err \<noteq> ESP_OK then Some (err, m, d)
                 else let (err, d) = commit (nvs_handle m) d in
                   if err \<noteq> ESP_OK then Some (err, m, d)
                   else Some (ESP_OK, (clear_dirty_flag_helper m)\<lparr>shadow_app_config := c\<rparr>, d)
               }
           | _ \<Rightarrow> Some (ESP_ERR_INVALID_ARG, m, d)))"

text \<open>A load that fails for any reason restores the shadow copy.\<close>

definition load_config_internal :: "bool \<Rightarrow> 'd nvs_manager \<Rightarrow> 'd \<Rightarrow> (esp_err \<times> 'd nvs_manager) option" where
  "load_config_internal got_lock m d =
     (case (case ops_ptr m of None \<Rightarrow> None | Some ops \<Rightarrow> nvs_read ops) of
        None \<Rightarrow> Some (ESP_ERR_INVALID_ARG, m\<lparr>app_config := shadow_app_config m\<rparr>)
      | Some read \<Rightarrow>
          if nvs_handle m = 0 \<or> \<not> config_lock m then Some (ESP_ERR_INVALID_ARG, m\<lparr>app_config := shadow_app_config m\<rparr>)
          else if \<not> got_lock then Some (ESP_ERR_TIMEOUT, m\<lparr>app_config := shadow_app_config m\<rparr>)
          else do {
            let m = clear_dirty_flag_helper m;
            let (err, c) = read (nvs_handle m) (app_config m) d;
            err \<leftarrow> (if err = ESP_OK then do {
                expected_crc \<leftarrow> calculate_modbus_crc16 c OFFSETOF_CRC16;
                Some (if config_version c \<noteq> NVS_MANAGER_CONFIG_VERSION then ESP_ERR_INVALID_VERSION
                      else if config_crc16 c \<noteq> expected_crc then ESP_ERR_INVALID_CRC else ESP_OK)
              } else Some err);
            Some (err, if err = ESP_OK then m\<lparr>app_config := c, shadow_app_config := c\<rparr>
                       else m\<lparr>app_config := shadow_app_config m\<rparr>)
          })"

text \<open>The timer's callback clears the flag whatever became of the save.\<close>

definition check_dirty_commit_callback :: "bool \<Rightarrow> bool \<Rightarrow> 'd nvs_manager \<Rightarrow> 'd \<Rightarrow> ('d nvs_manager \<times> 'd) option" where
  "check_dirty_commit_callback got_lock1 got_lock2 m d =
     (if get_dirty_flag_helper m then do {
        let is_struct_dirty = (config_lock m \<and> got_lock1 \<and> app_config m \<noteq> shadow_app_config m);
        (m, d) \<leftarrow> (if is_struct_dirty then map_option snd (save_config_internal got_lock2 m d) else Some (m, d));
        Some (clear_dirty_flag_helper m, d)
      }
      else Some (m, d))"

section \<open>Reading and writing\<close>

text \<open>The copy of a value into its field, padded with zeros.\<close>

definition store_value :: "key_map \<Rightarrow> bytes \<Rightarrow> nat \<Rightarrow> bytes \<Rightarrow> bytes option" where
  "store_value entry value value_size c =
     do {
       let write_length = (if value_size < map_size entry then value_size else map_size entry);
       bs \<leftarrow> buf_read value 0 write_length;
       c \<leftarrow> buf_write c (map_offset entry) bs;
       if write_length < map_size entry
       then buf_write c (map_offset entry + write_length) (replicate (map_size entry - write_length) 0)
       else Some c
     }"

definition write_to_cfg_struct_helper ::
    "bool \<Rightarrow> bool \<Rightarrow> nvs_keys \<Rightarrow> bytes option \<Rightarrow> nat \<Rightarrow> bytes \<Rightarrow> (esp_err \<times> bytes) option" where
  "write_to_cfg_struct_helper lock got_lock key value_ptr value_size c =
     (case (value_ptr, find_map_helper key) of
        (Some value, Some entry) \<Rightarrow>
          if map_size entry < value_size \<or> \<not> lock then Some (ESP_ERR_INVALID_ARG, c)
          else if \<not> got_lock then Some (ESP_ERR_TIMEOUT, c)
          else map_option (\<lambda>c. (ESP_OK, c)) (store_value entry value value_size c)
      | _ \<Rightarrow> Some (ESP_ERR_INVALID_ARG, c))"

definition nvs_manager_set_default ::
    "nvs_keys \<Rightarrow> bytes option \<Rightarrow> nat \<Rightarrow> 'd nvs_manager \<Rightarrow> (esp_err \<times> 'd nvs_manager) option" where
  "nvs_manager_set_default key value_ptr value_size m =
     (case (value_ptr, find_map_helper key) of
        (Some value, Some entry) \<Rightarrow>
          if map_size entry < value_size then Some (ESP_ERR_INVALID_ARG, m)
          else if config_lock m then Some (ESP_ERR_INVALID_STATE, m)
          else map_option (\<lambda>c. (ESP_OK, m\<lparr>default_config := c\<rparr>)) (store_value entry value value_size (default_config m))
      | _ \<Rightarrow> Some (ESP_ERR_INVALID_ARG, m))"

definition nvs_manager_write_cfg ::
    "bool \<Rightarrow> nvs_keys \<Rightarrow> bytes option \<Rightarrow> nat \<Rightarrow> 'd nvs_manager \<Rightarrow> (esp_err \<times> 'd nvs_manager) option" where
  "nvs_manager_write_cfg got_lock key value_ptr value_size m =
     do {
       (err, c) \<leftarrow> write_to_cfg_struct_helper (config_lock m) got_lock key value_ptr value_size (app_config m);
       let m = m\<lparr>app_config := c\<rparr>;
       Some (err, if err = ESP_OK then set_dirty_flag_helper m else m)
     }"

text \<open>The caller's buffer after the read; it must have room for the whole field.\<close>

definition nvs_manager_read_cfg :: "bool \<Rightarrow> nvs_keys \<Rightarrow> bytes option \<Rightarrow> 'd nvs_manager \<Rightarrow> (esp_err \<times> bytes option) option" where
  "nvs_manager_read_cfg got_lock key value_ptr m =
     (case (find_map_helper key, value_ptr) of
        (Some entry, Some value) \<Rightarrow>
          if \<not> config_lock m then Some (ESP_ERR_INVALID_ARG, value_ptr)
          else if \<not> got_lock then Some (ESP_ERR_TIMEOUT, value_ptr)
          else do {
            bs \<leftarrow> buf_read (app_config m) (map_offset entry) (map_size entry);
            value \<leftarrow> buf_write value 0 bs;
            Some (ESP_OK, Some value)
          }
      | _ \<Rightarrow> Some (ESP_ERR_INVALID_ARG, value_ptr))"

definition nvs_manager_flush_cfg :: "bool \<Rightarrow> 'd nvs_manager \<Rightarrow> 'd \<Rightarrow> (esp_err \<times> 'd nvs_manager \<times> 'd) option" where
  "nvs_manager_flush_cfg got_lock m d = save_config_internal got_lock m d"

section \<open>Start and end\<close>

definition nvs_manager_deinit :: "bool \<Rightarrow> 'd nvs_manager \<Rightarrow> 'd \<Rightarrow> ('d nvs_manager \<times> 'd) option" where
  "nvs_manager_deinit got_lock m d =
     do {
       (_, m, d) \<leftarrow> save_config_internal got_lock m d;
       let d = (case ops_ptr m of
           None \<Rightarrow> d
         | Some ops \<Rightarrow>
             let d = (case nvs_close ops of Some close \<Rightarrow> if nvs_handle m \<noteq> 0 then close (nvs_handle m) d else d | None \<Rightarrow> d)
             in (case nvs_deinit ops of Some deinit \<Rightarrow> snd (deinit d) | None \<Rightarrow> d));
       Some (nvs_instance_zero (m\<lparr>config_lock := False\<rparr>), d)
     }"

text \<open>
  The three stages of the initialisation: the driver and the defaults, the open and the load, and
  the repair after one of two errors. \<open>created\<close> and \<open>started\<close> are the outcomes of the timer calls.
\<close>

definition nvs_init_driver ::
    "('d \<Rightarrow> esp_err \<times> 'd) \<Rightarrow> 'd nvs_manager_ops \<Rightarrow> 'd nvs_manager \<Rightarrow> 'd \<Rightarrow> (esp_err \<times> 'd nvs_manager \<times> 'd) option" where
  "nvs_init_driver init ops m d =
     do {
       let (err, d) = init d;
       c \<leftarrow> set_crc16 (default_config m);
       Some (err, m\<lparr>config_lock := True, ops_ptr := Some ops, default_config := c, shadow_app_config := c\<rparr>, d)
     }"

definition nvs_open_and_load ::
    "('d \<Rightarrow> esp_err \<times> nat \<times> 'd) \<Rightarrow> bool \<Rightarrow> 'd nvs_manager \<Rightarrow> 'd \<Rightarrow> (esp_err \<times> 'd nvs_manager \<times> 'd) option" where
  "nvs_open_and_load open_func got_lock m d =
     (let (err, h, d) = open_func d
      in if err \<noteq> ESP_OK then Some (err, m, d)
         else map_option (\<lambda>(_, m). (ESP_OK, m, d)) (load_config_internal got_lock (m\<lparr>nvs_handle := h\<rparr>) d))"

definition nvs_repair :: "('d \<Rightarrow> esp_err \<times> 'd) \<Rightarrow> ('d \<Rightarrow> esp_err \<times> 'd) \<Rightarrow> esp_err \<Rightarrow> 'd \<Rightarrow> esp_err \<times> 'd" where
  "nvs_repair erase init err d =
     (if err = ESP_ERR_NVS_NO_FREE_PAGES \<or> err = ESP_ERR_NVS_NEW_VERSION_FOUND
      then let (err, d) = erase d in if err = ESP_OK then init d else (err, d)
      else (err, d))"

definition nvs_manager_init ::
    "bool \<Rightarrow> bool \<Rightarrow> esp_err \<Rightarrow> esp_err \<Rightarrow> bool \<Rightarrow> 'd nvs_manager_ops option \<Rightarrow> 'd nvs_manager \<Rightarrow> 'd
       \<Rightarrow> (esp_err \<times> 'd nvs_manager \<times> 'd) option" where
  "nvs_manager_init mutex got_lock created started got_deinit_lock ops m d =
     do {
       (err, m, d) \<leftarrow> (case ops of
           None \<Rightarrow> Some (ESP_ERR_INVALID_ARG, m, d)
         | Some os \<Rightarrow>
             (case (nvs_init os, nvs_erase os, nvs_open os) of
                (Some init, Some erase, Some open_func) \<Rightarrow>
                  if \<not> mutex then Some (ESP_ERR_NO_MEM, m\<lparr>config_lock := False\<rparr>, d)
                  else do {
                    (err, m, d) \<leftarrow> nvs_init_driver init os m d;
                    (err, m, d) \<leftarrow> (if err = ESP_OK then nvs_open_and_load open_func got_lock m d else Some (err, m, d));
                    let (err, d) = nvs_repair erase init err d;
                    Some (err, m, d)
                  }
              | _ \<Rightarrow> Some (ESP_ERR_INVALID_ARG, m, d)));
       let (err, m) = (if err = ESP_OK
           then (if created = ESP_OK then (started, m\<lparr>sync_timer_handle := True\<rparr>) else (created, m))
           else (err, m));
       if err = ESP_OK then Some (ESP_OK, m, d)
       else map_option (\<lambda>(m, d). (err, m, d)) (nvs_manager_deinit got_deinit_lock m d)
     }"

section \<open>The image\<close>

lemma config_map_bounds: "\<forall>e \<in> set config_map. 4 \<le> map_offset e \<and> map_offset e + map_size e \<le> 368"
  unfolding config_map_def list.set ball_simps by simp

lemma find_map_helper_Some: "find_map_helper key = Some e \<Longrightarrow> e \<in> set config_map \<and> map_key e = key"
  by (auto simp: find_map_helper_def find_Some_iff)

text \<open>Different keys have disjoint fields.\<close>

lemma config_map_disjoint:
  assumes "find_map_helper key = Some e" and "find_map_helper key' = Some e'" and "key \<noteq> key'"
  shows "map_offset e + map_size e \<le> map_offset e' \<or> map_offset e' + map_size e' \<le> map_offset e"
proof -
  have "\<forall>e \<in> set config_map. \<forall>e' \<in> set config_map. map_key e \<noteq> map_key e' \<longrightarrow>
      map_offset e + map_size e \<le> map_offset e' \<or> map_offset e' + map_size e' \<le> map_offset e"
    unfolding config_map_def list.set ball_simps by simp
  with find_map_helper_Some [OF assms(1)] find_map_helper_Some [OF assms(2)] assms(3) show ?thesis by auto
qed

lemma buf_write_Some: "off + length bs \<le> length c \<Longrightarrow> \<exists>c'. buf_write c off bs = Some c' \<and> length c' = length c"
  by (simp add: buf_write_def)

text \<open>Sealing an image with version and CRC changes no field, and the sealed image passes the load's checks.\<close>

lemma sealed_image:
  assumes "length c = 372"
  shows "\<exists>c1 c2. set_version c = Some c1 \<and> set_crc16 c1 = Some c2 \<and> length c2 = 372
    \<and> config_version c2 = NVS_MANAGER_CONFIG_VERSION \<and> calculate_modbus_crc16 c2 OFFSETOF_CRC16 = Some (config_crc16 c2)
    \<and> (\<forall>i n. 4 \<le> i \<and> i + n \<le> 368 \<longrightarrow> buf_read c2 i n = buf_read c i n)"
proof -
  obtain c1 where c1: "set_version c = Some c1" "length c1 = 372"
    using buf_write_Some [of 0 "le32 NVS_MANAGER_CONFIG_VERSION" c] assms by (auto simp: set_version_def)
  define crc where "crc = calculate_modbus_crc16_lut (take 368 c1)"
  have cc: "calculate_modbus_crc16 c1 OFFSETOF_CRC16 = Some crc"
    using c1(2) by (simp add: calculate_modbus_crc16_def buf_read_def OFFSETOF_CRC16_def crc_def)
  obtain c2 where w: "buf_write c1 368 (le16 crc) = Some c2" "length c2 = 372"
    using buf_write_Some [of 368 "le16 crc" c1] c1(2) by auto
  have c2: "set_crc16 c1 = Some c2" using cc w(1) by (simp add: set_crc16_def OFFSETOF_CRC16_def)
  have c2': "c2 = take 368 c1 @ le16 crc @ drop 370 c1" using w(1) c1(2) by (simp add: buf_write_def)
  have v: "c1 = le32 NVS_MANAGER_CONFIG_VERSION @ drop 4 c" using c1(1) assms by (simp add: set_version_def buf_write_def)
  have "take 4 c2 = le32 NVS_MANAGER_CONFIG_VERSION" unfolding c2' using v by simp
  then have ver: "config_version c2 = NVS_MANAGER_CONFIG_VERSION" by (simp add: config_version_def)
  have "drop OFFSETOF_CRC16 c2 = le16 crc @ drop 370 c1" using c1(2) by (simp add: c2' OFFSETOF_CRC16_def)
  then have "config_crc16 c2 = crc"
    using of_le16_le16 [of crc] by (simp add: config_crc16_def of_le16_def le16_def)
  moreover have "take 368 c2 = take 368 c1" using c1(2) by (simp add: c2')
  then have "calculate_modbus_crc16 c2 OFFSETOF_CRC16 = Some crc"
    using w(2) by (simp add: calculate_modbus_crc16_def buf_read_def OFFSETOF_CRC16_def crc_def)
  moreover have "buf_read c2 i n = buf_read c i n" if "4 \<le> i" "i + n \<le> 368" for i n
    using buf_read_write_disjoint [OF w(1), of i n] that
      buf_read_write_disjoint [OF c1(1) [unfolded set_version_def], of i n] by simp
  ultimately show ?thesis using c1(1) c2 w(2) ver by auto
qed

text \<open>A value of at most the field's size is stored padded, and every disjoint range stays.\<close>

lemma store_value_ok:
  assumes "length c = 372" and "e \<in> set config_map" and "n \<le> map_size e" and "n \<le> length value"
  shows "\<exists>c'. store_value e value n c = Some c' \<and> length c' = 372
    \<and> buf_read c' (map_offset e) (map_size e) = Some (take n value @ replicate (map_size e - n) 0)
    \<and> (\<forall>i k. i + k \<le> map_offset e \<or> map_offset e + map_size e \<le> i \<longrightarrow> buf_read c' i k = buf_read c i k)"
proof -
  have b: "map_offset e + map_size e \<le> 368" using config_map_bounds assms(2) by blast
  have rd: "buf_read value 0 n = Some (take n value)" using assms(4) by (simp add: buf_read_def)
  obtain c1 where c1: "buf_write c (map_offset e) (take n value) = Some c1" "length c1 = 372"
    using buf_write_Some [of "map_offset e" "take n value" c] assms b by auto
  have l: "length (take n value) = n" using assms(4) by simp
  show ?thesis
  proof (cases "n < map_size e")
    case False
    then have n: "n = map_size e" using assms(3) by simp
    have "buf_read c1 (map_offset e) (map_size e) = Some (take n value)"
      using buf_read_write_same [OF c1(1)] n l by simp
    moreover have "buf_read c1 i k = buf_read c i k" if "i + k \<le> map_offset e \<or> map_offset e + map_size e \<le> i" for i k
      using buf_read_write_disjoint [OF c1(1), of i k] that n l by auto
    ultimately show ?thesis using n rd c1 by (simp add: store_value_def)
  next
    case True
    let ?z = "replicate (map_size e - n) (0 :: byte)"
    obtain c2 where c2: "buf_write c1 (map_offset e + n) ?z = Some c2" "length c2 = 372"
      using buf_write_Some [of "map_offset e + n" ?z c1] c1(2) b True by auto
    have st: "store_value e value n c = Some c2" using True rd c1(1) c2(1) by (simp add: store_value_def)
    have "c2 = take (map_offset e) c @ take n value @ ?z @ drop (map_offset e + map_size e) c"
    proof -
      have "c1 = take (map_offset e) c @ take n value @ drop (map_offset e + n) c"
        using c1(1) l b assms(1) by (simp add: buf_write_def split: if_splits)
      moreover have "length (take (map_offset e) c @ take n value) = map_offset e + n" using b assms(1) l True by simp
      ultimately show ?thesis
        using c2(1) b True assms(1) l by (simp add: buf_write_def add.commute split: if_splits)
    qed
    then have "buf_read c2 (map_offset e) (map_size e) = Some (take n value @ ?z)"
      using b True assms(1) l by (simp add: buf_read_def)
    moreover have "buf_read c2 i k = buf_read c i k" if "i + k \<le> map_offset e \<or> map_offset e + map_size e \<le> i" for i k
      using buf_read_write_disjoint [OF c1(1), of i k] buf_read_write_disjoint [OF c2(1), of i k] that True l by auto
    ultimately show ?thesis using st c2(2) by blast
  qed
qed

section \<open>The abstract store\<close>

text \<open>What the configuration says: the value of every key.\<close>

definition config_values :: "bytes \<Rightarrow> nvs_keys \<Rightarrow> bytes option" where
  "config_values c key = (case find_map_helper key of None \<Rightarrow> None | Some e \<Rightarrow> buf_read c (map_offset e) (map_size e))"

lemma config_values_sealed:
  assumes "\<forall>i n. 4 \<le> i \<and> i + n \<le> 368 \<longrightarrow> buf_read c2 i n = buf_read c i n"
  shows "config_values c2 = config_values c"
proof (rule ext)
  fix key
  show "config_values c2 key = config_values c key"
    using assms config_map_bounds find_map_helper_Some [of key]
    by (cases "find_map_helper key") (auto simp: config_values_def)
qed

lemma read_cfg_values:
  assumes "config_lock m" and "128 \<le> length value" and "length (app_config m) = 372"
  shows "nvs_manager_read_cfg True key (Some value) m
    = (case config_values (app_config m) key of None \<Rightarrow> Some (ESP_ERR_INVALID_ARG, Some value)
       | Some bs \<Rightarrow> Some (ESP_OK, Some (bs @ drop (length bs) value)))"
proof (cases "find_map_helper key")
  case None
  then show ?thesis by (simp add: nvs_manager_read_cfg_def config_values_def)
next
  case (Some e)
  have "\<forall>e \<in> set config_map. map_size e \<le> 128" unfolding config_map_def list.set ball_simps by simp
  then have sz: "map_size e \<le> 128" "map_offset e + map_size e \<le> 372"
    using find_map_helper_Some [OF Some] config_map_bounds by fastforce+
  then show ?thesis using assms Some
    by (simp add: nvs_manager_read_cfg_def config_values_def buf_read_def buf_write_def)
qed

text \<open>A stored value is the value of its key, padded; the other keys keep theirs.\<close>

lemma store_value_values:
  assumes "length c = 372" and "find_map_helper key = Some e" and "n \<le> map_size e" and "n \<le> length value"
  shows "\<exists>c'. store_value e value n c = Some c' \<and> length c' = 372
    \<and> config_values c' = (config_values c)(key \<mapsto> take n value @ replicate (map_size e - n) 0)"
proof -
  have e: "e \<in> set config_map" "map_key e = key" using find_map_helper_Some [OF assms(2)] by simp_all
  obtain c' where c': "store_value e value n c = Some c'" "length c' = 372"
    "buf_read c' (map_offset e) (map_size e) = Some (take n value @ replicate (map_size e - n) 0)"
    "\<forall>i k. i + k \<le> map_offset e \<or> map_offset e + map_size e \<le> i \<longrightarrow> buf_read c' i k = buf_read c i k"
    using store_value_ok [OF assms(1) e(1) assms(3,4)] by blast
  have "config_values c' k = ((config_values c)(key \<mapsto> take n value @ replicate (map_size e - n) 0)) k" for k
    using c'(3,4) assms(2) config_map_disjoint [OF assms(2), of k]
    by (cases "k = key"; cases "find_map_helper k") (auto simp: config_values_def)
  with c'(1,2) show ?thesis by (intro exI [of _ c']) (simp add: fun_eq_iff)
qed

text \<open>What a write does to the values.\<close>

lemma write_cfg_values:
  assumes "config_lock m" and "length (app_config m) = 372" and "n \<le> length value"
  shows "case find_map_helper key of
      Some e \<Rightarrow> if n \<le> map_size e
        then \<exists>m'. nvs_manager_write_cfg True key (Some value) n m = Some (ESP_OK, m') \<and> config_lock m' \<and> is_dirty m'
          \<and> length (app_config m') = 372
          \<and> config_values (app_config m') = (config_values (app_config m))(key \<mapsto> take n value @ replicate (map_size e - n) 0)
        else nvs_manager_write_cfg True key (Some value) n m = Some (ESP_ERR_INVALID_ARG, m)
    | None \<Rightarrow> nvs_manager_write_cfg True key (Some value) n m = Some (ESP_ERR_INVALID_ARG, m)"
proof (cases "find_map_helper key")
  case None
  then show ?thesis by (simp add: nvs_manager_write_cfg_def write_to_cfg_struct_helper_def)
next
  case (Some e)
  show ?thesis
  proof (cases "n \<le> map_size e")
    case False
    with Some show ?thesis by (simp add: nvs_manager_write_cfg_def write_to_cfg_struct_helper_def)
  next
    case True
    from store_value_values [OF assms(2) Some True assms(3)] show ?thesis using Some True assms(1)
      by (auto simp: nvs_manager_write_cfg_def write_to_cfg_struct_helper_def set_dirty_flag_helper_def)
  qed
qed

text \<open>A read into a buffer with room.\<close>

lemma read_cfg_field:
  assumes "config_lock m" and "config_values (app_config m) key = Some bs" and "length bs \<le> length value"
  shows "nvs_manager_read_cfg True key (Some value) m = Some (ESP_OK, Some (bs @ drop (length bs) value))"
  using assms by (auto simp: nvs_manager_read_cfg_def config_values_def buf_write_def split: option.splits)

text \<open>
  The driver: what is written and committed is held and read back, across a restart of the driver
  and an open.
\<close>

locale nvs_driver =
  fixes ops :: "'d nvs_manager_ops"
    and holds :: "'d \<Rightarrow> bytes \<Rightarrow> bool"
    and ready :: "'d \<Rightarrow> nat \<Rightarrow> bool"
    and mounted :: "'d \<Rightarrow> bool"
  assumes init_holds: "nvs_init ops = Some init_func \<Longrightarrow> init_func d = (ESP_OK, d') \<Longrightarrow> mounted d' \<and> (holds d c \<longrightarrow> holds d' c)"
    and open_ready: "nvs_open ops = Some open_func \<Longrightarrow> mounted d \<Longrightarrow> open_func d = (ESP_OK, h, d') \<Longrightarrow>
      0 < h \<and> ready d' h \<and> (holds d c \<longrightarrow> holds d' c)"
    and read_held: "nvs_read ops = Some read_func \<Longrightarrow> ready d h \<Longrightarrow> holds d c \<Longrightarrow> length buf = length c \<Longrightarrow> read_func h buf d = (ESP_OK, c)"
    and write_held: "nvs_write ops = Some write_func \<Longrightarrow> nvs_commit ops = Some commit_func \<Longrightarrow> ready d h \<Longrightarrow> length c = 372 \<Longrightarrow>
      write_func h c d = (ESP_OK, d1) \<Longrightarrow> commit_func h d1 = (ESP_OK, d2) \<Longrightarrow> holds d2 c"
begin

text \<open>A save that reports success leaves an image with the same values in the driver.\<close>

lemma save_holds:
  assumes "ops_ptr m = Some ops" and "ready d (nvs_handle m)" and "length (app_config m) = 372"
    and "save_config_internal got_lock m d = Some (ESP_OK, m', d')"
  shows "holds d' (app_config m') \<and> config_values (app_config m') = config_values (app_config m)
    \<and> length (app_config m') = 372 \<and> config_version (app_config m') = NVS_MANAGER_CONFIG_VERSION
    \<and> calculate_modbus_crc16 (app_config m') OFFSETOF_CRC16 = Some (config_crc16 (app_config m'))"
proof -
  obtain wr co where wc: "nvs_write ops = Some wr" "nvs_commit ops = Some co"
    using assms(1,4) by (auto simp: save_config_internal_def split: option.splits)
  obtain c1 c2 where c: "set_version (app_config m) = Some c1" "set_crc16 c1 = Some c2" "length c2 = 372"
    "config_version c2 = NVS_MANAGER_CONFIG_VERSION" "calculate_modbus_crc16 c2 OFFSETOF_CRC16 = Some (config_crc16 c2)"
    "\<forall>i n. 4 \<le> i \<and> i + n \<le> 368 \<longrightarrow> buf_read c2 i n = buf_read (app_config m) i n"
    using sealed_image [OF assms(3)] by blast
  obtain d1 where w: "wr (nvs_handle m) c2 d = (ESP_OK, d1)" "co (nvs_handle m) d1 = (ESP_OK, d')" "app_config m' = c2"
    using assms(1,4) wc c(1,2)
    by (auto simp: save_config_internal_def clear_dirty_flag_helper_def Let_def case_prod_beta prod_eq_iff split: if_splits)
  from write_held [OF wc assms(2) c(3) w(1,2)] w(3) c config_values_sealed [OF c(6)] show ?thesis by simp
qed

end

section \<open>The storage of the unit tests\<close>

text \<open>
  The RAM storage of \<open>test/include/mock_nvs.h\<close>, a driver with these laws. Names are compared;
  the manager always passes \<open>storage\<close> and \<open>app_cfg\<close>.
\<close>

record mock_nvs =
  nvs_memory :: bytes
  nvs_size :: nat
  nvs_namespace_name :: string
  nvs_key :: string
  nvs_mock_handle :: nat

definition MOCK_NVS_FLASH_SIZE :: nat where "MOCK_NVS_FLASH_SIZE = 16384"
definition MOCK_HANDLE :: nat where "MOCK_HANDLE = 1"

definition ram_init :: "mock_nvs \<Rightarrow> esp_err \<times> mock_nvs" where
  "ram_init d = (ESP_OK, d\<lparr>nvs_namespace_name := ''storage'', nvs_key := ''app_cfg'', nvs_size := MOCK_NVS_FLASH_SIZE, nvs_mock_handle := 0\<rparr>)"

definition ram_open :: "string \<Rightarrow> mock_nvs \<Rightarrow> esp_err \<times> nat \<times> mock_nvs" where
  "ram_open name d = (if name = nvs_namespace_name d \<and> nvs_mock_handle d = 0
     then (ESP_OK, MOCK_HANDLE, d\<lparr>nvs_mock_handle := MOCK_HANDLE\<rparr>) else (ESP_ERR_NO_MEM, 0, d))"

definition ram_read :: "string \<Rightarrow> nat \<Rightarrow> bytes \<Rightarrow> mock_nvs \<Rightarrow> esp_err \<times> bytes" where
  "ram_read key h dst d = (if key = nvs_key d \<and> h = nvs_mock_handle d \<and> length dst \<le> MOCK_NVS_FLASH_SIZE
     then (ESP_OK, take (length dst) (nvs_memory d)) else (ESP_FAIL, dst))"

definition ram_write :: "nat \<Rightarrow> bytes \<Rightarrow> mock_nvs \<Rightarrow> esp_err \<times> mock_nvs" where
  "ram_write h src d = (if h = nvs_mock_handle d \<and> length src \<le> nvs_size d
     then (ESP_OK, d\<lparr>nvs_memory := src @ drop (length src) (nvs_memory d)\<rparr>) else (ESP_FAIL, d))"

definition ram_erase :: "mock_nvs \<Rightarrow> esp_err \<times> mock_nvs" where
  "ram_erase d = (ESP_OK, d\<lparr>nvs_memory := replicate MOCK_NVS_FLASH_SIZE 0\<rparr>)"

definition ram_commit :: "nat \<Rightarrow> mock_nvs \<Rightarrow> esp_err \<times> mock_nvs" where
  "ram_commit h d = (if h \<noteq> nvs_mock_handle d then ESP_FAIL else ESP_OK, d)"

definition ram_close :: "nat \<Rightarrow> mock_nvs \<Rightarrow> mock_nvs" where
  "ram_close h d = (if h = nvs_mock_handle d then d\<lparr>nvs_mock_handle := 0\<rparr> else d)"

definition ram_deinit :: "mock_nvs \<Rightarrow> esp_err \<times> mock_nvs" where
  "ram_deinit d = (ESP_OK, d\<lparr>nvs_mock_handle := 0\<rparr>)"

definition ram_ops :: "mock_nvs nvs_manager_ops" where
  "ram_ops = \<lparr>nvs_init = Some ram_init, nvs_open = Some (ram_open ''storage''), nvs_read = Some (ram_read ''app_cfg''),
     nvs_write = Some ram_write, nvs_erase = Some ram_erase, nvs_commit = Some ram_commit, nvs_close = Some ram_close,
     nvs_deinit = Some ram_deinit\<rparr>"

definition ram_mounted :: "mock_nvs \<Rightarrow> bool" where
  "ram_mounted d \<longleftrightarrow> nvs_namespace_name d = ''storage'' \<and> nvs_key d = ''app_cfg'' \<and> nvs_size d = MOCK_NVS_FLASH_SIZE"

text \<open>The storage that the tests start with, after its first initialisation.\<close>

definition ram_example :: mock_nvs where
  "ram_example = \<lparr>nvs_memory = replicate MOCK_NVS_FLASH_SIZE 0, nvs_size = MOCK_NVS_FLASH_SIZE, nvs_namespace_name = ''storage'',
     nvs_key = ''app_cfg'', nvs_mock_handle = 0\<rparr>"

interpretation ram: nvs_driver ram_ops
  "\<lambda>d c. length c \<le> MOCK_NVS_FLASH_SIZE \<and> take (length c) (nvs_memory d) = c"
  "\<lambda>d h. h = nvs_mock_handle d \<and> ram_mounted d" ram_mounted
  by unfold_locales
    (auto simp: ram_ops_def ram_init_def ram_open_def ram_read_def ram_write_def ram_commit_def ram_mounted_def MOCK_HANDLE_def
      MOCK_NVS_FLASH_SIZE_def split: if_splits)

section \<open>Properties\<close>

text \<open>The image that the initialisation makes of the defaults.\<close>

lemma default_sealed:
  assumes "length c = 372"
  shows "\<exists>c'. set_crc16 c = Some c' \<and> length c' = 372 \<and> config_values c' = config_values c"
proof -
  define crc where "crc = calculate_modbus_crc16_lut (take 368 c)"
  have cc: "calculate_modbus_crc16 c OFFSETOF_CRC16 = Some crc"
    using assms by (simp add: calculate_modbus_crc16_def buf_read_def OFFSETOF_CRC16_def crc_def)
  obtain c' where w: "buf_write c 368 (le16 crc) = Some c'" "length c' = 372"
    using buf_write_Some [of 368 "le16 crc" c] assms by auto
  have "config_values c' = config_values c"
    using buf_read_write_disjoint [OF w(1)] by (intro config_values_sealed) auto
  then show ?thesis using cc w by (simp add: set_crc16_def OFFSETOF_CRC16_def)
qed

text \<open>What the load does with the bytes it reads.\<close>

lemma load_config_cases:
  assumes "ops_ptr m = Some ops" and "nvs_read ops = Some rd" and "nvs_handle m \<noteq> 0" and "config_lock m"
    and "rd (nvs_handle m) (app_config m) d = (err, c)" and "length c = 372"
  shows "\<exists>err' m'. load_config_internal True m d = Some (err', m') \<and> config_lock m'
    \<and> app_config m' = (if err = ESP_OK \<and> config_version c = NVS_MANAGER_CONFIG_VERSION
         \<and> calculate_modbus_crc16 c OFFSETOF_CRC16 = Some (config_crc16 c) then c else shadow_app_config m)"
proof -
  have "calculate_modbus_crc16 c OFFSETOF_CRC16 = Some (calculate_modbus_crc16_lut (take 368 c))"
    using assms(6) by (simp add: calculate_modbus_crc16_def buf_read_def OFFSETOF_CRC16_def)
  with assms show ?thesis
    by (auto simp: load_config_internal_def clear_dirty_flag_helper_def Let_def)
qed

text \<open>The sizes of the three images, and a driver whose reads fill the buffer they are given.\<close>

definition images_ok :: "'d nvs_manager \<Rightarrow> bool" where
  "images_ok m \<longleftrightarrow> length (app_config m) = 372 \<and> length (shadow_app_config m) = 372 \<and> length (default_config m) = 372"

definition keeps_buffer :: "'d nvs_manager \<Rightarrow> 'd \<Rightarrow> bool" where
  "keeps_buffer m d \<longleftrightarrow> (case ops_ptr m of None \<Rightarrow> True | Some ops \<Rightarrow>
     (case nvs_read ops of None \<Rightarrow> True | Some rd \<Rightarrow> length (snd (rd (nvs_handle m) (app_config m) d)) = length (app_config m)))"

text \<open>The same for a driver that is started and opened first, in the states \<open>ok\<close> that it can have.\<close>

definition fills_buffers :: "'d nvs_manager_ops \<Rightarrow> ('d \<Rightarrow> bool) \<Rightarrow> bool" where
  "fills_buffers os ok \<longleftrightarrow>
     (\<forall>init_func d. nvs_init os = Some init_func \<and> ok d \<longrightarrow> ok (snd (init_func d)))
     \<and> (\<forall>open_func d. nvs_open os = Some open_func \<and> ok d \<longrightarrow> ok (snd (snd (open_func d))))
     \<and> (\<forall>rd h buf d. nvs_read os = Some rd \<and> ok d \<and> length buf = 372 \<longrightarrow> length (snd (rd h buf d)) = 372)"

lemma save_keeps_images:
  assumes "images_ok m"
  shows "\<exists>err m' d'. save_config_internal got_lock m d = Some (err, m', d') \<and> images_ok m'"
proof -
  obtain c1 c2 where c: "set_version (app_config m) = Some c1" "set_crc16 c1 = Some c2" "length c2 = 372"
    using sealed_image [of "app_config m"] assms by (auto simp: images_ok_def)
  with assms show ?thesis
    by (auto simp: save_config_internal_def images_ok_def clear_dirty_flag_helper_def Let_def case_prod_beta split: option.split)
qed

lemma load_keeps_images:
  assumes "images_ok m" and "keeps_buffer m d"
  shows "\<exists>err m'. load_config_internal got_lock m d = Some (err, m') \<and> images_ok m'"
proof -
  have crc: "calculate_modbus_crc16 c OFFSETOF_CRC16 = Some (calculate_modbus_crc16_lut (take 368 c))" if "length c = 372" for c
    using that by (simp add: calculate_modbus_crc16_def buf_read_def OFFSETOF_CRC16_def)
  from assms show ?thesis
    by (auto simp: load_config_internal_def images_ok_def keeps_buffer_def clear_dirty_flag_helper_def Let_def case_prod_beta crc
        split: option.splits)
qed

lemma sync_keeps_images:
  assumes "images_ok m"
  shows "\<exists>m' d'. check_dirty_commit_callback got_lock got_lock' m d = Some (m', d') \<and> images_ok m'"
proof -
  obtain err m' d' where "save_config_internal got_lock' m d = Some (err, m', d')" "images_ok m'"
    using save_keeps_images [OF assms] by blast
  with assms show ?thesis
    by (auto simp: check_dirty_commit_callback_def clear_dirty_flag_helper_def images_ok_def)
qed

lemma write_keeps_images:
  assumes "images_ok m" and "n \<le> length value"
  shows "\<exists>err m'. nvs_manager_write_cfg got_lock key (Some value) n m = Some (err, m') \<and> images_ok m'"
proof -
  have "\<exists>c'. store_value e value n (app_config m) = Some c' \<and> length c' = 372"
    if "find_map_helper key = Some e" "\<not> map_size e < n" for e
    using store_value_ok [of "app_config m" e n "value"] find_map_helper_Some [OF that(1)] that(2) assms by (auto simp: images_ok_def)
  with assms show ?thesis
    by (cases "find_map_helper key")
      (auto simp: nvs_manager_write_cfg_def write_to_cfg_struct_helper_def set_dirty_flag_helper_def images_ok_def)
qed

lemma set_default_keeps_images:
  assumes "images_ok m" and "n \<le> length value"
  shows "\<exists>err m'. nvs_manager_set_default key (Some value) n m = Some (err, m') \<and> images_ok m'"
proof -
  have "\<exists>c'. store_value e value n (default_config m) = Some c' \<and> length c' = 372"
    if "find_map_helper key = Some e" "\<not> map_size e < n" for e
    using store_value_ok [of "default_config m" e n "value"] find_map_helper_Some [OF that(1)] that(2) assms by (auto simp: images_ok_def)
  with assms show ?thesis
    by (cases "find_map_helper key") (auto simp: nvs_manager_set_default_def images_ok_def)
qed

lemma read_keeps_buffer:
  assumes "images_ok m" and "128 \<le> length buf"
  shows "\<exists>err buf'. nvs_manager_read_cfg got_lock key (Some buf) m = Some (err, Some buf') \<and> length buf' = length buf"
proof (cases "got_lock \<and> config_lock m")
  case True
  have "length bs \<le> 128" if "config_values (app_config m) key = Some bs" for bs
  proof -
    have "\<forall>e \<in> set config_map. map_size e \<le> 128" unfolding config_map_def list.set ball_simps by simp
    then show ?thesis using that find_map_helper_Some [of key]
      by (auto simp: config_values_def buf_read_def split: option.splits if_splits)
  qed
  with True read_cfg_values [of m buf key] assms show ?thesis by (auto simp: images_ok_def split: option.splits)
next
  case False
  then show ?thesis by (auto simp: nvs_manager_read_cfg_def split: option.splits)
qed

lemma deinit_keeps_images:
  assumes "images_ok m"
  shows "\<exists>m' d'. nvs_manager_deinit got_lock m d = Some (m', d') \<and> images_ok m'"
proof -
  obtain err m1 d1 where "save_config_internal got_lock m d = Some (err, m1, d1)" "images_ok m1"
    using save_keeps_images [OF assms] by blast
  then show ?thesis by (simp add: nvs_manager_deinit_def nvs_instance_zero_def images_ok_def SIZEOF_APP_CONFIG_def)
qed

lemma init_keeps_images:
  assumes ok: "images_ok m" and drv: "\<And>os. ops = Some os \<Longrightarrow> fills_buffers os ok" "ok d"
  shows "\<exists>err m' d'. nvs_manager_init mutex got_lock created started got_lock' ops m d = Some (err, m', d') \<and> images_ok m'"
proof -
  have driver: "\<exists>err m' d'. nvs_init_driver init_func os m d = Some (err, m', d') \<and> images_ok m' \<and> ops_ptr m' = Some os \<and> d' = snd (init_func d)"
    for init_func os
  proof -
    obtain c where "set_crc16 (default_config m) = Some c" "length c = 372"
      using default_sealed [of "default_config m"] ok by (auto simp: images_ok_def)
    then show ?thesis using ok by (simp add: nvs_init_driver_def images_ok_def case_prod_beta)
  qed
  have load: "\<exists>err m' d'. nvs_open_and_load open_func got_lock m1 d1 = Some (err, m', d') \<and> images_ok m'"
    if "images_ok m1" "ops_ptr m1 = Some os" "ops = Some os" "nvs_open os = Some open_func" "ok d1" for open_func os m1 d1
  proof -
    obtain err h d2 where o: "open_func d1 = (err, h, d2)" by (cases "open_func d1") auto
    have "ok d2" using drv(1) [OF that(3)] that(4,5) o by (force simp: fills_buffers_def)
    then have "keeps_buffer (m1\<lparr>nvs_handle := h\<rparr>) d2"
      using drv(1) [OF that(3)] that(1,2) by (auto simp: keeps_buffer_def fills_buffers_def images_ok_def split: option.split)
    moreover have "images_ok (m1\<lparr>nvs_handle := h\<rparr>)" using that(1) by (simp add: images_ok_def)
    ultimately obtain err' m' where "load_config_internal got_lock (m1\<lparr>nvs_handle := h\<rparr>) d2 = Some (err', m')" "images_ok m'"
      using load_keeps_images [of "m1\<lparr>nvs_handle := h\<rparr>" d2 got_lock] by blast
    then show ?thesis using that(1) o by (cases "err = ESP_OK") (simp_all add: nvs_open_and_load_def)
  qed
  let ?first = "case ops of
           None \<Rightarrow> Some (ESP_ERR_INVALID_ARG, m, d)
         | Some os \<Rightarrow>
             (case (nvs_init os, nvs_erase os, nvs_open os) of
                (Some init, Some erase, Some open_func) \<Rightarrow>
                  if \<not> mutex then Some (ESP_ERR_NO_MEM, m\<lparr>config_lock := False\<rparr>, d)
                  else do {
                    (err, m, d) \<leftarrow> nvs_init_driver init os m d;
                    (err, m, d) \<leftarrow> (if err = ESP_OK then nvs_open_and_load open_func got_lock m d else Some (err, m, d));
                    let (err, d) = nvs_repair erase init err d;
                    Some (err, m, d)
                  }
              | _ \<Rightarrow> Some (ESP_ERR_INVALID_ARG, m, d))"
  have "\<exists>err m1 d1. ?first = Some (err, m1, d1) \<and> images_ok m1"
  proof (cases "\<exists>os init_func erase open_func. ops = Some os \<and> nvs_init os = Some init_func \<and> nvs_erase os = Some erase
      \<and> nvs_open os = Some open_func \<and> mutex")
    case True
    then obtain os init_func erase open_func where o: "ops = Some os" "nvs_init os = Some init_func" "nvs_erase os = Some erase"
      "nvs_open os = Some open_func" "mutex" by blast
    obtain err m1 where m1: "nvs_init_driver init_func os m d = Some (err, m1, snd (init_func d))" "images_ok m1" "ops_ptr m1 = Some os"
      using driver [of init_func os] by blast
    have "ok (snd (init_func d))" using drv o(1,2) by (auto simp: fills_buffers_def)
    then obtain err' m2 d2 where "nvs_open_and_load open_func got_lock m1 (snd (init_func d)) = Some (err', m2, d2)" "images_ok m2"
      using load [OF m1(2,3) o(1,4)] by blast
    with o m1 show ?thesis by (cases "err = ESP_OK") (simp_all add: case_prod_beta)
  next
    case False
    then show ?thesis using ok by (cases mutex) (auto simp: images_ok_def split: option.splits)
  qed
  then obtain err m1 d1 where r: "?first = Some (err, m1, d1)" "images_ok m1" by blast
  have "images_ok (m1\<lparr>sync_timer_handle := True\<rparr>)" using r(2) by (simp add: images_ok_def)
  then have "\<exists>m' d'. nvs_manager_deinit got_lock' m1 d1 = Some (m', d') \<and> images_ok m'"
    "\<exists>m' d'. nvs_manager_deinit got_lock' (m1\<lparr>sync_timer_handle := True\<rparr>) d1 = Some (m', d') \<and> images_ok m'"
    using r(2) by (blast intro: deinit_keeps_images)+
  with \<open>images_ok (m1\<lparr>sync_timer_handle := True\<rparr>)\<close> show ?thesis
    unfolding nvs_manager_init_def r(1) by auto
qed

text \<open>A start of which the driver calls succeed.\<close>

lemma nvs_started:
  assumes "nvs_init ops = Some init_func" and "nvs_open ops = Some open_func" and "nvs_erase ops = Some erase_func"
    and "nvs_read ops = Some rd" and "init_func d = (ESP_OK, d1)" and "open_func d1 = (ESP_OK, h, d2)" and "0 < h"
    and "rd h (app_config m) d2 = (err, c)" and "length c = 372" and "length (default_config m) = 372"
  shows "\<exists>m'. nvs_manager_init True True ESP_OK ESP_OK got_deinit_lock (Some ops) m d = Some (ESP_OK, m', d2) \<and> config_lock m'
    \<and> (if err = ESP_OK \<and> config_version c = 1 \<and> calculate_modbus_crc16 c 368 = Some (config_crc16 c)
       then app_config m' = c
       else config_values (app_config m') = config_values (default_config m) \<and> length (app_config m') = 372)"
proof -
  obtain s where s: "set_crc16 (default_config m) = Some s" "length s = 372" "config_values s = config_values (default_config m)"
    using default_sealed [OF assms(10)] by blast
  let ?m = "m\<lparr>config_lock := True, ops_ptr := Some ops, default_config := s, shadow_app_config := s, nvs_handle := h\<rparr>"
  obtain err' m' where l: "load_config_internal True ?m d2 = Some (err', m')" "config_lock m'"
    "app_config m' = (if err = ESP_OK \<and> config_version c = NVS_MANAGER_CONFIG_VERSION
         \<and> calculate_modbus_crc16 c OFFSETOF_CRC16 = Some (config_crc16 c) then c else s)"
    using load_config_cases [of ?m ops rd d2 err c] assms(4,7-9) by auto
  have "nvs_manager_init True True ESP_OK ESP_OK got_deinit_lock (Some ops) m d = Some (ESP_OK, m'\<lparr>sync_timer_handle := True\<rparr>, d2)"
    using assms(1-3,5,6) s(1) l(1) by (simp add: nvs_manager_init_def nvs_init_driver_def nvs_open_and_load_def nvs_repair_def)
  then show ?thesis using l(2,3) s(2,3) by (simp add: NVS_MANAGER_CONFIG_VERSION_def OFFSETOF_CRC16_def)
qed

text \<open>
  C21. The initialisation takes the stored configuration when the driver delivers it with the
  current version and a correct CRC, and the configured defaults in every other case: an empty
  store, a read error, an old version or corrupted bytes are no error to the caller.
\<close>

theorem nvs_init_loads_or_defaults:
  assumes "nvs_init ops = Some init_func" and "nvs_open ops = Some open_func" and "nvs_erase ops = Some erase_func"
    and "nvs_read ops = Some rd" and "init_func d = (ESP_OK, d1)" and "open_func d1 = (ESP_OK, h, d2)" and "0 < h"
    and "rd h (app_config m) d2 = (err, c)" and "length c = 372" and "length (default_config m) = 372"
  shows "\<exists>m'. nvs_manager_init True True ESP_OK ESP_OK got_deinit_lock (Some ops) m d = Some (ESP_OK, m', d2) \<and> config_lock m'
    \<and> (if err = ESP_OK \<and> config_version c = 1 \<and> calculate_modbus_crc16 c 368 = Some (config_crc16 c)
       then app_config m' = c
       else config_values (app_config m') = config_values (default_config m) \<and> length (app_config m') = 372)"
  using nvs_started [OF assms] .

lemma nvs_init_loads_or_defaults_witness:
  "\<exists>m'. nvs_manager_init True True ESP_OK ESP_OK True (Some ram_ops) nvs_power_up ram_example
      = Some (ESP_OK, m', ram_example\<lparr>nvs_mock_handle := 1\<rparr>)
    \<and> config_values (app_config m') = config_values (default_config (nvs_power_up :: mock_nvs nvs_manager))"
proof -
  have f: "ram_init ram_example = (ESP_OK, ram_example)"
    "ram_open ''storage'' ram_example = (ESP_OK, 1, ram_example\<lparr>nvs_mock_handle := 1\<rparr>)" "(0 :: nat) < 1"
    "length (default_config (nvs_power_up :: mock_nvs nvs_manager)) = 372"
    by (simp_all add: ram_init_def ram_open_def ram_example_def MOCK_HANDLE_def nvs_power_up_def)
  have r: "ram_read ''app_cfg'' 1 (app_config (nvs_power_up :: mock_nvs nvs_manager)) (ram_example\<lparr>nvs_mock_handle := 1\<rparr>)
      = (ESP_OK, replicate 372 0)"
    by (simp add: ram_read_def ram_example_def nvs_power_up_def SIZEOF_APP_CONFIG_def MOCK_NVS_FLASH_SIZE_def)
  have o: "nvs_init ram_ops = Some ram_init" "nvs_open ram_ops = Some (ram_open ''storage'')" "nvs_erase ram_ops = Some ram_erase"
    "nvs_read ram_ops = Some (ram_read ''app_cfg'')" by (simp_all add: ram_ops_def)
  have v: "config_version (replicate 372 0) \<noteq> 1"
    by (simp add: config_version_def of_le32_def numeral_eq_Suc take_replicate)
  have l: "length (replicate 372 0 :: bytes) = 372" by simp
  from nvs_init_loads_or_defaults [OF o f(1,2,3) r l f(4), of True] v show ?thesis by auto
qed

text \<open>
  C9. A flushed configuration survives a restart. After a flush that reports success, a new
  instance that starts on the storage as it is then - whatever its own defaults - reads for every
  key what the old instance read.
\<close>

theorem nvs_config_survives_restart:
  assumes "nvs_driver ops holds ready mounted"
    and "ops_ptr m = Some ops" and "ready d (nvs_handle m)" and "length (app_config m) = 372"
    and "nvs_manager_flush_cfg got_lock m d = Some (ESP_OK, m1, d1)"
    and "nvs_init ops = Some init_func" and "nvs_open ops = Some open_func" and "nvs_erase ops = Some erase_func"
    and "nvs_read ops = Some rd" and "init_func d1 = (ESP_OK, d2)" and "open_func d2 = (ESP_OK, h, d3)"
    and "length (app_config m0) = 372" and "length (default_config m0) = 372" and "length buf = 128"
  shows "\<exists>m'. nvs_manager_init True True ESP_OK ESP_OK got_deinit_lock (Some ops) m0 d1 = Some (ESP_OK, m', d3)
    \<and> nvs_manager_read_cfg True key (Some buf) m' = nvs_manager_read_cfg True key (Some buf) m"
proof -
  have lock: "config_lock m"
    using assms(2,5) by (auto simp: nvs_manager_flush_cfg_def save_config_internal_def split: option.splits if_splits)
  have h: "holds d1 (app_config m1)" "config_values (app_config m1) = config_values (app_config m)" "length (app_config m1) = 372"
    "config_version (app_config m1) = NVS_MANAGER_CONFIG_VERSION"
    "calculate_modbus_crc16 (app_config m1) OFFSETOF_CRC16 = Some (config_crc16 (app_config m1))"
    using nvs_driver.save_holds [OF assms(1-4)] assms(5) by (simp_all add: nvs_manager_flush_cfg_def)
  have d2: "mounted d2" "holds d2 (app_config m1)" using nvs_driver.init_holds [OF assms(1,6,10)] h(1) by blast+
  have d3: "0 < h" "ready d3 h" "holds d3 (app_config m1)" using nvs_driver.open_ready [OF assms(1,7) d2(1) assms(11)] d2(2) by blast+
  have rd: "rd h (app_config m0) d3 = (ESP_OK, app_config m1)"
    using nvs_driver.read_held [OF assms(1,9) d3(2,3)] assms(12) h(3) by simp
  obtain m' where m': "nvs_manager_init True True ESP_OK ESP_OK got_deinit_lock (Some ops) m0 d1 = Some (ESP_OK, m', d3)"
    "config_lock m'" "app_config m' = app_config m1"
    using nvs_started [OF assms(6-11) d3(1) rd h(3) assms(13)] h(4,5)
    by (auto simp: NVS_MANAGER_CONFIG_VERSION_def OFFSETOF_CRC16_def)
  have "nvs_manager_read_cfg True key (Some buf) m' = nvs_manager_read_cfg True key (Some buf) m"
    using read_cfg_values [of m' buf key] read_cfg_values [of m buf key] m'(2,3) h(2,3) lock assms(4,14) by simp
  with m'(1) show ?thesis by blast
qed

definition nvs_example :: "mock_nvs nvs_manager" where
  "nvs_example = nvs_power_up\<lparr>ops_ptr := Some ram_ops, nvs_handle := 1, config_lock := True, app_config := replicate 372 7\<rparr>"

lemma nvs_example_flush:
  "\<exists>m1 c. nvs_manager_flush_cfg True nvs_example (ram_example\<lparr>nvs_mock_handle := 1\<rparr>)
    = Some (ESP_OK, m1, ram_example\<lparr>nvs_mock_handle := 1, nvs_memory := c\<rparr>)"
proof -
  obtain c1 c2 where c: "set_version (replicate 372 7) = Some c1" "set_crc16 c1 = Some c2" "length c2 = 372"
    using sealed_image [of "replicate 372 7"] by auto
  then show ?thesis
    by (simp add: nvs_manager_flush_cfg_def save_config_internal_def nvs_example_def ram_ops_def ram_write_def ram_commit_def
        ram_example_def MOCK_NVS_FLASH_SIZE_def)
qed

lemma nvs_config_survives_restart_witness:
  "\<exists>m1 d1 m' d3. nvs_manager_flush_cfg True nvs_example (ram_example\<lparr>nvs_mock_handle := 1\<rparr>) = Some (ESP_OK, m1, d1)
    \<and> nvs_manager_init True True ESP_OK ESP_OK True (Some ram_ops) nvs_power_up d1 = Some (ESP_OK, m', d3)
    \<and> nvs_manager_read_cfg True NVS_MANAGER_KEYS_WIFI_SSID (Some (replicate 128 0)) m'
      = nvs_manager_read_cfg True NVS_MANAGER_KEYS_WIFI_SSID (Some (replicate 128 0)) nvs_example"
proof -
  obtain m1 c where fl: "nvs_manager_flush_cfg True nvs_example (ram_example\<lparr>nvs_mock_handle := 1\<rparr>)
      = Some (ESP_OK, m1, ram_example\<lparr>nvs_mock_handle := 1, nvs_memory := c\<rparr>)" using nvs_example_flush by blast
  have o: "nvs_init ram_ops = Some ram_init" "nvs_open ram_ops = Some (ram_open ''storage'')" "nvs_erase ram_ops = Some ram_erase"
    "nvs_read ram_ops = Some (ram_read ''app_cfg'')" by (simp_all add: ram_ops_def)
  have i: "ram_init (ram_example\<lparr>nvs_mock_handle := 1, nvs_memory := c\<rparr>) = (ESP_OK, ram_example\<lparr>nvs_mock_handle := 0, nvs_memory := c\<rparr>)"
    "ram_open ''storage'' (ram_example\<lparr>nvs_mock_handle := 0, nvs_memory := c\<rparr>)
      = (ESP_OK, 1, ram_example\<lparr>nvs_mock_handle := 1, nvs_memory := c\<rparr>)"
    by (simp_all add: ram_init_def ram_open_def ram_example_def MOCK_HANDLE_def)
  have e: "ops_ptr nvs_example = Some ram_ops" "length (app_config nvs_example) = 372"
    "nvs_handle nvs_example = nvs_mock_handle (ram_example\<lparr>nvs_mock_handle := 1\<rparr>) \<and> ram_mounted (ram_example\<lparr>nvs_mock_handle := 1\<rparr>)"
    "length (app_config (nvs_power_up :: mock_nvs nvs_manager)) = 372" "length (default_config (nvs_power_up :: mock_nvs nvs_manager)) = 372"
    "length (replicate 128 (0 :: byte)) = 128"
    by (simp_all add: nvs_example_def nvs_power_up_def ram_example_def ram_mounted_def SIZEOF_APP_CONFIG_def)
  from nvs_config_survives_restart [OF ram.nvs_driver_axioms e(1,3,2) fl o i e(4,5,6), of True NVS_MANAGER_KEYS_WIFI_SSID] fl
  show ?thesis by blast
qed

text \<open>
  C16. The two access functions refine a map from keys to values. A read into a buffer with room for
  the longest field delivers the value that the abstract configuration has under the key, or
  refuses a key that it does not have. For every known key and a value that fits, the abstract
  configuration after a write has the value, padded with zeros to the size of the field, under that
  key and is unchanged elsewhere, and the flag for the next save is set; a read of that key then
  delivers the padded value, a read of any other key what it did before. An unknown key or a value
  that is too long is refused with the configuration untouched.
\<close>

theorem nvs_write_refines_update:
  assumes "config_lock m" and "length (app_config m) = 372" and "n \<le> length value" and "128 \<le> length buf"
  shows "(\<forall>k. nvs_manager_read_cfg True k (Some buf) m = (case config_values (app_config m) k of
        None \<Rightarrow> Some (ESP_ERR_INVALID_ARG, Some buf)
      | Some bs \<Rightarrow> Some (ESP_OK, Some (bs @ drop (length bs) buf))))
    \<and> (case find_map_helper key of
      Some e \<Rightarrow> if n \<le> map_size e
        then \<exists>m'. nvs_manager_write_cfg True key (Some value) n m = Some (ESP_OK, m') \<and> config_lock m' \<and> is_dirty m'
          \<and> length (app_config m') = 372
          \<and> config_values (app_config m') = (config_values (app_config m))(key \<mapsto> take n value @ replicate (map_size e - n) 0)
          \<and> (\<forall>k. nvs_manager_read_cfg True k (Some buf) m' = (if k = key
              then Some (ESP_OK, Some (take n value @ replicate (map_size e - n) 0 @ drop (map_size e) buf))
              else nvs_manager_read_cfg True k (Some buf) m))
        else nvs_manager_write_cfg True key (Some value) n m = Some (ESP_ERR_INVALID_ARG, m)
    | None \<Rightarrow> nvs_manager_write_cfg True key (Some value) n m = Some (ESP_ERR_INVALID_ARG, m))"
proof (intro conjI allI)
  note rd = read_cfg_values [OF _ assms(4)]
  show "nvs_manager_read_cfg True k (Some buf) m = (case config_values (app_config m) k of
      None \<Rightarrow> Some (ESP_ERR_INVALID_ARG, Some buf) | Some bs \<Rightarrow> Some (ESP_OK, Some (bs @ drop (length bs) buf)))" for k
    by (rule rd [OF assms(1,2)])
  show "case find_map_helper key of
      Some e \<Rightarrow> if n \<le> map_size e
        then \<exists>m'. nvs_manager_write_cfg True key (Some value) n m = Some (ESP_OK, m') \<and> config_lock m' \<and> is_dirty m'
          \<and> length (app_config m') = 372
          \<and> config_values (app_config m') = (config_values (app_config m))(key \<mapsto> take n value @ replicate (map_size e - n) 0)
          \<and> (\<forall>k. nvs_manager_read_cfg True k (Some buf) m' = (if k = key
              then Some (ESP_OK, Some (take n value @ replicate (map_size e - n) 0 @ drop (map_size e) buf))
              else nvs_manager_read_cfg True k (Some buf) m))
        else nvs_manager_write_cfg True key (Some value) n m = Some (ESP_ERR_INVALID_ARG, m)
    | None \<Rightarrow> nvs_manager_write_cfg True key (Some value) n m = Some (ESP_ERR_INVALID_ARG, m)"
  proof (cases "find_map_helper key")
    case (Some e)
    have "nvs_manager_read_cfg True k (Some buf) m' = (if k = key
        then Some (ESP_OK, Some (take n value @ replicate (map_size e - n) 0 @ drop (map_size e) buf))
        else nvs_manager_read_cfg True k (Some buf) m)"
      if "n \<le> map_size e" "config_lock m'" "length (app_config m') = 372"
        "config_values (app_config m') = (config_values (app_config m))(key \<mapsto> take n value @ replicate (map_size e - n) 0)" for k m'
      using rd [OF that(2,3), of k] rd [OF assms(1,2), of k] that(1,4) assms(3) by simp
    note read = this
    show ?thesis
    proof (cases "n \<le> map_size e")
      case True
      with write_cfg_values [OF assms(1-3), of key] Some obtain m' where
        w: "nvs_manager_write_cfg True key (Some value) n m = Some (ESP_OK, m')" "config_lock m'" "is_dirty m'"
        "length (app_config m') = 372"
        "config_values (app_config m') = (config_values (app_config m))(key \<mapsto> take n value @ replicate (map_size e - n) 0)" by auto
      with read [OF True w(2,4,5)] True Some show ?thesis by simp
    qed (use write_cfg_values [OF assms(1-3), of key] Some in simp)
  qed (use write_cfg_values [OF assms(1-3), of key] in simp)
qed

lemma nvs_write_refines_update_witness:
  "\<exists>m'. nvs_manager_write_cfg True NVS_MANAGER_KEYS_BB_LAST_ID (Some [1, 2]) 2 nvs_example = Some (ESP_OK, m')
    \<and> config_values (app_config m') NVS_MANAGER_KEYS_BB_LAST_ID = Some [1, 2, 0, 0]
    \<and> nvs_manager_read_cfg True NVS_MANAGER_KEYS_BB_LAST_ID (Some (replicate 128 5)) m' = Some (ESP_OK, Some ([1, 2, 0, 0] @ replicate 124 5))"
  using nvs_write_refines_update [of nvs_example 2 "[1, 2]" "replicate 128 5" NVS_MANAGER_KEYS_BB_LAST_ID]
  by (auto simp: find_map_helper_def config_map_def nvs_example_def numeral_2_eq_2)

text \<open>
  A failed save is forgotten. When the periodic save runs while the configuration differs from
  what is stored and the driver refuses the write or the commit, the difference stays but the
  dirty flag is cleared: no later run of the periodic save touches the driver, however well it
  works by then, until somebody writes a value again.
\<close>

theorem nvs_failed_sync_is_forgotten:
  assumes "is_dirty m" and "app_config m \<noteq> shadow_app_config m" and "length (app_config m) = 372"
    and "save_config_internal True m d = Some (err, m1, d1)" and "err \<noteq> ESP_OK"
  shows "\<exists>m' d'. check_dirty_commit_callback True True m d = Some (m', d') \<and> shadow_app_config m' = shadow_app_config m
    \<and> config_values (app_config m') = config_values (app_config m)
    \<and> (\<forall>got_lock1 got_lock2 d2. check_dirty_commit_callback got_lock1 got_lock2 m' d2 = Some (m', d2))"
proof -
  obtain c1 c2 where c: "set_version (app_config m) = Some c1" "set_crc16 c1 = Some c2"
    "config_values c2 = config_values (app_config m)"
    using sealed_image [OF assms(3)] config_values_sealed by blast
  have s: "shadow_app_config m1 = shadow_app_config m" "config_values (app_config m1) = config_values (app_config m)"
    using assms(4,5) c
    by (auto simp: save_config_internal_def Let_def case_prod_beta split: option.splits if_splits)
  show ?thesis
  proof (cases "config_lock m")
    case True
    then have "check_dirty_commit_callback True True m d = Some (clear_dirty_flag_helper m1, d1)"
      using assms(1,2,4) by (simp add: check_dirty_commit_callback_def get_dirty_flag_helper_def)
    with s show ?thesis
      by (simp add: check_dirty_commit_callback_def get_dirty_flag_helper_def clear_dirty_flag_helper_def)
  next
    case False
    then have "check_dirty_commit_callback True True m d = Some (clear_dirty_flag_helper m, d)"
      using assms(1) by (simp add: check_dirty_commit_callback_def get_dirty_flag_helper_def)
    then show ?thesis
      by (simp add: check_dirty_commit_callback_def get_dirty_flag_helper_def clear_dirty_flag_helper_def)
  qed
qed

lemma nvs_failed_sync_is_forgotten_witness:
  "\<exists>m' d'. check_dirty_commit_callback True True (nvs_example\<lparr>is_dirty := True\<rparr>) ram_example = Some (m', d')
    \<and> check_dirty_commit_callback True True m' (ram_example\<lparr>nvs_mock_handle := 1\<rparr>) = Some (m', ram_example\<lparr>nvs_mock_handle := 1\<rparr>)"
proof -
  let ?m = "nvs_example\<lparr>is_dirty := True\<rparr>"
  obtain c1 c2 where c: "set_version (replicate 372 7) = Some c1" "set_crc16 c1 = Some c2" "length c2 = 372"
    using sealed_image [of "replicate 372 7"] by auto
  have s: "save_config_internal True ?m ram_example = Some (ESP_FAIL, ?m\<lparr>app_config := c2\<rparr>, ram_example)"
    using c by (simp add: save_config_internal_def nvs_example_def ram_ops_def ram_write_def ram_example_def)
  have ne: "app_config ?m \<noteq> shadow_app_config ?m"
    by (simp add: nvs_example_def nvs_power_up_def SIZEOF_APP_CONFIG_def)
  have "is_dirty ?m" "length (app_config ?m) = 372" "ESP_FAIL \<noteq> ESP_OK" by (simp_all add: nvs_example_def)
  from nvs_failed_sync_is_forgotten [OF this(1) ne this(2) s this(3)] show ?thesis by blast
qed

text \<open>
  C27. The images keep their type and no access leaves them. While the configuration, its shadow and
  the defaults are images of 372 bytes, every write, default, read, flush, load, run of the timer's
  callback, end and new start has a defined result, and the three images have 372 bytes after it,
  whatever the key, the locks, the resources and the answers of the driver - as long as the size
  that is given for a value is not more than it has, a buffer for a value has room for the longest
  field, and the driver's read fills exactly the buffer it is given.
\<close>

theorem nvs_operations_keep_images:
  assumes "images_ok m" and "n \<le> length value" and "keeps_buffer m d" and "128 \<le> length buf"
    and "\<And>os. ops = Some os \<Longrightarrow> fills_buffers os ok" and "ok d"
  shows "(\<exists>err m'. nvs_manager_write_cfg got_lock key (Some value) n m = Some (err, m') \<and> images_ok m')
    \<and> (\<exists>err m'. nvs_manager_set_default key (Some value) n m = Some (err, m') \<and> images_ok m')
    \<and> (\<exists>err buf'. nvs_manager_read_cfg got_lock key (Some buf) m = Some (err, Some buf') \<and> length buf' = length buf)
    \<and> (\<exists>err m' d'. nvs_manager_flush_cfg got_lock m d = Some (err, m', d') \<and> images_ok m')
    \<and> (\<exists>err m'. load_config_internal got_lock m d = Some (err, m') \<and> images_ok m')
    \<and> (\<exists>m' d'. check_dirty_commit_callback got_lock got_lock' m d = Some (m', d') \<and> images_ok m')
    \<and> (\<exists>m' d'. nvs_manager_deinit got_lock m d = Some (m', d') \<and> images_ok m')
    \<and> (\<exists>err m' d'. nvs_manager_init mutex got_lock created started got_lock' ops m d = Some (err, m', d') \<and> images_ok m')"
  using write_keeps_images [OF assms(1,2)] set_default_keeps_images [OF assms(1,2)] save_keeps_images [OF assms(1)]
    load_keeps_images [OF assms(1,3)] sync_keeps_images [OF assms(1)] read_keeps_buffer [OF assms(1,4)]
    deinit_keeps_images [OF assms(1)] init_keeps_images [OF assms(1,5,6)]
  by (simp add: nvs_manager_flush_cfg_def)

lemma nvs_operations_keep_images_witness:
  "(\<exists>err m'. nvs_manager_write_cfg True NVS_MANAGER_KEYS_WIFI_SSID (Some [72, 105, 0]) 3 nvs_example = Some (err, m') \<and> images_ok m')
    \<and> (\<exists>err m' d'. nvs_manager_init True True ESP_OK ESP_OK True (Some ram_ops) nvs_example ram_example = Some (err, m', d') \<and> images_ok m')"
proof -
  have "images_ok nvs_example" "keeps_buffer nvs_example ram_example"
    by (simp_all add: images_ok_def nvs_example_def nvs_power_up_def SIZEOF_APP_CONFIG_def keeps_buffer_def ram_ops_def
        ram_read_def ram_example_def MOCK_NVS_FLASH_SIZE_def)
  moreover have "fills_buffers ram_ops (\<lambda>d. length (nvs_memory d) = MOCK_NVS_FLASH_SIZE)"
    by (auto simp: fills_buffers_def ram_ops_def ram_init_def ram_open_def ram_read_def MOCK_NVS_FLASH_SIZE_def)
  then have "os = ram_ops \<Longrightarrow> fills_buffers os (\<lambda>d. length (nvs_memory d) = MOCK_NVS_FLASH_SIZE)" for os by simp
  moreover have "length (nvs_memory ram_example) = MOCK_NVS_FLASH_SIZE" by (simp add: ram_example_def)
  ultimately show ?thesis
    using nvs_operations_keep_images [of nvs_example 3 "[72, 105, 0]" ram_example "replicate 128 0" "Some ram_ops"
      "\<lambda>d. length (nvs_memory d) = MOCK_NVS_FLASH_SIZE"] by simp
qed

text \<open>
  C38. Formatting loses the defaults. When the driver's first start reports that it has to be
  erased and the repair succeeds, the initialisation reports success, but the configuration is
  all zeros - not the defaults, as the log says - and the storage is never opened: every later
  flush is refused, so nothing written from then on is kept.
\<close>

theorem nvs_format_loses_defaults:
  assumes "nvs_init ops = Some init_func" and "nvs_open ops = Some open_func" and "nvs_erase ops = Some erase_func"
    and "init_func d = (ESP_ERR_NVS_NO_FREE_PAGES, d1)" and "erase_func d1 = (ESP_OK, d2)" and "init_func d2 = (ESP_OK, d3)"
    and "length (default_config m0) = 372"
  shows "\<exists>m'. nvs_manager_init True True ESP_OK ESP_OK got_deinit_lock (Some ops) (nvs_instance_zero m0) d = Some (ESP_OK, m', d3)
    \<and> app_config m' = replicate 372 0 \<and> nvs_handle m' = 0
    \<and> (\<forall>got_lock c d'. nvs_manager_flush_cfg got_lock (m'\<lparr>app_config := c\<rparr>) d' = Some (ESP_ERR_INVALID_ARG, m'\<lparr>app_config := c\<rparr>, d'))"
proof -
  obtain s where s: "set_crc16 (default_config m0) = Some s" using default_sealed [OF assms(7)] by blast
  let ?m = "(nvs_instance_zero m0)\<lparr>config_lock := True, ops_ptr := Some ops, default_config := s, shadow_app_config := s,
      sync_timer_handle := True\<rparr>"
  have "nvs_manager_init True True ESP_OK ESP_OK got_deinit_lock (Some ops) (nvs_instance_zero m0) d = Some (ESP_OK, ?m, d3)"
    using assms s by (simp add: nvs_manager_init_def nvs_init_driver_def nvs_repair_def nvs_instance_zero_def)
  moreover have "nvs_manager_flush_cfg got_lock (?m\<lparr>app_config := c\<rparr>) d' = Some (ESP_ERR_INVALID_ARG, ?m\<lparr>app_config := c\<rparr>, d')"
    for got_lock c d'
    by (simp add: nvs_manager_flush_cfg_def save_config_internal_def nvs_instance_zero_def split: option.splits)
  ultimately show ?thesis by (intro exI [of _ ?m]) (simp add: nvs_instance_zero_def SIZEOF_APP_CONFIG_def)
qed

text \<open>A storage whose first start wants to be erased: the state is whether it was.\<close>

definition full_ops :: "bool nvs_manager_ops" where
  "full_ops = \<lparr>nvs_init = Some (\<lambda>d. (if d then ESP_OK else ESP_ERR_NVS_NO_FREE_PAGES, d)), nvs_open = Some (\<lambda>d. (ESP_OK, 1, d)),
     nvs_read = None, nvs_write = None, nvs_erase = Some (\<lambda>d. (ESP_OK, True)), nvs_commit = None, nvs_close = None, nvs_deinit = None\<rparr>"

lemma nvs_format_loses_defaults_witness:
  "\<exists>m'. nvs_manager_init True True ESP_OK ESP_OK True (Some full_ops) (nvs_instance_zero nvs_power_up) False = Some (ESP_OK, m', True)
    \<and> app_config m' = replicate 372 0 \<and> nvs_handle m' = 0"
proof -
  let ?i = "\<lambda>d :: bool. (if d then ESP_OK else ESP_ERR_NVS_NO_FREE_PAGES, d)"
  have o: "nvs_init full_ops = Some ?i" "nvs_open full_ops = Some (\<lambda>d. (ESP_OK, 1, d))" "nvs_erase full_ops = Some (\<lambda>d. (ESP_OK, True))"
    by (simp_all add: full_ops_def)
  have i: "?i False = (ESP_ERR_NVS_NO_FREE_PAGES, False)" "(\<lambda>d :: bool. (ESP_OK, True)) False = (ESP_OK, True)" "?i True = (ESP_OK, True)"
    "length (default_config (nvs_power_up :: bool nvs_manager)) = 372" by (simp_all add: nvs_power_up_def)
  from nvs_format_loses_defaults [OF o i, of True] show ?thesis by blast
qed

end
