(* ===== verification/System_Config.thy ===== *)
theory System_Config imports Nvs_Manager Modbus_Analyzer Blackbox_Logger begin

text \<open>
  The configuration of the system, \<open>components/system_config/system_config.c\<close>: defaults from the
  build options into the configuration store, the store's values into the configurations of the
  components, the certificates partition, and the periodic copy of the logger's position into the
  store. The \<open>k\<close>-th access to the store has the outcome \<open>locks k\<close> of its lock. \<open>None\<close> is an access
  outside an object, or the endless wait of the provisioning.
\<close>

section \<open>State\<close>

text \<open>
  The build options that the file uses. Strings are their bytes without the terminator.
  \<open>use_provisioning\<close> is the option that the code tests before it starts the provisioner.
\<close>

record kconfig =
  uart_baudrate_option :: nat
  uart_port_option :: nat
  uart_data_bits_option :: nat
  uart_parity_option :: nat
  uart_stop_bit_option :: nat
  uart_rx_pin_option :: nat
  use_manual_setting :: bool
  use_provisioning :: bool
  mqtt_transport_secure :: bool
  wifi_ssid_option :: bytes
  wifi_password_option :: bytes
  wifi_auth_mode_option :: nat
  mqtt_uri_option :: bytes
  mqtt_user_option :: bytes
  mqtt_password_option :: bytes

definition RS485_DRIVER_RX_BUFFER_SIZE :: nat where "RS485_DRIVER_RX_BUFFER_SIZE = 2048"
definition RS485_DRIVER_RX_QUEUE_SIZE :: nat where "RS485_DRIVER_RX_QUEUE_SIZE = 20"
definition SYSTEM_CONFIG_MTLS_HEADER_MAGIC :: u32 where "SYSTEM_CONFIG_MTLS_HEADER_MAGIC = 0x43455254"

record cert_header =
  cert_magic :: u32
  cli_offset :: u32
  cli_length :: u32
  key_offset :: u32
  key_length :: u32
  ca_offset :: u32
  ca_length :: u32

definition cert_header_of_image :: "bytes \<Rightarrow> cert_header" where
  "cert_header_of_image bs = \<lparr>cert_magic = of_le32 bs, cli_offset = of_le32 (drop 4 bs), cli_length = of_le32 (drop 8 bs),
     key_offset = of_le32 (drop 12 bs), key_length = of_le32 (drop 16 bs), ca_offset = of_le32 (drop 20 bs),
     ca_length = of_le32 (drop 24 bs)\<rparr>"

text \<open>The part of \<open>global_config\<close> that is read or written; certificates are ranges of the mapped partition.\<close>

record 'f system_config =
  config_rs485_driver :: rs485_driver_config
  config_analyzer :: modbus_analyzer_config
  config_mqtt_uri :: bytes
  config_mqtt_user :: bytes
  config_mqtt_pass :: bytes
  config_certs :: "cert_header option"
  config_wifi_ssid :: bytes
  config_wifi_password :: bytes
  config_wifi_authmode :: nat
  config_logger :: "'f blackbox_logger_config"
  save_param_timer_handle :: bool
  certs_map_handle :: bool

text \<open>The initial value: the stop bits are not set, although there is an option for them.\<close>

definition global_config :: "kconfig \<Rightarrow> 'f blackbox_logger_config \<Rightarrow> 'f system_config" where
  "global_config k logger =
     \<lparr>config_rs485_driver = \<lparr>rs485_baudrate = uart_baudrate_option k, rs485_port = uart_port_option k,
        rs485_data_bits = uart_data_bits_option k, rs485_parity = uart_parity_option k, rs485_stop_bits = 0,
        rs485_rx_pin = uart_rx_pin_option k, rs485_rx_buffer_size = RS485_DRIVER_RX_BUFFER_SIZE,
        rs485_queue_size = RS485_DRIVER_RX_QUEUE_SIZE, rs485_on_event_cb = False\<rparr>,
      config_analyzer = \<lparr>rs485_driver_config_ptr = None, on_frame_cb = False\<rparr>,
      config_mqtt_uri = replicate 128 0, config_mqtt_user = replicate 64 0, config_mqtt_pass = replicate 64 0,
      config_certs = None, config_wifi_ssid = replicate 32 0, config_wifi_password = replicate 64 0, config_wifi_authmode = 0,
      config_logger = logger, save_param_timer_handle = False, certs_map_handle = False\<rparr>"

section \<open>Defaults\<close>

text \<open>The defaults are set in order until the first refusal.\<close>

fun set_defaults :: "(nvs_keys \<times> bytes) list \<Rightarrow> 'd nvs_manager \<Rightarrow> (esp_err \<times> 'd nvs_manager) option" where
  "set_defaults [] m = Some (ESP_OK, m)"
| "set_defaults ((key, value) # rest) m =
     do {
       (err, m) \<leftarrow> nvs_manager_set_default key (Some value) (length value) m;
       if err \<noteq> ESP_OK then Some (err, m) else set_defaults rest m
     }"

definition system_config_setup_defaults :: "kconfig \<Rightarrow> 'd nvs_manager \<Rightarrow> (esp_err \<times> 'd nvs_manager) option" where
  "system_config_setup_defaults k m =
     (let p = blackbox_logger_default_parameters
      in set_defaults
        [(NVS_MANAGER_KEYS_WIFI_SSID, if use_manual_setting k then wifi_ssid_option k @ [0] else [0]),
         (NVS_MANAGER_KEYS_WIFI_PASS, if use_manual_setting k then wifi_password_option k @ [0] else [0]),
         (NVS_MANAGER_KEYS_MQTT_URI, mqtt_uri_option k @ [0]),
         (NVS_MANAGER_KEYS_MQTT_USER, mqtt_user_option k @ [0]),
         (NVS_MANAGER_KEYS_MQTT_PASS, mqtt_password_option k @ [0]),
         (NVS_MANAGER_KEYS_BB_WRITE_OFFSET, le32 (of_nat (param_write_offset p))),
         (NVS_MANAGER_KEYS_BB_REPLAY_OFFSET, le32 (of_nat (param_replay_offset p))),
         (NVS_MANAGER_KEYS_BB_LAST_ID, le32 (of_nat (param_last_id p)))] m)"

section \<open>Certificates\<close>

text \<open>
  \<open>part\<close> is the content of the certificates partition when there is one, \<open>mapped\<close> the outcome of
  mapping it. The position of the CRC is computed from the header that the CRC protects.
\<close>

definition system_config_load_mqtt_certs ::
    "bytes option \<Rightarrow> esp_err \<Rightarrow> 'f system_config \<Rightarrow> (esp_err \<times> 'f system_config) option" where
  "system_config_load_mqtt_certs part mapped g =
     (if certs_map_handle g then Some (ESP_ERR_INVALID_STATE, g)
      else case part of
        None \<Rightarrow> Some (ESP_ERR_NOT_FOUND, g)
      | Some mem \<Rightarrow>
          if mapped \<noteq> ESP_OK then Some (mapped, g)
          else do {
            image \<leftarrow> buf_read mem 0 32;
            let h = cert_header_of_image image;
            if cert_magic h \<noteq> SYSTEM_CONFIG_MTLS_HEADER_MAGIC then Some (ESP_ERR_INVALID_STATE, g)
            else do {
              let payload = ca_offset h + ca_length h;
              let total = payload + 2;
              let padding = (32 - total mod 32) mod 32;
              let crc_offset = unat (payload + padding);
              stored \<leftarrow> buf_read mem crc_offset 2;
              calculated \<leftarrow> calculate_modbus_crc16 mem crc_offset;
              let g = g\<lparr>certs_map_handle := True\<rparr>;
              Some (if calculated \<noteq> of_le16 stored then (ESP_ERR_INVALID_CRC, g) else (ESP_OK, g\<lparr>config_certs := Some h\<rparr>))
            }
          })"

section \<open>Setup\<close>

text \<open>A 32-bit number of the store read over the old one; a refused read leaves it.\<close>

definition read_cfg_u32 :: "bool \<Rightarrow> nvs_keys \<Rightarrow> 'd nvs_manager \<Rightarrow> nat \<Rightarrow> nat option" where
  "read_cfg_u32 got_lock key m old =
     do {
       (_, buf) \<leftarrow> nvs_manager_read_cfg got_lock key (Some (le32 (of_nat old))) m;
       bs \<leftarrow> buf;
       Some (unat (of_le32 bs))
     }"

definition read_cfg_bytes :: "bool \<Rightarrow> nvs_keys \<Rightarrow> 'd nvs_manager \<Rightarrow> bytes \<Rightarrow> bytes option" where
  "read_cfg_bytes got_lock key m old = do { (_, buf) \<leftarrow> nvs_manager_read_cfg got_lock key (Some old) m; buf }"

definition load_logger_parameters ::
    "(nat \<Rightarrow> bool) \<Rightarrow> 'd nvs_manager \<Rightarrow> blackbox_logger_parameters \<Rightarrow> blackbox_logger_parameters option" where
  "load_logger_parameters locks m p =
     do {
       w \<leftarrow> read_cfg_u32 (locks 0) NVS_MANAGER_KEYS_BB_WRITE_OFFSET m (param_write_offset p);
       r \<leftarrow> read_cfg_u32 (locks 1) NVS_MANAGER_KEYS_BB_REPLAY_OFFSET m (param_replay_offset p);
       i \<leftarrow> read_cfg_u32 (locks 2) NVS_MANAGER_KEYS_BB_LAST_ID m (param_last_id p);
       Some (p\<lparr>param_write_offset := w, param_replay_offset := r, param_last_id := i\<rparr>)
     }"

text \<open>
  \<open>log_storage\<close> is the size of the logger's partition when it is found, \<open>provisioner\<close> the outcome of
  starting the provisioner, after whose success the code waits for ever; \<open>created\<close> and \<open>started\<close>
  are the outcomes of the timer calls.
\<close>

definition system_config_setup ::
    "kconfig \<Rightarrow> (nat \<Rightarrow> bool) \<Rightarrow> nat option \<Rightarrow> esp_err \<Rightarrow> bytes option \<Rightarrow> esp_err \<Rightarrow> esp_err \<Rightarrow> esp_err
       \<Rightarrow> 'd nvs_manager \<Rightarrow> 'f system_config \<Rightarrow> (esp_err \<times> 'f system_config) option" where
  "system_config_setup k locks log_storage provisioner part mapped created started m g =
     do {
       p \<leftarrow> load_logger_parameters locks m (parameters (config_logger g));
       ssid \<leftarrow> read_cfg_bytes (locks 3) NVS_MANAGER_KEYS_WIFI_SSID m (config_wifi_ssid g);
       pass \<leftarrow> read_cfg_bytes (locks 4) NVS_MANAGER_KEYS_WIFI_PASS m (config_wifi_password g);
       let g = g\<lparr>config_analyzer := (config_analyzer g)\<lparr>rs485_driver_config_ptr := Some (config_rs485_driver g)\<rparr>,
                 config_logger := (config_logger g)\<lparr>partition_size := log_storage, parameters := p\<rparr>,
                 config_wifi_authmode := wifi_auth_mode_option k, config_wifi_ssid := ssid, config_wifi_password := pass\<rparr>;
       err \<leftarrow> (if use_provisioning k \<and> ssid ! 0 = 0
               then (if provisioner = ESP_OK then None else Some provisioner) else Some ESP_OK);
       (err, g) \<leftarrow> (if mqtt_transport_secure k \<and> err = ESP_OK then system_config_load_mqtt_certs part mapped g else Some (err, g));
       uri \<leftarrow> read_cfg_bytes (locks 5) NVS_MANAGER_KEYS_MQTT_URI m (config_mqtt_uri g);
       user \<leftarrow> read_cfg_bytes (locks 6) NVS_MANAGER_KEYS_MQTT_USER m (config_mqtt_user g);
       mqtt_pass \<leftarrow> read_cfg_bytes (locks 7) NVS_MANAGER_KEYS_MQTT_PASS m (config_mqtt_pass g);
       let g = g\<lparr>config_mqtt_uri := uri, config_mqtt_user := user, config_mqtt_pass := mqtt_pass\<rparr>;
       Some (if err \<noteq> ESP_OK then (err, g)
             else if created \<noteq> ESP_OK then (created, g) else (started, g\<lparr>save_param_timer_handle := True\<rparr>))
     }"

text \<open>The periodic copy of the logger's position; the dirty flag of the logger is not cleared.\<close>

definition save_parameters_callback :: "(nat \<Rightarrow> bool) \<Rightarrow> 'f system_config \<Rightarrow> 'd nvs_manager \<Rightarrow> 'd nvs_manager option" where
  "save_parameters_callback locks g m =
     (let p = parameters (config_logger g)
      in if param_is_dirty p then do {
           (_, m) \<leftarrow> nvs_manager_write_cfg (locks 0) NVS_MANAGER_KEYS_BB_REPLAY_OFFSET (Some (le32 (of_nat (param_replay_offset p)))) 4 m;
           (_, m) \<leftarrow> nvs_manager_write_cfg (locks 1) NVS_MANAGER_KEYS_BB_WRITE_OFFSET (Some (le32 (of_nat (param_write_offset p)))) 4 m;
           (_, m) \<leftarrow> nvs_manager_write_cfg (locks 2) NVS_MANAGER_KEYS_BB_LAST_ID (Some (le32 (of_nat (param_last_id p)))) 4 m;
           Some m
         }
         else Some m)"

definition system_config_reset :: "kconfig \<Rightarrow> 'f system_config \<Rightarrow> 'f system_config" where
  "system_config_reset k g =
     (let g = g\<lparr>save_param_timer_handle := False\<rparr>
      in if mqtt_transport_secure k \<and> certs_map_handle g then g\<lparr>certs_map_handle := False, config_certs := None\<rparr> else g)"

text \<open>The configurations that the other components get.\<close>

definition system_config_get_rs485_driver_config :: "'f system_config \<Rightarrow> rs485_driver_config" where
  "system_config_get_rs485_driver_config g = config_rs485_driver g"

definition system_config_get_modbus_analyzer_config :: "'f system_config \<Rightarrow> modbus_analyzer_config" where
  "system_config_get_modbus_analyzer_config g = config_analyzer g"

definition system_config_get_blackbox_logger_config :: "'f system_config \<Rightarrow> 'f blackbox_logger_config" where
  "system_config_get_blackbox_logger_config g = config_logger g"

section \<open>Facts\<close>

text \<open>Once the store is initialised, no default can be set.\<close>

lemma setup_defaults_refused:
  assumes "config_lock m"
  shows "\<exists>err. system_config_setup_defaults k m = Some (err, m) \<and> err \<noteq> ESP_OK"
  using assms by (simp add: system_config_setup_defaults_def nvs_manager_set_default_def find_map_helper_def config_map_def Let_def)

text \<open>
  The option for the stop bits has no effect: whatever the build options say, the UART is set to
  two stop bits and characters are counted as one bit longer than with the default of one.
\<close>

lemma stop_bits_ignored:
  "uart_stop_bits (snd (rs485_line_format (config_rs485_driver (global_config k logger)))) = 2"
  by (simp add: global_config_def rs485_line_format_def)

lemma read_u32_value:
  assumes "config_lock m" and "config_values (app_config m) key = Some (le32 (of_nat x))" and "x < 4294967296"
  shows "read_cfg_u32 True key m old = Some x"
  using read_cfg_field [OF assms(1,2), of "le32 (of_nat old)"] assms(3)
  by (simp add: read_cfg_u32_def unat_of_nat_u32)

lemma write_u32_value:
  assumes "config_lock m" and "length (app_config m) = 372"
    and "key \<in> {NVS_MANAGER_KEYS_BB_WRITE_OFFSET, NVS_MANAGER_KEYS_BB_REPLAY_OFFSET, NVS_MANAGER_KEYS_BB_LAST_ID}"
  shows "\<exists>m'. nvs_manager_write_cfg True key (Some (le32 x)) 4 m = Some (ESP_OK, m') \<and> config_lock m' \<and> is_dirty m'
    \<and> length (app_config m') = 372 \<and> config_values (app_config m') = (config_values (app_config m))(key \<mapsto> le32 x)"
proof -
  obtain e where e: "find_map_helper key = Some e" "map_size e = 4"
    using assms(3) by (auto simp: find_map_helper_def config_map_def)
  have "take 4 (le32 x) = le32 x" by simp
  then show ?thesis using write_cfg_values [OF assms(1,2), of 4 "le32 x" key] e by auto
qed

section \<open>Properties\<close>

text \<open>
  C20. The logger's position survives. A run of the periodic callback while the position is marked
  as changed writes all three numbers into the configuration and marks it for the next save;
  whoever starts with a configuration of the same values, a restarted system above all, sets up
  the logger with exactly that position.
\<close>

theorem system_config_position_roundtrip:
  assumes "config_lock m" and "length (app_config m) = 372"
    and "parameters (config_logger g) = p" and "param_is_dirty p"
    and "param_write_offset p < 4294967296" and "param_replay_offset p < 4294967296" and "param_last_id p < 4294967296"
  shows "\<exists>m'. save_parameters_callback (\<lambda>_. True) g m = Some m' \<and> is_dirty m'
    \<and> (\<forall>m2 p0. config_lock m2 \<and> config_values (app_config m2) = config_values (app_config m') \<longrightarrow>
        load_logger_parameters (\<lambda>_. True) m2 p0 = Some (p0\<lparr>param_write_offset := param_write_offset p,
          param_replay_offset := param_replay_offset p, param_last_id := param_last_id p\<rparr>))"
proof -
  obtain m1 where m1: "nvs_manager_write_cfg True NVS_MANAGER_KEYS_BB_REPLAY_OFFSET (Some (le32 (of_nat (param_replay_offset p)))) 4 m = Some (ESP_OK, m1)"
    "config_lock m1" "length (app_config m1) = 372"
    "config_values (app_config m1) = (config_values (app_config m))(NVS_MANAGER_KEYS_BB_REPLAY_OFFSET \<mapsto> le32 (of_nat (param_replay_offset p)))"
    using write_u32_value [OF assms(1,2)] by blast
  obtain m2 where m2: "nvs_manager_write_cfg True NVS_MANAGER_KEYS_BB_WRITE_OFFSET (Some (le32 (of_nat (param_write_offset p)))) 4 m1 = Some (ESP_OK, m2)"
    "config_lock m2" "length (app_config m2) = 372"
    "config_values (app_config m2) = (config_values (app_config m1))(NVS_MANAGER_KEYS_BB_WRITE_OFFSET \<mapsto> le32 (of_nat (param_write_offset p)))"
    using write_u32_value [OF m1(2,3)] by blast
  obtain m3 where m3: "nvs_manager_write_cfg True NVS_MANAGER_KEYS_BB_LAST_ID (Some (le32 (of_nat (param_last_id p)))) 4 m2 = Some (ESP_OK, m3)"
    "is_dirty m3" "config_values (app_config m3) = (config_values (app_config m2))(NVS_MANAGER_KEYS_BB_LAST_ID \<mapsto> le32 (of_nat (param_last_id p)))"
    using write_u32_value [OF m2(2,3)] by blast
  have "save_parameters_callback (\<lambda>_. True) g m = Some m3"
    using assms(3,4) m1(1) m2(1) m3(1) by (simp add: save_parameters_callback_def)
  moreover have "load_logger_parameters (\<lambda>_. True) m4 p0 = Some (p0\<lparr>param_write_offset := param_write_offset p,
          param_replay_offset := param_replay_offset p, param_last_id := param_last_id p\<rparr>)"
    if "config_lock m4" "config_values (app_config m4) = config_values (app_config m3)" for m4 p0
  proof -
    have v: "config_values (app_config m4) NVS_MANAGER_KEYS_BB_WRITE_OFFSET = Some (le32 (of_nat (param_write_offset p)))"
      "config_values (app_config m4) NVS_MANAGER_KEYS_BB_REPLAY_OFFSET = Some (le32 (of_nat (param_replay_offset p)))"
      "config_values (app_config m4) NVS_MANAGER_KEYS_BB_LAST_ID = Some (le32 (of_nat (param_last_id p)))"
      using that(2) m1(4) m2(4) m3(3) by simp_all
    from read_u32_value [OF that(1) v(1) assms(5)] read_u32_value [OF that(1) v(2) assms(6)] read_u32_value [OF that(1) v(3) assms(7)]
    show ?thesis by (simp add: load_logger_parameters_def)
  qed
  ultimately show ?thesis using m3(2) by blast
qed

definition system_config_example :: "unit system_config" where
  "system_config_example = global_config
     \<lparr>uart_baudrate_option = 115200, uart_port_option = 1, uart_data_bits_option = 8, uart_parity_option = 1, uart_stop_bit_option = 1,
       uart_rx_pin_option = 5, use_manual_setting = True, use_provisioning = False, mqtt_transport_secure = False,
       wifi_ssid_option = [65], wifi_password_option = [], wifi_auth_mode_option = 3, mqtt_uri_option = [66], mqtt_user_option = [67],
       mqtt_password_option = []\<rparr>
     \<lparr>partition_size = None, parameters = \<lparr>param_write_offset = 4096, param_replay_offset = 300, param_last_id = 7, param_is_dirty = True\<rparr>,
       address_align = 4, flush_timer_timeout_us = 5000000, sector_buf = None, sector_buf_size = 0, batch_buf = None, batch_buf_size = 0,
       on_replay_available_func = False, write_func = None, read_func = None, erase_func = None\<rparr>"

lemma system_config_position_roundtrip_witness:
  "\<exists>m'. save_parameters_callback (\<lambda>_. True) system_config_example nvs_example = Some m' \<and> is_dirty m'"
  using system_config_position_roundtrip [of nvs_example system_config_example, OF _ _ refl]
  by (auto simp: nvs_example_def system_config_example_def global_config_def)

end
