(* ===== verification/Controller.thy ===== *)
theory Controller imports Runtime_Tasks System_Config begin

text \<open>
  The orchestration: \<open>components/controller/system_init.c\<close>, which initialises the components in a
  fixed order, and \<open>components/controller/controller.c\<close>, the state machine around it. The
  components are a record of their initialisations and deinitialisations on the rest of the
  system, a state of type \<open>'w\<close>; the models of the other theories are instances of its fields.
\<close>

section \<open>System initialisation\<close>

datatype init_step =
    INIT_STEP_DEFAULT_CONFIG
  | INIT_STEP_NVS
  | INIT_STEP_CONFIG
  | INIT_STEP_TELE_PLIN
  | INIT_STEP_TELE_SERV
  | INIT_STEP_LOG_SERV
  | INIT_STEP_WIFI
  | INIT_STEP_EVENT_BUS
  | INIT_STEP_METRICS
  | INIT_STEP_SLAB
  | INIT_STEP_COMPLETE

definition EVENT_BUS_QUEUE_SIZE :: nat where "EVENT_BUS_QUEUE_SIZE = 50"

record 'w system_components =
  c_setup_defaults :: "'w \<Rightarrow> (esp_err \<times> 'w) option"
  c_nvs_init :: "'w \<Rightarrow> (esp_err \<times> 'w) option"
  c_config_setup :: "'w \<Rightarrow> (esp_err \<times> 'w) option"
  c_wifi_init :: "'w \<Rightarrow> (esp_err \<times> 'w) option"
  c_slab_init :: "'w \<Rightarrow> (esp_err \<times> 'w) option"
  c_event_bus_init :: "nat \<Rightarrow> 'w \<Rightarrow> (esp_err \<times> 'w) option"
  c_metrics_init :: "'w \<Rightarrow> (esp_err \<times> 'w) option"
  c_pipeline_init :: "'w \<Rightarrow> (bool \<times> 'w) option"
  c_telemetry_init :: "'w \<Rightarrow> (bool \<times> 'w) option"
  c_logger_init :: "'w \<Rightarrow> (bool \<times> 'w) option"
  c_telemetry_deinit :: "'w \<Rightarrow> 'w option"
  c_logger_deinit :: "'w \<Rightarrow> 'w option"
  c_pipeline_deinit :: "'w \<Rightarrow> 'w option"
  c_wifi_deinit :: "'w \<Rightarrow> 'w option"
  c_event_bus_deinit :: "'w \<Rightarrow> 'w option"
  c_slab_deinit :: "'w \<Rightarrow> 'w option"
  c_config_reset :: "'w \<Rightarrow> 'w option"
  c_nvs_deinit :: "'w \<Rightarrow> 'w option"

definition system_deinit :: "'w system_components \<Rightarrow> 'w \<Rightarrow> 'w option" where
  "system_deinit C w =
     do {
       w \<leftarrow> c_telemetry_deinit C w;
       w \<leftarrow> c_logger_deinit C w;
       w \<leftarrow> c_pipeline_deinit C w;
       w \<leftarrow> c_wifi_deinit C w;
       w \<leftarrow> c_event_bus_deinit C w;
       w \<leftarrow> c_slab_deinit C w;
       w \<leftarrow> c_config_reset C w;
       c_nvs_deinit C w
     }"

definition ok_or_fail :: "(bool \<times> 'w) option \<Rightarrow> (esp_err \<times> 'w) option" where
  "ok_or_fail r = map_option (\<lambda>(ok, w). (if ok then ESP_OK else ESP_FAIL, w)) r"

text \<open>The switch: the work of a step and the step that follows.\<close>

fun init_step_run :: "'w system_components \<Rightarrow> init_step \<Rightarrow> 'w \<Rightarrow> (esp_err \<times> 'w) option" where
  "init_step_run C INIT_STEP_DEFAULT_CONFIG w = c_setup_defaults C w"
| "init_step_run C INIT_STEP_NVS w = c_nvs_init C w"
| "init_step_run C INIT_STEP_CONFIG w = c_config_setup C w"
| "init_step_run C INIT_STEP_WIFI w = c_wifi_init C w"
| "init_step_run C INIT_STEP_SLAB w = c_slab_init C w"
| "init_step_run C INIT_STEP_EVENT_BUS w = c_event_bus_init C EVENT_BUS_QUEUE_SIZE w"
| "init_step_run C INIT_STEP_METRICS w = c_metrics_init C w"
| "init_step_run C INIT_STEP_TELE_PLIN w = ok_or_fail (c_pipeline_init C w)"
| "init_step_run C INIT_STEP_TELE_SERV w = ok_or_fail (c_telemetry_init C w)"
| "init_step_run C INIT_STEP_LOG_SERV w = ok_or_fail (c_logger_init C w)"
| "init_step_run C INIT_STEP_COMPLETE w = Some (ESP_OK, w)"

fun init_step_next :: "init_step \<Rightarrow> init_step" where
  "init_step_next INIT_STEP_DEFAULT_CONFIG = INIT_STEP_NVS"
| "init_step_next INIT_STEP_NVS = INIT_STEP_CONFIG"
| "init_step_next INIT_STEP_CONFIG = INIT_STEP_WIFI"
| "init_step_next INIT_STEP_WIFI = INIT_STEP_SLAB"
| "init_step_next INIT_STEP_SLAB = INIT_STEP_EVENT_BUS"
| "init_step_next INIT_STEP_EVENT_BUS = INIT_STEP_METRICS"
| "init_step_next INIT_STEP_METRICS = INIT_STEP_TELE_PLIN"
| "init_step_next INIT_STEP_TELE_PLIN = INIT_STEP_TELE_SERV"
| "init_step_next INIT_STEP_TELE_SERV = INIT_STEP_LOG_SERV"
| "init_step_next INIT_STEP_LOG_SERV = INIT_STEP_COMPLETE"
| "init_step_next INIT_STEP_COMPLETE = INIT_STEP_COMPLETE"

text \<open>How many steps are left.\<close>

fun init_steps_left :: "init_step \<Rightarrow> nat" where
  "init_steps_left INIT_STEP_DEFAULT_CONFIG = 10"
| "init_steps_left INIT_STEP_NVS = 9"
| "init_steps_left INIT_STEP_CONFIG = 8"
| "init_steps_left INIT_STEP_WIFI = 7"
| "init_steps_left INIT_STEP_SLAB = 6"
| "init_steps_left INIT_STEP_EVENT_BUS = 5"
| "init_steps_left INIT_STEP_METRICS = 4"
| "init_steps_left INIT_STEP_TELE_PLIN = 3"
| "init_steps_left INIT_STEP_TELE_SERV = 2"
| "init_steps_left INIT_STEP_LOG_SERV = 1"
| "init_steps_left INIT_STEP_COMPLETE = 0"

lemma init_steps_left_next: "s \<noteq> INIT_STEP_COMPLETE \<Longrightarrow> init_steps_left (init_step_next s) < init_steps_left s"
  by (cases s) simp_all

function system_init_loop :: "'w system_components \<Rightarrow> init_step \<Rightarrow> 'w \<Rightarrow> (esp_err \<times> 'w) option" where
  "system_init_loop C s w =
     (if s = INIT_STEP_COMPLETE then Some (ESP_OK, w)
      else case init_step_run C s w of
        None \<Rightarrow> None
      | Some (err, w) \<Rightarrow>
          if err \<noteq> ESP_OK then map_option (\<lambda>w. (err, w)) (system_deinit C w)
          else system_init_loop C (init_step_next s) w)"
  by pat_completeness auto
termination by (relation "measure (\<lambda>(C, s, w). init_steps_left s)") (auto simp: init_steps_left_next)

declare system_init_loop.simps [simp del]

definition system_init :: "'w system_components \<Rightarrow> 'w \<Rightarrow> (esp_err \<times> 'w) option" where
  "system_init C w = system_init_loop C INIT_STEP_DEFAULT_CONFIG w"

section \<open>The controller\<close>

datatype controller_state =
    CONTROLLER_STATE_UNINITIALIZED
  | CONTROLLER_STATE_INIT
  | CONTROLLER_STATE_RUNNING
  | CONTROLLER_STATE_FAULT
  | CONTROLLER_STATE_STOPPING

text \<open>The controller with the index of the last started task and the rest of the system.\<close>

record 'w controller =
  current_state :: controller_state
  state_mutex :: bool
  last_started_task_idx :: int
  rest_of_system :: 'w

text \<open>The lock is waited for with a limit; \<open>got_lock\<close> is the outcome.\<close>

definition set_state_helper :: "bool \<Rightarrow> controller_state \<Rightarrow> 'w controller \<Rightarrow> 'w controller" where
  "set_state_helper got_lock new_state c = (if state_mutex c \<and> got_lock then c\<lparr>current_state := new_state\<rparr> else c)"

definition controller_get_state :: "bool \<Rightarrow> 'w controller \<Rightarrow> controller_state" where
  "controller_get_state got_lock c = (if state_mutex c \<and> got_lock then current_state c else CONTROLLER_STATE_UNINITIALIZED)"

definition controller_request_stop :: "bool \<Rightarrow> 'w controller \<Rightarrow> 'w controller" where
  "controller_request_stop got_lock c = set_state_helper got_lock CONTROLLER_STATE_STOPPING c"

definition handle_init_helper :: "'w system_components \<Rightarrow> (nat \<Rightarrow> bool) \<Rightarrow> 'w controller \<Rightarrow> (esp_err \<times> 'w controller \<times> task_call list) option" where
  "handle_init_helper C create c =
     do {
       (err, w) \<leftarrow> system_init C (rest_of_system c);
       let c = c\<lparr>rest_of_system := w\<rparr>;
       if err = ESP_OK then do {
         (pass, idx, calls) \<leftarrow> runtime_tasks_start_all registered_tasks create (last_started_task_idx c);
         Some (if pass then ESP_OK else ESP_FAIL, c\<lparr>last_started_task_idx := idx\<rparr>, calls)
       }
       else Some (err, c, [])
     }"

definition handle_deinit_helper :: "'w system_components \<Rightarrow> 'w controller \<Rightarrow> ('w controller \<times> task_call list) option" where
  "handle_deinit_helper C c =
     do {
       (idx, calls) \<leftarrow> runtime_tasks_stop_all registered_tasks (last_started_task_idx c);
       w \<leftarrow> system_deinit C (rest_of_system c);
       Some (c\<lparr>last_started_task_idx := idx, rest_of_system := w\<rparr>, calls)
     }"

text \<open>
  The switch of the loop, up to the state it is about to set. Other tasks can ask for a stop
  between this and the setting.
\<close>

definition controller_handle ::
    "'w system_components \<Rightarrow> (nat \<Rightarrow> bool) \<Rightarrow> controller_state \<Rightarrow> 'w controller \<Rightarrow> (controller_state option \<times> 'w controller) option" where
  "controller_handle C create turn_state c =
     (case turn_state of
        CONTROLLER_STATE_INIT \<Rightarrow>
          map_option (\<lambda>(err, c, _). (Some (if err = ESP_OK then CONTROLLER_STATE_RUNNING else CONTROLLER_STATE_FAULT), c))
            (handle_init_helper C create c)
      | CONTROLLER_STATE_FAULT \<Rightarrow> Some (Some CONTROLLER_STATE_INIT, c)
      | CONTROLLER_STATE_STOPPING \<Rightarrow>
          map_option (\<lambda>(c, _). (Some CONTROLLER_STATE_UNINITIALIZED, c)) (handle_deinit_helper C c)
      | _ \<Rightarrow> Some (None, c))"

text \<open>
  Where the loop is: before the read of the state, before the setting of a new one, or at its end,
  where the mutex is deleted.
\<close>

datatype controller_point = At_read | At_set controller_state | At_end

inductive controller_step ::
    "'w system_components \<Rightarrow> controller_point \<times> 'w controller \<Rightarrow> controller_point \<times> 'w controller \<Rightarrow> bool" for C where
  read_sets: "controller_handle C create (controller_get_state got_lock c) c = Some (Some s, c') \<Longrightarrow>
    controller_step C (At_read, c) (At_set s, c')"
| read_stays: "controller_handle C create (controller_get_state got_lock c) c = Some (None, c') \<Longrightarrow>
    controller_get_state got_lock c \<noteq> CONTROLLER_STATE_UNINITIALIZED \<Longrightarrow> controller_step C (At_read, c) (At_read, c')"
| read_ends: "controller_get_state got_lock c = CONTROLLER_STATE_UNINITIALIZED \<Longrightarrow>
    controller_step C (At_read, c) (At_end, c\<lparr>state_mutex := False\<rparr>)"
| sets: "controller_step C (At_set s, c) (At_read, set_state_helper got_lock s c)"
| stop_request: "controller_step C (point, c) (point, controller_request_stop got_lock c)"

text \<open>The entry of \<open>controller_run\<close>: the mutex, the first setting, and the first read of the state.\<close>

definition controller_enter :: "bool \<Rightarrow> bool \<Rightarrow> bool \<Rightarrow> 'w controller \<Rightarrow> controller_point \<times> 'w controller" where
  "controller_enter mutex got_lock1 got_lock2 c =
     (let c = c\<lparr>state_mutex := mutex\<rparr>
      in if \<not> mutex then (At_end, c)
         else let c = set_state_helper got_lock1 CONTROLLER_STATE_INIT c
           in if controller_get_state got_lock2 c \<noteq> CONTROLLER_STATE_UNINITIALIZED then (At_read, c)
              else (At_end, c\<lparr>state_mutex := False\<rparr>))"

definition controller_power_up :: "'w \<Rightarrow> 'w controller" where
  "controller_power_up w = \<lparr>current_state = CONTROLLER_STATE_UNINITIALIZED, state_mutex = False, last_started_task_idx = - 1,
     rest_of_system = w\<rparr>"

section \<open>Facts\<close>

lemma set_state_helper_simps [simp]:
  "last_started_task_idx (set_state_helper got_lock s c) = last_started_task_idx c"
  "rest_of_system (set_state_helper got_lock s c) = rest_of_system c"
  "current_state (set_state_helper got_lock s c) \<in> {s, current_state c}"
  by (simp_all add: set_state_helper_def)

definition controller_inv :: "controller_point \<times> 'w controller \<Rightarrow> bool" where
  "controller_inv x \<longleftrightarrow> last_started_task_idx (snd x) \<in> {- 1, 5}
     \<and> (current_state (snd x) = CONTROLLER_STATE_RUNNING \<or> fst x = At_set CONTROLLER_STATE_RUNNING \<longrightarrow> last_started_task_idx (snd x) = 5)"

lemma controller_handle_inv:
  assumes "controller_handle C create turn_state c = Some (s, c')" and "last_started_task_idx c \<in> {- 1, 5}"
  shows "current_state c' = current_state c \<and> last_started_task_idx c' \<in> {- 1, 5}
    \<and> (last_started_task_idx c = 5 \<longrightarrow> last_started_task_idx c' = 5)
    \<and> (s = Some CONTROLLER_STATE_RUNNING \<longrightarrow> last_started_task_idx c' = 5)"
proof (cases turn_state)
  case CONTROLLER_STATE_INIT
  then obtain err calls where h: "handle_init_helper C create c = Some (err, c', calls)"
    "s = Some (if err = ESP_OK then CONTROLLER_STATE_RUNNING else CONTROLLER_STATE_FAULT)"
    using assms(1) by (auto simp: controller_handle_def)
  obtain err0 w where i: "system_init C (rest_of_system c) = Some (err0, w)"
    using h(1) by (auto simp: handle_init_helper_def bind_eq_Some_conv)
  show ?thesis
  proof (cases "err0 = ESP_OK")
    case False
    with h i assms(2) show ?thesis by (auto simp: handle_init_helper_def)
  next
    case True
    then obtain ok idx where r: "runtime_tasks_start_all registered_tasks create (last_started_task_idx c) = Some (ok, idx, calls)"
      "err = (if ok then ESP_OK else ESP_FAIL)" "c' = c\<lparr>rest_of_system := w, last_started_task_idx := idx\<rparr>"
      using h(1) i by (auto simp: handle_init_helper_def bind_eq_Some_conv)
    have "last_started_task_idx c = 5 \<longrightarrow> idx = 5"
      using r(1) by (auto simp: runtime_tasks_start_all_def start_all_loop.simps)
    with start_all_index [OF r(1)] assms(2) r h(2) show ?thesis by (auto split: if_splits)
  qed
next
  case CONTROLLER_STATE_STOPPING
  then obtain calls where h: "handle_deinit_helper C c = Some (c', calls)" "s = Some CONTROLLER_STATE_UNINITIALIZED"
    using assms(1) by (auto simp: controller_handle_def)
  then obtain idx stopped where "runtime_tasks_stop_all registered_tasks (last_started_task_idx c) = Some (idx, stopped)"
    "last_started_task_idx c' = idx" "current_state c' = current_state c"
    by (auto simp: handle_deinit_helper_def bind_eq_Some_conv)
  with assms(2) h(2) show ?thesis by (auto simp: stop_all_started) (simp_all add: runtime_tasks_stop_all_def)
qed (use assms in \<open>auto simp: controller_handle_def\<close>)

lemma controller_step_inv:
  assumes "controller_step C x y" and "controller_inv x"
  shows "controller_inv y"
  using assms
proof cases
  case (read_sets create got_lock c s c')
  with controller_handle_inv [OF read_sets(3)] assms(2) show ?thesis by (auto simp: controller_inv_def)
next
  case (read_stays create got_lock c c')
  with controller_handle_inv [OF read_stays(3)] assms(2) show ?thesis by (auto simp: controller_inv_def)
next
  case (read_ends got_lock c)
  with assms(2) show ?thesis by (auto simp: controller_inv_def)
next
  case (sets s c got_lock)
  with assms(2) show ?thesis by (auto simp: controller_inv_def set_state_helper_def)
next
  case (stop_request point c got_lock)
  with assms(2) show ?thesis by (auto simp: controller_inv_def controller_request_stop_def set_state_helper_def)
qed

lemma controller_enter_inv: "controller_inv (controller_enter mutex got_lock1 got_lock2 (controller_power_up w))"
  by (simp add: controller_enter_def controller_power_up_def controller_inv_def set_state_helper_def Let_def)

lemma controller_reach_inv:
  assumes "(controller_step C)\<^sup>*\<^sup>* x y" and "controller_inv x"
  shows "controller_inv y"
  using assms by (induction rule: rtranclp_induct) (auto intro: controller_step_inv)

section \<open>Properties\<close>

text \<open>
  C19. Running means started, and a running system cannot be stopped. Whatever the components, the
  outcomes of the locks and the moments of stop requests, the state is \<open>RUNNING\<close> only while all six
  tasks have been started; and the handling of the state \<open>STOPPING\<close> has no defined result then,
  because the stop of the tasks reads behind their table.
\<close>

theorem controller_running_is_started:
  assumes "(controller_step C)\<^sup>*\<^sup>* (controller_enter mutex got_lock1 got_lock2 (controller_power_up w)) (point, c)"
    and "current_state c = CONTROLLER_STATE_RUNNING"
  shows "last_started_task_idx c = 5
    \<and> controller_handle C create CONTROLLER_STATE_STOPPING (controller_request_stop True c) = None"
proof -
  have "last_started_task_idx c = 5"
    using controller_reach_inv [OF assms(1) controller_enter_inv] assms(2) by (simp add: controller_inv_def)
  then show ?thesis
    by (simp add: controller_handle_def handle_deinit_helper_def controller_request_stop_def stop_all_started)
qed

text \<open>Components that succeed at once; the configuration of the defaults is given.\<close>

definition components_example :: "('w \<Rightarrow> (esp_err \<times> 'w) option) \<Rightarrow> 'w system_components" where
  "components_example setup = \<lparr>c_setup_defaults = setup,
     c_nvs_init = (\<lambda>w. Some (ESP_OK, w)), c_config_setup = (\<lambda>w. Some (ESP_OK, w)),
     c_wifi_init = (\<lambda>w. Some (ESP_OK, w)), c_slab_init = (\<lambda>w. Some (ESP_OK, w)), c_event_bus_init = (\<lambda>n w. Some (ESP_OK, w)),
     c_metrics_init = (\<lambda>w. Some (ESP_OK, w)), c_pipeline_init = (\<lambda>w. Some (True, w)), c_telemetry_init = (\<lambda>w. Some (True, w)),
     c_logger_init = (\<lambda>w. Some (True, w)), c_telemetry_deinit = Some, c_logger_deinit = Some, c_pipeline_deinit = Some,
     c_wifi_deinit = Some, c_event_bus_deinit = Some, c_slab_deinit = Some, c_config_reset = Some, c_nvs_deinit = Some\<rparr>"

lemma components_example_init:
  assumes "setup w = Some (ESP_OK, w)"
  shows "system_init (components_example setup) w = Some (ESP_OK, w)"
  using assms by (simp add: system_init_def system_init_loop.simps components_example_def ok_or_fail_def)

lemma components_example_deinit: "system_deinit (components_example setup) w = Some w"
  by (simp add: system_deinit_def components_example_def)

lemma controller_running_is_started_witness:
  "last_started_task_idx (\<lparr>current_state = CONTROLLER_STATE_RUNNING, state_mutex = True, last_started_task_idx = 5,
       rest_of_system = ()\<rparr>) = 5
   \<and> controller_handle (components_example (\<lambda>w. Some (ESP_OK, w))) (\<lambda>i. True) CONTROLLER_STATE_STOPPING
       \<lparr>current_state = CONTROLLER_STATE_STOPPING, state_mutex = True, last_started_task_idx = 5, rest_of_system = ()\<rparr> = None"
proof -
  let ?C = "components_example (\<lambda>w. Some (ESP_OK, w)) :: unit system_components"
  let ?c = "\<lambda>s idx. \<lparr>current_state = s, state_mutex = True, last_started_task_idx = idx, rest_of_system = ()\<rparr>"
  have enter: "controller_enter True True True (controller_power_up ()) = (At_read, ?c CONTROLLER_STATE_INIT (- 1))"
    by (simp add: controller_enter_def controller_power_up_def set_state_helper_def controller_get_state_def Let_def)
  have "controller_handle ?C (\<lambda>i. True) (controller_get_state True (?c CONTROLLER_STATE_INIT (- 1))) (?c CONTROLLER_STATE_INIT (- 1))
      = Some (Some CONTROLLER_STATE_RUNNING, ?c CONTROLLER_STATE_INIT 5)"
    using components_example_init [of "\<lambda>w. Some (ESP_OK, w)" "()"] start_all_succeeds [of "\<lambda>i. True"]
    by (simp add: controller_handle_def handle_init_helper_def controller_get_state_def)
  then have "controller_step ?C (At_read, ?c CONTROLLER_STATE_INIT (- 1)) (At_set CONTROLLER_STATE_RUNNING, ?c CONTROLLER_STATE_INIT 5)"
    by (rule read_sets)
  moreover have "controller_step ?C (At_set CONTROLLER_STATE_RUNNING, ?c CONTROLLER_STATE_INIT 5)
      (At_read, set_state_helper True CONTROLLER_STATE_RUNNING (?c CONTROLLER_STATE_INIT 5))" by (rule sets)
  moreover have "set_state_helper True CONTROLLER_STATE_RUNNING (?c CONTROLLER_STATE_INIT 5) = ?c CONTROLLER_STATE_RUNNING 5"
    by (simp add: set_state_helper_def)
  ultimately have "(controller_step ?C)\<^sup>*\<^sup>* (controller_enter True True True (controller_power_up ())) (At_read, ?c CONTROLLER_STATE_RUNNING 5)"
    unfolding enter by (simp add: converse_rtranclp_into_rtranclp)
  from controller_running_is_started [OF this, of "\<lambda>i. True"] show ?thesis
    by (simp add: controller_request_stop_def set_state_helper_def)
qed

text \<open>
  C39. The first attempt to recover always fails. When the tasks could not be started, the
  components stay initialised while the state is \<open>FAULT\<close>. The next two turns of the loop go to
  \<open>INIT\<close> and into the initialisation again, whose first step is refused because the configuration
  store still has its lock: the system is deinitialised and the state is \<open>FAULT\<close> again.
\<close>

theorem controller_first_recovery_fails:
  assumes "\<forall>w. c_setup_defaults C w = map_option (\<lambda>(err, m). (err, put_nvs m w)) (system_config_setup_defaults k (get_nvs w))"
    and "put_nvs (get_nvs (rest_of_system c)) (rest_of_system c) = rest_of_system c"
    and "config_lock (get_nvs (rest_of_system c))" and "state_mutex c" and "current_state c = CONTROLLER_STATE_FAULT"
    and "system_deinit C (rest_of_system c) = Some w'"
  shows "(controller_step C)\<^sup>*\<^sup>* (At_read, c) (At_read, c\<lparr>current_state := CONTROLLER_STATE_INIT\<rparr>)
    \<and> controller_handle C create CONTROLLER_STATE_INIT (c\<lparr>current_state := CONTROLLER_STATE_INIT\<rparr>)
      = Some (Some CONTROLLER_STATE_FAULT, c\<lparr>current_state := CONTROLLER_STATE_INIT, rest_of_system := w'\<rparr>)"
proof
  have "controller_handle C create (controller_get_state True c) c = Some (Some CONTROLLER_STATE_INIT, c)" for create
    using assms(4,5) by (simp add: controller_get_state_def controller_handle_def)
  then have "controller_step C (At_read, c) (At_set CONTROLLER_STATE_INIT, c)" by (rule read_sets)
  moreover have "controller_step C (At_set CONTROLLER_STATE_INIT, c) (At_read, set_state_helper True CONTROLLER_STATE_INIT c)"
    by (rule sets)
  moreover have "set_state_helper True CONTROLLER_STATE_INIT c = c\<lparr>current_state := CONTROLLER_STATE_INIT\<rparr>"
    using assms(4) by (simp add: set_state_helper_def)
  ultimately show "(controller_step C)\<^sup>*\<^sup>* (At_read, c) (At_read, c\<lparr>current_state := CONTROLLER_STATE_INIT\<rparr>)"
    by (simp add: converse_rtranclp_into_rtranclp)
next
  obtain err where "system_config_setup_defaults k (get_nvs (rest_of_system c)) = Some (err, get_nvs (rest_of_system c))" "err \<noteq> ESP_OK"
    using setup_defaults_refused [OF assms(3)] by blast
  then have "system_init C (rest_of_system c) = Some (err, w')" "err \<noteq> ESP_OK"
    using assms(1,2,6) by (simp_all add: system_init_def system_init_loop.simps)
  then show "controller_handle C create CONTROLLER_STATE_INIT (c\<lparr>current_state := CONTROLLER_STATE_INIT\<rparr>)
      = Some (Some CONTROLLER_STATE_FAULT, c\<lparr>current_state := CONTROLLER_STATE_INIT, rest_of_system := w'\<rparr>)"
    by (simp add: controller_handle_def handle_init_helper_def)
qed

text \<open>A store that is initialised, as the rest of the system.\<close>

definition kconfig_example :: kconfig where
  "kconfig_example = \<lparr>uart_baudrate_option = 115200, uart_port_option = 1, uart_data_bits_option = 8, uart_parity_option = 1,
     uart_stop_bit_option = 1, uart_rx_pin_option = 5, use_manual_setting = True, use_provisioning = False,
     mqtt_transport_secure = False, wifi_ssid_option = [65], wifi_password_option = [], wifi_auth_mode_option = 3,
     mqtt_uri_option = [66], mqtt_user_option = [67], mqtt_password_option = []\<rparr>"

lemma controller_first_recovery_fails_witness:
  "let c = \<lparr>current_state = CONTROLLER_STATE_FAULT, state_mutex = True, last_started_task_idx = - 1,
       rest_of_system = (nvs_power_up :: mock_nvs nvs_manager)\<lparr>config_lock := True\<rparr>\<rparr>
   in controller_handle (components_example (system_config_setup_defaults kconfig_example)) (\<lambda>i. True) CONTROLLER_STATE_INIT
     (c\<lparr>current_state := CONTROLLER_STATE_INIT\<rparr>) = Some (Some CONTROLLER_STATE_FAULT, c\<lparr>current_state := CONTROLLER_STATE_INIT\<rparr>)"
proof -
  let ?w = "(nvs_power_up :: mock_nvs nvs_manager)\<lparr>config_lock := True\<rparr>"
  let ?c = "\<lparr>current_state = CONTROLLER_STATE_FAULT, state_mutex = True, last_started_task_idx = - 1, rest_of_system = ?w\<rparr>"
  let ?C = "components_example (system_config_setup_defaults kconfig_example) :: mock_nvs nvs_manager system_components"
  have d: "\<forall>w. c_setup_defaults ?C w = map_option (\<lambda>(err, m). (err, m)) (system_config_setup_defaults kconfig_example w)"
    by (simp add: components_example_def option.map_id)
  from controller_first_recovery_fails [where C = ?C and c = ?c and get_nvs = "\<lambda>w. w" and put_nvs = "\<lambda>m w. m" and k = kconfig_example
      and w' = ?w and create = "\<lambda>i. True", OF d]
  show ?thesis by (simp add: components_example_deinit)
qed

end
