(* ===== verification/Wifi_Manager.thy ===== *)
theory Wifi_Manager imports Prelude begin

text \<open>
  The Wi-Fi manager, \<open>components/wifi_manager/wifi_manager.c\<close>: the connection state, the handler
  of the Wi-Fi events and the one-shot timer that reconnects after a growing delay. The state lock
  is taken without a limit, so accesses are atomic; without the lock they do nothing. The calls to
  the Wi-Fi stack and the timer are part of the results.
\<close>

section \<open>State\<close>

datatype wifi_state = WIFI_STATE_IDLE | WIFI_STATE_CONNECTING | WIFI_STATE_CONNECTED | WIFI_STATE_DISCONNECTED

definition WIFI_MANAGE_MAXIMUM_RECONNECT_TIMEOUT_US :: nat where "WIFI_MANAGE_MAXIMUM_RECONNECT_TIMEOUT_US = 60000000"
definition WIFI_MANAGE_MINIMUM_RECONNECT_TIMEOUT_US :: nat where "WIFI_MANAGE_MINIMUM_RECONNECT_TIMEOUT_US = 1000000"

record wifi_manager =
  wifi_state_lock :: bool
  wifi_manager_state :: wifi_state
  reconnect_timer :: bool
  reconnect_timeout_us :: nat
  wifi_event_ctx :: bool
  ip_event_ctx :: bool

datatype wifi_call =
    Netif_init
  | Event_loop_create
  | Netif_create_default_sta
  | Wifi_init
  | Register_wifi_events
  | Register_ip_events
  | Wifi_set_storage_ram
  | Wifi_set_mode_sta
  | Wifi_set_config
  | Wifi_start
  | Timer_create
  | Wifi_connect
  | Timer_stop
  | Timer_start_once nat
  | Timer_delete
  | Wifi_stop
  | Wifi_deinit
  | Unregister_ip_events
  | Unregister_wifi_events

datatype wifi_event =
  WIFI_EVENT_STA_START | WIFI_EVENT_STA_DISCONNECTED | WIFI_EVENT_OTHER | IP_EVENT_STA_GOT_IP | IP_EVENT_OTHER

section \<open>Operations\<close>

definition wifi_manager_set_state_helper :: "wifi_state \<Rightarrow> wifi_manager \<Rightarrow> wifi_manager" where
  "wifi_manager_set_state_helper s m = (if wifi_state_lock m then m\<lparr>wifi_manager_state := s\<rparr> else m)"

definition wifi_manager_get_state :: "wifi_manager \<Rightarrow> wifi_state" where
  "wifi_manager_get_state m = (if wifi_state_lock m then wifi_manager_state m else WIFI_STATE_IDLE)"

text \<open>The delay is doubled before it is used; the timeout is a 64-bit number.\<close>

definition wifi_manager_trigger_reconnect :: "wifi_manager \<Rightarrow> wifi_manager \<times> wifi_call list" where
  "wifi_manager_trigger_reconnect m =
     (if reconnect_timer m then
        let doubled = (reconnect_timeout_us m * 2) mod 2 ^ 64;
            t = (if doubled < WIFI_MANAGE_MAXIMUM_RECONNECT_TIMEOUT_US then doubled else WIFI_MANAGE_MAXIMUM_RECONNECT_TIMEOUT_US)
        in (m\<lparr>reconnect_timeout_us := t\<rparr>, [Timer_stop, Timer_start_once t])
      else (m, []))"

definition wifi_event_handler :: "wifi_event \<Rightarrow> wifi_manager \<Rightarrow> wifi_manager \<times> wifi_call list" where
  "wifi_event_handler e m =
     (case e of
        WIFI_EVENT_STA_START \<Rightarrow> (wifi_manager_set_state_helper WIFI_STATE_CONNECTING m, [Wifi_connect])
      | WIFI_EVENT_STA_DISCONNECTED \<Rightarrow> wifi_manager_trigger_reconnect (wifi_manager_set_state_helper WIFI_STATE_DISCONNECTED m)
      | WIFI_EVENT_OTHER \<Rightarrow> (m, [])
      | IP_EVENT_STA_GOT_IP \<Rightarrow>
          ((wifi_manager_set_state_helper WIFI_STATE_CONNECTED m)\<lparr>reconnect_timeout_us := WIFI_MANAGE_MINIMUM_RECONNECT_TIMEOUT_US\<rparr>, [])
      | IP_EVENT_OTHER \<Rightarrow> (m, []))"

text \<open>The timer's callback; the connection attempt is asynchronous, its events come later.\<close>

definition reconnect_timer_callback :: "wifi_manager \<Rightarrow> wifi_manager \<times> wifi_call list" where
  "reconnect_timer_callback m =
     (let c1 = (if wifi_manager_get_state m \<noteq> WIFI_STATE_CONNECTED then [Wifi_connect] else []);
          s = wifi_manager_get_state m
      in if s = WIFI_STATE_DISCONNECTED \<or> s = WIFI_STATE_CONNECTING
         then let (m, c2) = wifi_manager_trigger_reconnect m in (m, c1 @ c2)
         else (m, c1))"

text \<open>\<open>stopped\<close> is the outcome of stopping the Wi-Fi driver.\<close>

definition wifi_manager_deinit :: "esp_err \<Rightarrow> wifi_manager \<Rightarrow> wifi_manager \<times> wifi_call list" where
  "wifi_manager_deinit stopped m =
     (m\<lparr>reconnect_timer := False, ip_event_ctx := False, wifi_event_ctx := False, wifi_state_lock := False\<rparr>,
      (if reconnect_timer m then [Timer_stop, Timer_delete] else [])
      @ Wifi_stop # (if stopped = ESP_OK then [Wifi_deinit] else [])
      @ (if ip_event_ctx m then [Unregister_ip_events] else [])
      @ (if wifi_event_ctx m then [Unregister_wifi_events] else []))"

text \<open>The calls of the initialisation in order; the first that fails ends them.\<close>

fun wifi_init_steps :: "(wifi_call \<Rightarrow> esp_err) \<Rightarrow> wifi_call list \<Rightarrow> wifi_manager \<Rightarrow> esp_err \<times> wifi_manager \<times> wifi_call list" where
  "wifi_init_steps outcome [] m = (ESP_OK, m, [])"
| "wifi_init_steps outcome (c # cs) m =
     (if outcome c \<noteq> ESP_OK then (outcome c, m, [c])
      else let m = (if c = Register_wifi_events then m\<lparr>wifi_event_ctx := True\<rparr>
                    else if c = Register_ip_events then m\<lparr>ip_event_ctx := True\<rparr>
                    else if c = Timer_create then m\<lparr>reconnect_timer := True\<rparr> else m);
               (err, m, calls) = wifi_init_steps outcome cs m
           in (err, m, c # calls))"

definition wifi_manager_init ::
    "bool \<Rightarrow> (wifi_call \<Rightarrow> esp_err) \<Rightarrow> bool \<Rightarrow> wifi_manager \<Rightarrow> esp_err \<times> wifi_manager \<times> wifi_call list" where
  "wifi_manager_init mutex outcome has_config m =
     (let (err, m, calls) =
            (if \<not> has_config then (ESP_ERR_INVALID_ARG, m, [])
             else let m = m\<lparr>wifi_state_lock := mutex\<rparr>
               in if \<not> mutex then (ESP_ERR_NO_MEM, m, [])
                  else wifi_init_steps outcome
                    [Netif_init, Event_loop_create, Netif_create_default_sta, Wifi_init, Register_wifi_events, Register_ip_events,
                     Wifi_set_storage_ram, Wifi_set_mode_sta, Wifi_set_config, Wifi_start, Timer_create] m)
      in if err \<noteq> ESP_OK then let (m, undo) = wifi_manager_deinit (outcome Wifi_stop) m in (err, m, calls @ undo)
         else (ESP_OK, m, calls))"

section \<open>Facts\<close>

lemma trigger_reconnect_armed:
  assumes "reconnect_timer m" and "reconnect_timeout_us m \<le> 60000000"
  shows "wifi_manager_trigger_reconnect m = (m\<lparr>reconnect_timeout_us := min 60000000 (2 * reconnect_timeout_us m)\<rparr>,
    [Timer_stop, Timer_start_once (min 60000000 (2 * reconnect_timeout_us m))])"
  using assms by (simp add: wifi_manager_trigger_reconnect_def WIFI_MANAGE_MAXIMUM_RECONNECT_TIMEOUT_US_def min_def Let_def mult.commute)

text \<open>A failed attempt: the timer fires and asks for a connection, and the answer is a disconnection.\<close>

definition failed_attempt :: "wifi_manager \<Rightarrow> wifi_manager \<times> wifi_call list" where
  "failed_attempt m =
     (let (m, c1) = reconnect_timer_callback m; (m, c2) = wifi_event_handler WIFI_EVENT_STA_DISCONNECTED m in (m, c1 @ c2))"

definition waiting :: "nat \<Rightarrow> wifi_manager \<Rightarrow> bool" where
  "waiting t m \<longleftrightarrow> reconnect_timer m \<and> wifi_state_lock m \<and> wifi_manager_state m = WIFI_STATE_DISCONNECTED \<and> reconnect_timeout_us m = t"

lemma failed_attempt_waiting:
  assumes "waiting t m" and "t \<le> 60000000"
  shows "waiting (min 60000000 (4 * t)) (fst (failed_attempt m))
    \<and> snd (failed_attempt m) = [Wifi_connect, Timer_stop, Timer_start_once (min 60000000 (2 * t)), Timer_stop,
        Timer_start_once (min 60000000 (4 * t))]"
proof -
  have "min 60000000 (2 * min 60000000 (2 * t)) = min 60000000 (4 * t)" by simp
  with assms show ?thesis
    by (simp add: waiting_def failed_attempt_def reconnect_timer_callback_def wifi_event_handler_def trigger_reconnect_armed
        wifi_manager_get_state_def wifi_manager_set_state_helper_def)
qed

section \<open>Properties\<close>

text \<open>
  C31. The delay between attempts. A connection that is lost after it had an address is retried
  after 2 seconds, not after the minimum of 1 second, and every failed attempt multiplies the
  delay by 4, because the timer's callback and the disconnection event both double it: after
  \<open>k\<close> failed attempts the timer is armed with \<open>min 60 (2 * 4 ^ k)\<close> seconds.
\<close>

theorem wifi_backoff:
  assumes "reconnect_timer m" and "wifi_state_lock m"
  shows "snd (wifi_event_handler WIFI_EVENT_STA_DISCONNECTED (fst (wifi_event_handler IP_EVENT_STA_GOT_IP m)))
      = [Timer_stop, Timer_start_once 2000000]
    \<and> reconnect_timeout_us (((\<lambda>m. fst (failed_attempt m)) ^^ k)
        (fst (wifi_event_handler WIFI_EVENT_STA_DISCONNECTED (fst (wifi_event_handler IP_EVENT_STA_GOT_IP m)))))
      = min 60000000 (2000000 * 4 ^ k)"
proof -
  let ?m = "fst (wifi_event_handler WIFI_EVENT_STA_DISCONNECTED (fst (wifi_event_handler IP_EVENT_STA_GOT_IP m)))"
  have m: "waiting 2000000 ?m" "snd (wifi_event_handler WIFI_EVENT_STA_DISCONNECTED (fst (wifi_event_handler IP_EVENT_STA_GOT_IP m)))
      = [Timer_stop, Timer_start_once 2000000]"
    using assms by (simp_all add: waiting_def wifi_event_handler_def wifi_manager_set_state_helper_def
        trigger_reconnect_armed WIFI_MANAGE_MINIMUM_RECONNECT_TIMEOUT_US_def)
  have "waiting (min 60000000 (2000000 * 4 ^ k)) (((\<lambda>m. fst (failed_attempt m)) ^^ k) ?m)"
  proof (induction k)
    case 0
    from m(1) show ?case by simp
  next
    case (Suc k)
    have "min 60000000 (4 * min 60000000 (2000000 * 4 ^ k)) = min 60000000 (2000000 * 4 ^ Suc k :: nat)" by simp
    with failed_attempt_waiting [OF Suc] show ?case by simp
  qed
  with m(2) show ?thesis by (simp add: waiting_def)
qed

definition wifi_example :: wifi_manager where
  "wifi_example = \<lparr>wifi_state_lock = True, wifi_manager_state = WIFI_STATE_CONNECTING, reconnect_timer = True,
     reconnect_timeout_us = 1000000, wifi_event_ctx = True, ip_event_ctx = True\<rparr>"

lemma wifi_backoff_witness:
  "reconnect_timeout_us (((\<lambda>m. fst (failed_attempt m)) ^^ 2)
     (fst (wifi_event_handler WIFI_EVENT_STA_DISCONNECTED (fst (wifi_event_handler IP_EVENT_STA_GOT_IP wifi_example))))) = 32000000"
  using wifi_backoff [of wifi_example 2] by (simp add: wifi_example_def)

end
