(* ===== verification/Debug_Pins.thy ===== *)
theory Debug_Pins imports Prelude begin

text \<open>
  The debug pins, \<open>components/debug_pins/debug_pins.c\<close>: their configuration as outputs at the low
  level. \<open>enabled\<close> is the build option; the outcomes of the two GPIO calls are arguments, the
  calls made are part of the result.
\<close>

definition pins_list :: "nat list" where
  "pins_list = [6, 7, 8, 9]"

datatype pin_call = Gpio_config "64 word" | Gpio_set_low nat

fun pins_bit_mask :: "nat list \<Rightarrow> 64 word \<Rightarrow> 64 word" where
  "pins_bit_mask [] acc = acc"
| "pins_bit_mask (pin # pins) acc = pins_bit_mask pins (acc OR push_bit pin 1)"

fun pins_clear_loop :: "(nat \<Rightarrow> esp_err) \<Rightarrow> nat list \<Rightarrow> esp_err \<times> pin_call list" where
  "pins_clear_loop outcome [] = (ESP_OK, [])"
| "pins_clear_loop outcome (pin # pins) =
     (if outcome pin \<noteq> ESP_OK then (outcome pin, [Gpio_set_low pin])
      else let (err, calls) = pins_clear_loop outcome pins in (err, Gpio_set_low pin # calls))"

definition init_debug_pins :: "bool \<Rightarrow> esp_err \<Rightarrow> (nat \<Rightarrow> esp_err) \<Rightarrow> esp_err \<times> pin_call list" where
  "init_debug_pins enabled configured outcome =
     (if \<not> enabled then (ESP_OK, [])
      else let config_call = Gpio_config (pins_bit_mask pins_list 0)
        in if configured \<noteq> ESP_OK then (configured, [config_call])
           else let (err, calls) = pins_clear_loop outcome pins_list in (err, config_call # calls))"

text \<open>The mask has exactly the bits of the pins.\<close>

lemma bit_pins_bit_mask:
  "bit (pins_bit_mask pins acc) n \<longleftrightarrow> bit acc n \<or> (n < 64 \<and> n \<in> set pins)"
proof (induction pins arbitrary: acc)
  case (Cons pin pins)
  have "bit (push_bit pin 1 :: 64 word) n \<longleftrightarrow> n < 64 \<and> n = pin"
    by (auto simp: bit_push_bit_iff bit_1_iff simp del: push_bit_of_1)
  with Cons show ?case by (auto simp: bit_or_iff)
qed simp

lemma pins_mask_value: "bit (pins_bit_mask pins_list 0) n \<longleftrightarrow> n \<in> {6, 7, 8, 9}"
  by (subst bit_pins_bit_mask) (auto simp: pins_list_def)

lemma init_debug_pins_ok:
  "(\<forall>pin. outcome pin = ESP_OK) \<Longrightarrow>
   init_debug_pins True ESP_OK outcome = (ESP_OK, Gpio_config (pins_bit_mask pins_list 0) # map Gpio_set_low pins_list)"
  by (simp add: init_debug_pins_def pins_list_def)

end
