(* ===== verification/Firmware.thy ===== *)
theory Firmware imports Store_Forward Blackbox_Search Controller Wifi_Manager Debug_Pins begin

text \<open>
  The whole firmware: the state of all modules in one record, the operations of the modules as the
  components of the controller, and the start from power-up to the data path. The environment is
  what the operating system, the drivers and the build options contribute to a start.
\<close>

section \<open>State and environment\<close>

record ('r, 'q, 'l, 'g, 'e, 'b, 'f, 'd) firmware =
  fw_vault :: "('r, 'q, 'l, 'g, 'e, 'f) vault"
  fw_bus :: "('b, u32 list) event_bus"
  fw_counters :: "u32 list"
  fw_store :: "'d nvs_manager"
  fw_driver :: 'd
  fw_config :: "'f system_config"
  fw_wifi :: wifi_manager

record ('r, 'q, 'l, 'g, 'e, 'b, 'd) environment =
  build_options :: kconfig
  device_id_option :: string
  nvs_functions :: "'d nvs_manager_ops"
  nvs_mutex :: bool
  nvs_load_lock :: bool
  nvs_deinit_lock :: bool
  sync_timer_created :: esp_err
  sync_timer_started :: esp_err
  config_locks :: "nat \<Rightarrow> bool"
  log_partition :: "nat option"
  provisioner_started :: esp_err
  certs_partition :: "bytes option"
  certs_mapped :: esp_err
  save_timer_created :: esp_err
  save_timer_started :: esp_err
  wifi_mutex :: bool
  wifi_outcome :: "wifi_call \<Rightarrow> esp_err"
  pool_mutex :: bool
  create_bus_queue :: "nat \<Rightarrow> nat \<Rightarrow> 'b option"
  uart_installed :: "esp_err \<times> 'e option"
  uart_errors :: "esp_err \<times> esp_err \<times> esp_err \<times> esp_err \<times> esp_err"
  create_events_queue :: "nat \<Rightarrow> 'r option"
  create_frames_queue :: "nat \<Rightarrow> 'q option"
  telemetry_mutex :: bool
  mqtt_mutex :: bool
  mqtt_client_created :: bool
  mqtt_registered :: esp_err
  mqtt_started :: esp_err
  create_live_queue :: "nat \<Rightarrow> 'l option"
  metrics_timer_created :: bool
  metrics_timer_started :: bool
  logger_over_old :: bool
  logger_write_mutex :: bool
  logger_sector_mutex :: bool
  logger_timer_created :: esp_err
  logger_lock :: bool
  logger_second_lock :: bool
  create_logging_queue :: "nat \<Rightarrow> 'g option"

section \<open>The modules as components\<close>

text \<open>No MQTT event arrives while the client is being started.\<close>

definition firmware_bridge :: "('r, 'q, 'l, 'g, 'e, 'b, 'd) environment \<Rightarrow> mqtt_bridge \<Rightarrow> esp_err \<times> mqtt_bridge" where
  "firmware_bridge E b =
     (let (err, b, _) = mqtt_bridge_init (mqtt_mutex E) (mqtt_client_created E) (mqtt_registered E) (mqtt_started E) [] (Some True) b
      in (err, b))"

definition firmware_pipeline_init where
  "firmware_pipeline_init E w =
     map_option (\<lambda>(ok, t, _). (ok, w\<lparr>fw_vault := (fw_vault w)\<lparr>v_pipeline := t\<rparr>\<rparr>))
       (telemetry_pipeline_init (uart_installed E) (uart_errors E) (create_events_queue E) (create_frames_queue E)
         (system_config_get_modbus_analyzer_config (fw_config w)) True (v_pipeline (fw_vault w)))"

definition firmware_telemetry_init where
  "firmware_telemetry_init E w =
     (let (ok, s) = telemetry_service_init (telemetry_mutex E) (firmware_bridge E) (create_live_queue E) (metrics_timer_created E)
            (metrics_timer_started E) (Some (Some (device_id_option E))) True (v_telemetry (fw_vault w))
      in Some (ok, w\<lparr>fw_vault := (fw_vault w)\<lparr>v_telemetry := s\<rparr>\<rparr>))"

definition firmware_logger_init where
  "firmware_logger_init E w =
     map_option (\<lambda>(ok, s, f). (ok, w\<lparr>fw_vault := (fw_vault w)\<lparr>v_logger := s, v_flash := f\<rparr>\<rparr>))
       (logger_service_init
         (blackbox_logger_init (logger_over_old E) (logger_write_mutex E) (logger_sector_mutex E) (logger_timer_created E)
           (logger_lock E) (logger_second_lock E))
         (create_logging_queue E) (Some (system_config_get_blackbox_logger_config (fw_config w))) True
         (v_logger (fw_vault w)) (v_flash (fw_vault w)))"

definition firmware_nvs_init where
  "firmware_nvs_init E w =
     map_option (\<lambda>(err, m, d). (err, w\<lparr>fw_store := m, fw_driver := d\<rparr>))
       (nvs_manager_init (nvs_mutex E) (nvs_load_lock E) (sync_timer_created E) (sync_timer_started E) (nvs_deinit_lock E)
         (Some (nvs_functions E)) (fw_store w) (fw_driver w))"

definition firmware_config_setup where
  "firmware_config_setup E w =
     map_option (\<lambda>(err, g). (err, w\<lparr>fw_config := g\<rparr>))
       (system_config_setup (build_options E) (config_locks E) (log_partition E) (provisioner_started E) (certs_partition E)
         (certs_mapped E) (save_timer_created E) (save_timer_started E) (fw_store w) (fw_config w))"

definition firmware_components ::
    "('r, 'q, 'l, 'g, 'e, 'b, 'd) environment \<Rightarrow> ('r, 'q, 'l, 'g, 'e, 'b, 'f, 'd) firmware system_components" where
  "firmware_components E =
     \<lparr>c_setup_defaults = (\<lambda>w. map_option (\<lambda>(err, m). (err, w\<lparr>fw_store := m\<rparr>))
        (system_config_setup_defaults (build_options E) (fw_store w))),
      c_nvs_init = firmware_nvs_init E,
      c_config_setup = firmware_config_setup E,
      c_wifi_init = (\<lambda>w. let (err, m, _) = wifi_manager_init (wifi_mutex E) (wifi_outcome E) True (fw_wifi w)
        in Some (err, w\<lparr>fw_wifi := m\<rparr>)),
      c_slab_init = (\<lambda>w. let (err, p) = slab_pool_init (pool_mutex E) (v_pool (fw_vault w))
        in Some (err, w\<lparr>fw_vault := (fw_vault w)\<lparr>v_pool := p\<rparr>\<rparr>)),
      c_event_bus_init = (\<lambda>n w. let (err, b) = event_bus_init (create_bus_queue E) n (fw_bus w) in Some (err, w\<lparr>fw_bus := b\<rparr>)),
      c_metrics_init = (\<lambda>w. let (err, b, c) = metrics_init (fw_bus w) (fw_counters w) in Some (err, w\<lparr>fw_bus := b, fw_counters := c\<rparr>)),
      c_pipeline_init = firmware_pipeline_init E,
      c_telemetry_init = firmware_telemetry_init E,
      c_logger_init = firmware_logger_init E,
      c_telemetry_deinit = (\<lambda>w. Some (w\<lparr>fw_vault := (fw_vault w)\<lparr>v_telemetry := telemetry_service_deinit (v_telemetry (fw_vault w))\<rparr>\<rparr>)),
      c_logger_deinit = (\<lambda>w. map_option (\<lambda>(s, f). w\<lparr>fw_vault := (fw_vault w)\<lparr>v_logger := s, v_flash := f\<rparr>\<rparr>)
        (logger_service_deinit (logger_over_old E) (logger_lock E) (v_logger (fw_vault w)) (v_flash (fw_vault w)))),
      c_pipeline_deinit = (\<lambda>w. Some (w\<lparr>fw_vault := (fw_vault w)\<lparr>v_pipeline := fst (telemetry_pipeline_deinit (v_pipeline (fw_vault w)))\<rparr>\<rparr>)),
      c_wifi_deinit = (\<lambda>w. Some (w\<lparr>fw_wifi := fst (wifi_manager_deinit (wifi_outcome E Wifi_stop) (fw_wifi w))\<rparr>)),
      c_event_bus_deinit = (\<lambda>w. Some (w\<lparr>fw_bus := event_bus_deinit (fw_bus w)\<rparr>)),
      c_slab_deinit = (\<lambda>w. Some (w\<lparr>fw_vault := (fw_vault w)\<lparr>v_pool := slab_pool_deinit (v_pool (fw_vault w))\<rparr>\<rparr>)),
      c_config_reset = (\<lambda>w. Some (w\<lparr>fw_config := system_config_reset (build_options E) (fw_config w)\<rparr>)),
      c_nvs_deinit = (\<lambda>w. map_option (\<lambda>(m, d). w\<lparr>fw_store := m, fw_driver := d\<rparr>)
        (nvs_manager_deinit (nvs_deinit_lock E) (fw_store w) (fw_driver w)))\<rparr>"

text \<open>
  The creation of a task sets its handle; a fresh task has no pending notification. The bus task
  and the driver task take no part in the data path.
\<close>

definition firmware_task_created where
  "firmware_task_created i w =
     (let v = fw_vault w
      in if i = (1 :: nat) then w\<lparr>fw_vault := v\<lparr>v_pipeline := (v_pipeline v)\<lparr>telemetry_pipeline_task_handle := Some 0\<rparr>\<rparr>\<rparr>
         else if i = 2 then w\<lparr>fw_vault := v\<lparr>v_telemetry := (v_telemetry v)\<lparr>telemetry_service_task_handle := Some 0\<rparr>\<rparr>\<rparr>
         else if i = 3 then w\<lparr>fw_vault := v\<lparr>v_logger := (v_logger v)\<lparr>logger_service_task_handle := Some 0\<rparr>\<rparr>\<rparr>
         else if i = 4 then w\<lparr>fw_vault := v\<lparr>v_pipeline := (v_pipeline v)\<lparr>analyzer :=
           (analyzer (v_pipeline v))\<lparr>modbus_analyzer_task_handle := Some 0\<rparr>\<rparr>\<rparr>\<rparr>
         else w)"

fun firmware_tasks_created where
  "firmware_tasks_created [] w = w"
| "firmware_tasks_created (Task_create i # calls) w = firmware_tasks_created calls (firmware_task_created i w)"
| "firmware_tasks_created (_ # calls) w = firmware_tasks_created calls w"

text \<open>
  The entry of the program, \<open>main/modbus_vault.c\<close>: the debug pins, whose failure is only logged, and
  the controller's loop up to its first turn.
\<close>

definition app_main where
  "app_main enabled configured outcome mutex got_lock1 got_lock2 w =
     (let (err, calls) = init_debug_pins enabled configured outcome
      in (calls, controller_enter mutex got_lock1 got_lock2 (controller_power_up w)))"

section \<open>Power-up\<close>

text \<open>What the program starts with, as far as a start looks at it.\<close>

definition powered_up where
  "powered_up E w \<longleftrightarrow>
     fw_store w = nvs_power_up \<and> (\<exists>logger. fw_config w = global_config (build_options E) logger)
     \<and> v_pool (fw_vault w) = slab_pool_static
     \<and> slab_ptr (analyzer_slicer (analyzer (v_pipeline (fw_vault w)))) = None"

text \<open>Options that fit into the store, for the manual setting of the Wi-Fi and without certificates.\<close>

definition options_ok :: "kconfig \<Rightarrow> bool" where
  "options_ok k \<longleftrightarrow> length (wifi_ssid_option k) < 32 \<and> length (wifi_password_option k) < 64 \<and> length (mqtt_uri_option k) < 128
     \<and> length (mqtt_user_option k) < 64 \<and> length (mqtt_password_option k) < 64 \<and> 0 < uart_baudrate_option k
     \<and> \<not> use_provisioning k \<and> \<not> mqtt_transport_secure k"

text \<open>Every resource is there and every call to the outside succeeds; a new queue is empty.\<close>

definition storage_answers where
  "storage_answers E d err c \<longleftrightarrow>
     (\<exists>init_func open_func erase_func rd d1 h d2.
        nvs_init (nvs_functions E) = Some init_func \<and> nvs_open (nvs_functions E) = Some open_func
      \<and> nvs_erase (nvs_functions E) = Some erase_func \<and> nvs_read (nvs_functions E) = Some rd
      \<and> init_func d = (ESP_OK, d1) \<and> open_func d1 = (ESP_OK, h, d2) \<and> 0 < h
      \<and> rd h (replicate SIZEOF_APP_CONFIG 0) d2 = (err, c) \<and> length c = 372)"

definition storage_ok where
  "storage_ok E d \<longleftrightarrow> (\<exists>err c. storage_answers E d err c)"

text \<open>A storage that holds no configuration of this version, as on a new device.\<close>

definition storage_fresh where
  "storage_fresh E d \<longleftrightarrow>
     (\<exists>err c. storage_answers E d err c \<and> (err = ESP_OK \<longrightarrow> config_version c \<noteq> NVS_MANAGER_CONFIG_VERSION))"

definition environment_ok where
  "environment_ok E I \<longleftrightarrow>
     options_ok (build_options E) \<and> length (device_id_option E) \<le> 105
   \<and> nvs_mutex E \<and> nvs_load_lock E \<and> sync_timer_created E = ESP_OK \<and> sync_timer_started E = ESP_OK
   \<and> save_timer_created E = ESP_OK \<and> save_timer_started E = ESP_OK
   \<and> wifi_mutex E \<and> (\<forall>c. wifi_outcome E c = ESP_OK) \<and> pool_mutex E
   \<and> (\<forall>n sz. create_bus_queue E n sz \<noteq> None)
   \<and> fst (uart_installed E) = ESP_OK \<and> uart_errors E = (ESP_OK, ESP_OK, ESP_OK, ESP_OK, ESP_OK)
   \<and> (\<forall>n. \<exists>q. create_events_queue E n = Some q \<and> events_of I q = [])
   \<and> (\<forall>n. \<exists>q. create_frames_queue E n = Some q \<and> frames_of I q = [])
   \<and> telemetry_mutex E \<and> mqtt_mutex E \<and> mqtt_client_created E \<and> mqtt_registered E = ESP_OK \<and> mqtt_started E = ESP_OK
   \<and> (\<forall>n. \<exists>q. create_live_queue E n = Some q \<and> live_of I q = [])
   \<and> metrics_timer_created E \<and> metrics_timer_started E
   \<and> logger_write_mutex E \<and> logger_sector_mutex E \<and> logger_timer_created E = ESP_OK
   \<and> (\<forall>n. \<exists>q. create_logging_queue E n = Some q \<and> logging_of I q = [])"

text \<open>The position that a new device starts with.\<close>

definition position_zero :: "blackbox_logger_parameters \<Rightarrow> bool" where
  "position_zero p \<longleftrightarrow> param_write_offset p = 0 \<and> param_replay_offset p = 0 \<and> param_last_id p = 0"

definition position_possible where
  "position_possible E w p \<longleftrightarrow> (storage_fresh E (fw_driver w) \<and> (\<forall>i. config_locks E i) \<longrightarrow> position_zero p)"

text \<open>
  The logger's initialisation from the flash and a position, and that its search ends, whatever
  position was stored; on a new device it is zero.
\<close>

definition log_init where
  "log_init E w p =
     blackbox_logger_init (logger_over_old E) True True ESP_OK (logger_lock E) (logger_second_lock E) (blackbox (v_logger (fw_vault w)))
       (Some ((config_logger (fw_config w))\<lparr>partition_size := log_partition E, parameters := p, on_replay_available_func := True\<rparr>))
       (v_flash (fw_vault w))"

definition logger_searchable where
  "logger_searchable E w \<longleftrightarrow> (\<forall>p. position_possible E w p \<longrightarrow> log_init E w p \<noteq> None)"

section \<open>The steps of the start\<close>

lemma set_default_ok:
  assumes "\<not> config_lock m" and "length (default_config m) = 372" and "find_map_helper key = Some e" and "length value \<le> map_size e"
  shows "\<exists>c. nvs_manager_set_default key (Some value) (length value) m = Some (ESP_OK, m\<lparr>default_config := c\<rparr>) \<and> length c = 372
    \<and> config_values c = (config_values (default_config m))(key \<mapsto> value @ replicate (map_size e - length value) 0)"
  using store_value_values [OF assms(2-4) order_refl] assms by (auto simp: nvs_manager_set_default_def)

text \<open>Afterwards each key has its value; a key that is not in the list keeps what it had.\<close>

lemma set_defaults_ok:
  assumes "\<not> config_lock m" and "length (default_config m) = 372"
    and "\<forall>(key, value) \<in> set kvs. \<exists>e. find_map_helper key = Some e \<and> length value \<le> map_size e"
  shows "\<exists>c. set_defaults kvs m = Some (ESP_OK, m\<lparr>default_config := c\<rparr>) \<and> length c = 372
    \<and> (\<forall>key. key \<notin> fst ` set kvs \<longrightarrow> config_values c key = config_values (default_config m) key)
    \<and> (distinct (map fst kvs) \<longrightarrow> (\<forall>(key, value) \<in> set kvs. \<forall>e. find_map_helper key = Some e \<and> length value = map_size e
        \<longrightarrow> config_values c key = Some value))"
  using assms
proof (induction kvs arbitrary: m)
  case Nil
  then show ?case by (intro exI [of _ "default_config m"]) simp
next
  case (Cons kv kvs)
  obtain key v where kv: "kv = (key, v)" by (cases kv)
  then obtain e where e: "find_map_helper key = Some e" "length v \<le> map_size e" using Cons.prems(3) by auto
  from set_default_ok [OF Cons.prems(1,2) this] obtain c where c:
    "nvs_manager_set_default key (Some v) (length v) m = Some (ESP_OK, m\<lparr>default_config := c\<rparr>)" "length c = 372"
    "config_values c = (config_values (default_config m))(key \<mapsto> v @ replicate (map_size e - length v) 0)" by blast
  have "\<forall>(key, value) \<in> set kvs. \<exists>e. find_map_helper key = Some e \<and> length value \<le> map_size e" using Cons.prems(3) by simp
  with Cons.IH [of "m\<lparr>default_config := c\<rparr>"] Cons.prems(1) c(2)
  obtain c' where c': "set_defaults kvs (m\<lparr>default_config := c\<rparr>) = Some (ESP_OK, m\<lparr>default_config := c, default_config := c'\<rparr>)"
    "length c' = 372" "\<forall>key. key \<notin> fst ` set kvs \<longrightarrow> config_values c' key = config_values c key"
    "distinct (map fst kvs) \<longrightarrow> (\<forall>(key, value) \<in> set kvs. \<forall>e. find_map_helper key = Some e \<and> length value = map_size e
        \<longrightarrow> config_values c' key = Some value)"
    by auto
  have "config_values c' key = Some v" if "key \<notin> fst ` set kvs" "length v = map_size e"
    using c'(3) c(3) that by simp
  with kv c(1,3) c' e(1) show ?case by (intro exI [of _ c']) auto
qed

lemma setup_defaults_ok:
  assumes "options_ok k" and "\<not> config_lock m" and "length (default_config m) = 372"
  shows "\<exists>c. system_config_setup_defaults k m = Some (ESP_OK, m\<lparr>default_config := c\<rparr>) \<and> length c = 372
    \<and> config_values c NVS_MANAGER_KEYS_BB_WRITE_OFFSET = Some (le32 (of_nat 0))
    \<and> config_values c NVS_MANAGER_KEYS_BB_REPLAY_OFFSET = Some (le32 (of_nat 0))
    \<and> config_values c NVS_MANAGER_KEYS_BB_LAST_ID = Some (le32 (of_nat 0))"
proof -
  let ?p = blackbox_logger_default_parameters
  let ?kvs = "[(NVS_MANAGER_KEYS_WIFI_SSID, if use_manual_setting k then wifi_ssid_option k @ [0] else [0]),
         (NVS_MANAGER_KEYS_WIFI_PASS, if use_manual_setting k then wifi_password_option k @ [0] else [0]),
         (NVS_MANAGER_KEYS_MQTT_URI, mqtt_uri_option k @ [0]),
         (NVS_MANAGER_KEYS_MQTT_USER, mqtt_user_option k @ [0]),
         (NVS_MANAGER_KEYS_MQTT_PASS, mqtt_password_option k @ [0]),
         (NVS_MANAGER_KEYS_BB_WRITE_OFFSET, le32 (of_nat (param_write_offset ?p))),
         (NVS_MANAGER_KEYS_BB_REPLAY_OFFSET, le32 (of_nat (param_replay_offset ?p))),
         (NVS_MANAGER_KEYS_BB_LAST_ID, le32 (of_nat (param_last_id ?p)))]"
  have find: "\<exists>e. find_map_helper key = Some e \<and> length value \<le> map_size e" if "(key, value) \<in> set ?kvs" for key "value"
    using that assms(1) by (auto simp: find_map_helper_def config_map_def options_ok_def)
  have u32: "\<exists>e. find_map_helper key = Some e \<and> map_size e = 4"
    if "key \<in> {NVS_MANAGER_KEYS_BB_WRITE_OFFSET, NVS_MANAGER_KEYS_BB_REPLAY_OFFSET, NVS_MANAGER_KEYS_BB_LAST_ID}" for key
    using that by (auto simp: find_map_helper_def config_map_def)
  have dist: "distinct (map fst ?kvs)" by simp
  obtain c where c: "set_defaults ?kvs m = Some (ESP_OK, m\<lparr>default_config := c\<rparr>)" "length c = 372"
    "\<forall>(key, value) \<in> set ?kvs. \<forall>e. find_map_helper key = Some e \<and> length value = map_size e \<longrightarrow> config_values c key = Some value"
    using set_defaults_ok [OF assms(2,3), of ?kvs] find dist by blast
  have "system_config_setup_defaults k m = Some (ESP_OK, m\<lparr>default_config := c\<rparr>)"
    unfolding system_config_setup_defaults_def Let_def by (rule c(1))
  moreover have "config_values c key = Some value" if "(key, value) \<in> set ?kvs" "length value = 4"
    "key \<in> {NVS_MANAGER_KEYS_BB_WRITE_OFFSET, NVS_MANAGER_KEYS_BB_REPLAY_OFFSET, NVS_MANAGER_KEYS_BB_LAST_ID}" for key "value"
    using c(3) that(1,2) u32 [OF that(3)] by fastforce
  note val = this
  have "config_values c NVS_MANAGER_KEYS_BB_WRITE_OFFSET = Some (le32 (of_nat 0))"
    "config_values c NVS_MANAGER_KEYS_BB_REPLAY_OFFSET = Some (le32 (of_nat 0))"
    "config_values c NVS_MANAGER_KEYS_BB_LAST_ID = Some (le32 (of_nat 0))"
    by (rule val; simp add: blackbox_logger_default_parameters_def)+
  ultimately show ?thesis using c(2) by (intro exI [of _ c]) simp
qed

lemma nvs_start_ok:
  assumes "environment_ok E I" and "storage_ok E (fw_driver w)" and "app_config (fw_store w) = replicate SIZEOF_APP_CONFIG 0"
    and "length (default_config (fw_store w)) = 372"
  shows "\<exists>m d. firmware_nvs_init E w = Some (ESP_OK, w\<lparr>fw_store := m, fw_driver := d\<rparr>) \<and> config_lock m \<and> length (app_config m) = 372
    \<and> (storage_fresh E (fw_driver w) \<longrightarrow> config_values (app_config m) = config_values (default_config (fw_store w)))"
proof -
  obtain init_func open_func erase_func rd d1 h d2 err c where
    o: "nvs_init (nvs_functions E) = Some init_func" "nvs_open (nvs_functions E) = Some open_func"
      "nvs_erase (nvs_functions E) = Some erase_func" "nvs_read (nvs_functions E) = Some rd"
    and d: "init_func (fw_driver w) = (ESP_OK, d1)" "open_func d1 = (ESP_OK, h, d2)" "0 < h"
      "rd h (replicate SIZEOF_APP_CONFIG 0) d2 = (err, c)" "length c = 372"
    using assms(2) by (auto simp: storage_ok_def storage_answers_def)
  from nvs_started [OF o d(1-3) d(4) [folded assms(3)] d(5) assms(4), of "nvs_deinit_lock E"]
  obtain m where m: "nvs_manager_init True True ESP_OK ESP_OK (nvs_deinit_lock E) (Some (nvs_functions E)) (fw_store w) (fw_driver w)
      = Some (ESP_OK, m, d2)" "config_lock m"
    "if err = ESP_OK \<and> config_version c = 1 \<and> calculate_modbus_crc16 c 368 = Some (config_crc16 c) then app_config m = c
     else config_values (app_config m) = config_values (default_config (fw_store w)) \<and> length (app_config m) = 372" by blast
  have "length (app_config m) = 372" using m(3) d(5) by (auto split: if_splits)
  moreover have "config_values (app_config m) = config_values (default_config (fw_store w))" if "storage_fresh E (fw_driver w)"
    using that m(3) o d by (auto simp: storage_fresh_def storage_answers_def NVS_MANAGER_CONFIG_VERSION_def)
  moreover have "nvs_mutex E" "nvs_load_lock E" "sync_timer_created E = ESP_OK" "sync_timer_started E = ESP_OK"
    using assms(1) by (simp_all add: environment_ok_def)
  ultimately show ?thesis using m(1,2) by (intro exI [of _ m] exI [of _ d2]) (simp add: firmware_nvs_init_def)
qed

text \<open>A read into a buffer with room never leaves an object, whatever the lock.\<close>

lemma read_cfg_room:
  assumes "config_lock m" and "length (app_config m) = 372" and "find_map_helper key = Some e" and "map_size e \<le> length old"
  shows "\<exists>err bs. nvs_manager_read_cfg got_lock key (Some old) m = Some (err, Some bs) \<and> length bs = length old"
proof -
  have "map_offset e + map_size e \<le> 372"
    using config_map_bounds find_map_helper_Some [OF assms(3)] by force
  with assms show ?thesis by (simp add: nvs_manager_read_cfg_def buf_read_def buf_write_def)
qed

lemma read_cfg_bytes_room:
  assumes "config_lock m" and "length (app_config m) = 372" and "find_map_helper key = Some e" and "map_size e \<le> length old"
  shows "\<exists>bs. read_cfg_bytes got_lock key m old = Some bs"
  using read_cfg_room [OF assms, of got_lock] by (auto simp: read_cfg_bytes_def)

lemma read_cfg_u32_room:
  assumes "config_lock m" and "length (app_config m) = 372"
    and "key \<in> {NVS_MANAGER_KEYS_BB_WRITE_OFFSET, NVS_MANAGER_KEYS_BB_REPLAY_OFFSET, NVS_MANAGER_KEYS_BB_LAST_ID}"
  shows "\<exists>x. read_cfg_u32 got_lock key m old = Some x"
proof -
  obtain e where e: "find_map_helper key = Some e" "map_size e = 4"
    using assms(3) by (auto simp: find_map_helper_def config_map_def)
  then show ?thesis
    using read_cfg_room [OF assms(1,2) e(1), of "le32 (of_nat old)" got_lock] by (auto simp: read_cfg_u32_def)
qed

lemma load_logger_parameters_ok:
  assumes "config_lock m" and "length (app_config m) = 372"
  shows "\<exists>q. load_logger_parameters locks m p = Some q"
proof -
  obtain w r i where
    "read_cfg_u32 (locks 0) NVS_MANAGER_KEYS_BB_WRITE_OFFSET m (param_write_offset p) = Some w"
    "read_cfg_u32 (locks 1) NVS_MANAGER_KEYS_BB_REPLAY_OFFSET m (param_replay_offset p) = Some r"
    "read_cfg_u32 (locks 2) NVS_MANAGER_KEYS_BB_LAST_ID m (param_last_id p) = Some i"
    using read_cfg_u32_room [OF assms] by (metis insertCI)
  then show ?thesis by (simp add: load_logger_parameters_def)
qed

lemma load_position_zero:
  assumes "config_lock m" and "\<forall>i. locks i" and "load_logger_parameters locks m p = Some q"
    and "config_values (app_config m) NVS_MANAGER_KEYS_BB_WRITE_OFFSET = Some (le32 (of_nat 0))"
      "config_values (app_config m) NVS_MANAGER_KEYS_BB_REPLAY_OFFSET = Some (le32 (of_nat 0))"
      "config_values (app_config m) NVS_MANAGER_KEYS_BB_LAST_ID = Some (le32 (of_nat 0))"
  shows "position_zero q"
proof -
  have z: "(0 :: nat) < 4294967296" by simp
  from assms(2,3) read_u32_value [OF assms(1,4) z] read_u32_value [OF assms(1,5) z] read_u32_value [OF assms(1,6) z]
  show ?thesis by (auto simp: load_logger_parameters_def position_zero_def)
qed

lemma config_setup_ok:
  assumes "options_ok k" and "config_lock m" and "length (app_config m) = 372" and g: "g = global_config k logger"
  shows "\<exists>g' p. system_config_setup k locks part prov certs mapped ESP_OK ESP_OK m g = Some (ESP_OK, g')
    \<and> config_analyzer g' = \<lparr>rs485_driver_config_ptr = Some (config_rs485_driver g), on_frame_cb = False\<rparr>
    \<and> config_logger g' = (config_logger g)\<lparr>partition_size := part, parameters := p\<rparr>
    \<and> load_logger_parameters locks m (parameters (config_logger g)) = Some p"
proof -
  have len: "length (config_wifi_ssid g) = 32" "length (config_wifi_password g) = 64" "length (config_mqtt_uri g) = 128"
    "length (config_mqtt_user g) = 64" "length (config_mqtt_pass g) = 64" "config_analyzer g = \<lparr>rs485_driver_config_ptr = None, on_frame_cb = False\<rparr>"
    by (simp_all add: g global_config_def)
  obtain p where p: "load_logger_parameters locks m (parameters (config_logger g)) = Some p"
    using load_logger_parameters_ok [OF assms(2,3)] by blast
  note room = read_cfg_bytes_room [OF assms(2,3)]
  have keys: "find_map_helper NVS_MANAGER_KEYS_WIFI_SSID = Some \<lparr>map_key = NVS_MANAGER_KEYS_WIFI_SSID, map_offset = 4, map_size = 32\<rparr>"
    "find_map_helper NVS_MANAGER_KEYS_WIFI_PASS = Some \<lparr>map_key = NVS_MANAGER_KEYS_WIFI_PASS, map_offset = 36, map_size = 64\<rparr>"
    "find_map_helper NVS_MANAGER_KEYS_MQTT_URI = Some \<lparr>map_key = NVS_MANAGER_KEYS_MQTT_URI, map_offset = 100, map_size = 128\<rparr>"
    "find_map_helper NVS_MANAGER_KEYS_MQTT_USER = Some \<lparr>map_key = NVS_MANAGER_KEYS_MQTT_USER, map_offset = 228, map_size = 64\<rparr>"
    "find_map_helper NVS_MANAGER_KEYS_MQTT_PASS = Some \<lparr>map_key = NVS_MANAGER_KEYS_MQTT_PASS, map_offset = 292, map_size = 64\<rparr>"
    by (simp_all add: find_map_helper_def config_map_def)
  obtain ssid pass uri user mpass where b:
    "read_cfg_bytes (locks 3) NVS_MANAGER_KEYS_WIFI_SSID m (config_wifi_ssid g) = Some ssid"
    "read_cfg_bytes (locks 4) NVS_MANAGER_KEYS_WIFI_PASS m (config_wifi_password g) = Some pass"
    "read_cfg_bytes (locks 5) NVS_MANAGER_KEYS_MQTT_URI m (config_mqtt_uri g) = Some uri"
    "read_cfg_bytes (locks 6) NVS_MANAGER_KEYS_MQTT_USER m (config_mqtt_user g) = Some user"
    "read_cfg_bytes (locks 7) NVS_MANAGER_KEYS_MQTT_PASS m (config_mqtt_pass g) = Some mpass"
    using room [OF keys(1), of "config_wifi_ssid g" "locks 3"] room [OF keys(2), of "config_wifi_password g" "locks 4"]
      room [OF keys(3), of "config_mqtt_uri g" "locks 5"] room [OF keys(4), of "config_mqtt_user g" "locks 6"]
      room [OF keys(5), of "config_mqtt_pass g" "locks 7"] len by auto
  show ?thesis using p b len(6) assms(1) by (simp add: system_config_setup_def options_ok_def)
qed

lemma wifi_start_ok:
  assumes "\<forall>c. outcome c = ESP_OK"
  shows "\<exists>m' calls. wifi_manager_init True outcome True m = (ESP_OK, m', calls)"
  using assms by (simp add: wifi_manager_init_def)

lemma bus_start_ok:
  assumes "\<forall>n sz. create n sz \<noteq> None"
  shows "\<exists>b'. event_bus_init create EVENT_BUS_QUEUE_SIZE b = (ESP_OK, b') \<and> subscribers b' = zero_subscribers"
proof -
  obtain q where "create EVENT_BUS_QUEUE_SIZE SIZEOF_EVENT_BUS_EVENT_T = Some q" using assms by blast
  then show ?thesis by (simp add: event_bus_init_def EVENT_BUS_QUEUE_SIZE_def)
qed

text \<open>The state of the pipeline, the publishing and the storing side after their start.\<close>

definition pipeline_started where
  "pipeline_started I t \<longleftrightarrow>
     (\<exists>eq fq c cf. raw_events_queue (analyzer t) = Some eq \<and> events_of I eq = []
      \<and> raw_frame_queue t = Some fq \<and> frames_of I fq = []
      \<and> slab_ptr (analyzer_slicer (analyzer t)) = None
      \<and> slicer_config_ptr (analyzer_slicer (analyzer t)) = Some c \<and> on_frame_func c
      \<and> analyzer_config_ptr (analyzer t) = Some cf \<and> on_frame_cb cf \<and> record_ready_callback t)"

definition telemetry_started where
  "telemetry_started I s \<longleftrightarrow> (\<exists>q. live_queue s = Some q \<and> live_of I q = []) \<and> \<not> telemetry_service_is_online_flag s"

text \<open>The publishing side can go online, and has its topics.\<close>

definition service_ready :: "string \<Rightarrow> 'q telemetry_service \<Rightarrow> bool" where
  "service_ready device_id s \<longleftrightarrow> telemetry_service_state_lock s \<and> publish_replay_cb_func s
     \<and> client (telemetry_bridge s) \<and> connection_lock (telemetry_bridge s) \<and> notify_cb (telemetry_bridge s)
     \<and> topics s ! 1 = ''devices/'' @ device_id @ ''/modbus/replay'' \<and> topics_qos s ! 1 = 0"

definition logging_started where
  "logging_started I s \<longleftrightarrow> (\<exists>q. logging_queue s = Some q \<and> logging_of I q = [])"

lemma rs485_start_ok:
  assumes "fst installed = ESP_OK"
  shows "\<exists>d' calls. rs485_driver_init installed (ESP_OK, ESP_OK, ESP_OK, ESP_OK, ESP_OK) d (Some rc) = (ESP_OK, d', calls)"
  using assms by (cases installed) (simp add: rs485_driver_init_def Let_def split: prod.split)

lemma environment_queues:
  assumes "environment_ok E I"
  shows "fst (uart_installed E) = ESP_OK"
    and "\<exists>q. create_events_queue E n = Some q \<and> events_of I q = []"
    and "\<exists>q. create_frames_queue E n = Some q \<and> frames_of I q = []"
    and "\<exists>q. create_live_queue E n = Some q \<and> live_of I q = []"
    and "\<exists>q. create_logging_queue E n = Some q \<and> logging_of I q = []"
  using assms by (simp_all add: environment_ok_def)

lemma pipeline_start_ok:
  assumes "environment_ok E I" and "config_analyzer (fw_config w) = \<lparr>rs485_driver_config_ptr = Some rc, on_frame_cb = False\<rparr>"
    and "0 < rs485_baudrate rc" and "slab_ptr (analyzer_slicer (analyzer (v_pipeline (fw_vault w)))) = None"
  shows "\<exists>t. firmware_pipeline_init E w = Some (True, w\<lparr>fw_vault := (fw_vault w)\<lparr>v_pipeline := t\<rparr>\<rparr>) \<and> pipeline_started I t"
proof -
  obtain d calls where d: "rs485_driver_init (uart_installed E) (ESP_OK, ESP_OK, ESP_OK, ESP_OK, ESP_OK)
      (rs485_drv (analyzer (v_pipeline (fw_vault w)))) (Some (rc\<lparr>rs485_on_event_cb := True\<rparr>)) = (ESP_OK, d, calls)"
    using rs485_start_ok environment_queues(1) [OF assms(1)] by blast
  obtain eq fq where q: "create_events_queue E MODBUS_ANALYZER_EVENTS_QUEUE_SIZE = Some eq" "events_of I eq = []"
    "create_frames_queue E TELEMETRY_PIPELINE_RAW_FRAME_QUEUE_LENGTH = Some fq" "frames_of I fq = []"
    using environment_queues(2,3) [OF assms(1)] by blast
  have e: "uart_errors E = (ESP_OK, ESP_OK, ESP_OK, ESP_OK, ESP_OK)" using assms(1) by (simp add: environment_ok_def)
  have "\<exists>t calls. telemetry_pipeline_init (uart_installed E) (uart_errors E) (create_events_queue E) (create_frames_queue E)
      (config_analyzer (fw_config w)) True (v_pipeline (fw_vault w)) = Some (True, t, calls) \<and> pipeline_started I t"
    using assms(2-4) d q e
    by (simp add: telemetry_pipeline_init_def modbus_analyzer_init_def modbus_slicer_init_def pipeline_started_def Let_def)
  then obtain t calls where "telemetry_pipeline_init (uart_installed E) (uart_errors E) (create_events_queue E) (create_frames_queue E)
      (config_analyzer (fw_config w)) True (v_pipeline (fw_vault w)) = Some (True, t, calls)" "pipeline_started I t" by blast
  then show ?thesis
    by (intro exI [of _ t]) (simp add: firmware_pipeline_init_def system_config_get_modbus_analyzer_config_def)
qed

lemma mqtt_start_ok:
  assumes "environment_ok E I"
  shows "\<exists>b'. firmware_bridge E b = (ESP_OK, b') \<and> client b' \<and> connection_lock b' \<and> notify_cb b'"
  using assms by (simp add: firmware_bridge_def mqtt_bridge_init_def environment_ok_def)

lemma telemetry_start_ok:
  assumes "environment_ok E I"
  shows "\<exists>s. firmware_telemetry_init E w = Some (True, w\<lparr>fw_vault := (fw_vault w)\<lparr>v_telemetry := s\<rparr>\<rparr>) \<and> telemetry_started I s
    \<and> service_ready (device_id_option E) s"
proof -
  obtain b where b: "firmware_bridge E (telemetry_bridge (v_telemetry (fw_vault w))) = (ESP_OK, b)"
    "client b" "connection_lock b" "notify_cb b"
    using mqtt_start_ok [OF assms] by blast
  obtain q where q: "create_live_queue E TELEMETRY_SERVICE_LIVE_QUEUE_LENGTH = Some q" "live_of I q = []"
    using environment_queues(4) [OF assms] by blast
  have "\<forall>x \<in> set topic_suffixes. length (device_id_option E) + length x < 120"
    using assms by (auto simp: environment_ok_def topic_suffixes_def)
  then have g: "generate_topics_loop (device_id_option E) topic_suffixes
      = (ESP_OK, map (\<lambda>x. ''devices/'' @ device_id_option E @ x) topic_suffixes)" by (rule generate_topics_loop_ok)
  have env: "telemetry_mutex E" "metrics_timer_created E" "metrics_timer_started E" using assms by (simp_all add: environment_ok_def)
  have "\<exists>s. telemetry_service_init (telemetry_mutex E) (firmware_bridge E) (create_live_queue E) (metrics_timer_created E)
      (metrics_timer_started E) (Some (Some (device_id_option E))) True (v_telemetry (fw_vault w)) = (True, s) \<and> telemetry_started I s
      \<and> service_ready (device_id_option E) s"
    using b q g env
    by (simp add: telemetry_service_init_def generate_topics_internal_def telemetry_started_def service_ready_def topic_suffixes_def)
  then obtain s where "telemetry_service_init (telemetry_mutex E) (firmware_bridge E) (create_live_queue E) (metrics_timer_created E)
      (metrics_timer_started E) (Some (Some (device_id_option E))) True (v_telemetry (fw_vault w)) = (True, s)" "telemetry_started I s"
      "service_ready (device_id_option E) s" by blast
  then show ?thesis by (intro exI [of _ s]) (simp add: firmware_telemetry_init_def)
qed

text \<open>The storing side after its start from the position \<open>p\<close>.\<close>

definition log_begun where
  "log_begun E w p s \<longleftrightarrow> log_init E w p = Some (BLACKBOX_LOGGER_OK, blackbox s, v_flash (fw_vault w))"

lemma log_init_ok:
  assumes "log_init E w p \<noteq> None"
  shows "\<exists>lg. log_init E w p = Some (BLACKBOX_LOGGER_OK, lg, v_flash (fw_vault w))"
  using assms by (auto simp: log_init_def blackbox_logger_init_def esp_to_blackbox_error_map_def bind_eq_Some_conv)

lemma logger_start_ok:
  assumes "environment_ok E I" and "log_init E w0 p \<noteq> None" and "v_flash (fw_vault w) = v_flash (fw_vault w0)"
    and "config_logger (fw_config w) = (config_logger (fw_config w0))\<lparr>partition_size := log_partition E, parameters := p\<rparr>"
    and "v_logger (fw_vault w) = v_logger (fw_vault w0)"
  shows "\<exists>s. firmware_logger_init E w = Some (True, w\<lparr>fw_vault := (fw_vault w)\<lparr>v_logger := s\<rparr>\<rparr>) \<and> logging_started I s
    \<and> log_begun E w0 p s"
proof -
  obtain q where q: "create_logging_queue E LOGGER_SERVICE_LOGGING_QUEUE_LENGTH = Some q" "logging_of I q = []"
    using environment_queues(5) [OF assms(1)] by blast
  have env: "logger_write_mutex E = True" "logger_sector_mutex E = True" "logger_timer_created E = ESP_OK"
    using assms(1) by (simp_all add: environment_ok_def)
  obtain lg where i: "log_init E w0 p = Some (BLACKBOX_LOGGER_OK, lg, v_flash (fw_vault w0))" using log_init_ok [OF assms(2)] by blast
  let ?s = "(v_logger (fw_vault w))\<lparr>blackbox := lg, logging_queue := Some q\<rparr>"
  have "firmware_logger_init E w = Some (True, w\<lparr>fw_vault := (fw_vault w)\<lparr>v_logger := ?s, v_flash := v_flash (fw_vault w)\<rparr>\<rparr>)"
    using i q(1) env unfolding log_init_def assms(3-5) [symmetric]
    by (simp add: firmware_logger_init_def system_config_get_blackbox_logger_config_def logger_service_init_def assms(4))
  moreover have "(fw_vault w)\<lparr>v_logger := ?s, v_flash := v_flash (fw_vault w)\<rparr> = (fw_vault w)\<lparr>v_logger := ?s\<rparr>" by simp
  moreover have "logging_started I ?s" "log_begun E w0 p ?s" using q i by (simp_all add: logging_started_def log_begun_def)
  ultimately show ?thesis by metis
qed

section \<open>The start\<close>

lemma init_loop_step:
  "s \<noteq> INIT_STEP_COMPLETE \<Longrightarrow> init_step_run C s w = Some (ESP_OK, w') \<Longrightarrow> system_init_loop C s w = system_init_loop C (init_step_next s) w'"
  by (simp add: system_init_loop.simps [of C s w])

definition firmware_started where
  "firmware_started I w \<longleftrightarrow> pipeline_started I (v_pipeline (fw_vault w)) \<and> telemetry_started I (v_telemetry (fw_vault w))
     \<and> logging_started I (v_logger (fw_vault w)) \<and> slab_owns (v_pool (fw_vault w)) {}"

text \<open>The first six steps: configuration, Wi-Fi, pool, bus and metrics. They leave the line and the flash alone.\<close>

lemma start_configuration:
  fixes E :: "('r, 'q, 'l, 'g, 'e, 'b, 'd) environment" and w :: "('r, 'q, 'l, 'g, 'e, 'b, 'f, 'd) firmware"
  assumes up: "powered_up E w" and env: "environment_ok E I" and st: "storage_ok E (fw_driver w)"
  shows "\<exists>w' p. system_init (firmware_components E) w = system_init_loop (firmware_components E) INIT_STEP_WIFI w'
    \<and> config_analyzer (fw_config w') = \<lparr>rs485_driver_config_ptr = Some (config_rs485_driver (fw_config w)), on_frame_cb = False\<rparr>
    \<and> config_logger (fw_config w') = (config_logger (fw_config w))\<lparr>partition_size := log_partition E, parameters := p\<rparr>
    \<and> fw_vault w' = fw_vault w \<and> position_possible E w p"
proof -
  let ?C = "firmware_components E :: ('r, 'q, 'l, 'g, 'e, 'b, 'f, 'd) firmware system_components"
  have o: "options_ok (build_options E)" "save_timer_created E = ESP_OK" "save_timer_started E = ESP_OK"
    using env by (simp_all add: environment_ok_def)
  have s0: "fw_store w = nvs_power_up" using up by (simp add: powered_up_def)
  obtain logger where g0: "fw_config w = global_config (build_options E) logger" using up by (auto simp: powered_up_def)
  obtain c where c: "system_config_setup_defaults (build_options E) (fw_store w) = Some (ESP_OK, (fw_store w)\<lparr>default_config := c\<rparr>)"
    "length c = 372" "config_values c NVS_MANAGER_KEYS_BB_WRITE_OFFSET = Some (le32 (of_nat 0))"
    "config_values c NVS_MANAGER_KEYS_BB_REPLAY_OFFSET = Some (le32 (of_nat 0))"
    "config_values c NVS_MANAGER_KEYS_BB_LAST_ID = Some (le32 (of_nat 0))"
    using setup_defaults_ok [OF o(1), of "fw_store w"] s0 by (auto simp: nvs_power_up_def)
  let ?w1 = "w\<lparr>fw_store := (fw_store w)\<lparr>default_config := c\<rparr>\<rparr>"
  have 1: "init_step_run ?C INIT_STEP_DEFAULT_CONFIG w = Some (ESP_OK, ?w1)" using c(1) by (simp add: firmware_components_def)
  have "storage_ok E (fw_driver ?w1)" "app_config (fw_store ?w1) = replicate SIZEOF_APP_CONFIG 0" "length (default_config (fw_store ?w1)) = 372"
    using st s0 c(2) by (simp_all add: nvs_power_up_def)
  from nvs_start_ok [OF env this] obtain m d where
    m: "firmware_nvs_init E ?w1 = Some (ESP_OK, ?w1\<lparr>fw_store := m, fw_driver := d\<rparr>)" "config_lock m" "length (app_config m) = 372"
    "storage_fresh E (fw_driver w) \<longrightarrow> config_values (app_config m) = config_values c"
    by auto
  let ?w2 = "?w1\<lparr>fw_store := m, fw_driver := d\<rparr>"
  have 2: "init_step_run ?C INIT_STEP_NVS ?w1 = Some (ESP_OK, ?w2)" using m(1) by (simp add: firmware_components_def)
  obtain g p where
    g: "system_config_setup (build_options E) (config_locks E) (log_partition E) (provisioner_started E) (certs_partition E)
        (certs_mapped E) ESP_OK ESP_OK m (fw_config w) = Some (ESP_OK, g)"
      "config_analyzer g = \<lparr>rs485_driver_config_ptr = Some (config_rs485_driver (fw_config w)), on_frame_cb = False\<rparr>"
      "config_logger g = (config_logger (fw_config w))\<lparr>partition_size := log_partition E, parameters := p\<rparr>"
      "load_logger_parameters (config_locks E) m (parameters (config_logger (fw_config w))) = Some p"
    using config_setup_ok [OF o(1) m(2,3) g0] by blast
  let ?w3 = "?w2\<lparr>fw_config := g\<rparr>"
  have 3: "init_step_run ?C INIT_STEP_CONFIG ?w2 = Some (ESP_OK, ?w3)"
    using g(1) o(2,3) by (simp add: firmware_components_def firmware_config_setup_def)
  have "system_init ?C w = system_init_loop ?C INIT_STEP_WIFI ?w3"
    using init_loop_step [OF _ 1] init_loop_step [OF _ 2] init_loop_step [OF _ 3] by (simp add: system_init_def)
  moreover have "position_possible E w p"
    using load_position_zero [OF m(2) _ g(4)] m(4) c(3-5) by (auto simp: position_possible_def)
  ultimately show ?thesis using g(2,3) by (intro exI [of _ ?w3] exI [of _ p]) simp
qed

lemma start_services:
  fixes E :: "('r, 'q, 'l, 'g, 'e, 'b, 'd) environment" and w :: "('r, 'q, 'l, 'g, 'e, 'b, 'f, 'd) firmware"
  assumes env: "environment_ok E I" and pool: "v_pool (fw_vault w) = slab_pool_static"
  shows "\<exists>w'. system_init_loop (firmware_components E) INIT_STEP_WIFI w = system_init_loop (firmware_components E) INIT_STEP_TELE_PLIN w'
    \<and> fw_config w' = fw_config w \<and> fw_vault w' = (fw_vault w)\<lparr>v_pool := v_pool (fw_vault w')\<rparr> \<and> slab_owns (v_pool (fw_vault w')) {}"
proof -
  let ?C = "firmware_components E :: ('r, 'q, 'l, 'g, 'e, 'b, 'f, 'd) firmware system_components"
  have o: "wifi_mutex E" "\<forall>c. wifi_outcome E c = ESP_OK" "pool_mutex E" "\<forall>n sz. create_bus_queue E n sz \<noteq> None"
    using env by (simp_all add: environment_ok_def)
  obtain wm calls where "wifi_manager_init True (wifi_outcome E) True (fw_wifi w) = (ESP_OK, wm, calls)" using wifi_start_ok [OF o(2)] by blast
  then have 1: "init_step_run ?C INIT_STEP_WIFI w = Some (ESP_OK, w\<lparr>fw_wifi := wm\<rparr>)" using o(1) by (simp add: firmware_components_def)
  obtain p where p: "slab_pool_init True slab_pool_static = (ESP_OK, p)" by (simp add: slab_pool_init_def slab_pool_static_def)
  then have own: "slab_owns p {}" using slab_owns_init by simp
  from p have 2: "init_step_run ?C INIT_STEP_SLAB (w\<lparr>fw_wifi := wm\<rparr>)
      = Some (ESP_OK, w\<lparr>fw_wifi := wm, fw_vault := (fw_vault w)\<lparr>v_pool := p\<rparr>\<rparr>)"
    using o(3) pool by (simp add: firmware_components_def)
  obtain b where b: "event_bus_init (create_bus_queue E) EVENT_BUS_QUEUE_SIZE (fw_bus w) = (ESP_OK, b)" "subscribers b = zero_subscribers"
    using bus_start_ok [OF o(4)] by blast
  let ?w3 = "w\<lparr>fw_wifi := wm, fw_vault := (fw_vault w)\<lparr>v_pool := p\<rparr>, fw_bus := b\<rparr>"
  have 3: "init_step_run ?C INIT_STEP_EVENT_BUS (w\<lparr>fw_wifi := wm, fw_vault := (fw_vault w)\<lparr>v_pool := p\<rparr>\<rparr>) = Some (ESP_OK, ?w3)"
    using b(1) by (simp add: firmware_components_def)
  obtain b' cs where "metrics_init b (fw_counters w) = (ESP_OK, b', cs)"
    using event_bus_subscribe_first [OF b(2)] by (simp add: metrics_init_def)
  then have 4: "init_step_run ?C INIT_STEP_METRICS ?w3 = Some (ESP_OK, ?w3\<lparr>fw_bus := b', fw_counters := cs\<rparr>)"
    by (simp add: firmware_components_def)
  have "system_init_loop ?C INIT_STEP_WIFI w = system_init_loop ?C INIT_STEP_TELE_PLIN (?w3\<lparr>fw_bus := b', fw_counters := cs\<rparr>)"
    using init_loop_step [OF _ 1] init_loop_step [OF _ 2] init_loop_step [OF _ 3] init_loop_step [OF _ 4] by simp
  then show ?thesis
    by (intro exI [of _ "?w3\<lparr>fw_bus := b', fw_counters := cs\<rparr>"]) (simp add: own)
qed

lemma start_data_path:
  fixes E :: "('r, 'q, 'l, 'g, 'e, 'b, 'd) environment" and w :: "('r, 'q, 'l, 'g, 'e, 'b, 'f, 'd) firmware"
  assumes env: "environment_ok E I" and srch: "log_init E w0 p \<noteq> None" and flash: "v_flash (fw_vault w) = v_flash (fw_vault w0)"
    and lg: "v_logger (fw_vault w) = v_logger (fw_vault w0)"
    and lcfg: "config_logger (fw_config w) = (config_logger (fw_config w0))\<lparr>partition_size := log_partition E, parameters := p\<rparr>"
    and acfg: "config_analyzer (fw_config w) = \<lparr>rs485_driver_config_ptr = Some rc, on_frame_cb = False\<rparr>" "0 < rs485_baudrate rc"
    and idle: "slab_ptr (analyzer_slicer (analyzer (v_pipeline (fw_vault w)))) = None" and pool: "slab_owns (v_pool (fw_vault w)) {}"
  shows "\<exists>w'. system_init_loop (firmware_components E) INIT_STEP_TELE_PLIN w = Some (ESP_OK, w') \<and> firmware_started I w'
    \<and> service_ready (device_id_option E) (v_telemetry (fw_vault w')) \<and> log_begun E w0 p (v_logger (fw_vault w'))
    \<and> v_flash (fw_vault w') = v_flash (fw_vault w0)"
proof -
  let ?C = "firmware_components E :: ('r, 'q, 'l, 'g, 'e, 'b, 'f, 'd) firmware system_components"
  obtain t where t: "firmware_pipeline_init E w = Some (True, w\<lparr>fw_vault := (fw_vault w)\<lparr>v_pipeline := t\<rparr>\<rparr>)" "pipeline_started I t"
    using pipeline_start_ok [OF env acfg idle] by blast
  let ?w1 = "w\<lparr>fw_vault := (fw_vault w)\<lparr>v_pipeline := t\<rparr>\<rparr>"
  obtain s where s: "firmware_telemetry_init E ?w1 = Some (True, ?w1\<lparr>fw_vault := (fw_vault ?w1)\<lparr>v_telemetry := s\<rparr>\<rparr>)" "telemetry_started I s"
    "service_ready (device_id_option E) s"
    using telemetry_start_ok [OF env] by blast
  let ?w2 = "?w1\<lparr>fw_vault := (fw_vault ?w1)\<lparr>v_telemetry := s\<rparr>\<rparr>"
  have f2: "v_flash (fw_vault ?w2) = v_flash (fw_vault w0)"
    "config_logger (fw_config ?w2) = (config_logger (fw_config w0))\<lparr>partition_size := log_partition E, parameters := p\<rparr>"
    "v_logger (fw_vault ?w2) = v_logger (fw_vault w0)"
    using flash lcfg lg by simp_all
  obtain l where l: "firmware_logger_init E ?w2 = Some (True, ?w2\<lparr>fw_vault := (fw_vault ?w2)\<lparr>v_logger := l\<rparr>\<rparr>)" "logging_started I l"
    "log_begun E w0 p l"
    using logger_start_ok [OF env srch f2] by blast
  let ?w3 = "?w2\<lparr>fw_vault := (fw_vault ?w2)\<lparr>v_logger := l\<rparr>\<rparr>"
  have steps: "init_step_run ?C INIT_STEP_TELE_PLIN w = Some (ESP_OK, ?w1)" "init_step_run ?C INIT_STEP_TELE_SERV ?w1 = Some (ESP_OK, ?w2)"
    "init_step_run ?C INIT_STEP_LOG_SERV ?w2 = Some (ESP_OK, ?w3)"
    using t(1) s(1) l(1) by (simp_all add: firmware_components_def ok_or_fail_def)
  have "system_init_loop ?C INIT_STEP_TELE_PLIN w = Some (ESP_OK, ?w3)"
    using init_loop_step [OF _ steps(1)] init_loop_step [OF _ steps(2)] init_loop_step [OF _ steps(3)] by (simp add: system_init_loop.simps)
  moreover have "firmware_started I ?w3" using t(2) s(2) l(2) pool by (simp add: firmware_started_def)
  moreover have "service_ready (device_id_option E) (v_telemetry (fw_vault ?w3))" "log_begun E w0 p (v_logger (fw_vault ?w3))"
    "v_flash (fw_vault ?w3) = v_flash (fw_vault w0)"
    using s(3) l(3) flash by simp_all
  ultimately show ?thesis by blast
qed

lemma firmware_start:
  fixes E :: "('r, 'q, 'l, 'g, 'e, 'b, 'd) environment" and w :: "('r, 'q, 'l, 'g, 'e, 'b, 'f, 'd) firmware"
  assumes "powered_up E w" and "environment_ok E I" and "storage_ok E (fw_driver w)" and "logger_searchable E w"
  shows "\<exists>w' p. system_init (firmware_components E) w = Some (ESP_OK, w') \<and> firmware_started I w'
    \<and> service_ready (device_id_option E) (v_telemetry (fw_vault w')) \<and> log_begun E w p (v_logger (fw_vault w'))
    \<and> v_flash (fw_vault w') = v_flash (fw_vault w)
    \<and> position_possible E w p"
proof -
  let ?C = "firmware_components E :: ('r, 'q, 'l, 'g, 'e, 'b, 'f, 'd) firmware system_components"
  obtain w1 p where w1: "system_init ?C w = system_init_loop ?C INIT_STEP_WIFI w1"
    "config_analyzer (fw_config w1) = \<lparr>rs485_driver_config_ptr = Some (config_rs485_driver (fw_config w)), on_frame_cb = False\<rparr>"
    "config_logger (fw_config w1) = (config_logger (fw_config w))\<lparr>partition_size := log_partition E, parameters := p\<rparr>"
    "fw_vault w1 = fw_vault w" "position_possible E w p"
    using start_configuration [OF assms(1-3)] by blast
  have srch: "log_init E w p \<noteq> None" using assms(4) w1(5) by (simp add: logger_searchable_def)
  have pool: "v_pool (fw_vault w1) = slab_pool_static" using assms(1) w1(4) by (simp add: powered_up_def)
  obtain w2 where w2: "system_init_loop ?C INIT_STEP_WIFI w1 = system_init_loop ?C INIT_STEP_TELE_PLIN w2" "fw_config w2 = fw_config w1"
    "fw_vault w2 = (fw_vault w1)\<lparr>v_pool := v_pool (fw_vault w2)\<rparr>" "slab_owns (v_pool (fw_vault w2)) {}"
    using start_services [OF assms(2) pool] by blast
  have f: "v_flash (fw_vault w2) = v_flash (fw_vault w)" "v_pipeline (fw_vault w2) = v_pipeline (fw_vault w)"
    "v_logger (fw_vault w2) = v_logger (fw_vault w)"
    by (subst w2(3), simp add: w1(4))+
  have baud: "0 < rs485_baudrate (config_rs485_driver (fw_config w))"
    using assms(1,2) by (auto simp: powered_up_def environment_ok_def options_ok_def global_config_def)
  have idle: "slab_ptr (analyzer_slicer (analyzer (v_pipeline (fw_vault w2)))) = None" using assms(1) f(2) by (simp add: powered_up_def)
  obtain w3 where "system_init_loop ?C INIT_STEP_TELE_PLIN w2 = Some (ESP_OK, w3)" "firmware_started I w3"
    "service_ready (device_id_option E) (v_telemetry (fw_vault w3))" "log_begun E w p (v_logger (fw_vault w3))"
    "v_flash (fw_vault w3) = v_flash (fw_vault w)"
    using start_data_path [OF assms(2) srch f(1,3) w1(3) [folded w2(2)] w1(2) [folded w2(2)] baud idle w2(4)] by blast
  with w1(1,5) w2(1) show ?thesis by auto
qed

section \<open>From the start to the data path\<close>

lemma tasks_created_vault:
  "fw_vault (firmware_tasks_created (map Task_create [0..<6]) w) =
     (fw_vault w)\<lparr>v_pipeline := (v_pipeline (fw_vault w))\<lparr>telemetry_pipeline_task_handle := Some 0,
         analyzer := (analyzer (v_pipeline (fw_vault w)))\<lparr>modbus_analyzer_task_handle := Some 0\<rparr>\<rparr>,
       v_telemetry := (v_telemetry (fw_vault w))\<lparr>telemetry_service_task_handle := Some 0\<rparr>,
       v_logger := (v_logger (fw_vault w))\<lparr>logger_service_task_handle := Some 0\<rparr>\<rparr>"
  by (simp add: upt_rec firmware_task_created_def Let_def)

lemma started_vault:
  assumes "firmware_started I w"
  shows "vault_started I (fw_vault (firmware_tasks_created (map Task_create [0..<6]) w))"
    and "\<not> telemetry_service_is_online_flag (v_telemetry (fw_vault (firmware_tasks_created (map Task_create [0..<6]) w)))"
  using assms
  by (auto simp: tasks_created_vault firmware_started_def pipeline_started_def telemetry_started_def logging_started_def vault_started_def)

section \<open>A new device\<close>

text \<open>
  Nothing is stored yet: the storage is fresh, and the logger's partition is a blank flash, on which
  its configuration is the documented one; the locks of the start are obtained.
\<close>

definition device_new where
  "device_new rd wr er cells good sector E w \<longleftrightarrow>
     storage_fresh E (fw_driver w) \<and> (\<forall>i. config_locks E i) \<and> logger_lock E \<and> logger_second_lock E \<and> 12 \<le> sector
     \<and> config_ok rd wr er sector (length (cells (v_flash (fw_vault w)))) ((config_logger (fw_config w))\<lparr>partition_size := log_partition E\<rparr>)
     \<and> good (v_flash (fw_vault w)) \<and> blank (cells (v_flash (fw_vault w))) 0 (length (cells (v_flash (fw_vault w))))"

lemma new_device_log:
  assumes "flash_device rd wr er cells good sector" and "device_new rd wr er cells good sector E w" and "position_possible E w p"
  shows "\<exists>lg. log_init E w p = Some (BLACKBOX_LOGGER_OK, lg, v_flash (fw_vault w)) \<and> write_offset lg = 0 \<and> replay_offset lg = 0
    \<and> align_of lg = address_align (config_logger (fw_config w))
    \<and> batch_buf_size (the (config_ptr lg)) = batch_buf_size (config_logger (fw_config w))
    \<and> logger_ready rd wr er cells good sector lg (v_flash (fw_vault w)) []"
proof -
  let ?c = "(config_logger (fw_config w))\<lparr>partition_size := log_partition E, parameters := p, on_replay_available_func := True\<rparr>"
  have n: "config_ok rd wr er sector (length (cells (v_flash (fw_vault w)))) ?c" "good (v_flash (fw_vault w))" "12 \<le> sector"
    "param_write_offset (parameters ?c) = 0" "param_replay_offset (parameters ?c) = 0"
    "blank (cells (v_flash (fw_vault w))) 0 (length (cells (v_flash (fw_vault w))))" "logger_lock E = True" "logger_second_lock E = True"
    using assms(2,3) by (simp_all add: device_new_def position_possible_def position_zero_def config_ok_def)
  from flash_device.init_blank [OF assms(1) n(1-6), of "logger_over_old E" "blackbox (v_logger (fw_vault w))"] n(7,8)
  show ?thesis by (auto simp: log_init_def)
qed

text \<open>
  A device that was in use: the flash of its log may hold whatever it does, as long as no header in
  it says a length that leads out of its sector, and the driver reads no header from behind the
  partition. Then the search ends, whatever position was stored and whichever locks it obtains.
\<close>

definition flash_searchable where
  "flash_searchable rd wr er cells good sector E w \<longleftrightarrow>
     12 \<le> sector \<and> good (v_flash (fw_vault w))
     \<and> config_ok rd wr er sector (length (cells (v_flash (fw_vault w)))) ((config_logger (fw_config w))\<lparr>partition_size := log_partition E\<rparr>)
     \<and> lengths_inside sector (cells (v_flash (fw_vault w))) \<and> header_reads_end rd cells (v_flash (fw_vault w))"

lemma used_device_searchable:
  assumes "flash_device rd wr er cells good sector" and "flash_searchable rd wr er cells good sector E w"
  shows "logger_searchable E w"
  unfolding logger_searchable_def log_init_def
proof (intro allI impI)
  fix p
  have "config_ok rd wr er sector (length (cells (v_flash (fw_vault w))))
      ((config_logger (fw_config w))\<lparr>partition_size := log_partition E, parameters := p, on_replay_available_func := True\<rparr>)"
    using assms(2) by (simp add: flash_searchable_def config_ok_def)
  then show "blackbox_logger_init (logger_over_old E) True True ESP_OK (logger_lock E) (logger_second_lock E) (blackbox (v_logger (fw_vault w)))
      (Some ((config_logger (fw_config w))\<lparr>partition_size := log_partition E, parameters := p, on_replay_available_func := True\<rparr>))
      (v_flash (fw_vault w)) \<noteq> None"
    using assms(2) by (intro flash_device.init_ends [OF assms(1)]) (simp_all add: flash_searchable_def)
qed

lemma new_device_searchable:
  assumes "flash_device rd wr er cells good sector" and "device_new rd wr er cells good sector E w"
  shows "logger_searchable E w"
  using new_device_log [OF assms] by (fastforce simp: logger_searchable_def)

text \<open>
  An environment in which everything succeeds, with list queues and the storages of the unit tests,
  and the firmware at power-up; the logger's partition is blank.
\<close>

definition environment_example ::
    "(rs485_driver_event list, modbus_analyzer_frame list, telemetry_pipeline_record list, telemetry_pipeline_record list, unit, unit, mock_nvs) environment" where
  "environment_example =
     \<lparr>build_options = kconfig_example, device_id_option = ''vault'', nvs_functions = ram_ops, nvs_mutex = True, nvs_load_lock = True,
      nvs_deinit_lock = True, sync_timer_created = ESP_OK, sync_timer_started = ESP_OK, config_locks = (\<lambda>_. True),
      log_partition = Some 16384, provisioner_started = ESP_OK, certs_partition = None, certs_mapped = ESP_OK,
      save_timer_created = ESP_OK, save_timer_started = ESP_OK, wifi_mutex = True, wifi_outcome = (\<lambda>_. ESP_OK), pool_mutex = True,
      create_bus_queue = (\<lambda>_ _. Some ()), uart_installed = (ESP_OK, Some ()), uart_errors = (ESP_OK, ESP_OK, ESP_OK, ESP_OK, ESP_OK),
      create_events_queue = (\<lambda>_. Some []), create_frames_queue = (\<lambda>_. Some []), telemetry_mutex = True, mqtt_mutex = True,
      mqtt_client_created = True, mqtt_registered = ESP_OK, mqtt_started = ESP_OK, create_live_queue = (\<lambda>_. Some []),
      metrics_timer_created = True, metrics_timer_started = True, logger_over_old = True, logger_write_mutex = True,
      logger_sector_mutex = True, logger_timer_created = ESP_OK, logger_lock = True, logger_second_lock = True,
      create_logging_queue = (\<lambda>_. Some [])\<rparr>"

definition firmware_example ::
    "(rs485_driver_event list, modbus_analyzer_frame list, telemetry_pipeline_record list, telemetry_pipeline_record list, unit, unit, mock_partition, mock_nvs) firmware" where
  "firmware_example =
     \<lparr>fw_vault = \<lparr>
        v_pipeline = \<lparr>telemetry_pipeline_task_handle = None, raw_frame_queue = None, record_ready_callback = False,
          analyzer = \<lparr>analyzer_config_ptr = None,
            rs485_drv = \<lparr>rs485_config_ptr = None, rs485_event_queue = None, frame_bit_length = 0, rs485_driver_task_handle = None\<rparr>,
            analyzer_slicer = \<lparr>slicer_config_ptr = None, slab_ptr = None, start_timestamp_us = 0, last_byte_timestamp_us = 0, t3_5_us = 0\<rparr>,
            analyzer_slicer_config = \<lparr>baudrate = 0, bit_length = 0, get_time_us_func = False, on_frame_func = False\<rparr>,
            raw_events_queue = None, modbus_analyzer_task_handle = None\<rparr>,
          pipeline_work_pending = False\<rparr>,
        v_telemetry = \<lparr>topics = ['''', '''', ''''], topics_qos = [0, 0, 0], telemetry_service_task_handle = None,
          live_queue = None, telemetry_service_state_lock = False, telemetry_service_is_online_flag = False,
          telemetry_bridge = mqtt_bridge_example, pub_metrics_timer_handle = False, publish_replay_cb_func = False,
          telemetry_work_pending = False\<rparr>,
        v_logger = \<lparr>logger_service_task_handle = None, logging_queue = None,
          blackbox = \<lparr>config_ptr = None, write_offset = 0, replay_offset = 0, last_id = 0, last_erased_sector = 0, batch_len = 0,
            sector_buf_lock = False, write_lock = False, flush_timer = None\<rparr>,
          logger_work_pending = False\<rparr>,
        v_flash = mock_example,
        v_pool = slab_pool_static\<rparr>,
      fw_bus = \<lparr>event_queue = None, subscribers = zero_subscribers, event_bus_task_handle = None\<rparr>,
      fw_counters = replicate 7 0, fw_store = nvs_power_up, fw_driver = ram_example,
      fw_config = global_config kconfig_example (config_example\<lparr>partition_size := None\<rparr>),
      fw_wifi = wifi_example\<lparr>wifi_state_lock := False, wifi_manager_state := WIFI_STATE_IDLE, reconnect_timer := False,
        wifi_event_ctx := False, ip_event_ctx := False\<rparr>\<rparr>"

lemma firmware_example_powered_up: "powered_up environment_example firmware_example"
  by (auto simp: powered_up_def firmware_example_def environment_example_def)

lemma environment_example_ok: "environment_ok environment_example vault_items_example"
  by (simp add: environment_ok_def environment_example_def options_ok_def kconfig_example_def vault_items_example_def)

lemma storage_example_answers: "storage_answers environment_example (fw_driver firmware_example) ESP_OK (replicate 372 0)"
proof -
  have "nvs_init ram_ops = Some ram_init" "nvs_open ram_ops = Some (ram_open ''storage'')" "nvs_erase ram_ops = Some ram_erase"
    "nvs_read ram_ops = Some (ram_read ''app_cfg'')" by (simp_all add: ram_ops_def)
  moreover have "ram_init ram_example = (ESP_OK, ram_example)"
    "ram_open ''storage'' ram_example = (ESP_OK, 1, ram_example\<lparr>nvs_mock_handle := 1\<rparr>)" "(0 :: nat) < 1"
    by (simp_all add: ram_init_def ram_open_def ram_example_def MOCK_HANDLE_def)
  moreover have "ram_read ''app_cfg'' 1 (replicate SIZEOF_APP_CONFIG 0) (ram_example\<lparr>nvs_mock_handle := 1\<rparr>) = (ESP_OK, replicate 372 0)"
    by (simp add: ram_read_def ram_example_def SIZEOF_APP_CONFIG_def MOCK_NVS_FLASH_SIZE_def)
  moreover have "length (replicate 372 0 :: bytes) = 372" by simp
  moreover have "nvs_functions environment_example = ram_ops" "fw_driver firmware_example = ram_example"
    by (simp_all add: environment_example_def firmware_example_def)
  ultimately show ?thesis unfolding storage_answers_def by metis
qed

lemma storage_example_ok: "storage_ok environment_example (fw_driver firmware_example)"
  using storage_example_answers by (auto simp: storage_ok_def)

lemma storage_example_fresh: "storage_fresh environment_example (fw_driver firmware_example)"
proof -
  have "config_version (replicate 372 0) \<noteq> NVS_MANAGER_CONFIG_VERSION"
    by (simp add: config_version_def of_le32_def numeral_eq_Suc take_replicate NVS_MANAGER_CONFIG_VERSION_def)
  with storage_example_answers show ?thesis unfolding storage_fresh_def by blast
qed

lemma partition_example:
  "config_ok mock_read mock_write mock_erase_range 4096 (length (memory (v_flash (fw_vault firmware_example))))
     ((config_logger (fw_config firmware_example))\<lparr>partition_size := log_partition environment_example\<rparr>)"
  "mock_good (v_flash (fw_vault firmware_example))"
  "blank (memory (v_flash (fw_vault firmware_example))) 0 (length (memory (v_flash (fw_vault firmware_example))))"
  using config_ok_example
  by (simp_all add: firmware_example_def environment_example_def global_config_def mock_example_def config_example_def config_ok_def
      mock_good_def blank_def)

lemma device_example: "device_new mock_read mock_write mock_erase_range memory mock_good 4096 environment_example firmware_example"
  using partition_example storage_example_fresh by (simp add: device_new_def) (simp add: environment_example_def)

text \<open>The same firmware with an entry in its log already.\<close>

definition firmware_used ::
    "(rs485_driver_event list, modbus_analyzer_frame list, telemetry_pipeline_record list, telemetry_pipeline_record list, unit, unit, mock_partition, mock_nvs) firmware" where
  "firmware_used = firmware_example\<lparr>fw_vault := (fw_vault firmware_example)\<lparr>v_flash := mock_one\<rparr>\<rparr>"

lemma firmware_used:
  "powered_up environment_example firmware_used" "storage_ok environment_example (fw_driver firmware_used)"
  "flash_searchable mock_read mock_write mock_erase_range memory mock_good 4096 environment_example firmware_used"
proof -
  show "powered_up environment_example firmware_used" "storage_ok environment_example (fw_driver firmware_used)"
    using firmware_example_powered_up storage_example_ok by (simp_all add: firmware_used_def powered_up_def)
  have "config_ok mock_read mock_write mock_erase_range 4096 16384
      ((config_logger (fw_config firmware_used))\<lparr>partition_size := log_partition environment_example\<rparr>)"
    using partition_example(1) by (simp add: firmware_used_def) (simp add: firmware_example_def mock_example_def)
  moreover have "v_flash (fw_vault firmware_used) = mock_one" by (simp add: firmware_used_def)
  moreover have "mock_size mock_one = length (memory mock_one)" using mock_one(2) by (simp add: mock_one_def mock_example_def)
  then have "header_reads_end mock_read memory mock_one" using mock_one(2) by (intro mock_header_reads_end) simp_all
  ultimately show "flash_searchable mock_read mock_write mock_erase_range memory mock_good 4096 environment_example firmware_used"
    using mock_one(1,2) lengths_inside_one by (simp add: flash_searchable_def)
qed

section \<open>Properties\<close>

text \<open>
  C18. The firmware starts. From power-up, when every resource is there, the calls to the outside
  succeed, the options fit, the configuration's storage answers - with whatever content - and no
  header in the log's flash says a length that leads out of its sector (the flashes of C26 do), the program,
  whatever becomes of the debug pins, enters the controller's loop in the state \<open>INIT\<close>, whose handling
  initialises all components, starts the six tasks and goes to \<open>RUNNING\<close>; the queues are empty, the
  service is offline and no slab is in use.
\<close>

theorem firmware_reaches_running:
  assumes "powered_up E w" and "environment_ok E I" and "storage_ok E (fw_driver w)"
    and "flash_device rd wr er cells good sector" and "flash_searchable rd wr er cells good sector E w"
    and "\<forall>i < 6. create i"
  shows "\<exists>pins c c'. app_main enabled configured outcome True True True w = (pins, At_read, c)
    \<and> controller_get_state True c = CONTROLLER_STATE_INIT
    \<and> controller_handle (firmware_components E) create CONTROLLER_STATE_INIT c = Some (Some CONTROLLER_STATE_RUNNING, c')
    \<and> (controller_step (firmware_components E))\<^sup>*\<^sup>* (At_read, c) (At_read, set_state_helper True CONTROLLER_STATE_RUNNING c')
    \<and> controller_get_state True (set_state_helper True CONTROLLER_STATE_RUNNING c') = CONTROLLER_STATE_RUNNING
    \<and> last_started_task_idx c' = 5 \<and> firmware_started I (rest_of_system c')"
proof -
  let ?c = "set_state_helper True CONTROLLER_STATE_INIT ((controller_power_up w)\<lparr>state_mutex := True\<rparr>)"
  have c: "rest_of_system ?c = w" "last_started_task_idx ?c = - 1" "state_mutex ?c"
    "controller_get_state True ?c = CONTROLLER_STATE_INIT"
    by (simp_all add: controller_power_up_def set_state_helper_def controller_get_state_def)
  have main: "snd (app_main enabled configured outcome True True True w) = (At_read, ?c)"
    using c(4) by (simp add: app_main_def case_prod_beta controller_enter_def)
  obtain w' where w': "system_init (firmware_components E) w = Some (ESP_OK, w')" "firmware_started I w'"
    using firmware_start [OF assms(1-3) used_device_searchable [OF assms(4,5)]] by blast
  let ?c' = "?c\<lparr>rest_of_system := w', last_started_task_idx := 5\<rparr>"
  have h: "controller_handle (firmware_components E) create CONTROLLER_STATE_INIT ?c = Some (Some CONTROLLER_STATE_RUNNING, ?c')"
    using w'(1) start_all_succeeds [OF assms(6)] c(1,2) by (simp add: controller_handle_def handle_init_helper_def)
  have "controller_step (firmware_components E) (At_read, ?c) (At_set CONTROLLER_STATE_RUNNING, ?c')"
    by (rule read_sets [where got_lock = True and create = create]) (simp only: c(4) h)
  then have "(controller_step (firmware_components E))\<^sup>*\<^sup>* (At_read, ?c) (At_read, set_state_helper True CONTROLLER_STATE_RUNNING ?c')"
    using sets by (rule converse_rtranclp_into_rtranclp [OF _ r_into_rtranclp])
  moreover have "controller_get_state True (set_state_helper True CONTROLLER_STATE_RUNNING ?c') = CONTROLLER_STATE_RUNNING"
    using c(3) by (simp add: set_state_helper_def controller_get_state_def)
  ultimately show ?thesis using main h w'(2) c(4)
    by - (rule exI [of _ "fst (app_main enabled configured outcome True True True w)"], rule exI [of _ ?c], rule exI [of _ ?c'],
      simp add: prod_eq_iff)
qed

lemma firmware_reaches_running_witness:
  "\<exists>pins c c'. app_main True ESP_OK (\<lambda>_. ESP_OK) True True True firmware_used = (pins, At_read, c)
    \<and> (controller_step (firmware_components environment_example))\<^sup>*\<^sup>* (At_read, c) (At_read, c')
    \<and> controller_get_state True c' = CONTROLLER_STATE_RUNNING"
  using firmware_reaches_running [OF firmware_used(1) environment_example_ok firmware_used(2)
      mock_device firmware_used(3), of "\<lambda>i. True" True ESP_OK "\<lambda>_. ESP_OK"] by blast

text \<open>
  C6. From power-up to the first record. When every resource is there, the calls to the outside
  succeed, the options fit, the storages answer, and no header in the log's flash says a length
  that leads out of its sector (the flashes of C26 do), the start succeeds, and the first correct frame on the
  line, after a turn of the analyzer and of the pipeline, is a single record in the queue of the
  storing side - the service is not online yet - with the frame's time and the packed message of
  its bytes.
\<close>

theorem firmware_stores_first_frame:
  assumes "powered_up E w" and "environment_ok E I" and "storage_ok E (fw_driver w)"
    and "flash_device rd wr er cells good sector" and "flash_searchable rd wr er cells good sector E w"
    and "vault_queues_ok QS I" and "\<forall>m. length (pack m) = packed_size m"
    and "line_frame e" and "frame_ok e" and "packed_size (frame_message (ev_timestamp_us e) (frame_bytes e)) \<le> 512"
  shows "\<exists>w1 calls v1 v2 v3 r j lq gq. system_init (firmware_components E) w = Some (ESP_OK, w1)
    \<and> runtime_tasks_start_all registered_tasks (\<lambda>i. True) (- 1) = Some (True, 5, calls)
    \<and> vault_line_event QS e (fw_vault (firmware_tasks_created calls w1)) = Some v1
    \<and> vault_analyzer_turn QS now v1 = Some v2 \<and> vault_pipeline_turn QS packed_size pack got_lock v2 = Some v3
    \<and> live_queue (v_telemetry v3) = Some lq \<and> live_of I lq = [] \<and> logging_queue (v_logger v3) = Some gq \<and> logging_of I gq = [r]
    \<and> rec_slab_ptr r = Some j \<and> rec_timestamp_us r = ev_timestamp_us e \<and> slab_owns (v_pool v3) {j}
    \<and> take (slab_length (slab_at (v_pool v3) j)) (slab_data (slab_at (v_pool v3) j))
      = pack (frame_message (ev_timestamp_us e) (frame_bytes e))"
proof -
  obtain w1 where w1: "system_init (firmware_components E) w = Some (ESP_OK, w1)" "firmware_started I w1"
    using firmware_start [OF assms(1-3) used_device_searchable [OF assms(4,5)]] by blast
  let ?v = "fw_vault (firmware_tasks_created (map Task_create [0..<6]) w1)"
  have tasks: "runtime_tasks_start_all registered_tasks (\<lambda>i. True) (- 1) = Some (True, 5, map Task_create [0..<6])"
    by (rule start_all_succeeds) simp
  obtain cf cs where h: "modbus_analyzer_task_handle (analyzer (v_pipeline ?v)) = Some 0"
      "analyzer_config_ptr (analyzer (v_pipeline ?v)) = Some cf" "on_frame_cb cf"
      "slicer_config_ptr (analyzer_slicer (analyzer (v_pipeline ?v))) = Some cs" "on_frame_func cs"
      "telemetry_pipeline_task_handle (v_pipeline ?v) = Some 0" "record_ready_callback (v_pipeline ?v)"
      "telemetry_service_task_handle (v_telemetry ?v) \<noteq> None" "logger_service_task_handle (v_logger ?v) \<noteq> None"
    using w1(2) by (auto simp: firmware_started_def pipeline_started_def tasks_created_vault)
  have "\<not> telemetry_service_is_online got_lock (v_telemetry ?v)"
    using started_vault(2) [OF w1(2)] by (simp add: telemetry_service_is_online_def)
  with frame_delivered [OF assms(6,7) started_vault(1) [OF w1(2)] assms(8-10) h, of now got_lock] w1(1) tasks
  show ?thesis by simp blast
qed

lemma firmware_stores_first_frame_witness:
  "\<exists>w1 calls v1 v2 v3 r j gq. system_init (firmware_components environment_example) firmware_used = Some (ESP_OK, w1)
    \<and> runtime_tasks_start_all registered_tasks (\<lambda>i. True) (- 1) = Some (True, 5, calls)
    \<and> vault_line_event vault_queues_example (frame_example signed_example) (fw_vault (firmware_tasks_created calls w1)) = Some v1
    \<and> vault_analyzer_turn vault_queues_example 9 v1 = Some v2
    \<and> vault_pipeline_turn vault_queues_example (\<lambda>m. length (msg_data m)) msg_data True v2 = Some v3
    \<and> logging_queue (v_logger v3) = Some gq \<and> logging_of vault_items_example gq = [r] \<and> rec_slab_ptr r = Some j
    \<and> take (slab_length (slab_at (v_pool v3) j)) (slab_data (slab_at (v_pool v3) j)) = signed_example"
proof -
  have len: "\<forall>m. length (msg_data m) = length (msg_data m)" by simp
  have msg: "msg_data (frame_message (ev_timestamp_us (frame_example signed_example)) (frame_bytes (frame_example signed_example))) = signed_example"
    by (simp add: frame_message_def frame_bytes_def frame_example_def)
  have fit: "length (msg_data (frame_message (ev_timestamp_us (frame_example signed_example)) (frame_bytes (frame_example signed_example)))) \<le> 512"
    unfolding msg by (simp add: signed_example_def)
  from firmware_stores_first_frame [OF firmware_used(1) environment_example_ok firmware_used(2) mock_device firmware_used(3)
      vault_example_ok(1) len signed_example fit, of 9 True, unfolded msg]
  show ?thesis by blast
qed

end
