(* ===== verification/First_Start.thy ===== *)
theory First_Start imports Firmware begin

text \<open>
  The first start of a new device to its end: from power-up to a frame that was captured while the
  broker was away and is published when the connection is there.
\<close>

lemma new_device_queue:
  assumes "flash_device rd wr er cells good sector" and "device_new rd wr er cells good sector E w" and "position_possible E w p"
    and "log_begun E w p s"
  shows "log_queue rd wr er cells good sector (batch_buf_size (config_logger (fw_config w))) (blackbox s) (v_flash (fw_vault w)) [] [] sector
    \<and> align_of (blackbox s) = address_align (config_logger (fw_config w))
    \<and> batch_buf_size (the (config_ptr (blackbox s))) = batch_buf_size (config_logger (fw_config w))"
proof -
  obtain lg where lg: "log_init E w p = Some (BLACKBOX_LOGGER_OK, lg, v_flash (fw_vault w))" "write_offset lg = 0" "replay_offset lg = 0"
    "align_of lg = address_align (config_logger (fw_config w))"
    "batch_buf_size (the (config_ptr lg)) = batch_buf_size (config_logger (fw_config w))"
    "logger_ready rd wr er cells good sector lg (v_flash (fw_vault w)) []"
    using new_device_log [OF assms(1-3)] by blast
  have "blackbox s = lg" using assms(4) lg(1) by (simp add: log_begun_def)
  moreover have "0 < sector" "2 * sector \<le> length (cells (v_flash (fw_vault w)))"
    using assms(2) by (simp_all add: device_new_def config_ok_def)
  then have "0 < length (cells (v_flash (fw_vault w)))" "sec_end sector 0 = sector" "0 < sector" by (simp_all add: sec_end_def del: length_greater_0_conv)
  ultimately show ?thesis using lg(2-6) by (simp add: log_queue_def replayable_def)
qed

section \<open>Property\<close>

text \<open>
  C1. Store and forward. A new device is switched on, everything succeeds, the six tasks are started;
  the broker is away. A correct frame comes from the line. After a turn of the analyzer, the pipeline
  and the storing task each, and the flush timer, its packed message is in flash. When the connection
  is there, a turn of the publishing task sends exactly that message, on the replay topic of the
  device; then nothing is left to replay, and no slab is in use.
\<close>

theorem firmware_stores_and_forwards:
  assumes "powered_up E w" and "environment_ok E I" and "vault_queues_ok QS I"
    and "flash_device rd wr er cells good sector" and "device_new rd wr er cells good sector E w"
    and "\<forall>m. length (pack m) = packed_size m" and "line_frame e" and "frame_ok e"
    and "d = pack (frame_message (ev_timestamp_us e) (frame_bytes e))" and "d \<noteq> []" and "length d \<le> 512"
    and "entry_size (address_align (config_logger (fw_config w))) (length d) \<le> batch_buf_size (config_logger (fw_config w))"
    and "entry_size (address_align (config_logger (fw_config w))) (length d) < sector"
    and "got_write_lock (ks 0)" and "replay_locks 0" and "\<forall>m. 0 \<le> send m"
  shows "\<exists>w1 calls v'. system_init (firmware_components E) w = Some (ESP_OK, w1)
    \<and> runtime_tasks_start_all registered_tasks (\<lambda>i. True) (- 1) = Some (True, 5, calls)
    \<and> do {
        v \<leftarrow> vault_line_event QS e (fw_vault (firmware_tasks_created calls w1));
        v \<leftarrow> vault_analyzer_turn QS now v;
        v \<leftarrow> vault_pipeline_turn QS packed_size pack got_lock v;
        v \<leftarrow> vault_logger_turn QS over_old ks v;
        v \<leftarrow> vault_flush_timer True True v;
        v \<leftarrow> vault_mqtt_event True (Some MQTT_EVENT_CONNECTED) v;
        vault_telemetry_turn QS send live_locks True replay_locks True garbage v
      } = Some (v', [Sent \<lparr>mqtt_topic = ''devices/'' @ device_id_option E @ ''/modbus/replay'', mqtt_data = d, mqtt_qos = 0\<rparr>])
    \<and> slab_owns (v_pool v') {} \<and> \<not> blackbox_logger_has_replay_data (blackbox (v_logger v'))"
proof -
  have st: "storage_ok E (fw_driver w)" using assms(5) by (auto simp: device_new_def storage_fresh_def storage_ok_def)
  obtain w1 p where w1: "system_init (firmware_components E) w = Some (ESP_OK, w1)" "firmware_started I w1"
    "service_ready (device_id_option E) (v_telemetry (fw_vault w1))" "log_begun E w p (v_logger (fw_vault w1))"
    "v_flash (fw_vault w1) = v_flash (fw_vault w)" "position_possible E w p"
    using firmware_start [OF assms(1,2) st new_device_searchable [OF assms(4,5)]] by blast
  have tasks: "runtime_tasks_start_all registered_tasks (\<lambda>i. True) (- 1) = Some (True, 5, map Task_create [0..<6])"
    by (rule start_all_succeeds) simp
  let ?v = "fw_vault (firmware_tasks_created (map Task_create [0..<6]) w1)"
  note q = new_device_queue [OF assms(4,5) w1(6,4)]
  have lg: "blackbox (v_logger ?v) = blackbox (v_logger (fw_vault w1))" "v_flash ?v = v_flash (fw_vault w)"
    using w1(5) by (simp_all add: tasks_created_vault)
  obtain cf cs where h: "modbus_analyzer_task_handle (analyzer (v_pipeline ?v)) = Some 0"
      "analyzer_config_ptr (analyzer (v_pipeline ?v)) = Some cf" "on_frame_cb cf"
      "slicer_config_ptr (analyzer_slicer (analyzer (v_pipeline ?v))) = Some cs" "on_frame_func cs"
      "telemetry_pipeline_task_handle (v_pipeline ?v) = Some 0" "record_ready_callback (v_pipeline ?v)"
      "telemetry_service_task_handle (v_telemetry ?v) = Some 0" "logger_service_task_handle (v_logger ?v) = Some 0"
    using w1(2) by (auto simp: firmware_started_def pipeline_started_def tasks_created_vault)
  have ts: "telemetry_service_state_lock (v_telemetry ?v)" "publish_replay_cb_func (v_telemetry ?v)"
      "\<not> telemetry_service_is_online_flag (v_telemetry ?v)" "client (telemetry_bridge (v_telemetry ?v))"
      "connection_lock (telemetry_bridge (v_telemetry ?v))" "notify_cb (telemetry_bridge (v_telemetry ?v))"
    and msg: "replay_message (v_telemetry ?v) d
      = \<lparr>mqtt_topic = ''devices/'' @ device_id_option E @ ''/modbus/replay'', mqtt_data = d, mqtt_qos = 0\<rparr>"
    using w1(2,3) by (simp_all add: service_ready_def firmware_started_def telemetry_started_def tasks_created_vault replay_message_def)
  have queue: "log_queue rd wr er cells good sector (batch_buf_size (config_logger (fw_config w))) (blackbox (v_logger ?v)) (v_flash ?v)
      [] [] sector"
    and sz: "entry_size (align_of (blackbox (v_logger ?v))) (length d) \<le> batch_buf_size (the (config_ptr (blackbox (v_logger ?v))))"
      "entry_size (align_of (blackbox (v_logger ?v))) (length d) < sector"
    using q assms(12,13) lg by simp_all
  from flash_device.frame_stored_and_sent [where ks = ks and replay_locks = replay_locks and send = send and pack = pack
      and packed_size = packed_size, OF assms(4,3,6) started_vault(1) [OF w1(2)] assms(7-11) h ts queue sz assms(14-16),
      of now got_lock over_old live_locks garbage] w1(1) tasks
  show ?thesis unfolding msg by blast
qed

text \<open>With the storages of the unit tests and list queues.\<close>

lemma firmware_stores_and_forwards_witness:
  "\<exists>w1 calls v'. system_init (firmware_components environment_example) firmware_example = Some (ESP_OK, w1)
    \<and> runtime_tasks_start_all registered_tasks (\<lambda>i. True) (- 1) = Some (True, 5, calls)
    \<and> do {
        v \<leftarrow> vault_line_event vault_queues_example (frame_example signed_example) (fw_vault (firmware_tasks_created calls w1));
        v \<leftarrow> vault_analyzer_turn vault_queues_example 9 v;
        v \<leftarrow> vault_pipeline_turn vault_queues_example (\<lambda>m. length (msg_data m)) msg_data True v;
        v \<leftarrow> vault_logger_turn vault_queues_example True (\<lambda>_. \<lparr>got_flush_lock = True, got_write_lock = True\<rparr>) v;
        v \<leftarrow> vault_flush_timer True True v;
        v \<leftarrow> vault_mqtt_event True (Some MQTT_EVENT_CONNECTED) v;
        vault_telemetry_turn vault_queues_example (\<lambda>_. 1) (\<lambda>_. True) True (\<lambda>_. True) True 0 v
      } = Some (v', [Sent \<lparr>mqtt_topic = ''devices/vault/modbus/replay'', mqtt_data = signed_example, mqtt_qos = 0\<rparr>])"
proof -
  have len: "\<forall>m. length (msg_data m) = length (msg_data m)" by simp
  have msg: "signed_example = msg_data (frame_message (ev_timestamp_us (frame_example signed_example)) (frame_bytes (frame_example signed_example)))"
    "signed_example \<noteq> []" "length signed_example \<le> 512" by (simp_all add: signed_example_def)
  have c: "entry_size (address_align (config_logger (fw_config firmware_example))) (length signed_example)
      \<le> batch_buf_size (config_logger (fw_config firmware_example))"
    "entry_size (address_align (config_logger (fw_config firmware_example))) (length signed_example) < 4096"
    by (simp_all add: firmware_example_def global_config_def config_example_def entry_size_def signed_example_def)
  have k: "got_write_lock ((\<lambda>_. \<lparr>got_flush_lock = True, got_write_lock = True\<rparr>) 0)" by simp
  from firmware_stores_and_forwards [where ks = "\<lambda>_. \<lparr>got_flush_lock = True, got_write_lock = True\<rparr>" and replay_locks = "\<lambda>_. True"
      and send = "\<lambda>_. 1" and live_locks = "\<lambda>_. True" and pack = msg_data and packed_size = "\<lambda>m. length (msg_data m)",
      OF firmware_example_powered_up environment_example_ok vault_example_ok(1) mock_device device_example len signed_example msg c k,
      of 9 True True 0]
  show ?thesis by (simp add: environment_example_def) blast
qed

end
