(* ===== verification/Ble_Provisioner.thy ===== *)
theory Ble_Provisioner imports Nvs_Manager begin

text \<open>
  The provisioner, \<open>components/system_config/ble_provisioner.c\<close>: its start, and the handler that
  stores received credentials. The credentials are the memory of the station configuration, with
  the SSID at offset 0 (32 bytes) and the password at offset 32 (64 bytes).
\<close>

datatype prov_event = NETWORK_PROV_WIFI_CRED_RECV bytes | NETWORK_PROV_END | NETWORK_PROV_OTHER

datatype ble_call =
    Ble_netif_init
  | Ble_event_loop_create
  | Ble_wifi_init
  | Ble_netif_create_sta
  | Ble_set_mode_sta
  | Ble_register_events
  | Ble_prov_mgr_init
  | Ble_start_provisioning

text \<open>\<open>strlen\<close> on the memory from an offset on; \<open>None\<close> when there is no terminator.\<close>

definition strlen_at :: "bytes \<Rightarrow> nat \<Rightarrow> nat option" where
  "strlen_at mem off =
     (let s = takeWhile (\<lambda>b. b \<noteq> 0) (drop off mem) in if length s < length (drop off mem) then Some (length s) else None)"

text \<open>The third component says whether the system is restarted.\<close>

definition provisioning_event_handler ::
    "(nat \<Rightarrow> bool) \<Rightarrow> prov_event \<Rightarrow> 'd nvs_manager \<Rightarrow> 'd \<Rightarrow> ('d nvs_manager \<times> 'd \<times> bool) option" where
  "provisioning_event_handler locks event m d =
     (case event of
        NETWORK_PROV_WIFI_CRED_RECV cfg \<Rightarrow>
          do {
            n \<leftarrow> strlen_at cfg 0;
            (_, m) \<leftarrow> nvs_manager_write_cfg (locks 0) NVS_MANAGER_KEYS_WIFI_SSID (Some cfg) (n + 1) m;
            k \<leftarrow> strlen_at cfg 32;
            (_, m) \<leftarrow> nvs_manager_write_cfg (locks 1) NVS_MANAGER_KEYS_WIFI_PASS (Some (drop 32 cfg)) (k + 1) m;
            (_, m, d) \<leftarrow> nvs_manager_flush_cfg (locks 2) m d;
            Some (m, d, False)
          }
      | NETWORK_PROV_END \<Rightarrow> Some (m, d, True)
      | NETWORK_PROV_OTHER \<Rightarrow> Some (m, d, False))"

fun ble_steps :: "(ble_call \<Rightarrow> esp_err) \<Rightarrow> ble_call list \<Rightarrow> esp_err \<times> ble_call list" where
  "ble_steps outcome [] = (ESP_OK, [])"
| "ble_steps outcome (c # cs) =
     (if outcome c \<noteq> ESP_OK then (outcome c, [c]) else let (err, calls) = ble_steps outcome cs in (err, c # calls))"

definition ble_provisioner_start :: "(ble_call \<Rightarrow> esp_err) \<Rightarrow> esp_err \<times> ble_call list" where
  "ble_provisioner_start outcome = ble_steps outcome
     [Ble_netif_init, Ble_event_loop_create, Ble_wifi_init, Ble_netif_create_sta, Ble_set_mode_sta, Ble_register_events,
      Ble_prov_mgr_init, Ble_start_provisioning]"

section \<open>Facts\<close>

lemma strlen_at_full:
  assumes "length ssid = 32" and "0 \<notin> set ssid" and "0 \<in> set rest"
  shows "\<exists>n. strlen_at (ssid @ rest) 0 = Some n \<and> 32 \<le> n"
proof -
  have "takeWhile (\<lambda>b. b \<noteq> 0) (ssid @ rest) = ssid @ takeWhile (\<lambda>b. b \<noteq> 0) rest"
    using assms(2) by (intro takeWhile_append2) auto
  moreover have "length (takeWhile (\<lambda>b. b \<noteq> 0) rest) < length rest"
  proof (rule ccontr)
    assume "\<not> length (takeWhile (\<lambda>b. b \<noteq> 0) rest) < length rest"
    then have "takeWhile (\<lambda>b. b \<noteq> 0) rest = rest"
      by (metis length_takeWhile_le le_less_linear nat_less_le takeWhile_eq_take take_all)
    with assms(3) show False by (metis set_takeWhileD)
  qed
  ultimately show ?thesis using assms(1) by (simp add: strlen_at_def)
qed

section \<open>Properties\<close>

text \<open>
  An SSID of the full 32 bytes, which Wi-Fi allows, cannot be provisioned: it has no
  terminator, the length is counted on into the password, and the store refuses the value as too
  long. The password is stored and the handler goes on to the flush, with the old SSID.
\<close>

theorem ble_full_ssid_is_lost:
  assumes "config_lock m" and "length (app_config m) = 372"
    and "length ssid = 32" and "0 \<notin> set ssid" and "length pw \<le> 63" and "0 \<notin> set pw"
    and "cfg = ssid @ pw @ 0 # rest"
  shows "\<exists>m1. config_values (app_config m1) = (config_values (app_config m))(NVS_MANAGER_KEYS_WIFI_PASS \<mapsto> pw @ replicate (64 - length pw) 0)
    \<and> provisioning_event_handler (\<lambda>_. True) (NETWORK_PROV_WIFI_CRED_RECV cfg) m d
      = map_option (\<lambda>(_, m, d). (m, d, False)) (nvs_manager_flush_cfg True m1 d)"
proof -
  obtain n where n: "strlen_at cfg 0 = Some n" "32 \<le> n" using strlen_at_full [OF assms(3,4), of "pw @ 0 # rest"] assms(7) by auto
  have w1: "nvs_manager_write_cfg True NVS_MANAGER_KEYS_WIFI_SSID (Some cfg) (n + 1) m = Some (ESP_ERR_INVALID_ARG, m)"
    using n(2) by (simp add: nvs_manager_write_cfg_def write_to_cfg_struct_helper_def find_map_helper_def config_map_def)
  have d: "drop 32 cfg = pw @ 0 # rest" using assms(3,7) by simp
  have "takeWhile (\<lambda>b. b \<noteq> 0) (pw @ 0 # rest) = pw" using assms(6) by (subst takeWhile_append2) auto
  then have k: "strlen_at cfg 32 = Some (length pw)" by (simp add: strlen_at_def d)
  have pass: "find_map_helper NVS_MANAGER_KEYS_WIFI_PASS = Some \<lparr>map_key = NVS_MANAGER_KEYS_WIFI_PASS, map_offset = 36, map_size = 64\<rparr>"
    by (simp add: find_map_helper_def config_map_def)
  have "length pw + 1 \<le> length (pw @ 0 # rest)" by simp
  from write_cfg_values [OF assms(1,2) this, of NVS_MANAGER_KEYS_WIFI_PASS] pass assms(5)
  obtain m1 where m1: "nvs_manager_write_cfg True NVS_MANAGER_KEYS_WIFI_PASS (Some (pw @ 0 # rest)) (length pw + 1) m = Some (ESP_OK, m1)"
    "config_values (app_config m1) = (config_values (app_config m))(NVS_MANAGER_KEYS_WIFI_PASS \<mapsto> (pw @ [0]) @ replicate (64 - (length pw + 1)) 0)"
    by auto
  have "(pw @ [0]) @ replicate (64 - (length pw + 1)) 0 = pw @ replicate (64 - length pw) 0"
    using assms(5) by (simp add: Suc_diff_Suc flip: replicate_Suc)
  moreover have "provisioning_event_handler (\<lambda>_. True) (NETWORK_PROV_WIFI_CRED_RECV cfg) m d
      = map_option (\<lambda>(_, m, d). (m, d, False)) (nvs_manager_flush_cfg True m1 d)"
    using n(1) w1 k m1(1) d
    by (cases "nvs_manager_flush_cfg True m1 d") (auto simp: provisioning_event_handler_def)
  ultimately show ?thesis using m1(2) by (intro exI [of _ m1]) simp
qed

lemma ble_full_ssid_is_lost_witness:
  "\<exists>m1. config_values (app_config m1) = (config_values (app_config nvs_example))(NVS_MANAGER_KEYS_WIFI_PASS \<mapsto> [80] @ replicate 63 0)
    \<and> provisioning_event_handler (\<lambda>_. True) (NETWORK_PROV_WIFI_CRED_RECV (replicate 32 65 @ [80, 0])) nvs_example ram_example
      = map_option (\<lambda>(_, m, d). (m, d, False)) (nvs_manager_flush_cfg True m1 ram_example)"
  using ble_full_ssid_is_lost [of nvs_example "replicate 32 65" "[80]" "replicate 32 65 @ [80, 0]" "[]" ram_example]
  by (simp add: nvs_example_def)

end
