(* ===== verification/Blackbox_Fault.thy ===== *)
theory Blackbox_Fault imports Blackbox_Flush begin

text \<open>
  Flushing on a device whose writes may fail half way: what a failed flush leaves behind, in the
  flash, in the batch buffer and in the logger, and that a later flush carries on from there.
\<close>

section \<open>A device with write faults\<close>

text \<open>
  The device stays \<open>sound\<close>, and reads and erases of whole sectors succeed. A write may fail after any
  of its bytes was stored, but not while the device \<open>works\<close>; when it \<open>fails\<close> at a number of bytes,
  the next write of that many does not succeed.
\<close>

locale unreliable_flash =
  fixes wr :: "nat \<Rightarrow> bytes \<Rightarrow> 'f \<Rightarrow> esp_err \<times> 'f"
    and er :: "nat \<Rightarrow> nat \<Rightarrow> 'f \<Rightarrow> esp_err \<times> 'f"
    and cells :: "'f \<Rightarrow> bytes"
    and sound :: "'f \<Rightarrow> bool"
    and works :: "'f \<Rightarrow> bool"
    and fails :: "'f \<Rightarrow> nat \<Rightarrow> bool"
    and sector :: nat
  assumes cells_small: "sound f \<Longrightarrow> length (cells f) < 2 ^ 31"
    and erase_any: "sound f \<Longrightarrow> sector dvd off \<Longrightarrow> sector dvd n \<Longrightarrow> off + n \<le> length (cells f) \<Longrightarrow>
      \<exists>f'. er off n f = (ESP_OK, f') \<and> sound f' \<and> works f' = works f \<and> fails f' = fails f
        \<and> cells f' = overlay (cells f) off (replicate n 0xFF)"
    and write_any: "sound f \<Longrightarrow> off + length bs \<le> length (cells f) \<Longrightarrow> writable (cells f) off bs \<Longrightarrow>
      \<exists>e f'. wr off bs f = (e, f') \<and> sound f' \<and> (works f \<longrightarrow> works f' \<and> e = ESP_OK)
        \<and> (fails f (length bs) \<longrightarrow> e \<noteq> ESP_OK)
        \<and> (if e = ESP_OK then cells f' = overlay (cells f) off bs else written_partly (cells f) off bs (cells f'))"

text \<open>A device that meets the logger's contract has no faults.\<close>

sublocale flash_device \<subseteq> reliable: unreliable_flash wr er cells good "\<lambda>_. True" "\<lambda>_ _. False" sector
proof
  show "\<exists>e f'. wr off bs f = (e, f') \<and> good f' \<and> (True \<longrightarrow> True \<and> e = ESP_OK) \<and> (False \<longrightarrow> e \<noteq> ESP_OK)
      \<and> (if e = ESP_OK then cells f' = overlay (cells f) off bs else written_partly (cells f) off bs (cells f'))"
    if "good f" "off + length bs \<le> length (cells f)" "writable (cells f) off bs" for f off bs
    using write_in [OF that] by auto
qed (use cells_bound erase_in in auto)

text \<open>The mock partition with whatever fault is injected.\<close>

definition mock_sound :: "mock_partition \<Rightarrow> bool" where
  "mock_sound m \<longleftrightarrow> mock_size m = length (memory m) \<and> length (memory m) < 2 ^ 31"

definition mock_works :: "mock_partition \<Rightarrow> bool" where
  "mock_works m \<longleftrightarrow> \<not> fail_next_write m"

definition mock_fails :: "mock_partition \<Rightarrow> nat \<Rightarrow> bool" where
  "mock_fails m n \<longleftrightarrow> fail_next_write m \<and> fail_after_bytes m < n"

lemma mock_write_loop_fails:
  "fail_next_write m \<Longrightarrow> fail_after_bytes m < idx + length src \<Longrightarrow> idx \<le> fail_after_bytes m \<Longrightarrow>
     fst (mock_write_loop off idx src m) \<noteq> ESP_OK"
proof (induction src arbitrary: idx m)
  case (Cons b src)
  show ?case
  proof (cases "fail_after_bytes m = idx")
    case False
    with Cons.IH [of "m\<lparr>memory := (memory m)[off + idx := memory m ! (off + idx) AND b]\<rparr>" "idx + 1"] Cons.prems
    show ?thesis by (auto simp: Let_def)
  qed (use Cons.prems in simp)
qed simp

lemma mock_good_sound: "mock_good m \<longleftrightarrow> mock_sound m \<and> mock_works m"
  by (auto simp: mock_good_def mock_sound_def mock_works_def)

lemma written_partly_Cons:
  assumes "written_partly (m[off := b]) (Suc off) src m'" and "off < length m"
  shows "written_partly m off (b # src) m'"
  unfolding written_partly_def
proof (intro conjI allI impI)
  show "length m' = length m" using assms(1) by (simp add: written_partly_def)
  fix i assume "i < length m"
  with assms show "m' ! i = m ! i \<or> off \<le> i \<and> i < off + length (b # src) \<and> m' ! i = (b # src) ! (i - off)"
    by (cases "i = off") (auto simp: written_partly_def nth_Cons' Suc_le_eq)
qed

lemma mock_write_loop_any:
  assumes "off + idx + length src \<le> length (memory m)" and "writable (memory m) (off + idx) src"
  shows "\<exists>e m'. mock_write_loop off idx src m = (e, m') \<and> mock_size m' = mock_size m
    \<and> (\<not> fail_next_write m \<longrightarrow> \<not> fail_next_write m' \<and> e = ESP_OK)
    \<and> (if e = ESP_OK then memory m' = overlay (memory m) (off + idx) src
       else written_partly (memory m) (off + idx) src (memory m'))"
  using assms
proof (induction src arbitrary: idx m)
  case Nil
  then show ?case by (simp add: overlay_def)
next
  case (Cons b src)
  show ?case
  proof (cases "fail_next_write m \<and> fail_after_bytes m \<le> idx")
    case False
    let ?m = "m\<lparr>memory := (memory m)[off + idx := b]\<rparr>"
    have "memory m ! (off + idx) = - 1 \<or> memory m ! (off + idx) = b"
      using Cons.prems(2) by (force simp: writable_def)
    then have old: "b AND NOT (memory m ! (off + idx)) = 0" "memory m ! (off + idx) AND b = b" by auto
    have "writable (memory ?m) (off + Suc idx) src"
      using Cons.prems(2) by (force simp: writable_def nth_list_update)
    with Cons.IH [of "Suc idx" ?m] Cons.prems obtain e m' where ih: "mock_write_loop off (idx + 1) src ?m = (e, m')"
      "mock_size m' = mock_size m" "\<not> fail_next_write m \<longrightarrow> \<not> fail_next_write m' \<and> e = ESP_OK"
      "if e = ESP_OK then memory m' = overlay (memory ?m) (off + Suc idx) src
       else written_partly (memory ?m) (off + Suc idx) src (memory m')" by auto
    have "overlay (memory ?m) (off + Suc idx) src = overlay (memory m) (off + idx) (b # src)"
      using Cons.prems(1) by (simp add: overlay_def upd_conv_take_nth_drop take_Suc_conv_app_nth add.commute add.left_commute)
    moreover have "written_partly (memory m) (off + idx) (b # src) (memory m')"
      if "written_partly (memory ?m) (off + Suc idx) src (memory m')"
      using written_partly_Cons [of "memory m" "off + idx" b src "memory m'"] that Cons.prems(1) by simp
    moreover have "mock_write_loop off idx (b # src) m = (e, m')"
      using False ih(1) by (auto simp: old Let_def)
    ultimately show ?thesis using ih by auto
  qed auto
qed

interpretation mock_fault: unreliable_flash mock_write mock_erase_range memory mock_sound mock_works mock_fails MOCK_SECTOR_SIZE
proof
  fix f :: mock_partition and off n :: nat and bs :: bytes
  assume s: "mock_sound f"
  show "length (memory f) < 2 ^ 31" using s by (simp add: mock_sound_def)
  show "\<exists>f'. mock_erase_range off n f = (ESP_OK, f') \<and> mock_sound f' \<and> mock_works f' = mock_works f \<and> mock_fails f' = mock_fails f
      \<and> memory f' = overlay (memory f) off (replicate n 0xFF)"
    if "MOCK_SECTOR_SIZE dvd off" "MOCK_SECTOR_SIZE dvd n" "off + n \<le> length (memory f)"
    using s that by (simp add: mock_erase_range_def mock_sound_def mock_works_def mock_fails_def u32_add_small
      dvd_eq_mod_eq_0 fun_eq_iff)
  assume w: "off + length bs \<le> length (memory f)" "writable (memory f) off bs"
  then have run: "mock_write off bs f = mock_write_loop off 0 bs f"
    using s by (simp add: mock_write_def mock_sound_def u32_add_small)
  obtain e m' where m': "mock_write off bs f = (e, m')" "mock_size m' = mock_size f"
    "\<not> fail_next_write f \<longrightarrow> \<not> fail_next_write m' \<and> e = ESP_OK"
    "if e = ESP_OK then memory m' = overlay (memory f) off bs else written_partly (memory f) off bs (memory m')"
    using mock_write_loop_any [of off 0 bs f] w unfolding run add_0_right by blast
  have "length (memory m') = length (memory f)"
    using m'(4) w(1) by (auto simp: written_partly_def split: if_splits)
  then show "\<exists>e f'. mock_write off bs f = (e, f') \<and> mock_sound f' \<and> (mock_works f \<longrightarrow> mock_works f' \<and> e = ESP_OK)
      \<and> (mock_fails f (length bs) \<longrightarrow> e \<noteq> ESP_OK)
      \<and> (if e = ESP_OK then memory f' = overlay (memory f) off bs else written_partly (memory f) off bs (memory f'))"
    using m' s mock_write_loop_fails [of f 0 bs off]
    by (intro exI [of _ e] exI [of _ m'] conjI) (simp_all add: run mock_sound_def mock_works_def mock_fails_def)
qed

section \<open>A sector in which a write failed\<close>

text \<open>
  From \<open>wo\<close> to the sector's end \<open>e\<close> the cells are blank, but some of the first \<open>n\<close> may hold what
  the batch buffer has for them (from \<open>b\<close> on).
\<close>

definition half_written :: "bytes \<Rightarrow> nat \<Rightarrow> nat \<Rightarrow> bytes \<Rightarrow> nat \<Rightarrow> nat \<Rightarrow> bool" where
  "half_written m wo e batch b n \<longleftrightarrow>
     (\<forall>i. wo \<le> i \<and> i < e \<longrightarrow> m ! i = 0xFF \<or> i < wo + n \<and> m ! i = batch ! (b + (i - wo)))"

lemma blank_half_written: "blank m wo (e - wo) \<Longrightarrow> half_written m wo e batch b n"
  by (auto simp: half_written_def blank_def)

lemma half_written_blank: "half_written m wo e batch b n \<Longrightarrow> blank m (wo + n) (e - (wo + n))"
  unfolding half_written_def blank_def
proof (intro allI impI)
  fix i assume h: "\<forall>i. wo \<le> i \<and> i < e \<longrightarrow> m ! i = 0xFF \<or> i < wo + n \<and> m ! i = batch ! (b + (i - wo))"
    and "wo + n \<le> i \<and> i < wo + n + (e - (wo + n))"
  then have "wo \<le> i \<and> i < e" "\<not> i < wo + n" by linarith+
  with h show "m ! i = 0xFF" by blast
qed

lemma half_written_0: "half_written m wo e batch b 0 \<longleftrightarrow> blank m wo (e - wo)"
  by (fastforce simp: half_written_def blank_def)

lemma buf_read_nth: "buf_read batch b n = Some bs \<Longrightarrow> i < n \<Longrightarrow> bs ! i = batch ! (b + i)"
  by (auto simp: buf_read_def split: if_splits)

lemma half_written_writable:
  assumes "half_written m wo e batch b n" and "wo + n \<le> e" and "buf_read batch b n = Some bs"
  shows "writable m wo bs"
  unfolding writable_def
proof (intro allI impI)
  fix i assume "i < length bs"
  then have "i < n" using buf_read_length [OF assms(3)] by simp
  with assms(1,2) have "m ! (wo + i) = 0xFF \<or> m ! (wo + i) = batch ! (b + (wo + i - wo))"
    unfolding half_written_def by (meson add_less_cancel_left le_add1 less_le_trans)
  then show "m ! (wo + i) = 0xFF \<or> m ! (wo + i) = bs ! i"
    using buf_read_nth [OF assms(3) \<open>i < n\<close>] by simp
qed

lemma half_written_partly:
  assumes "half_written m wo e batch b n" and "buf_read batch b n = Some bs"
    and "written_partly m wo bs m'" and "e \<le> length m"
  shows "half_written m' wo e batch b n"
  unfolding half_written_def
proof (intro allI impI)
  fix i assume i: "wo \<le> i \<and> i < e"
  then have "i < length m" using assms(4) by simp
  with assms(3) have "m' ! i = m ! i \<or> i < wo + n \<and> m' ! i = bs ! (i - wo)"
    using buf_read_length [OF assms(2)] unfolding written_partly_def by blast
  then show "m' ! i = 0xFF \<or> i < wo + n \<and> m' ! i = batch ! (b + (i - wo))"
  proof
    assume "m' ! i = m ! i"
    then show ?thesis using assms(1) i by (simp add: half_written_def)
  next
    assume "i < wo + n \<and> m' ! i = bs ! (i - wo)"
    moreover from this have "i - wo < n" using i by linarith
    ultimately show ?thesis using buf_read_nth [OF assms(2), of "i - wo"] by simp
  qed
qed

lemma half_written_batch:
  assumes "half_written m wo e batch b n" and "\<And>i. i < n \<Longrightarrow> batch' ! (b' + i) = batch ! (b + i)" and "n \<le> n'"
  shows "half_written m wo e batch' b' n'"
  unfolding half_written_def
proof (intro allI impI)
  fix i assume i: "wo \<le> i \<and> i < e"
  show "m ! i = 0xFF \<or> i < wo + n' \<and> m ! i = batch' ! (b' + (i - wo))"
    using assms(1) i assms(2) [of "i - wo"] assms(3) unfolding half_written_def by force
qed

text \<open>Cells outside a span that are what they were.\<close>

definition same_but :: "bytes \<Rightarrow> bytes \<Rightarrow> nat \<Rightarrow> nat \<Rightarrow> bool" where
  "same_but m m' a e \<longleftrightarrow> length m' = length m \<and> (\<forall>i < length m. i < a \<or> e \<le> i \<longrightarrow> m' ! i = m ! i)"

lemma same_but_read:
  assumes "same_but m m' a e" and "i + k \<le> a \<or> e \<le> i"
  shows "buf_read m' i k = buf_read m i k"
proof -
  have "take k (drop i m') = take k (drop i m)" if "i + k \<le> length m"
    using assms that by (intro nth_equalityI) (auto simp: same_but_def)
  then show ?thesis using assms(1) by (simp add: buf_read_def same_but_def)
qed

lemma same_but_refl [simp]: "same_but m m a e"
  by (simp add: same_but_def)

lemma same_but_trans: "same_but m m1 a e \<Longrightarrow> same_but m1 m2 a e \<Longrightarrow> same_but m m2 a e"
  by (simp add: same_but_def)

lemma same_but_overlay:
  "off + length bs \<le> length m \<Longrightarrow> a \<le> off \<Longrightarrow> off + length bs \<le> e \<Longrightarrow> same_but m (overlay m off bs) a e"
  by (auto simp: same_but_def nth_overlay)

lemma same_but_partly:
  "written_partly m off bs m' \<Longrightarrow> a \<le> off \<Longrightarrow> off + length bs \<le> e \<Longrightarrow> same_but m m' a e"
  unfolding same_but_def written_partly_def by (metis leD le_trans less_le_trans)

section \<open>One chunk\<close>

context unreliable_flash
begin

lemma flush_chunk_any:
  assumes g: "sound (fs_flash s)" and dims: "0 < sector" "sector dvd length (cells (fs_flash s))"
    and wo: "fs_write_offset s < length (cells (fs_flash s))"
    and chunk: "buf_read batch (fs_buffer_offset s) n = Some bs" "0 < n"
    and fits: "fs_write_offset s + n \<le> sec_end sector (fs_write_offset s)"
    and small: "n \<le> fs_write_size s" "fs_write_size s < 2 ^ 31" "fs_buffer_offset s + n < 2 ^ 31"
    and ahead: "last_erased_sector (fs_logger s) = int (fs_write_offset s div sector) \<longrightarrow>
      half_written (cells (fs_flash s)) (fs_write_offset s) (sec_end sector (fs_write_offset s)) batch (fs_buffer_offset s) n"
  shows "\<exists>f'. sound f' \<and> (works (fs_flash s) \<longrightarrow> works f')
    \<and> same_but (cells (fs_flash s)) (cells f') (sec_start sector (fs_write_offset s)) (sec_end sector (fs_write_offset s))
    \<and> (\<not> fails (fs_flash s) n \<and> flush_chunk wr er batch sector n s = Some (s\<lparr>fs_flash := f',
          fs_logger := (fs_logger s)\<lparr>last_erased_sector := int (fs_write_offset s div sector)\<rparr>,
          fs_write_offset := fs_write_offset s + n, fs_write_size := fs_write_size s - n,
          fs_buffer_offset := fs_buffer_offset s + n\<rparr>)
        \<and> buf_read (cells f') (fs_write_offset s) n = Some bs
        \<and> blank (cells f') (fs_write_offset s + n) (sec_end sector (fs_write_offset s) - (fs_write_offset s + n))
      \<or> \<not> works (fs_flash s) \<and> flush_chunk wr er batch sector n s = Some (s\<lparr>fs_flash := f',
          fs_logger := (fs_logger s)\<lparr>last_erased_sector := int (fs_write_offset s div sector)\<rparr>,
          fs_err := BLACKBOX_LOGGER_ERR_WRITE_FAIL\<rparr>)
        \<and> half_written (cells f') (fs_write_offset s) (sec_end sector (fs_write_offset s)) batch (fs_buffer_offset s) n)"
proof -
  let ?f = "fs_flash s" and ?wo = "fs_write_offset s" and ?lg = "fs_logger s" and ?b = "fs_buffer_offset s"
  let ?q = "?wo div sector" and ?a = "sec_start sector ?wo" and ?e = "sec_end sector ?wo"
  note b = sec_bounds [OF dims(1), of ?wo] and e = sec_end_le [OF dims wo]
  have ps: "length (cells ?f) < 2 ^ 31" by (rule cells_small [OF g])
  note u = sec_u32 [OF dims wo ps]
  have len: "length bs = n" using chunk(1) by (rule buf_read_length)
  have ae: "?a + sector \<le> length (cells ?f)" using b e by simp
  obtain f1 where er1: "(if int ?q \<noteq> last_erased_sector ?lg
       then let (erase_err, f') = er (u32_mul ?q sector) sector ?f
            in (esp_to_blackbox_error_map erase_err, ?lg\<lparr>last_erased_sector := int ?q\<rparr>, f')
       else (BLACKBOX_LOGGER_OK, ?lg, ?f)) = (BLACKBOX_LOGGER_OK, ?lg\<lparr>last_erased_sector := int ?q\<rparr>, f1)"
    and g1: "sound f1" "works f1 = works ?f" "fails f1 = fails ?f" and c1: "cells f1 = (if last_erased_sector ?lg = int ?q then cells ?f
       else overlay (cells ?f) ?a (replicate sector 0xFF))"
  proof (cases "last_erased_sector ?lg = int ?q")
    case True
    then show ?thesis using g by (intro that [of ?f]) (simp_all flip: True)
  next
    case False
    obtain f1 where "er ?a sector ?f = (ESP_OK, f1)" "sound f1" "works f1 = works ?f" "fails f1 = fails ?f"
      "cells f1 = overlay (cells ?f) ?a (replicate sector 0xFF)"
      using erase_any [OF g b(4) dvd_refl ae] by blast
    with False u(2) show ?thesis by (intro that [of f1]) (auto simp: esp_to_blackbox_error_map_def)
  qed
  have l1: "length (cells f1) = length (cells ?f)" using c1 ae by simp
  have h1: "half_written (cells f1) ?wo ?e batch ?b n"
    using ahead c1 b ae by (auto intro!: blank_half_written blank_overlay_erased)
  have same1: "same_but (cells ?f) (cells f1) ?a ?e" using c1 ae b by (auto intro!: same_but_overlay)
  have w: "?wo + length bs \<le> length (cells f1)" "writable (cells f1) ?wo bs"
    using fits len e l1 half_written_writable [OF h1 fits chunk(1)] by simp_all
  obtain e2 f2 where f2: "wr ?wo bs f1 = (e2, f2)" "sound f2" "works f1 \<longrightarrow> works f2 \<and> e2 = ESP_OK"
    "fails f1 (length bs) \<longrightarrow> e2 \<noteq> ESP_OK" "if e2 = ESP_OK then cells f2 = overlay (cells f1) ?wo bs else written_partly (cells f1) ?wo bs (cells f2)"
    using write_any [OF g1(1) w] by blast
  show ?thesis
  proof (cases "e2 = ESP_OK")
    case True
    have "flush_chunk wr er batch sector n s = Some (s\<lparr>fs_flash := f2,
          fs_logger := ?lg\<lparr>last_erased_sector := int ?q\<rparr>, fs_write_offset := ?wo + n,
          fs_write_size := fs_write_size s - n, fs_buffer_offset := ?b + n\<rparr>)"
      using chunk small e fits ps f2(1) True
      by (simp add: flush_chunk_def er1 Let_def esp_to_blackbox_error_map_def u32_add_small u32_sub_small)
    moreover have "buf_read (cells f2) ?wo n = Some bs"
      using overlay_read_same [OF w(1)] len f2(5) True by simp
    moreover have "blank (cells f2) (?wo + n) (?e - (?wo + n))"
      using half_written_blank [OF h1] w len e fits l1 f2(5) True by (simp add: blank_overlay)
    moreover have "same_but (cells f1) (cells f2) ?a ?e"
      using f2(5) True w(1) b fits len by (auto intro!: same_but_overlay)
    ultimately show ?thesis using True f2(2,3,4) g1(2,3) len same_but_trans [OF same1]
      by (intro exI [of _ f2] conjI) auto
  next
    case False
    have "flush_chunk wr er batch sector n s = Some (s\<lparr>fs_flash := f2,
          fs_logger := ?lg\<lparr>last_erased_sector := int ?q\<rparr>, fs_err := BLACKBOX_LOGGER_ERR_WRITE_FAIL\<rparr>)"
      using chunk f2(1) False by (simp add: flush_chunk_def er1 Let_def)
    moreover have "half_written (cells f2) ?wo ?e batch ?b n"
      using half_written_partly [OF h1 chunk(1), of "cells f2"] f2(5) False e l1 by simp
    moreover have "same_but (cells f1) (cells f2) ?a ?e"
      using f2(5) False b fits len by (auto intro!: same_but_partly)
    ultimately show ?thesis using False f2(2,3) g1(2) same_but_trans [OF same1]
      by (intro exI [of _ f2] conjI) auto
  qed
qed

end

section \<open>The loop\<close>

text \<open>The loop's state \<open>s\<close> after a chunk \<open>pre\<close> was written, \<open>post\<close> being left, or its write failed.\<close>

definition chunk_done :: "nat \<Rightarrow> nat \<Rightarrow> nat \<Rightarrow> log_entry list \<Rightarrow> log_entry list \<Rightarrow> 'f \<Rightarrow> 'f flush_state \<Rightarrow> 'f flush_state" where
  "chunk_done sector psize a pre post f s = s\<lparr>
     fs_write_offset_old := write_offset (fs_logger s),
     fs_write_offset := fs_write_offset s + entries_size a pre,
     fs_replay_offset := replay_after sector psize (fs_write_offset s) (fs_replay_offset s),
     fs_buffer_offset := fs_buffer_offset s + entries_size a pre,
     fs_write_size := entries_size a post,
     fs_logger := (fs_logger s)\<lparr>last_erased_sector := int (fs_write_offset s div sector),
       replay_offset := replay_after sector psize (fs_write_offset s) (fs_replay_offset s),
       write_offset := fs_write_offset s + entries_size a pre\<rparr>,
     fs_flash := f\<rparr>"

definition chunk_failed :: "nat \<Rightarrow> nat \<Rightarrow> 'f \<Rightarrow> 'f flush_state \<Rightarrow> 'f flush_state" where
  "chunk_failed sector psize f s = s\<lparr>
     fs_replay_offset := replay_after sector psize (fs_write_offset s) (fs_replay_offset s),
     fs_logger := (fs_logger s)\<lparr>last_erased_sector := int (fs_write_offset s div sector)\<rparr>,
     fs_flash := f, fs_err := BLACKBOX_LOGGER_ERR_WRITE_FAIL\<rparr>"

lemma done_not_failed:
  assumes "fs_err s = BLACKBOX_LOGGER_OK"
  shows "chunk_done sector psize a pre post f s \<noteq> chunk_failed sector psize f' s"
proof
  assume "chunk_done sector psize a pre post f s = chunk_failed sector psize f' s"
  then have "fs_err (chunk_done sector psize a pre post f s) = fs_err (chunk_failed sector psize f' s)" by (rule arg_cong)
  with assms show False by (simp add: chunk_done_def chunk_failed_def)
qed

text \<open>The state after a sector without room was left.\<close>

definition sector_left :: "nat \<Rightarrow> nat \<Rightarrow> 'f flush_state \<Rightarrow> 'f flush_state" where
  "sector_left sector psize s = s\<lparr>
     fs_write_offset_old := write_offset (fs_logger s),
     fs_write_offset := next_start sector psize (fs_write_offset s),
     fs_replay_offset := replay_after sector psize (fs_write_offset s) (fs_replay_offset s),
     fs_logger := (fs_logger s)\<lparr>
       replay_offset := replay_after sector psize (fs_write_offset s) (fs_replay_offset s),
       write_offset := next_start sector psize (fs_write_offset s)\<rparr>\<rparr>"

lemma skip_iteration:
  assumes inv: "flush_inv cells sector a batch es s" and psize: "psize = length (cells (fs_flash s))"
    and none: "fit a (sec_end sector (fs_write_offset s) - fs_write_offset s) es = []"
    and part: "sec_end sector (fs_write_offset s) - fs_write_offset s < sector"
  shows "flush_iteration True wr er batch sector psize a s = Some (sector_left sector psize s)"
  unfolding flush_iteration_over [OF inv psize] Let_def none sector_left_def
  using part inv by (simp add: flush_inv_def)

text \<open>Two loggers that differ in their positions at most.\<close>

definition only_moved :: "'f blackbox_logger \<Rightarrow> 'f blackbox_logger \<Rightarrow> bool" where
  "only_moved lg lg' \<longleftrightarrow> config_ptr lg' = config_ptr lg \<and> last_id lg' = last_id lg \<and> batch_len lg' = batch_len lg
     \<and> sector_buf_lock lg' = sector_buf_lock lg \<and> write_lock lg' = write_lock lg \<and> flush_timer lg' = flush_timer lg"

text \<open>What the loop needs to know of the sector it starts in.\<close>

definition chunk_ahead :: "('f \<Rightarrow> bytes) \<Rightarrow> nat \<Rightarrow> nat \<Rightarrow> bytes \<Rightarrow> log_entry list \<Rightarrow> 'f flush_state \<Rightarrow> bool" where
  "chunk_ahead cells sector a batch pre s \<longleftrightarrow>
     (last_erased_sector (fs_logger s) = int (fs_write_offset s div sector) \<longrightarrow>
        half_written (cells (fs_flash s)) (fs_write_offset s) (sec_end sector (fs_write_offset s)) batch
          (fs_buffer_offset s) (entries_size a pre))"

context unreliable_flash
begin

text \<open>What became of a chunk at the write offset of \<open>s\<close>; \<open>r\<close> is what the iteration returns.\<close>

definition chunk_result ::
    "nat \<Rightarrow> bytes \<Rightarrow> log_entry list \<Rightarrow> log_entry list \<Rightarrow> 'f flush_state \<Rightarrow> 'f flush_state option \<Rightarrow> 'f \<Rightarrow> bool" where
  "chunk_result a batch pre post s r f' \<longleftrightarrow> sound f' \<and> (works (fs_flash s) \<longrightarrow> works f')
     \<and> same_but (cells (fs_flash s)) (cells f') (sec_start sector (fs_write_offset s)) (sec_end sector (fs_write_offset s))
     \<and> (\<not> fails (fs_flash s) (entries_size a pre) \<and> r = Some (chunk_done sector (length (cells (fs_flash s))) a pre post f' s)
         \<and> laid_out a (cells f') (fs_write_offset s) pre
         \<and> blank (cells f') (fs_write_offset s + entries_size a pre)
             (sec_end sector (fs_write_offset s) - (fs_write_offset s + entries_size a pre))
       \<or> \<not> works (fs_flash s) \<and> r = Some (chunk_failed sector (length (cells (fs_flash s))) f' s)
         \<and> half_written (cells f') (fs_write_offset s) (sec_end sector (fs_write_offset s)) batch
             (fs_buffer_offset s) (entries_size a pre))"

lemma flush_iteration_any:
  assumes inv: "flush_inv cells sector a batch es s" and g: "sound (fs_flash s)"
    and pre: "pre = fit a (sec_end sector (fs_write_offset s) - fs_write_offset s) es" "pre \<noteq> []" "es = pre @ post"
    and ahead: "chunk_ahead cells sector a batch pre s"
  shows "\<exists>f'. chunk_result a batch pre post s
    (flush_iteration True wr er batch sector (length (cells (fs_flash s))) a s) f'"
proof -
  let ?wo = "fs_write_offset s" and ?n = "entries_size a pre" and ?psize = "length (cells (fs_flash s))"
  let ?s1 = "s\<lparr>fs_replay_offset := replay_after sector ?psize ?wo (fs_replay_offset s)\<rparr>"
  from inv have i: "0 < sector" "sector dvd length (cells (fs_flash s))" "?wo < length (cells (fs_flash s))"
    "alignment a" "laid_out a batch (fs_buffer_offset s) es" "fs_buffer_offset s \<le> length batch"
    "length batch < 2 ^ 31" "fs_write_size s = entries_size a es" "fs_err s = BLACKBOX_LOGGER_OK"
    by (simp_all add: flush_inv_def)
  have n: "0 < ?n" by (rule entries_size_pos [OF i(4) pre(2)])
  have tot: "fs_buffer_offset s + entries_size a es \<le> length batch" by (rule laid_out_length [OF i(5,6)])
  have es: "entries_size a es = ?n + entries_size a post" by (simp add: pre(3))
  have room: "?n \<le> sec_end sector ?wo - ?wo" using fit_size [of a "sec_end sector ?wo - ?wo" es] pre(1) by simp
  obtain bs where bs: "buf_read batch (fs_buffer_offset s) ?n = Some bs"
    using tot es by (simp add: buf_read_def)
  have small: "sound (fs_flash ?s1)" "?n \<le> fs_write_size ?s1" "fs_write_size ?s1 < 2 ^ 31"
    "fs_buffer_offset ?s1 + ?n < 2 ^ 31" "fs_write_offset ?s1 + ?n \<le> sec_end sector (fs_write_offset ?s1)"
    using g i es tot room sec_bounds(2) [OF i(1), of ?wo] by simp_all
  have "\<exists>f'. sound f' \<and> (works (fs_flash s) \<longrightarrow> works f')
    \<and> same_but (cells (fs_flash s)) (cells f') (sec_start sector ?wo) (sec_end sector ?wo)
    \<and> (\<not> fails (fs_flash s) ?n \<and> flush_chunk wr er batch sector ?n ?s1 = Some (?s1\<lparr>fs_flash := f',
          fs_logger := (fs_logger s)\<lparr>last_erased_sector := int (?wo div sector)\<rparr>,
          fs_write_offset := ?wo + ?n, fs_write_size := fs_write_size s - ?n,
          fs_buffer_offset := fs_buffer_offset s + ?n\<rparr>)
        \<and> buf_read (cells f') ?wo ?n = Some bs
        \<and> blank (cells f') (?wo + ?n) (sec_end sector ?wo - (?wo + ?n))
      \<or> \<not> works (fs_flash s) \<and> flush_chunk wr er batch sector ?n ?s1 = Some (?s1\<lparr>fs_flash := f',
          fs_logger := (fs_logger s)\<lparr>last_erased_sector := int (?wo div sector)\<rparr>,
          fs_err := BLACKBOX_LOGGER_ERR_WRITE_FAIL\<rparr>)
        \<and> half_written (cells f') ?wo (sec_end sector ?wo) batch (fs_buffer_offset s) ?n)"
    using flush_chunk_any [where s = ?s1, OF small(1) i(1) _ _ _ n small(5,2,3,4)] i bs ahead
    by (simp add: chunk_ahead_def)
  then obtain f' where f': "sound f'" "works (fs_flash s) \<longrightarrow> works f'"
    "same_but (cells (fs_flash s)) (cells f') (sec_start sector ?wo) (sec_end sector ?wo)"
    "\<not> fails (fs_flash s) ?n \<and> flush_chunk wr er batch sector ?n ?s1 = Some (?s1\<lparr>fs_flash := f',
          fs_logger := (fs_logger s)\<lparr>last_erased_sector := int (?wo div sector)\<rparr>,
          fs_write_offset := ?wo + ?n, fs_write_size := fs_write_size s - ?n,
          fs_buffer_offset := fs_buffer_offset s + ?n\<rparr>)
        \<and> buf_read (cells f') ?wo ?n = Some bs
        \<and> blank (cells f') (?wo + ?n) (sec_end sector ?wo - (?wo + ?n))
      \<or> \<not> works (fs_flash s) \<and> flush_chunk wr er batch sector ?n ?s1 = Some (?s1\<lparr>fs_flash := f',
          fs_logger := (fs_logger s)\<lparr>last_erased_sector := int (?wo div sector)\<rparr>,
          fs_err := BLACKBOX_LOGGER_ERR_WRITE_FAIL\<rparr>)
        \<and> half_written (cells f') ?wo (sec_end sector ?wo) batch (fs_buffer_offset s) ?n"
    by blast
  note it = flush_iteration_over [OF inv refl, of wr er, unfolded Let_def pre(1) [symmetric] if_P [OF n]]
  have "laid_out a batch (fs_buffer_offset s) pre" using i(5) by (simp add: pre(3) laid_out_append)
  then have out: "laid_out a (cells f') ?wo pre" if "buf_read (cells f') ?wo ?n = Some bs"
    using laid_out_copy [OF _ i(4) bs that] by blast
  have sub: "fs_write_size s - ?n = entries_size a post" using i(8) es by simp
  from f'(4) show ?thesis
  proof
    assume ok: "\<not> fails (fs_flash s) ?n \<and> flush_chunk wr er batch sector ?n ?s1 = Some (?s1\<lparr>fs_flash := f',
          fs_logger := (fs_logger s)\<lparr>last_erased_sector := int (?wo div sector)\<rparr>,
          fs_write_offset := ?wo + ?n, fs_write_size := fs_write_size s - ?n,
          fs_buffer_offset := fs_buffer_offset s + ?n\<rparr>)
        \<and> buf_read (cells f') ?wo ?n = Some bs
        \<and> blank (cells f') (?wo + ?n) (sec_end sector ?wo - (?wo + ?n))"
    then have "flush_iteration True wr er batch sector ?psize a s = Some (chunk_done sector ?psize a pre post f' s)"
      unfolding it using i(9) sub by (simp add: chunk_done_def)
    with ok f'(1-3) out show ?thesis by (auto simp: chunk_result_def)
  next
    assume bad: "\<not> works (fs_flash s) \<and> flush_chunk wr er batch sector ?n ?s1 = Some (?s1\<lparr>fs_flash := f',
          fs_logger := (fs_logger s)\<lparr>last_erased_sector := int (?wo div sector)\<rparr>,
          fs_err := BLACKBOX_LOGGER_ERR_WRITE_FAIL\<rparr>)
        \<and> half_written (cells f') ?wo (sec_end sector ?wo) batch (fs_buffer_offset s) ?n"
    then have "flush_iteration True wr er batch sector ?psize a s = Some (chunk_failed sector ?psize f' s)"
      unfolding it by (simp add: chunk_failed_def)
    with bad f'(1-3) show ?thesis by (auto simp: chunk_result_def)
  qed
qed

text \<open>A batch that fits into the rest of the sector takes one iteration.\<close>

lemma flush_loop_one:
  assumes inv: "flush_inv cells sector a batch es s" and g: "sound (fs_flash s)" and ne: "es \<noteq> []"
    and fits: "fit a (sec_end sector (fs_write_offset s) - fs_write_offset s) es = es"
    and ahead: "chunk_ahead cells sector a batch es s"
  shows "\<exists>f'. chunk_result a batch es [] s (flush_loop True wr er batch sector (length (cells (fs_flash s))) a s) f'"
proof -
  obtain f' where f': "chunk_result a batch es [] s
      (flush_iteration True wr er batch sector (length (cells (fs_flash s))) a s) f'"
    using flush_iteration_any [OF inv g fits [symmetric] ne _ ahead] by auto
  have "flush_loop True wr er batch sector (length (cells (fs_flash s))) a s
      = flush_iteration True wr er batch sector (length (cells (fs_flash s))) a s"
    using f' by (subst flush_loop.simps) (auto simp: chunk_result_def chunk_done_def chunk_failed_def)
  with f' show ?thesis by auto
qed

text \<open>
  A batch that does not fit: either the write of its first part fails, or the loop gets to the
  next sector with the rest.
\<close>

lemma flush_loop_next:
  assumes inv: "flush_inv cells sector a batch es s" and g: "sound (fs_flash s)"
    and psize: "psize = length (cells (fs_flash s))" and dims: "2 * sector \<le> psize"
    and wo: "write_offset (fs_logger s) = fs_write_offset s"
    and pre: "pre = fit a (sec_end sector (fs_write_offset s) - fs_write_offset s) es" "es = pre @ post" "post \<noteq> []"
    and size: "entries_size a es \<le> sector"
    and stuck: "fs_write_offset s + entries_size a pre \<noteq> psize"
    and ahead: "chunk_ahead cells sector a batch pre s"
  shows "(\<exists>f'. \<not> works (fs_flash s) \<and> pre \<noteq> []
      \<and> chunk_result a batch pre post s (flush_loop True wr er batch sector psize a s) f'
      \<and> flush_loop True wr er batch sector psize a s = Some (chunk_failed sector psize f' s))
    \<or> (\<exists>s1. flush_loop True wr er batch sector psize a s = flush_loop True wr er batch sector psize a s1
        \<and> flush_inv cells sector a batch post s1 \<and> sound (fs_flash s1) \<and> (works (fs_flash s) \<longrightarrow> works (fs_flash s1))
        \<and> same_but (cells (fs_flash s)) (cells (fs_flash s1)) (sec_start sector (fs_write_offset s)) (sec_end sector (fs_write_offset s))
        \<and> laid_out a (cells (fs_flash s1)) (fs_write_offset s) pre
        \<and> fs_write_offset s1 = next_start sector psize (fs_write_offset s)
        \<and> fs_buffer_offset s1 = fs_buffer_offset s + entries_size a pre
        \<and> fs_replay_offset s1 = replay_after sector psize (fs_write_offset s) (fs_replay_offset s)
        \<and> write_offset (fs_logger s1) = fs_write_offset s1
        \<and> only_moved (fs_logger s) (fs_logger s1) \<and> last_erased_sector (fs_logger s1)
             = (if pre = [] then last_erased_sector (fs_logger s) else int (fs_write_offset s div sector)))"
proof -
  let ?wo = "fs_write_offset s" and ?n = "entries_size a pre"
  let ?c = "sec_end sector ?wo - ?wo"
  from inv have i: "0 < sector" "sector dvd psize" "?wo < psize" "alignment a" "fs_err s = BLACKBOX_LOGGER_OK"
    "laid_out a batch (fs_buffer_offset s) es" "fs_buffer_offset s \<le> length batch" "length batch < 2 ^ 31"
    "fs_write_size s = entries_size a es" "psize < 2 ^ 31"
    by (simp_all add: flush_inv_def psize)
  have es: "es \<noteq> []" using pre(2,3) by simp
  have post: "0 < entries_size a post" by (rule entries_size_pos [OF i(4) pre(3)])
  have tot: "entries_size a es = ?n + entries_size a post" by (simp add: pre(2))
  have room: "?n \<le> ?c" using fit_size [of a ?c es] pre(1) by simp
  have "es = fit a ?c es @ post" by (subst pre(1) [symmetric]) (rule pre(2))
  then have rest: "fit a (?c - ?n) post = []" unfolding pre(1) by (rule fit_rest)
  note b = sec_bounds [OF i(1), of ?wo] and e = sec_end_le [OF i(1-3)]
  note ns = next_start_facts [OF i(1,2) dims i(3)]
  show ?thesis
  proof (cases "pre = []")
    case True
    have "?c < sector"
    proof (rule ccontr)
      assume "\<not> ?c < sector"
      then have "fit a ?c es = es" using size by (intro fit_all) simp
      with True pre(1) es show False by simp
    qed
    then have "flush_iteration True wr er batch sector psize a s = Some (sector_left sector psize s)"
      using skip_iteration [OF inv psize] True pre(1) by simp
    then have "flush_loop True wr er batch sector psize a s
        = flush_loop True wr er batch sector psize a (sector_left sector psize s)"
      using True tot post i(5,9) by (subst flush_loop.simps) (simp add: sector_left_def)
    moreover have "flush_inv cells sector a batch post (sector_left sector psize s)"
      using i ns pre(2) True psize by (simp add: flush_inv_def sector_left_def)
    ultimately show ?thesis using True g
      by - (rule disjI2, rule exI [of _ "sector_left sector psize s"], simp add: sector_left_def only_moved_def)
  next
    case False
    obtain f1 where f1: "chunk_result a batch pre post s (flush_iteration True wr er batch sector psize a s) f1"
      using flush_iteration_any [OF inv g pre(1) False pre(2) ahead] psize by auto
    show ?thesis
    proof (cases "flush_iteration True wr er batch sector psize a s = Some (chunk_done sector psize a pre post f1 s)")
      case bad: False
      with f1 have it: "flush_iteration True wr er batch sector psize a s = Some (chunk_failed sector psize f1 s)"
        "\<not> works (fs_flash s)" by (auto simp: chunk_result_def psize)
      then have "flush_loop True wr er batch sector psize a s = Some (chunk_failed sector psize f1 s)"
        by (subst flush_loop.simps) (simp add: chunk_failed_def)
      with it f1 False show ?thesis by auto
    next
      case True
      let ?s1 = "chunk_done sector psize a pre post f1 s"
      have loop: "flush_loop True wr er batch sector psize a s = flush_loop True wr er batch sector psize a ?s1"
        using True post i(5) by (subst flush_loop.simps) (simp add: chunk_done_def)
      have r: "sound f1" "works (fs_flash s) \<longrightarrow> works f1" "laid_out a (cells f1) ?wo pre"
        "same_but (cells (fs_flash s)) (cells f1) (sec_start sector ?wo) (sec_end sector ?wo)"
        using f1 True done_not_failed [OF i(5)] by (auto simp: chunk_result_def psize)
      have l1: "length (cells f1) = psize" using r(4) by (simp add: same_but_def psize)
      have inv1: "flush_inv cells sector a batch post (?s1\<lparr>fs_write_offset := w\<rparr>)" if "w < psize" for w
        using i l1 that pre(2) laid_out_length [OF i(6,7)] tot by (simp add: flush_inv_def laid_out_append chunk_done_def)
      show ?thesis
      proof (cases "?wo + ?n = sec_end sector ?wo")
        case full: True
        with stuck e have n: "next_start sector psize ?wo = ?wo + ?n" by (simp add: next_start_def)
        have "flush_inv cells sector a batch post ?s1"
          using inv1 [of "?wo + ?n"] ns(1) n by (simp add: flush_inv_def chunk_done_def)
        with loop r False n show ?thesis
          by - (rule disjI2, rule exI [of _ ?s1], simp add: chunk_done_def only_moved_def)
      next
        case neq: False
        have n: "0 < ?n" by (rule entries_size_pos [OF i(4) False])
        have lt: "?wo + ?n < sec_end sector ?wo" using neq room b by simp
        have same: "(?wo + ?n) div sector = ?wo div sector" by (rule same_sector [OF i(1) _ lt]) simp
        then have se: "sec_end sector (?wo + ?n) = sec_end sector ?wo" by (simp add: sec_end_def)
        have inv2: "flush_inv cells sector a batch post ?s1"
          using inv1 [of "?wo + ?n"] lt e by (simp add: flush_inv_def chunk_done_def)
        let ?s2 = "sector_left sector psize ?s1"
        have "flush_iteration True wr er batch sector psize a ?s1 = Some ?s2"
          using skip_iteration [OF inv2, of psize wr er] rest se l1 n lt b by (simp add: chunk_done_def)
        then have "flush_loop True wr er batch sector psize a ?s1 = flush_loop True wr er batch sector psize a ?s2"
          using post i(5) by (subst flush_loop.simps) (simp add: sector_left_def chunk_done_def)
        moreover have "next_start sector psize (?wo + ?n) = next_start sector psize ?wo" by (simp add: next_start_def se)
        moreover have "flush_inv cells sector a batch post ?s2"
          using inv1 [OF ns(1)] calculation(2) by (simp add: sector_left_def chunk_done_def flush_inv_def)
        moreover have "replay_after sector psize (?wo + ?n) (replay_after sector psize ?wo (fs_replay_offset s))
            = replay_after sector psize ?wo (fs_replay_offset s)"
          by (rule replay_after_again [OF i(1,2) dims i(3) same]) simp
        ultimately show ?thesis using loop r False
          by - (rule disjI2, rule exI [of _ ?s2], simp add: sector_left_def chunk_done_def only_moved_def)
      qed
    qed
  qed
qed

end

section \<open>The logger\<close>

lemma fit_le: "entries_size a (fit a c es) \<le> entries_size a es"
  by (induction a c es rule: fit.induct) auto

text \<open>
  A logger with the entries \<open>es\<close> in its batch that can go on flushing, after a failed flush too: as
  \<open>logger_ready\<close>, but the cells ahead may hold a part of the next chunk.
\<close>

definition part_ahead :: "nat \<Rightarrow> bytes \<Rightarrow> nat \<Rightarrow> bytes \<Rightarrow> nat \<Rightarrow> int \<Rightarrow> nat \<Rightarrow> log_entry list \<Rightarrow> bool" where
  "part_ahead sector m a batch b erased wo es \<longleftrightarrow>
     (erased = -1 \<or> erased = int (wo div sector) \<or> sector dvd wo)
   \<and> (erased = int (wo div sector) \<and> wo < length m \<longrightarrow>
        half_written m wo (sec_end sector wo) batch b (entries_size a (fit a (sec_end sector wo - wo) es)))"

definition logger_resumable ::
    "('f \<Rightarrow> nat \<Rightarrow> nat \<Rightarrow> esp_err \<times> bytes) \<Rightarrow> (nat \<Rightarrow> bytes \<Rightarrow> 'f \<Rightarrow> esp_err \<times> 'f) \<Rightarrow> (nat \<Rightarrow> nat \<Rightarrow> 'f \<Rightarrow> esp_err \<times> 'f)
       \<Rightarrow> ('f \<Rightarrow> bytes) \<Rightarrow> ('f \<Rightarrow> bool) \<Rightarrow> nat \<Rightarrow> 'f blackbox_logger \<Rightarrow> 'f \<Rightarrow> log_entry list \<Rightarrow> bool" where
  "logger_resumable rd wr er cells sound sector lg f es \<longleftrightarrow>
     config_ptr lg \<noteq> None \<and> config_ok rd wr er sector (length (cells f)) (the (config_ptr lg))
     \<and> batch_holds (the (config_ptr lg)) lg es \<and> write_lock lg \<and> sector_buf_lock lg \<and> flush_timer lg \<noteq> None
     \<and> sound f \<and> write_offset lg \<le> length (cells f) \<and> replay_offset lg \<le> length (cells f)
     \<and> part_ahead sector (cells f) (align_of lg) (the (batch_buf (the (config_ptr lg)))) 0
         (last_erased_sector lg) (write_offset lg) es"

lemma ready_resumable:
  "logger_ready rd wr er cells good sector lg f es \<Longrightarrow> logger_resumable rd wr er cells good sector lg f es"
  by (auto simp: logger_ready_def logger_resumable_def erased_ahead_def part_ahead_def blank_half_written)

lemma resumable_ready:
  "logger_resumable rd wr er cells sound sector lg f [] \<Longrightarrow> logger_ready rd wr er cells sound sector lg f []"
  by (auto simp: logger_ready_def logger_resumable_def erased_ahead_def part_ahead_def half_written_0)

text \<open>The soundness of the device and its cells are all that matters of it.\<close>

lemma resumable_device:
  "logger_resumable rd wr er cells sound sector lg f es \<Longrightarrow> cells f' = cells f \<Longrightarrow> sound' f' \<Longrightarrow>
     logger_resumable rd wr er cells sound' sector lg f' es"
  by (simp add: logger_resumable_def)

text \<open>What follows the loop, when \<open>b\<close> bytes of the batch were written and \<open>n\<close> are left.\<close>

lemma flush_finish_part:
  assumes "only_moved lg (fs_logger s)" and "config_ptr lg = Some c" and "batch_buf c = Some batch"
    and "batch_len lg = b + n" and "fs_buffer_offset s = b" and "b + n \<le> length batch" and "length batch < 2 ^ 31"
  shows "\<exists>lg' P batch'. flush_finish c batch s = Some (fs_err s, lg', fs_flash s, on_replay_available_func c \<and> 0 < b)
    \<and> config_ptr lg' = Some (c\<lparr>parameters := P, batch_buf := Some batch'\<rparr>) \<and> length batch' = length batch
    \<and> (\<forall>i < n. batch' ! i = batch ! (b + i)) \<and> batch_len lg' = n \<and> last_id lg' = last_id lg
    \<and> write_offset lg' = fs_write_offset s \<and> replay_offset lg' = fs_replay_offset s
    \<and> last_erased_sector lg' = last_erased_sector (fs_logger s)
    \<and> write_lock lg' = write_lock lg \<and> sector_buf_lock lg' = sector_buf_lock lg \<and> flush_timer lg' = flush_timer lg"
proof -
  have len: "batch_len (fs_logger s) = b + n" "config_ptr (fs_logger s) = Some c"
    using assms(1,2,4) by (simp_all add: only_moved_def)
  have n: "u32_sub (b + n) b = n" using assms(6,7) by (simp add: u32_sub_small)
  define batch' where "batch' = (if 0 < n \<and> 0 < b then overlay batch 0 (take n (drop b batch)) else batch)"
  have "\<forall>i < n. batch' ! i = batch ! (b + i)"
    using assms(6) by (auto simp: batch'_def nth_overlay)
  moreover have "length batch' = length batch" using assms(6) by (simp add: batch'_def)
  moreover
  let ?P = "\<lparr>param_write_offset = fs_write_offset_old s, param_replay_offset = fs_replay_offset s,
    param_last_id = last_id (fs_logger s), param_is_dirty = True\<rparr>"
  let ?lg = "(fs_logger s)\<lparr>config_ptr := Some (c\<lparr>parameters := ?P, batch_buf := Some batch'\<rparr>),
    write_offset := fs_write_offset s, replay_offset := fs_replay_offset s, batch_len := n\<rparr>"
  have "flush_finish c batch s = Some (fs_err s, ?lg, fs_flash s, on_replay_available_func c \<and> 0 < b)"
  proof (cases "0 < n \<and> 0 < b")
    case True
    then have "buf_read batch b n = Some (take n (drop b batch))"
      "buf_write batch 0 (take n (drop b batch)) = Some batch'"
      using assms(6) by (simp_all add: batch'_def buf_read_ok overlay_write)
    with True show ?thesis using len n assms(5)
      by (cases "fs_logger s") (simp add: flush_finish_def update_parameters_internal_def Let_def)
  next
    case False
    then have "batch' = batch" by (simp only: batch'_def if_False)
    with False show ?thesis using len n assms(5)
      by (cases "fs_logger s") (auto simp: flush_finish_def update_parameters_internal_def Let_def)
  qed
  ultimately show ?thesis
    using assms(1) by - (rule exI [of _ ?lg], rule exI [of _ ?P], rule exI [of _ batch'], simp add: only_moved_def)
qed

lemma buf_read_shift:
  assumes "length batch' = length batch" and "\<forall>i < n. batch' ! i = batch ! (b + i)" and "b + n \<le> length batch"
    and "j + k \<le> n"
  shows "buf_read batch' (0 + j) k = buf_read batch (b + j) k"
proof -
  have "take k (drop j batch') = take k (drop (b + j) batch)"
    using assms by (intro nth_equalityI) (simp_all add: add.assoc)
  then show ?thesis using assms by (simp add: buf_read_def)
qed

text \<open>A flush whose loop ended in \<open>s\<close> with the entries \<open>pre\<close> written.\<close>

lemma flush_ends:
  assumes ok: "config_ok rd wr er sector (length (cells f)) c" and cp: "config_ptr lg = Some c"
    and locks: "write_lock lg" "sector_buf_lock lg" "flush_timer lg \<noteq> None"
    and bh: "batch_holds c lg (pre @ post)" and ne: "pre @ post \<noteq> []"
    and loop: "flush_loop True wr er (the (batch_buf c)) sector (length (cells f)) (address_align c) (flush_start lg f) = Some s"
    and s: "only_moved lg (fs_logger s)" "fs_buffer_offset s = entries_size (address_align c) pre"
      "fs_write_offset s \<le> length (cells f)" "fs_replay_offset s \<le> length (cells f)"
    and f': "fs_flash s = f'" "sound f'" "length (cells f') = length (cells f)"
    and ahead: "part_ahead sector (cells f') (address_align c) (the (batch_buf c)) (entries_size (address_align c) pre)
      (last_erased_sector (fs_logger s)) (fs_write_offset s) post"
  shows "\<exists>lg' notified. blackbox_logger_flush True True lg f = Some (fs_err s, lg', f', notified)
    \<and> logger_resumable rd wr er cells sound sector lg' f' post
    \<and> write_offset lg' = fs_write_offset s \<and> last_id lg' = last_id lg \<and> align_of lg' = address_align c"
proof -
  let ?a = "address_align c" and ?b = "entries_size (address_align c) pre" and ?n = "entries_size (address_align c) post"
  obtain batch where b: "batch_buf c = Some batch" using ok by (auto simp: config_ok_def)
  have al: "alignment ?a" using ok by (simp add: config_ok_def)
  have h: "batch_len lg = ?b + ?n" "laid_out ?a batch 0 (pre @ post)" "?b + ?n \<le> length batch" "length batch < 2 ^ 31"
    using bh ok b by (auto simp: batch_holds_def config_ok_def)
  have pos: "0 < batch_len lg" using entries_size_pos [OF al ne] h(1) by simp
  obtain lg' P batch' where fin: "flush_finish c batch s = Some (fs_err s, lg', fs_flash s, on_replay_available_func c \<and> 0 < ?b)"
    "config_ptr lg' = Some (c\<lparr>parameters := P, batch_buf := Some batch'\<rparr>)" "length batch' = length batch"
    "\<forall>i < ?n. batch' ! i = batch ! (?b + i)" "batch_len lg' = ?n" "last_id lg' = last_id lg"
    "write_offset lg' = fs_write_offset s" "replay_offset lg' = fs_replay_offset s"
    "last_erased_sector lg' = last_erased_sector (fs_logger s)"
    "write_lock lg' = write_lock lg" "sector_buf_lock lg' = sector_buf_lock lg" "flush_timer lg' = flush_timer lg"
    using flush_finish_part [OF s(1) cp b h(1) s(2) h(3,4)] by blast
  have run: "blackbox_logger_flush True True lg f = Some (fs_err s, lg', f', on_replay_available_func c \<and> 0 < ?b)"
    unfolding flush_unfold [OF ok cp locks(1) pos] loop using fin(1) f'(1) by (simp add: b)
  let ?c' = "c\<lparr>parameters := P, batch_buf := Some batch'\<rparr>"
  have "laid_out ?a batch ?b post" using h(2) by (simp add: laid_out_append)
  then have "laid_out ?a batch' 0 post"
    by (rule laid_out_transfer [OF _ al])
      (use fin(3) h(3) in simp, rule buf_read_shift [OF fin(3,4) h(3)])
  then have bh': "batch_holds ?c' lg' post"
    using bh fin(3,5) h ok b by (auto simp: batch_holds_def config_ok_def)
  have "config_ok rd wr er sector (length (cells f')) ?c'"
    using ok b fin(3) f'(3) by (simp add: config_ok_def)
  moreover have "part_ahead sector (cells f') ?a batch' 0 (last_erased_sector (fs_logger s)) (fs_write_offset s) post"
  proof -
    let ?w = "fs_write_offset s"
    have "entries_size ?a (fit ?a (sec_end sector ?w - ?w) post) \<le> ?n" by (rule fit_le)
    then have "half_written (cells f') ?w (sec_end sector ?w) batch' 0 (entries_size ?a (fit ?a (sec_end sector ?w - ?w) post))"
      if "half_written (cells f') ?w (sec_end sector ?w) batch ?b (entries_size ?a (fit ?a (sec_end sector ?w - ?w) post))"
      using fin(4) by (intro half_written_batch [OF that]) simp_all
    with ahead show ?thesis by (simp add: part_ahead_def b)
  qed
  ultimately have "logger_resumable rd wr er cells sound sector lg' f' post"
    using bh' fin locks f' s by (simp add: logger_resumable_def align_of_def)
  with run fin show ?thesis by (intro exI [of _ lg']) (simp add: align_of_def)
qed

text \<open>The cells ahead, after a chunk was written and after its write failed.\<close>

lemma done_ahead:
  assumes "0 < sector" and "p + n \<le> sec_end sector p" and "blank m (p + n) (sec_end sector p - (p + n))"
  shows "part_ahead sector m a batch b (int (p div sector)) (p + n) []"
proof (cases "p + n = sec_end sector p")
  case True
  have "(p + n) div sector = p div sector + 1" unfolding True using assms(1) by (simp add: sec_end_def)
  moreover have "sector dvd p + n" unfolding True by (rule sec_bounds(5) [OF assms(1)])
  ultimately show ?thesis by (simp add: part_ahead_def)
next
  case False
  then have lt: "p + n < sec_end sector p" using assms(2) by simp
  have same: "(p + n) div sector = p div sector" by (rule same_sector [OF assms(1) _ lt]) simp
  with assms(3) show ?thesis by (simp add: part_ahead_def sec_end_def half_written_0)
qed

lemma failed_ahead:
  "half_written m wo (sec_end sector wo) batch b (entries_size a (fit a (sec_end sector wo - wo) es)) \<Longrightarrow>
     part_ahead sector m a batch b (int (wo div sector)) wo es"
  by (simp add: part_ahead_def)

text \<open>Whether the batch avoids the one exception, that it fills the partition's last sector exactly.\<close>

definition room_ahead :: "'f blackbox_logger \<Rightarrow> nat \<Rightarrow> nat \<Rightarrow> log_entry list \<Rightarrow> bool" where
  "room_ahead lg sector psize es \<longleftrightarrow> write_offset lg < psize \<and>
     (let pre = fit (align_of lg) (sec_end sector (write_offset lg) - write_offset lg) es
      in pre = es \<or> write_offset lg + entries_size (align_of lg) pre \<noteq> psize)"

context unreliable_flash
begin

lemma resumable_start:
  assumes "logger_resumable rd wr er cells sound sector lg f es" and "es \<noteq> []" and "write_offset lg < length (cells f)"
    and "config_ptr lg = Some c"
    and "pre = fit (address_align c) (sec_end sector (write_offset lg) - write_offset lg) es"
  shows "flush_inv cells sector (address_align c) (the (batch_buf c)) es (flush_start lg f)"
    and "chunk_ahead cells sector (address_align c) (the (batch_buf c)) pre (flush_start lg f)"
proof -
  have r: "config_ok rd wr er sector (length (cells f)) c" "batch_holds c lg es"
    "part_ahead sector (cells f) (address_align c) (the (batch_buf c)) 0 (last_erased_sector lg) (write_offset lg) es"
    using assms(1,4) by (simp_all add: logger_resumable_def align_of_def)
  show "flush_inv cells sector (address_align c) (the (batch_buf c)) es (flush_start lg f)"
    by (rule flush_inv_start [where cells = cells and f = f, OF r(1,2) assms(3)])
  show "chunk_ahead cells sector (address_align c) (the (batch_buf c)) pre (flush_start lg f)"
    using r(3) assms(3,5) by (simp add: chunk_ahead_def part_ahead_def flush_start_def)
qed

lemma flush_any_one:
  assumes ready: "logger_resumable rd wr er cells sound sector lg f es" and ne: "es \<noteq> []"
    and wo: "write_offset lg < length (cells f)"
    and fits: "fit (align_of lg) (sec_end sector (write_offset lg) - write_offset lg) es = es"
  shows "\<exists>err lg' f' notified. blackbox_logger_flush True True lg f = Some (err, lg', f', notified)
    \<and> (works f \<longrightarrow> works f') \<and> last_id lg' = last_id lg \<and> align_of lg' = align_of lg
    \<and> same_but (cells f) (cells f') (sec_start sector (write_offset lg)) (sec_end sector (write_offset lg))
    \<and> (err = BLACKBOX_LOGGER_OK \<and> \<not> fails f (batch_len lg) \<and> logger_resumable rd wr er cells sound sector lg' f' []
        \<and> laid_out (align_of lg) (cells f') (write_offset lg) es
      \<or> err = BLACKBOX_LOGGER_ERR_WRITE_FAIL \<and> \<not> works f \<and> logger_resumable rd wr er cells sound sector lg' f' es
        \<and> write_offset lg' = write_offset lg)"
proof -
  let ?wo = "write_offset lg" and ?s = "flush_start lg f"
  obtain c where cp: "config_ptr lg = Some c" and ok: "config_ok rd wr er sector (length (cells f)) c"
    and bh: "batch_holds c lg es" and r: "write_lock lg" "sector_buf_lock lg" "flush_timer lg \<noteq> None" "sound f"
      "replay_offset lg \<le> length (cells f)"
    using ready by (auto simp: logger_resumable_def)
  have a: "align_of lg = address_align c" by (simp add: align_of_def cp)
  let ?a = "address_align c" and ?b = "the (batch_buf c)"
  have k: "0 < sector" "sector dvd length (cells f)" "alignment ?a" using ok by (simp_all add: config_ok_def)
  note e = sec_end_le [OF k(1,2) wo]
  have f: "fs_write_offset ?s = ?wo" "fs_logger ?s = lg" "fs_flash ?s = f" "fs_buffer_offset ?s = 0"
    "fs_replay_offset ?s = replay_offset lg" "fs_err ?s = BLACKBOX_LOGGER_OK"
    by (simp_all add: flush_start_def)
  have f': "es = fit ?a (sec_end sector ?wo - ?wo) es" using fits a by simp
  note st = resumable_start [OF ready ne wo cp f']
  have room: "?wo + entries_size ?a es \<le> sec_end sector ?wo"
    using fit_size [of ?a "sec_end sector ?wo - ?wo" es] sec_bounds(2) [OF k(1), of ?wo] by (simp flip: f')
  have g: "sound (fs_flash ?s)" "fit ?a (sec_end sector (fs_write_offset ?s) - fs_write_offset ?s) es = es"
    using r(4) f' f by simp_all
  obtain f1 where f1: "chunk_result ?a ?b es [] ?s (flush_loop True wr er ?b sector (length (cells f)) ?a ?s) f1"
    using flush_loop_one [OF st(1) g(1) ne g(2) st(2)] by (auto simp: f)
  then have c1: "sound f1" "works f \<longrightarrow> works f1" "same_but (cells f) (cells f1) (sec_start sector ?wo) (sec_end sector ?wo)"
    by (simp_all add: chunk_result_def f)
  then have l1: "length (cells f1) = length (cells f)" by (simp add: same_but_def)
  have ra: "replay_after sector (length (cells f)) ?wo (replay_offset lg) \<le> length (cells f)"
    by (rule replay_after_le [OF r(5)])
  note ends = flush_ends [where cells = cells and sound = sound and f = f, OF ok cp r(1-3)]
  from f1 consider
      (ok) "\<not> fails f (batch_len lg)" "flush_loop True wr er ?b sector (length (cells f)) ?a ?s = Some (chunk_done sector (length (cells f)) ?a es [] f1 ?s)"
        "laid_out ?a (cells f1) ?wo es" "blank (cells f1) (?wo + entries_size ?a es) (sec_end sector ?wo - (?wo + entries_size ?a es))"
    | (bad) "\<not> works f" "flush_loop True wr er ?b sector (length (cells f)) ?a ?s = Some (chunk_failed sector (length (cells f)) f1 ?s)"
        "half_written (cells f1) ?wo (sec_end sector ?wo) ?b 0 (entries_size ?a es)"
    using bh by (auto simp: chunk_result_def f batch_holds_def)
  then show ?thesis
  proof cases
    case ok
    have "\<exists>lg' notified. blackbox_logger_flush True True lg f
        = Some (fs_err (chunk_done sector (length (cells f)) ?a es [] f1 ?s), lg', f1, notified)
      \<and> logger_resumable rd wr er cells sound sector lg' f1 []
      \<and> write_offset lg' = fs_write_offset (chunk_done sector (length (cells f)) ?a es [] f1 ?s)
      \<and> last_id lg' = last_id lg \<and> align_of lg' = ?a"
      by (rule ends [OF _ _ ok(2), where pre = es and post = "[]"])
        (use bh ne c1 l1 room e ra f done_ahead [OF k(1) room ok(4)] in \<open>simp_all add: chunk_done_def only_moved_def\<close>)
    with ok c1 f show ?thesis unfolding a by (auto simp: chunk_done_def)
  next
    case bad
    have "half_written (cells f1) ?wo (sec_end sector ?wo) ?b 0 (entries_size ?a (fit ?a (sec_end sector ?wo - ?wo) es))"
      using bad(3) f' by simp
    then have "\<exists>lg' notified. blackbox_logger_flush True True lg f
        = Some (fs_err (chunk_failed sector (length (cells f)) f1 ?s), lg', f1, notified)
      \<and> logger_resumable rd wr er cells sound sector lg' f1 es
      \<and> write_offset lg' = fs_write_offset (chunk_failed sector (length (cells f)) f1 ?s)
      \<and> last_id lg' = last_id lg \<and> align_of lg' = ?a"
      by (intro ends [OF _ _ bad(2), where pre = "[]" and post = es])
        (use bh ne c1 l1 wo ra f in \<open>simp_all add: chunk_failed_def only_moved_def failed_ahead\<close>)
    with bad c1 f show ?thesis unfolding a by (auto simp: chunk_failed_def)
  qed
qed

lemma flush_any_two:
  assumes ready: "logger_resumable rd wr er cells sound sector lg f es"
    and wo: "write_offset lg < length (cells f)"
    and pre: "pre = fit (align_of lg) (sec_end sector (write_offset lg) - write_offset lg) es" "es = pre @ post" "post \<noteq> []"
    and stuck: "write_offset lg + entries_size (align_of lg) pre \<noteq> length (cells f)"
    and p: "p = next_start sector (length (cells f)) (write_offset lg)"
  shows "\<exists>err lg' f' notified. blackbox_logger_flush True True lg f = Some (err, lg', f', notified)
    \<and> (works f \<longrightarrow> works f') \<and> last_id lg' = last_id lg \<and> align_of lg' = align_of lg
    \<and> length (cells f') = length (cells f)
    \<and> (err = BLACKBOX_LOGGER_OK \<and> logger_resumable rd wr er cells sound sector lg' f' []
        \<and> laid_out (align_of lg) (cells f') (write_offset lg) pre \<and> laid_out (align_of lg) (cells f') p post
      \<or> err = BLACKBOX_LOGGER_ERR_WRITE_FAIL \<and> \<not> works f
        \<and> (logger_resumable rd wr er cells sound sector lg' f' es \<and> write_offset lg' = write_offset lg
          \<or> logger_resumable rd wr er cells sound sector lg' f' post \<and> write_offset lg' = p
            \<and> laid_out (align_of lg) (cells f') (write_offset lg) pre))"
proof -
  let ?wo = "write_offset lg" and ?s = "flush_start lg f" and ?psize = "length (cells f)"
  obtain c where cp: "config_ptr lg = Some c" and ok: "config_ok rd wr er sector ?psize c"
    and bh: "batch_holds c lg es" and r: "write_lock lg" "sector_buf_lock lg" "flush_timer lg \<noteq> None" "sound f"
      "replay_offset lg \<le> ?psize"
    and pa: "part_ahead sector (cells f) (align_of lg) (the (batch_buf c)) 0 (last_erased_sector lg) ?wo es"
    using ready by (auto simp: logger_resumable_def)
  have a: "align_of lg = address_align c" by (simp add: align_of_def cp)
  let ?a = "address_align c" and ?b = "the (batch_buf c)"
  have k: "0 < sector" "sector dvd ?psize" "2 * sector \<le> ?psize" "alignment ?a" "batch_buf_size c \<le> sector"
    using ok by (simp_all add: config_ok_def)
  have es: "es \<noteq> []" using pre(2,3) by simp
  have size: "entries_size ?a es \<le> sector" using bh k(5) by (simp add: batch_holds_def)
  have f: "fs_write_offset ?s = ?wo" "fs_logger ?s = lg" "fs_flash ?s = f" "fs_buffer_offset ?s = 0"
    "fs_replay_offset ?s = replay_offset lg" "fs_err ?s = BLACKBOX_LOGGER_OK"
    by (simp_all add: flush_start_def)
  note st = resumable_start [OF ready es wo cp pre(1) [unfolded a]]
  note ns = next_start_facts [OF k(1-3) wo, folded p]
  have ra: "replay_after sector ?psize ?wo (replay_offset lg) \<le> ?psize" by (rule replay_after_le [OF r(5)])
  note ends = flush_ends [where cells = cells and sound = sound and f = f, OF ok cp r(1-3)]
  have h: "sound (fs_flash ?s)" "?psize = length (cells (fs_flash ?s))" "write_offset (fs_logger ?s) = fs_write_offset ?s"
    "pre = fit ?a (sec_end sector (fs_write_offset ?s) - fs_write_offset ?s) es"
    "fs_write_offset ?s + entries_size ?a pre \<noteq> ?psize"
    using r(4) f pre(1) a stuck by simp_all
  consider (first) f1 where "\<not> works f" "pre \<noteq> []"
      "chunk_result ?a ?b pre post ?s (flush_loop True wr er ?b sector ?psize ?a ?s) f1"
      "flush_loop True wr er ?b sector ?psize ?a ?s = Some (chunk_failed sector ?psize f1 ?s)"
    | (after) s1 where "flush_loop True wr er ?b sector ?psize ?a ?s = flush_loop True wr er ?b sector ?psize ?a s1"
      "flush_inv cells sector ?a ?b post s1" "sound (fs_flash s1)" "works f \<longrightarrow> works (fs_flash s1)"
      "length (cells (fs_flash s1)) = ?psize" "laid_out ?a (cells (fs_flash s1)) ?wo pre"
      "fs_write_offset s1 = p" "fs_buffer_offset s1 = entries_size ?a pre"
      "fs_replay_offset s1 = replay_after sector ?psize ?wo (replay_offset lg)" "write_offset (fs_logger s1) = p"
      "only_moved lg (fs_logger s1)"
      "last_erased_sector (fs_logger s1) = (if pre = [] then last_erased_sector lg else int (?wo div sector))"
    using flush_loop_next [OF st(1) h(1-2) k(3) h(3,4) pre(2,3) size h(5) st(2)]
    unfolding f p [symmetric] by (auto simp: same_but_def)
  then show ?thesis
  proof cases
    case first
    have f1: "sound f1" "same_but (cells f) (cells f1) (sec_start sector ?wo) (sec_end sector ?wo)"
      "half_written (cells f1) ?wo (sec_end sector ?wo) ?b 0 (entries_size ?a (fit ?a (sec_end sector ?wo - ?wo) es))"
      using first(3,4) done_not_failed [OF f(6), of sector ?psize ?a pre post f1 f1] pre(1) a
      by (auto simp: chunk_result_def f)
    have "\<exists>lg' notified. blackbox_logger_flush True True lg f
        = Some (fs_err (chunk_failed sector ?psize f1 ?s), lg', f1, notified)
      \<and> logger_resumable rd wr er cells sound sector lg' f1 es
      \<and> write_offset lg' = fs_write_offset (chunk_failed sector ?psize f1 ?s)
      \<and> last_id lg' = last_id lg \<and> align_of lg' = ?a"
      by (intro ends [OF _ _ first(4), where pre = "[]" and post = es])
        (use bh es f1 wo ra f in \<open>simp_all add: chunk_failed_def only_moved_def failed_ahead same_but_def\<close>)
    with first(1) f1 f show ?thesis unfolding a by (auto simp: chunk_failed_def same_but_def)
  next
    case after
    have fp: "fit ?a (sec_end sector p - p) post = post"
      using size ns(4) by (intro fit_all) (simp add: pre(2))
    have room: "p + entries_size ?a post \<le> sec_end sector p"
      using ns(4) size sec_bounds(2) [OF k(1), of p] by (simp add: pre(2))
    have ep: "sec_end sector p \<le> ?psize" by (rule sec_end_le [OF k(1,2) ns(1)])
    have "last_erased_sector (fs_logger s1) \<noteq> int (p div sector)"
    proof -
      have "\<not> sector dvd ?wo" if "pre = []"
      proof
        assume "sector dvd ?wo"
        then have "sec_end sector ?wo - ?wo = sector"
          using sec_bounds(3) [OF k(1), of ?wo] by (simp add: sec_start_def)
        then have "fit ?a (sec_end sector ?wo - ?wo) es = es" using size by (intro fit_all) simp
        with that pre(1) es a show False by simp
      qed
      with pa ns(3) after(12) show ?thesis by (auto simp: part_ahead_def)
    qed
    then have ahead: "chunk_ahead cells sector ?a ?b post s1" by (simp add: chunk_ahead_def after(7))
    have fit1: "fit ?a (sec_end sector (fs_write_offset s1) - fs_write_offset s1) post = post"
      using fp after(7) by simp
    obtain f2 where f2: "chunk_result ?a ?b post [] s1 (flush_loop True wr er ?b sector ?psize ?a s1) f2"
      using flush_loop_one [OF after(2,3) pre(3) fit1 ahead] after(5) by auto
    then have c2: "sound f2" "works f \<longrightarrow> works f2" "same_but (cells (fs_flash s1)) (cells f2) (sec_start sector p) (sec_end sector p)"
      using after(4) by (simp_all add: chunk_result_def after(7))
    then have l2: "length (cells f2) = ?psize" using after(5) by (simp add: same_but_def)
    have rb: "replay_after sector ?psize p (fs_replay_offset s1) \<le> ?psize"
      unfolding after(9) by (rule replay_after_le [OF ra])
    have kept: "laid_out ?a (cells f2) ?wo pre"
    proof (rule laid_out_cong [OF after(6) k(4)])
      show "length (cells f2) = length (cells (fs_flash s1))" using l2 after(5) by simp
      fix i n assume span: "?wo \<le> i" "i + n \<le> ?wo + entries_size ?a pre"
      have "entries_size ?a pre \<le> sec_end sector ?wo - ?wo" unfolding pre(1) a by (rule fit_size)
      then have "i + n \<le> sec_end sector ?wo" "sec_start sector ?wo \<le> i"
        using span sec_bounds [OF k(1), of ?wo] by linarith+
      then have "i + n \<le> sec_start sector p \<or> sec_end sector p \<le> i"
        using sectors_disjoint [OF k(1) ns(3)] by linarith
      then show "buf_read (cells f2) i n = buf_read (cells (fs_flash s1)) i n" by (rule same_but_read [OF c2(3)])
    qed
    from f2 consider
        (ok) "flush_loop True wr er ?b sector ?psize ?a ?s = Some (chunk_done sector ?psize ?a post [] f2 s1)"
          "laid_out ?a (cells f2) p post" "blank (cells f2) (p + entries_size ?a post) (sec_end sector p - (p + entries_size ?a post))"
      | (bad) "\<not> works f" "flush_loop True wr er ?b sector ?psize ?a ?s = Some (chunk_failed sector ?psize f2 s1)"
          "half_written (cells f2) p (sec_end sector p) ?b (entries_size ?a pre) (entries_size ?a post)"
      using after(1,4,5,7,8) by (auto simp: chunk_result_def)
    then show ?thesis
    proof cases
      case ok
      have "\<exists>lg' notified. blackbox_logger_flush True True lg f
          = Some (fs_err (chunk_done sector ?psize ?a post [] f2 s1), lg', f2, notified)
        \<and> logger_resumable rd wr er cells sound sector lg' f2 []
        \<and> write_offset lg' = fs_write_offset (chunk_done sector ?psize ?a post [] f2 s1)
        \<and> last_id lg' = last_id lg \<and> align_of lg' = ?a"
        by (rule ends [OF _ _ ok(1), where pre = es and post = "[]"])
          (use bh es c2 l2 room ep rb after pre(2) done_ahead [OF k(1) room ok(3)] in
            \<open>simp_all add: chunk_done_def only_moved_def\<close>)
      moreover have "fs_err s1 = BLACKBOX_LOGGER_OK" using after(2) by (simp add: flush_inv_def)
      ultimately show ?thesis using ok c2 kept l2 unfolding a by (auto simp: chunk_done_def)
    next
      case bad
      have "part_ahead sector (cells f2) ?a ?b (entries_size ?a pre) (int (p div sector)) p post"
        by (rule failed_ahead) (use bad(3) fp in simp)
      then have "\<exists>lg' notified. blackbox_logger_flush True True lg f
          = Some (fs_err (chunk_failed sector ?psize f2 s1), lg', f2, notified)
        \<and> logger_resumable rd wr er cells sound sector lg' f2 post
        \<and> write_offset lg' = fs_write_offset (chunk_failed sector ?psize f2 s1)
        \<and> last_id lg' = last_id lg \<and> align_of lg' = ?a"
        by (intro ends [OF _ _ bad(2), where pre = pre and post = post])
          (use bh es c2 l2 ns(1) rb after pre(2) in \<open>simp_all add: chunk_failed_def only_moved_def\<close>)
      with bad c2 kept l2 after(7) show ?thesis unfolding a by (auto simp: chunk_failed_def)
    qed
  qed
qed

end

section \<open>Flushing again\<close>

text \<open>The entries \<open>es\<close> are in flash: the first ones at \<open>wo\<close>, the others at the next sector's start.\<close>

definition batch_stored :: "nat \<Rightarrow> nat \<Rightarrow> bytes \<Rightarrow> nat \<Rightarrow> log_entry list \<Rightarrow> bool" where
  "batch_stored sector a m wo es \<longleftrightarrow> (\<exists>pre post. es = pre @ post
     \<and> laid_out a m wo pre \<and> laid_out a m (next_start sector (length m) wo) post)"

lemma batch_stored_one: "laid_out a m wo es \<Longrightarrow> batch_stored sector a m wo es"
  unfolding batch_stored_def by (rule exI [of _ es], rule exI [of _ "[]"]) simp

lemma batch_stored_two:
  "laid_out a m wo pre \<Longrightarrow> laid_out a m p post \<Longrightarrow> p = next_start sector (length m) wo \<Longrightarrow>
     batch_stored sector a m wo (pre @ post)"
  unfolding batch_stored_def by blast

text \<open>
  A flush of \<open>es\<close> that left \<open>post\<close> in the batch: nothing was written, or what fits into the sector.
\<close>

definition flush_left ::
    "nat \<Rightarrow> bytes \<Rightarrow> 'f blackbox_logger \<Rightarrow> 'f blackbox_logger \<Rightarrow> log_entry list \<Rightarrow> log_entry list \<Rightarrow> bool" where
  "flush_left sector m lg lg' es post \<longleftrightarrow> post \<noteq> []
     \<and> (post = es \<and> write_offset lg' = write_offset lg
       \<or> (let pre = fit (align_of lg) (sec_end sector (write_offset lg) - write_offset lg) es
          in es = pre @ post \<and> laid_out (align_of lg) m (write_offset lg) pre
             \<and> write_offset lg' = next_start sector (length m) (write_offset lg)))"

lemma room_ahead_rest:
  assumes "room_ahead lg sector n es" and "pre = fit (align_of lg) (sec_end sector (write_offset lg) - write_offset lg) es"
    and "es = pre @ post" "post \<noteq> []"
  shows "write_offset lg + entries_size (align_of lg) pre \<noteq> n"
proof -
  have "pre \<noteq> es" using assms(3,4) by simp
  with assms(1) show ?thesis by (simp add: room_ahead_def Let_def flip: assms(2))
qed

context unreliable_flash
begin

text \<open>A flush, of a batch that avoids the exception, with the two ways it can end.\<close>

lemma flush_any:
  assumes ready: "logger_resumable rd wr er cells sound sector lg f es" and ne: "es \<noteq> []"
    and room: "room_ahead lg sector (length (cells f)) es"
  shows "\<exists>err lg' f' notified. blackbox_logger_flush True True lg f = Some (err, lg', f', notified)
    \<and> last_id lg' = last_id lg \<and> align_of lg' = align_of lg \<and> length (cells f') = length (cells f)
    \<and> (err = BLACKBOX_LOGGER_OK \<and> logger_ready rd wr er cells sound sector lg' f' []
        \<and> batch_stored sector (align_of lg) (cells f') (write_offset lg) es
      \<or> err = BLACKBOX_LOGGER_ERR_WRITE_FAIL \<and> \<not> works f
        \<and> (\<exists>post. logger_resumable rd wr er cells sound sector lg' f' post
            \<and> flush_left sector (cells f') lg lg' es post))"
proof -
  let ?pre = "fit (align_of lg) (sec_end sector (write_offset lg) - write_offset lg) es"
  have wo: "write_offset lg < length (cells f)" using room by (simp add: room_ahead_def)
  show ?thesis
  proof (cases "?pre = es")
    case True
    obtain err lg' f' notified where fl: "blackbox_logger_flush True True lg f = Some (err, lg', f', notified)"
      "last_id lg' = last_id lg" "align_of lg' = align_of lg"
      "same_but (cells f) (cells f') (sec_start sector (write_offset lg)) (sec_end sector (write_offset lg))"
      "err = BLACKBOX_LOGGER_OK \<and> logger_resumable rd wr er cells sound sector lg' f' []
        \<and> laid_out (align_of lg) (cells f') (write_offset lg) es
      \<or> err = BLACKBOX_LOGGER_ERR_WRITE_FAIL \<and> \<not> works f \<and> logger_resumable rd wr er cells sound sector lg' f' es
        \<and> write_offset lg' = write_offset lg"
      using flush_any_one [OF ready ne wo True] by blast
    then have len: "length (cells f') = length (cells f)" by (simp add: same_but_def)
    have "flush_left sector (cells f') lg lg' es es" if "write_offset lg' = write_offset lg"
      using ne that by (simp add: flush_left_def)
    then show ?thesis
      using fl(5) resumable_ready [of rd wr er cells sound sector lg' f'] batch_stored_one [of "align_of lg" "cells f'"]
      by (intro exI [of _ err] exI [of _ lg'] exI [of _ f'] exI [of _ notified] conjI fl(1-3) len) metis
  next
    case False
    obtain post where post: "es = ?pre @ post"
      using fit_prefix [of es "align_of lg" "sec_end sector (write_offset lg) - write_offset lg"] by blast
    then have ne': "post \<noteq> []" using False by (metis append_Nil2)
    note stuck = room_ahead_rest [OF room refl post ne']
    from flush_any_two [OF ready wo refl post ne' stuck refl]
    obtain err lg' f' notified where fl: "blackbox_logger_flush True True lg f = Some (err, lg', f', notified)"
      "last_id lg' = last_id lg" "align_of lg' = align_of lg" "length (cells f') = length (cells f)"
      "err = BLACKBOX_LOGGER_OK \<and> logger_resumable rd wr er cells sound sector lg' f' []
        \<and> laid_out (align_of lg) (cells f') (write_offset lg) ?pre
        \<and> laid_out (align_of lg) (cells f') (next_start sector (length (cells f)) (write_offset lg)) post
      \<or> err = BLACKBOX_LOGGER_ERR_WRITE_FAIL \<and> \<not> works f
        \<and> (logger_resumable rd wr er cells sound sector lg' f' es \<and> write_offset lg' = write_offset lg
          \<or> logger_resumable rd wr er cells sound sector lg' f' post
            \<and> write_offset lg' = next_start sector (length (cells f)) (write_offset lg)
            \<and> laid_out (align_of lg) (cells f') (write_offset lg) ?pre)" by blast
    have st: "batch_stored sector (align_of lg) (cells f') (write_offset lg) es"
      if "laid_out (align_of lg) (cells f') (write_offset lg) ?pre"
        "laid_out (align_of lg) (cells f') (next_start sector (length (cells f)) (write_offset lg)) post"
      using batch_stored_two [OF that] post fl(4) by simp
    have "flush_left sector (cells f') lg lg' es es" if "write_offset lg' = write_offset lg"
      using ne that by (simp add: flush_left_def)
    moreover have "flush_left sector (cells f') lg lg' es post"
      if "write_offset lg' = next_start sector (length (cells f)) (write_offset lg)"
        "laid_out (align_of lg) (cells f') (write_offset lg) ?pre"
      using ne' that fl(4) by (simp add: flush_left_def flip: post)
    ultimately show ?thesis using fl(5) st resumable_ready [of rd wr er cells sound sector lg' f']
      by (intro exI [of _ err] exI [of _ lg'] exI [of _ f'] exI [of _ notified] conjI fl(1-4)) metis
  qed
qed

text \<open>After a failure the next flush on a working device stores what is left, where it belongs.\<close>

lemma flush_again:
  assumes ready: "logger_resumable rd wr er cells sound sector lg f es" and ne: "es \<noteq> []"
    and room: "room_ahead lg sector (length (cells f)) es"
    and run: "blackbox_logger_flush True True lg f = Some (err, lg', f', notified)" and bad: "err \<noteq> BLACKBOX_LOGGER_OK"
    and dev: "sound f2" "works f2" "cells f2 = cells f'"
  shows "\<exists>lg3 f3 notified. blackbox_logger_flush True True lg' f2 = Some (BLACKBOX_LOGGER_OK, lg3, f3, notified)
    \<and> logger_ready rd wr er cells sound sector lg3 f3 [] \<and> last_id lg3 = last_id lg
    \<and> batch_stored sector (align_of lg) (cells f3) (write_offset lg) es"
proof -
  let ?wo = "write_offset lg" and ?n = "length (cells f)"
  let ?pre = "fit (align_of lg) (sec_end sector ?wo - ?wo) es"
  obtain post where fl: "last_id lg' = last_id lg" "align_of lg' = align_of lg" "length (cells f') = ?n"
    "logger_resumable rd wr er cells sound sector lg' f' post" "flush_left sector (cells f') lg lg' es post"
    using flush_any [OF ready ne room] run bad by auto
  obtain pre where p: "last_id lg' = last_id lg" "align_of lg' = align_of lg" "length (cells f') = ?n"
    "es = pre @ post" "post \<noteq> []" "logger_resumable rd wr er cells sound sector lg' f' post"
    "laid_out (align_of lg) (cells f') ?wo pre"
    "pre = [] \<and> write_offset lg' = ?wo \<or> pre = ?pre \<and> write_offset lg' = next_start sector ?n ?wo"
  proof (cases "post = es \<and> write_offset lg' = ?wo")
    case True
    with fl show ?thesis by (intro that [of "[]"]) (simp_all add: flush_left_def)
  next
    case False
    with fl show ?thesis by (intro that [of ?pre]) (auto simp: flush_left_def Let_def)
  qed
  have r2: "logger_resumable rd wr er cells sound sector lg' f2 post"
    using resumable_device [where cells = cells and f = f' and f' = f2] p(6) dev by blast
  have k: "0 < sector" "sector dvd ?n" "2 * sector \<le> ?n" "?wo < ?n" "alignment (align_of lg)" "entries_size (align_of lg) post \<le> sector"
    using ready room p(4) by (auto simp: logger_resumable_def config_ok_def room_ahead_def batch_holds_def align_of_def)
  note ns = next_start_facts [OF k(1-4)]
  from p(8) show ?thesis
  proof (elim disjE conjE)
    assume "pre = []" "write_offset lg' = ?wo"
    then have "room_ahead lg' sector (length (cells f2)) post"
      using room p(2-4) dev(3) by (simp add: room_ahead_def)
    from flush_any [OF r2 p(5) this] dev(2) p(1-4) \<open>pre = []\<close> \<open>write_offset lg' = ?wo\<close> show ?thesis by auto
  next
    assume pre: "pre = fit (align_of lg) (sec_end sector ?wo - ?wo) es" and w: "write_offset lg' = next_start sector ?n ?wo"
    let ?q = "next_start sector ?n ?wo"
    have fits: "fit (align_of lg') (sec_end sector (write_offset lg') - write_offset lg') post = post"
      using k(6) ns(4) by (intro fit_all) (simp add: p(2) w)
    have lt: "write_offset lg' < length (cells f2)" using w ns(1) dev(3) p(3) by simp
    obtain lg3 f3 n3 where fl: "blackbox_logger_flush True True lg' f2 = Some (BLACKBOX_LOGGER_OK, lg3, f3, n3)"
      "last_id lg3 = last_id lg" "same_but (cells f') (cells f3) (sec_start sector ?q) (sec_end sector ?q)"
      "logger_resumable rd wr er cells sound sector lg3 f3 []" "laid_out (align_of lg) (cells f3) ?q post"
      using flush_any_one [OF r2 p(5) lt fits] dev(2,3) p(1,2) w by auto
    have "laid_out (align_of lg) (cells f3) ?wo pre"
    proof (rule laid_out_cong [OF p(7) k(5)])
      show "length (cells f3) = length (cells f')" using fl(3) by (simp add: same_but_def)
      fix i n assume span: "?wo \<le> i" "i + n \<le> ?wo + entries_size (align_of lg) pre"
      have "entries_size (align_of lg) pre \<le> sec_end sector ?wo - ?wo" unfolding pre by (rule fit_size)
      then have "i + n \<le> sec_end sector ?wo" "sec_start sector ?wo \<le> i"
        using span sec_bounds [OF k(1), of ?wo] by linarith+
      then have "i + n \<le> sec_start sector ?q \<or> sec_end sector ?q \<le> i"
        using sectors_disjoint [OF k(1) ns(3)] by linarith
      then show "buf_read (cells f3) i n = buf_read (cells f') i n" by (rule same_but_read [OF fl(3)])
    qed
    then have "batch_stored sector (align_of lg) (cells f3) ?wo (pre @ post)"
      using fl(3,5) p(3) by (intro batch_stored_two) (simp_all add: same_but_def)
    with fl p(4) resumable_ready [OF fl(4)] show ?thesis by auto
  qed
qed

text \<open>Both, for the property below.\<close>

lemma flush_survives:
  assumes ready: "logger_resumable rd wr er cells sound sector lg f es" and ne: "es \<noteq> []"
    and room: "room_ahead lg sector (length (cells f)) es"
  shows "\<exists>err lg1 f1 n1. blackbox_logger_flush True True lg f = Some (err, lg1, f1, n1)
    \<and> (err = BLACKBOX_LOGGER_OK \<and> logger_ready rd wr er cells sound sector lg1 f1 []
        \<and> batch_stored sector (align_of lg) (cells f1) (write_offset lg) es
      \<or> err = BLACKBOX_LOGGER_ERR_WRITE_FAIL \<and> \<not> works f
        \<and> (\<exists>post. post \<noteq> [] \<and> logger_resumable rd wr er cells sound sector lg1 f1 post)
        \<and> (\<forall>f2. sound f2 \<and> works f2 \<and> cells f2 = cells f1 \<longrightarrow>
            (\<exists>lg3 f3 n3. blackbox_logger_flush True True lg1 f2 = Some (BLACKBOX_LOGGER_OK, lg3, f3, n3)
              \<and> logger_ready rd wr er cells sound sector lg3 f3 [] \<and> last_id lg3 = last_id lg
              \<and> batch_stored sector (align_of lg) (cells f3) (write_offset lg) es)))"
proof -
  obtain err lg1 f1 n1 where fl: "blackbox_logger_flush True True lg f = Some (err, lg1, f1, n1)"
    "err = BLACKBOX_LOGGER_OK \<and> logger_ready rd wr er cells sound sector lg1 f1 []
        \<and> batch_stored sector (align_of lg) (cells f1) (write_offset lg) es
      \<or> err = BLACKBOX_LOGGER_ERR_WRITE_FAIL \<and> \<not> works f
        \<and> (\<exists>post. logger_resumable rd wr er cells sound sector lg1 f1 post \<and> flush_left sector (cells f1) lg lg1 es post)"
    using flush_any [OF ready ne room] by blast
  from fl(2) show ?thesis
  proof (elim disjE conjE exE)
    fix post assume bad: "err = BLACKBOX_LOGGER_ERR_WRITE_FAIL" "\<not> works f"
      and post: "logger_resumable rd wr er cells sound sector lg1 f1 post" "flush_left sector (cells f1) lg lg1 es post"
    have "post \<noteq> []" using post(2) by (simp add: flush_left_def)
    moreover have "err \<noteq> BLACKBOX_LOGGER_OK" using bad(1) by simp
    note flush_again [OF ready ne room fl(1) this]
    ultimately show ?thesis using fl(1) bad post(1) by blast
  qed (use fl(1) in blast)
qed

end

text \<open>An entry can be written between the two flushes: it goes behind what is left.\<close>

lemma fit_append: "entries_size a (fit a c es) \<le> entries_size a (fit a c (es @ fs))"
  by (induction a c es rule: fit.induct) auto

lemma resumable_write:
  assumes ready: "logger_resumable rd wr er cells sound sector lg f es" and d: "d \<noteq> []"
    and fits: "batch_len lg + entry_size (align_of lg) (length d) \<le> batch_buf_size (the (config_ptr lg))"
  shows "\<exists>lg'. blackbox_logger_write over_old got_flush_lock True lg (Some (view_of d)) f = Some (BLACKBOX_LOGGER_OK, lg', f, False)
    \<and> logger_resumable rd wr er cells sound sector lg' f (es @ [(u32_add (last_id lg) 1, d)])"
proof -
  obtain c where cp: "config_ptr lg = Some c" and ok: "config_ok rd wr er sector (length (cells f)) c"
    and bh: "batch_holds c lg es" and r: "write_lock lg" "flush_timer lg \<noteq> None"
    using ready by (auto simp: logger_resumable_def)
  let ?a = "address_align c" and ?i = "u32_add (last_id lg) 1" and ?wo = "write_offset lg"
  let ?c = "sec_end sector ?wo - ?wo"
  let ?b' = "overlay (the (batch_buf c)) (batch_len lg) (entry_image ?i d)"
  let ?c' = "c\<lparr>batch_buf := Some ?b'\<rparr>"
  let ?lg' = "lg\<lparr>config_ptr := Some ?c', batch_len := batch_len lg + entry_size ?a (length d),
      last_id := ?i, flush_timer := Some True\<rparr>"
  have fits': "batch_len lg + entry_size ?a (length d) \<le> batch_buf_size c"
    using fits cp by (simp add: align_of_def)
  note w = write_appends [OF ok cp r bh d fits' refl refl]
  have al: "alignment ?a" using ok by (simp add: config_ok_def)
  have room: "batch_len lg + length (entry_image ?i d) \<le> length (the (batch_buf c))"
    using fits' ok entry_size_bounds [OF al, of "length d"] by (simp add: config_ok_def)
  have "part_ahead sector (cells f) ?a ?b' 0 (last_erased_sector lg) ?wo (es @ [(?i, d)])"
  proof -
    have "entries_size ?a (fit ?a ?c es) \<le> batch_len lg" using fit_le [of ?a ?c es] bh by (simp add: batch_holds_def)
    then have "half_written (cells f) ?wo (sec_end sector ?wo) ?b' 0 (entries_size ?a (fit ?a ?c (es @ [(?i, d)])))"
      if "half_written (cells f) ?wo (sec_end sector ?wo) (the (batch_buf c)) 0 (entries_size ?a (fit ?a ?c es))"
      using room by (intro half_written_batch [OF that]) (auto simp: nth_overlay intro: fit_append)
    then show ?thesis using ready cp by (auto simp: logger_resumable_def part_ahead_def align_of_def)
  qed
  then have "logger_resumable rd wr er cells sound sector ?lg' f (es @ [(?i, d)])"
    using ready cp w(2,3) by (simp add: logger_resumable_def align_of_def)
  with w(1) show ?thesis by blast
qed

section \<open>On the mock partition\<close>

lemma mock_unreliable: "unreliable_flash mock_write mock_erase_range memory mock_sound mock_works mock_fails 4096"
  using mock_fault.unreliable_flash_axioms by (simp add: MOCK_SECTOR_SIZE_def)

text \<open>A fault that was injected before the end of the batch makes the flush fail.\<close>

lemma mock_flush_fails:
  assumes "logger_resumable mock_read mock_write mock_erase_range memory mock_sound 4096 lg m es" and "es \<noteq> []"
    and "write_offset lg < length (memory m)"
    and "fit (align_of lg) (sec_end 4096 (write_offset lg) - write_offset lg) es = es"
    and "mock_fails m (batch_len lg)"
  shows "\<exists>lg' m' notified. blackbox_logger_flush True True lg m = Some (BLACKBOX_LOGGER_ERR_WRITE_FAIL, lg', m', notified)
    \<and> logger_resumable mock_read mock_write mock_erase_range memory mock_sound 4096 lg' m' es
    \<and> write_offset lg' = write_offset lg"
  using unreliable_flash.flush_any_one [OF mock_unreliable assms(1-4)] assms(5) by blast

lemma mock_fault_ready:
  assumes "logger_ready mock_read mock_write mock_erase_range memory mock_good 4096 lg m es"
  shows "logger_resumable mock_read mock_write mock_erase_range memory mock_sound 4096 lg (mock_inject_write_failure n m) es"
proof -
  have "mock_good m" using assms by (simp add: logger_ready_def)
  then have "mock_sound (mock_inject_write_failure n m)" "memory (mock_inject_write_failure n m) = memory m"
    by (simp_all add: mock_good_def mock_sound_def mock_inject_write_failure_def)
  then show ?thesis
    using resumable_device [where cells = memory and f = m and f' = "mock_inject_write_failure n m"] ready_resumable [OF assms]
    by blast
qed

section \<open>Properties\<close>

text \<open>
  C12. A flush during which the flash may fail at any byte of any write never loses a record, when
  the write offset is inside the partition and the batch does not fill the partition's last sector
  exactly with more to come (C40 shows the state behind that): it returns, and either all of the
  batch is in flash, or the error is reported and what was not written is still in the batch; then
  one more flush, as soon as the flash works again, stores every record of the batch where it would
  have gone without the fault.
\<close>

theorem blackbox_flush_survives_faults:
  assumes "unreliable_flash wr er cells sound works fails sector"
    and "logger_resumable rd wr er cells sound sector lg f es" and "es \<noteq> []"
    and "room_ahead lg sector (length (cells f)) es"
  shows "\<exists>err lg1 f1 n1. blackbox_logger_flush True True lg f = Some (err, lg1, f1, n1)
    \<and> (err = BLACKBOX_LOGGER_OK \<and> logger_ready rd wr er cells sound sector lg1 f1 []
        \<and> batch_stored sector (align_of lg) (cells f1) (write_offset lg) es
      \<or> err = BLACKBOX_LOGGER_ERR_WRITE_FAIL \<and> \<not> works f
        \<and> (\<exists>post. post \<noteq> [] \<and> logger_resumable rd wr er cells sound sector lg1 f1 post)
        \<and> (\<forall>f2. sound f2 \<and> works f2 \<and> cells f2 = cells f1 \<longrightarrow>
            (\<exists>lg3 f3 n3. blackbox_logger_flush True True lg1 f2 = Some (BLACKBOX_LOGGER_OK, lg3, f3, n3)
              \<and> logger_ready rd wr er cells sound sector lg3 f3 [] \<and> last_id lg3 = last_id lg
              \<and> batch_stored sector (align_of lg) (cells f3) (write_offset lg) es)))"
  by (rule unreliable_flash.flush_survives [OF assms])

lemma blackbox_flush_survives_faults_witness:
  "\<exists>lg lg1 m1 n1 lg3 m3 n3. batch_len lg = 20
    \<and> blackbox_logger_flush True True lg (mock_inject_write_failure 5 mock_example)
      = Some (BLACKBOX_LOGGER_ERR_WRITE_FAIL, lg1, m1, n1)
    \<and> blackbox_logger_flush True True lg1 (m1\<lparr>fail_next_write := False\<rparr>) = Some (BLACKBOX_LOGGER_OK, lg3, m3, n3)
    \<and> batch_stored 4096 4 (memory m3) 0 [(1, [7, 9])]"
proof -
  let ?m = "mock_inject_write_failure 5 mock_example"
  obtain lg where lg: "logger_ready mock_read mock_write mock_erase_range memory mock_good 4096 lg mock_example [(1, [7, 9])]"
    "write_offset lg = 0" "align_of lg = 4" "batch_len lg = 20"
    using ready_example_one [of 0] by auto
  have fits: "fit (align_of lg) (sec_end 4096 (write_offset lg) - write_offset lg) [(1, [7, 9])] = [(1, [7, 9])]"
    by (simp add: lg(2,3) sec_end_def entry_size_def)
  have len: "write_offset lg < length (memory ?m)" by (simp add: lg(2) mock_example_def mock_inject_write_failure_def)
  have "mock_fails ?m (batch_len lg)" by (simp add: mock_fails_def mock_inject_write_failure_def lg(4))
  then obtain lg1 m1 n1 where f1: "blackbox_logger_flush True True lg ?m = Some (BLACKBOX_LOGGER_ERR_WRITE_FAIL, lg1, m1, n1)"
    "logger_resumable mock_read mock_write mock_erase_range memory mock_sound 4096 lg1 m1 [(1, [7, 9])]"
    using mock_flush_fails [OF mock_fault_ready [OF lg(1)] _ len fits] by blast
  have "room_ahead lg 4096 (length (memory ?m)) [(1, [7, 9])]"
    using fits len by (simp add: room_ahead_def Let_def)
  moreover have "mock_sound (m1\<lparr>fail_next_write := False\<rparr>)" "mock_works (m1\<lparr>fail_next_write := False\<rparr>)"
    using f1(2) by (simp_all add: logger_resumable_def mock_sound_def mock_works_def)
  ultimately obtain lg3 m3 n3 where
    "blackbox_logger_flush True True lg1 (m1\<lparr>fail_next_write := False\<rparr>) = Some (BLACKBOX_LOGGER_OK, lg3, m3, n3)"
    "batch_stored 4096 4 (memory m3) 0 [(1, [7, 9])]"
    using blackbox_flush_survives_faults [OF mock_unreliable mock_fault_ready [OF lg(1), of 5]] f1(1) lg(2,3) by fastforce
  with f1(1) lg(4) show ?thesis by - (rule exI [of _ lg], blast)
qed

end
