(* ===== verification/Blackbox_Log.thy ===== *)
theory Blackbox_Log imports Blackbox_Queue Blackbox_Recovery begin

text \<open>
  The log over many sectors: what writes and flushes put where, and that a start from the flash
  alone finds its end.
\<close>

section \<open>The specification\<close>

text \<open>
  The entries of the sectors behind the current one, which are of the previous lap or still blank;
  of the sectors before it, which are done; of the current sector; and of the batch. The oldest
  entry has the number behind \<open>sl_base\<close>.
\<close>

record sector_log =
  sl_old :: "log_entry list list"
  sl_full :: "log_entry list list"
  sl_cur :: "log_entry list"
  sl_pend :: "log_entry list"
  sl_base :: nat

definition sl_stored :: "sector_log \<Rightarrow> log_entry list" where
  "sl_stored s = concat (sl_old s) @ concat (sl_full s) @ sl_cur s"

lemma sl_stored_pend [simp]: "sl_stored (s\<lparr>sl_pend := es\<rparr>) = sl_stored s"
  by (simp add: sl_stored_def)

definition sl_number :: "sector_log \<Rightarrow> nat" where
  "sl_number s = (sl_base s + length (sl_stored s @ sl_pend s)) mod 2 ^ 32"

text \<open>
  The current sector is done: the next one is erased, behind the last one the first one is, and
  its entries are lost.
\<close>

definition next_place :: "log_entry list list \<Rightarrow> log_entry list list \<Rightarrow> log_entry list \<Rightarrow> log_entry list list \<times> log_entry list list" where
  "next_place old full cur = (case old of [] \<Rightarrow> (full @ [cur], []) | _ \<Rightarrow> (old, full @ [cur]))"

definition advance :: "sector_log \<Rightarrow> sector_log" where
  "advance s = (case next_place (sl_old s) (sl_full s) (sl_cur s) of (old, full) \<Rightarrow>
     s\<lparr>sl_old := tl old, sl_full := full, sl_cur := [], sl_base := sl_base s + length (hd old)\<rparr>)"

text \<open>
  A flush puts the longest run of pending entries that fits into the current sector there, and
  the others, when there are any, into the next sector. It fails when the run fills the last sector
  to the end and there are others.
\<close>

definition sector_store :: "nat \<Rightarrow> nat \<Rightarrow> sector_log \<Rightarrow> sector_log option" where
  "sector_store a sector s =
     (let pre = fit a (sector - entries_size a (sl_cur s)) (sl_pend s);
          s1 = s\<lparr>sl_cur := sl_cur s @ pre, sl_pend := []\<rparr> in
      if pre = sl_pend s then Some s1
      else if sl_old s = [] \<and> entries_size a (sl_cur s1) = sector then None
      else Some ((advance s1)\<lparr>sl_cur := drop (length pre) (sl_pend s)\<rparr>))"

datatype log_input = Append bytes | Sync

fun sector_do :: "nat \<Rightarrow> nat \<Rightarrow> nat \<Rightarrow> log_input \<Rightarrow> sector_log \<Rightarrow> (blackbox_logger_err \<times> sector_log) option" where
  "sector_do B a sector (Append d) s =
     do {
       s \<leftarrow> (if entries_size a (sl_pend s) + entry_size a (length d) \<le> B then Some s else sector_store a sector s);
       Some (BLACKBOX_LOGGER_OK, s\<lparr>sl_pend := sl_pend s @ [((sl_number s + 1) mod 2 ^ 32, d)]\<rparr>)
     }"
| "sector_do B a sector Sync s =
     (if sl_pend s = [] then Some (BLACKBOX_LOGGER_ERR_INVALID_ARG, s)
      else map_option (\<lambda>s. (BLACKBOX_LOGGER_OK, s)) (sector_store a sector s))"

fun sector_run :: "nat \<Rightarrow> nat \<Rightarrow> nat \<Rightarrow> log_input list \<Rightarrow> sector_log \<Rightarrow> (blackbox_logger_err list \<times> sector_log) option" where
  "sector_run B a sector [] s = Some ([], s)"
| "sector_run B a sector (x # xs) s =
     do {
       (out, s) \<leftarrow> sector_do B a sector x s;
       (outs, s) \<leftarrow> sector_run B a sector xs s;
       Some (out # outs, s)
     }"

fun appended :: "log_input list \<Rightarrow> bytes list" where
  "appended [] = []"
| "appended (Append d # xs) = d # appended xs"
| "appended (Sync # xs) = appended xs"

text \<open>The log of a blank flash of \<open>n\<close> sectors.\<close>

definition new_log :: "nat \<Rightarrow> sector_log" where
  "new_log n = \<lparr>sl_old = replicate (n - 1) [], sl_full = [], sl_cur = [], sl_pend = [], sl_base = 0\<rparr>"

text \<open>The numbers of the entries count up from \<open>i + 1\<close>, modulo \<open>2 ^ 32\<close>.\<close>

fun numbered :: "nat \<Rightarrow> log_entry list \<Rightarrow> bool" where
  "numbered i [] = True"
| "numbered i ((j, d) # es) \<longleftrightarrow> j = (i + 1) mod 2 ^ 32 \<and> numbered (i + 1) es"

lemma numbered_append [simp]: "numbered i (es @ fs) \<longleftrightarrow> numbered i es \<and> numbered (i + length es) fs"
  by (induction i es rule: numbered.induct) auto

lemma advance_fields [simp]:
  "sl_cur (advance s) = []" "sl_pend (advance s) = sl_pend s"
  "sl_old (advance s) = tl (fst (next_place (sl_old s) (sl_full s) (sl_cur s)))"
  "sl_full (advance s) = snd (next_place (sl_old s) (sl_full s) (sl_cur s))"
  by (simp_all add: advance_def split: prod.splits)

text \<open>Advancing drops the oldest sector and leaves the order of the others and the numbers.\<close>

lemma advance_stored:
  "\<exists>es. sl_stored s = es @ sl_stored (advance s) \<and> sl_base (advance s) = sl_base s + length es"
proof (cases "sl_old s")
  case Nil
  then show ?thesis
    by (cases "sl_full s") (simp_all add: advance_def next_place_def sl_stored_def)
qed (simp add: advance_def next_place_def sl_stored_def)

lemma sector_store_stored:
  assumes "sector_store a sector s = Some s'"
  shows "sl_pend s' = []"
    and "\<exists>es. sl_stored s @ sl_pend s = es @ sl_stored s' \<and> sl_base s' = sl_base s + length es"
proof -
  let ?pre = "fit a (sector - entries_size a (sl_cur s)) (sl_pend s)" and ?post = "drop (length (fit a (sector - entries_size a (sl_cur s)) (sl_pend s))) (sl_pend s)"
  let ?s1 = "s\<lparr>sl_cur := sl_cur s @ ?pre, sl_pend := []\<rparr>"
  obtain fs where "sl_pend s = ?pre @ fs" using fit_prefix by blast
  then have pend: "sl_pend s = ?pre @ ?post" by (metis append_eq_conv_conj)
  have one: "sl_stored s @ sl_pend s = sl_stored ?s1 @ ?post" using pend by (simp add: sl_stored_def)
  obtain es where es: "sl_stored ?s1 = es @ sl_stored (advance ?s1)" "sl_base (advance ?s1) = sl_base s + length es"
    using advance_stored [of ?s1] by auto
  have two: "sl_stored (t\<lparr>sl_cur := fs\<rparr>) = sl_stored t @ fs" if "sl_cur t = []" for t :: sector_log and fs
    using that by (simp add: sl_stored_def)
  show "sl_pend s' = []" using assms by (auto simp: sector_store_def Let_def split: if_splits)
  show "\<exists>es. sl_stored s @ sl_pend s = es @ sl_stored s' \<and> sl_base s' = sl_base s + length es"
  proof (cases "?pre = sl_pend s")
    case True
    then have "s' = ?s1" using assms by (simp add: sector_store_def)
    with one True show ?thesis by simp
  next
    case False
    then have s': "s' = (advance ?s1)\<lparr>sl_cur := ?post\<rparr>" using assms by (auto simp: sector_store_def Let_def split: if_splits)
    then have "sl_stored s' = sl_stored (advance ?s1) @ ?post" by (simp add: two)
    then have "sl_stored s @ sl_pend s = es @ sl_stored s'" unfolding one es(1) by simp
    with es(2) show ?thesis by (intro exI [of _ es]) (simp add: s')
  qed
qed

lemma sector_store_number:
  "sector_store a sector s = Some s' \<Longrightarrow> numbered (sl_base s) (sl_stored s @ sl_pend s) \<Longrightarrow>
     numbered (sl_base s') (sl_stored s') \<and> sl_number s' = sl_number s"
  using sector_store_stored [of a sector s s'] by (fastforce simp: sl_number_def ac_simps)

section \<open>The logger\<close>

fun feed_do :: "log_input \<Rightarrow> 'f blackbox_logger \<times> 'f \<Rightarrow> (blackbox_logger_err \<times> 'f blackbox_logger \<times> 'f) option" where
  "feed_do (Append d) (lg, f) =
     map_option (\<lambda>(err, lg, f, _). (err, lg, f)) (blackbox_logger_write True True True lg (Some (view_of d)) f)"
| "feed_do Sync (lg, f) =
     map_option (\<lambda>(err, lg, f, _). (err, lg, f)) (blackbox_logger_flush True True lg f)"

fun feed_run :: "log_input list \<Rightarrow> 'f blackbox_logger \<times> 'f \<Rightarrow> (blackbox_logger_err list \<times> 'f blackbox_logger \<times> 'f) option" where
  "feed_run [] st = Some ([], st)"
| "feed_run (x # xs) st =
     do {
       (out, st) \<leftarrow> feed_do x st;
       (outs, st) \<leftarrow> feed_run xs st;
       Some (out # outs, st)
     }"

section \<open>The log in the flash\<close>

text \<open>From sector \<open>k0\<close> on, the sectors hold \<open>secs\<close>; one without entries is blank.\<close>

definition sectors_at :: "nat \<Rightarrow> nat \<Rightarrow> bytes \<Rightarrow> nat \<Rightarrow> log_entry list list \<Rightarrow> bool" where
  "sectors_at sector a m k0 secs \<longleftrightarrow> (\<forall>k < length secs. laid_out a m ((k0 + k) * sector) (secs ! k)
     \<and> entries_size a (secs ! k) \<le> sector \<and> (secs ! k = [] \<longrightarrow> blank m ((k0 + k) * sector) sector))"

definition log_held :: "nat \<Rightarrow> nat \<Rightarrow> bytes \<Rightarrow> log_entry list list \<Rightarrow> log_entry list list \<Rightarrow> log_entry list \<Rightarrow> bool" where
  "log_held sector a m old full cur \<longleftrightarrow> length m = (length full + 1 + length old) * sector
     \<and> sectors_at sector a m 0 full \<and> [] \<notin> set full
     \<and> laid_out a m (length full * sector) cur \<and> entries_size a cur \<le> sector
     \<and> sectors_at sector a m (Suc (length full)) old"

lemma sectors_at_Cons:
  "sectors_at sector a m k0 (es # secs) \<longleftrightarrow> laid_out a m (k0 * sector) es \<and> entries_size a es \<le> sector
     \<and> (es = [] \<longrightarrow> blank m (k0 * sector) sector) \<and> sectors_at sector a m (Suc k0) secs"
  by (simp add: sectors_at_def All_less_Suc2)

lemma sectors_at_snoc:
  "sectors_at sector a m k0 (secs @ [es]) \<longleftrightarrow> sectors_at sector a m k0 secs
     \<and> laid_out a m ((k0 + length secs) * sector) es \<and> entries_size a es \<le> sector
     \<and> (es = [] \<longrightarrow> blank m ((k0 + length secs) * sector) sector)"
  by (auto simp: sectors_at_def nth_append less_Suc_eq)

lemma sectors_at_Nil [simp]: "sectors_at sector a m k0 []"
  by (simp add: sectors_at_def)

text \<open>When the current sector is done, its entries become those of a done sector.\<close>

lemma log_held_next:
  assumes held: "log_held sector a m old full cur" and ne: "cur \<noteq> []" and place: "next_place old full cur = (old', full')"
  shows "log_held sector a m (tl old') full' []"
proof (cases old)
  case Nil
  then have "old' = full @ [cur]" "full' = []" using place by (simp_all add: next_place_def)
  moreover obtain es secs where e: "full @ [cur] = es # secs" by (cases "full @ [cur]") auto
  moreover have "sectors_at sector a m 0 (full @ [cur])" using held ne by (simp add: log_held_def sectors_at_snoc)
  ultimately have "sectors_at sector a m (Suc 0) secs" "old' = es # secs" by (simp_all add: sectors_at_Cons)
  moreover have "length full = length secs" using arg_cong [OF e, of length] by simp
  ultimately show ?thesis using held Nil \<open>full' = []\<close> by (simp add: log_held_def)
next
  case (Cons es secs)
  then have "old' = es # secs" "full' = full @ [cur]" using place by (simp_all add: next_place_def)
  with held ne Cons show ?thesis by (auto simp: log_held_def sectors_at_snoc sectors_at_Cons)
qed

text \<open>A change in one sector leaves the others alone.\<close>

lemma sectors_at_other:
  assumes secs: "sectors_at sector a m k0 secs" and al: "alignment a" and len: "length m' = length m"
    and w: "\<And>i n. i + n \<le> sec_start sector wo \<or> sec_end sector wo \<le> i \<Longrightarrow> buf_read m' i n = buf_read m i n"
    and other: "\<forall>k < length secs. k0 + k \<noteq> wo div sector" and room: "(k0 + length secs) * sector \<le> length m"
  shows "sectors_at sector a m' k0 secs"
  unfolding sectors_at_def
proof (intro allI impI)
  fix k assume k: "k < length secs"
  let ?q = "k0 + k"
  have top: "?q * sector + sector \<le> length m"
  proof -
    have "Suc ?q * sector \<le> (k0 + length secs) * sector" using k by (intro mult_le_mono1) simp
    with room show ?thesis by simp
  qed
  have "?q * sector + sector \<le> sec_start sector wo \<or> sec_end sector wo \<le> ?q * sector"
  proof (cases "?q < wo div sector")
    case True
    then have "Suc ?q * sector \<le> wo div sector * sector" by (intro mult_le_mono1) simp
    then show ?thesis by (simp add: sec_start_def)
  next
    case False
    moreover have "?q \<noteq> wo div sector" using other k by blast
    ultimately have "wo div sector + 1 \<le> ?q" by linarith
    then have "(wo div sector + 1) * sector \<le> ?q * sector" by (intro mult_le_mono1)
    then show ?thesis by (simp add: sec_end_def)
  qed
  then have same: "buf_read m' i n = buf_read m i n" if "?q * sector \<le> i" "i + n \<le> ?q * sector + sector" for i n
    using that by (intro w) linarith
  have s: "laid_out a m (?q * sector) (secs ! k)" "entries_size a (secs ! k) \<le> sector" "secs ! k = [] \<longrightarrow> blank m (?q * sector) sector"
    using secs k by (simp_all add: sectors_at_def)
  have "laid_out a m' (?q * sector) (secs ! k)"
    by (rule laid_out_cong [OF s(1) al len]) (use s(2) same in auto)
  moreover have "blank m' (?q * sector) sector" if "secs ! k = []"
    using blank_same [of m "?q * sector" sector m'] s(3) that top same by simp
  ultimately show "laid_out a m' (?q * sector) (secs ! k) \<and> entries_size a (secs ! k) \<le> sector
    \<and> (secs ! k = [] \<longrightarrow> blank m' (?q * sector) sector)" using s(2) by blast
qed

text \<open>The sector of an offset inside it.\<close>

lemma sector_of:
  assumes "n < sector"
  shows "(h * sector + n) div sector = h" "sec_start sector (h * sector + n) = h * sector"
    "sec_end sector (h * sector + n) = Suc h * sector" "sec_end sector (h * sector + n) - (h * sector + n) = sector - n"
proof -
  have "(h * sector + n) div sector = h" using assms by (intro div_nat_eqI) simp_all
  then show "(h * sector + n) div sector = h" "sec_start sector (h * sector + n) = h * sector"
    "sec_end sector (h * sector + n) = Suc h * sector" "sec_end sector (h * sector + n) - (h * sector + n) = sector - n"
    by (simp_all add: sec_start_def sec_end_def)
qed

text \<open>A chunk behind the entries of the current sector.\<close>

lemma log_held_chunk:
  assumes held: "log_held sector a m old full cur" and al: "alignment a"
    and wo: "wo = length full * sector + entries_size a cur" "entries_size a cur < sector"
    and w: "chunk_written sector m wo bs kept m'" "cur \<noteq> [] \<Longrightarrow> kept" "laid_out a m' wo es"
    and fits: "entries_size a (cur @ es) \<le> sector"
  shows "log_held sector a m' old full (cur @ es)"
proof -
  let ?h = "length full"
  have len: "length m' = length m" "length m = (?h + 1 + length old) * sector"
    using w(1) held by (simp_all add: chunk_written_def log_held_def)
  note sec = sector_of [OF wo(2), of ?h, folded wo(1)]
  have "?h * sector \<le> (?h + 1 + length old) * sector" by (intro mult_le_mono1) simp
  then have "sectors_at sector a m' 0 full" "sectors_at sector a m' (Suc ?h) old"
    using held len by (auto intro!: sectors_at_other [OF _ al len(1) chunk_written_other [OF w(1)]] simp: log_held_def sec(1))
  moreover have "laid_out a m' (?h * sector) cur"
  proof (cases "cur = []")
    case False
    show ?thesis
    proof (rule laid_out_cong [OF _ al len(1)])
      show "laid_out a m (?h * sector) cur" using held by (simp add: log_held_def)
      show "buf_read m' i n = buf_read m i n" if "?h * sector \<le> i" "i + n \<le> ?h * sector + entries_size a cur" for i n
        using chunk_written_before [OF w(1), of i n] that sec(2) wo(1) w(2) [OF False] by simp
    qed
  qed simp
  moreover have "laid_out a m' (?h * sector + entries_size a cur) es" using w(3) unfolding wo(1) .
  moreover have "[] \<notin> set full" using held by (simp add: log_held_def)
  ultimately show ?thesis using fits len by (simp only: log_held_def laid_out_append simp_thms)
qed

text \<open>
  The logger and its flash hold the log. Behind the entries of the current sector the flash is
  blank; before the first flush all of it is.
\<close>

definition log_on_flash where
  "log_on_flash rd wr er cells good sector lg f s \<longleftrightarrow>
     logger_ready rd wr er cells good sector lg f (sl_pend s)
     \<and> log_held sector (align_of lg) (cells f) (sl_old s) (sl_full s) (sl_cur s)
     \<and> write_offset lg = length (sl_full s) * sector + entries_size (align_of lg) (sl_cur s)
     \<and> blank (cells f) (length (sl_full s) * sector + entries_size (align_of lg) (sl_cur s)) (sector - entries_size (align_of lg) (sl_cur s))
     \<and> (if sl_cur s = [] then sl_full s = [] \<and> set (sl_old s) \<subseteq> {[]} \<and> sl_base s = 0 else last_erased_sector lg = int (length (sl_full s)))
     \<and> numbered (sl_base s) (sl_stored s @ sl_pend s) \<and> last_id lg = sl_number s"

lemma log_on_flashD:
  assumes "log_on_flash rd wr er cells good sector lg f s"
  obtains c where "config_ptr lg = Some c" "config_ok rd wr er sector (length (cells f)) c" "batch_holds c lg (sl_pend s)"
    "write_lock lg" "good f" "erased_ahead sector (cells f) lg" "align_of lg = address_align c" "alignment (address_align c)"
    "0 < sector" "sector dvd length (cells f)" "entries_size (address_align c) (sl_pend s) \<le> sector"
    "batch_len lg = entries_size (address_align c) (sl_pend s)"
  using assms by (force simp: log_on_flash_def logger_ready_def align_of_def config_ok_def batch_holds_def)

lemma log_held_room: "log_held sector a m old full cur \<Longrightarrow> Suc (length full) * sector \<le> length m"
  by (simp add: log_held_def)

context flash_device
begin

text \<open>
  A flush into one sector: the current one, with \<open>cur\<close> in it, or the next, when \<open>cur\<close> is empty.
\<close>

lemma log_flush_one:
  assumes held: "log_held sector (align_of lg) (cells f) old full cur" and ready: "logger_ready rd wr er cells good sector lg f es"
    and wo: "write_offset lg = length full * sector + entries_size (align_of lg) cur" "entries_size (align_of lg) cur < sector"
    and ne: "es \<noteq> []" and fits: "entries_size (align_of lg) (cur @ es) \<le> sector"
    and er: "cur \<noteq> [] \<Longrightarrow> last_erased_sector lg = int (length full)"
  shows "\<exists>lg' f' b. blackbox_logger_flush True True lg f = Some (BLACKBOX_LOGGER_OK, lg', f', b)
    \<and> logger_ready rd wr er cells good sector lg' f' [] \<and> log_held sector (align_of lg) (cells f') old full (cur @ es)
    \<and> write_offset lg' = length full * sector + entries_size (align_of lg) (cur @ es)
    \<and> blank (cells f') (length full * sector + entries_size (align_of lg) (cur @ es)) (sector - entries_size (align_of lg) (cur @ es))
    \<and> last_erased_sector lg' = int (length full) \<and> last_id lg' = last_id lg
    \<and> align_of lg' = align_of lg \<and> batch_buf_size (the (config_ptr lg')) = batch_buf_size (the (config_ptr lg))"
proof -
  let ?wo = "write_offset lg" and ?a = "align_of lg" and ?n = "length (cells f)"
  obtain c where cp: "config_ptr lg = Some c" and ok: "config_ok rd wr er sector ?n c"
    and bh: "batch_holds c lg es" and r: "write_lock lg" "good f" and ahead: "erased_ahead sector (cells f) lg"
    using ready by (auto simp: logger_ready_def)
  have a: "?a = address_align c" by (simp add: align_of_def cp)
  have k: "alignment ?a" "batch_len lg = entries_size ?a es"
    using ok bh by (simp_all add: config_ok_def batch_holds_def a)
  note sec = sector_of [OF wo(2), of "length full", folded wo(1)]
  have lt: "?wo < ?n" using wo log_held_room [OF held] by simp
  have ft: "entries_size ?a es \<le> sec_end sector ?wo - ?wo" using fits wo sec(4) by simp
  obtain f' bs where fl: "blackbox_logger_flush True True lg f = Some (BLACKBOX_LOGGER_OK,
      flushed c lg sector ?wo (replay_after sector ?n ?wo (replay_offset lg)) (?wo + batch_len lg), f', on_replay_available_func c)"
    "length bs = batch_len lg" "laid_out ?a (cells f') ?wo es"
    "chunk_written sector (cells f) ?wo bs (last_erased_sector lg = int (?wo div sector)) (cells f')"
    using flush_one_chunk [OF ok cp r bh ne lt ahead ft [unfolded a]] a by auto
  let ?lg = "flushed c lg sector ?wo (replay_after sector ?n ?wo (replay_offset lg)) (?wo + batch_len lg)"
  have "fit ?a (sec_end sector ?wo - ?wo) es = es" using ft by (rule fit_all)
  then have "logger_ready rd wr er cells good sector ?lg f' []"
    using flush_stores [OF ready ne lt] fl(1) by auto
  moreover have "log_held sector ?a (cells f') old full (cur @ es)"
    by (rule log_held_chunk [OF held k(1) wo fl(4) _ fl(3) fits]) (use er sec(1) in simp_all)
  moreover have "blank (cells f') (?wo + batch_len lg) (sector - entries_size ?a (cur @ es))"
  proof -
    have "sec_end sector ?wo - (?wo + length bs) = sector - entries_size ?a (cur @ es)"
      using sec(4) fl(2) k(2) by (simp flip: diff_diff_left)
    then show ?thesis using fl(2,4) by (simp add: chunk_written_def)
  qed
  ultimately show ?thesis using fl(1) wo(1) k(2) sec(1) cp
    by (intro exI [of _ ?lg] exI [of _ f'] exI [of _ "on_replay_available_func c"]) (simp add: flushed_def align_of_def add.assoc)
qed

text \<open>A flush that goes on in the next sector.\<close>

lemma log_flush_two:
  assumes held: "log_held sector (align_of lg) (cells f) old full cur" and ready: "logger_ready rd wr er cells good sector lg f es"
    and wo: "write_offset lg = length full * sector + entries_size (align_of lg) cur" "entries_size (align_of lg) cur < sector"
    and pre: "pre = fit (align_of lg) (sector - entries_size (align_of lg) cur) es" "es = pre @ post" "post \<noteq> []"
    and er: "cur \<noteq> []" "last_erased_sector lg = int (length full)"
    and stuck: "\<not> (old = [] \<and> entries_size (align_of lg) (cur @ pre) = sector)"
    and place: "next_place old full (cur @ pre) = (old', full')"
  shows "\<exists>lg' f' b. blackbox_logger_flush True True lg f = Some (BLACKBOX_LOGGER_OK, lg', f', b)
    \<and> logger_ready rd wr er cells good sector lg' f' [] \<and> log_held sector (align_of lg) (cells f') (tl old') full' post
    \<and> write_offset lg' = length full' * sector + entries_size (align_of lg) post
    \<and> blank (cells f') (length full' * sector + entries_size (align_of lg) post) (sector - entries_size (align_of lg) post)
    \<and> last_erased_sector lg' = int (length full') \<and> last_id lg' = last_id lg
    \<and> align_of lg' = align_of lg \<and> batch_buf_size (the (config_ptr lg')) = batch_buf_size (the (config_ptr lg))"
proof -
  let ?wo = "write_offset lg" and ?a = "align_of lg" and ?n = "length (cells f)" and ?h = "length full"
  obtain c where cp: "config_ptr lg = Some c" and ok: "config_ok rd wr er sector ?n c"
    and bh: "batch_holds c lg es" and r: "write_lock lg" "good f" and ahead: "erased_ahead sector (cells f) lg"
    using ready by (auto simp: logger_ready_def)
  have a: "?a = address_align c" by (simp add: align_of_def cp)
  have k: "0 < sector" "sector dvd ?n" "alignment ?a" "entries_size ?a es \<le> sector" "2 * sector \<le> ?n"
    using ok bh by (simp_all add: config_ok_def batch_holds_def a)
  have ne: "es \<noteq> []" using pre(2,3) by simp
  note sec = sector_of [OF wo(2), of ?h, folded wo(1)]
  have n: "?n = (?h + 1 + length old) * sector" using held by (simp add: log_held_def)
  have lt: "?wo < ?n" using wo log_held_room [OF held] by simp
  have cp_fits: "entries_size ?a (cur @ pre) \<le> sector"
    using fit_size [of ?a "sector - entries_size ?a cur" es] wo(2) pre(1) by simp
  have pre': "pre = fit ?a (sec_end sector ?wo - ?wo) es" using pre(1) sec(4) by simp
  have stuck': "?wo + entries_size ?a pre \<noteq> ?n"
  proof
    assume eq: "?wo + entries_size ?a pre = ?n"
    then have e: "?h * sector + entries_size ?a (cur @ pre) = ?h * sector + sector + length old * sector"
      using wo(1) by (simp add: n distrib_right)
    then have "length old * sector = 0" "entries_size ?a (cur @ pre) = sector" using cp_fits by linarith+
    with stuck k(1) show False by simp
  qed
  define p where "p = length full' * sector"
  have lf: "length full' = (if old = [] then 0 else Suc ?h)"
    using place by (auto simp: next_place_def split: list.splits)
  have nx: "p = next_start sector ?n ?wo"
  proof (cases old)
    case Nil
    then show ?thesis using lf sec(3) by (simp add: next_start_def p_def n)
  next
    case (Cons es secs)
    have "Suc ?h * sector < (?h + 1 + length old) * sector" using Cons k(1) by (intro mult_less_mono1) simp_all
    then have "Suc ?h * sector < ?n" by (simp only: n)
    then show ?thesis using lf sec(3) Cons by (simp add: next_start_def p_def)
  qed
  note ns = next_start_facts [OF k(1,2,5) lt, folded nx]
  let ?lg = "flushed c lg sector p (replay_after sector ?n p (replay_after sector ?n ?wo (replay_offset lg)))
        (p + entries_size ?a post)"
  obtain f1 f2 bs1 bs2 where fl: "blackbox_logger_flush True True lg f = Some (BLACKBOX_LOGGER_OK, ?lg, f2, on_replay_available_func c)"
    "length bs1 = entries_size ?a pre" "length bs2 = entries_size ?a post"
    "laid_out ?a (cells f2) ?wo pre" "laid_out ?a (cells f2) p post"
    "if pre = [] then f1 = f else chunk_written sector (cells f) ?wo bs1 (last_erased_sector lg = int (?wo div sector)) (cells f1)"
    "chunk_written sector (cells f1) p bs2 False (cells f2)"
    using flush_two_chunks [OF ok cp r bh lt ahead pre' [unfolded a] pre(2,3) stuck' [unfolded a] nx] a by auto
  have len: "length (cells f1) = ?n" "length (cells f2) = ?n"
    using fl(6,7) by (auto simp: chunk_written_def split: if_splits)
  have "laid_out ?a (cells f1) ?wo pre"
  proof (rule laid_out_cong [OF fl(4) k(3)])
    show "buf_read (cells f1) i j = buf_read (cells f2) i j" if "?wo \<le> i" "i + j \<le> ?wo + entries_size ?a pre" for i j
    proof -
      have "i + j \<le> sec_end sector ?wo" using that cp_fits wo(1) sec(3) by simp
      moreover have "sec_start sector ?wo \<le> i" using that sec_bounds(1) [OF k(1), of ?wo] by linarith
      ultimately have "i + j \<le> sec_start sector p \<or> sec_end sector p \<le> i" using sectors_disjoint [OF k(1) ns(3)] by linarith
      then show ?thesis using chunk_written_other [OF fl(7)] by simp
    qed
  qed (simp add: len)
  then have one: "log_held sector ?a (cells f1) old full (cur @ pre)"
  proof (cases "pre = []")
    case False
    assume lay: "laid_out ?a (cells f1) ?wo pre"
    have w: "chunk_written sector (cells f) ?wo bs1 (last_erased_sector lg = int (?wo div sector)) (cells f1)" using False fl(6) by simp
    show ?thesis by (rule log_held_chunk [OF held k(3) wo w _ lay cp_fits]) (use er(2) sec(1) in simp)
  qed (use held fl(6) in simp)
  have sp: "entries_size ?a post \<le> sector" using k(4) pre(2) by simp
  have "log_held sector ?a (cells f2) (tl old') full' ([] @ post)"
    by (rule log_held_chunk [OF log_held_next [OF one _ place] k(3) _ _ fl(7) _ fl(5)])
      (use er(1) k(1) sp in \<open>simp_all add: p_def\<close>)
  moreover have "fit ?a (sec_end sector ?wo - ?wo) es = es \<or> ?wo + entries_size ?a (fit ?a (sec_end sector ?wo - ?wo) es) \<noteq> ?n"
    using stuck' pre' by simp
  from flush_stores [OF ready ne lt this] fl(1) have "logger_ready rd wr er cells good sector ?lg f2 []" by auto
  moreover have ps: "p div sector = length full'" "sec_end sector p = p + sector" using k(1) by (simp_all add: p_def sec_end_def)
  moreover have "blank (cells f2) (p + entries_size ?a post) (sector - entries_size ?a post)"
    using fl(3,7) ps(2) by (simp add: chunk_written_def)
  ultimately show ?thesis using fl(1) cp
    by (intro exI [of _ ?lg] exI [of _ f2] exI [of _ "on_replay_available_func c"]) (simp add: flushed_def align_of_def p_def)
qed

text \<open>A flush does what the specification does.\<close>

lemma log_flush:
  assumes on: "log_on_flash rd wr er cells good sector lg f s" and ne: "sl_pend s \<noteq> []"
    and spec: "sector_store (align_of lg) sector s = Some s'"
  shows "\<exists>lg' f' b. blackbox_logger_flush True True lg f = Some (BLACKBOX_LOGGER_OK, lg', f', b)
    \<and> log_on_flash rd wr er cells good sector lg' f' s'
    \<and> align_of lg' = align_of lg \<and> batch_buf_size (the (config_ptr lg')) = batch_buf_size (the (config_ptr lg))"
proof (rule log_on_flashD [OF on])
  fix c
  assume c: "align_of lg = address_align c" "alignment (address_align c)" "0 < sector" "entries_size (address_align c) (sl_pend s) \<le> sector"
  let ?a = "align_of lg" and ?old = "sl_old s" and ?full = "sl_full s" and ?cur = "sl_cur s" and ?pend = "sl_pend s"
  let ?pre = "fit ?a (sector - entries_size ?a ?cur) ?pend"
  have h: "logger_ready rd wr er cells good sector lg f ?pend" "log_held sector ?a (cells f) ?old ?full ?cur"
    "write_offset lg = length ?full * sector + entries_size ?a ?cur"
    "if ?cur = [] then ?full = [] \<and> set ?old \<subseteq> {[]} \<and> sl_base s = 0 else last_erased_sector lg = int (length ?full)"
    "numbered (sl_base s) (sl_stored s @ ?pend)" "last_id lg = sl_number s" "entries_size ?a ?cur \<le> sector"
    using on by (simp_all add: log_on_flash_def log_held_def)
  have er: "last_erased_sector lg = int (length ?full)" if "?cur \<noteq> []" using h(4) that by simp
  note num = sector_store_number [OF spec h(5)] sector_store_stored(1) [OF spec]
  obtain post where post: "?pend = ?pre @ post" using fit_prefix by blast
  have drop: "drop (length ?pre) ?pend = post" using post by (metis append_eq_conv_conj)
  consider "?pre = ?pend" | "entries_size ?a ?cur < sector" "?pre \<noteq> ?pend" | "entries_size ?a ?cur = sector" "?pre \<noteq> ?pend"
    using h(7) by linarith
  then show ?thesis
  proof cases
    case 1
    have s': "s' = s\<lparr>sl_cur := ?cur @ ?pend, sl_pend := []\<rparr>" using 1 spec by (simp add: sector_store_def)
    have lt: "entries_size ?a ?cur < sector"
      using fit_size [of ?a "sector - entries_size ?a ?cur" ?pend] 1 entries_size_pos [of ?a ?pend] c(1,2) ne by simp
    then have "entries_size ?a (?cur @ ?pend) \<le> sector"
      using fit_size [of ?a "sector - entries_size ?a ?cur" ?pend] 1 by simp
    from log_flush_one [OF h(2,1,3) lt ne this er] num h(6) ne show ?thesis
      unfolding log_on_flash_def s' by fastforce
  next
    case 2
    have pne: "post \<noteq> []" using 2(2) post by (metis append_Nil2)
    have cne: "?cur \<noteq> []"
    proof
      assume "?cur = []"
      then have "?pre = ?pend" using c(1,4) by (simp add: fit_all)
      with 2(2) show False by simp
    qed
    obtain old' full' where place: "next_place ?old ?full (?cur @ ?pre) = (old', full')" by (meson surj_pair)
    have stuck: "\<not> (?old = [] \<and> entries_size ?a (?cur @ ?pre) = sector)"
      and s': "sl_old s' = tl old'" "sl_full s' = full'" "sl_cur s' = post" "sl_pend s' = []"
      using spec 2(2) place by (auto simp: sector_store_def Let_def drop split: if_splits)
    from log_flush_two [OF h(2,1,3) 2(1) refl post pne cne er [OF cne] stuck place] num h(6) pne
    show ?thesis unfolding log_on_flash_def s' by fastforce
  next
    case 3
    have cne: "?cur \<noteq> []" using 3 c(3) by auto
    have "entries_size ?a ?pre \<le> 0" using fit_size [of ?a "sector - entries_size ?a ?cur" ?pend] 3 by simp
    then have "?pre = []" using entries_size_pos [of ?a ?pre] c(1,2) by fastforce
    then have old: "?old \<noteq> []" and s': "sl_old s' = tl ?old" "sl_full s' = ?full @ [?cur]" "sl_cur s' = ?pend" "sl_pend s' = []"
      using spec 3 by (auto simp: sector_store_def Let_def next_place_def split: if_splits list.splits)
    have "next_place ?old ?full ?cur = (?old, ?full @ [?cur])" using old by (auto simp: next_place_def split: list.splits)
    from log_held_next [OF h(2) cne this] have held: "log_held sector ?a (cells f) (tl ?old) (?full @ [?cur]) []" .
    have wo: "write_offset lg = length (?full @ [?cur]) * sector + entries_size ?a []" using h(3) 3 by simp
    have "entries_size ?a ([] :: log_entry list) < sector" "entries_size ?a ([] @ ?pend) \<le> sector" using c(1,3,4) by simp_all
    from log_flush_one [OF held h(1) wo this(1) ne this(2)] num h(6) ne show ?thesis
      unfolding log_on_flash_def s' by fastforce
  qed
qed

text \<open>A write that fits into the batch, and one that does not.\<close>

lemma log_append:
  assumes on: "log_on_flash rd wr er cells good sector lg f s" and d: "d \<noteq> []"
    and fits: "entries_size (align_of lg) (sl_pend s) + entry_size (align_of lg) (length d) \<le> batch_buf_size (the (config_ptr lg))"
  shows "\<exists>lg'. blackbox_logger_write over_old got_flush_lock True lg (Some (view_of d)) f = Some (BLACKBOX_LOGGER_OK, lg', f, False)
    \<and> log_on_flash rd wr er cells good sector lg' f (s\<lparr>sl_pend := sl_pend s @ [((sl_number s + 1) mod 2 ^ 32, d)]\<rparr>)
    \<and> align_of lg' = align_of lg \<and> batch_buf_size (the (config_ptr lg')) = batch_buf_size (the (config_ptr lg))"
proof (rule log_on_flashD [OF on])
  fix c
  assume c: "config_ptr lg = Some c" "align_of lg = address_align c" "batch_len lg = entries_size (address_align c) (sl_pend s)"
  let ?e = "((sl_number s + 1) mod 2 ^ 32, d)" and ?s' = "s\<lparr>sl_pend := sl_pend s @ [((sl_number s + 1) mod 2 ^ 32, d)]\<rparr>"
  have on': "logger_ready rd wr er cells good sector lg f (sl_pend s)" "last_id lg = sl_number s"
    "numbered (sl_base s) (sl_stored s @ sl_pend s)" using on by (simp_all add: log_on_flash_def)
  have "batch_len lg + entry_size (align_of lg) (length d) \<le> batch_buf_size (the (config_ptr lg))" using fits c by simp
  from write_ready [OF on'(1) d this, of over_old got_flush_lock] obtain lg' where
    w: "blackbox_logger_write over_old got_flush_lock True lg (Some (view_of d)) f = Some (BLACKBOX_LOGGER_OK, lg', f, False)"
    "logger_ready rd wr er cells good sector lg' f (sl_pend s @ [(u32_add (last_id lg) 1, d)])"
    "last_id lg' = u32_add (last_id lg) 1" "write_offset lg' = write_offset lg"
    "last_erased_sector lg' = last_erased_sector lg" "align_of lg' = align_of lg"
    "map_option batch_buf_size (config_ptr lg') = map_option batch_buf_size (config_ptr lg)" by blast
  obtain c' where c': "config_ptr lg' = Some c'" using w(2) by (auto simp: logger_ready_def)
  have n: "u32_add (last_id lg) 1 = (sl_number s + 1) mod 2 ^ 32" using on'(2) by (simp add: u32_add_def)
  have "length (sl_stored ?s' @ sl_pend ?s') = Suc (length (sl_stored s @ sl_pend s))" by simp
  then have "sl_number ?s' = (sl_number s + 1) mod 2 ^ 32" by (simp add: sl_number_def mod_Suc_eq)
  moreover have "numbered (sl_base ?s') (sl_stored ?s' @ sl_pend ?s')"
    using on'(3) by (simp add: sl_number_def mod_Suc_eq add.assoc)
  ultimately have "log_on_flash rd wr er cells good sector lg' f ?s'"
    using on w n by (simp add: log_on_flash_def)
  with w(1,6,7) c(1) c' show ?thesis by auto
qed

lemma log_append_full:
  assumes on: "log_on_flash rd wr er cells good sector lg f s" and d: "d \<noteq> []"
    and one: "entry_size (align_of lg) (length d) \<le> batch_buf_size (the (config_ptr lg))"
    and full: "batch_buf_size (the (config_ptr lg)) < entries_size (align_of lg) (sl_pend s) + entry_size (align_of lg) (length d)"
    and spec: "sector_store (align_of lg) sector s = Some s1"
  shows "\<exists>lg' f' b. blackbox_logger_write True True True lg (Some (view_of d)) f = Some (BLACKBOX_LOGGER_OK, lg', f', b)
    \<and> log_on_flash rd wr er cells good sector lg' f' (s1\<lparr>sl_pend := sl_pend s1 @ [((sl_number s1 + 1) mod 2 ^ 32, d)]\<rparr>)
    \<and> align_of lg' = align_of lg \<and> batch_buf_size (the (config_ptr lg')) = batch_buf_size (the (config_ptr lg))"
proof -
  let ?lg = "lg\<lparr>flush_timer := Some False\<rparr>"
  have ne: "sl_pend s \<noteq> []" using one full by auto
  have al: "align_of ?lg = align_of lg" by (simp add: align_of_def)
  have "logger_ready rd wr er cells good sector ?lg f (sl_pend s) \<longleftrightarrow> logger_ready rd wr er cells good sector lg f (sl_pend s)"
    by (simp add: logger_ready_def batch_holds_def erased_ahead_def) (use on in \<open>auto simp: log_on_flash_def logger_ready_def\<close>)
  then have on': "log_on_flash rd wr er cells good sector ?lg f s" using on al by (simp add: log_on_flash_def)
  obtain lg1 f1 b where fl: "blackbox_logger_flush True True ?lg f = Some (BLACKBOX_LOGGER_OK, lg1, f1, b)"
    "log_on_flash rd wr er cells good sector lg1 f1 s1" "align_of lg1 = align_of lg"
    "batch_buf_size (the (config_ptr lg1)) = batch_buf_size (the (config_ptr lg))"
    using log_flush [OF on' ne] spec unfolding al by auto
  have p: "sl_pend s1 = []" by (rule sector_store_stored(1) [OF spec])
  have "entries_size (align_of lg1) (sl_pend s1) + entry_size (align_of lg1) (length d) \<le> batch_buf_size (the (config_ptr lg1))"
    using one fl(3,4) p by simp
  from log_append [OF fl(2) d this, of True True] obtain lg2 where
    w: "blackbox_logger_write True True True lg1 (Some (view_of d)) f1 = Some (BLACKBOX_LOGGER_OK, lg2, f1, False)"
    "log_on_flash rd wr er cells good sector lg2 f1 (s1\<lparr>sl_pend := sl_pend s1 @ [((sl_number s1 + 1) mod 2 ^ 32, d)]\<rparr>)"
    "align_of lg2 = align_of lg" "batch_buf_size (the (config_ptr lg2)) = batch_buf_size (the (config_ptr lg))"
    using fl(3,4) by auto
  have r: "logger_ready rd wr er cells good sector lg f (sl_pend s)" "logger_ready rd wr er cells good sector lg1 f1 []"
    using on fl(2) p by (simp_all add: log_on_flash_def)
  from w write_after_flush [OF r(1) d one full fl(1) r(2) fl(3,4)] show ?thesis by auto
qed

end

section \<open>The numbers of the log\<close>

lemma u32_sub_int: "int (u32_sub a b) = (int a - int b) mod 2 ^ 32"
proof -
  have "b mod 4294967296 \<le> 4294967296" by simp
  then have "int (u32_sub a b) = (int a + 4294967296 - int b mod 4294967296) mod 4294967296"
    by (simp add: u32_sub_def zmod_int of_nat_diff)
  also have "\<dots> = (int a + 4294967296 - int b) mod 4294967296" by (rule mod_diff_right_eq)
  also have "\<dots> = (int a - int b + 4294967296) mod 4294967296" by (simp add: algebra_simps)
  also have "\<dots> = (int a - int b) mod 2 ^ 32" by simp
  finally show ?thesis .
qed

lemma number_order:
  assumes "m < 2 ^ 31" and "n < 2 ^ 31"
  shows "is_logically_next_in_order_helper ((i + m) mod 2 ^ 32) ((i + n) mod 2 ^ 32) \<longleftrightarrow> n \<le> m"
proof -
  have "int (u32_sub ((i + m) mod 2 ^ 32) ((i + n) mod 2 ^ 32)) = (int m - int n) mod 2 ^ 32"
    unfolding u32_sub_int by (simp add: zmod_int mod_diff_eq)
  also have "\<dots> = (if n \<le> m then int m - int n else int m - int n + 2 ^ 32)"
  proof (cases "n \<le> m")
    case False
    have "(int m - int n) mod 2 ^ 32 = (int m - int n + 2 ^ 32) mod 2 ^ 32" by simp
    also have "\<dots> = int m - int n + 2 ^ 32" using False assms by (intro mod_pos_pos_trivial) simp_all
    finally show ?thesis using False by simp
  qed (use assms in \<open>simp add: mod_pos_pos_trivial\<close>)
  finally show ?thesis using assms by (auto simp: is_logically_next_in_order_helper_def split: if_splits)
qed

lemma numbered_in_order: "numbered i es \<Longrightarrow> in_order (i mod 2 ^ 32) es"
proof (induction i es rule: numbered.induct)
  case (2 i j d es)
  have "is_logically_next_in_order_helper ((i + 1) mod 2 ^ 32) ((i + 0) mod 2 ^ 32)"
    by (subst number_order) simp_all
  with 2 show ?case by simp
qed simp

lemma numbered_first: "numbered i es \<Longrightarrow> es \<noteq> [] \<Longrightarrow> fst (hd es) = (i + 1) mod 2 ^ 32"
  by (cases "(i, es)" rule: numbered.cases) auto

lemma numbered_last: "numbered i es \<Longrightarrow> es \<noteq> [] \<Longrightarrow> last_number j es = (i + length es) mod 2 ^ 32"
  by (induction i es arbitrary: j rule: numbered.induct) (auto simp: last_number_def split: if_splits)

lemma numbered_nth_sector:
  "numbered i (concat secs) \<Longrightarrow> k < length secs \<Longrightarrow> numbered (i + length (concat (take k secs))) (secs ! k)"
proof -
  assume n: "numbered i (concat secs)" and k: "k < length secs"
  have "concat secs = concat (take k secs) @ secs ! k @ concat (drop (Suc k) secs)"
    using k by (metis Cons_nth_drop_Suc append_take_drop_id concat.simps(2) concat_append)
  with n show ?thesis by simp
qed

lemma entries_count: "alignment a \<Longrightarrow> 18 * length es \<le> entries_size a es"
proof (induction es)
  case (Cons e es)
  then show ?case using entry_size_bounds [of a "length (snd e)"] by (cases e) force
qed simp

lemma sectors_count:
  assumes "alignment a" and "sectors_at sector a m k0 secs"
  shows "18 * length (concat secs) \<le> length secs * sector"
  using assms(2)
proof (induction secs arbitrary: k0)
  case (Cons es secs)
  then have "18 * length (concat secs) \<le> length secs * sector" "entries_size a es \<le> sector"
    by (auto simp: sectors_at_Cons)
  with entries_count [OF assms(1), of es] show ?case by simp
qed simp

lemma in_order_first: "in_order i es \<Longrightarrow> es \<noteq> [] \<Longrightarrow> in_order (fst (hd es)) es"
  by (cases "(i, es)" rule: in_order.cases) (auto simp: next_self)

section \<open>A start from the flash\<close>

context flash_device
begin

text \<open>What the binary search reads at the start of a sector.\<close>

lemma log_header:
  assumes secs: "sectors_at sector a (cells f) k0 secs" "k < length secs" "secs ! k \<noteq> []"
    and num: "numbered i (concat secs)" and n: "length (cells f) < 2 ^ 31"
  shows "header_magic (sector_header sector (cells f) (k0 + k)) = BLACKBOX_LOGGER_HEADER_MAGIC"
    "entry_id (sector_header sector (cells f) (k0 + k)) = (i + 1 + length (concat (take k secs))) mod 2 ^ 32"
proof -
  have lay: "laid_out a (cells f) ((k0 + k) * sector) (secs ! k)" using secs by (simp add: sectors_at_def)
  obtain j d fs where e: "secs ! k = (j, d) # fs" using secs(3) by (cases "secs ! k") auto
  have "fst (hd (secs ! k)) = (i + length (concat (take k secs)) + 1) mod 2 ^ 32"
    by (rule numbered_first [OF numbered_nth_sector [OF num secs(2)] secs(3)])
  then have j: "j = (i + 1 + length (concat (take k secs))) mod 2 ^ 32" by (simp add: e)
  have "sector_header sector (cells f) (k0 + k)
    = \<lparr>header_magic = BLACKBOX_LOGGER_HEADER_MAGIC, entry_id = j, entry_length = length d\<rparr>"
    unfolding sector_header_def by (rule stored_header [OF lay [unfolded e] _ n]) (simp add: j)
  then show "header_magic (sector_header sector (cells f) (k0 + k)) = BLACKBOX_LOGGER_HEADER_MAGIC"
    "entry_id (sector_header sector (cells f) (k0 + k)) = (i + 1 + length (concat (take k secs))) mod 2 ^ 32"
    by (simp_all add: j)
qed

lemma take_concat_length:
  "length (concat (take k secs)) \<le> length (concat secs)"
  "k < length secs \<Longrightarrow> secs ! k \<noteq> [] \<Longrightarrow> length (concat (take k secs)) < length (concat secs)"
proof -
  have e: "length (concat secs) = length (concat (take k secs)) + length (concat (drop k secs))"
    by (metis append_take_drop_id concat_append length_append)
  then show "length (concat (take k secs)) \<le> length (concat secs)" by simp
  assume "k < length secs" "secs ! k \<noteq> []"
  then have "0 < length (concat (drop k secs))" by (subst Cons_nth_drop_Suc [symmetric]) simp_all
  with e show "length (concat (take k secs)) < length (concat secs)" by simp
qed

lemma log_searched:
  assumes held: "log_held sector a (cells f) old full cur" and ne: "cur \<noteq> []" and num: "numbered i (concat old @ concat full @ cur)"
    and al: "alignment a" and s: "12 \<le> sector" and n: "length (cells f) < 2 ^ 31"
  defines "base \<equiv> (i + 1 + length (concat old)) mod 2 ^ 32"
  shows "length (concat old @ concat full @ cur) < 2 ^ 31"
    and "base = (if header_magic (sector_header sector (cells f) 0) = BLACKBOX_LOGGER_HEADER_MAGIC
      then entry_id (sector_header sector (cells f) 0) else 0)"
    and "\<forall>k < length (cells f) div sector. sector_newer sector (cells f) base k \<longleftrightarrow> k < Suc (length full)"
    and "found sector (cells f) base (Suc (length full)) = (int (length full), fst (hd cur))"
proof -
  let ?secs = "full @ [cur]"
  have secs: "sectors_at sector a (cells f) 0 ?secs" "sectors_at sector a (cells f) (Suc (length full)) old"
    "length (cells f) = (length full + 1 + length old) * sector" "[] \<notin> set ?secs"
    using held ne by (auto simp: log_held_def sectors_at_snoc)
  have nums: "numbered (i + length (concat old)) (concat ?secs)" "numbered i (concat old)" using num by simp_all
  have nth: "?secs ! k \<noteq> []" if "k < Suc (length full)" for k using secs(4) that nth_mem [of k ?secs] by fastforce
  have new: "header_magic (sector_header sector (cells f) k) = BLACKBOX_LOGGER_HEADER_MAGIC"
    "entry_id (sector_header sector (cells f) k) = (i + 1 + (length (concat old) + length (concat (take k ?secs)))) mod 2 ^ 32"
    if "k < Suc (length full)" for k
    using log_header [OF secs(1) _ nth [OF that] nums(1) n] that by (simp_all add: ac_simps)
  have "18 * (length (concat old) + length (concat ?secs)) \<le> length (cells f)"
    using sectors_count [OF al secs(1)] sectors_count [OF al secs(2)] by (simp add: secs(3) distrib_right)
  then have small: "length (concat old) + length (concat ?secs) < 2 ^ 31" using n by simp
  then show "length (concat old @ concat full @ cur) < 2 ^ 31" by simp
  show "base = (if header_magic (sector_header sector (cells f) 0) = BLACKBOX_LOGGER_HEADER_MAGIC
      then entry_id (sector_header sector (cells f) 0) else 0)" using new [of 0] by (simp add: base_def)
  have "fst (hd cur) = (i + (length (concat old) + length (concat full)) + 1) mod 2 ^ 32"
    using num ne by (intro numbered_first) (simp_all add: add.assoc)
  then show "found sector (cells f) base (Suc (length full)) = (int (length full), fst (hd cur))"
    using new(2) [of "length full"] by (simp add: found_def)
  show "\<forall>k < length (cells f) div sector. sector_newer sector (cells f) base k \<longleftrightarrow> k < Suc (length full)"
  proof (intro allI impI)
    fix k assume k: "k < length (cells f) div sector"
    show "sector_newer sector (cells f) base k \<longleftrightarrow> k < Suc (length full)"
    proof (cases "k < Suc (length full)")
      case True
      have "length (concat old) + length (concat (take k ?secs)) < 2 ^ 31" "length (concat old) < 2 ^ 31"
        using small take_concat_length(1) [of k ?secs] by linarith+
      from number_order [OF this, of "i + 1"] show ?thesis using new [OF True] True by (simp add: sector_newer_def base_def)
    next
      case False
      let ?k = "k - Suc (length full)"
      have kn: "k = Suc (length full) + ?k" "?k < length old" using False k secs(3) s by simp_all
      show ?thesis
      proof (cases "old ! ?k = []")
        case True
        have "blank (cells f) ((Suc (length full) + ?k) * sector) sector" using secs(2) kn(2) True unfolding sectors_at_def by blast
        then have "blank (cells f) (k * sector) sector" by (simp only: kn(1) [symmetric])
        then have "blank (cells f) (k * sector) 4" using s by (simp add: blank_def)
        moreover have "Suc k * sector \<le> length (cells f)" unfolding secs(3) using kn by (intro mult_le_mono1) simp
        ultimately show ?thesis using blank_header [of "cells f" "k * sector"] s False
          by (simp add: sector_newer_def sector_header_def)
      next
        case ne: False
        have "\<not> is_logically_next_in_order_helper (entry_id (sector_header sector (cells f) k)) base"
          using number_order [of "length (concat (take ?k old))" "length (concat old)" "i + 1"] small
            take_concat_length(2) [OF kn(2) ne] log_header(2) [OF secs(2) kn(2) ne nums(2) n]
          unfolding kn(1) [symmetric] base_def by simp
        then show ?thesis using False by (simp add: sector_newer_def)
      qed
    qed
  qed
qed

lemma log_blank:
  assumes held: "log_held sector a (cells f) old [] []" and old: "set old \<subseteq> {[]}" and bl: "blank (cells f) 0 sector" and s: "0 < sector"
  shows "blank (cells f) 0 (length (cells f))"
  unfolding blank_def
proof (intro allI impI)
  fix i assume i: "0 \<le> i \<and> i < 0 + length (cells f)"
  let ?q = "i div sector"
  have at: "?q * sector \<le> i" "i < ?q * sector + sector" using sec_bounds [OF s, of i] by (simp_all add: sec_start_def sec_end_def)
  show "cells f ! i = 0xFF"
  proof (cases ?q)
    case 0
    then show ?thesis using bl at by (simp add: blank_def)
  next
    case (Suc k)
    have "?q < 1 + length old" using i held s by (simp add: log_held_def less_mult_imp_div_less)
    then have k: "k < length old" using Suc by simp
    then have "old ! k = []" using old nth_mem by fastforce
    then have "blank (cells f) (Suc k * sector) sector" using held k by (force simp: log_held_def sectors_at_def)
    then show ?thesis using at Suc by (simp add: blank_def)
  qed
qed

text \<open>
  The start finds the end of the log, whether or not its sector has room for another header.
\<close>

lemma log_found:
  assumes held: "log_held sector (address_align c) (cells f) old full cur" and ok: "config_ok rd wr er sector (length (cells f)) c"
    and g: "good f" and s: "12 \<le> sector" and hint: "hint_lost (cells f) (param_write_offset (parameters c))"
    and replay: "param_replay_offset (parameters c) \<le> length (cells f)"
    and no: "entries_size (address_align c) cur + 12 \<le> sector \<Longrightarrow>
      no_entry (cells f) (length full * sector + entries_size (address_align c) cur) (sector - entries_size (address_align c) cur)"
    and empty: "cur = [] \<Longrightarrow> full = [] \<and> set old \<subseteq> {[]} \<and> blank (cells f) 0 sector" and num: "numbered i (concat old @ concat full @ cur)"
  shows "\<exists>lg. blackbox_logger_init over_old True True ESP_OK True True lg0 (Some c) f = Some (BLACKBOX_LOGGER_OK, lg, f)
    \<and> write_offset lg = length full * sector + entries_size (address_align c) cur
    \<and> last_id lg = (if cur = [] then 0 else (i + length (concat old @ concat full @ cur)) mod 2 ^ 32)
    \<and> logger_ready rd wr er cells good sector lg f []"
proof (cases "cur = []")
  case True
  then have "blank (cells f) 0 (length (cells f))" using held s empty [OF True] log_blank [of "address_align c" f old] by simp
  from init_blank_flash [OF ok g s hint replay this, of over_old lg0] True empty show ?thesis by auto
next
  case ne: False
  let ?a = "address_align c" and ?h = "length full * sector" and ?n = "length (cells f) div sector"
  have c: "alignment ?a" "length (cells f) < 2 ^ 31" "0 < sector" "2 * sector \<le> length (cells f)"
    using ok by (simp_all add: config_ok_def)
  note srch = log_searched [OF held ne num c(1) s c(2)]
  have cur: "laid_out ?a (cells f) ?h cur" "entries_size ?a cur \<le> sector" and n: "?n = length full + 1 + length old"
    using held c(3) by (simp_all add: log_held_def)
  have numc: "numbered (i + length (concat old @ concat full)) cur" using num by (simp add: add.assoc)
  have ord: "in_order (fst (hd cur)) cur" using in_order_first [OF numbered_in_order [OF numc] ne] .
  have lastn: "last_number (fst (hd cur)) cur = (i + length (concat old @ concat full @ cur)) mod 2 ^ 32"
    using numbered_last [OF numc ne] by (simp add: add.assoc)
  have top: "?h + sector \<le> length (cells f)" using log_held_room [OF held] by simp
  have room: "length full < ?n" and cnt: "Suc (length full) \<le> ?n" using n by simp_all
  have "\<exists>lg. blackbox_logger_init over_old True True ESP_OK True True lg0 (Some c) f = Some (BLACKBOX_LOGGER_OK, lg, f)
    \<and> write_offset lg = ?h + entries_size ?a cur \<and> replay_offset lg = param_replay_offset (parameters c)
    \<and> last_id lg = last_number (fst (hd cur)) cur \<and> align_of lg = ?a \<and> batch_buf_size (the (config_ptr lg)) = batch_buf_size c
    \<and> logger_ready rd wr er cells good sector lg f []"
  proof (cases "entries_size ?a cur + 12 \<le> sector")
    case True
    from init_finds [OF ok g s hint replay srch(2,3) cnt srch(4) room cur(1) ord True no [OF True]] show ?thesis .
  next
    case tight: False
    let ?q = "Suc (length full) mod ?n * sector"
    obtain es where es: "laid_out ?a (cells f) ?q es" "entries_size ?a es \<le> sector" "es = [] \<longrightarrow> blank (cells f) ?q sector"
      "es = hd (old @ full @ [cur])" "old @ full \<noteq> []" "?q + sector \<le> length (cells f)"
    proof (cases old)
      case Nil
      have "2 * sector div sector \<le> ?n" by (rule div_le_mono [OF c(4)])
      then have full: "full \<noteq> []" using n Nil c(3) by auto
      then obtain es secs where e: "full = es # secs" by (cases full) auto
      have "?q = 0" using n Nil by simp
      with held e Nil top show ?thesis by (intro that [of es]) (auto simp: log_held_def sectors_at_Cons)
    next
      case (Cons es secs)
      then have q: "?q = Suc (length full) * sector" using n by simp
      have "Suc (Suc (length full)) * sector \<le> (length full + 1 + length old) * sector" using Cons by (intro mult_le_mono1) simp
      then have "?q + sector \<le> length (cells f)" using held unfolding q by (simp add: log_held_def)
      with held Cons show ?thesis unfolding q by (intro that [of es]) (auto simp: log_held_def sectors_at_Cons)
    qed
    have stop: "no_entry (cells f) ?q sector \<or> (\<exists>j d fs. laid_out ?a (cells f) ?q ((j, d) # fs) \<and> j < 2 ^ 32
      \<and> entry_size ?a (length d) \<le> sector \<and> \<not> is_logically_next_in_order_helper j (last_number (fst (hd cur)) cur))"
    proof (cases es)
      case Nil
      then have "blank (cells f) ?q 4" using es(3) s by (simp add: blank_def)
      then show ?thesis using blank_no_entry es(6) s by blast
    next
      case (Cons e fs)
      obtain j d where e: "e = (j, d)" by (cases e)
      obtain rest where rest: "old @ full @ [cur] = es # rest" "rest \<noteq> []"
        using es(4,5) by (cases "old @ full @ [cur]") (auto simp: append_eq_Cons_conv Cons_eq_append_conv)
      define all where "all = concat old @ concat full @ cur"
      have all: "all = es @ concat rest" using arg_cong [OF rest(1), of concat] by (simp add: all_def)
      then have j: "j = (i + 1 + 0) mod 2 ^ 32" using num unfolding all_def [symmetric] by (simp add: Cons e)
      have "last rest = cur" using arg_cong [OF rest(1), of last] rest(2) by simp
      then have "cur \<in> set rest" using rest(2) last_in_set by blast
      then have "0 < length (concat rest)" using ne by force
      define l where "l = length all - 1"
      have l: "0 < l" "l < 2 ^ 31" "length all = Suc l"
        using \<open>0 < length (concat rest)\<close> srch(1) by (simp_all add: l_def all Cons flip: all_def)
      have "last_number (fst (hd cur)) cur = (i + 1 + l) mod 2 ^ 32" unfolding lastn all_def [symmetric] l(3) by simp
      then have "\<not> is_logically_next_in_order_helper j (last_number (fst (hd cur)) cur)"
        using number_order [of 0 l "i + 1"] l(1,2) unfolding j by simp
      moreover have "j < 2 ^ 32" by (simp add: j)
      moreover have "laid_out ?a (cells f) ?q ((j, d) # fs)" "entry_size ?a (length d) \<le> sector"
        using es(1,2) unfolding Cons e by simp_all
      ultimately show ?thesis by blast
    qed
    show ?thesis
    proof (rule init_found [OF ok g s hint replay srch(2,3) cnt srch(4) room _ refl])
      show "?h + entries_size ?a cur \<le> length (cells f)" using top cur(2) by simp
      fix lg :: "'f blackbox_logger" and c'
      assume a: "config_ok rd wr er sector (length (cells f)) c'" "config_ptr lg = Some c'" "sector_buf_lock lg"
        "address_align c' = ?a" "param_last_id (parameters c') = fst (hd cur)" "?h = param_write_offset (parameters c')"
        "?h < length (cells f)" "sec_end sector ?h = ?h + sector"
      have q: "?q = (?h div sector + 1) mod ?n * sector" using c(3) by simp
      show "\<exists>b. linear_recover_helper True lg f = Some (BLACKBOX_LOGGER_OK,
        lg\<lparr>config_ptr := Some (set_recovered (?h + entries_size ?a cur) (last_number (fst (hd cur)) cur) (c'\<lparr>sector_buf := Some b\<rparr>))\<rparr>)
        \<and> length b = length (the (sector_buf c'))"
        using linear_recover_tight [OF a(1-3) g s a(6,7) _ _ ne _ _ q] cur ord stop tight a(8) unfolding a(4,5) by simp
    qed
  qed
  then show ?thesis using ne unfolding lastn by auto
qed

lemma log_recovered:
  assumes held: "log_held sector (address_align c) (cells f) old full cur" and ok: "config_ok rd wr er sector (length (cells f)) c"
    and "good f" and s: "12 \<le> sector" and "hint_lost (cells f) (param_write_offset (parameters c))"
    and "param_replay_offset (parameters c) \<le> length (cells f)"
    and bl: "blank (cells f) (length full * sector + entries_size (address_align c) cur) (sector - entries_size (address_align c) cur)"
    and empty: "cur = [] \<Longrightarrow> full = [] \<and> set old \<subseteq> {[]}" and num: "numbered i (concat old @ concat full @ cur)"
  shows "\<exists>lg. blackbox_logger_init over_old True True ESP_OK True True lg0 (Some c) f = Some (BLACKBOX_LOGGER_OK, lg, f)
    \<and> write_offset lg = length full * sector + entries_size (address_align c) cur
    \<and> last_id lg = (if cur = [] then 0 else (i + length (concat old @ concat full @ cur)) mod 2 ^ 32)
    \<and> logger_ready rd wr er cells good sector lg f []"
proof (rule log_found [OF assms(1-6) _ _ num])
  show "no_entry (cells f) (length full * sector + entries_size (address_align c) cur) (sector - entries_size (address_align c) cur)"
    if "entries_size (address_align c) cur + 12 \<le> sector"
    by (rule blank_no_entry) (use bl that log_held_room [OF held] in \<open>auto simp: blank_def\<close>)
  show "full = [] \<and> set old \<subseteq> {[]} \<and> blank (cells f) 0 sector" if "cur = []"
    using empty [OF that] bl that by simp
qed

section \<open>Runs of writes and flushes\<close>

lemma log_sync_empty:
  "log_on_flash rd wr er cells good sector lg f s \<Longrightarrow> sl_pend s = [] \<Longrightarrow>
     blackbox_logger_flush True True lg f = Some (BLACKBOX_LOGGER_ERR_INVALID_ARG, lg, f, False)"
  by (auto simp: log_on_flash_def logger_ready_def config_ok_def batch_holds_def blackbox_logger_flush_def)

lemma feed_do_refines:
  assumes on: "log_on_flash rd wr er cells good sector lg f s"
    and B: "B = batch_buf_size (the (config_ptr lg))" and a: "a = align_of lg"
    and op: "\<forall>d. x = Append d \<longrightarrow> d \<noteq> [] \<and> entry_size a (length d) \<le> B"
    and spec: "sector_do B a sector x s = Some (out, s')"
  shows "\<exists>lg' f'. feed_do x (lg, f) = Some (out, lg', f') \<and> log_on_flash rd wr er cells good sector lg' f' s'
    \<and> batch_buf_size (the (config_ptr lg')) = B \<and> align_of lg' = a"
proof (cases x)
  case (Append d)
  have d: "d \<noteq> []" "entry_size (align_of lg) (length d) \<le> batch_buf_size (the (config_ptr lg))" using op Append a B by simp_all
  show ?thesis
  proof (cases "entries_size a (sl_pend s) + entry_size a (length d) \<le> B")
    case True
    from log_append [OF on d(1) True [unfolded a B], of True True] spec True Append a B show ?thesis by auto
  next
    case False
    obtain s1 where s1: "sector_store a sector s = Some s1" "out = BLACKBOX_LOGGER_OK"
      "s' = s1\<lparr>sl_pend := sl_pend s1 @ [((sl_number s1 + 1) mod 2 ^ 32, d)]\<rparr>"
      using spec False Append by (auto simp: bind_eq_Some_conv)
    have "B < entries_size a (sl_pend s) + entry_size a (length d)" using False by simp
    from log_append_full [OF on d this [unfolded a B] s1(1) [unfolded a]] s1(2,3) Append a B show ?thesis by auto
  qed
next
  case Sync
  show ?thesis
  proof (cases "sl_pend s = []")
    case True
    then show ?thesis using log_sync_empty [OF on] on spec Sync a B by auto
  next
    case False
    then obtain s1 where s1: "sector_store a sector s = Some s1" "out = BLACKBOX_LOGGER_OK" "s' = s1" using spec Sync by auto
    from log_flush [OF on False s1(1) [unfolded a]] s1(2,3) Sync a B show ?thesis by auto
  qed
qed

lemma feed_run_refines:
  assumes "log_on_flash rd wr er cells good sector lg f s"
    and "B = batch_buf_size (the (config_ptr lg))" and "a = align_of lg"
    and "\<forall>d. Append d \<in> set xs \<longrightarrow> d \<noteq> [] \<and> entry_size a (length d) \<le> B"
    and "sector_run B a sector xs s = Some (outs, s')"
  shows "\<exists>lg' f'. feed_run xs (lg, f) = Some (outs, lg', f') \<and> log_on_flash rd wr er cells good sector lg' f' s'
    \<and> align_of lg' = a"
  using assms
proof (induction xs arbitrary: lg f s outs)
  case (Cons x xs)
  obtain out s1 outs1 where 1: "sector_do B a sector x s = Some (out, s1)"
    and 2: "sector_run B a sector xs s1 = Some (outs1, s')" "outs = out # outs1"
    using Cons.prems(5) by (auto simp: bind_eq_Some_conv)
  from feed_do_refines [OF Cons.prems(1-3) _ 1] Cons.prems(4) obtain lg1 f1 where
    s1: "feed_do x (lg, f) = Some (out, lg1, f1)" "log_on_flash rd wr er cells good sector lg1 f1 s1"
    "batch_buf_size (the (config_ptr lg1)) = B" "align_of lg1 = a" by auto
  from Cons.IH [OF s1(2) s1(3,4) [symmetric] _ 2(1)] Cons.prems(4) obtain lg' f' where
    "feed_run xs (lg1, f1) = Some (outs1, lg', f')" "log_on_flash rd wr er cells good sector lg' f' s'"
    "align_of lg' = a" by auto
  with s1 2(2) show ?case by simp
qed auto

end

text \<open>What is in the log was appended last, in that order.\<close>

lemma sector_run_entries:
  "sector_run B a sector xs s = Some (outs, s') \<Longrightarrow>
     \<exists>ds. map snd (sl_stored s @ sl_pend s) @ appended xs = ds @ map snd (sl_stored s' @ sl_pend s')
       \<and> sl_base s' = sl_base s + length ds"
proof (induction xs arbitrary: s outs)
  case (Cons x xs)
  obtain out s1 outs1 where 1: "sector_do B a sector x s = Some (out, s1)"
    and 2: "sector_run B a sector xs s1 = Some (outs1, s')" using Cons.prems by (auto simp: bind_eq_Some_conv)
  have store: "\<exists>ds. map snd (sl_stored s @ sl_pend s) = ds @ map snd (sl_stored t @ sl_pend t) \<and> sl_base t = sl_base s + length ds"
    if st: "sector_store a sector s = Some t" for t
  proof -
    obtain es where "sl_stored s @ sl_pend s = es @ sl_stored t" "sl_base t = sl_base s + length es" "sl_pend t = []"
      using sector_store_stored [OF st] by blast
    then show ?thesis by (intro exI [of _ "map snd es"]) (simp flip: map_append)
  qed
  have keep: "\<exists>ds. map snd (sl_stored s @ sl_pend s) = ds @ map snd (sl_stored t @ sl_pend t) \<and> sl_base t = sl_base s + length ds"
    if t: "t = s \<or> sector_store a sector s = Some t" for t
    using t
  proof
    assume "t = s"
    then show ?thesis by (intro exI [of _ "[]"]) simp
  qed (rule store)
  obtain ds1 where ds1: "map snd (sl_stored s @ sl_pend s) @ appended [x] = ds1 @ map snd (sl_stored s1 @ sl_pend s1)"
    "sl_base s1 = sl_base s + length ds1"
  proof (cases x)
    case (Append d)
    then obtain t where t: "t = s \<or> sector_store a sector s = Some t"
      "s1 = t\<lparr>sl_pend := sl_pend t @ [((sl_number t + 1) mod 2 ^ 32, d)]\<rparr>"
      using 1 by (auto simp: bind_eq_Some_conv split: if_splits)
    obtain ds where "map snd (sl_stored s @ sl_pend s) = ds @ map snd (sl_stored t @ sl_pend t)" "sl_base t = sl_base s + length ds"
      using keep [OF t(1)] by blast
    then show ?thesis using t(2) Append by (intro that [of ds]) simp_all
  next
    case Sync
    then have "s1 = s \<or> sector_store a sector s = Some s1" using 1 by (auto split: if_splits)
    from keep [OF this] Sync show ?thesis by (auto intro: that)
  qed
  obtain ds2 where ds2: "map snd (sl_stored s1 @ sl_pend s1) @ appended xs = ds2 @ map snd (sl_stored s' @ sl_pend s')"
    "sl_base s' = sl_base s1 + length ds2" using Cons.IH [OF 2] by blast
  have "appended (x # xs) = appended [x] @ appended xs" by (cases x) simp_all
  then have "map snd (sl_stored s @ sl_pend s) @ appended (x # xs) = (ds1 @ ds2) @ map snd (sl_stored s' @ sl_pend s')"
    using ds1(1) ds2(1) by (simp only: append.assoc [symmetric]) (simp only: append.assoc)
  then show ?case using ds1(2) ds2(2) by (intro exI [of _ "ds1 @ ds2"]) simp
qed simp

text \<open>The number of sectors.\<close>

lemma sector_run_sectors:
  "sector_run B a sector xs s = Some (outs, s') \<Longrightarrow> length (sl_full s') + length (sl_old s') = length (sl_full s) + length (sl_old s)"
proof (induction xs arbitrary: s outs)
  case (Cons x xs)
  obtain out s1 outs1 where 1: "sector_do B a sector x s = Some (out, s1)"
    and 2: "sector_run B a sector xs s1 = Some (outs1, s')" using Cons.prems by (auto simp: bind_eq_Some_conv)
  have "length (sl_full t) + length (sl_old t) = length (sl_full s) + length (sl_old s)" if st: "sector_store a sector s = Some t" for t
    using st by (auto simp: sector_store_def Let_def next_place_def split: if_splits list.splits)
  then have "length (sl_full s1) + length (sl_old s1) = length (sl_full s) + length (sl_old s)"
    using 1 by (cases x) (auto simp: bind_eq_Some_conv split: if_splits)
  with Cons.IH [OF 2] show ?case by simp
qed simp

lemma new_log_entries [simp]: "sl_stored (new_log n) = []" "sl_pend (new_log n) = []" "sl_base (new_log n) = 0"
  by (simp_all add: new_log_def sl_stored_def)

context flash_device
begin

text \<open>From a blank flash, over a run, to the next start.\<close>

lemma log_starts:
  assumes ok: "config_ok rd wr er sector (length (cells f)) c" and g: "good f" and s: "12 \<le> sector"
    and hint: "hint_lost (cells f) (param_write_offset (parameters c))" "param_replay_offset (parameters c) \<le> length (cells f)"
    and bl: "blank (cells f) 0 (length (cells f))"
  shows "\<exists>lg. blackbox_logger_init over_old True True ESP_OK True True lg0 (Some c) f = Some (BLACKBOX_LOGGER_OK, lg, f)
    \<and> log_on_flash rd wr er cells good sector lg f (new_log (length (cells f) div sector))
    \<and> align_of lg = address_align c \<and> batch_buf_size (the (config_ptr lg)) = batch_buf_size c"
proof -
  obtain lg where lg: "blackbox_logger_init over_old True True ESP_OK True True lg0 (Some c) f = Some (BLACKBOX_LOGGER_OK, lg, f)"
    "write_offset lg = 0" "last_id lg = 0" "align_of lg = address_align c" "batch_buf_size (the (config_ptr lg)) = batch_buf_size c"
    "logger_ready rd wr er cells good sector lg f []"
    using init_blank_flash [OF ok g s hint bl, of over_old lg0] by blast
  let ?n = "length (cells f) div sector"
  have c: "0 < sector" "sector dvd length (cells f)" "2 * sector \<le> length (cells f)" using ok by (simp_all add: config_ok_def)
  then have n: "0 < ?n" "length (cells f) = ?n * sector" by (simp_all add: div_greater_zero_iff)
  have at: "sectors_at sector a (cells f) 1 (replicate (?n - 1) [])" for a
    unfolding sectors_at_def
  proof (intro allI impI conjI)
    fix k assume k: "k < length (replicate (?n - 1) ([] :: log_entry list))"
    then have "Suc (1 + k) * sector \<le> ?n * sector" by (intro mult_le_mono1) simp
    then have "(1 + k) * sector + sector \<le> length (cells f)" using n(2) by simp
    then show "blank (cells f) ((1 + k) * sector) sector" using bl by (simp add: blank_def)
    show "laid_out a (cells f) ((1 + k) * sector) (replicate (?n - 1) [] ! k)"
      "entries_size a (replicate (?n - 1) [] ! k) \<le> sector" using k by simp_all
  qed
  have "log_held sector (address_align c) (cells f) (replicate (?n - 1) []) [] []"
    using at n by (simp add: log_held_def)
  moreover have "blank (cells f) 0 sector" using bl c by (simp add: blank_def)
  ultimately have "log_on_flash rd wr er cells good sector lg f (new_log ?n)"
    using lg by (simp add: log_on_flash_def sl_number_def) (simp add: new_log_def set_replicate_conv_if)
  with lg show ?thesis by blast
qed

lemma log_survives_restart:
  assumes ok: "config_ok rd wr er sector (length (cells f)) c" and g: "good f" and s: "12 \<le> sector"
    and hint: "hint_lost (cells f) (param_write_offset (parameters c))" "param_replay_offset (parameters c) \<le> length (cells f)"
    and bl: "blank (cells f) 0 (length (cells f))"
    and op: "\<forall>d. Append d \<in> set xs \<longrightarrow> d \<noteq> [] \<and> entry_size (address_align c) (length d) \<le> batch_buf_size c"
    and run: "sector_run (batch_buf_size c) (address_align c) sector xs (new_log (length (cells f) div sector)) = Some (outs, s')"
  shows "\<exists>lg lg1 f1. blackbox_logger_init over_old True True ESP_OK True True lg0 (Some c) f = Some (BLACKBOX_LOGGER_OK, lg, f)
    \<and> feed_run xs (lg, f) = Some (outs, lg1, f1) \<and> log_on_flash rd wr er cells good sector lg1 f1 s'
    \<and> map snd (sl_stored s' @ sl_pend s') = drop (sl_base s') (appended xs)
    \<and> write_offset lg1 = length (sl_full s') * sector + entries_size (address_align c) (sl_cur s')
    \<and> (\<forall>c2 lg0. config_ok rd wr er sector (length (cells f1)) c2 \<and> address_align c2 = address_align c
        \<and> hint_lost (cells f1) (param_write_offset (parameters c2)) \<and> param_replay_offset (parameters c2) \<le> length (cells f1) \<longrightarrow>
        (\<exists>lg2. blackbox_logger_init over_old True True ESP_OK True True lg0 (Some c2) f1 = Some (BLACKBOX_LOGGER_OK, lg2, f1)
          \<and> write_offset lg2 = write_offset lg1 \<and> last_id lg2 = (sl_base s' + length (sl_stored s')) mod 2 ^ 32
          \<and> logger_ready rd wr er cells good sector lg2 f1 []))"
proof -
  let ?n = "length (cells f) div sector"
  have c: "0 < sector" "sector dvd length (cells f)" "2 * sector \<le> length (cells f)" using ok by (simp_all add: config_ok_def)
  then have n: "0 < ?n" "length (cells f) = ?n * sector" by (simp_all add: div_greater_zero_iff)
  obtain lg where lg: "blackbox_logger_init over_old True True ESP_OK True True lg0 (Some c) f = Some (BLACKBOX_LOGGER_OK, lg, f)"
    "log_on_flash rd wr er cells good sector lg f (new_log ?n)" "align_of lg = address_align c"
    "batch_buf_size (the (config_ptr lg)) = batch_buf_size c"
    using log_starts [OF ok g s hint bl] by blast
  obtain lg1 f1 where r: "feed_run xs (lg, f) = Some (outs, lg1, f1)" "log_on_flash rd wr er cells good sector lg1 f1 s'"
    "align_of lg1 = address_align c"
    using feed_run_refines [OF lg(2) lg(4) [symmetric] lg(3) [symmetric] op run] by blast
  have on: "good f1" "log_held sector (address_align c) (cells f1) (sl_old s') (sl_full s') (sl_cur s')"
    "write_offset lg1 = length (sl_full s') * sector + entries_size (address_align c) (sl_cur s')"
    "blank (cells f1) (length (sl_full s') * sector + entries_size (address_align c) (sl_cur s'))
      (sector - entries_size (address_align c) (sl_cur s'))"
    "sl_cur s' = [] \<Longrightarrow> sl_full s' = [] \<and> set (sl_old s') \<subseteq> {[]}" "numbered (sl_base s') (sl_stored s')"
    using r(2,3) by (simp_all add: log_on_flash_def logger_ready_def)
  obtain ds where e: "appended xs = ds @ map snd (sl_stored s' @ sl_pend s')" "sl_base s' = length ds"
    using sector_run_entries [OF run] by auto
  then have d: "map snd (sl_stored s' @ sl_pend s') = drop (sl_base s') (appended xs)" by simp
  have zero: "(sl_base s' + length (sl_stored s')) mod 2 ^ 32 = 0" if "sl_cur s' = []"
  proof -
    have "sl_full s' = []" "set (sl_old s') \<subseteq> {[]}" "sl_base s' = 0" using r(2) that by (simp_all add: log_on_flash_def)
    then have "sl_stored s' = []" using that by (auto simp: sl_stored_def)
    with \<open>sl_base s' = 0\<close> show ?thesis by simp
  qed
  have "\<exists>lg2. blackbox_logger_init over_old True True ESP_OK True True lg0 (Some c2) f1 = Some (BLACKBOX_LOGGER_OK, lg2, f1)
      \<and> write_offset lg2 = write_offset lg1 \<and> last_id lg2 = (sl_base s' + length (sl_stored s')) mod 2 ^ 32
      \<and> logger_ready rd wr er cells good sector lg2 f1 []"
    if c2: "config_ok rd wr er sector (length (cells f1)) c2" "address_align c2 = address_align c"
      "hint_lost (cells f1) (param_write_offset (parameters c2))" "param_replay_offset (parameters c2) \<le> length (cells f1)" for c2 lg0
    using log_recovered [of c2 f1 "sl_old s'" "sl_full s'" "sl_cur s'" "sl_base s'" over_old lg0]
      on(1,2,4-6) c2 s zero unfolding on(3) sl_stored_def c2(2) by (cases "sl_cur s' = []") auto
  with lg(1) r(1,2) d on(3) show ?thesis by blast
qed

end

section \<open>Properties\<close>

text \<open>
  C5. The log over many sectors and laps, and its next start. From a blank flash, every sequence
  of writes and flushes puts the entries where \<open>sector_run\<close> says: packed into sector after sector,
  the first behind the last, each whole, in the order of the writes, and only the oldest sector is
  ever lost. A start from that flash, with the default position or one that has no header behind it,
  finds the same write offset and the number of the last entry in flash, whatever room is left in
  its sector. (\<open>sector_run\<close> has no result when a chunk fills the last sector to the end and more is
  to come: the code is stuck there.)
\<close>

theorem blackbox_log_survives_restart:
  assumes "flash_device rd wr er cells good sector"
    and "config_ok rd wr er sector (length (cells f)) c" and "good f" and "12 \<le> sector"
    and "hint_lost (cells f) (param_write_offset (parameters c))" and "param_replay_offset (parameters c) \<le> length (cells f)"
    and "blank (cells f) 0 (length (cells f))"
    and "\<forall>d. Append d \<in> set xs \<longrightarrow> d \<noteq> [] \<and> entry_size (address_align c) (length d) \<le> batch_buf_size c"
    and "sector_run (batch_buf_size c) (address_align c) sector xs (new_log (length (cells f) div sector)) = Some (outs, s')"
  shows "\<exists>lg lg1 f1. blackbox_logger_init over_old True True ESP_OK True True lg0 (Some c) f = Some (BLACKBOX_LOGGER_OK, lg, f)
    \<and> feed_run xs (lg, f) = Some (outs, lg1, f1) \<and> log_on_flash rd wr er cells good sector lg1 f1 s'
    \<and> map snd (sl_stored s' @ sl_pend s') = drop (sl_base s') (appended xs)
    \<and> write_offset lg1 = length (sl_full s') * sector + entries_size (address_align c) (sl_cur s')
    \<and> (\<forall>c2 lg0. config_ok rd wr er sector (length (cells f1)) c2 \<and> address_align c2 = address_align c
        \<and> hint_lost (cells f1) (param_write_offset (parameters c2)) \<and> param_replay_offset (parameters c2) \<le> length (cells f1) \<longrightarrow>
        (\<exists>lg2. blackbox_logger_init over_old True True ESP_OK True True lg0 (Some c2) f1 = Some (BLACKBOX_LOGGER_OK, lg2, f1)
          \<and> write_offset lg2 = write_offset lg1 \<and> last_id lg2 = (sl_base s' + length (sl_stored s')) mod 2 ^ 32
          \<and> logger_ready rd wr er cells good sector lg2 f1 []))"
  by (rule flash_device.log_survives_restart [OF assms])

text \<open>
  Five entries of 2020 bytes on a mock flash of two sectors: the fifth begins the second lap, and
  the first two are gone.
\<close>

definition mock_two :: mock_partition where
  "mock_two = mock_example\<lparr>memory := replicate 8192 0xFF, mock_size := 8192\<rparr>"

definition config_two :: "mock_partition blackbox_logger_config" where
  "config_two = config_example\<lparr>partition_size := Some 8192, batch_buf := Some (replicate 2048 0), batch_buf_size := 2048\<rparr>"

lemma mock_two:
  "length (memory mock_two) = 8192" "mock_good mock_two" "blank (memory mock_two) 0 8192"
  "config_ok mock_read mock_write mock_erase_range 4096 8192 config_two"
  "batch_buf_size config_two = 2048" "address_align config_two = 4"
  "param_write_offset (parameters config_two) = 0" "param_replay_offset (parameters config_two) = 0"
  using alignment_4 by (simp_all add: mock_two_def config_two_def mock_example_def mock_good_def blank_def config_ok_def
    config_example_def blackbox_logger_default_parameters_def)

lemma sector_run_two:
  assumes "length d = 2000"
  shows "sector_run 2048 4 4096 [Append d, Append d, Append d, Append d, Append d, Sync] (new_log 2)
    = Some ([BLACKBOX_LOGGER_OK, BLACKBOX_LOGGER_OK, BLACKBOX_LOGGER_OK, BLACKBOX_LOGGER_OK, BLACKBOX_LOGGER_OK, BLACKBOX_LOGGER_OK],
        \<lparr>sl_old = [[(3, d), (4, d)]], sl_full = [], sl_cur = [(5, d)], sl_pend = [], sl_base = 2\<rparr>)"
proof -
  define st where "st old full cur pend base = \<lparr>sl_old = old, sl_full = full, sl_cur = cur, sl_pend = pend, sl_base = base\<rparr>"
    for old full and cur :: "log_entry list" and pend base
  have e: "entry_size 4 (length d) = 2020" by (simp add: entry_size_def assms)
  note eval = st_def sector_store_def sl_number_def sl_stored_def advance_def next_place_def e
  have "new_log 2 = st [[]] [] [] [] 0" by (simp add: st_def new_log_def)
  moreover have "sector_do 2048 4 4096 (Append d) (st [[]] [] [] [] 0) = Some (BLACKBOX_LOGGER_OK, st [[]] [] [] [(1, d)] 0)"
    by (simp add: eval)
  moreover have "sector_do 2048 4 4096 (Append d) (st [[]] [] [] [(1, d)] 0) = Some (BLACKBOX_LOGGER_OK, st [[]] [] [(1, d)] [(2, d)] 0)"
    by (simp add: eval)
  moreover have "sector_do 2048 4 4096 (Append d) (st [[]] [] [(1, d)] [(2, d)] 0)
    = Some (BLACKBOX_LOGGER_OK, st [[]] [] [(1, d), (2, d)] [(3, d)] 0)" by (simp add: eval)
  moreover have "sector_do 2048 4 4096 (Append d) (st [[]] [] [(1, d), (2, d)] [(3, d)] 0)
    = Some (BLACKBOX_LOGGER_OK, st [] [[(1, d), (2, d)]] [(3, d)] [(4, d)] 0)" by (simp add: eval)
  moreover have "sector_do 2048 4 4096 (Append d) (st [] [[(1, d), (2, d)]] [(3, d)] [(4, d)] 0)
    = Some (BLACKBOX_LOGGER_OK, st [] [[(1, d), (2, d)]] [(3, d), (4, d)] [(5, d)] 0)" by (simp add: eval)
  moreover have "sector_do 2048 4 4096 Sync (st [] [[(1, d), (2, d)]] [(3, d), (4, d)] [(5, d)] 0)
    = Some (BLACKBOX_LOGGER_OK, st [[(3, d), (4, d)]] [] [(5, d)] [] 2)" by (simp add: eval)
  ultimately show ?thesis by (simp only: sector_run.simps bind.simps prod.case) (simp add: st_def)
qed

lemma blackbox_log_survives_restart_witness:
  "\<exists>d lg f1 lg1 lg2. length (d :: bytes) = 2000
    \<and> blackbox_logger_init True True True ESP_OK True True (logger_example 7) (Some config_two) mock_two
      = Some (BLACKBOX_LOGGER_OK, lg, mock_two)
    \<and> feed_run [Append d, Append d, Append d, Append d, Append d, Sync] (lg, mock_two)
      = Some ([BLACKBOX_LOGGER_OK, BLACKBOX_LOGGER_OK, BLACKBOX_LOGGER_OK, BLACKBOX_LOGGER_OK, BLACKBOX_LOGGER_OK, BLACKBOX_LOGGER_OK], lg1, f1)
    \<and> blackbox_logger_init True True True ESP_OK True True (logger_example 9)
        (Some (config_two\<lparr>parameters := (parameters config_two)\<lparr>param_write_offset := 2020\<rparr>\<rparr>)) f1
      = Some (BLACKBOX_LOGGER_OK, lg2, f1) \<and> write_offset lg2 = 2020 \<and> last_id lg2 = 5"
proof -
  obtain d :: bytes where d: "length d = 2000" using Ex_list_of_length by blast
  let ?xs = "[Append d, Append d, Append d, Append d, Append d, Sync]"
  have ok: "config_ok mock_read mock_write mock_erase_range 4096 (length (memory mock_two)) config_two"
    using mock_two(1,4) by simp
  have "d \<noteq> []" using d by auto
  then have op: "\<forall>x. Append x \<in> set ?xs \<longrightarrow> x \<noteq> [] \<and> entry_size (address_align config_two) (length x) \<le> batch_buf_size config_two"
    by (auto simp: entry_size_def d mock_two)
  have n: "length (memory mock_two) div 4096 = 2" by (simp add: mock_two(1))
  have p: "12 \<le> (4096 :: nat)" "param_replay_offset (parameters config_two) \<le> length (memory mock_two)"
    "blank (memory mock_two) 0 (length (memory mock_two))" by (simp_all add: mock_two)
  have run: "sector_run (batch_buf_size config_two) (address_align config_two) 4096 ?xs (new_log (length (memory mock_two) div 4096))
    = Some ([BLACKBOX_LOGGER_OK, BLACKBOX_LOGGER_OK, BLACKBOX_LOGGER_OK, BLACKBOX_LOGGER_OK, BLACKBOX_LOGGER_OK, BLACKBOX_LOGGER_OK],
        \<lparr>sl_old = [[(3, d), (4, d)]], sl_full = [], sl_cur = [(5, d)], sl_pend = [], sl_base = 2\<rparr>)"
    unfolding n mock_two(5,6) by (rule sector_run_two [OF d])
  let ?s = "\<lparr>sl_old = [[(3, d), (4, d)]], sl_full = [], sl_cur = [(5, d)], sl_pend = [], sl_base = 2\<rparr>"
  have at: "length (sl_full ?s) * 4096 + entries_size (address_align config_two) (sl_cur ?s) = 2020"
    "(sl_base ?s + length (sl_stored ?s)) mod 2 ^ 32 = 5"
    by (simp_all add: entry_size_def sl_stored_def mock_two(6) d)
  let ?c2 = "config_two\<lparr>parameters := (parameters config_two)\<lparr>param_write_offset := 2020\<rparr>\<rparr>"
  have hint: "hint_lost (memory mock_two) (param_write_offset (parameters config_two))" by (simp add: mock_two(7))
  obtain lg lg1 f1 where r: "blackbox_logger_init True True True ESP_OK True True (logger_example 7) (Some config_two) mock_two
      = Some (BLACKBOX_LOGGER_OK, lg, mock_two)"
    "feed_run ?xs (lg, mock_two)
      = Some ([BLACKBOX_LOGGER_OK, BLACKBOX_LOGGER_OK, BLACKBOX_LOGGER_OK, BLACKBOX_LOGGER_OK, BLACKBOX_LOGGER_OK, BLACKBOX_LOGGER_OK], lg1, f1)"
    "log_on_flash mock_read mock_write mock_erase_range memory mock_good 4096 lg1 f1 ?s" "write_offset lg1 = 2020"
    and restart: "\<And>c2 lg0. config_ok mock_read mock_write mock_erase_range 4096 (length (memory f1)) c2 \<Longrightarrow>
      address_align c2 = address_align config_two \<Longrightarrow> hint_lost (memory f1) (param_write_offset (parameters c2)) \<Longrightarrow>
      param_replay_offset (parameters c2) \<le> length (memory f1) \<Longrightarrow>
      \<exists>lg2. blackbox_logger_init True True True ESP_OK True True lg0 (Some c2) f1 = Some (BLACKBOX_LOGGER_OK, lg2, f1)
        \<and> write_offset lg2 = 2020 \<and> last_id lg2 = 5"
    using blackbox_log_survives_restart [OF mock_device ok mock_two(2) p(1) hint p(2,3) op run,
      of True "logger_example 7", unfolded at] by fastforce
  have "log_held 4096 (align_of lg1) (memory f1) [[(3, d), (4, d)]] [] [(5, d)]"
    "write_offset lg1 = entries_size (align_of lg1) [(5, d)]"
    "blank (memory f1) (entries_size (align_of lg1) [(5, d)]) (4096 - entries_size (align_of lg1) [(5, d)])"
    using r(3) by (simp_all add: log_on_flash_def)
  then have m: "length (memory f1) = 8192" "blank (memory f1) 2020 2076" using r(4) by (simp_all add: log_held_def)
  then have "hint_lost (memory f1) 2020" by (intro hint_lost_blank) (simp_all add: blank_def)
  moreover have "config_ok mock_read mock_write mock_erase_range 4096 8192 ?c2" using mock_two(4) by (simp add: config_ok_def)
  ultimately show ?thesis using restart [of ?c2 "logger_example 9"] r(1,2) d m(1) mock_two(8) by simp blast
qed

end
