(* ===== verification/Blackbox_Power_Loss.thy ===== *)
theory Blackbox_Power_Loss imports Blackbox_Fault Blackbox_Log begin

text \<open>
  A power loss in the middle of a flush, and the start after it: what the flash holds, and where
  the recovered log ends.
\<close>

section \<open>A batch cut off\<close>

text \<open>The entries of \<open>es\<close> that lie whole in the first \<open>k\<close> bytes of their images.\<close>

fun whole :: "nat \<Rightarrow> nat \<Rightarrow> log_entry list \<Rightarrow> log_entry list" where
  "whole a k [] = []"
| "whole a k ((i, d) # es) = (if 18 + length d \<le> k then (i, d) # whole a (k - entry_size a (length d)) es else [])"

lemma whole_prefix: "\<exists>fs. es = whole a k es @ fs"
  by (induction a k es rule: whole.induct) auto

lemma whole_size: "entries_size a (whole a k es) \<le> entries_size a es"
  by (induction a k es rule: whole.induct) auto

lemma cut_layout:
  assumes "laid_out a b j es" and "alignment a" and "p + entries_size a es \<le> length m"
    and "\<forall>i < entries_size a es. m ! (p + i) = (if i < k then b ! (j + i) else 0xFF)"
  shows "laid_out a m p (whole a k es)
    \<and> (whole a k es = es \<or> (\<exists>i d fs. es = whole a k es @ (i, d) # fs
        \<and> torn_entry m (p + entries_size a (whole a k es)) i d (k - entries_size a (whole a k es))))"
  using assms
proof (induction a b j es arbitrary: p k rule: laid_out.induct)
  case (2 a b j i d es)
  let ?n = "entry_size a (length d)" and ?l = "18 + length d"
  have n: "?l \<le> ?n" using entry_size_bounds [OF "2.prems"(2)] by blast
  have img: "buf_read b j ?l = Some (entry_image i d)" and rest: "laid_out a b (j + ?n) es" using "2.prems"(1) by simp_all
  have nth: "m ! (p + x) = (if x < k then b ! (j + x) else 0xFF)" if "x < ?n + entries_size a es" for x
    using "2.prems"(4) that by simp
  have byte: "b ! (j + x) = entry_image i d ! x" if "x < ?l" for x
    using buf_read_nth [OF img that] by simp
  have room: "p + ?l \<le> length m" using "2.prems"(3) n by simp
  show ?case
  proof (cases "?l \<le> k")
    case True
    have "take ?l (drop p m) = entry_image i d"
    proof (rule nth_equalityI)
      fix x assume "x < length (take ?l (drop p m))"
      then have x: "x < ?l" using room by simp
      then have "take ?l (drop p m) ! x = m ! (p + x)" using room by simp
      also have "\<dots> = entry_image i d ! x" using nth [of x] byte [OF x] x n True by simp
      finally show "take ?l (drop p m) ! x = entry_image i d ! x" .
    qed (use room in simp)
    then have first: "buf_read m p ?l = Some (entry_image i d)" using room by (simp add: buf_read_def)
    have "laid_out a m (p + ?n) (whole a (k - ?n) es)
      \<and> (whole a (k - ?n) es = es \<or> (\<exists>i d fs. es = whole a (k - ?n) es @ (i, d) # fs
          \<and> torn_entry m (p + ?n + entries_size a (whole a (k - ?n) es)) i d (k - ?n - entries_size a (whole a (k - ?n) es))))"
    proof (rule "2.IH" [OF rest "2.prems"(2)])
      show "p + ?n + entries_size a es \<le> length m" using "2.prems"(3) by (simp add: add.assoc)
      show "\<forall>x < entries_size a es. m ! (p + ?n + x) = (if x < k - ?n then b ! (j + ?n + x) else 0xFF)"
      proof (intro allI impI)
        fix x assume "x < entries_size a es"
        then show "m ! (p + ?n + x) = (if x < k - ?n then b ! (j + ?n + x) else 0xFF)"
          using nth [of "?n + x"] by (simp add: less_diff_conv ac_simps)
      qed
    qed
    with True first "2.prems"(3) show ?thesis by (auto simp: add.assoc)
  next
    case False
    have "take ?l (drop p m) = take k (entry_image i d) @ replicate (?l - k) 0xFF"
    proof (rule nth_equalityI)
      fix x assume "x < length (take ?l (drop p m))"
      then have x: "x < ?l" using room by simp
      then have "take ?l (drop p m) ! x = m ! (p + x)" using room by simp
      also have "\<dots> = (if x < k then entry_image i d ! x else 0xFF)" using nth [of x] byte [OF x] x n by simp
      finally show "take ?l (drop p m) ! x = (take k (entry_image i d) @ replicate (?l - k) 0xFF) ! x"
        using x False by (simp add: nth_append)
    qed (use room False in simp)
    with room False show ?thesis by (simp add: torn_entry_def buf_read_def)
  qed
qed simp

section \<open>A flash that loses power\<close>

text \<open>When the power is cut after \<open>k\<close> bytes of a write, these and no others are stored.\<close>

locale power_loss_flash = unreliable_flash wr er cells sound works fails sector
  for wr :: "nat \<Rightarrow> bytes \<Rightarrow> 'f \<Rightarrow> esp_err \<times> 'f" and er cells sound works fails sector +
  fixes cut :: "'f \<Rightarrow> nat \<Rightarrow> bool"
  assumes cut_fails: "cut f k \<Longrightarrow> k < n \<Longrightarrow> fails f n"
    and write_cut: "sound f \<Longrightarrow> off + length bs \<le> length (cells f) \<Longrightarrow> writable (cells f) off bs \<Longrightarrow>
      cut f k \<Longrightarrow> k < length bs \<Longrightarrow> cells (snd (wr off bs f)) = overlay (cells f) off (take k bs)"

definition mock_cut :: "mock_partition \<Rightarrow> nat \<Rightarrow> bool" where
  "mock_cut m k \<longleftrightarrow> fail_next_write m \<and> fail_after_bytes m = k"

lemma mock_write_loop_cut:
  assumes "fail_next_write m" and "idx \<le> fail_after_bytes m" and "fail_after_bytes m < idx + length src"
    and "off + idx + length src \<le> length (memory m)" and "writable (memory m) (off + idx) src"
  shows "memory (snd (mock_write_loop off idx src m))
    = overlay (memory m) (off + idx) (take (fail_after_bytes m - idx) src)"
  using assms
proof (induction src arbitrary: idx m)
  case (Cons b src)
  show ?case
  proof (cases "fail_after_bytes m = idx")
    case True
    with Cons.prems show ?thesis by (simp add: overlay_def)
  next
    case False
    let ?m = "m\<lparr>memory := (memory m)[off + idx := b]\<rparr>"
    have "memory m ! (off + idx) = - 1 \<or> memory m ! (off + idx) = b"
      using Cons.prems(5) by (force simp: writable_def)
    then have old: "b AND NOT (memory m ! (off + idx)) = 0" "memory m ! (off + idx) AND b = b" by auto
    have "writable (memory ?m) (off + Suc idx) src"
      using Cons.prems(5) by (force simp: writable_def nth_list_update)
    with Cons.IH [of ?m "Suc idx"] Cons.prems False
    have ih: "memory (snd (mock_write_loop off (Suc idx) src ?m))
      = overlay (memory ?m) (off + Suc idx) (take (fail_after_bytes m - Suc idx) src)" by simp
    have "overlay (memory ?m) (off + Suc idx) (take (fail_after_bytes m - Suc idx) src)
      = overlay (memory m) (off + idx) (b # take (fail_after_bytes m - Suc idx) src)"
      using Cons.prems(4) by (simp add: overlay_def upd_conv_take_nth_drop take_Suc_conv_app_nth add.commute add.left_commute)
    moreover have "take (fail_after_bytes m - idx) (b # src) = b # take (fail_after_bytes m - Suc idx) src"
      using False Cons.prems(2) by (simp add: take_Cons' Suc_diff_Suc)
    moreover have "mock_write_loop off idx (b # src) m = mock_write_loop off (Suc idx) src ?m"
      using False Cons.prems(2) by (auto simp: old Let_def)
    ultimately show ?thesis using ih by simp
  qed
qed simp

interpretation mock_loss: power_loss_flash mock_write mock_erase_range memory mock_sound mock_works mock_fails MOCK_SECTOR_SIZE mock_cut
proof
  show "mock_fails f n" if "mock_cut f k" "k < n" for f k n using that by (simp add: mock_cut_def mock_fails_def)
  fix f off bs k
  assume s: "mock_sound f" and w: "off + length bs \<le> length (memory f)" "writable (memory f) off bs"
    and c: "mock_cut f k" "k < length bs"
  have "mock_write off bs f = mock_write_loop off 0 bs f"
    using s w by (simp add: mock_write_def mock_sound_def u32_add_small)
  with mock_write_loop_cut [of f 0 bs off] w c show "memory (snd (mock_write off bs f)) = overlay (memory f) off (take k bs)"
    by (simp add: mock_cut_def)
qed

lemma flush_finish_flash: "flush_finish c b s = Some (e, lg, f, x) \<Longrightarrow> f = fs_flash s"
  by (auto simp: flush_finish_def Let_def bind_eq_Some_conv)

context power_loss_flash
begin

text \<open>The chunk that fails, in a sector that was erased before.\<close>

lemma flush_chunk_cut:
  assumes g: "sound (fs_flash s)" and er: "last_erased_sector (fs_logger s) = int (fs_write_offset s div sector)"
    and chunk: "buf_read batch (fs_buffer_offset s) n = Some bs"
    and w: "fs_write_offset s + n \<le> length (cells (fs_flash s))" "writable (cells (fs_flash s)) (fs_write_offset s) bs"
    and cut: "cut (fs_flash s) k" "k < n"
    and run: "flush_chunk wr er batch sector n s = Some s'"
  shows "cells (fs_flash s') = overlay (cells (fs_flash s)) (fs_write_offset s) (take k bs)"
proof -
  have len: "length bs = n" using chunk by (rule buf_read_length)
  have "cells (snd (wr (fs_write_offset s) bs (fs_flash s))) = overlay (cells (fs_flash s)) (fs_write_offset s) (take k bs)"
    using write_cut [OF g _ w(2) cut(1)] w(1) cut(2) len by simp
  moreover have "fs_flash s' = snd (wr (fs_write_offset s) bs (fs_flash s))"
    using run er chunk by (auto simp: flush_chunk_def Let_def split: prod.splits if_splits)
  ultimately show ?thesis by simp
qed

lemma flush_cut:
  assumes ready: "logger_ready rd wr er cells sound sector lg f es" and ne: "es \<noteq> []"
    and wo: "write_offset lg < length (cells f)"
    and fits: "entries_size (align_of lg) es \<le> sec_end sector (write_offset lg) - write_offset lg"
    and er: "last_erased_sector lg = int (write_offset lg div sector)"
    and cut: "cut f k" "k < entries_size (align_of lg) es"
  shows "\<exists>lg' f' notified b. blackbox_logger_flush True True lg f = Some (BLACKBOX_LOGGER_ERR_WRITE_FAIL, lg', f', notified)
    \<and> laid_out (align_of lg) b 0 es \<and> entries_size (align_of lg) es \<le> length b
    \<and> cells f' = overlay (cells f) (write_offset lg) (take k b)"
proof -
  let ?wo = "write_offset lg" and ?s = "flush_start lg f" and ?n = "length (cells f)"
  obtain c where cp: "config_ptr lg = Some c" and ok: "config_ok rd wr er sector ?n c"
    and bh: "batch_holds c lg es" and r: "write_lock lg" "sound f" and ahead: "erased_ahead sector (cells f) lg"
    using ready by (auto simp: logger_ready_def)
  let ?a = "address_align c"
  obtain b where b: "batch_buf c = Some b" using ok by (auto simp: config_ok_def)
  have a: "align_of lg = ?a" by (simp add: align_of_def cp)
  have k: "0 < sector" "sector dvd ?n" "alignment ?a" using ok by (simp_all add: config_ok_def)
  have h: "batch_len lg = entries_size ?a es" "laid_out ?a b 0 es" "entries_size ?a es \<le> length b"
    using bh ok b by (auto simp: batch_holds_def config_ok_def)
  have pos: "0 < batch_len lg" using entries_size_pos [OF k(3) ne] h(1) by simp
  have fit: "fit (align_of lg) (sec_end sector ?wo - ?wo) es = es" using fits by (rule fit_all)
  have f: "fs_write_offset ?s = ?wo" "fs_logger ?s = lg" "fs_flash ?s = f" "fs_buffer_offset ?s = 0"
    "fs_replay_offset ?s = replay_offset lg" "fs_err ?s = BLACKBOX_LOGGER_OK"
    by (simp_all add: flush_start_def)
  have fail: "fails f (batch_len lg)" using cut_fails [OF cut(1)] cut(2) h(1) a by simp
  obtain lg' f' notified where fl: "blackbox_logger_flush True True lg f = Some (BLACKBOX_LOGGER_ERR_WRITE_FAIL, lg', f', notified)"
    using flush_any_one [OF ready_resumable [OF ready] ne wo fit] fail by blast
  note st = resumable_start [OF ready_resumable [OF ready] ne wo cp fit [unfolded a, symmetric]]
  have g: "sound (fs_flash ?s)" "es = fit ?a (sec_end sector (fs_write_offset ?s) - fs_write_offset ?s) es" "es = es @ []"
    using r(2) f fit a by simp_all
  obtain f1 where f1: "chunk_result ?a (the (batch_buf c)) es [] ?s
      (flush_iteration True wr er (the (batch_buf c)) sector (length (cells (fs_flash ?s))) ?a ?s) f1"
    using flush_iteration_any [OF st(1) g(1,2) ne g(3) st(2)] by blast
  then have it: "flush_iteration True wr er b sector ?n ?a ?s = Some (chunk_failed sector ?n f1 ?s)"
    using fail h(1) by (simp add: chunk_result_def b f)
  then have "flush_loop True wr er b sector ?n ?a ?s = Some (chunk_failed sector ?n f1 ?s)"
    by (subst flush_loop.simps) (simp add: chunk_failed_def)
  then have "flush_finish c b (chunk_failed sector ?n f1 ?s) = Some (BLACKBOX_LOGGER_ERR_WRITE_FAIL, lg', f', notified)"
    using fl unfolding flush_unfold [OF ok cp r(1) pos] by (simp add: b)
  then have f': "f' = f1" by (auto dest: flush_finish_flash simp: chunk_failed_def)
  let ?s1 = "?s\<lparr>fs_replay_offset := replay_after sector ?n ?wo (replay_offset lg)\<rparr>"
  have pre: "0 < entries_size ?a es" by (rule entries_size_pos [OF k(3) ne])
  obtain s2 where s2: "flush_chunk wr er b sector (entries_size ?a es) ?s1 = Some s2" "fs_flash s2 = f1"
  proof -
    have "(do { s2 \<leftarrow> flush_chunk wr er b sector (entries_size ?a es) ?s1;
        Some (if fs_err s2 = BLACKBOX_LOGGER_OK
             then s2\<lparr>fs_write_offset_old := write_offset (fs_logger s2),
                     fs_logger := (fs_logger s2)\<lparr>replay_offset := fs_replay_offset s2,
                                                write_offset := fs_write_offset s2\<rparr>\<rparr>
             else s2) }) = Some (chunk_failed sector ?n f1 ?s)"
      using flush_iteration_over [OF st(1), of ?n wr er] it pre fit a by (simp add: f b Let_def)
    then obtain s2 where c2: "flush_chunk wr er b sector (entries_size ?a es) ?s1 = Some s2"
      "(if fs_err s2 = BLACKBOX_LOGGER_OK
             then s2\<lparr>fs_write_offset_old := write_offset (fs_logger s2),
                     fs_logger := (fs_logger s2)\<lparr>replay_offset := fs_replay_offset s2,
                                                write_offset := fs_write_offset s2\<rparr>\<rparr>
             else s2) = chunk_failed sector ?n f1 ?s" by (auto simp: bind_eq_Some_conv)
    from arg_cong [OF c2(2), of fs_flash] have "fs_flash s2 = f1" by (simp add: chunk_failed_def split: if_splits)
    with c2(1) show ?thesis by (rule that)
  qed
  have "sec_end sector ?wo \<le> ?n" by (rule sec_end_le [OF k(1,2) wo])
  then have room: "?wo + entries_size ?a es \<le> ?n"
    using fits [unfolded a] sec_bounds(2) [OF k(1), of ?wo] \<open>sec_end sector ?wo \<le> ?n\<close> by linarith
  have bs: "buf_read b 0 (entries_size ?a es) = Some (take (entries_size ?a es) b)" using h(3) by (simp add: buf_read_def)
  have "blank (cells f) ?wo (sec_end sector ?wo - ?wo)" using ahead er wo by (simp add: erased_ahead_def)
  then have "blank (cells f) ?wo (entries_size ?a es)" by (rule blank_sub) (use fits a in simp_all)
  then have wr: "writable (cells f) ?wo (take (entries_size ?a es) b)" using h(3) by (intro blank_writable) simp
  have "cells (fs_flash s2) = overlay (cells (fs_flash ?s1)) (fs_write_offset ?s1) (take k (take (entries_size ?a es) b))"
    by (rule flush_chunk_cut [OF _ _ _ _ _ _ _ s2(1)])
      (use r(2) er bs room wr cut a in \<open>simp_all add: f\<close>)
  then have "cells f' = overlay (cells f) ?wo (take k b)" using cut(2) a by (simp add: f s2(2) f' min_def)
  with fl h a show ?thesis by auto
qed

end

section \<open>The log that is left\<close>

lemma numbered_small: "numbered i es \<Longrightarrow> (j, d) \<in> set es \<Longrightarrow> j < 2 ^ 32"
  by (induction i es rule: numbered.induct) auto

text \<open>
  The first \<open>k\<close> bytes of a batch behind the entries \<open>old\<close> of a sector leave the entries that were
  written whole, and behind them blank bytes or a torn entry.
\<close>

lemma cut_log:
  assumes lay: "laid_out a m p old" and al: "alignment a" and blank: "blank m (p + entries_size a old) (n - entries_size a old)"
    and b: "laid_out a b 0 es" "entries_size a es \<le> length b" and room: "entries_size a (old @ es) + 12 \<le> n" "p + n \<le> length m"
    and k: "k < entries_size a es" and small: "\<forall>(j, d) \<in> set es. j < 2 ^ 32"
    and off: "k - entries_size a (whole a k es) \<notin> {9, 10, 11}"
  defines "m' \<equiv> overlay m (p + entries_size a old) (take k b)" and "ws \<equiv> old @ whole a k es"
  shows "length m' = length m" and "laid_out a m' p ws" and "log_ends m' (p + entries_size a ws) (n - entries_size a ws)"
proof -
  let ?w = "p + entries_size a old"
  have fits: "?w + length (take k b) \<le> length m" using room k by simp
  then show len: "length m' = length m" by (simp add: m'_def)
  have nth: "m' ! (?w + i) = (if i < k then b ! (0 + i) else 0xFF)" if "i < n - entries_size a old" for i
  proof -
    have "m ! (?w + i) = 0xFF" using blank that by (simp add: blank_def)
    then show ?thesis using nth_overlay [OF fits, of "?w + i"] that room k b(2) by (simp add: m'_def)
  qed
  have "laid_out a m' p old"
  proof (rule laid_out_cong [OF lay al])
    show "buf_read m' i j = buf_read m i j" if "p \<le> i" "i + j \<le> ?w" for i j
      unfolding m'_def using overlay_read_other [OF fits] that by blast
  qed (rule len)
  moreover have es: "\<forall>i < entries_size a es. m' ! (?w + i) = (if i < k then b ! (0 + i) else 0xFF)"
    using nth room by simp
  have "?w + entries_size a es \<le> length m'" using room len by simp
  note cut = cut_layout [OF b(1) al this es]
  ultimately show "laid_out a m' p ws" by (simp add: ws_def laid_out_append)
  have size: "entries_size a ws \<le> entries_size a (old @ es)" using whole_size [of a k es] by (simp add: ws_def)
  from cut show "log_ends m' (p + entries_size a ws) (n - entries_size a ws)"
  proof (elim conjE disjE exE)
    assume "whole a k es = es"
    then have "blank m' (p + entries_size a ws) 4"
      using nth [of "entries_size a es + i" for i] k room unfolding blank_def ws_def by (auto simp: le_iff_add add.assoc)
    moreover have "12 \<le> n - entries_size a ws" using room size by simp
    ultimately show ?thesis by (simp add: log_ends_def)
  next
    fix j d fs
    assume eq: "es = whole a k es @ (j, d) # fs"
      and torn: "torn_entry m' (?w + entries_size a (whole a k es)) j d (k - entries_size a (whole a k es))"
    have "(j, d) \<in> set es" by (subst eq) simp
    then have "j < 2 ^ 32" using small by blast
    moreover have "entries_size a es = entries_size a (whole a k es) + entry_size a (length d) + entries_size a fs"
      by (subst eq) simp
    then have "18 + length d \<le> n - entries_size a ws"
    proof -
      have "entries_size a ws + entry_size a (length d) \<le> n" using room \<open>entries_size a es = _\<close> by (simp add: ws_def)
      then show ?thesis using entry_size_bounds [OF al, of "length d"] by linarith
    qed
    moreover have "k - entries_size a (whole a k es) \<le> 8 \<or> 12 \<le> k - entries_size a (whole a k es)"
      using off by auto
    ultimately show ?thesis using torn unfolding log_ends_def ws_def
      by (intro disjI2 exI [of _ j] exI [of _ d] exI [of _ "k - entries_size a (whole a k es)"]) (simp add: add.assoc)
  qed
qed

text \<open>The flush that loses power, and the start that finds what it left.\<close>

lemma power_loss_recovers:
  assumes loss: "power_loss_flash wr er cells sound works fails sector loses"
    and dev: "flash_device rd wr er cells good sector"
    and on: "log_on_flash rd wr er cells sound sector lg f s" and ne: "sl_cur s \<noteq> []"
    and room: "entries_size (align_of lg) (sl_cur s @ sl_pend s) + 12 \<le> sector"
    and cut: "loses f k" "k < entries_size (align_of lg) (sl_pend s)"
    and off: "k - entries_size (align_of lg) (whole (align_of lg) k (sl_pend s)) \<notin> {9, 10, 11}"
    and c: "config_ok rd wr er sector (length (cells f)) c" "address_align c = align_of lg"
      "param_replay_offset (parameters c) \<le> length (cells f)"
  defines "kept \<equiv> whole (align_of lg) k (sl_pend s)"
  shows "\<exists>lg1 f1 n1. blackbox_logger_flush True True lg f = Some (BLACKBOX_LOGGER_ERR_WRITE_FAIL, lg1, f1, n1)
    \<and> log_held sector (align_of lg) (cells f1) (sl_old s) (sl_full s) (sl_cur s @ kept)
    \<and> (\<forall>f2. good f2 \<and> cells f2 = cells f1 \<and> hint_lost (cells f2) (param_write_offset (parameters c)) \<longrightarrow>
        (\<exists>lg2. blackbox_logger_init over_old True True ESP_OK True True lg0 (Some c) f2 = Some (BLACKBOX_LOGGER_OK, lg2, f2)
          \<and> write_offset lg2 = length (sl_full s) * sector + entries_size (align_of lg) (sl_cur s @ kept)
          \<and> last_id lg2 = (sl_base s + length (sl_stored s @ kept)) mod 2 ^ 32
          \<and> logger_ready rd wr er cells good sector lg2 f2 []))"
proof -
  let ?a = "align_of lg" and ?h = "length (sl_full s) * sector" and ?wo = "write_offset lg" and ?cur = "sl_cur s" and ?pend = "sl_pend s"
  have h: "logger_ready rd wr er cells sound sector lg f ?pend" "log_held sector ?a (cells f) (sl_old s) (sl_full s) ?cur"
    "?wo = ?h + entries_size ?a ?cur" "blank (cells f) (?h + entries_size ?a ?cur) (sector - entries_size ?a ?cur)"
    "last_erased_sector lg = int (length (sl_full s))" "numbered (sl_base s) (sl_stored s @ ?pend)"
    using on ne by (simp_all add: log_on_flash_def)
  have al: "alignment ?a" using c(1,2) by (simp add: config_ok_def)
  have pne: "?pend \<noteq> []" using cut(2) by auto
  have lt: "entries_size ?a ?cur < sector" using room by simp
  note sec = sector_of [OF lt, of "length (sl_full s)", folded h(3)]
  have top: "?h + sector \<le> length (cells f)" using log_held_room [OF h(2)] by simp
  have cur: "laid_out ?a (cells f) ?h ?cur" using h(2) by (simp add: log_held_def)
  obtain lg1 f1 n1 b where fl: "blackbox_logger_flush True True lg f = Some (BLACKBOX_LOGGER_ERR_WRITE_FAIL, lg1, f1, n1)"
    "laid_out ?a b 0 ?pend" "entries_size ?a ?pend \<le> length b" "cells f1 = overlay (cells f) ?wo (take k b)"
  proof -
    have "?wo < length (cells f)" "entries_size ?a ?pend \<le> sec_end sector ?wo - ?wo" "last_erased_sector lg = int (?wo div sector)"
      using h(3,5) sec(1,4) lt top room by simp_all
    from power_loss_flash.flush_cut [OF loss h(1) pne this cut] show ?thesis using that by blast
  qed
  have small: "\<forall>(j, d) \<in> set ?pend. j < 2 ^ 32" using numbered_small [OF h(6)] by auto
  note log = cut_log [OF cur al h(4) fl(2,3) room top cut(2) small off]
  have cells: "cells f1 = overlay (cells f) (?h + entries_size ?a ?cur) (take k b)" using fl(4) h(3) by simp
  have len: "length (cells f1) = length (cells f)" using log(1) by (simp only: cells)
  have ends: "log_ends (cells f1) (?h + entries_size ?a (?cur @ kept)) (sector - entries_size ?a (?cur @ kept))"
    using log(3) by (simp only: cells kept_def)
  have fits: "?wo + length (take k b) \<le> length (cells f)" "?wo + length (take k b) \<le> sec_end sector ?wo"
    using h(3) room cut(2) top sec(3) by simp_all
  have other: "buf_read (cells f1) i n = buf_read (cells f) i n" if "i + n \<le> sec_start sector ?wo \<or> sec_end sector ?wo \<le> i" for i n
    unfolding fl(4) using that fits h(3) sec(2) by (intro overlay_read_other [OF fits(1)]) auto
  have "?h \<le> (length (sl_full s) + 1 + length (sl_old s)) * sector" by (intro mult_le_mono1) simp
  then have "sectors_at sector ?a (cells f1) 0 (sl_full s)" "sectors_at sector ?a (cells f1) (Suc (length (sl_full s))) (sl_old s)"
    using h(2) len by (auto intro!: sectors_at_other [OF _ al len other] simp: log_held_def sec(1))
  moreover have size: "entries_size ?a (?cur @ kept) \<le> sector" using log_ends_room [OF ends] by simp
  ultimately have held: "log_held sector ?a (cells f1) (sl_old s) (sl_full s) (?cur @ kept)"
    using log(2) h(2) len unfolding cells kept_def by (simp add: log_held_def)
  obtain fs where "?pend = kept @ fs" using whole_prefix [of ?pend ?a k] unfolding kept_def by blast
  then have num: "numbered (sl_base s) (concat (sl_old s) @ concat (sl_full s) @ ?cur @ kept)"
    using h(6) by (simp add: sl_stored_def add.assoc)
  have "\<exists>lg2. blackbox_logger_init over_old True True ESP_OK True True lg0 (Some c) f2 = Some (BLACKBOX_LOGGER_OK, lg2, f2)
          \<and> write_offset lg2 = ?h + entries_size ?a (?cur @ kept) \<and> last_id lg2 = (sl_base s + length (sl_stored s @ kept)) mod 2 ^ 32
          \<and> logger_ready rd wr er cells good sector lg2 f2 []" if f2: "good f2 \<and> cells f2 = cells f1 \<and> hint_lost (cells f2) (param_write_offset (parameters c))" for f2
  proof -
    have "length (cells f1) < 2 ^ 31" using c(1) len by (simp add: config_ok_def)
    then have "no_entry (cells f1) (?h + entries_size ?a (?cur @ kept)) (sector - entries_size ?a (?cur @ kept))"
      using log_ends_no_entry [OF ends] top size len by simp
    then have no: "no_entry (cells f2) (?h + entries_size ?a (?cur @ kept)) (sector - entries_size ?a (?cur @ kept))" using f2 by simp
    have "log_held sector (address_align c) (cells f2) (sl_old s) (sl_full s) (?cur @ kept)"
      "config_ok rd wr er sector (length (cells f2)) c" "good f2" "12 \<le> sector" "param_replay_offset (parameters c) \<le> length (cells f2)"
      using f2 held c len room by simp_all
    note at = this
    have hint: "hint_lost (cells f2) (param_write_offset (parameters c))" using f2 by blast
    from flash_device.log_found [OF dev at(1-4) hint at(5) _ _ num, unfolded c(2), OF no, of over_old lg0] ne
    show ?thesis by (simp add: sl_stored_def add.assoc)
  qed
  with fl(1) held show ?thesis by blast
qed

section \<open>On the mock partition\<close>

lemma mock_power_loss: "power_loss_flash mock_write mock_erase_range memory mock_sound mock_works mock_fails 4096 mock_cut"
  using mock_loss.power_loss_flash_axioms by (simp add: MOCK_SECTOR_SIZE_def)

lemma mock_loss_on:
  assumes "log_on_flash mock_read mock_write mock_erase_range memory mock_good 4096 lg m s"
  shows "log_on_flash mock_read mock_write mock_erase_range memory mock_sound 4096 lg (mock_inject_write_failure k m) s"
proof -
  have "memory (mock_inject_write_failure k m) = memory m" by (simp add: mock_inject_write_failure_def)
  moreover have "mock_sound (mock_inject_write_failure k m)" if "mock_good m"
    using that by (simp add: mock_good_def mock_sound_def mock_inject_write_failure_def)
  ultimately show ?thesis using assms by (simp add: log_on_flash_def logger_ready_def)
qed

text \<open>A new flash with one entry stored, and two more in the batch.\<close>

lemma mock_loss_example:
  "\<exists>lg m. log_on_flash mock_read mock_write mock_erase_range memory mock_good 4096 lg m
      \<lparr>sl_old = [[], [], []], sl_full = [], sl_cur = [(1, [7, 9])], sl_pend = [(2, [8]), (3, [5])], sl_base = 0\<rparr>
    \<and> align_of lg = 4 \<and> length (memory m) = 16384"
proof -
  have m: "length (memory mock_example) = 16384" "mock_good mock_example" "blank (memory mock_example) 0 (length (memory mock_example))"
    by (simp_all add: mock_example_def mock_good_def blank_def)
  have c: "config_ok mock_read mock_write mock_erase_range 4096 (length (memory mock_example)) config_example"
    "hint_lost (memory mock_example) (param_write_offset (parameters config_example))" "param_replay_offset (parameters config_example) \<le> length (memory mock_example)"
    "address_align config_example = 4" "batch_buf_size config_example = 1024"
    using config_ok_example m(1) by (simp_all add: config_example_def blackbox_logger_default_parameters_def)
  obtain lg where lg: "log_on_flash mock_read mock_write mock_erase_range memory mock_good 4096 lg mock_example
      (new_log (length (memory mock_example) div 4096))" "align_of lg = 4" "batch_buf_size (the (config_ptr lg)) = 1024"
    using flash_device.log_starts [OF mock_device c(1) m(2) _ c(2,3) m(3)] c(4,5) by fastforce
  let ?xs = "[Append [7, 9], Sync, Append [8], Append [5]]"
  let ?s = "\<lparr>sl_old = [[], [], []], sl_full = [], sl_cur = [(1, [7, 9])], sl_pend = [(2, [8]), (3, [5])], sl_base = 0\<rparr>"
  have "length (memory mock_example) div 4096 = 4" by (simp add: m(1))
  moreover have "replicate 3 [] = [[], [], [] :: log_entry list]" by (simp add: numeral_eq_Suc)
  ultimately have run: "sector_run 1024 4 4096 ?xs (new_log (length (memory mock_example) div 4096))
    = Some ([BLACKBOX_LOGGER_OK, BLACKBOX_LOGGER_OK, BLACKBOX_LOGGER_OK, BLACKBOX_LOGGER_OK], ?s)"
    by (simp add: new_log_def sector_store_def sl_number_def sl_stored_def entry_size_def)
  have op: "\<forall>d. Append d \<in> set ?xs \<longrightarrow> d \<noteq> [] \<and> entry_size 4 (length d) \<le> 1024" by (auto simp: entry_size_def)
  obtain lg' m' where r: "log_on_flash mock_read mock_write mock_erase_range memory mock_good 4096 lg' m' ?s" "align_of lg' = 4"
    using flash_device.feed_run_refines [OF mock_device lg(1) lg(3) [symmetric] lg(2) [symmetric] op run] by blast
  moreover from this(1) have "length (memory m') = 16384" by (simp add: log_on_flash_def log_held_def)
  ultimately show ?thesis by blast
qed

section \<open>Properties\<close>

text \<open>
  C13. A power loss during a flush loses no entry that was written whole. Let the batch fit into the
  current sector of a log (over any number of sectors and laps), behind an entry at least and with
  room left for one more header, and let the flash store \<open>k\<close> bytes of it and stop, though not
  behind one to three bytes of an entry's length field (C26 shows what happens there): the flush
  reports the failed write, all older entries are still there, with those of the batch whose image
  lies within the \<open>k\<close> bytes behind them; and a later start from the flash, with the default saved
  position or one that has no header behind it (C25 shows another one), finds the log again, with the
  write offset right behind the last of these entries and its number.
\<close>

theorem blackbox_power_loss_recovered:
  assumes "power_loss_flash wr er cells sound works fails sector loses"
    and "flash_device rd wr er cells good sector"
    and "log_on_flash rd wr er cells sound sector lg f s" and "sl_cur s \<noteq> []"
    and "entries_size (align_of lg) (sl_cur s @ sl_pend s) + 12 \<le> sector"
    and "loses f k" and "k < entries_size (align_of lg) (sl_pend s)"
    and "k - entries_size (align_of lg) (whole (align_of lg) k (sl_pend s)) \<notin> {9, 10, 11}"
    and "config_ok rd wr er sector (length (cells f)) c" and "address_align c = align_of lg"
    and "param_replay_offset (parameters c) \<le> length (cells f)"
  shows "\<exists>lg1 f1 n1. blackbox_logger_flush True True lg f = Some (BLACKBOX_LOGGER_ERR_WRITE_FAIL, lg1, f1, n1)
    \<and> log_held sector (align_of lg) (cells f1) (sl_old s) (sl_full s) (sl_cur s @ whole (align_of lg) k (sl_pend s))
    \<and> (\<forall>f2. good f2 \<and> cells f2 = cells f1 \<and> hint_lost (cells f2) (param_write_offset (parameters c)) \<longrightarrow>
        (\<exists>lg2. blackbox_logger_init over_old True True ESP_OK True True lg0 (Some c) f2 = Some (BLACKBOX_LOGGER_OK, lg2, f2)
          \<and> write_offset lg2 = length (sl_full s) * sector
              + entries_size (align_of lg) (sl_cur s @ whole (align_of lg) k (sl_pend s))
          \<and> last_id lg2 = (sl_base s + length (sl_stored s @ whole (align_of lg) k (sl_pend s))) mod 2 ^ 32
          \<and> logger_ready rd wr er cells good sector lg2 f2 []))"
  by (rule power_loss_recovers [OF assms])

lemma blackbox_power_loss_recovered_witness:
  "\<exists>lg m lg1 m1 n1 lg2. blackbox_logger_flush True True lg (mock_inject_write_failure 35 m)
      = Some (BLACKBOX_LOGGER_ERR_WRITE_FAIL, lg1, m1, n1)
    \<and> log_held 4096 4 (memory m1) [[], [], []] [] [(1, [7, 9]), (2, [8])]
    \<and> blackbox_logger_init True True True ESP_OK True True (logger_example 7) (Some config_example) (mock_example\<lparr>memory := memory m1\<rparr>)
      = Some (BLACKBOX_LOGGER_OK, lg2, mock_example\<lparr>memory := memory m1\<rparr>)
    \<and> write_offset lg2 = 40 \<and> last_id lg2 = 2"
proof -
  let ?s = "\<lparr>sl_old = [[], [], []], sl_full = [], sl_cur = [(1, [7, 9])], sl_pend = [(2, [8]), (3, [5 :: byte])], sl_base = 0\<rparr>"
  obtain lg m where lg: "log_on_flash mock_read mock_write mock_erase_range memory mock_good 4096 lg m ?s"
    "align_of lg = 4" "length (memory m) = 16384" using mock_loss_example by blast
  let ?f = "mock_inject_write_failure 35 m"
  have len: "length (memory ?f) = 16384" using lg(3) by (simp add: mock_inject_write_failure_def)
  have w: "sl_cur ?s @ whole 4 35 (sl_pend ?s) = [(1, [7, 9]), (2, [8])]" "sl_stored ?s @ whole 4 35 (sl_pend ?s) = [(1, [7, 9]), (2, [8])]"
    by (simp_all add: entry_size_def sl_stored_def)
  have run: "\<exists>lg1 f1 n1. blackbox_logger_flush True True lg ?f = Some (BLACKBOX_LOGGER_ERR_WRITE_FAIL, lg1, f1, n1)
    \<and> log_held 4096 (align_of lg) (memory f1) (sl_old ?s) (sl_full ?s) (sl_cur ?s @ whole (align_of lg) 35 (sl_pend ?s))
    \<and> (\<forall>f2. mock_good f2 \<and> memory f2 = memory f1 \<and> hint_lost (memory f2) (param_write_offset (parameters config_example)) \<longrightarrow>
        (\<exists>lg2. blackbox_logger_init True True True ESP_OK True True (logger_example 7) (Some config_example) f2
            = Some (BLACKBOX_LOGGER_OK, lg2, f2)
          \<and> write_offset lg2 = length (sl_full ?s) * 4096 + entries_size (align_of lg) (sl_cur ?s @ whole (align_of lg) 35 (sl_pend ?s))
          \<and> last_id lg2 = (sl_base ?s + length (sl_stored ?s @ whole (align_of lg) 35 (sl_pend ?s))) mod 2 ^ 32
          \<and> logger_ready mock_read mock_write mock_erase_range memory mock_good 4096 lg2 f2 []))"
    by (rule blackbox_power_loss_recovered [OF mock_power_loss mock_device mock_loss_on [OF lg(1)]])
      (use config_ok_example len in \<open>simp_all add: lg(2) entry_size_def mock_cut_def mock_inject_write_failure_def
        config_example_def blackbox_logger_default_parameters_def\<close>)
  have hint: "param_write_offset (parameters config_example) = 0" by (simp add: config_example_def blackbox_logger_default_parameters_def)
  have e: "length ([] :: log_entry list list) * 4096 + entries_size 4 [(1, [7, 9]), (2, [8])] = 40" "(sl_base ?s + length [(1, [7, 9]), (2, [8 :: byte])]) mod 2 ^ 32 = 2"
    "sl_old ?s = [[], [], []]" "sl_full ?s = []" by (simp_all add: entry_size_def)
  obtain lg1 m1 n1 where fl: "blackbox_logger_flush True True lg ?f = Some (BLACKBOX_LOGGER_ERR_WRITE_FAIL, lg1, m1, n1)"
    "log_held 4096 4 (memory m1) [[], [], []] [] [(1, [7, 9]), (2, [8])]"
    "\<And>f2. mock_good f2 \<Longrightarrow> memory f2 = memory m1 \<Longrightarrow>
        \<exists>lg2. blackbox_logger_init True True True ESP_OK True True (logger_example 7) (Some config_example) f2
            = Some (BLACKBOX_LOGGER_OK, lg2, f2) \<and> write_offset lg2 = 40 \<and> last_id lg2 = 2"
    using run unfolding lg(2) w e(3,4) e(1,2) hint by (metis hint_lost_default)
  have "mock_good (mock_example\<lparr>memory := memory m1\<rparr>)" using fl(2) by (simp add: mock_good_def mock_example_def log_held_def)
  with fl(1,2) fl(3) [of "mock_example\<lparr>memory := memory m1\<rparr>"] show ?thesis
    by - (rule exI [of _ lg], rule exI [of _ m], fastforce)
qed

end
