(* ===== verification/Spec2Isabelle.thy ===== *)
theory Spec2Isabelle
  imports Vault_Integrity First_Start Ble_Provisioner Blackbox_Power_Loss
begin

text \<open>
  Verification of the Modbus Vault firmware, an ESP32-S3 gateway that listens on an RS-485 line,
  captures Modbus RTU frames, publishes them over MQTT, and stores them in flash while it is
  offline to replay them later. File names below are relative to \<open>src/components\<close>.

  \<^bold>\<open>The program.\<close> Six tasks run over a pool of 32 slabs of 512 bytes. The line driver turns UART
  events into driver events; the analyzer feeds their bytes into the slicer, which buffers a frame
  in a slab until the line is silent, and checks the frame's CRC; the pipeline serializes the frame
  into a second slab; the router puts that record into the queue of the publishing service or, when
  that is offline, of the storing service, which appends it to the blackbox logger, a log over the
  sectors of a flash partition. Errors travel over an event bus to the metrics. The controller
  initialises everything in a fixed order, from a configuration store that keeps an image of 372
  bytes with version and CRC in flash, and starts and stops the tasks.

  \<^bold>\<open>The theories.\<close>
  \<^item> \<open>Prelude\<close>: bytes and words, 32-bit offsets as natural numbers with the wrap-around in
    \<open>u32_add\<close>, \<open>u32_sub\<close>, \<open>u32_mul\<close>, bounds-checked buffers, little-endian images, status codes.
  \<^item> \<open>Rtos\<close>: queues as a record of the calls the code makes with their documented behaviour
    \<open>queue_laws\<close> (and \<open>list_queue\<close>, which has it), queues at the level of memory, task notifications.
  \<^item> \<open>Utils_Crc\<close> (\<open>utils/utils.c\<close>): both variants of the CRC, their equality, what errors it detects.
  \<^item> \<open>Slab_Pool\<close> (\<open>slab_pool/slab_pool.c\<close>): the free list; the locale \<open>slab_allocator\<close> is what the
    users of slabs rely on, interpreted on the pool.
  \<^item> \<open>Modbus_Parser\<close>, \<open>Modbus_Slicer\<close>, \<open>Modbus_Analyzer\<close> (\<open>modbus_analyzer/\<close>), \<open>Rs485_Driver\<close>,
    \<open>Serializer\<close>, \<open>Telemetry_Pipeline\<close>, \<open>Telemetry_Service\<close>, \<open>Logger_Service\<close>, \<open>Mqtt_Bridge\<close>, and
    \<open>Router\<close> (\<open>controller/router.c\<close>): one record per module with its static state, one definition per
    function, and one turn of a task's loop as a function.
  \<^item> \<open>Event_Bus\<close>, \<open>Metrics\<close>: subscribers, the bus task, counters and their snapshot.
  \<^item> \<open>Vault\<close>: the data path put together as \<open>controller/system_init.c\<close> connects it: the turns of the
    tasks, the timers and the events of the MQTT client as \<open>vault_turn\<close>, and with the events of the line
    the step relation \<open>vault_step\<close> of all interleavings. \<open>Data_Path\<close>: its specification \<open>data_turn\<close> on values
    without buffers and pointers. \<open>Vault_Slabs\<close>: the invariant on the ownership of slabs, with the
    simulation, and the way of one frame. \<open>Vault_Integrity\<close>: whole runs and their history.
    \<open>Store_Forward\<close>: the way of a frame over the logger, while the service is offline.
  \<^item> \<open>Blackbox_Format\<close>, \<open>Blackbox_Flash\<close>, \<open>Blackbox_Logger\<close>, \<open>Blackbox_Flush\<close>, \<open>Blackbox_Replay\<close>,
    \<open>Blackbox_Queue\<close>, \<open>Blackbox_Torn\<close>, \<open>Blackbox_Recovery\<close> (\<open>blackbox_logger/\<close>): the entry format; the flash as
    the locale \<open>flash_device\<close>, interpreted on the tests' \<open>test/mock_partition.c\<close>; the operations; what is in
    flash after a flush; the replay; the logger as two lists of payloads \<open>queue_do\<close>; what the validation says
    of an entry that was written in part; the search for the write position after a restart, from
    the default position or a saved one with no header behind it (\<open>hint_lost\<close>).
    \<open>Blackbox_Search\<close>: that this search comes to an end, from whatever position, on every flash in which
    no header says a length that leads out of its sector (\<open>lengths_inside\<close>).
    \<open>Blackbox_Log\<close>: the log over all sectors and any number of laps, as lists of entries per sector
    (\<open>sector_log\<close>, \<open>sector_run\<close>), and the start from the flash that such a run left.
    \<open>Blackbox_Fault\<close>: the same flash when a write may fail after any byte (the locale \<open>unreliable_flash\<close>,
    which every \<open>flash_device\<close> is, interpreted on the mock partition with an injected fault), and the
    invariant of a logger that has a failed flush behind it. \<open>Blackbox_Power_Loss\<close>: a flash that stops at
    a byte (\<open>power_loss_flash\<close>), and the start from what it left.
  \<^item> \<open>Nvs_Manager\<close> (\<open>nvs_manager/\<close>): the configuration store over the locale \<open>nvs_driver\<close>, interpreted
    on the tests' \<open>test/include/mock_nvs.h\<close>; \<open>config_values\<close> is its abstraction to a map.
    \<open>System_Config\<close>, \<open>Ble_Provisioner\<close> (\<open>system_config/\<close>): its users.
  \<^item> \<open>Wifi_Manager\<close>, \<open>Runtime_Tasks\<close>, \<open>Debug_Pins\<close>: the modules of these names.
  \<^item> \<open>Controller\<close> (\<open>controller/system_init.c\<close>, \<open>controller/controller.c\<close>): the order of the
    initialisation over a record of the components' operations, and the controller's loop as the
    step relation \<open>controller_step\<close>, with stop requests at any moment.
  \<^item> \<open>Firmware\<close>: one record of the states of all modules, the modules' models as the components of the
    controller, \<open>app_main\<close> of \<open>main/modbus_vault.c\<close>, and the start from power-up to the state in which the
    data path's theorems apply. \<open>First_Start\<close>: the first start of a new device to the end.

  \<^bold>\<open>Conventions.\<close> Functions on static data or on an object behind a pointer take the object and
  return it changed; other pointers that may be null are options, function pointers are present or
  absent. What is outside \<open>src/\<close> is an argument: outcomes of locks, timers, UART, Wi-Fi and MQTT
  calls, the code of protobuf-c, the queues, the flash and NVS drivers. Calls to the outside are
  lists in the results. A lock that is waited for without a limit makes its section atomic; a lock
  with a limit has its outcome as an argument. The result \<open>None\<close> is undefined behaviour of C, an
  access outside an object, a failed assertion of FreeRTOS, or a call that does not return; theorems
  state \<open>Some\<close> where the code has to return. Loops are structural recursion, \<open>function\<close> with a
  measure, or \<open>partial_function (option)\<close>; no fuel is used.

  \<^bold>\<open>What is shown.\<close>
  \<^item> Data path: the system with buffers refines the one with values (\<open>vault_refines_values\<close>); what is
    published or queued in a run are packed messages of frames received with a correct CRC, in order and
    without overlap (\<open>vault_records_are_line_frames\<close>); slabs never have two owners in any interleaving
    (\<open>vault_slabs_exclusive\<close>); a correct frame becomes exactly one record (\<open>vault_delivers_frame\<close>); the
    slicer puts chunks together and stays inside its slab; pool conservation; CRC.
  \<^item> Logger: within a sector it is a queue for every sequence of writes, flushes and replays, accepted
    or not (\<open>blackbox_refines_queue\<close>); over all sectors and laps, writes and flushes from a blank flash
    refine lists of entries per sector, and the next start finds the end of the log
    (\<open>blackbox_log_survives_restart\<close>); a flush stores every entry whole in its sector and keeps the invariant; a flushed batch
    is replayed; a flush whose writes fail loses no record (\<open>blackbox_flush_survives_faults\<close>); recovery finds
    the end of the log, also behind a torn entry, and after a power loss in a flush it finds every entry
    that was written whole (\<open>blackbox_power_loss_recovered\<close>); validation accepts what was written and rejects
    bursts of two bytes; the chunk computation ends with the longest run of entries that fits.
  \<^item> Configuration: read and write refine the lookup in a map and its update; a flushed configuration
    survives a restart; a start takes the stored image or the defaults; every operation has a result
    and keeps the images' size; the logger's position makes the round trip.
  \<^item> The whole: on a new device, from power-up, a frame captured while the broker is away is stored and
    published unchanged when the connection is there (\<open>firmware_stores_and_forwards\<close>).
  \<^item> Control: from power-up, when every resource is there and the log's flash is one on which the search
    ends (\<open>flash_searchable\<close>), all components are initialised, the tasks are started, whatever becomes of the
    debug pins (\<open>firmware_reaches_running\<close>), and the first frame is stored (\<open>firmware_stores_first_frame\<close>);
    running means that all tasks were started; the backoff of the Wi-Fi manager.
  \<^item> Where the code does not do what it means to, a theorem states what it does, and the finding of
    the manifest names it: entries of the next sector are not replayed, a restart goes back or erases
    the current sector, or reads outside its buffer when an entry was torn within its length field, a log filled to the end is stuck, frames with a bad CRC keep their slab, the
    storing task drops the third record of a turn, events lose their payload in the bus, an early MQTT
    connection is overwritten, formatted storage loses the defaults, a failed save is forgotten,
    stopping reads behind the task table, the first recovery is refused, a full SSID is lost.

  \<^bold>\<open>Bounds.\<close> The logger's theorems assume the documented set-up: at least two whole sectors, a
  partition below \<open>2 ^ 31\<close> bytes, a batch buffer of at most a sector. Entry numbers are 32-bit; their
  order is the code's signed difference. Line events carry at most 256 bytes, the task's buffer.

  \<^bold>\<open>Not modelled.\<close> The test cases, log output, the toggling of debug pins on the data path, the getters of \<open>system_config.c\<close> that only return the
  address of an MQTT, Wi-Fi or driver structure, and the preemption of a task inside a turn: a turn is
  atomic in \<open>vault_step\<close>, which the code's locks give for every single shared object but not across
  them. Initialisation and the end of the tasks are modelled, but are not steps of \<open>vault_step\<close>; a
  handle whose task has ended is one with no task in the model, while in C it dangles. Errors of
  \<open>uart_read_bytes\<close> and \<open>uart_get_buffered_data_len\<close> are left out. In
  \<open>Firmware\<close> the configuration that a module is given is a copy, so the position that the logger
  writes into its configuration reaches \<open>system_config.c\<close> only in \<open>system_config_position_roundtrip\<close>,
  which takes it as given; and no MQTT event arrives during the start.
\<close>

end
